(* ===== verification/RS_Prelude.thy ===== *)
theory RS_Prelude
  imports Main "HOL-Library.Word"
begin

text \<open>
  Shared material of the development: bytes and host byte order, C arrays with explicit
  bounds faults, C strings, the reachability predicate of the step relations, and the
  interfaces (locales) that several components provide or rely on.
\<close>

unbundle bit_operations_syntax

section \<open>Theorem collections\<close>

named_theorems byte_simps "byte order and word splitting"
named_theorems buf_simps "reads and writes of C arrays"

section \<open>Bytes and host byte order\<close>

type_synonym byte = "8 word"
type_synonym bytes = "8 word list"

datatype endian = Little | Big

definition be16 :: "16 word \<Rightarrow> bytes" where
  "be16 w = [ucast (drop_bit 8 w), ucast w]"

definition be32 :: "32 word \<Rightarrow> bytes" where
  "be32 w = [ucast (drop_bit 24 w), ucast (drop_bit 16 w), ucast (drop_bit 8 w), ucast w]"

definition un_be16 :: "bytes \<Rightarrow> 16 word" where
  "un_be16 bs = push_bit 8 (ucast (bs ! 0)) OR ucast (bs ! 1)"

definition un_be32 :: "bytes \<Rightarrow> 32 word" where
  "un_be32 bs = push_bit 24 (ucast (bs ! 0)) OR push_bit 16 (ucast (bs ! 1))
     OR push_bit 8 (ucast (bs ! 2)) OR ucast (bs ! 3)"

definition bswap16 :: "16 word \<Rightarrow> 16 word" where
  "bswap16 w = un_be16 (rev (be16 w))"

definition bswap32 :: "32 word \<Rightarrow> 32 word" where
  "bswap32 w = un_be32 (rev (be32 w))"

text \<open>The object representation of an integer on a host, as \<open>memcpy\<close> sees it.\<close>

definition store16 :: "endian \<Rightarrow> 16 word \<Rightarrow> bytes" where
  "store16 e w = (case e of Little \<Rightarrow> rev (be16 w) | Big \<Rightarrow> be16 w)"

definition store32 :: "endian \<Rightarrow> 32 word \<Rightarrow> bytes" where
  "store32 e w = (case e of Little \<Rightarrow> rev (be32 w) | Big \<Rightarrow> be32 w)"

definition load16 :: "endian \<Rightarrow> bytes \<Rightarrow> 16 word" where
  "load16 e bs = (case e of Little \<Rightarrow> un_be16 (rev bs) | Big \<Rightarrow> un_be16 bs)"

definition load32 :: "endian \<Rightarrow> bytes \<Rightarrow> 32 word" where
  "load32 e bs = (case e of Little \<Rightarrow> un_be32 (rev bs) | Big \<Rightarrow> un_be32 bs)"

text \<open>
  \<open>host_to_network_short\<close> and its three companions are the platform's \<open>htons\<close> family:
  a byte swap on a little-endian host, the identity on a big-endian one.
\<close>

definition hton16 :: "endian \<Rightarrow> 16 word \<Rightarrow> 16 word" where
  "hton16 e w = (case e of Little \<Rightarrow> bswap16 w | Big \<Rightarrow> w)"

definition hton32 :: "endian \<Rightarrow> 32 word \<Rightarrow> 32 word" where
  "hton32 e w = (case e of Little \<Rightarrow> bswap32 w | Big \<Rightarrow> w)"

abbreviation ntoh16 :: "endian \<Rightarrow> 16 word \<Rightarrow> 16 word" where
  "ntoh16 \<equiv> hton16"

abbreviation ntoh32 :: "endian \<Rightarrow> 32 word \<Rightarrow> 32 word" where
  "ntoh32 \<equiv> hton32"

lemma length_be [simp]: "length (be16 w) = 2" "length (be32 v) = 4"
  by (simp_all add: be16_def be32_def)

lemma length_store [simp]: "length (store16 e w) = 2" "length (store32 e v) = 4"
  by (cases e; simp add: store16_def store32_def)+

lemma un_be16_be16 [byte_simps]: "un_be16 (be16 w) = w"
  unfolding un_be16_def be16_def
  by (rule bit_word_eqI) (auto simp: bit_simps not_less)

lemma un_be32_be32 [byte_simps]: "un_be32 (be32 w) = w"
proof (rule bit_word_eqI)
  fix n :: nat assume "n < LENGTH(32)"
  then consider "n < 8" | "8 \<le> n" "n < 16" | "16 \<le> n" "n < 24" | "24 \<le> n" "n < 32"
    by fastforce
  then show "bit (un_be32 (be32 w)) n = bit w n"
    by cases (auto simp: un_be32_def be32_def bit_simps)
qed

lemma byte_bit_beyond [simp]:
  "\<not> bit (b :: byte) (8 + n)" "\<not> bit (b :: byte) (16 + n)" "\<not> bit (b :: byte) (24 + n)"
  by (auto dest: bit_imp_le_length)

lemma be16_un_be16 [byte_simps]: "be16 (un_be16 [a, b]) = [a, b]"
  unfolding un_be16_def be16_def
  by (auto intro!: bit_word_eqI simp: bit_simps)

lemma be32_un_be32 [byte_simps]: "be32 (un_be32 [a, b, c, d]) = [a, b, c, d]"
  unfolding un_be32_def be32_def
  by (auto intro!: bit_word_eqI simp: bit_simps)

lemma be16_bswap16 [byte_simps]: "be16 (bswap16 w) = rev (be16 w)"
  by (simp add: bswap16_def be16_def [of w] be16_un_be16)

lemma be32_bswap32 [byte_simps]: "be32 (bswap32 w) = rev (be32 w)"
  by (simp add: bswap32_def be32_def [of w] be32_un_be32)

text \<open>The byte order of the host cancels out: what goes to the wire is big-endian.\<close>

lemma store16_hton16 [byte_simps]: "store16 e (hton16 e w) = be16 w"
  by (cases e) (simp_all add: store16_def hton16_def be16_bswap16)

lemma store32_hton32 [byte_simps]: "store32 e (hton32 e w) = be32 w"
  by (cases e) (simp_all add: store32_def hton32_def be32_bswap32)

lemma ntoh16_load16 [byte_simps]: "ntoh16 e (load16 e [a, b]) = un_be16 [a, b]"
  by (cases e) (simp_all add: load16_def hton16_def bswap16_def be16_un_be16)

lemma ntoh32_load32 [byte_simps]: "ntoh32 e (load32 e [a, b, c, d]) = un_be32 [a, b, c, d]"
  by (cases e) (simp_all add: load32_def hton32_def bswap32_def be32_un_be32)

lemma ntoh16_load16_be16 [byte_simps]: "ntoh16 e (load16 e (be16 w)) = w"
  by (simp add: be16_def ntoh16_load16) (simp add: be16_def [symmetric] un_be16_be16)

lemma ntoh32_load32_be32 [byte_simps]: "ntoh32 e (load32 e (be32 w)) = w"
  by (simp add: be32_def ntoh32_load32) (simp add: be32_def [symmetric] un_be32_be32)

section \<open>C arrays and faults\<close>

text \<open>
  What C++ leaves undefined, and what ends the process, is a fault of the model:
  an access past the end of an allocation, a call through a null pointer, \<open>pop\<close> or
  \<open>front\<close> of an empty queue, \<open>std::terminate\<close>.
\<close>

datatype fault = Out_of_bounds | Null_deref | Empty_pop | Terminated

text \<open>\<open>memcpy (buf + off, bs, length bs)\<close>, \<open>memcpy (dst, buf + off, n)\<close>, \<open>memset (buf, 0, n)\<close>.\<close>

definition mem_write :: "bytes \<Rightarrow> nat \<Rightarrow> bytes \<Rightarrow> fault + bytes" where
  "mem_write buf off bs =
     (if off + length bs \<le> length buf
      then Inr (take off buf @ bs @ drop (off + length bs) buf)
      else Inl Out_of_bounds)"

definition mem_read :: "bytes \<Rightarrow> nat \<Rightarrow> nat \<Rightarrow> fault + bytes" where
  "mem_read buf off n =
     (if off + n \<le> length buf then Inr (take n (drop off buf)) else Inl Out_of_bounds)"

definition mem_zero :: "bytes \<Rightarrow> nat \<Rightarrow> fault + bytes" where
  "mem_zero buf n = mem_write buf 0 (replicate n 0)"

text \<open>The characters of a C string: everything before the first NUL.\<close>

definition cstr :: "bytes \<Rightarrow> bytes" where
  "cstr bs = takeWhile (\<lambda>b. b \<noteq> 0) bs"

text \<open>Sequencing of computations that may fault.\<close>

fun bind_f :: "'e + 'a \<Rightarrow> ('a \<Rightarrow> 'e + 'b) \<Rightarrow> 'e + 'b" where
  "bind_f (Inl e) k = Inl e"
| "bind_f (Inr x) k = k x"

lemma bind_f_Inr [simp]:
  "bind_f m k = Inr y \<longleftrightarrow> (\<exists>x. m = Inr x \<and> k x = Inr y)"
  by (cases m) auto

lemma mem_write_Inr [buf_simps]:
  "off + length bs \<le> length buf \<Longrightarrow>
   mem_write buf off bs = Inr (take off buf @ bs @ drop (off + length bs) buf)"
  by (simp add: mem_write_def)

lemma mem_write_oob [buf_simps]:
  "length buf < off + length bs \<Longrightarrow> mem_write buf off bs = Inl Out_of_bounds"
  by (simp add: mem_write_def)

lemma length_mem_write: "mem_write buf off bs = Inr buf' \<Longrightarrow> length buf' = length buf"
  by (auto simp: mem_write_def split: if_splits)

lemma mem_read_Inr [buf_simps]:
  "off + n \<le> length buf \<Longrightarrow> mem_read buf off n = Inr (take n (drop off buf))"
  by (simp add: mem_read_def)

lemma mem_zero_Inr [buf_simps]:
  "n \<le> length buf \<Longrightarrow> mem_zero buf n = Inr (replicate n 0 @ drop n buf)"
  by (simp add: mem_zero_def mem_write_def)

lemma mem_read_write_same:
  "mem_write buf off bs = Inr buf' \<Longrightarrow> mem_read buf' off (length bs) = Inr bs"
  by (auto simp: mem_write_def mem_read_def split: if_splits)

lemma cstr_append_nul [simp]: "0 \<notin> set bs \<Longrightarrow> cstr (bs @ 0 # rest) = bs"
  by (induction bs) (auto simp: cstr_def)

lemma cstr_no_nul: "0 \<notin> set (cstr bs)"
  by (auto simp: cstr_def dest: set_takeWhileD)

section \<open>Narrowing and widening of small lengths\<close>

lemma sint_of_nat32: "k < 2 ^ 31 \<Longrightarrow> sint (of_nat k :: 32 word) = int k"
  by (simp add: signed_of_nat signed_take_bit_int_eq_self)

lemma sint_of_nat64: "k < 2 ^ 63 \<Longrightarrow> sint (of_nat k :: 64 word) = int k"
  by (simp add: signed_of_nat signed_take_bit_int_eq_self)

lemma scast_of_nat: "k < 2 ^ 31 \<Longrightarrow> scast (of_nat k :: 32 word) = (of_nat k :: 64 word)"
  by (simp add: scast_eq sint_of_nat32)

lemma positive_of_nat64: "k < 2 ^ 63 \<Longrightarrow> 0 < k \<Longrightarrow> 0 <s (of_nat k :: 64 word)"
  by (simp add: word_sless_alt sint_of_nat64)

lemma unat_of_nat32: "k < 2 ^ 32 \<Longrightarrow> unat (of_nat k :: 32 word) = k"
  by (simp add: unat_of_nat)

lemma unat_of_nat64: "k < 2 ^ 64 \<Longrightarrow> unat (of_nat k :: 64 word) = k"
  by (simp add: unat_of_nat)

lemma of_nat_inj32:
  "j < 2 ^ 32 \<Longrightarrow> k < 2 ^ 32 \<Longrightarrow> (of_nat j :: 32 word) = of_nat k \<longleftrightarrow> j = k"
  by (metis unat_of_nat32)

end
