(* ===== verification/Global_Defs.thy ===== *)
theory Global_Defs
  imports RS_Prelude
begin

text \<open>
  \<open>ResourceServer/include/global.hpp\<close>: sizes and limits, the enumerations of the protocol,
  \<open>enum_to_int\<close>, the scope guard \<open>Defer\<close>, \<open>Assert\<close> and \<open>base64_decode\<close>.
  Enumerations with a fixed underlying type hold every value of that type (a
  \<open>static_cast\<close> from the wire may produce any of them), so they are words with named
  constants.
\<close>

section \<open>Units, header layout and limits\<close>

definition B :: int where "B = 8"

definition KB :: int where "KB = 1024 * B"

definition HEAD_TOTAL_LEN :: nat where "HEAD_TOTAL_LEN = 6"

definition HEAD_ID_LEN :: nat where "HEAD_ID_LEN = 2"

definition HEAD_DATA_LEN :: nat where "HEAD_DATA_LEN = 4"

definition MAX_RESVQUE :: nat where "MAX_RESVQUE = 20000000"

definition MAX_SENDQUE :: nat where "MAX_SENDQUE = 20000000"

definition BUFFER_TOTAL_LEN :: nat where "BUFFER_TOTAL_LEN = 1024 * 2"

definition MSG_TOTAL_LEN :: nat where "MSG_TOTAL_LEN = BUFFER_TOTAL_LEN"

definition MAX_FILE_LEN :: int where "MAX_FILE_LEN = 2 * B"

lemmas global_lens [simp] =
  HEAD_TOTAL_LEN_def HEAD_ID_LEN_def HEAD_DATA_LEN_def BUFFER_TOTAL_LEN_def MSG_TOTAL_LEN_def

section \<open>Enumerations\<close>

type_synonym ReqId = "16 word"

definition E_ID_TEST_MSG_REQ :: ReqId where "E_ID_TEST_MSG_REQ = 1001"

definition E_ID_TEST_MSG_RSP :: ReqId where "E_ID_TEST_MSG_RSP = 1002"

definition E_ID_UPLOAD_FILE_REQ :: ReqId where "E_ID_UPLOAD_FILE_REQ = 1003"

definition E_ID_UPLOAD_FILE_RSP :: ReqId where "E_ID_UPLOAD_FILE_RSP = 1004"

type_synonym ResStaus = "16 word"

definition E_SUCESS :: ResStaus where "E_SUCESS = 0"

definition E_INVALID_ID :: ResStaus where "E_INVALID_ID = 1"

definition E_INVALID_JSON :: ResStaus where "E_INVALID_JSON = 3"

definition enum_to_int :: "16 word \<Rightarrow> 16 word" where
  "enum_to_int e = e"

lemmas req_ids = E_ID_TEST_MSG_REQ_def E_ID_TEST_MSG_RSP_def
  E_ID_UPLOAD_FILE_REQ_def E_ID_UPLOAD_FILE_RSP_def

lemmas res_status = E_SUCESS_def E_INVALID_ID_def E_INVALID_JSON_def

section \<open>Assert and Defer\<close>

text \<open>
  \<open>Assert\<close> has a body in debug builds only (\<open>dbg\<close> is \<open>_DEBUG\<close>): there a false
  condition ends the process, otherwise nothing happens.
\<close>

definition Assert :: "bool \<Rightarrow> bool \<Rightarrow> fault + unit" where
  "Assert dbg e = (if dbg \<and> \<not> e then Inl Terminated else Inr ())"

lemma Assert_release [simp]: "Assert False e = Inr ()"
  by (simp add: Assert_def)

lemma Assert_true [simp]: "Assert dbg True = Inr ()"
  by (simp add: Assert_def)

text \<open>
  \<open>Defer d (f)\<close> runs \<open>f\<close> when the scope ends, whether the rest of the scope returned or
  threw: the guarded body gives the state it leaves behind and how it ended.
\<close>

definition Defer :: "('s \<Rightarrow> 's) \<Rightarrow> ('s \<Rightarrow> 's \<times> 'r) \<Rightarrow> 's \<Rightarrow> 's \<times> 'r" where
  "Defer f body s = (let (s', r) = body s in (f s', r))"

section \<open>base64\_decode\<close>

text \<open>
  OpenSSL's decoding filter is the parameter \<open>bio_read\<close>: given the text behind the memory
  BIO (the C string of the argument, as \<open>BIO_new_mem_buf\<close> with length -1 takes
  \<open>strlen\<close>) and the capacity of the output buffer, the returned count and the bytes left in
  the buffer. A count of zero gives the empty string; a negative count, converted to
  \<open>std::size_t\<close>, exceeds \<open>max_size\<close> of \<open>std::string\<close>, whose constructor throws
  \<open>std::length_error\<close>.
\<close>

datatype cpp_exception = Length_error | Json_type_error | Bad_optional_access | Filesystem_error

definition base64_decode ::
  "(bytes \<Rightarrow> nat \<Rightarrow> int \<times> bytes) \<Rightarrow> bytes \<Rightarrow> cpp_exception + bytes" where
  "base64_decode bio_read encoded_str =
     (let (decoded_length, decoded) = bio_read (cstr encoded_str) (length encoded_str)
      in if decoded_length = 0 then Inr []
         else if decoded_length < 0 then Inl Length_error
         else Inr (take (nat decoded_length) decoded))"

text \<open>The documented contract of \<open>BIO_read\<close>: it never returns more than the buffer holds.\<close>

definition bio_bounded :: "(bytes \<Rightarrow> nat \<Rightarrow> int \<times> bytes) \<Rightarrow> bool" where
  "bio_bounded bio_read \<longleftrightarrow>
     (\<forall>s n. fst (bio_read s n) \<le> int n \<and> length (snd (bio_read s n)) = n)"

lemma base64_decode_bound:
  "bio_bounded bio_read \<Longrightarrow> base64_decode bio_read s = Inr out \<Longrightarrow> length out \<le> length s"
  by (auto simp: base64_decode_def bio_bounded_def Let_def split: if_splits prod.splits)
    (metis fst_conv min.cobounded1 snd_conv)

lemma base64_decode_negative:
  "fst (bio_read (cstr s) (length s)) < 0 \<Longrightarrow> base64_decode bio_read s = Inl Length_error"
  by (auto simp: base64_decode_def Let_def split: prod.splits)

end
