(* ===== verification/RS_Interfaces.thy ===== *)
theory RS_Interfaces
  imports RS_Prelude
begin

text \<open>
  The interfaces the components rely on: transition systems with an invariant, prefix
  codecs of wire formats, first-in first-out queues and keyed stores. Each locale states
  the laws a provider owes its client, and proves the client's lemmas from them once; the
  theory of every provider interprets it on the code's own model.
\<close>

section \<open>Reachable states and invariants\<close>

inductive reachable :: "('s \<Rightarrow> bool) \<Rightarrow> ('s \<Rightarrow> 's \<Rightarrow> bool) \<Rightarrow> 's \<Rightarrow> bool"
  for start :: "'s \<Rightarrow> bool" and step :: "'s \<Rightarrow> 's \<Rightarrow> bool" where
  reach_start: "start s \<Longrightarrow> reachable start step s"
| reach_step: "reachable start step s \<Longrightarrow> step s t \<Longrightarrow> reachable start step t"

lemma reachable_steps:
  "reachable start step s \<Longrightarrow> step\<^sup>*\<^sup>* s t \<Longrightarrow> reachable start step t"
  by (rotate_tac, induction rule: rtranclp_induct) (auto intro: reach_step)

locale invariant_system =
  fixes start :: "'s \<Rightarrow> bool" and step :: "'s \<Rightarrow> 's \<Rightarrow> bool" and inv :: "'s \<Rightarrow> bool"
  assumes inv_start: "start s \<Longrightarrow> inv s"
    and inv_step: "inv s \<Longrightarrow> step s t \<Longrightarrow> inv t"
begin

lemma inv_reachable: "reachable start step s \<Longrightarrow> inv s"
  by (induction rule: reachable.induct) (auto intro: inv_start inv_step)

lemma inv_steps: "inv s \<Longrightarrow> step\<^sup>*\<^sup>* s t \<Longrightarrow> inv t"
  by (rotate_tac, induction rule: rtranclp_induct) (auto intro: inv_step)

end

section \<open>Prefix codecs\<close>

text \<open>
  A wire format: a decoder that peels one encoded value off the front of a byte stream.
  Encodings are never empty, so a stream of them can be cut up again.
\<close>

fun decode_n :: "(bytes \<Rightarrow> ('a \<times> bytes) option) \<Rightarrow> nat \<Rightarrow> bytes \<Rightarrow> ('a list \<times> bytes) option" where
  "decode_n dec 0 bs = Some ([], bs)"
| "decode_n dec (Suc n) bs =
     (case dec bs of None \<Rightarrow> None
      | Some (x, rest) \<Rightarrow>
          (case decode_n dec n rest of None \<Rightarrow> None
           | Some (xs, rest') \<Rightarrow> Some (x # xs, rest')))"

locale prefix_codec =
  fixes enc :: "'a \<Rightarrow> bytes" and dec :: "bytes \<Rightarrow> ('a \<times> bytes) option" and ok :: "'a \<Rightarrow> bool"
  assumes dec_enc: "ok x \<Longrightarrow> dec (enc x @ rest) = Some (x, rest)"
    and enc_nonempty: "ok x \<Longrightarrow> enc x \<noteq> []"
begin

lemma decode_stream:
  "list_all ok xs \<Longrightarrow> decode_n dec (length xs) (concat (map enc xs) @ rest) = Some (xs, rest)"
  by (induction xs) (auto simp: dec_enc)

lemma enc_inj: "ok x \<Longrightarrow> ok y \<Longrightarrow> enc x @ r = enc y @ r' \<Longrightarrow> x = y \<and> r = r'"
  by (metis Pair_inject dec_enc option.inject)

lemma stream_inj:
  "list_all ok xs \<Longrightarrow> list_all ok ys \<Longrightarrow> concat (map enc xs) = concat (map enc ys) \<Longrightarrow> xs = ys"
proof (induction xs arbitrary: ys)
  case Nil
  then show ?case by (cases ys) (auto dest: enc_nonempty)
next
  case (Cons x xs)
  show ?case
  proof (cases ys)
    case Nil
    with Cons.prems show ?thesis by (auto dest: enc_nonempty)
  next
    case (Cons y ys')
    with Cons.prems have "x = y \<and> concat (map enc xs) = concat (map enc ys')"
      using enc_inj [of x y "concat (map enc xs)" "concat (map enc ys')"] by simp
    with Cons Cons.prems Cons.IH [of ys'] show ?thesis by simp
  qed
qed

end

section \<open>Queues\<close>

text \<open>
  What \<open>std::queue\<close> owes: \<open>push\<close> at the back, \<open>front\<close> and \<open>pop\<close> at the other end.
  \<open>serve\<close> pops until \<open>n\<close> elements have been taken.
\<close>

fun serve :: "('q \<Rightarrow> bool) \<Rightarrow> ('q \<Rightarrow> 'a) \<Rightarrow> ('q \<Rightarrow> 'q) \<Rightarrow> nat \<Rightarrow> 'q \<Rightarrow> 'a list" where
  "serve emp fr pp 0 q = []"
| "serve emp fr pp (Suc n) q = (if emp q then [] else fr q # serve emp fr pp n (pp q))"

locale fifo =
  fixes empty :: "'q \<Rightarrow> bool" and push :: "'a \<Rightarrow> 'q \<Rightarrow> 'q" and front :: "'q \<Rightarrow> 'a"
    and pop :: "'q \<Rightarrow> 'q" and elems :: "'q \<Rightarrow> 'a list"
  assumes empty_elems: "empty q \<longleftrightarrow> elems q = []"
    and elems_push: "elems (push x q) = elems q @ [x]"
    and front_elems: "elems q \<noteq> [] \<Longrightarrow> front q = hd (elems q)"
    and elems_pop: "elems q \<noteq> [] \<Longrightarrow> elems (pop q) = tl (elems q)"
begin

lemma serve_take: "serve empty front pop n q = take n (elems q)"
proof (induction n arbitrary: q)
  case (Suc n)
  then show ?case
    by (cases "elems q") (auto simp: empty_elems front_elems elems_pop)
qed simp

lemma elems_fold_push: "elems (fold push xs q) = elems q @ xs"
  by (induction xs arbitrary: q) (simp_all add: elems_push)

lemma served_in_order:
  "elems q = [] \<Longrightarrow> serve empty front pop (length xs) (fold push xs q) = xs"
  by (simp add: serve_take elems_fold_push)

end

section \<open>Keyed stores\<close>

locale keyed_store =
  fixes get :: "'m \<Rightarrow> 'k \<Rightarrow> 'v option" and put :: "'k \<Rightarrow> 'v \<Rightarrow> 'm \<Rightarrow> 'm"
    and del :: "'k \<Rightarrow> 'm \<Rightarrow> 'm"
  assumes get_put: "get (put k v m) k' = (if k' = k then Some v else get m k')"
    and get_del: "get (del k m) k' = (if k' = k then None else get m k')"
begin

lemma get_del_put: "get (del k (put k v m)) k' = (if k' = k then None else get m k')"
  by (simp add: get_put get_del)

lemma put_after_del: "get (put k v (del k m)) k = Some v"
  by (simp add: get_put)

lemma get_fold_del: "get (fold del ks m) k = (if k \<in> set ks then None else get m k)"
  by (induction ks arbitrary: m) (auto simp: get_del)

end

end
