(* ===== verification/Msg_Node.thy ===== *)
theory Msg_Node
  imports Global_Defs RS_Interfaces
begin

text \<open>
  \<open>ResourceServer/include/msgnode.h\<close> and \<open>src/msgnode.cpp\<close>: the message nodes. A node owns
  an array of \<open>total_len + 1\<close> characters, the last of them a NUL; lengths are 32-bit and
  wrap. \<open>operator new\<close> returns uninitialised memory: its contents are the argument
  \<open>junk\<close> of the constructors.
\<close>

section \<open>The node types\<close>

record msg_node =
  body :: bytes
  total_len :: "32 word"
  current_len :: "32 word"

record recv_node = msg_node +
  recv_msg_id :: ReqId

record send_node = msg_node +
  send_msg_id :: ReqId

definition new_chars :: "(nat \<Rightarrow> byte) \<Rightarrow> 32 word \<Rightarrow> bytes" where
  "new_chars junk n = map junk [0..<unat n]"

section \<open>Constructors\<close>

definition MsgNodeBase_msg ::
  "endian \<Rightarrow> (nat \<Rightarrow> byte) \<Rightarrow> bytes \<Rightarrow> 32 word \<Rightarrow> fault + msg_node" where
  "MsgNodeBase_msg e junk msg n =
     (let total = n + of_nat HEAD_TOTAL_LEN;
          net_lenght = store16 e (ntoh16 e (ucast n))
      in bind_f (mem_read net_lenght 0 HEAD_TOTAL_LEN) (\<lambda>hd.
         bind_f (mem_write (new_chars junk (total + 1)) 0 hd) (\<lambda>b.
         bind_f (mem_read msg 0 (unat n)) (\<lambda>m.
         bind_f (mem_write b HEAD_TOTAL_LEN m) (\<lambda>b.
         bind_f (mem_write b (unat total) [0]) (\<lambda>b.
         Inr \<lparr>body = b, total_len = total, current_len = 0\<rparr>))))))"

definition MsgNodeBase_len :: "(nat \<Rightarrow> byte) \<Rightarrow> 32 word \<Rightarrow> fault + msg_node" where
  "MsgNodeBase_len junk n =
     bind_f (mem_write (new_chars junk (n + 1)) (unat n) [0]) (\<lambda>b.
     Inr \<lparr>body = b, total_len = n, current_len = 0\<rparr>)"

definition node_clear :: "'a msg_node_scheme \<Rightarrow> fault + 'a msg_node_scheme" where
  "node_clear n =
     bind_f (mem_zero (body n) (unat (total_len n))) (\<lambda>b.
     Inr (n\<lparr>body := b, current_len := 0\<rparr>))"

definition RecvNode :: "(nat \<Rightarrow> byte) \<Rightarrow> 32 word \<Rightarrow> ReqId \<Rightarrow> fault + recv_node" where
  "RecvNode junk n mid =
     bind_f (MsgNodeBase_len junk n) (\<lambda>n.
     Inr (msg_node.extend n \<lparr>recv_msg_id = mid\<rparr>))"

definition get_msgID :: "recv_node \<Rightarrow> ReqId" where
  "get_msgID n = recv_msg_id n"

definition is_fulled :: "'a msg_node_scheme \<Rightarrow> bool" where
  "is_fulled n \<longleftrightarrow> total_len n = current_len n"

definition SendNode ::
  "endian \<Rightarrow> (nat \<Rightarrow> byte) \<Rightarrow> bytes \<Rightarrow> 32 word \<Rightarrow> ReqId \<Rightarrow> fault + send_node" where
  "SendNode e junk msg len mid =
     bind_f (MsgNodeBase_len junk (len + of_nat HEAD_TOTAL_LEN)) (\<lambda>n.
     bind_f (mem_write (body n) 0 (store16 e (hton16 e (enum_to_int mid)))) (\<lambda>b.
     bind_f (mem_write b HEAD_ID_LEN (store32 e (hton32 e len))) (\<lambda>b.
     bind_f (mem_read msg 0 (unat len)) (\<lambda>m.
     bind_f (mem_write b HEAD_TOTAL_LEN m) (\<lambda>b.
     Inr (msg_node.extend
            (n\<lparr>body := b, current_len := len + of_nat HEAD_TOTAL_LEN\<rparr>)
            \<lparr>send_msg_id = mid\<rparr>))))))"

text \<open>
  The node \<open>CSession::send\<close> makes for a string: \<open>c_str ()\<close> is the characters and a NUL, and
  \<open>length ()\<close> is narrowed to \<open>unsigned int\<close>.
\<close>

definition send_node_of :: "endian \<Rightarrow> (nat \<Rightarrow> byte) \<Rightarrow> ReqId \<Rightarrow> bytes \<Rightarrow> fault + send_node" where
  "send_node_of e junk mid data = SendNode e junk (data @ [0]) (of_nat (length data)) mid"

text \<open>What a node hands to \<open>async_write\<close>: \<open>current_len\<close> bytes of its body.\<close>

definition wire :: "'a msg_node_scheme \<Rightarrow> bytes" where
  "wire n = take (unat (current_len n)) (body n)"

section \<open>Well-formed nodes\<close>

definition node_wf :: "'a msg_node_scheme \<Rightarrow> bool" where
  "node_wf n \<longleftrightarrow> length (body n) = Suc (unat (total_len n)) \<and>
     current_len n \<le> total_len n \<and> body n ! unat (total_len n) = 0"

lemma length_new_chars [simp]: "length (new_chars junk n) = unat n"
  by (simp add: new_chars_def)

lemma unat_plus_1: "n \<noteq> - 1 \<Longrightarrow> unat (n + 1 :: 32 word) = Suc (unat n)"
  using unatSuc [of n] by (simp add: eq_neg_iff_add_eq_0 add.commute)

lemma MsgNodeBase_len_ok:
  assumes "n \<noteq> - 1"
  shows "MsgNodeBase_len junk n =
    Inr \<lparr>body = map junk [0..<unat n] @ [0], total_len = n, current_len = 0\<rparr>"
proof -
  have "new_chars junk (n + 1) = map junk [0..<unat n] @ [junk (unat n)]"
    using assms by (simp add: new_chars_def unat_plus_1)
  then show ?thesis by (simp add: MsgNodeBase_len_def mem_write_def)
qed

lemma MsgNodeBase_len_wrap: "MsgNodeBase_len junk (- 1) = Inl Out_of_bounds"
  by (simp add: MsgNodeBase_len_def mem_write_def)

lemma MsgNodeBase_len_wf: "MsgNodeBase_len junk n = Inr d \<Longrightarrow> node_wf d"
  by (cases "n = - 1") (auto simp: MsgNodeBase_len_wrap MsgNodeBase_len_ok node_wf_def nth_append)

lemma RecvNode_ok:
  "n \<noteq> - 1 \<Longrightarrow> RecvNode junk n i =
    Inr \<lparr>body = map junk [0..<unat n] @ [0], total_len = n, current_len = 0, recv_msg_id = i\<rparr>"
  by (simp add: RecvNode_def MsgNodeBase_len_ok msg_node.extend_def)

lemma RecvNode_wrap: "RecvNode junk (- 1) i = Inl Out_of_bounds"
  by (simp add: RecvNode_def MsgNodeBase_len_wrap)

lemma RecvNode_wf: "RecvNode junk n i = Inr d \<Longrightarrow> node_wf d \<and> recv_msg_id d = i \<and> total_len d = n"
  by (cases "n = - 1") (auto simp: RecvNode_wrap RecvNode_ok node_wf_def nth_append)

lemma node_clear_ok:
  "node_wf n \<Longrightarrow> node_clear n =
    Inr (n\<lparr>body := replicate (unat (total_len n)) 0 @ [0], current_len := 0\<rparr>)"
  by (simp add: node_clear_def mem_zero_Inr node_wf_def)
    (metis Cons_nth_drop_Suc drop_all lessI order_refl)

lemma node_clear_wf: "node_wf n \<Longrightarrow> node_clear n = Inr n' \<Longrightarrow> node_wf n' \<and> current_len n' = 0"
  by (auto simp: node_clear_ok node_wf_def nth_append)

section \<open>The frame a send node puts on the wire\<close>

text \<open>The wire format of the protocol: id and length in network order, then the payload.\<close>

definition frame :: "ReqId \<Rightarrow> bytes \<Rightarrow> bytes" where
  "frame mid data = be16 mid @ be32 (of_nat (length data)) @ data"

lemma length_frame [simp]: "length (frame mid data) = 6 + length data"
  by (simp add: frame_def)

lemma SendNode_ok:
  assumes "unat len + 8 \<le> 2 ^ 32" "unat len \<le> length msg"
  shows "SendNode e junk msg len mid =
    Inr \<lparr>body = frame mid (take (unat len) msg) @ [0], total_len = len + 6,
         current_len = len + 6, send_msg_id = mid\<rparr>"
proof -
  have tot: "unat (len + 6) = unat len + 6"
    using assms(1) by (simp add: unat_word_ariths)
  have ne: "len + 6 \<noteq> - 1"
  proof
    assume "len + 6 = - 1"
    then have "unat (len + 6) = unat (- 1 :: 32 word)" by (rule arg_cong)
    then show False
      using tot assms(1) by (simp add: unsigned_minus_1_eq_mask mask_eq_exp_minus_1)
  qed
  have base: "MsgNodeBase_len junk (len + 6) =
      Inr \<lparr>body = map junk [0..<unat len + 6] @ [0], total_len = len + 6, current_len = 0\<rparr>"
    by (simp only: MsgNodeBase_len_ok [OF ne] tot)
  show ?thesis
    using assms(2)
    by (simp add: SendNode_def base enum_to_int_def store16_hton16 store32_hton32 buf_simps
        frame_def msg_node.extend_def)
qed

lemma wire_SendNode:
  assumes "unat len + 8 \<le> 2 ^ 32" "unat len \<le> length msg"
    "SendNode e junk msg len mid = Inr n"
  shows "wire n = frame mid (take (unat len) msg)"
proof -
  have "unat (len + 6) = unat len + 6"
    using assms(1) by (simp add: unat_word_ariths)
  with assms(2) SendNode_ok [OF assms(1,2)] assms(3) show ?thesis by (auto simp: wire_def)
qed

lemma SendNode_fault:
  assumes "2 ^ 32 < unat len + 8" "unat len \<le> length msg"
  shows "SendNode e junk msg len mid \<noteq> Inr r"
proof
  assume "SendNode e junk msg len mid = Inr r"
  then obtain nd b1 b2 b3 where nd: "MsgNodeBase_len junk (len + 6) = Inr nd"
    and w: "mem_write (body nd) 0 (be16 mid) = Inr b1" "mem_write b1 2 (be32 len) = Inr b2"
      "mem_write b2 6 (take (unat len) msg) = Inr b3"
    by (auto simp: SendNode_def store16_hton16 store32_hton32 enum_to_int_def mem_read_def
        assms(2))
  have "length b2 = length (body nd)"
    using w by (auto dest!: length_mem_write)
  moreover have "length (body nd) = unat (len + 7)"
    using nd by (auto simp: MsgNodeBase_len_def add.commute dest!: length_mem_write)
  ultimately have "unat len + 6 \<le> unat (len + 7)"
    using w(3) assms(2) by (auto simp: mem_write_def split: if_splits)
  moreover have "unat len < 2 ^ LENGTH(32)"
    by (rule unsigned_less)
  then have "unat (len + 7) < unat len"
    using assms(1) by (simp add: unat_word_ariths mod_if)
  ultimately show False by simp
qed

text \<open>\<open>std::size_t\<close> to \<open>unsigned int\<close>: only the length modulo $2^{32}$ survives.\<close>

definition narrowed :: "bytes \<Rightarrow> nat" where
  "narrowed data = length data mod 2 ^ 32"

lemma unat_length_narrowed: "unat (of_nat (length data) :: 32 word) = narrowed data"
  by (simp add: narrowed_def unat_of_nat)

lemma send_node_of_iff:
  "(\<exists>n. send_node_of e junk mid data = Inr n) \<longleftrightarrow> narrowed data + 8 \<le> 2 ^ 32"
proof -
  have le: "unat (of_nat (length data) :: 32 word) \<le> length (data @ [0])"
    by (simp add: unat_length_narrowed narrowed_def le_SucI)
  show ?thesis
    unfolding send_node_of_def
    using SendNode_fault [OF _ le, of e junk mid] SendNode_ok [OF _ le, of e junk mid]
    by (metis not_le unat_length_narrowed)
qed

lemma send_node_of_wire:
  assumes "send_node_of e junk mid data = Inr n"
  shows "wire n = frame mid (take (narrowed data) data)" and "current_len n = total_len n"
    and "node_wf n" and "send_msg_id n = mid"
proof -
  have le: "unat (of_nat (length data) :: 32 word) \<le> length (data @ [0])"
    and lt: "narrowed data \<le> length data"
    by (simp_all add: unat_length_narrowed narrowed_def le_SucI)
  have k: "unat (of_nat (length data) :: 32 word) + 8 \<le> 2 ^ 32"
    using assms send_node_of_iff [of e junk mid data] by (auto simp: unat_length_narrowed)
  show "wire n = frame mid (take (narrowed data) data)"
    using wire_SendNode [OF k le] assms lt by (simp add: send_node_of_def unat_length_narrowed)
  have n: "n = \<lparr>body = frame mid (take (narrowed data) data) @ [0],
      total_len = of_nat (length data) + 6, current_len = of_nat (length data) + 6,
      send_msg_id = mid\<rparr>"
    using assms lt by (auto simp: send_node_of_def SendNode_ok [OF k le] unat_length_narrowed)
  have "unat (of_nat (length data) + 6 :: 32 word) = narrowed data + 6"
    using k by (simp add: unat_word_ariths unat_length_narrowed)
  with n lt show "node_wf n" by (simp add: node_wf_def nth_append)
  show "current_len n = total_len n" "send_msg_id n = mid" by (simp_all add: n)
qed

section \<open>Bounds of the constructors\<close>

lemma msgnode_copy_overreads: "MsgNodeBase_msg e junk msg n = Inl Out_of_bounds"
  by (simp add: MsgNodeBase_msg_def mem_read_def)

end
