(* ===== verification/CSession.thy ===== *)
theory CSession
  imports Msg_Node
begin

text \<open>
  \<open>ResourceServer/include/csession.h\<close> and the construction, accessors and \<open>close\<close> of
  \<open>src/csession.cpp\<close>: the state of one connection. The two halves of its behaviour, reading
  frames and writing the send queue, are in the theories \<open>Session_Read\<close> and
  \<open>Session_Write\<close>.
\<close>

section \<open>State\<close>

text \<open>
  An \<open>std::ofstream\<close>: the path of the open file, and the error state that makes every
  later output a no-op.
\<close>

record ofstream =
  os_path :: "bytes option"
  os_fail :: bool

text \<open>
  The outstanding \<open>asio::async_read\<close> of a session: its completion handler is the one
  of \<open>read_head\<close>, or the one of \<open>read_message_full\<close> with the captured
  \<open>read_total_len\<close>.
\<close>

datatype read_op = Rd_head | Rd_body "64 word"

record csession =
  m_session_id :: string
  m_uid :: "16 word"
  m_data :: bytes
  m_send_queue :: "send_node list"
  m_head_node :: msg_node
  m_recv_node :: "recv_node option"
  m_file_out :: ofstream
  m_is_stop :: bool
  m_is_head :: bool
  m_sock_open :: bool
  m_read :: "read_op option"

text \<open>\<open>LogicNode\<close>: the session (by its id) and the received node.\<close>

record logic_node =
  ln_session :: string
  ln_recv_node :: recv_node

text \<open>What a handler does outside its session.\<close>

datatype effect = Post_message logic_node | Clear_session string

section \<open>Construction and accessors\<close>

text \<open>The session id is the text of a fresh random UUID, an argument here.\<close>

definition CSession_new :: "(nat \<Rightarrow> byte) \<Rightarrow> string \<Rightarrow> fault + csession" where
  "CSession_new junk uuid =
     bind_f (MsgNodeBase_len junk (of_nat HEAD_TOTAL_LEN)) (\<lambda>h.
     Inr \<lparr>m_session_id = uuid, m_uid = 0, m_data = replicate BUFFER_TOTAL_LEN 0,
          m_send_queue = [], m_head_node = h, m_recv_node = None,
          m_file_out = \<lparr>os_path = None, os_fail = False\<rparr>, m_is_stop = False,
          m_is_head = True, m_sock_open = True, m_read = None\<rparr>)"

definition get_session_id :: "csession \<Rightarrow> string" where
  "get_session_id s = m_session_id s"

definition get_uid :: "csession \<Rightarrow> 16 word" where
  "get_uid s = m_uid s"

definition is_stop :: "csession \<Rightarrow> bool" where
  "is_stop s = m_is_stop s"

definition get_file_stream :: "csession \<Rightarrow> ofstream" where
  "get_file_stream s = m_file_out s"

definition close :: "csession \<Rightarrow> csession" where
  "close s = s\<lparr>m_sock_open := False, m_is_stop := True\<rparr>"

text \<open>What every error branch of a completion handler does.\<close>

definition fail_session :: "csession \<Rightarrow> csession \<times> effect list" where
  "fail_session s = (close s, [Clear_session (get_session_id (close s))])"

section \<open>The read buffer and the head node\<close>

definition zero_buf :: bytes where
  "zero_buf = replicate BUFFER_TOTAL_LEN 0"

definition zero_head :: msg_node where
  "zero_head = \<lparr>body = replicate 6 0 @ [0], total_len = 6, current_len = 0\<rparr>"

definition sess_wf :: "csession \<Rightarrow> bool" where
  "sess_wf s \<longleftrightarrow> length (m_data s) = BUFFER_TOTAL_LEN \<and> node_wf (m_head_node s) \<and>
     total_len (m_head_node s) = 6"

lemma length_zero_buf [simp]: "length zero_buf = 2048"
  by (simp add: zero_buf_def)

lemma sess_wf_new: "CSession_new junk uuid = Inr s \<Longrightarrow> sess_wf s"
  by (auto simp: CSession_new_def sess_wf_def MsgNodeBase_len_ok node_wf_def nth_append)

lemma CSession_new_fields:
  "CSession_new junk uuid = Inr s \<Longrightarrow> m_send_queue s = [] \<and> m_session_id s = uuid \<and> \<not> is_stop s"
  by (auto simp: CSession_new_def is_stop_def)

lemma CSession_new_ok: "\<exists>s. CSession_new junk uuid = Inr s"
  by (simp add: CSession_new_def MsgNodeBase_len_ok)

lemma close_simps [simp]:
  "m_sock_open (close s) = False" "m_is_stop (close s) = True" "m_read (close s) = m_read s"
  "m_session_id (close s) = m_session_id s" "m_send_queue (close s) = m_send_queue s"
  "m_data (close s) = m_data s" "m_head_node (close s) = m_head_node s"
  by (simp_all add: close_def)

lemma clear_head:
  assumes "sess_wf s"
  shows "node_clear (m_head_node s) = Inr zero_head"
proof -
  have "node_clear (m_head_node s) = Inr ((m_head_node s)
      \<lparr>body := replicate (unat (total_len (m_head_node s))) 0 @ [0], current_len := 0\<rparr>)"
    using assms by (intro node_clear_ok) (simp add: sess_wf_def)
  with assms show ?thesis
    by (cases "m_head_node s") (simp add: sess_wf_def zero_head_def)
qed

lemma zero_data:
  "length buf = BUFFER_TOTAL_LEN \<Longrightarrow> mem_zero buf BUFFER_TOTAL_LEN = Inr zero_buf"
  by (simp add: mem_zero_Inr zero_buf_def)

end
