(* ===== verification/Session_Read.thy ===== *)
theory Session_Read
  imports CSession
begin

text \<open>
  The reading half of \<open>src/csession.cpp\<close>: \<open>start\<close>, \<open>read_head\<close>, \<open>read_message_full\<close> and
  their completion handlers. \<open>asio::async_read\<close> is composed: its handler runs once, after
  the whole buffer has been filled (then \<open>bytes_transfered\<close> is the size asked for) or with
  an error. \<open>dbg\<close> is \<open>_DEBUG\<close>, \<open>e\<close> the byte order of the host.
\<close>

section \<open>Starting a read\<close>

definition read_head :: "csession \<Rightarrow> fault + csession" where
  "read_head s =
     bind_f (mem_zero (m_data s) BUFFER_TOTAL_LEN) (\<lambda>d.
     bind_f (node_clear (m_head_node s)) (\<lambda>h.
     Inr (s\<lparr>m_data := d, m_head_node := h, m_read := Some Rd_head\<rparr>)))"

definition read_message_full :: "64 word \<Rightarrow> csession \<Rightarrow> fault + csession" where
  "read_message_full read_total_len s =
     bind_f (mem_zero (m_data s) BUFFER_TOTAL_LEN) (\<lambda>d.
     Inr (s\<lparr>m_data := d, m_read := Some (Rd_body read_total_len)\<rparr>))"

definition start :: "csession \<Rightarrow> fault + csession" where
  "start s =
     bind_f (mem_zero (m_data s) BUFFER_TOTAL_LEN) (\<lambda>d. read_head (s\<lparr>m_data := d\<rparr>))"

definition read_len :: "read_op \<Rightarrow> nat" where
  "read_len r = (case r of Rd_head \<Rightarrow> HEAD_TOTAL_LEN
                 | Rd_body n \<Rightarrow> min (unat n) BUFFER_TOTAL_LEN)"

section \<open>Completion handlers\<close>

definition on_head :: "endian \<Rightarrow> (nat \<Rightarrow> byte) \<Rightarrow> bool \<Rightarrow> nat \<Rightarrow> csession
    \<Rightarrow> fault + csession \<times> effect list" where
  "on_head e junk ec bytes_transfered s =
     (if ec then Inr (fail_session s)
      else if bytes_transfered = 0 then Inr (s, [])
      else
        bind_f (mem_read (m_data s) 0 HEAD_TOTAL_LEN) (\<lambda>src.
        bind_f (mem_write (body (m_head_node s)) 0 src) (\<lambda>hb.
        let head = (m_head_node s)
              \<lparr>body := hb, current_len := current_len (m_head_node s) + of_nat HEAD_TOTAL_LEN\<rparr> in
        bind_f (mem_read hb 0 HEAD_ID_LEN) (\<lambda>idb.
        let mid = ntoh16 e (load16 e idb) in
        bind_f (mem_read hb HEAD_ID_LEN HEAD_DATA_LEN) (\<lambda>lb.
        let body_len = ntoh32 e (load32 e lb) in
        bind_f (RecvNode junk body_len mid) (\<lambda>n.
        bind_f (read_message_full (scast body_len)
                  (s\<lparr>m_head_node := head, m_recv_node := Some n\<rparr>)) (\<lambda>s'.
        Inr (s', []))))))))"

definition on_body :: "bool \<Rightarrow> 64 word \<Rightarrow> bool \<Rightarrow> nat \<Rightarrow> csession
    \<Rightarrow> fault + csession \<times> effect list" where
  "on_body dbg read_total_len ec bytes_transfered s =
     (if ec then Inr (fail_session s)
      else
        bind_f (Assert dbg (bytes_transfered > 0)) (\<lambda>_.
        case m_recv_node s of None \<Rightarrow> Inl Null_deref
        | Some n \<Rightarrow>
          bind_f (mem_read (m_data s) 0 bytes_transfered) (\<lambda>src.
          bind_f (mem_write (body n) (unat (current_len n)) src) (\<lambda>b.
          let n' = n\<lparr>body := b, current_len := current_len n + of_nat bytes_transfered\<rparr>;
              s' = s\<lparr>m_recv_node := Some n'\<rparr> in
          if is_fulled n' then
            bind_f (read_head s') (\<lambda>s''.
            Inr (s'', [Post_message
              \<lparr>ln_session = m_session_id s', ln_recv_node = n'\<rparr>]))
          else
            let residual = read_total_len - of_nat bytes_transfered in
            bind_f (Assert dbg (0 <s residual)) (\<lambda>_.
            bind_f (read_message_full residual s') (\<lambda>s''.
            Inr (s'', [])))))))"

text \<open>
  A read completes: the socket has put \<open>data\<close> at the front of \<open>m_data\<close>, and the
  handler of the outstanding operation runs.
\<close>

definition complete_read :: "bool \<Rightarrow> endian \<Rightarrow> (nat \<Rightarrow> byte) \<Rightarrow> read_op \<Rightarrow> bool \<Rightarrow> bytes
    \<Rightarrow> csession \<Rightarrow> fault + csession \<times> effect list" where
  "complete_read dbg e junk rop ec data s =
     bind_f (mem_write (m_data s) 0 data) (\<lambda>d.
     let s' = s\<lparr>m_data := d, m_read := None\<rparr> in
     case rop of Rd_head \<Rightarrow> on_head e junk ec (length data) s'
     | Rd_body n \<Rightarrow> on_body dbg n ec (length data) s')"

section \<open>A whole connection\<close>

text \<open>
  \<open>session_run\<close> feeds a session the bytes its peer sends before closing: each outstanding
  read takes the bytes it asked for, or ends with end-of-file when fewer are left. Every
  completion spends one unit of fuel, whose value also picks the contents of fresh memory.
\<close>

datatype run_end = Stopped csession | Faulted fault | Fuel_out

fun session_run :: "bool \<Rightarrow> endian \<Rightarrow> (nat \<Rightarrow> nat \<Rightarrow> byte) \<Rightarrow> nat \<Rightarrow> csession \<Rightarrow> bytes
    \<Rightarrow> effect list \<times> run_end" where
  "session_run dbg e junk 0 s inp = ([], Fuel_out)"
| "session_run dbg e junk (Suc fuel) s inp =
     (case m_read s of None \<Rightarrow> ([], Stopped s)
      | Some rop \<Rightarrow>
          let eof = length inp < read_len rop in
          (case complete_read dbg e (junk fuel) rop eof (take (read_len rop) inp) s of
             Inl f \<Rightarrow> ([], Faulted f)
           | Inr (s', es) \<Rightarrow>
               (let (es', r) = session_run dbg e junk fuel s' (drop (read_len rop) inp)
                in (es @ es', r))))"

declare session_run.simps [simp del]

section \<open>The states between two completions\<close>

definition idle :: "csession \<Rightarrow> recv_node option \<Rightarrow> csession" where
  "idle s n = s\<lparr>m_data := zero_buf, m_head_node := zero_head, m_recv_node := n,
     m_read := Some Rd_head\<rparr>"

definition in_body :: "csession \<Rightarrow> bytes \<Rightarrow> recv_node \<Rightarrow> 64 word \<Rightarrow> csession" where
  "in_body s h n r = s\<lparr>m_data := zero_buf,
     m_head_node := \<lparr>body = h @ [0], total_len = 6, current_len = 6\<rparr>,
     m_recv_node := Some n, m_read := Some (Rd_body r)\<rparr>"

lemma m_read_states [simp]:
  "m_read (idle s n) = Some Rd_head" "m_read (in_body s h d r) = Some (Rd_body r)"
  "m_session_id (idle s n) = m_session_id s" "m_session_id (in_body s h d r) = m_session_id s"
  "m_recv_node (idle s n) = n" "m_recv_node (in_body s h d r) = Some d"
  by (simp_all add: idle_def in_body_def)

lemma sess_wf_idle [simp]: "sess_wf (idle s n)"
  by (simp add: sess_wf_def idle_def zero_head_def node_wf_def nth_append)

lemma sess_wf_in_body [simp]: "length h = 6 \<Longrightarrow> sess_wf (in_body s h n r)"
  by (simp add: sess_wf_def in_body_def node_wf_def nth_append)

lemma idle_idle [simp]: "idle (idle s n) n' = idle s n'" "idle (in_body s h d r) n' = idle s n'"
  by (simp_all add: idle_def in_body_def)

lemma in_body_twice [simp]: "in_body (idle s n) h d r = in_body s h d r"
  "in_body (in_body s h' d' r') h d r = in_body s h d r"
  by (simp_all add: idle_def in_body_def)

lemma read_head_ok: "sess_wf s \<Longrightarrow> read_head s = Inr (idle s (m_recv_node s))"
  by (simp add: read_head_def clear_head idle_def sess_wf_def zero_data
      del: BUFFER_TOTAL_LEN_def)

lemma read_message_full_ok:
  "length (m_data s) = BUFFER_TOTAL_LEN \<Longrightarrow>
   read_message_full r s = Inr (s\<lparr>m_data := zero_buf, m_read := Some (Rd_body r)\<rparr>)"
  by (simp add: read_message_full_def zero_data del: BUFFER_TOTAL_LEN_def)

lemma start_ok: "sess_wf s \<Longrightarrow> start s = Inr (idle s (m_recv_node s))"
proof -
  assume wf: "sess_wf s"
  then have "sess_wf (s\<lparr>m_data := zero_buf\<rparr>)" by (simp add: sess_wf_def)
  moreover have "mem_zero (m_data s) BUFFER_TOTAL_LEN = Inr zero_buf"
    using wf by (intro zero_data) (simp add: sess_wf_def)
  ultimately show ?thesis
    by (simp add: start_def read_head_ok idle_def del: BUFFER_TOTAL_LEN_def)
qed

section \<open>One completion\<close>

lemma complete_head:
  "complete_read dbg e junk Rd_head False (be16 i @ be32 L) (idle s n) =
    bind_f (RecvNode junk L i) (\<lambda>nd. Inr (in_body s (be16 i @ be32 L) nd (scast L), []))"
proof -
  have hb: "mem_write (replicate 6 0 @ [0]) 0 (be16 i @ be32 L) = Inr ((be16 i @ be32 L) @ [0])"
    by (simp add: mem_write_def)
  have dt: "mem_write zero_buf 0 (be16 i @ be32 L) = Inr ((be16 i @ be32 L) @ drop 6 zero_buf)"
    by (simp add: mem_write_def)
  show ?thesis
    by (cases "RecvNode junk L i")
      (simp_all add: complete_read_def on_head_def idle_def in_body_def dt mem_read_def hb
        zero_head_def ntoh16_load16_be16 ntoh32_load32_be32 read_message_full_ok)
qed

lemma complete_head_ok:
  "L \<noteq> - 1 \<Longrightarrow> complete_read dbg e junk Rd_head False (be16 i @ be32 L) (idle s n) =
    Inr (in_body s (be16 i @ be32 L)
           \<lparr>body = map junk [0..<unat L] @ [0], total_len = L, current_len = 0,
            recv_msg_id = i\<rparr> (scast L), [])"
  by (simp add: complete_head RecvNode_ok)

lemma complete_head_wrap:
  "complete_read dbg e junk Rd_head False (be16 i @ be32 (- 1)) (idle s n) = Inl Out_of_bounds"
  by (simp only: complete_head RecvNode_wrap bind_f.simps)

lemma complete_eof:
  "length data \<le> length (m_data s) \<Longrightarrow> complete_read dbg e junk rop True data s =
     Inr (fail_session (s\<lparr>m_data := data @ drop (length data) (m_data s), m_read := None\<rparr>))"
  by (cases rop) (simp_all add: complete_read_def mem_write_def on_head_def on_body_def)

text \<open>A chunk of the body arrives: the node grows by it, and is posted when it is full.\<close>

definition grow :: "recv_node \<Rightarrow> bytes \<Rightarrow> recv_node" where
  "grow n c = n\<lparr>body := take (unat (current_len n)) (body n) @ c
       @ drop (unat (current_len n) + length c) (body n),
     current_len := current_len n + of_nat (length c)\<rparr>"

lemma complete_body:
  assumes "length c \<le> 2048" "unat (current_len n) + length c \<le> length (body n)"
    and "dbg \<Longrightarrow> c \<noteq> [] \<and> (is_fulled (grow n c) \<or> 0 <s r - of_nat (length c))"
    and "length h = 6"
  shows "complete_read dbg e junk (Rd_body r) False c (in_body s h n r) =
    (if is_fulled (grow n c)
     then Inr (idle s (Some (grow n c)), [Post_message
            \<lparr>ln_session = m_session_id s, ln_recv_node = grow n c\<rparr>])
     else Inr (in_body s h (grow n c) (r - of_nat (length c)), []))"
proof -
  let ?d = "c @ drop (length c) zero_buf"
  let ?s = "(in_body s h n r)\<lparr>m_data := ?d, m_read := None\<rparr>"
  have dt: "mem_write zero_buf 0 c = Inr ?d"
    using assms(1) by (simp add: mem_write_def)
  have a1: "Assert dbg (c \<noteq> []) = Inr ()"
    and a2: "\<not> is_fulled (grow n c) \<Longrightarrow> Assert dbg (0 <s r - of_nat (length c)) = Inr ()"
    using assms(3) by (auto simp: Assert_def)
  have wf: "sess_wf (?s\<lparr>m_recv_node := Some (grow n c)\<rparr>)"
    using assms(1,4) by (simp add: sess_wf_def in_body_def node_wf_def nth_append)
  have rh: "read_head (?s\<lparr>m_recv_node := Some (grow n c)\<rparr>) = Inr (idle s (Some (grow n c)))"
    using wf by (simp add: read_head_ok) (simp add: idle_def in_body_def)
  have rm: "read_message_full k (?s\<lparr>m_recv_node := Some (grow n c)\<rparr>)
      = Inr (in_body s h (grow n c) k)" for k
    using assms(1) by (simp add: read_message_full_ok) (simp add: in_body_def)
  have wr: "mem_write (body n) (unat (current_len n)) c = Inr (body (grow n c))"
    using assms(2) by (simp add: mem_write_def grow_def)
  have g: "n\<lparr>body := body (grow n c), current_len := current_len n + of_nat (length c)\<rparr> = grow n c"
    by (simp add: grow_def)
  have "complete_read dbg e junk (Rd_body r) False c (in_body s h n r)
      = on_body dbg r False (length c) ?s"
    by (simp add: complete_read_def in_body_def dt)
  also have "\<dots> = (if is_fulled (grow n c)
     then Inr (idle s (Some (grow n c)), [Post_message
            \<lparr>ln_session = m_session_id s, ln_recv_node = grow n c\<rparr>])
     else Inr (in_body s h (grow n c) (r - of_nat (length c)), []))"
    using a2 by (auto simp: on_body_def a1 mem_read_def wr g Let_def rh rm)
  finally show ?thesis .
qed

section \<open>Receiving one body\<close>

text \<open>A receive node of which \<open>pre\<close> has arrived and \<open>hole\<close> is still old memory.\<close>

definition part_node :: "ReqId \<Rightarrow> bytes \<Rightarrow> bytes \<Rightarrow> recv_node" where
  "part_node i pre hole = \<lparr>body = pre @ hole @ [0], total_len = of_nat (length pre + length hole),
     current_len = of_nat (length pre), recv_msg_id = i\<rparr>"

lemma grow_part_node:
  assumes "length pre < 2 ^ 32" "length c \<le> length hole"
  shows "grow (part_node i pre hole) c = part_node i (pre @ c) (drop (length c) hole)"
  using assms
  by (simp add: grow_def part_node_def unat_of_nat32 flip: of_nat_add)

lemma is_fulled_part_node:
  "length pre + length hole < 2 ^ 32 \<Longrightarrow> is_fulled (part_node i pre hole) \<longleftrightarrow> hole = []"
  using of_nat_inj32 [of "length pre + length hole" "length pre"]
  by (simp add: is_fulled_def part_node_def)

function chunks :: "nat \<Rightarrow> nat" where
  "chunks n = (if n \<le> BUFFER_TOTAL_LEN then 1 else Suc (chunks (n - BUFFER_TOTAL_LEN)))"
  by pat_completeness auto
termination
  by (relation "measure id") auto

declare chunks.simps [simp del]

lemma chunks_le: "chunks n \<le> Suc n"
proof (induction n rule: chunks.induct)
  case (1 n)
  then show ?case by (cases "n \<le> BUFFER_TOTAL_LEN") (simp_all add: chunks.simps [of n])
qed

lemma read_len_body [simp]: "k < 2 ^ 64 \<Longrightarrow> read_len (Rd_body (of_nat k)) = min k 2048"
  by (simp add: read_len_def unat_of_nat64)

lemma session_run_body_step:
  assumes d: "length hole = length d" "length pre + length d < 2 ^ 31" "dbg \<longrightarrow> d \<noteq> []"
    and h: "length h = 6"
  shows "session_run dbg e junk (Suc fuel) (in_body s h (part_node i pre hole) (of_nat (length d)))
      (d @ rest) =
    (let c = take 2048 d; n = part_node i (pre @ c) (drop 2048 hole) in
     if length d \<le> 2048
     then (let (es, r) = session_run dbg e junk fuel (idle s (Some n)) rest
           in (Post_message \<lparr>ln_session = m_session_id s, ln_recv_node = n\<rparr> # es, r))
     else session_run dbg e junk fuel (in_body s h n (of_nat (length d - 2048)))
            (drop 2048 d @ rest))"
proof -
  let ?c = "take 2048 d" and ?n = "part_node i pre hole"
  let ?g = "part_node i (pre @ ?c) (drop 2048 hole)"
  have lc: "length ?c = min (length d) 2048" by simp
  have dh: "drop (length ?c) hole = drop 2048 hole"
    using d(1) by (simp add: lc min_def)
  have g: "grow ?n ?c = ?g"
    using d grow_part_node [of pre ?c hole i] by (simp add: dh [unfolded lc])
  have full: "is_fulled ?g \<longleftrightarrow> length d \<le> 2048"
    using d by (subst is_fulled_part_node) auto
  have fit: "unat (current_len ?n) + length ?c \<le> length (body ?n)"
    using d by (simp add: part_node_def unat_of_nat32)
  have res: "of_nat (length d) - of_nat (length ?c) = (of_nat (length d - 2048) :: 64 word)"
    if "\<not> length d \<le> 2048" using that by (simp add: of_nat_diff)
  have pos: "0 <s (of_nat (length d) - of_nat (length ?c) :: 64 word)" if "\<not> length d \<le> 2048"
    unfolding res [OF that] by (rule positive_of_nat64) (use that d(2) in auto)
  have cb: "complete_read dbg e (junk fuel) (Rd_body (of_nat (length d))) False ?c
      (in_body s h ?n (of_nat (length d))) =
    (if is_fulled ?g
     then Inr (idle s (Some ?g), [Post_message
            \<lparr>ln_session = m_session_id s, ln_recv_node = ?g\<rparr>])
     else Inr (in_body s h ?g (of_nat (length d) - of_nat (length ?c)), []))"
    unfolding g [symmetric]
  proof (rule complete_body)
    show "?c \<noteq> [] \<and> (is_fulled (grow ?n ?c) \<or>
        0 <s (of_nat (length d) - of_nat (length ?c) :: 64 word))" if dbg
      using that d(3) pos full g by auto
  qed (use fit h in auto)
  have rl: "read_len (Rd_body (of_nat (length d))) = min (length d) 2048"
    using d(2) by simp
  have tk: "take (read_len (Rd_body (of_nat (length d)))) (d @ rest) = ?c"
    and dp: "drop (read_len (Rd_body (of_nat (length d)))) (d @ rest) = drop 2048 d @ rest"
    and ef: "(length (d @ rest) < read_len (Rd_body (of_nat (length d)))) = False"
    by (auto simp: rl min_def)
  show ?thesis
    by (simp only: session_run.simps(2) m_read_states option.case Let_def tk dp ef cb full)
      (simp add: res split: prod.splits)
qed

lemma session_run_body:
  "length hole = length d \<Longrightarrow> length pre + length d < 2 ^ 31 \<Longrightarrow> (dbg \<longrightarrow> d \<noteq> []) \<Longrightarrow>
   length h = 6 \<Longrightarrow>
   session_run dbg e junk (chunks (length d) + fuel)
      (in_body s h (part_node i pre hole) (of_nat (length d))) (d @ rest) =
    (let n = part_node i (pre @ d) [];
         (es, r) = session_run dbg e junk fuel (idle s (Some n)) rest
     in (Post_message \<lparr>ln_session = m_session_id s, ln_recv_node = n\<rparr> # es, r))"
proof (induction "length d" arbitrary: d pre hole rule: less_induct)
  case less
  show ?case
  proof (cases "length d \<le> 2048")
    case True
    then have "chunks (length d) = 1" by (simp add: chunks.simps)
    with True less.prems show ?thesis
      by (simp add: session_run_body_step Let_def)
  next
    case False
    then have ch: "chunks (length d) = Suc (chunks (length (drop 2048 d)))"
      by (simp add: chunks.simps [of "length d"])
    let ?d = "drop 2048 d"
    have "session_run dbg e junk (chunks (length ?d) + fuel)
        (in_body s h (part_node i (pre @ take 2048 d) (drop 2048 hole)) (of_nat (length ?d)))
        (?d @ rest) =
      (let n = part_node i ((pre @ take 2048 d) @ ?d) [];
           (es, r) = session_run dbg e junk fuel (idle s (Some n)) rest
       in (Post_message \<lparr>ln_session = m_session_id s, ln_recv_node = n\<rparr> # es, r))"
      using False less.prems by (intro less.hyps) auto
    with False less.prems ch show ?thesis
      by (simp add: session_run_body_step Let_def)
  qed
qed

section \<open>Receiving frames\<close>

definition frame_fuel :: "bytes \<Rightarrow> nat" where
  "frame_fuel d = Suc (chunks (length d))"

definition full_node :: "ReqId \<Rightarrow> bytes \<Rightarrow> recv_node" where
  "full_node i d = part_node i d []"

lemma session_run_frame:
  assumes "length d < 2 ^ 31" "dbg \<longrightarrow> d \<noteq> []"
  shows "session_run dbg e junk (frame_fuel d + fuel) (idle s n) (frame i d @ rest) =
    (let (es, r) = session_run dbg e junk fuel (idle s (Some (full_node i d))) rest
     in (Post_message \<lparr>ln_session = m_session_id s, ln_recv_node = full_node i d\<rparr> # es, r))"
proof -
  let ?L = "of_nat (length d) :: 32 word" and ?h = "be16 i @ be32 (of_nat (length d))"
  let ?j = "map (junk (chunks (length d) + fuel)) [0..<length d]"
  have ne: "?L \<noteq> - 1"
  proof
    assume "?L = - 1"
    then have "unat ?L = unat (- 1 :: 32 word)" by (rule arg_cong)
    then show False
      using assms(1) by (simp add: unat_of_nat32 unsigned_minus_1_eq_mask mask_eq_exp_minus_1)
  qed
  have hd: "complete_read dbg e (junk (chunks (length d) + fuel)) Rd_head False ?h (idle s n)
      = Inr (in_body s ?h (part_node i [] ?j) (of_nat (length d)), [])"
    using assms(1)
    by (simp add: complete_head_ok [OF ne] part_node_def unat_of_nat32 scast_of_nat)
  have "session_run dbg e junk (frame_fuel d + fuel) (idle s n) (frame i d @ rest) =
      session_run dbg e junk (chunks (length d) + fuel)
        (in_body s ?h (part_node i [] ?j) (of_nat (length d))) (d @ rest)"
    by (simp add: frame_fuel_def session_run.simps(2) frame_def read_len_def hd split: prod.splits)
  also have "\<dots> = (let n = part_node i ([] @ d) [];
         (es, r) = session_run dbg e junk fuel (idle s (Some n)) rest
     in (Post_message \<lparr>ln_session = m_session_id s, ln_recv_node = n\<rparr> # es, r))"
    using assms by (intro session_run_body) auto
  finally show ?thesis by (simp add: full_node_def Let_def)
qed

section \<open>Receiving a stream of frames\<close>

definition frame_ok :: "bool \<Rightarrow> ReqId \<times> bytes \<Rightarrow> bool" where
  "frame_ok dbg m \<longleftrightarrow> length (snd m) < 2 ^ 31 \<and> (dbg \<longrightarrow> snd m \<noteq> [])"

definition stream :: "(ReqId \<times> bytes) list \<Rightarrow> bytes" where
  "stream ms = concat (map (\<lambda>m. frame (fst m) (snd m)) ms)"

definition stream_fuel :: "(ReqId \<times> bytes) list \<Rightarrow> nat" where
  "stream_fuel ms = sum_list (map (\<lambda>m. frame_fuel (snd m)) ms)"

definition posts :: "string \<Rightarrow> (ReqId \<times> bytes) list \<Rightarrow> effect list" where
  "posts sid ms = map (\<lambda>m. Post_message
     \<lparr>ln_session = sid, ln_recv_node = full_node (fst m) (snd m)\<rparr>) ms"

text \<open>The last frame a session has received, or the node it had before.\<close>

definition last_node :: "recv_node option \<Rightarrow> (ReqId \<times> bytes) list \<Rightarrow> recv_node option" where
  "last_node n ms = (if ms = [] then n else Some (full_node (fst (last ms)) (snd (last ms))))"

lemma last_node_Cons: "last_node n (m # ms) = last_node (Some (full_node (fst m) (snd m))) ms"
  by (simp add: last_node_def)

lemma session_run_stream:
  "list_all (frame_ok dbg) ms \<Longrightarrow>
   session_run dbg e junk (stream_fuel ms + fuel) (idle s n) (stream ms @ rest) =
    (let (es, r) = session_run dbg e junk fuel (idle s (last_node n ms)) rest
     in (posts (m_session_id s) ms @ es, r))"
proof (induction ms arbitrary: n)
  case Nil
  then show ?case
    by (simp add: stream_def stream_fuel_def posts_def last_node_def split: prod.splits)
next
  case (Cons m ms)
  let ?n = "Some (full_node (fst m) (snd m))"
  have "session_run dbg e junk (frame_fuel (snd m) + (stream_fuel ms + fuel)) (idle s n)
      (frame (fst m) (snd m) @ (stream ms @ rest)) =
    (let (es, r) = session_run dbg e junk (stream_fuel ms + fuel) (idle s ?n) (stream ms @ rest)
     in (Post_message \<lparr>ln_session = m_session_id s,
           ln_recv_node = full_node (fst m) (snd m)\<rparr> # es, r))"
    using Cons.prems by (intro session_run_frame) (auto simp: frame_ok_def)
  with Cons show ?case
    by (simp add: stream_def stream_fuel_def posts_def last_node_Cons add.assoc
        split: prod.splits)
qed

text \<open>End of file while waiting for a head.\<close>

lemma session_run_idle_eof:
  "session_run dbg e junk (Suc (Suc fuel)) (idle s n) [] =
    ([Clear_session (m_session_id s)], Stopped ((close (idle s n))\<lparr>m_read := None\<rparr>))"
proof -
  have "complete_read dbg e (junk (Suc fuel)) Rd_head True [] (idle s n) =
      Inr (fail_session ((idle s n)\<lparr>m_read := None\<rparr>))"
    using complete_eof [of "[]" "idle s n" dbg e "junk (Suc fuel)" Rd_head]
    by (cases s) (simp add: idle_def)
  then show ?thesis
    by (simp add: session_run.simps read_len_def fail_session_def get_session_id_def close_def)
qed

text \<open>
  C2. What peers write with their send nodes arrives as it was sent: a session fed the
  bytes of any list of send nodes, in order, posts one logic node per frame, with the same
  id and payload and in the same order, and on end of file closes itself and asks the server
  to forget it. The peer's byte order and memory need not be the session's. Payloads are below
  2 GiB (the length field is an \<open>int32\<close>); a debug build also wants them non-empty.
\<close>

theorem frames_roundtrip:
  assumes "list_all2 (\<lambda>m n. send_node_of e' junk' (fst m) (snd m) = Inr n) ms ns"
    and "list_all (frame_ok dbg) ms"
    and "CSession_new junk0 uuid = Inr s0" and "start s0 = Inr s"
    and "stream_fuel ms + 2 \<le> fuel"
  shows "\<exists>s'. session_run dbg e junk fuel s (concat (map wire ns)) =
      (posts uuid ms @ [Clear_session uuid], Stopped s') \<and> is_stop s' \<and> \<not> m_sock_open s'"
proof -
  have wires: "concat (map wire ns) = stream ms"
    using assms(1,2)
  proof (induction rule: list_all2_induct)
    case (Cons m ms n ns)
    then have "narrowed (snd m) = length (snd m)"
      by (simp add: frame_ok_def narrowed_def)
    with Cons show ?case by (simp add: stream_def send_node_of_wire(1))
  qed (simp add: stream_def)
  have s: "s = idle s0 (m_recv_node s0)" and sid: "m_session_id s0 = uuid"
    using assms(3,4) start_ok [OF sess_wf_new [OF assms(3)]]
    by (auto simp: CSession_new_def)
  obtain k where k: "fuel = stream_fuel ms + Suc (Suc k)"
    using assms(5) by (metis add_2_eq_Suc' le_Suc_ex add.assoc add.commute)
  show ?thesis
    using session_run_stream [OF assms(2), of e junk "Suc (Suc k)" s0 "m_recv_node s0" "[]"]
    by (simp add: wires s k session_run_idle_eof sid is_stop_def close_def)
qed

theorem frames_roundtrip_witness:
  "\<exists>n s0 s s'. send_node_of Big (\<lambda>_. 7) 1001 [104, 0, 105] = Inr n \<and>
     CSession_new (\<lambda>_. 3) ''u1'' = Inr s0 \<and> start s0 = Inr s \<and>
     session_run False Little (\<lambda>_ _. 9) 10 s (concat (map wire [n])) =
       (posts ''u1'' [(1001, [104, 0, 105])] @ [Clear_session ''u1''], Stopped s') \<and> is_stop s'"
proof -
  obtain n where n: "send_node_of Big (\<lambda>_. 7) 1001 [104, 0, 105] = Inr n"
    using send_node_of_iff [of Big "\<lambda>_. 7" 1001 "[104, 0, 105]"] by (auto simp: narrowed_def)
  obtain s0 where s0: "CSession_new (\<lambda>_. 3) ''u1'' = Inr s0"
    using CSession_new_ok by blast
  then obtain s where s: "start s0 = Inr s"
    using start_ok [OF sess_wf_new] by blast
  have "stream_fuel [(1001 :: ReqId, [104, 0, 105])] + 2 \<le> 10"
    by (simp add: stream_fuel_def frame_fuel_def chunks.simps)
  with frames_roundtrip [of Big "\<lambda>_. 7" "[(1001, [104, 0, 105])]" "[n]" False "\<lambda>_. 3" "''u1''" s0 s 10
      Little "\<lambda>_ _. 9"] n s0 s
  show ?thesis by (auto simp: frame_ok_def)
qed

section \<open>Every connection comes to an end\<close>

text \<open>
  The captured length and the node agree modulo $2^{32}$, whatever the length field was:
  a body read that asks for nothing therefore finds its node full.
\<close>

definition read_ok :: "csession \<Rightarrow> bool" where
  "read_ok s \<longleftrightarrow> (case m_read s of Some (Rd_body r) \<Rightarrow>
       (\<exists>n. m_recv_node s = Some n \<and> ucast r = total_len n - current_len n)
     | _ \<Rightarrow> True)"

definition read_phase :: "csession \<Rightarrow> nat" where
  "read_phase s = (case m_read s of Some (Rd_body r) \<Rightarrow> 1 | _ \<Rightarrow> 0)"

lemma ucast_scast [simp]: "ucast (scast (L :: 32 word) :: 64 word) = L"
  by (rule bit_word_eqI) (simp add: bit_simps)

lemma mod_64_32:
  "((r :: int) mod 18446744073709551616 - k) mod 4294967296 = (r - k) mod 4294967296"
proof -
  have "(r mod 18446744073709551616) mod 4294967296 = r mod 4294967296"
    by (rule mod_mod_cancel) simp
  then show ?thesis by (metis mod_diff_left_eq)
qed

lemma ucast_diff_of_nat [simp]:
  "ucast (r - of_nat k :: 64 word) = (ucast r - of_nat k :: 32 word)"
  by transfer (simp add: take_bit_eq_mod mod_64_32 mod_mod_cancel)

lemma node_clear_fields: "node_clear n = Inr n' \<Longrightarrow> total_len n' = total_len n"
  by (auto simp: node_clear_def)

lemma read_head_fields: "read_head s = Inr s' \<Longrightarrow> m_read s' = Some Rd_head"
  by (auto simp: read_head_def)

lemma read_message_full_fields:
  "read_message_full r s = Inr s' \<Longrightarrow> m_read s' = Some (Rd_body r) \<and> m_recv_node s' = m_recv_node s"
  by (auto simp: read_message_full_def)

lemma RecvNode_lens: "RecvNode junk L i = Inr n \<Longrightarrow> total_len n = L \<and> current_len n = 0"
  by (cases "L = - 1") (auto simp: RecvNode_wrap RecvNode_ok)

lemma on_head_read_ok:
  assumes "on_head e junk False k s = Inr (s', es)" "m_read s = None"
  shows "read_ok s'"
  using assms
  by (auto simp: on_head_def Let_def read_ok_def split: if_splits
      dest!: read_message_full_fields RecvNode_lens)

lemma on_body_read_ok:
  assumes "on_body dbg r False k s = Inr (s', es)" "m_recv_node s = Some n"
    and "ucast r = total_len n - current_len n"
  shows "read_ok s' \<and> (k = 0 \<longrightarrow> r = 0 \<longrightarrow> read_phase s' = 0)"
  using assms
  by (auto simp: on_body_def Let_def read_ok_def read_phase_def is_fulled_def split: if_splits
      dest!: read_message_full_fields read_head_fields)

lemma complete_read_progress:
  assumes "complete_read dbg e junk rop False data s = Inr (s', es)"
    and "m_read s = Some rop" "read_ok s" "length data = read_len rop"
  shows "read_ok s' \<and> read_phase s' < 2 * length data + read_phase s"
proof (cases rop)
  case Rd_head
  with assms obtain s1 where "on_head e junk False (length data) s1 = Inr (s', es)" "m_read s1 = None"
    by (auto simp: complete_read_def Let_def)
  then have "read_ok s'" by (rule on_head_read_ok)
  moreover have "read_phase s' \<le> 1" "length data = 6"
    using assms(4) Rd_head
    by (auto simp: read_phase_def read_len_def split: option.splits read_op.splits)
  ultimately show ?thesis by simp
next
  case (Rd_body r)
  with assms obtain s1 n where b: "on_body dbg r False (length data) s1 = Inr (s', es)"
    "m_recv_node s1 = Some n" "ucast r = total_len n - current_len n"
    by (auto simp: complete_read_def Let_def read_ok_def)
  have "read_phase s = 1" "read_phase s' \<le> 1"
    using assms(2) Rd_body by (auto simp: read_phase_def split: option.splits read_op.splits)
  moreover have "length data = 0 \<longleftrightarrow> r = 0"
    using assms(4) Rd_body by (auto simp: read_len_def min_def unat_eq_0 split: if_splits)
  ultimately show ?thesis
    using on_body_read_ok [OF b] by (cases "length data") auto
qed

lemma on_eof_stops:
  "complete_read dbg e junk rop True data s = Inr (s', es) \<Longrightarrow> m_read s' = None"
  by (cases rop)
    (auto simp: complete_read_def Let_def on_head_def on_body_def fail_session_def close_def)

lemma session_run_ends:
  "read_ok s \<Longrightarrow> 2 * length inp + read_phase s + 2 \<le> fuel \<Longrightarrow>
   snd (session_run dbg e junk fuel s inp) \<noteq> Fuel_out"
proof (induction fuel arbitrary: s inp)
  case (Suc fuel)
  show ?case
  proof (cases "m_read s")
    case (Some rop)
    let ?c = "complete_read dbg e (junk fuel) rop (length inp < read_len rop)
      (take (read_len rop) inp) s"
    show ?thesis
    proof (cases ?c)
      case (Inr p)
      obtain s' es where p: "p = (s', es)" by (cases p)
      have "snd (session_run dbg e junk fuel s' (drop (read_len rop) inp)) \<noteq> Fuel_out"
      proof (cases "length inp < read_len rop")
        case True
        with Inr p have "m_read s' = None" by (auto dest: on_eof_stops)
        then show ?thesis
          using Suc.prems(2) by (cases fuel) (simp_all add: session_run.simps)
      next
        case False
        with Inr p Some Suc.prems have
          "read_ok s' \<and> read_phase s' < 2 * length (take (read_len rop) inp) + read_phase s"
          by (intro complete_read_progress) auto
        with False Suc.prems show ?thesis by (intro Suc.IH) auto
      qed
      with Some Inr p show ?thesis
        by (simp add: session_run.simps Let_def case_prod_beta)
    qed (simp add: session_run.simps Some)
  qed (simp add: session_run.simps)
qed simp

text \<open>
  C7. Every connection comes to an end: whatever bytes the peer sends before closing,
  well-formed frames or not, the session runs out of completions after at most two per byte:
  it closes itself or faults, and the read loop never spins without consuming input.
\<close>

theorem connection_terminates:
  assumes "CSession_new junk0 uuid = Inr s0" "start s0 = Inr s" "2 * length inp + 2 \<le> fuel"
  shows "snd (session_run dbg e junk fuel s inp) \<noteq> Fuel_out"
proof (rule session_run_ends)
  have "s = idle s0 (m_recv_node s0)"
    using assms(1,2) start_ok [OF sess_wf_new [OF assms(1)]] by simp
  then show "read_ok s" "2 * length inp + read_phase s + 2 \<le> fuel"
    using assms(3) by (simp_all add: read_ok_def read_phase_def)
qed

theorem connection_terminates_witness:
  "\<exists>s0 s. CSession_new (\<lambda>_. 3) ''u1'' = Inr s0 \<and> start s0 = Inr s \<and>
     snd (session_run True Little (\<lambda>_ _. 9) 16 s [3, 233, 0, 0, 0, 7, 1]) \<noteq> Fuel_out"
proof -
  obtain s0 where s0: "CSession_new (\<lambda>_. 3) ''u1'' = Inr s0"
    using CSession_new_ok by blast
  then obtain s where s: "start s0 = Inr s"
    using start_ok [OF sess_wf_new] by blast
  from connection_terminates [OF s0 s, of "[3, 233, 0, 0, 0, 7, 1]" 16 True Little "\<lambda>_ _. 9"] s0 s
  show ?thesis by simp
qed

section \<open>Negative lengths\<close>

lemma unat_scast_negative:
  assumes "L <s (0 :: 32 word)"
  shows "2 ^ 63 \<le> unat (scast L :: 64 word)"
proof -
  have neg: "sint L < 0" using assms by (simp add: word_sless_alt)
  have low: "- (2 ^ 31) \<le> sint L" using sint_greater_eq [of L] by simp
  have u: "uint (scast L :: 64 word) = sint L mod 2 ^ 64"
    by (simp only: scast_eq unsigned_of_int take_bit_eq_mod) simp
  have a: "sint L mod 2 ^ 64 = (sint L + 2 ^ 64) mod 2 ^ 64" by (rule mod_add_self2 [symmetric])
  have b: "\<dots> = sint L + 2 ^ 64" by (rule mod_pos_pos_trivial) (use neg low in auto)
  have c: "2 ^ 63 \<le> uint (scast L :: 64 word)" unfolding u a b using low by simp
  then show ?thesis unfolding unat_eq_nat_uint by (simp add: le_nat_iff del: nat_uint_eq)
qed

lemma oversized_read_overflows:
  assumes "length h = 6" "length (body n) = Suc (unat (total_len n))"
    and "unat (total_len n) mod 2048 \<noteq> 0" "Suc (unat (total_len n)) < 2 ^ 32"
    and "unat (current_len n) mod 2048 = 0" "unat (current_len n) \<le> Suc (unat (total_len n))"
    and "2048 + (Suc (unat (total_len n)) - unat (current_len n)) \<le> unat r"
    and "2048 + (Suc (unat (total_len n)) - unat (current_len n)) \<le> length inp"
    and "Suc (unat (total_len n)) - unat (current_len n) < fuel"
  shows "session_run False e junk fuel (in_body s h n r) inp = ([], Faulted Out_of_bounds)"
  using assms
proof (induction fuel arbitrary: n r inp)
  case (Suc fuel)
  let ?T = "unat (total_len n)" and ?c = "unat (current_len n)" and ?d = "take 2048 inp"
  have rl: "read_len (Rd_body r) = 2048" and ld: "length ?d = 2048"
    using Suc.prems(7,8) by (auto simp: read_len_def)
  show ?case
  proof (cases "?c + 2048 \<le> Suc ?T")
    case True
    let ?g = "grow n ?d"
    have c': "unat (current_len ?g) = ?c + 2048"
      using True Suc.prems(4) ld by (simp add: grow_def unat_word_ariths)
    have T': "total_len ?g = total_len n" by (simp add: grow_def)
    have lb: "length (body ?g) = Suc ?T"
      using True Suc.prems(2) ld by (simp add: grow_def)
    have nf: "\<not> is_fulled ?g"
    proof
      assume "is_fulled ?g"
      then have "?T = ?c + 2048" using c' by (simp add: is_fulled_def T')
      then show False using Suc.prems(3,5) by simp
    qed
    have r': "unat (r - 2048) = unat r - 2048"
      using Suc.prems(7) by (simp add: unat_sub word_le_nat_alt)
    have "session_run False e junk fuel (in_body s h ?g (r - 2048)) (drop 2048 inp) =
        ([], Faulted Out_of_bounds)"
      using Suc.prems True by (intro Suc.IH) (auto simp: c' T' lb r')
    moreover have "complete_read False e (junk fuel) (Rd_body r) False ?d (in_body s h n r) =
        Inr (in_body s h ?g (r - 2048), [])"
      using complete_body [of ?d n False r h] True Suc.prems(1,2) ld nf by simp
    ultimately show ?thesis
      using Suc.prems(8) by (simp add: session_run.simps rl)
  next
    case False
    have "complete_read False e (junk fuel) (Rd_body r) False ?d (in_body s h n r) =
        Inl Out_of_bounds"
      using False Suc.prems(2) ld
      by (simp add: complete_read_def in_body_def on_body_def mem_write_def mem_read_def Let_def)
    then show ?thesis
      using Suc.prems(8) by (simp add: session_run.simps rl)
  qed
qed simp

lemma negative_unat:
  assumes "L <s (0 :: 32 word)"
  shows "2 ^ 31 \<le> unat L"
proof -
  have neg: "sint L < 0" and low: "- (2 ^ 31) \<le> sint L" using assms sint_greater_eq [of L] by (simp_all add: word_sless_alt)
  have u: "uint L = sint L mod 2 ^ 32" by (simp add: uint_sint take_bit_eq_mod)
  have a: "sint L mod 2 ^ 32 = (sint L + 2 ^ 32) mod 2 ^ 32" by (rule mod_add_self2 [symmetric])
  have b: "\<dots> = sint L + 2 ^ 32" by (rule mod_pos_pos_trivial) (use neg low in auto)
  have c: "2 ^ 31 \<le> uint L" unfolding u a b using low by simp
  then show ?thesis unfolding unat_eq_nat_uint by (simp add: le_nat_iff del: nat_uint_eq)
qed

lemma residual_negative:
  assumes "L <s (0 :: 32 word)"
  shows "\<not> 0 <s (scast L - 2048 :: 64 word)"
proof -
  have l: "sint L < 0" "- (2 ^ 31) \<le> sint L" using assms sint_greater_eq [of L] by (simp_all add: word_sless_alt)
  have "sint (scast L - 2048 :: 64 word) = signed_take_bit 63 (sint (scast L :: 64 word) - sint (2048 :: 64 word))"
    by (simp add: sint_word_ariths)
  moreover have "sint (scast L :: 64 word) = signed_take_bit 63 (sint L)" by (simp add: signed_scast_eq)
  moreover have "signed_take_bit 63 (sint L) = sint L" using l by (intro signed_take_bit_int_eq_self) simp_all
  ultimately have "sint (scast L - 2048 :: 64 word) < 0" using l by (simp add: signed_take_bit_int_eq_self)
  then show ?thesis by (simp add: word_sless_alt)
qed

text \<open>In a debug build the first chunk of such a body fails the assertion on what is left.\<close>

lemma complete_body_assert:
  assumes "length c = 2048" "unat (current_len n) + 2048 \<le> length (body n)" "\<not> is_fulled (grow n c)" "\<not> 0 <s r - 2048"
  shows "complete_read True e junk (Rd_body r) False c (in_body s h n r) = Inl Terminated"
proof -
  have dt: "mem_write zero_buf 0 c = Inr (c @ drop (length c) zero_buf)" using assms(1) by (simp add: mem_write_def)
  have wr: "mem_write (body n) (unat (current_len n)) c = Inr (body (grow n c))" using assms(1,2) by (simp add: mem_write_def grow_def)
  have g: "n\<lparr>body := body (grow n c), current_len := current_len n + 2048\<rparr> = grow n c" using assms(1) by (simp add: grow_def)
  have ne: "c \<noteq> []" using assms(1) by auto
  have a: "Assert True (0 <s r - 2048) = Inl Terminated" "Assert True (0 < length c) = Inr ()"
    using assms(4) ne by (simp_all add: Assert_def)
  have "complete_read True e junk (Rd_body r) False c (in_body s h n r) = on_body True r False (length c)
      ((in_body s h n r)\<lparr>m_data := c @ drop (length c) zero_buf, m_read := None\<rparr>)"
    by (simp add: complete_read_def in_body_def dt)
  also have "\<dots> = Inl Terminated" using assms(1,3) by (simp add: on_body_def a mem_read_def wr g Let_def)
  finally show ?thesis .
qed

text \<open>
  C8. A frame whose length field is negative ends badly: nothing checks the length that \<open>read_head\<close> decodes. With the
  field -1 already the constructor of the node writes out of bounds. With any other negative length, a debug build
  terminates the process at an assertion after the first chunk of the body; a release build, if the length, read as
  unsigned, is not a multiple of 2048, reads the body in chunks of the size of \<open>m_data\<close> until one is
  copied past the end of the receive node. (A multiple of 2048 fills the node exactly.)
\<close>

theorem negative_length_overflows:
  assumes "L <s 0" "2 ^ 32 + 2048 \<le> length rest" "2 ^ 32 < fuel"
    and "CSession_new junk0 uuid = Inr s0" "start s0 = Inr s"
  shows "session_run True e junk fuel s (be16 i @ be32 L @ rest) = ([], Faulted (if L = - 1 then Out_of_bounds else Terminated)) \<and>
    (unat L mod 2048 \<noteq> 0 \<longrightarrow> session_run False e junk fuel s (be16 i @ be32 L @ rest) = ([], Faulted Out_of_bounds))"
proof -
  have s: "s = idle s0 (m_recv_node s0)"
    using assms(4,5) start_ok [OF sess_wf_new [OF assms(4)]] by simp
  obtain k where k: "fuel = Suc k" "2 ^ 32 \<le> k" using assms(3) by (cases fuel) auto
  show ?thesis
  proof (cases "L = - 1")
    case True
    have "complete_read dbg e (junk k) Rd_head False (be16 i @ be32 (- 1))
        (idle s0 (m_recv_node s0)) = Inl Out_of_bounds" for dbg by (rule complete_head_wrap)
    then show ?thesis by (simp add: s k(1) session_run.simps True read_len_def)
  next
    case False
    let ?n = "\<lparr>body = map (junk k) [0..<unat L] @ [0], total_len = L, current_len = 0,
            recv_msg_id = i\<rparr>"
    have lt: "unat L < 2 ^ 32 - 1"
    proof (rule ccontr)
      assume "\<not> unat L < 2 ^ 32 - 1"
      moreover have "unat L < 2 ^ LENGTH(32)" by (rule unsigned_less)
      ultimately have "unat L = unat (- 1 :: 32 word)"
        by (simp add: unsigned_minus_1_eq_mask mask_eq_exp_minus_1)
      with False show False by (simp add: word_unat_eq_iff)
    qed
    have rel: "session_run False e junk k (in_body s0 (be16 i @ be32 L) ?n (scast L)) rest = ([], Faulted Out_of_bounds)"
      if "unat L mod 2048 \<noteq> 0"
    proof (rule oversized_read_overflows)
      from lt show "Suc (unat (total_len ?n)) < 2 ^ 32"
        and "Suc (unat (total_len ?n)) - unat (current_len ?n) < k"
        using k(2) by simp_all
      with unat_scast_negative [OF assms(1)] assms(2)
      show "2048 + (Suc (unat (total_len ?n)) - unat (current_len ?n)) \<le> unat (scast L :: 64 word)"
        and "2048 + (Suc (unat (total_len ?n)) - unat (current_len ?n)) \<le> length rest"
        by simp_all
    qed (use that in auto)
    have big: "2 ^ 31 \<le> unat L" by (rule negative_unat [OF assms(1)])
    have dbg: "session_run True e junk k (in_body s0 (be16 i @ be32 L) ?n (scast L)) rest = ([], Faulted Terminated)"
    proof -
      obtain k' where k': "k = Suc k'" using k(2) by (cases k) auto
      have rl: "read_len (Rd_body (scast L)) = 2048" using unat_scast_negative [OF assms(1)] by (simp add: read_len_def)
      have nf: "\<not> is_fulled (grow ?n (take 2048 rest))"
      proof
        assume "is_fulled (grow ?n (take 2048 rest))"
        then have "L = 2048" using assms(2) by (simp add: is_fulled_def grow_def)
        then show False using big by simp
      qed
      have "complete_read True e (junk k') (Rd_body (scast L)) False (take 2048 rest) (in_body s0 (be16 i @ be32 L) ?n (scast L)) = Inl Terminated"
        by (rule complete_body_assert) (use assms(2) big nf residual_negative [OF assms(1)] in simp_all)
      then show ?thesis using assms(2) by (simp add: k' session_run.simps rl)
    qed
    show ?thesis using rel dbg False
      by (simp add: s k(1) session_run.simps read_len_def complete_head_ok [OF False])
  qed
qed

theorem negative_length_overflows_witness:
  "\<exists>rest s0 s. length rest = 2 ^ 32 + 2048 \<and>
     CSession_new (\<lambda>_. 3) ''u1'' = Inr s0 \<and> start s0 = Inr s \<and>
     session_run False Little (\<lambda>_ _. 9) (2 ^ 32 + 1) s (be16 1001 @ be32 0xFFFFFFFE @ rest) = ([], Faulted Out_of_bounds) \<and>
     session_run True Little (\<lambda>_ _. 9) (2 ^ 32 + 1) s (be16 1001 @ be32 0xFFFFFFFE @ rest) = ([], Faulted Terminated)"
proof -
  obtain rest :: bytes where rest: "length rest = 2 ^ 32 + 2048"
    using Ex_list_of_length by blast
  obtain s0 where s0: "CSession_new (\<lambda>_. 3) ''u1'' = Inr s0"
    using CSession_new_ok by blast
  then obtain s where s: "start s0 = Inr s"
    using start_ok [OF sess_wf_new] by blast
  have "0xFFFFFFFE <s (0 :: 32 word)" "2 ^ 32 + 2048 \<le> length rest" "2 ^ 32 < (2 ^ 32 + 1 :: nat)"
    "unat (0xFFFFFFFE :: 32 word) mod 2048 \<noteq> 0" "0xFFFFFFFE \<noteq> (- 1 :: 32 word)"
    by (simp_all add: rest word_sless_alt)
  with negative_length_overflows [OF this(1-3) s0 s, of Little "\<lambda>_ _. 9" 1001] rest s0 s
  show ?thesis by (intro exI [of _ rest] exI [of _ s0] exI [of _ s]) simp
qed

section \<open>Empty bodies in a debug build\<close>

text \<open>
  In a debug build any peer can end the whole process with six bytes: a frame with an
  empty body completes its body read with zero bytes, and the \<open>Assert\<close> there calls
  \<open>std::terminate\<close> (a release build posts the empty message, see above).
\<close>

theorem empty_body_terminates_debug:
  "sess_wf s0 \<Longrightarrow> start s0 = Inr s \<Longrightarrow>
   session_run True e junk (Suc (Suc fuel)) s (frame i [] @ rest) = ([], Faulted Terminated)"
proof -
  assume "sess_wf s0" "start s0 = Inr s"
  then have s: "s = idle s0 (m_recv_node s0)" using start_ok by simp
  have hd: "complete_read True e (junk (Suc fuel)) Rd_head False (be16 i @ be32 0) s =
      Inr (in_body s0 (be16 i @ be32 0) (part_node i [] []) 0, [])"
    by (simp add: s complete_head_ok part_node_def scast_eq)
  have bd: "complete_read True e (junk fuel) (Rd_body 0) False [] t = Inl Terminated" for t
    by (simp add: complete_read_def mem_write_def on_body_def Assert_def)
  have "m_read s = Some Rd_head" by (simp add: s)
  then show ?thesis
    by (simp add: session_run.simps read_len_def frame_def hd bd)
qed

theorem empty_body_terminates_debug_witness:
  "\<exists>s0 s. CSession_new (\<lambda>_. 3) ''u1'' = Inr s0 \<and> start s0 = Inr s \<and>
     session_run True Little (\<lambda>_ _. 9) 2 s (frame 1001 [] @ [1]) = ([], Faulted Terminated)"
proof -
  obtain s0 where s0: "CSession_new (\<lambda>_. 3) ''u1'' = Inr s0"
    using CSession_new_ok by blast
  then obtain s where s: "start s0 = Inr s"
    using start_ok [OF sess_wf_new] by blast
  from empty_body_terminates_debug [OF sess_wf_new [OF s0] s, of Little "\<lambda>_ _. 9" 0 1001 "[1]"]
  show ?thesis using s0 s by (auto simp: numeral_2_eq_2)
qed

end
