(* ===== verification/Session_Write.thy ===== *)
theory Session_Write
  imports CSession "HOL-Library.Sublist"
begin

text \<open>
  The writing half of \<open>src/csession.cpp\<close>: \<open>send\<close>, called by the logic thread, and
  \<open>write_handler\<close>, the completion handler of \<open>asio::async_write\<close>. First as functions, then with the threads as they interleave:
  \<open>send\<close> holds \<open>m_send_lock\<close>, \<open>write_handler\<close> does not.
\<close>

section \<open>The send queue\<close>

definition q_empty :: "'a list \<Rightarrow> bool" where "q_empty q \<longleftrightarrow> q = []"

definition q_push :: "'a \<Rightarrow> 'a list \<Rightarrow> 'a list" where "q_push x q = q @ [x]"

definition q_front :: "'a list \<Rightarrow> 'a" where "q_front q = hd q"

definition q_pop :: "'a list \<Rightarrow> 'a list" where "q_pop q = tl q"

interpretation msgq: fifo q_empty q_push q_front q_pop "\<lambda>q. q"
  by unfold_locales (simp_all add: q_empty_def q_push_def q_front_def q_pop_def)

section \<open>send and write\_handler\<close>

text \<open>
  \<open>send\<close> gives the session it leaves and the buffer of the \<open>async_write\<close> it starts, if
  it starts one; \<open>write_handler\<close> also gives its effects on the server.
\<close>

definition send :: "endian \<Rightarrow> (nat \<Rightarrow> byte) \<Rightarrow> ReqId \<Rightarrow> bytes \<Rightarrow> csession
    \<Rightarrow> fault + csession \<times> bytes option" where
  "send e junk mid data s =
     (let que_size = length (m_send_queue s) in
      if que_size > MAX_SENDQUE then Inr (s, None)
      else
        bind_f (send_node_of e junk mid data) (\<lambda>n.
        let s' = s\<lparr>m_send_queue := q_push n (m_send_queue s)\<rparr> in
        if que_size > 0 then Inr (s', None)
        else Inr (s', Some (wire (q_front (m_send_queue s'))))))"

definition write_handler :: "bool \<Rightarrow> csession
    \<Rightarrow> fault + csession \<times> bytes option \<times> effect list" where
  "write_handler ec s =
     (if ec then Inr (fst (fail_session s), None, snd (fail_session s))
      else if q_empty (m_send_queue s) then Inl Empty_pop
      else
        let s' = s\<lparr>m_send_queue := q_pop (m_send_queue s)\<rparr> in
        if q_empty (m_send_queue s') then Inr (s', None, [])
        else Inr (s', Some (wire (q_front (m_send_queue s'))), []))"

lemma send_full: "length (m_send_queue s) > MAX_SENDQUE \<Longrightarrow> send e junk mid data s = Inr (s, None)"
  by (simp add: send_def)

lemma send_queued:
  "send e junk mid data s = Inr (s', w) \<Longrightarrow> length (m_send_queue s) \<le> MAX_SENDQUE \<Longrightarrow>
   \<exists>n. send_node_of e junk mid data = Inr n \<and>
     s' = s\<lparr>m_send_queue := m_send_queue s @ [n]\<rparr> \<and>
     w = (if m_send_queue s = [] then Some (wire n) else None)"
  by (auto simp: send_def Let_def q_push_def q_front_def split: if_splits)

section \<open>A session with its socket and threads\<close>

text \<open>
  The logic thread is inside \<open>send\<close> while I/O threads run \<open>write_handler\<close>. The statements that touch the queue are the
  steps. Where a \<open>send\<close> stands: it has read the size; it has pushed its message, and knows the size it read. The lock
  excludes a second \<open>send\<close>, and nothing else.
\<close>

datatype 'm send_pc = S_idle | S_sized nat 'm | S_pushed nat

text \<open>
  The writes under way, each with the bytes it still has to send; the handlers that have popped and not yet tested for
  emptiness; and (ghosts) the bytes the peer has got, the messages queued, whether a write has failed, and whether an
  empty queue was popped or read.
\<close>

record wsys =
  ws_sess :: csession
  ws_writes :: "bytes list"
  ws_send :: "(ReqId \<times> bytes) send_pc"
  ws_popped :: nat
  ws_wire :: bytes
  ws_queued :: "(ReqId \<times> bytes) list"
  ws_failed :: bool
  ws_fault :: bool

definition wstart :: "wsys \<Rightarrow> bool" where
  "wstart w \<longleftrightarrow> (\<exists>junk uuid. CSession_new junk uuid = Inr (ws_sess w)) \<and>
     ws_writes w = [] \<and> ws_send w = S_idle \<and> ws_popped w = 0 \<and> ws_wire w = [] \<and> ws_queued w = [] \<and>
     \<not> ws_failed w \<and> \<not> ws_fault w"

abbreviation wqueue :: "wsys \<Rightarrow> send_node list" where "wqueue w \<equiv> m_send_queue (ws_sess w)"

definition set_queue :: "send_node list \<Rightarrow> wsys \<Rightarrow> wsys" where
  "set_queue q w = w\<lparr>ws_sess := (ws_sess w)\<lparr>m_send_queue := q\<rparr>\<rparr>"

definition remove_nth :: "nat \<Rightarrow> 'a list \<Rightarrow> 'a list" where "remove_nth i xs = take i xs @ drop (Suc i) xs"

definition start_write :: "wsys \<Rightarrow> wsys" where
  "start_write w = w\<lparr>ws_writes := ws_writes w @ [wire (q_front (wqueue w))]\<rparr>"

text \<open>
  Bytes leave in any order if two writes are under way, and any of the writes may complete or fail next. Closing is what
  the read handlers do when a read fails.
\<close>

inductive wstep :: "endian \<Rightarrow> wsys \<Rightarrow> wsys \<Rightarrow> bool" for e :: endian where
  w_size: "ws_send w = S_idle \<Longrightarrow> length (wqueue w) \<le> MAX_SENDQUE \<Longrightarrow>
    wstep e w (w\<lparr>ws_send := S_sized (length (wqueue w)) m\<rparr>)"
| w_push: "ws_send w = S_sized k m \<Longrightarrow> send_node_of e junk (fst m) (snd m) = Inr n \<Longrightarrow>
    wstep e w ((set_queue (q_push n (wqueue w)) w)\<lparr>ws_send := S_pushed k, ws_queued := ws_queued w @ [m]\<rparr>)"
| w_leave: "ws_send w = S_pushed k \<Longrightarrow> k > 0 \<Longrightarrow> wstep e w (w\<lparr>ws_send := S_idle\<rparr>)"
| w_write: "ws_send w = S_pushed 0 \<Longrightarrow> \<not> q_empty (wqueue w) \<Longrightarrow>
    wstep e w ((start_write w)\<lparr>ws_send := S_idle\<rparr>)"
| w_front_fault: "ws_send w = S_pushed 0 \<Longrightarrow> q_empty (wqueue w) \<Longrightarrow>
    wstep e w (w\<lparr>ws_send := S_idle, ws_fault := True\<rparr>)"
| w_bytes: "i < length (ws_writes w) \<Longrightarrow> ws_writes w ! i = a @ b \<Longrightarrow>
    wstep e w (w\<lparr>ws_writes := (ws_writes w)[i := b], ws_wire := ws_wire w @ a\<rparr>)"
| w_pop: "i < length (ws_writes w) \<Longrightarrow> ws_writes w ! i = [] \<Longrightarrow> \<not> q_empty (wqueue w) \<Longrightarrow>
    wstep e w ((set_queue (q_pop (wqueue w)) w)\<lparr>ws_writes := remove_nth i (ws_writes w), ws_popped := Suc (ws_popped w)\<rparr>)"
| w_pop_fault: "i < length (ws_writes w) \<Longrightarrow> ws_writes w ! i = [] \<Longrightarrow> q_empty (wqueue w) \<Longrightarrow>
    wstep e w (w\<lparr>ws_writes := remove_nth i (ws_writes w), ws_fault := True\<rparr>)"
| w_last: "ws_popped w = Suc k \<Longrightarrow> q_empty (wqueue w) \<Longrightarrow> wstep e w (w\<lparr>ws_popped := k\<rparr>)"
| w_next: "ws_popped w = Suc k \<Longrightarrow> \<not> q_empty (wqueue w) \<Longrightarrow> wstep e w ((start_write w)\<lparr>ws_popped := k\<rparr>)"
| w_error: "i < length (ws_writes w) \<Longrightarrow> write_handler True (ws_sess w) = Inr (s', b, es) \<Longrightarrow>
    wstep e w (w\<lparr>ws_sess := s', ws_writes := remove_nth i (ws_writes w), ws_failed := True\<rparr>)"
| w_close: "wstep e w (w\<lparr>ws_sess := close (ws_sess w)\<rparr>)"

text \<open>The queue through these updates.\<close>

lemma set_queue_simps [simp]:
  "wqueue (set_queue q w) = q" "ws_writes (set_queue q w) = ws_writes w" "ws_send (set_queue q w) = ws_send w"
  "ws_popped (set_queue q w) = ws_popped w" "ws_wire (set_queue q w) = ws_wire w" "ws_queued (set_queue q w) = ws_queued w"
  "ws_failed (set_queue q w) = ws_failed w" "ws_fault (set_queue q w) = ws_fault w"
  by (simp_all add: set_queue_def)

lemma start_write_simps [simp]:
  "ws_sess (start_write w) = ws_sess w" "ws_writes (start_write w) = ws_writes w @ [wire (q_front (wqueue w))]"
  "ws_send (start_write w) = ws_send w" "ws_popped (start_write w) = ws_popped w" "ws_wire (start_write w) = ws_wire w"
  "ws_queued (start_write w) = ws_queued w" "ws_failed (start_write w) = ws_failed w" "ws_fault (start_write w) = ws_fault w"
  by (simp_all add: start_write_def)

lemma write_handler_error: "write_handler True s = Inr (s', b, es) \<Longrightarrow> m_send_queue s' = m_send_queue s \<and> b = None"
  by (auto simp: write_handler_def fail_session_def close_def)

lemma close_queue [simp]: "m_send_queue (close s) = m_send_queue s"
  by (simp add: close_def)

text \<open>The steps of one \<open>send\<close>, and of one \<open>write_handler\<close>, taken together are the functions above.\<close>

definition opt_list :: "'a option \<Rightarrow> 'a list" where
  "opt_list x = (case x of None \<Rightarrow> [] | Some y \<Rightarrow> [y])"

lemma opt_list_simps [simp]: "opt_list None = []" "opt_list (Some y) = [y]"
  by (simp_all add: opt_list_def)

lemma send_by_steps:
  assumes "ws_send w = S_idle" "length (wqueue w) \<le> MAX_SENDQUE" "send e junk mid data (ws_sess w) = Inr (s', b)"
  shows "(wstep e)\<^sup>*\<^sup>* w (w\<lparr>ws_sess := s', ws_writes := ws_writes w @ opt_list b, ws_queued := ws_queued w @ [(mid, data)]\<rparr>)"
proof -
  obtain n where n: "send_node_of e junk mid data = Inr n" and s': "s' = (ws_sess w)\<lparr>m_send_queue := wqueue w @ [n]\<rparr>"
    and b: "b = (if wqueue w = [] then Some (wire n) else None)"
    using send_queued [OF assms(3,2)] by blast
  let ?k = "length (wqueue w)"
  define w1 where "w1 = w\<lparr>ws_send := S_sized ?k (mid, data)\<rparr>"
  define w2 where "w2 = (set_queue (q_push n (wqueue w1)) w1)\<lparr>ws_send := S_pushed ?k, ws_queued := ws_queued w1 @ [(mid, data)]\<rparr>"
  have 1: "wstep e w w1" unfolding w1_def by (rule w_size [OF assms(1,2)])
  have 2: "wstep e w1 w2" unfolding w2_def by (rule w_push [of _ _ _ _ junk]) (simp_all add: w1_def n)
  have 3: "wstep e w2 (w\<lparr>ws_sess := s', ws_writes := ws_writes w @ opt_list b, ws_queued := ws_queued w @ [(mid, data)]\<rparr>)"
  proof (cases "wqueue w = []")
    case True
    have "wstep e w2 ((start_write w2)\<lparr>ws_send := S_idle\<rparr>)"
      by (rule w_write) (simp_all add: w2_def w1_def True q_empty_def q_push_def)
    moreover have "(start_write w2)\<lparr>ws_send := S_idle\<rparr> =
        w\<lparr>ws_sess := s', ws_writes := ws_writes w @ opt_list b, ws_queued := ws_queued w @ [(mid, data)]\<rparr>"
      using assms(1) True by (cases w) (simp add: start_write_def w2_def w1_def set_queue_def s' b q_push_def q_front_def)
    ultimately show ?thesis by simp
  next
    case False
    have "wstep e w2 (w2\<lparr>ws_send := S_idle\<rparr>)" by (rule w_leave [of _ ?k]) (simp_all add: w2_def False)
    moreover have "w2\<lparr>ws_send := S_idle\<rparr> =
        w\<lparr>ws_sess := s', ws_writes := ws_writes w @ opt_list b, ws_queued := ws_queued w @ [(mid, data)]\<rparr>"
      using assms(1) False by (cases w) (simp add: w2_def w1_def set_queue_def s' b q_push_def)
    ultimately show ?thesis by simp
  qed
  from 1 2 3 show ?thesis by (meson converse_rtranclp_into_rtranclp r_into_rtranclp)
qed

lemma handler_by_steps:
  assumes "i < length (ws_writes w)" "ws_writes w ! i = []" "write_handler False (ws_sess w) = Inr (s', b, es)"
  shows "(wstep e)\<^sup>*\<^sup>* w (w\<lparr>ws_sess := s', ws_writes := remove_nth i (ws_writes w) @ opt_list b\<rparr>)"
proof -
  have q: "\<not> q_empty (wqueue w)" using assms(3) by (auto simp: write_handler_def)
  define w1 where "w1 = (set_queue (q_pop (wqueue w)) w)\<lparr>ws_writes := remove_nth i (ws_writes w), ws_popped := Suc (ws_popped w)\<rparr>"
  have 1: "wstep e w w1" unfolding w1_def by (rule w_pop [OF assms(1,2) q])
  have 2: "wstep e w1 (w\<lparr>ws_sess := s', ws_writes := remove_nth i (ws_writes w) @ opt_list b\<rparr>)"
  proof (cases "q_empty (q_pop (wqueue w))")
    case True
    have "wstep e w1 (w1\<lparr>ws_popped := ws_popped w\<rparr>)" by (rule w_last) (simp_all add: w1_def True)
    moreover have "w1\<lparr>ws_popped := ws_popped w\<rparr> = w\<lparr>ws_sess := s', ws_writes := remove_nth i (ws_writes w) @ opt_list b\<rparr>"
      using assms(3) q True by (cases w) (auto simp: w1_def set_queue_def write_handler_def Let_def)
    ultimately show ?thesis by simp
  next
    case False
    have "wstep e w1 ((start_write w1)\<lparr>ws_popped := ws_popped w\<rparr>)" by (rule w_next) (simp_all add: w1_def False)
    moreover have "(start_write w1)\<lparr>ws_popped := ws_popped w\<rparr> = w\<lparr>ws_sess := s', ws_writes := remove_nth i (ws_writes w) @ opt_list b\<rparr>"
      using assms(3) q False by (cases w) (auto simp: w1_def set_queue_def start_write_def write_handler_def Let_def)
    ultimately show ?thesis by simp
  qed
  from 1 2 show ?thesis by (meson converse_rtranclp_into_rtranclp r_into_rtranclp)
qed

section \<open>What the peer gets\<close>

text \<open>The bytes a queued message becomes.\<close>

definition sent_frame :: "ReqId \<times> bytes \<Rightarrow> bytes" where
  "sent_frame m = frame (fst m) (take (narrowed (snd m)) (snd m))"

definition sent_stream :: "(ReqId \<times> bytes) list \<Rightarrow> bytes" where
  "sent_stream ms = concat (map sent_frame ms)"

lemma wire_sent: "send_node_of e junk (fst m) (snd m) = Inr n \<Longrightarrow> wire n = sent_frame m"
  by (simp add: sent_frame_def send_node_of_wire(1))

lemma sent_stream_snoc [simp]: "sent_stream (ms @ [m]) = sent_stream ms @ sent_frame m"
  by (simp add: sent_stream_def)

text \<open>
  The window in which the missing lock matters: a \<open>send\<close> has read the size of the queue and has not pushed, while a
  \<open>write_handler\<close> has popped the last message and has not tested for emptiness. A run is orderly if it never gets
  there.
\<close>

definition collides :: "wsys \<Rightarrow> bool" where
  "collides w \<longleftrightarrow> ws_popped w > 0 \<and> wqueue w = [] \<and> (\<exists>k m. ws_send w = S_sized k m)"

definition orderly :: "endian \<Rightarrow> wsys \<Rightarrow> wsys \<Rightarrow> bool" where
  "orderly e w w' \<longleftrightarrow> wstep e w w' \<and> \<not> collides w'"

text \<open>
  In an orderly run, while no write has failed, the head of the queue is being written unless a thread stands between
  touching the queue and starting a write, and what the peer has plus what is left is all the frames in order. After a
  failure the queue is stuck behind the write that failed.
\<close>

definition winv :: "wsys \<Rightarrow> bool" where
  "winv w \<longleftrightarrow> \<not> ws_fault w \<and>
     (if ws_failed w then
        ws_writes w = [] \<and> ws_popped w = 0 \<and> wqueue w \<noteq> [] \<and> ws_send w \<noteq> S_pushed 0 \<and>
        (\<forall>k m. ws_send w = S_sized k m \<longrightarrow> k > 0) \<and> prefix (ws_wire w) (sent_stream (ws_queued w))
      else if ws_popped w > 0 \<or> ws_send w = S_pushed 0 then
        ws_writes w = [] \<and> ws_wire w @ concat (map wire (wqueue w)) = sent_stream (ws_queued w) \<and> ws_popped w \<le> 1 \<and>
        (ws_send w = S_pushed 0 \<longrightarrow> ws_popped w = 0 \<and> wqueue w \<noteq> []) \<and>
        (\<forall>k m. ws_send w = S_sized k m \<longrightarrow> k > 0 \<and> wqueue w \<noteq> [])
      else
        (case wqueue w of
           [] \<Rightarrow> ws_writes w = [] \<and> ws_wire w = sent_stream (ws_queued w)
         | n # q \<Rightarrow> \<exists>rest. ws_writes w = [rest] \<and> ws_wire w @ rest @ concat (map wire q) = sent_stream (ws_queued w)) \<and>
        (\<forall>k m. ws_send w = S_sized k m \<longrightarrow> (k = 0 \<longleftrightarrow> wqueue w = [])))"

lemma winv_start: "wstart w \<Longrightarrow> winv w"
  by (auto simp: wstart_def winv_def sent_stream_def dest!: CSession_new_fields)

lemmas queue_ops = q_empty_def q_push_def q_front_def q_pop_def

lemma remove_only [simp]: "remove_nth 0 [x] = []"
  by (simp add: remove_nth_def)

lemma winv_one_write:
  "winv w \<Longrightarrow> i < length (ws_writes w) \<Longrightarrow>
   \<exists>rest n q. i = 0 \<and> ws_writes w = [rest] \<and> wqueue w = n # q \<and> ws_popped w = 0 \<and> ws_send w \<noteq> S_pushed 0 \<and> \<not> ws_failed w \<and>
     ws_wire w @ rest @ concat (map wire q) = sent_stream (ws_queued w) \<and> (\<forall>k m. ws_send w = S_sized k m \<longrightarrow> k > 0)"
  by (auto simp: winv_def split: if_splits list.splits)

lemma append3: "a @ b @ c = d \<Longrightarrow> a @ b @ c @ x = d @ x"
  by simp

lemma winv_send_steps:
  assumes "winv w"
  shows "ws_send w = S_idle \<Longrightarrow> \<not> collides (w\<lparr>ws_send := S_sized (length (wqueue w)) m\<rparr>) \<Longrightarrow>
      winv (w\<lparr>ws_send := S_sized (length (wqueue w)) m\<rparr>)"
    "ws_send w = S_sized k m \<Longrightarrow> wire n = sent_frame m \<Longrightarrow>
      winv ((set_queue (q_push n (wqueue w)) w)\<lparr>ws_send := S_pushed k, ws_queued := ws_queued w @ [m]\<rparr>)"
    "ws_send w = S_pushed k \<Longrightarrow> k > 0 \<Longrightarrow> winv (w\<lparr>ws_send := S_idle\<rparr>)"
    "ws_send w = S_pushed 0 \<Longrightarrow> winv ((start_write w)\<lparr>ws_send := S_idle\<rparr>) \<and> \<not> q_empty (wqueue w)"
proof -
  show "ws_send w = S_idle \<Longrightarrow> \<not> collides (w\<lparr>ws_send := S_sized (length (wqueue w)) m\<rparr>) \<Longrightarrow>
      winv (w\<lparr>ws_send := S_sized (length (wqueue w)) m\<rparr>)"
    using assms by (cases "wqueue w") (auto simp: winv_def collides_def split: if_splits)
  show "winv ((set_queue (q_push n (wqueue w)) w)\<lparr>ws_send := S_pushed k, ws_queued := ws_queued w @ [m]\<rparr>)"
    if sd: "ws_send w = S_sized k m" and "wire n = sent_frame m"
  proof (cases "wqueue w")
    case Nil
    then have "\<not> ws_failed w" "ws_popped w = 0" "k = 0" "ws_writes w = []" "\<not> ws_fault w" "ws_wire w = sent_stream (ws_queued w)"
      using assms that(1) by (simp_all add: winv_def split: if_splits)
    then show ?thesis using that(2) Nil by (simp add: winv_def q_push_def)
  next
    case (Cons n' q)
    have st: "sent_stream (ws_queued w @ [m]) = sent_stream (ws_queued w) @ wire n" using that(2) by simp
    show ?thesis
    proof (cases "ws_failed w")
      case True
      then show ?thesis using assms that(1) by (auto simp: winv_def q_push_def)
    next
      case False
      have k: "k > 0" using assms that(1) False Cons by (auto simp: winv_def split: if_splits)
      show ?thesis
      proof (cases "ws_popped w > 0")
        case True
        then have "ws_writes w = []" "\<not> ws_fault w" "ws_wire w @ concat (map wire (wqueue w)) = sent_stream (ws_queued w)" "ws_popped w \<le> 1"
          using assms False by (simp_all add: winv_def)
        moreover have "ws_wire w @ concat (map wire (wqueue w)) @ wire n = sent_stream (ws_queued w) @ wire n"
          by (metis append.assoc calculation(3))
        ultimately show ?thesis using True False k by (simp add: winv_def q_push_def st del: sent_stream_snoc)
      next
        case pop: False
        then obtain rest where "ws_writes w = [rest]" "\<not> ws_fault w"
          and e: "ws_wire w @ rest @ concat (map wire q) = sent_stream (ws_queued w)"
          using assms False sd Cons by (auto simp: winv_def)
        then show ?thesis using pop False k Cons append3 [OF e] by (simp add: winv_def q_push_def st del: sent_stream_snoc)
      qed
    qed
  qed
  show "ws_send w = S_pushed k \<Longrightarrow> k > 0 \<Longrightarrow> winv (w\<lparr>ws_send := S_idle\<rparr>)"
    using assms by (cases "ws_failed w"; cases "ws_popped w > 0"; cases "wqueue w"; simp add: winv_def)
  show "winv ((start_write w)\<lparr>ws_send := S_idle\<rparr>) \<and> \<not> q_empty (wqueue w)" if pd: "ws_send w = S_pushed 0"
  proof -
    have f: "\<not> ws_failed w" "\<not> ws_fault w" "ws_popped w = 0" "ws_writes w = []" "wqueue w \<noteq> []"
      "ws_wire w @ concat (map wire (wqueue w)) = sent_stream (ws_queued w)"
      using assms pd by (simp_all add: winv_def split: if_splits)
    then obtain n q where q: "wqueue w = n # q" by (cases "wqueue w") auto
    have "ws_wire w @ wire n @ concat (map wire q) = sent_stream (ws_queued w)" using f(6) by (simp add: q)
    then show ?thesis using f(1-4) q by (simp add: winv_def queue_ops)
  qed
qed

lemma winv_write_steps:
  assumes "winv w"
  shows "i < length (ws_writes w) \<Longrightarrow> ws_writes w ! i = a @ b \<Longrightarrow>
      winv (w\<lparr>ws_writes := (ws_writes w)[i := b], ws_wire := ws_wire w @ a\<rparr>)"
    "i < length (ws_writes w) \<Longrightarrow> ws_writes w ! i = [] \<Longrightarrow>
      w' = (set_queue (q_pop (wqueue w)) w)\<lparr>ws_writes := remove_nth i (ws_writes w), ws_popped := Suc (ws_popped w)\<rparr> \<Longrightarrow>
      \<not> collides w' \<Longrightarrow> winv w' \<and> \<not> q_empty (wqueue w)"
    "ws_popped w = Suc k \<Longrightarrow> q_empty (wqueue w) \<Longrightarrow> winv (w\<lparr>ws_popped := k\<rparr>)"
    "ws_popped w = Suc k \<Longrightarrow> \<not> q_empty (wqueue w) \<Longrightarrow> winv ((start_write w)\<lparr>ws_popped := k\<rparr>)"
    "i < length (ws_writes w) \<Longrightarrow> m_send_queue s' = wqueue w \<Longrightarrow>
      winv (w\<lparr>ws_sess := s', ws_writes := remove_nth i (ws_writes w), ws_failed := True\<rparr>)"
proof -
  show "winv (w\<lparr>ws_writes := (ws_writes w)[i := b], ws_wire := ws_wire w @ a\<rparr>)"
    if "i < length (ws_writes w)" "ws_writes w ! i = a @ b"
    using winv_one_write [OF assms that(1)] assms that(2) by (auto simp: winv_def)
  show "winv w' \<and> \<not> q_empty (wqueue w)" if "i < length (ws_writes w)" "ws_writes w ! i = []"
      "w' = (set_queue (q_pop (wqueue w)) w)\<lparr>ws_writes := remove_nth i (ws_writes w), ws_popped := Suc (ws_popped w)\<rparr>" "\<not> collides w'"
    using winv_one_write [OF assms that(1)] assms that(2,4) unfolding that(3) by (auto simp: winv_def collides_def queue_ops)
  show "ws_popped w = Suc k \<Longrightarrow> q_empty (wqueue w) \<Longrightarrow> winv (w\<lparr>ws_popped := k\<rparr>)"
    using assms by (auto simp: winv_def queue_ops split: if_splits)
  show "winv ((start_write w)\<lparr>ws_popped := k\<rparr>)" if pp: "ws_popped w = Suc k" "\<not> q_empty (wqueue w)"
  proof -
    have f: "\<not> ws_failed w" "\<not> ws_fault w" "k = 0" "ws_writes w = []" "ws_send w \<noteq> S_pushed 0"
      "ws_wire w @ concat (map wire (wqueue w)) = sent_stream (ws_queued w)" "\<forall>k m. ws_send w = S_sized k m \<longrightarrow> k > 0"
      using assms pp by (auto simp: winv_def split: if_splits)
    then obtain n q where q: "wqueue w = n # q" using pp by (cases "wqueue w") (auto simp: queue_ops)
    have "ws_wire w @ wire n @ concat (map wire q) = sent_stream (ws_queued w)" using f(6) by (simp add: q)
    then show ?thesis using f(1-5,7) q by (simp add: winv_def queue_ops)
  qed
  show "winv (w\<lparr>ws_sess := s', ws_writes := remove_nth i (ws_writes w), ws_failed := True\<rparr>)"
    if h: "i < length (ws_writes w)" "m_send_queue s' = wqueue w"
  proof -
    obtain rest n q where w: "i = 0" "ws_writes w = [rest]" "wqueue w = n # q" "ws_popped w = 0" "ws_send w \<noteq> S_pushed 0"
      "ws_wire w @ rest @ concat (map wire q) = sent_stream (ws_queued w)" "\<forall>k m. ws_send w = S_sized k m \<longrightarrow> k > 0"
      using winv_one_write [OF assms h(1)] by blast
    have "prefix (ws_wire w) (sent_stream (ws_queued w))" by (rule prefixI) (rule w(6) [symmetric])
    then show ?thesis using assms w h(2) by (auto simp: winv_def)
  qed
qed

lemma winv_sess: "m_send_queue s' = wqueue w \<Longrightarrow> winv (w\<lparr>ws_sess := s'\<rparr>) \<longleftrightarrow> winv w"
  by (cases "wqueue w") (simp_all add: winv_def)

lemma winv_step: "winv w \<Longrightarrow> orderly e w w' \<Longrightarrow> winv w'"
proof -
  assume i: "winv w" and o: "orderly e w w'"
  then have c: "\<not> collides w'" and s: "wstep e w w'" by (simp_all add: orderly_def)
  note steps = winv_send_steps [OF i] winv_write_steps [OF i]
  from s show "winv w'"
  proof cases
    case (w_push k m junk n)
    then show ?thesis using steps(2) wire_sent by blast
  next
    case (w_front_fault)
    then show ?thesis using steps(4) by blast
  next
    case (w_pop j)
    then show ?thesis using steps(6) c by blast
  next
    case (w_pop_fault j)
    then show ?thesis using winv_one_write [OF i] by (auto simp: queue_ops)
  next
    case (w_error j s' b es)
    then show ?thesis using steps(9) write_handler_error by blast
  next
    case w_close
    then show ?thesis using i by (simp add: winv_sess)
  qed (use steps c in auto)
qed

interpretation ws: invariant_system wstart "orderly e" winv for e
  by unfold_locales (auto intro: winv_start winv_step)

lemma winv_prefix: "winv w \<Longrightarrow> prefix (ws_wire w) (sent_stream (ws_queued w))"
  by (auto simp: winv_def split: if_splits list.splits intro: prefixI [OF sym])

lemma winv_drained: "winv w \<Longrightarrow> wqueue w = [] \<Longrightarrow> ws_wire w = sent_stream (ws_queued w)"
  by (auto simp: winv_def split: if_splits)

lemma winv_writes: "winv w \<Longrightarrow> length (ws_writes w) + ws_popped w \<le> 1"
  by (auto simp: winv_def split: if_splits list.splits)

lemma winv_idle:
  "winv w \<Longrightarrow> ws_writes w = [] \<Longrightarrow> ws_popped w = 0 \<Longrightarrow> ws_send w = S_idle \<Longrightarrow> \<not> ws_failed w \<Longrightarrow> wqueue w = []"
  by (auto simp: winv_def split: list.splits)

text \<open>
  C4. Delivery. In every interleaving of \<open>send\<close> and \<open>write_handler\<close> that stays out of the window of \<open>collides\<close>, at most
  one \<open>async_write\<close> or handler is under way, no empty queue is popped or read, and the peer receives the queued
  messages as frames, in the order they were queued, with nothing lost, repeated or interleaved: at any time a
  prefix of the whole stream, and all of it once the queue has drained. No message is stranded: when no thread is at work,
  no write is under way and none has failed, the queue is empty.
\<close>

theorem sends_delivered_in_order:
  assumes "reachable wstart (orderly e) w"
  shows "length (ws_writes w) + ws_popped w \<le> 1 \<and> \<not> ws_fault w \<and> prefix (ws_wire w) (sent_stream (ws_queued w)) \<and>
    (wqueue w = [] \<longrightarrow> ws_wire w = sent_stream (ws_queued w)) \<and>
    (ws_writes w = [] \<and> ws_popped w = 0 \<and> ws_send w = S_idle \<and> \<not> ws_failed w \<longrightarrow> wqueue w = [])"
proof -
  have "winv w" by (rule ws.inv_reachable [OF assms])
  moreover from this have "\<not> ws_fault w" by (simp add: winv_def)
  ultimately show ?thesis using winv_writes winv_prefix winv_drained winv_idle by blast
qed

definition wsys_init :: "csession \<Rightarrow> wsys" where
  "wsys_init s = \<lparr>ws_sess = s, ws_writes = [], ws_send = S_idle, ws_popped = 0, ws_wire = [], ws_queued = [],
     ws_failed = False, ws_fault = False\<rparr>"

lemma wsys_init_start: "CSession_new junk uuid = Inr s \<Longrightarrow> wstart (wsys_init s)"
  by (auto simp: wstart_def wsys_init_def)

text \<open>A run for the witnesses: one message is queued, and its write is under way.\<close>

definition one_sent :: "csession \<Rightarrow> ReqId \<times> bytes \<Rightarrow> send_node \<Rightarrow> wsys" where
  "one_sent s m n = \<lparr>ws_sess = s\<lparr>m_send_queue := [n]\<rparr>, ws_writes = [wire n], ws_send = S_idle, ws_popped = 0, ws_wire = [],
     ws_queued = [m], ws_failed = False, ws_fault = False\<rparr>"

lemma one_sent_reachable:
  assumes "CSession_new junk uuid = Inr s" "send_node_of e junk (fst m) (snd m) = Inr n"
  shows "reachable wstart (orderly e) (one_sent s m n)"
proof -
  have q: "m_send_queue s = []" using CSession_new_fields [OF assms(1)] by simp
  let ?w0 = "wsys_init s" let ?w1 = "?w0\<lparr>ws_send := S_sized 0 m\<rparr>"
  let ?w2 = "(set_queue (q_push n (wqueue ?w1)) ?w1)\<lparr>ws_send := S_pushed 0, ws_queued := ws_queued ?w1 @ [m]\<rparr>"
  have 1: "orderly e ?w0 ?w1" using w_size [of ?w0 e m] by (simp add: orderly_def collides_def wsys_init_def q)
  have 2: "orderly e ?w1 ?w2" using w_push [of ?w1 0 m e junk n] assms(2) by (simp add: orderly_def collides_def wsys_init_def)
  have "orderly e ?w2 ((start_write ?w2)\<lparr>ws_send := S_idle\<rparr>)"
    using w_write [of ?w2 e] by (simp add: orderly_def collides_def wsys_init_def queue_ops)
  moreover have "(start_write ?w2)\<lparr>ws_send := S_idle\<rparr> = one_sent s m n"
    by (simp add: start_write_def set_queue_def wsys_init_def one_sent_def queue_ops q)
  ultimately have 3: "orderly e ?w2 (one_sent s m n)" by simp
  have "reachable wstart (orderly e) ?w0" by (rule reach_start) (rule wsys_init_start [OF assms(1)])
  then have "reachable wstart (orderly e) ?w1" using 1 by (rule reach_step)
  then have "reachable wstart (orderly e) ?w2" using 2 by (rule reach_step)
  then show ?thesis using 3 by (rule reach_step)
qed

definition hello :: "ReqId \<times> bytes" where "hello = (1002, [104, 105])"

lemma first_node:
  obtains s n where "CSession_new (\<lambda>_. 3) ''u1'' = Inr s" "send_node_of Little (\<lambda>_. 3) (fst hello) (snd hello) = Inr n"
proof -
  obtain s where "CSession_new (\<lambda>_. 3) ''u1'' = Inr s" using CSession_new_ok by blast
  moreover obtain n where "send_node_of Little (\<lambda>_. 3) 1002 [104, 105] = Inr n"
    using send_node_of_iff [of Little "\<lambda>_. 3" 1002 "[104, 105]"] by (auto simp: narrowed_def)
  ultimately show ?thesis using that by (simp add: hello_def)
qed

theorem sends_delivered_in_order_witness:
  "\<exists>w. reachable wstart (orderly Little) w \<and> length (ws_writes w) + ws_popped w \<le> 1 \<and>
     ws_queued w = [hello] \<and> prefix (ws_wire w) (sent_stream [hello])"
proof -
  obtain s n where "CSession_new (\<lambda>_. 3) ''u1'' = Inr s" "send_node_of Little (\<lambda>_. 3) (fst hello) (snd hello) = Inr n"
    by (rule first_node)
  from one_sent_reachable [OF this] sends_delivered_in_order [OF one_sent_reachable [OF this]]
  show ?thesis by (intro exI conjI) (auto simp: one_sent_def)
qed

text \<open>Once a write has failed.\<close>

definition stalled :: "wsys \<Rightarrow> bool" where
  "stalled w \<longleftrightarrow> ws_writes w = [] \<and> ws_popped w = 0 \<and> wqueue w \<noteq> [] \<and> ws_send w \<noteq> S_pushed 0 \<and>
     (\<forall>k m. ws_send w = S_sized k m \<longrightarrow> k > 0)"

lemma stalled_step: "stalled w \<Longrightarrow> wstep e w w' \<Longrightarrow> stalled w' \<and> ws_wire w' = ws_wire w"
  by (erule wstep.cases) (auto simp: stalled_def q_push_def)

text \<open>
  C15. In a run that has been orderly so far, after a failed write the session never writes again, however the threads
  go on, in the window or not: the failed message stays at the front of the queue, so every later \<open>send\<close> sees a
  non-empty queue and leaves its message there, and no completion is outstanding that could pop it. Nothing tells the
  callers.
\<close>

theorem failed_write_stalls:
  assumes "reachable wstart (orderly e) w" "ws_failed w" "(wstep e)\<^sup>*\<^sup>* w w'"
  shows "ws_writes w' = [] \<and> ws_wire w' = ws_wire w \<and> wqueue w' \<noteq> []"
proof -
  have "winv w" by (rule ws.inv_reachable [OF assms(1)])
  with assms(2) have "stalled w" by (simp add: winv_def stalled_def)
  with assms(3) have "stalled w' \<and> ws_wire w' = ws_wire w"
    by (induction rule: rtranclp_induct) (auto dest: stalled_step)
  then show ?thesis by (simp add: stalled_def)
qed

theorem failed_write_stalls_witness:
  "\<exists>w w'. reachable wstart (orderly Little) w \<and> ws_failed w \<and> (wstep Little)\<^sup>*\<^sup>* w w' \<and>
     length (wqueue w') = 2 \<and> ws_writes w' = [] \<and> ws_wire w' = []"
proof -
  obtain s n where sn: "CSession_new (\<lambda>_. 3) ''u1'' = Inr s" "send_node_of Little (\<lambda>_. 3) (fst hello) (snd hello) = Inr n"
    by (rule first_node)
  obtain n2 where n2: "send_node_of Little (\<lambda>_. 3) 1002 [105] = Inr n2"
    using send_node_of_iff [of Little "\<lambda>_. 3" 1002 "[105]"] by (auto simp: narrowed_def)
  let ?w = "one_sent s hello n"
  let ?f = "?w\<lparr>ws_sess := fst (fail_session (ws_sess ?w)), ws_writes := remove_nth 0 (ws_writes ?w), ws_failed := True\<rparr>"
  have "wstep Little ?w ?f" by (rule w_error) (simp_all add: one_sent_def write_handler_def)
  then have "orderly Little ?w ?f" by (simp add: orderly_def collides_def one_sent_def)
  then have r: "reachable wstart (orderly Little) ?f" by (rule reach_step [OF one_sent_reachable [OF sn]])
  have sd: "send Little (\<lambda>_. 3) 1002 [105] (ws_sess ?f) = Inr ((ws_sess ?f)\<lparr>m_send_queue := [n, n2]\<rparr>, None)"
    by (simp add: send_def fail_session_def close_def n2 q_push_def MAX_SENDQUE_def Let_def one_sent_def)
  let ?w' = "?f\<lparr>ws_sess := (ws_sess ?f)\<lparr>m_send_queue := [n, n2]\<rparr>, ws_writes := ws_writes ?f @ opt_list None,
    ws_queued := ws_queued ?f @ [(1002, [105])]\<rparr>"
  have "(wstep Little)\<^sup>*\<^sup>* ?f ?w'"
    by (rule send_by_steps [OF _ _ sd]) (simp_all add: one_sent_def fail_session_def close_def MAX_SENDQUE_def)
  moreover from failed_write_stalls [OF r _ this] have "ws_writes ?w' = [] \<and> ws_wire ?w' = ws_wire ?f" by simp
  ultimately show ?thesis using r by (intro exI [of _ ?f] exI [of _ ?w']) (simp add: one_sent_def)
qed

section \<open>The limit on the queue\<close>

definition bounded :: "wsys \<Rightarrow> bool" where
  "bounded w \<longleftrightarrow> length (wqueue w) \<le> Suc MAX_SENDQUE \<and> (\<forall>k m. ws_send w = S_sized k m \<longrightarrow> length (wqueue w) \<le> MAX_SENDQUE)"

lemma bounded_step: "bounded w \<Longrightarrow> wstep e w w' \<Longrightarrow> bounded w'"
  by (erule wstep.cases) (auto simp: bounded_def queue_ops dest: write_handler_error)

interpretation qb: invariant_system wstart "wstep e" bounded for e
proof unfold_locales
  show "wstart w \<Longrightarrow> bounded w" for w by (auto simp: bounded_def wstart_def dest!: CSession_new_fields)
qed (rule bounded_step)

text \<open>
  C16. The limit on the send queue is off by one: the test is \<open>que_size > MAX_SENDQUE\<close>
  before the push, so the queue is bounded by \<open>MAX_SENDQUE + 1\<close>, and a queue that already
  holds the maximum still takes one more.
\<close>

theorem send_queue_bound:
  "(reachable wstart (wstep e) w \<longrightarrow> length (m_send_queue (ws_sess w)) \<le> MAX_SENDQUE + 1) \<and>
   (length (m_send_queue s) = MAX_SENDQUE \<and> narrowed data + 8 \<le> 2 ^ 32 \<longrightarrow>
     (\<exists>s'. send e junk mid data s = Inr (s', None) \<and>
       length (m_send_queue s') = MAX_SENDQUE + 1))"
proof (intro conjI impI)
  show "length (m_send_queue (ws_sess w)) \<le> MAX_SENDQUE + 1" if "reachable wstart (wstep e) w"
    using qb.inv_reachable [OF that] by (simp add: bounded_def)
  assume s: "length (m_send_queue s) = MAX_SENDQUE \<and> narrowed data + 8 \<le> 2 ^ 32"
  then obtain n where "send_node_of e junk mid data = Inr n"
    using send_node_of_iff by blast
  with s show "\<exists>s'. send e junk mid data s = Inr (s', None) \<and>
       length (m_send_queue s') = MAX_SENDQUE + 1"
    by (auto simp: send_def Let_def q_push_def MAX_SENDQUE_def)
qed

theorem send_queue_bound_witness:
  "\<exists>s s'. length (m_send_queue s) = MAX_SENDQUE \<and>
     send Little (\<lambda>_. 3) 1002 [105] s = Inr (s', None) \<and>
     length (m_send_queue s') = MAX_SENDQUE + 1"
proof -
  obtain s0 where s0: "CSession_new (\<lambda>_. 3) ''u1'' = Inr s0" using CSession_new_ok by blast
  obtain q :: "send_node list" where q: "length q = MAX_SENDQUE" using Ex_list_of_length by blast
  let ?s = "s0\<lparr>m_send_queue := q\<rparr>"
  have "length (m_send_queue ?s) = MAX_SENDQUE \<and> narrowed [105] + 8 \<le> 2 ^ 32"
    by (simp add: q narrowed_def)
  with send_queue_bound [of Little "wsys_init s0" ?s "[105]" "\<lambda>_. 3" 1002] show ?thesis by blast
qed

section \<open>In the window\<close>

text \<open>
  The same steps on the queue alone, with messages of any type: \<open>send\<close> reads the size, pushes, and (when
  the size read was zero) starts a write of the front; \<open>write_handler\<close> pops, and then
  tests for emptiness and starts a write of the new front.
\<close>

datatype handler_pc = H_idle | H_popped

record 'm race =
  rq :: "'m list"
  rwrites :: "'m list"
  spc :: "'m send_pc"
  hpc :: handler_pc

definition race_start :: "'m race \<Rightarrow> bool" where
  "race_start r \<longleftrightarrow> r = \<lparr>rq = [], rwrites = [], spc = S_idle, hpc = H_idle\<rparr>"

inductive race_step :: "'m race \<Rightarrow> 'm race \<Rightarrow> bool" where
  r_size: "spc r = S_idle \<Longrightarrow> length (rq r) \<le> MAX_SENDQUE \<Longrightarrow>
    race_step r (r\<lparr>spc := S_sized (length (rq r)) m\<rparr>)"
| r_push: "spc r = S_sized k m \<Longrightarrow>
    race_step r (r\<lparr>rq := q_push m (rq r), spc := S_pushed k\<rparr>)"
| r_leave: "spc r = S_pushed k \<Longrightarrow> k > 0 \<Longrightarrow> race_step r (r\<lparr>spc := S_idle\<rparr>)"
| r_write: "spc r = S_pushed 0 \<Longrightarrow> rq r \<noteq> [] \<Longrightarrow>
    race_step r (r\<lparr>rwrites := rwrites r @ [q_front (rq r)], spc := S_idle\<rparr>)"
| r_pop: "hpc r = H_idle \<Longrightarrow> rwrites r = m # ms \<Longrightarrow> rq r \<noteq> [] \<Longrightarrow>
    race_step r (r\<lparr>rwrites := ms, rq := q_pop (rq r), hpc := H_popped\<rparr>)"
| r_last: "hpc r = H_popped \<Longrightarrow> q_empty (rq r) \<Longrightarrow> race_step r (r\<lparr>hpc := H_idle\<rparr>)"
| r_next: "hpc r = H_popped \<Longrightarrow> \<not> q_empty (rq r) \<Longrightarrow>
    race_step r (r\<lparr>rwrites := rwrites r @ [q_front (rq r)], hpc := H_idle\<rparr>)"

text \<open>The run: \<open>a\<close> is being written, its completion pops it, and \<open>send b\<close> cuts in.\<close>

lemma race_run:
  fixes a b :: 'm
  shows "race_step\<^sup>*\<^sup>* \<lparr>rq = [], rwrites = [], spc = S_idle, hpc = H_idle\<rparr>
     \<lparr>rq = [b], rwrites = [b, b], spc = S_idle, hpc = H_idle\<rparr>"
proof -
  let ?st = "\<lambda>q w s h. \<lparr>rq = q, rwrites = w, spc = s :: 'm send_pc, hpc = h\<rparr>"
  have s1: "race_step (?st [] [] S_idle H_idle) (?st [] [] (S_sized 0 a) H_idle)"
    using r_size [of "?st [] [] S_idle H_idle" a] by (simp add: MAX_SENDQUE_def)
  have s2: "race_step (?st [] [] (S_sized 0 a) H_idle) (?st [a] [] (S_pushed 0) H_idle)"
    using r_push [of "?st [] [] (S_sized 0 a) H_idle" 0 a] by (simp add: q_push_def)
  have s3: "race_step (?st [a] [] (S_pushed 0) H_idle) (?st [a] [a] S_idle H_idle)"
    using r_write [of "?st [a] [] (S_pushed 0) H_idle"] by (simp add: q_front_def)
  have s4: "race_step (?st [a] [a] S_idle H_idle) (?st [] [] S_idle H_popped)"
    using r_pop [of "?st [a] [a] S_idle H_idle" a "[]"] by (simp add: q_pop_def)
  have s5: "race_step (?st [] [] S_idle H_popped) (?st [] [] (S_sized 0 b) H_popped)"
    using r_size [of "?st [] [] S_idle H_popped" b] by (simp add: MAX_SENDQUE_def)
  have s6: "race_step (?st [] [] (S_sized 0 b) H_popped) (?st [b] [] (S_pushed 0) H_popped)"
    using r_push [of "?st [] [] (S_sized 0 b) H_popped" 0 b] by (simp add: q_push_def)
  have s7: "race_step (?st [b] [] (S_pushed 0) H_popped) (?st [b] [b] S_idle H_popped)"
    using r_write [of "?st [b] [] (S_pushed 0) H_popped"] by (simp add: q_front_def)
  have s8: "race_step (?st [b] [b] S_idle H_popped) (?st [b] [b, b] S_idle H_idle)"
    using r_next [of "?st [b] [b] S_idle H_popped"] by (simp add: q_front_def q_empty_def)
  note c = converse_rtranclp_into_rtranclp [where r = race_step]
  show ?thesis
    by (rule c [OF s1 c [OF s2 c [OF s3 c [OF s4 c [OF s5 c [OF s6 c [OF s7 c [OF s8]]]]]]]])
      (rule rtranclp.rtrancl_refl)
qed

text \<open>
  C14. \<open>write_handler\<close> touches the queue without \<open>m_send_lock\<close>, and that is a race: a
  \<open>send\<close> between its \<open>pop\<close> and its test for emptiness starts a write of the new message
  and the handler starts another, so the message goes out twice at the same time; after one
  of the two completes, the other completion finds an empty queue to pop from.
\<close>

theorem send_handler_race:
  fixes m :: 'm
  shows "(\<exists>r :: 'm race. reachable race_start race_step r \<and> rq r = [m] \<and> rwrites r = [m, m]) \<and>
    (\<exists>r :: 'm race. reachable race_start race_step r \<and> hpc r = H_idle \<and> rwrites r = [m] \<and> rq r = [])"
proof -
  let ?r0 = "\<lparr>rq = [], rwrites = [], spc = S_idle, hpc = H_idle\<rparr> :: 'm race"
  let ?r1 = "\<lparr>rq = [m], rwrites = [m, m], spc = S_idle, hpc = H_idle\<rparr> :: 'm race"
  let ?r2 = "\<lparr>rq = [], rwrites = [m], spc = S_idle, hpc = H_popped\<rparr> :: 'm race"
  let ?r3 = "\<lparr>rq = [], rwrites = [m], spc = S_idle, hpc = H_idle\<rparr> :: 'm race"
  have "reachable race_start race_step ?r0"
    by (rule reach_start) (simp add: race_start_def)
  then have r1: "reachable race_start race_step ?r1"
    by (rule reachable_steps) (rule race_run)
  have "race_step ?r1 ?r2" using r_pop [of ?r1 m "[m]"] by (simp add: q_pop_def)
  with r1 have r2: "reachable race_start race_step ?r2" by (rule reach_step)
  have "race_step ?r2 ?r3" using r_last [of ?r2] by (simp add: q_empty_def)
  with r2 have "reachable race_start race_step ?r3" by (rule reach_step)
  with r1 show ?thesis by (intro conjI exI [of _ ?r1] exI [of _ ?r3]) auto
qed

end
