(* ===== verification/Frame_Codec.thy ===== *)
theory Frame_Codec
  imports Session_Write
begin

text \<open>
  The wire format of the protocol as a prefix codec: the decoder a correct peer of the server
  runs on the bytes it gets. The encoder is \<open>frame\<close>, what a \<open>SendNode\<close> puts on the wire.
\<close>

definition parse_frame :: "bytes \<Rightarrow> ((ReqId \<times> bytes) \<times> bytes) option" where
  "parse_frame bs =
     (if length bs < HEAD_TOTAL_LEN then None
      else
        let mid = un_be16 (take 2 bs);
            n = unat (un_be32 (take 4 (drop 2 bs)));
            rest = drop 6 bs
        in if length rest < n then None else Some ((mid, take n rest), drop n rest))"

definition frame_small :: "ReqId \<times> bytes \<Rightarrow> bool" where
  "frame_small m \<longleftrightarrow> length (snd m) + 8 \<le> 2 ^ 32"

lemma parse_frame_frame:
  "length d < 2 ^ 32 \<Longrightarrow> parse_frame (frame i d @ rest) = Some ((i, d), rest)"
  by (simp add: parse_frame_def frame_def un_be16_be16 un_be32_be32 unat_of_nat32)

interpretation frames: prefix_codec "\<lambda>m. frame (fst m) (snd m)" parse_frame frame_small
proof unfold_locales
  fix x :: "ReqId \<times> bytes" and rest
  assume "frame_small x"
  then show "parse_frame (frame (fst x) (snd x) @ rest) = Some (x, rest)"
    by (simp add: frame_small_def parse_frame_frame)
next
  fix x :: "ReqId \<times> bytes"
  show "frame (fst x) (snd x) \<noteq> []" by (simp add: frame_def be16_def)
qed

lemma sent_stream_frames:
  "list_all frame_small ms \<Longrightarrow> sent_stream ms = concat (map (\<lambda>m. frame (fst m) (snd m)) ms)"
proof (induction ms)
  case (Cons m ms)
  then have "sent_frame m = frame (fst m) (snd m)"
    by (simp add: sent_frame_def narrowed_def frame_small_def)
  with Cons show ?case by (simp add: sent_stream_def)
qed (simp add: sent_stream_def)

text \<open>
  C10. What the peer can make of the bytes it gets. After a run of the writing threads that stayed out of the window of
  \<open>collides\<close>, once the send queue has run empty, and with messages short enough for their length field: cutting
  the byte stream along the length fields gives back exactly the messages \<open>send\<close> has queued, ids and payloads, in
  order, with nothing left over. (An empty queue means that no write has failed; messages refused by a full queue are not
  among those queued.)
\<close>

theorem peer_decodes_replies:
  assumes "reachable wstart (orderly e) w" "wqueue w = []" "list_all frame_small (ws_queued w)"
  shows "decode_n parse_frame (length (ws_queued w)) (ws_wire w) = Some (ws_queued w, [])"
proof -
  have "ws_wire w = sent_stream (ws_queued w)"
    by (rule winv_drained [OF ws.inv_reachable [OF assms(1)] assms(2)])
  then show ?thesis
    using frames.decode_stream [OF assms(3), of "[]"] by (simp add: sent_stream_frames [OF assms(3)])
qed

theorem peer_decodes_replies_witness:
  "\<exists>w. reachable wstart (orderly Little) w \<and> ws_queued w = [hello] \<and>
     decode_n parse_frame 1 (ws_wire w) = Some ([hello], [])"
proof -
  obtain s n where sn: "CSession_new (\<lambda>_. 3) ''u1'' = Inr s" "send_node_of Little (\<lambda>_. 3) (fst hello) (snd hello) = Inr n"
    by (rule first_node)
  let ?w = "one_sent s hello n"
  let ?b = "?w\<lparr>ws_writes := (ws_writes ?w)[0 := []], ws_wire := ws_wire ?w @ wire n\<rparr>"
  let ?p = "(set_queue (q_pop (wqueue ?b)) ?b)\<lparr>ws_writes := remove_nth 0 (ws_writes ?b), ws_popped := Suc (ws_popped ?b)\<rparr>"
  have "orderly Little ?w ?b"
    using w_bytes [of 0 ?w "wire n" "[]" Little] by (simp add: orderly_def collides_def one_sent_def)
  then have "reachable wstart (orderly Little) ?b" by (rule reach_step [OF one_sent_reachable [OF sn]])
  moreover have "orderly Little ?b ?p"
    using w_pop [of 0 ?b Little] by (simp add: orderly_def collides_def one_sent_def q_empty_def)
  ultimately have r: "reachable wstart (orderly Little) ?p" by (rule reach_step)
  have "decode_n parse_frame (length (ws_queued ?p)) (ws_wire ?p) = Some (ws_queued ?p, [])"
    by (rule peer_decodes_replies [OF r]) (simp_all add: one_sent_def q_pop_def frame_small_def hello_def)
  then show ?thesis using r by (intro exI [of _ ?p]) (simp add: one_sent_def)
qed

end
