(* ===== verification/Logic_System.thy ===== *)
theory Logic_System
  imports CSession RS_Interfaces
begin

text \<open>
  \<open>ResourceServer/include/logicsystem.h\<close> and the queue, worker and shutdown of
  \<open>src/logicsystem.cpp\<close>: sessions post received messages, one worker thread takes them in
  order and runs the callback registered for their id. The upload callback itself is in the
  theory \<open>Upload\<close>.
\<close>

section \<open>Callbacks\<close>

datatype callback = Test_send | Do_upload_file_req

definition register_callback :: "ReqId \<Rightarrow> callback option" where
  "register_callback = [E_ID_TEST_MSG_REQ \<mapsto> Test_send, E_ID_UPLOAD_FILE_REQ \<mapsto> Do_upload_file_req]"

text \<open>
  The call the worker makes for a node. The callback takes a \<open>const std::string&\<close> and is
  given the \<open>char*\<close> of the body, so the string ends at the first NUL.
\<close>

record call =
  call_cb :: callback
  call_session :: string
  call_id :: ReqId
  call_data :: bytes

definition dispatch :: "logic_node \<Rightarrow> call option" where
  "dispatch nd =
     (let mid = get_msgID (ln_recv_node nd)
      in case register_callback mid of None \<Rightarrow> None
         | Some cb \<Rightarrow> Some \<lparr>call_cb = cb, call_session = ln_session nd, call_id = mid,
             call_data = cstr (body (ln_recv_node nd))\<rparr>)"

definition calls_of :: "logic_node list \<Rightarrow> call list" where
  "calls_of nds = concat (map (\<lambda>nd. case dispatch nd of None \<Rightarrow> [] | Some c \<Rightarrow> [c]) nds)"

lemma calls_of_simps [simp]:
  "calls_of [] = []" "calls_of (xs @ ys) = calls_of xs @ calls_of ys"
  "calls_of (nd # xs) = (case dispatch nd of None \<Rightarrow> calls_of xs | Some c \<Rightarrow> c # calls_of xs)"
  by (simp_all add: calls_of_def split: option.split)

section \<open>The worker, the posters and the destructor\<close>

text \<open>
  Where the worker stands in \<open>deal_message\<close>: about to lock the mutex; holding it and about
  to test the predicate of \<open>m_cond.wait\<close>; holding it with the predicate false, about to
  block; blocked (the mutex released); notified and about to lock again; past the wait,
  holding it; out of the loop. The destructor has set \<open>m_is_stop\<close>, has notified, has joined.
\<close>

datatype worker_pc = W_lock | W_pred | W_block | W_wait | W_woken | W_run | W_exit

datatype dtor_pc = D_none | D_stopped | D_notified | D_joined

record lsys =
  m_logic_que :: "logic_node list"
  l_is_stop :: bool
  wpc :: worker_pc
  dpc :: dtor_pc
  l_calls :: "call list"
  l_posted :: "logic_node list"

definition holds_mutex :: "worker_pc \<Rightarrow> bool" where
  "holds_mutex pc \<longleftrightarrow> pc \<in> {W_pred, W_block, W_run}"

definition notify :: "worker_pc \<Rightarrow> worker_pc" where
  "notify pc = (if pc = W_wait then W_woken else pc)"

definition LogicSystem_new :: lsys where
  "LogicSystem_new = \<lparr>m_logic_que = [], l_is_stop = False, wpc = W_lock, dpc = D_none,
     l_calls = [], l_posted = []\<rparr>"

text \<open>\<open>post_message_to_logic_system\<close>, with the mutex held for its whole body.\<close>

definition post_message :: "logic_node \<Rightarrow> lsys \<Rightarrow> lsys" where
  "post_message nd l =
     (let was_empty = (m_logic_que l = []) in
      l\<lparr>m_logic_que := m_logic_que l @ [nd],
        wpc := (if was_empty then notify (wpc l) else wpc l),
        l_posted := l_posted l @ [nd]\<rparr>)"

text \<open>The body of the loop of \<open>deal_message\<close> after the wait, up to the unlock.\<close>

definition deal_body :: "lsys \<Rightarrow> lsys" where
  "deal_body l =
     (case m_logic_que l of
        [] \<Rightarrow> l\<lparr>wpc := (if l_is_stop l then W_exit else W_lock)\<rparr>
      | nd # q \<Rightarrow>
          (case dispatch nd of
             None \<Rightarrow> l\<lparr>m_logic_que := q, wpc := W_lock\<rparr>
           | Some c \<Rightarrow> l\<lparr>m_logic_que := q, l_calls := l_calls l @ [c],
               wpc := (if q = [] \<and> l_is_stop l then W_exit else W_lock)\<rparr>))"

datatype label = Worker | Poster | Dtor

inductive lstep :: "label \<Rightarrow> lsys \<Rightarrow> lsys \<Rightarrow> bool" where
  l_lock: "wpc l = W_lock \<Longrightarrow> lstep Worker l (l\<lparr>wpc := W_pred\<rparr>)"
| l_true: "wpc l = W_pred \<Longrightarrow> m_logic_que l \<noteq> [] \<or> l_is_stop l \<Longrightarrow>
    lstep Worker l (l\<lparr>wpc := W_run\<rparr>)"
| l_false: "wpc l = W_pred \<Longrightarrow> m_logic_que l = [] \<Longrightarrow> \<not> l_is_stop l \<Longrightarrow>
    lstep Worker l (l\<lparr>wpc := W_block\<rparr>)"
| l_block: "wpc l = W_block \<Longrightarrow> lstep Worker l (l\<lparr>wpc := W_wait\<rparr>)"
| l_wake: "wpc l = W_woken \<Longrightarrow> lstep Worker l (l\<lparr>wpc := W_pred\<rparr>)"
| l_deal: "wpc l = W_run \<Longrightarrow> lstep Worker l (deal_body l)"
| l_post: "\<not> holds_mutex (wpc l) \<Longrightarrow> lstep Poster l (post_message nd l)"
| l_stop: "dpc l = D_none \<Longrightarrow> lstep Dtor l (l\<lparr>l_is_stop := True, dpc := D_stopped\<rparr>)"
| l_notify: "dpc l = D_stopped \<Longrightarrow>
    lstep Dtor l (l\<lparr>wpc := notify (wpc l), dpc := D_notified\<rparr>)"
| l_join: "dpc l = D_notified \<Longrightarrow> wpc l = W_exit \<Longrightarrow> lstep Dtor l (l\<lparr>dpc := D_joined\<rparr>)"

inductive_simps worker_step_iff: "lstep Worker l l'"

inductive_simps dtor_step_iff: "lstep Dtor l l'"

definition lany :: "lsys \<Rightarrow> lsys \<Rightarrow> bool" where
  "lany l l' \<longleftrightarrow> (\<exists>lab. lstep lab l l')"

definition lstart :: "lsys \<Rightarrow> bool" where
  "lstart l \<longleftrightarrow> l = LogicSystem_new"

section \<open>The invariant of the queue\<close>

text \<open>
  Every message posted has been taken, in order, or is still queued; a worker that is
  blocked, or about to block, has an empty queue; it leaves the loop only after the stop.
\<close>

definition linv :: "lsys \<Rightarrow> bool" where
  "linv l \<longleftrightarrow>
     (wpc l \<in> {W_block, W_wait} \<longrightarrow> m_logic_que l = []) \<and>
     (wpc l = W_exit \<longrightarrow> l_is_stop l) \<and>
     (dpc l \<noteq> D_none \<longrightarrow> l_is_stop l) \<and>
     l_calls l @ calls_of (m_logic_que l) = calls_of (l_posted l)"

lemma linv_deal_body: "linv l \<Longrightarrow> wpc l = W_run \<Longrightarrow> linv (deal_body l)"
  by (cases "m_logic_que l")
    (auto simp: linv_def deal_body_def split: option.splits)

lemma linv_post: "linv l \<Longrightarrow> \<not> holds_mutex (wpc l) \<Longrightarrow> linv (post_message nd l)"
  by (auto simp: linv_def post_message_def notify_def holds_mutex_def Let_def
      simp flip: append_assoc)

lemma linv_step: "linv l \<Longrightarrow> lstep lab l l' \<Longrightarrow> linv l'"
  by (erule lstep.cases)
    (auto simp: linv_deal_body linv_post, auto simp: linv_def notify_def)

interpretation lq: invariant_system lstart lany linv
proof unfold_locales
  show "linv l" if "lstart l" for l
    using that by (simp add: lstart_def LogicSystem_new_def linv_def)
qed (auto simp: lany_def intro: linv_step)

section \<open>Messages are handled, once and in order\<close>

definition awake :: "worker_pc \<Rightarrow> bool" where
  "awake pc \<longleftrightarrow> pc \<in> {W_lock, W_pred, W_woken, W_run}"

lemma worker_to_run:
  assumes "awake (wpc l)" "m_logic_que l \<noteq> [] \<or> l_is_stop l"
  shows "(lstep Worker)\<^sup>*\<^sup>* l (l\<lparr>wpc := W_run\<rparr>)"
proof -
  let ?p = "l\<lparr>wpc := W_pred\<rparr>"
  have pr: "lstep Worker ?p (l\<lparr>wpc := W_run\<rparr>)"
    using l_true [of ?p] assms(2) by simp
  consider "wpc l = W_run" | "wpc l = W_pred" | "wpc l \<in> {W_lock, W_woken}"
    using assms(1) by (auto simp: awake_def)
  then show ?thesis
  proof cases
    case 1
    then have "l\<lparr>wpc := W_run\<rparr> = l" by simp
    then show ?thesis by simp
  next
    case 2
    then have "?p = l" by simp
    with pr show ?thesis by auto
  next
    case 3
    then have "lstep Worker l ?p" by (auto intro: l_lock l_wake)
    with pr show ?thesis by (meson converse_rtranclp_into_rtranclp r_into_rtranclp)
  qed
qed

lemma deal_body_Cons:
  "m_logic_que l = nd # q \<Longrightarrow>
   m_logic_que (deal_body l) = q \<and> l_is_stop (deal_body l) = l_is_stop l \<and>
   dpc (deal_body l) = dpc l \<and> l_posted (deal_body l) = l_posted l \<and>
   (q \<noteq> [] \<longrightarrow> awake (wpc (deal_body l))) \<and>
   wpc (deal_body l) \<in> {W_lock, W_exit}"
  by (auto simp: deal_body_def awake_def split: option.splits)

lemma worker_drains:
  "awake (wpc l) \<or> m_logic_que l = [] \<Longrightarrow>
   \<exists>l'. (lstep Worker)\<^sup>*\<^sup>* l l' \<and> m_logic_que l' = [] \<and> l_is_stop l' = l_is_stop l \<and>
     dpc l' = dpc l \<and> l_posted l' = l_posted l \<and> (wpc l' = wpc l \<or> wpc l' \<in> {W_lock, W_exit})"
proof (induction "m_logic_que l" arbitrary: l)
  case Nil
  then show ?case by (intro exI [of _ l]) auto
next
  case (Cons nd q)
  let ?r = "l\<lparr>wpc := W_run\<rparr>"
  have aw: "awake (wpc l)" and q: "m_logic_que ?r = nd # q"
    using Cons.prems Cons.hyps(2) by auto
  have "(lstep Worker)\<^sup>*\<^sup>* l ?r"
    using Cons.hyps(2) by (intro worker_to_run [OF aw]) auto
  then have to: "(lstep Worker)\<^sup>*\<^sup>* l (deal_body ?r)"
    by (rule rtranclp.rtrancl_into_rtrancl) (simp add: l_deal)
  note d = deal_body_Cons [OF q]
  obtain l' where l': "(lstep Worker)\<^sup>*\<^sup>* (deal_body ?r) l'" "m_logic_que l' = []"
    "l_is_stop l' = l_is_stop l" "dpc l' = dpc l" "l_posted l' = l_posted l"
    "wpc l' = wpc (deal_body ?r) \<or> wpc l' \<in> {W_lock, W_exit}"
    using Cons.hyps(1) [of "deal_body ?r"] d by auto
  from to l'(1) have "(lstep Worker)\<^sup>*\<^sup>* l l'" by (rule rtranclp_trans)
  with l' d show ?case by (intro exI [of _ l']) auto
qed

lemma linv_worker_steps: "linv l \<Longrightarrow> (lstep Worker)\<^sup>*\<^sup>* l l' \<Longrightarrow> linv l'"
  by (rotate_tac, induction rule: rtranclp_induct) (auto intro: linv_step)

lemma exit_stays: "wpc l = W_exit \<Longrightarrow> lany\<^sup>*\<^sup>* l l' \<Longrightarrow> wpc l' = W_exit \<and> l_calls l' = l_calls l"
proof (rotate_tac, induction rule: rtranclp_induct)
  case (step l1 l2)
  then have w: "wpc l1 = W_exit" by simp
  obtain lab where "lstep lab l1 l2" using step.hyps(2) by (auto simp: lany_def)
  then have "wpc l2 = W_exit \<and> l_calls l2 = l_calls l1"
    using w by cases (simp_all add: post_message_def notify_def Let_def)
  with step show ?case by simp
qed simp

text \<open>
  C5. No posted message is stranded while the worker runs: in every reachable state in which the worker has not
  left its loop, the worker alone (with no further post or notification) empties the queue,
  and it has then made exactly the calls the posted messages ask for, once each and in the
  order of posting; messages with an unregistered id are dropped. Once it has left, which it does only after the stop, no
  call is made any more, whatever is posted.
\<close>

theorem posted_messages_handled:
  assumes "reachable lstart lany l"
  shows "(wpc l \<noteq> W_exit \<longrightarrow>
      (\<exists>l'. (lstep Worker)\<^sup>*\<^sup>* l l' \<and> m_logic_que l' = [] \<and> l_calls l' = calls_of (l_posted l))) \<and>
    (wpc l = W_exit \<longrightarrow> l_is_stop l \<and> (\<forall>l'. lany\<^sup>*\<^sup>* l l' \<longrightarrow> l_calls l' = l_calls l))"
proof (intro conjI impI allI)
  have inv: "linv l" by (rule lq.inv_reachable [OF assms])
  show "\<exists>l'. (lstep Worker)\<^sup>*\<^sup>* l l' \<and> m_logic_que l' = [] \<and> l_calls l' = calls_of (l_posted l)" if w: "wpc l \<noteq> W_exit"
  proof -
    have "awake (wpc l) \<or> m_logic_que l = []"
      using inv w by (cases "wpc l") (auto simp: linv_def awake_def)
    then obtain l' where l': "(lstep Worker)\<^sup>*\<^sup>* l l'" "m_logic_que l' = []" "l_posted l' = l_posted l"
      using worker_drains by blast
    have "linv l'" by (rule linv_worker_steps [OF inv l'(1)])
    with l' show ?thesis by (auto simp: linv_def)
  qed
  assume w: "wpc l = W_exit"
  show "l_is_stop l" using inv w unfolding linv_def by blast
  show "l_calls l' = l_calls l" if "lany\<^sup>*\<^sup>* l l'" for l' using exit_stays [OF w that] ..
qed

lemma lnew_reachable: "reachable lstart lany LogicSystem_new"
  by (rule reach_start) (simp add: lstart_def)

lemma lany_reachable: "reachable lstart lany l \<Longrightarrow> lstep lab l l' \<Longrightarrow> reachable lstart lany l'"
  by (rule reach_step) (auto simp: lany_def)

lemma posted_reachable: "reachable lstart lany (post_message nd LogicSystem_new)"
  by (rule lany_reachable [OF lnew_reachable l_post])
    (simp add: LogicSystem_new_def holds_mutex_def)

definition sample_node :: "ReqId \<Rightarrow> bytes \<Rightarrow> logic_node" where
  "sample_node i d = \<lparr>ln_session = ''u1'',
     ln_recv_node = \<lparr>body = d @ [0], total_len = of_nat (length d),
       current_len = of_nat (length d), recv_msg_id = i\<rparr>\<rparr>"

theorem posted_messages_handled_witness:
  "\<exists>l'. (lstep Worker)\<^sup>*\<^sup>* (post_message (sample_node 1001 [104]) LogicSystem_new) l' \<and>
     m_logic_que l' = [] \<and>
     l_calls l' = [\<lparr>call_cb = Test_send, call_session = ''u1'', call_id = 1001, call_data = [104]\<rparr>]"
proof -
  let ?l = "post_message (sample_node 1001 [104]) LogicSystem_new"
  have "wpc ?l \<noteq> W_exit" by (simp add: post_message_def LogicSystem_new_def notify_def)
  moreover have "calls_of (l_posted ?l) =
      [\<lparr>call_cb = Test_send, call_session = ''u1'', call_id = 1001, call_data = [104]\<rparr>]"
    by (simp add: post_message_def LogicSystem_new_def sample_node_def dispatch_def get_msgID_def
        register_callback_def req_ids cstr_def)
  ultimately show ?thesis using posted_messages_handled [OF posted_reachable] by metis
qed

section \<open>Shutting down\<close>

text \<open>
  C13. The worker leaves its loop only after the stop and with an empty queue: at that step
  it has made every call the posted messages ask for.
\<close>

theorem worker_exit_drained:
  assumes "reachable lstart lany l" "lstep lab l l'" "wpc l \<noteq> W_exit" "wpc l' = W_exit"
  shows "l_is_stop l' \<and> m_logic_que l' = [] \<and> l_calls l' = calls_of (l_posted l')"
proof -
  have inv: "linv l'"
    using lq.inv_reachable [OF lany_reachable [OF assms(1,2)]] .
  have "l' = deal_body l"
    using assms(2-4)
    by (cases rule: lstep.cases) (auto simp: post_message_def notify_def Let_def split: if_splits)
  then have "m_logic_que l' = []"
    using assms(4) by (auto simp: deal_body_def split: list.splits option.splits if_splits)
  with inv assms(4) show ?thesis by (auto simp: linv_def)
qed

text \<open>A run that stops the worker: it is past the wait when the destructor sets the flag.\<close>

definition stopped_run :: lsys where
  "stopped_run = LogicSystem_new\<lparr>l_is_stop := True, dpc := D_stopped, wpc := W_run\<rparr>"

lemma stopped_run_reachable: "reachable lstart lany stopped_run"
proof -
  let ?s = "LogicSystem_new\<lparr>l_is_stop := True, dpc := D_stopped\<rparr>"
  have s: "reachable lstart lany ?s"
    by (rule lany_reachable [OF lnew_reachable l_stop]) (simp add: LogicSystem_new_def)
  have p: "reachable lstart lany (?s\<lparr>wpc := W_pred\<rparr>)"
    by (rule lany_reachable [OF s l_lock]) (simp add: LogicSystem_new_def)
  have "reachable lstart lany ((?s\<lparr>wpc := W_pred\<rparr>)\<lparr>wpc := W_run\<rparr>)"
    by (rule lany_reachable [OF p l_true]) simp_all
  then show ?thesis by (simp add: stopped_run_def)
qed

theorem worker_exit_drained_witness:
  "lstep Worker stopped_run (deal_body stopped_run) \<and> wpc (deal_body stopped_run) = W_exit \<and>
   m_logic_que (deal_body stopped_run) = []"
proof -
  have d: "lstep Worker stopped_run (deal_body stopped_run)"
    by (rule l_deal) (simp add: stopped_run_def)
  have w: "wpc stopped_run \<noteq> W_exit" "wpc (deal_body stopped_run) = W_exit"
    by (simp_all add: stopped_run_def LogicSystem_new_def deal_body_def)
  from worker_exit_drained [OF stopped_run_reachable d w] d w show ?thesis by simp
qed

text \<open>
  C11. The destructor can wait for ever: it sets \<open>m_is_stop\<close> and notifies without holding
  the mutex, so both can fall between the worker's test of the predicate and its blocking.
  Then the notification finds nobody waiting, the worker blocks, and in that reachable state
  neither the worker nor the destructor can take a step (a spurious wake-up of the condition
  variable, which the standard allows but does not promise, would be the only way out).
\<close>

theorem shutdown_deadlock:
  "\<exists>l. reachable lstart lany l \<and> dpc l = D_notified \<and> wpc l = W_wait \<and> m_logic_que l = [] \<and>
     l_is_stop l \<and> \<not> (\<exists>l'. lstep Worker l l') \<and> \<not> (\<exists>l'. lstep Dtor l l')"
proof -
  let ?st = "\<lambda>s d w. LogicSystem_new\<lparr>l_is_stop := s, dpc := d, wpc := w\<rparr>"
  have 0: "?st False D_none W_lock = LogicSystem_new" by (simp add: LogicSystem_new_def)
  have 1: "reachable lstart lany (?st False D_none W_pred)"
    using lany_reachable [OF lnew_reachable l_lock] by (simp add: LogicSystem_new_def)
  have 2: "reachable lstart lany (?st False D_none W_block)"
    using lany_reachable [OF 1 l_false] by (simp add: LogicSystem_new_def)
  have 3: "reachable lstart lany (?st True D_stopped W_block)"
    using lany_reachable [OF 2 l_stop] by (simp add: LogicSystem_new_def)
  have 4: "reachable lstart lany (?st True D_notified W_block)"
    using lany_reachable [OF 3 l_notify] by (simp add: LogicSystem_new_def notify_def)
  have 5: "reachable lstart lany (?st True D_notified W_wait)"
    using lany_reachable [OF 4 l_block] by (simp add: LogicSystem_new_def)
  show ?thesis
    by (rule exI [of _ "?st True D_notified W_wait"])
      (simp add: 5, simp add: LogicSystem_new_def worker_step_iff dtor_step_iff)
qed

text \<open>
  C12. Outside that window shutdown succeeds: from every reachable state in which the
  destructor has notified and the worker neither sleeps nor has found the predicate false and is about to sleep, the worker
  and the destructor alone reach the join, with every posted message handled if the worker was
  still in its loop.
\<close>

theorem shutdown_completes:
  assumes "reachable lstart lany l" "dpc l = D_notified" "wpc l \<notin> {W_block, W_wait}"
  shows "\<exists>l1 l2. (lstep Worker)\<^sup>*\<^sup>* l l1 \<and> lstep Dtor l1 l2 \<and> dpc l2 = D_joined \<and>
    (wpc l = W_exit \<or> l_calls l2 = calls_of (l_posted l))"
proof (cases "wpc l = W_exit")
  case True
  with assms(2) have "lstep Dtor l (l\<lparr>dpc := D_joined\<rparr>)" by (intro l_join)
  with True show ?thesis
    by (intro exI [of _ l] exI [of _ "l\<lparr>dpc := D_joined\<rparr>"]) simp
next
  case False
  have inv: "linv l" by (rule lq.inv_reachable [OF assms(1)])
  have aw: "awake (wpc l)" using False assms(3) by (cases "wpc l") (auto simp: awake_def)
  have stop: "l_is_stop l" using inv assms(2) by (auto simp: linv_def)
  obtain l' where l': "(lstep Worker)\<^sup>*\<^sup>* l l'" "m_logic_que l' = []" "l_is_stop l'"
    "dpc l' = D_notified" "l_posted l' = l_posted l" "awake (wpc l') \<or> wpc l' = W_exit"
    using worker_drains [OF disjI1 [OF aw]] aw stop assms(2) by (auto simp: awake_def)
  have calls: "l_calls l' = calls_of (l_posted l)"
    using linv_worker_steps [OF inv l'(1)] l'(2,5) by (simp add: linv_def)
  obtain l1 where l1: "(lstep Worker)\<^sup>*\<^sup>* l l1" "wpc l1 = W_exit" "dpc l1 = D_notified"
    "l_calls l1 = l_calls l'"
  proof (cases "wpc l' = W_exit")
    case True
    with l' show ?thesis by (intro that [of l']) auto
  next
    case False
    let ?r = "l'\<lparr>wpc := W_run\<rparr>"
    have "(lstep Worker)\<^sup>*\<^sup>* l' ?r"
      using False l'(3,6) by (intro worker_to_run) auto
    then have "(lstep Worker)\<^sup>*\<^sup>* l' (deal_body ?r)"
      by (rule rtranclp.rtrancl_into_rtrancl) (simp add: l_deal)
    with l' show ?thesis
      by (intro that [of "deal_body ?r"]) (auto simp: deal_body_def intro: rtranclp_trans)
  qed
  then have "lstep Dtor l1 (l1\<lparr>dpc := D_joined\<rparr>)" by (intro l_join)
  with l1 calls show ?thesis
    by (intro exI [of _ l1] exI [of _ "l1\<lparr>dpc := D_joined\<rparr>"]) simp
qed

lemma stopped_notified_reachable: "reachable lstart lany (stopped_run\<lparr>dpc := D_notified\<rparr>)"
  using lany_reachable [OF stopped_run_reachable l_notify]
  by (simp add: stopped_run_def notify_def)

theorem shutdown_completes_witness:
  "\<exists>l1 l2. (lstep Worker)\<^sup>*\<^sup>* (stopped_run\<lparr>dpc := D_notified\<rparr>) l1 \<and> lstep Dtor l1 l2 \<and> dpc l2 = D_joined"
proof -
  have "dpc (stopped_run\<lparr>dpc := D_notified\<rparr>) = D_notified"
    "wpc (stopped_run\<lparr>dpc := D_notified\<rparr>) \<notin> {W_block, W_wait}"
    by (simp_all add: stopped_run_def)
  from shutdown_completes [OF stopped_notified_reachable this] show ?thesis by blast
qed

section \<open>What a callback gets\<close>

text \<open>
  C21. A registered callback gets the payload of the frame up to its first zero byte: the
  body is passed as a \<open>char*\<close>. The NUL that ends every receive node stops the read at
  the end of the payload, so a payload without zero bytes arrives whole, and only such a one.
\<close>

theorem callback_payload:
  assumes "register_callback i = Some cb" "get_msgID (ln_recv_node nd) = i"
    and "body (ln_recv_node nd) = d @ [0]"
  shows "\<exists>c. dispatch nd = Some c \<and> call_cb c = cb \<and> call_id c = i \<and>
    call_data c = takeWhile (\<lambda>b. b \<noteq> 0) d \<and> (call_data c = d \<longleftrightarrow> 0 \<notin> set d)"
proof -
  have "takeWhile (\<lambda>b. b \<noteq> 0) (d @ [0]) = takeWhile (\<lambda>b. b \<noteq> (0 :: byte)) d"
    by (induction d) auto
  moreover have "takeWhile (\<lambda>b. b \<noteq> 0) d = d \<longleftrightarrow> (0 :: byte) \<notin> set d"
    by (auto simp: takeWhile_eq_all_conv)
  ultimately show ?thesis
    using assms by (simp add: dispatch_def cstr_def)
qed

theorem callback_payload_witness:
  "\<exists>c. dispatch (sample_node 1001 [104, 0, 105]) = Some c \<and> call_cb c = Test_send \<and>
     call_data c = [104]"
proof -
  have "register_callback 1001 = Some Test_send"
    by (simp add: register_callback_def req_ids)
  from callback_payload [OF this, of "sample_node 1001 [104, 0, 105]" "[104, 0, 105]"]
  show ?thesis by (auto simp: sample_node_def get_msgID_def)
qed

end
