(* ===== verification/File_System.thy ===== *)
theory File_System
  imports CSession RS_Interfaces
begin

text \<open>
  The parts of the C++ standard library that the upload handler uses, with their documented
  behaviour on a POSIX system: \<open>std::filesystem::path\<close> as text, directories and files
  keyed by that text (no links are followed, \<open>.\<close> and \<open>..\<close> stay as written), and
  \<open>std::ofstream\<close>. What is written counts as in the file at once: buffering is not modelled.
\<close>

section \<open>Paths\<close>

definition lit :: "string \<Rightarrow> bytes" where
  "lit s = map of_char s"

definition slash :: byte where "slash = 0x2F"

definition is_absolute :: "bytes \<Rightarrow> bool" where
  "is_absolute p \<longleftrightarrow> p \<noteq> [] \<and> hd p = slash"

text \<open>\<open>p / q\<close>: an absolute right-hand side replaces the left one.\<close>

definition path_append :: "bytes \<Rightarrow> bytes \<Rightarrow> bytes" where
  "path_append p q =
     (if is_absolute q then q
      else if p = [] \<or> last p = slash then p @ q
      else p @ [slash] @ q)"

text \<open>\<open>p.parent_path ()\<close>: without the last file name and the separators before it.\<close>

definition parent_path :: "bytes \<Rightarrow> bytes" where
  "parent_path p =
     (let dir = rev (dropWhile (\<lambda>c. c = slash) (dropWhile (\<lambda>c. c \<noteq> slash) (rev p)))
      in if dir = [] \<and> is_absolute p then [slash] else dir)"

definition ancestors :: "bytes \<Rightarrow> bytes list" where
  "ancestors p = map (\<lambda>k. take k p) (filter (\<lambda>k. 0 < k \<and> p ! k = slash) [0..<length p])"

section \<open>Files and directories\<close>

record fsys =
  fs_files :: "bytes \<Rightarrow> bytes option"
  fs_dirs :: "bytes list"

text \<open>What the operating system would refuse: creating a directory, opening a file.\<close>

record os_env =
  can_mkdir :: "bytes \<Rightarrow> bool"
  can_open :: "bytes \<Rightarrow> bool"

definition fs_exists :: "fsys \<Rightarrow> bytes \<Rightarrow> bool" where
  "fs_exists fs p \<longleftrightarrow> p \<in> set (fs_dirs fs) \<or> fs_files fs p \<noteq> None"

definition create_directories :: "os_env \<Rightarrow> bytes \<Rightarrow> fsys \<Rightarrow> cpp_exception + fsys" where
  "create_directories env p fs =
     (if can_mkdir env p then Inr (fs\<lparr>fs_dirs := p # ancestors p @ fs_dirs fs\<rparr>)
      else Inl Filesystem_error)"

definition file_put :: "bytes \<Rightarrow> bytes \<Rightarrow> fsys \<Rightarrow> fsys" where
  "file_put p c fs = fs\<lparr>fs_files := (fs_files fs)(p \<mapsto> c)\<rparr>"

definition file_del :: "bytes \<Rightarrow> fsys \<Rightarrow> fsys" where
  "file_del p fs = fs\<lparr>fs_files := (fs_files fs)(p := None)\<rparr>"

interpretation files: keyed_store fs_files file_put file_del
  by unfold_locales (simp_all add: file_put_def file_del_def)

definition contents :: "fsys \<Rightarrow> bytes \<Rightarrow> bytes" where
  "contents fs p = (case fs_files fs p of None \<Rightarrow> [] | Some c \<Rightarrow> c)"

section \<open>Output file streams\<close>

definition is_open :: "ofstream \<Rightarrow> bool" where
  "is_open out \<longleftrightarrow> os_path out \<noteq> None"

text \<open>
  \<open>open\<close> with \<open>trunc\<close> empties the file, with \<open>app\<close> keeps what it holds; either creates
  it. Success clears the error state, failure sets it.
\<close>

definition os_open :: "os_env \<Rightarrow> bool \<Rightarrow> bytes \<Rightarrow> ofstream \<times> fsys \<Rightarrow> ofstream \<times> fsys" where
  "os_open env trunc p st =
     (let (out, fs) = st in
      if is_open out \<or> \<not> can_open env p then (out\<lparr>os_fail := True\<rparr>, fs)
      else (\<lparr>os_path = Some p, os_fail = False\<rparr>,
            file_put p (if trunc then [] else contents fs p) fs))"

definition os_write :: "bytes \<Rightarrow> ofstream \<times> fsys \<Rightarrow> ofstream \<times> fsys" where
  "os_write buf st =
     (let (out, fs) = st in
      case os_path out of
        None \<Rightarrow> (out\<lparr>os_fail := True\<rparr>, fs)
      | Some p \<Rightarrow> if os_fail out then (out, fs)
          else (out, file_put p (contents fs p @ buf) fs))"

definition os_close :: "ofstream \<Rightarrow> ofstream" where
  "os_close out =
     (if is_open out then out\<lparr>os_path := None\<rparr> else out\<lparr>os_fail := True\<rparr>)"

lemma contents_file_put [simp]:
  "contents (file_put p c fs) q = (if q = p then c else contents fs q)"
  by (simp add: contents_def files.get_put)

lemma file_put_put [simp]: "file_put p c (file_put p d fs) = file_put p c fs"
  by (simp add: file_put_def)

lemma is_open_simps [simp]:
  "is_open \<lparr>os_path = Some p, os_fail = f\<rparr>" "\<not> is_open \<lparr>os_path = None, os_fail = f\<rparr>"
  by (simp_all add: is_open_def)

end
