(* ===== verification/Upload.thy ===== *)
theory Upload
  imports File_System Session_Write "HOL-Library.Monad_Syntax"
begin

text \<open>
  \<open>LogicSystem::do_upload_file_req\<close> and \<open>test_send\<close> of \<open>src/logicsystem.cpp\<close>. The JSON
  library is a parameter: a record of the operations the handler uses.
\<close>

section \<open>JSON, as the handler uses it\<close>

text \<open>
  \<open>json::parse\<close> (\<open>None\<close> is a thrown \<open>parse_error\<close>), \<open>is_null\<close>, \<open>is_object\<close>, and
  \<open>root[key]\<close> converted to a string, a \<open>std::size_t\<close> or a \<open>bool\<close> (\<open>None\<close> is a thrown
  \<open>type_error\<close>). A reply starts as the null value and turns into an object when a key is
  assigned; \<open>dump\<close> prints it.
\<close>

datatype rval = R_num nat | R_str bytes

datatype reply = Reply_null | Reply_obj "string \<Rightarrow> rval option"

record 'j json_api =
  j_parse :: "bytes \<Rightarrow> 'j option"
  j_is_null :: "'j \<Rightarrow> bool"
  j_is_object :: "'j \<Rightarrow> bool"
  j_string :: "'j \<Rightarrow> string \<Rightarrow> bytes option"
  j_size :: "'j \<Rightarrow> string \<Rightarrow> 64 word option"
  j_bool :: "'j \<Rightarrow> string \<Rightarrow> bool option"
  j_dump :: "reply \<Rightarrow> bytes"

fun reply_put :: "string \<Rightarrow> rval \<Rightarrow> reply \<Rightarrow> reply" where
  "reply_put k v Reply_null = Reply_obj [k \<mapsto> v]"
| "reply_put k v (Reply_obj m) = Reply_obj (m(k \<mapsto> v))"

text \<open>Documented: a JSON value has one type, so null is not an object.\<close>

definition json_types :: "'j json_api \<Rightarrow> bool" where
  "json_types api \<longleftrightarrow> (\<forall>j. j_is_null api j \<longrightarrow> \<not> j_is_object api j)"

section \<open>The request\<close>

record upload_req =
  uq_md5 :: bytes
  uq_name :: bytes
  uq_seq :: "64 word"
  uq_trans_size :: "64 word"
  uq_total_size :: "64 word"
  uq_last :: bool
  uq_data :: bytes

definition upload_fields :: "'j json_api \<Rightarrow> 'j \<Rightarrow> upload_req option" where
  "upload_fields api root = do {
     md5 \<leftarrow> j_string api root ''md5'';
     filename \<leftarrow> j_string api root ''name'';
     seq \<leftarrow> j_size api root ''seq'';
     trans_size \<leftarrow> j_size api root ''trans_size'';
     total_size \<leftarrow> j_size api root ''total_size'';
     lst \<leftarrow> j_bool api root ''last'';
     base64_buffer \<leftarrow> j_string api root ''data'';
     Some \<lparr>uq_md5 = md5, uq_name = filename, uq_seq = seq, uq_trans_size = trans_size,
           uq_total_size = total_size, uq_last = lst, uq_data = base64_buffer\<rparr> }"

definition resource_path :: "bytes \<Rightarrow> bytes \<Rightarrow> bytes" where
  "resource_path p filename =
     path_append (path_append (path_append p (lit ''bin'')) (lit ''static'')) filename"

section \<open>Storing one packet\<close>

text \<open>How the guarded block ends: normally, by an exception, or by \<open>std::terminate\<close>.\<close>

datatype outcome = Ended | Threw cpp_exception | Died

definition ensure_dir :: "os_env \<Rightarrow> bytes \<Rightarrow> fsys \<Rightarrow> cpp_exception + fsys" where
  "ensure_dir env dir fs = (if fs_exists fs dir then Inr fs else create_directories env dir fs)"

definition open_stream :: "os_env \<Rightarrow> bytes \<Rightarrow> 64 word \<Rightarrow> ofstream \<times> fsys \<Rightarrow> ofstream \<times> fsys" where
  "open_stream env path seq st =
     (if is_open (fst st) then st
      else if seq = 1 then os_open env True path st
      else os_open env False path st)"

definition store_packet :: "os_env \<Rightarrow> (bytes \<Rightarrow> nat \<Rightarrow> int \<times> bytes) \<Rightarrow> bool \<Rightarrow> bytes \<Rightarrow> upload_req
    \<Rightarrow> ofstream \<times> fsys \<Rightarrow> (ofstream \<times> fsys) \<times> outcome" where
  "store_packet env bio_read dbg path q st =
     (case ensure_dir env (parent_path path) (snd st) of
        Inl x \<Rightarrow> (st, Threw x)
      | Inr fs \<Rightarrow>
          let st1 = open_stream env path (uq_seq q) (fst st, fs) in
          if dbg \<and> \<not> is_open (fst st1) then (st1, Died)
          else
            case base64_decode bio_read (uq_data q) of
              Inl x \<Rightarrow> (st1, Threw x)
            | Inr buffer \<Rightarrow>
                let st2 = os_write buffer st1 in
                ((if uq_last q then (os_close (fst st2), snd st2) else st2), Ended))"

definition success_reply :: "upload_req \<Rightarrow> reply \<Rightarrow> reply" where
  "success_reply q r =
     reply_put ''message'' (R_str (lit ''success''))
      (reply_put ''trans_size'' (R_num (unat (uq_trans_size q)))
       (reply_put ''total_size'' (R_num (unat (uq_total_size q)))
        (reply_put ''name'' (R_str (uq_name q))
         (reply_put ''sucess'' (R_num (unat (enum_to_int E_SUCESS))) r))))"

definition invalid_reply :: "reply \<Rightarrow> reply" where
  "invalid_reply r =
     reply_put ''message'' (R_str (lit ''json is invalid!!!''))
      (reply_put ''sucess'' (R_num (unat (enum_to_int E_INVALID_JSON))) r)"

section \<open>The handler\<close>

text \<open>
  The block below \<open>Defer d\<close>, on the file stream of the session, the file system and the
  reply. \<open>cfg_root\<close> is \<open>cfg["Path"]["ResourceRoot"]\<close>.
\<close>

record upload_state =
  us_out :: ofstream
  us_fs :: fsys
  us_respond :: reply

definition upload_block :: "'j json_api \<Rightarrow> os_env \<Rightarrow> (bytes \<Rightarrow> nat \<Rightarrow> int \<times> bytes) \<Rightarrow> bytes option
    \<Rightarrow> bool \<Rightarrow> 'j \<Rightarrow> upload_state \<Rightarrow> upload_state \<times> outcome" where
  "upload_block api env bio_read cfg_root dbg root u =
     (if j_is_null api root \<and> \<not> j_is_object api root
      then (u\<lparr>us_respond := invalid_reply (us_respond u)\<rparr>, Ended)
      else case upload_fields api root of
        None \<Rightarrow> (u, Threw Json_type_error)
      | Some q \<Rightarrow>
          case cfg_root of
            None \<Rightarrow> (u, if dbg then Died else Threw Bad_optional_access)
          | Some p \<Rightarrow>
              let (st, r) = store_packet env bio_read dbg (resource_path p (uq_name q)) q
                              (us_out u, us_fs u);
                  u' = u\<lparr>us_out := fst st, us_fs := snd st\<rparr>
              in (if r = Ended then u'\<lparr>us_respond := success_reply q (us_respond u')\<rparr> else u', r))"

text \<open>
  The whole handler: a parse error sends nothing; otherwise the reply, as far as it got, is
  sent when the block is left, and only then is an exception caught, whose handler is an
  \<open>Assert (false, _)\<close>. The result is the session, the file system and the write
  \<open>send\<close> started.
\<close>

definition do_upload_file_req :: "'j json_api \<Rightarrow> os_env \<Rightarrow> (bytes \<Rightarrow> nat \<Rightarrow> int \<times> bytes)
    \<Rightarrow> bytes option \<Rightarrow> bool \<Rightarrow> endian \<Rightarrow> (nat \<Rightarrow> byte) \<Rightarrow> bytes \<Rightarrow> csession \<times> fsys
    \<Rightarrow> fault + (csession \<times> fsys) \<times> bytes option" where
  "do_upload_file_req api env bio_read cfg_root dbg e junk data st =
     (case j_parse api data of
        None \<Rightarrow> bind_f (Assert dbg False) (\<lambda>_. Inr (st, None))
      | Some root \<Rightarrow>
          let (u, r) = upload_block api env bio_read cfg_root dbg root
                \<lparr>us_out = get_file_stream (fst st), us_fs = snd st, us_respond = Reply_null\<rparr>
          in if r = Died then Inl Terminated
             else
               bind_f (send e junk E_ID_UPLOAD_FILE_RSP (j_dump api (us_respond u))
                         ((fst st)\<lparr>m_file_out := us_out u\<rparr>)) (\<lambda>(s', w).
               bind_f (Assert dbg (r = Ended)) (\<lambda>_.
               Inr ((s', us_fs u), w))))"

definition test_send :: "endian \<Rightarrow> (nat \<Rightarrow> byte) \<Rightarrow> ReqId \<Rightarrow> bytes \<Rightarrow> csession
    \<Rightarrow> fault + csession \<times> bytes option" where
  "test_send e junk mid data s = send e junk E_ID_TEST_MSG_RSP data s"

section \<open>One packet\<close>

definition grants :: "os_env \<Rightarrow> bytes \<Rightarrow> bool" where
  "grants env path \<longleftrightarrow> can_open env path \<and> can_mkdir env (parent_path path)"

lemma ensure_dir_granted:
  "can_mkdir env d \<Longrightarrow> \<exists>fs'. ensure_dir env d fs = Inr fs' \<and> fs_files fs' = fs_files fs"
  by (auto simp: ensure_dir_def create_directories_def)

lemma contents_files: "fs_files fs = fs_files fs' \<Longrightarrow> contents fs p = contents fs' p"
  by (simp add: contents_def)

definition stream_after :: "upload_req \<Rightarrow> bytes \<Rightarrow> ofstream" where
  "stream_after q path = \<lparr>os_path = (if uq_last q then None else Some path), os_fail = False\<rparr>"

lemma store_on_open_stream:
  assumes "can_mkdir env (parent_path path)" "base64_decode bio_read (uq_data q) = Inr b"
  shows "\<exists>fs'. store_packet env bio_read dbg path q (\<lparr>os_path = Some p0, os_fail = False\<rparr>, fs) =
      ((stream_after q p0, fs'), Ended) \<and>
    fs_files fs' = (fs_files fs)(p0 \<mapsto> contents fs p0 @ b)"
proof -
  obtain fs1 where fs1: "ensure_dir env (parent_path path) fs = Inr fs1" "fs_files fs1 = fs_files fs"
    using ensure_dir_granted [OF assms(1)] by blast
  then show ?thesis
    using assms(2)
    by (simp add: store_packet_def open_stream_def os_write_def os_close_def stream_after_def
        contents_files [OF fs1(2)] file_put_def Let_def)
qed

lemma store_on_closed_stream:
  assumes "grants env path" "base64_decode bio_read (uq_data q) = Inr b" "\<not> is_open out"
  shows "\<exists>fs'. store_packet env bio_read dbg path q (out, fs) =
      ((stream_after q path, fs'), Ended) \<and>
    fs_files fs' = (fs_files fs)(path \<mapsto> (if uq_seq q = 1 then [] else contents fs path) @ b)"
proof -
  obtain fs1 where fs1: "ensure_dir env (parent_path path) fs = Inr fs1" "fs_files fs1 = fs_files fs"
    using ensure_dir_granted assms(1) unfolding grants_def by blast
  then show ?thesis
    using assms
    by (simp add: store_packet_def open_stream_def os_open_def os_write_def os_close_def
        stream_after_def contents_files [OF fs1(2)] grants_def Let_def)
      (simp add: file_put_def)
qed

lemma store_open_failure:
  assumes "can_mkdir env (parent_path path)" "\<not> can_open env path" "\<not> is_open out"
    and "base64_decode bio_read (uq_data q) = Inr b"
  shows "\<exists>fs' out'. store_packet env bio_read False path q (out, fs) = ((out', fs'), Ended) \<and>
    fs_files fs' = fs_files fs \<and> \<not> is_open out'"
proof -
  obtain fs1 where fs1: "ensure_dir env (parent_path path) fs = Inr fs1" "fs_files fs1 = fs_files fs"
    using ensure_dir_granted [OF assms(1)] by blast
  then show ?thesis
    using assms(2-4)
    by (auto simp: store_packet_def open_stream_def os_open_def os_write_def os_close_def
        is_open_def Let_def)
qed

section \<open>One request\<close>

definition dumps_small :: "'j json_api \<Rightarrow> bool" where
  "dumps_small api \<longleftrightarrow> (\<forall>r. length (j_dump api r) < 2 ^ 31)"

definition parses_to :: "'j json_api \<Rightarrow> bytes \<Rightarrow> upload_req \<Rightarrow> bool" where
  "parses_to api d q \<longleftrightarrow>
     (\<exists>root. j_parse api d = Some root \<and> \<not> j_is_null api root \<and> upload_fields api root = Some q)"

definition rsp_frame :: "'j json_api \<Rightarrow> reply \<Rightarrow> bytes" where
  "rsp_frame api r = frame E_ID_UPLOAD_FILE_RSP (j_dump api r)"

lemma send_dump:
  assumes "dumps_small api" "length (m_send_queue s) \<le> MAX_SENDQUE"
  shows "\<exists>n w. send e junk E_ID_UPLOAD_FILE_RSP (j_dump api r) s =
      Inr (s\<lparr>m_send_queue := m_send_queue s @ [n]\<rparr>, w) \<and> wire n = rsp_frame api r"
proof -
  have d: "length (j_dump api r) < 2 ^ 31"
    using assms(1) unfolding dumps_small_def by blast
  then have nr: "narrowed (j_dump api r) = length (j_dump api r)"
    by (simp add: narrowed_def)
  then obtain n where n: "send_node_of e junk E_ID_UPLOAD_FILE_RSP (j_dump api r) = Inr n"
    using send_node_of_iff [of e junk E_ID_UPLOAD_FILE_RSP "j_dump api r"] d by auto
  with send_node_of_wire(1) [OF n] assms(2) nr show ?thesis
    by (auto simp: send_def Let_def rsp_frame_def q_push_def)
qed

lemma upload_packet:
  assumes "parses_to api d q" "dumps_small api" "length (m_send_queue s) \<le> MAX_SENDQUE"
    and st: "store_packet env bio_read dbg (resource_path p (uq_name q)) q (m_file_out s, fs) =
      ((out', fs'), Ended)"
  shows "\<exists>n w. do_upload_file_req api env bio_read (Some p) dbg e junk d (s, fs) =
      Inr ((s\<lparr>m_file_out := out', m_send_queue := m_send_queue s @ [n]\<rparr>, fs'), w) \<and>
    wire n = rsp_frame api (success_reply q Reply_null)"
proof -
  obtain root where root: "j_parse api d = Some root" "\<not> j_is_null api root"
    "upload_fields api root = Some q"
    using assms(1) by (auto simp: parses_to_def)
  obtain n w where "send e junk E_ID_UPLOAD_FILE_RSP (j_dump api (success_reply q Reply_null))
      (s\<lparr>m_file_out := out'\<rparr>) =
      Inr (s\<lparr>m_file_out := out', m_send_queue := m_send_queue s @ [n]\<rparr>, w)"
    "wire n = rsp_frame api (success_reply q Reply_null)"
    using send_dump [OF assms(2), of "s\<lparr>m_file_out := out'\<rparr>" e junk "success_reply q Reply_null"]
      assms(3) by auto
  with root st show ?thesis
    by (auto simp: do_upload_file_req_def upload_block_def get_file_stream_def)
qed

section \<open>A file in packets\<close>

fun uploads :: "'j json_api \<Rightarrow> os_env \<Rightarrow> (bytes \<Rightarrow> nat \<Rightarrow> int \<times> bytes) \<Rightarrow> bytes option \<Rightarrow> bool
    \<Rightarrow> endian \<Rightarrow> (nat \<Rightarrow> byte) \<Rightarrow> bytes list \<Rightarrow> csession \<times> fsys \<Rightarrow> fault + csession \<times> fsys" where
  "uploads api env bio_read cfg_root dbg e junk [] st = Inr st"
| "uploads api env bio_read cfg_root dbg e junk (d # ds) st =
     bind_f (do_upload_file_req api env bio_read cfg_root dbg e junk d st) (\<lambda>(st', w).
     uploads api env bio_read cfg_root dbg e junk ds st')"

text \<open>The packets of one file: their names agree and the last one, and only it, says so.\<close>

fun packets_of :: "bytes \<Rightarrow> upload_req list \<Rightarrow> bool" where
  "packets_of name [] = False"
| "packets_of name [q] = (uq_name q = name \<and> uq_last q)"
| "packets_of name (q # qs) = (uq_name q = name \<and> \<not> uq_last q \<and> packets_of name qs)"

lemma uploads_open:
  assumes "dumps_small api"
  shows "packets_of name qs \<Longrightarrow> can_mkdir env (parent_path (resource_path p name)) \<Longrightarrow> list_all2 (parses_to api) ds qs \<Longrightarrow>
    list_all2 (\<lambda>q b. base64_decode bio_read (uq_data q) = Inr b) qs bs \<Longrightarrow>
    length (m_send_queue s) + length qs \<le> Suc MAX_SENDQUE \<Longrightarrow>
    m_file_out s = \<lparr>os_path = Some p0, os_fail = False\<rparr> \<Longrightarrow>
    \<exists>s' fs'. uploads api env bio_read (Some p) dbg e junk ds (s, fs) = Inr (s', fs') \<and>
      fs_files fs' = (fs_files fs)(p0 \<mapsto> contents fs p0 @ concat bs) \<and>
      \<not> is_open (m_file_out s') \<and>
      map wire (m_send_queue s') = map wire (m_send_queue s) @
        map (\<lambda>q. rsp_frame api (success_reply q Reply_null)) qs"
proof (induction name qs arbitrary: ds bs s fs rule: packets_of.induct)
  case (2 name q)
  then have nm: "uq_name q = name" by simp
  from 2 obtain d b where [simp]: "ds = [d]" "bs = [b]" by (auto simp: list_all2_Cons1 list_all2_Cons2)
  obtain fs' where "store_packet env bio_read dbg (resource_path p name) q
      (\<lparr>os_path = Some p0, os_fail = False\<rparr>, fs) = ((stream_after q p0, fs'), Ended)"
    and fs': "fs_files fs' = (fs_files fs)(p0 \<mapsto> contents fs p0 @ b)"
    using store_on_open_stream [OF "2.prems"(2), of bio_read q b dbg p0 fs] "2.prems" by auto
  then have "store_packet env bio_read dbg (resource_path p (uq_name q)) q (m_file_out s, fs)
      = ((stream_after q p0, fs'), Ended)"
    using "2.prems" by (simp add: nm)
  then obtain n w where "do_upload_file_req api env bio_read (Some p) dbg e junk d (s, fs) =
      Inr ((s\<lparr>m_file_out := stream_after q p0, m_send_queue := m_send_queue s @ [n]\<rparr>, fs'), w)"
    "wire n = rsp_frame api (success_reply q Reply_null)"
    using upload_packet [of api d q s] assms 2 by fastforce
  with fs' 2 show ?case by (auto simp: stream_after_def)
next
  case (3 name q q2 qs)
  then have nm: "uq_name q = name" by simp
  from "3.prems" obtain d ds' b bs' where [simp]: "ds = d # ds'" "bs = b # bs'"
    by (auto simp: list_all2_Cons1 list_all2_Cons2)
  obtain fs1 where "store_packet env bio_read dbg (resource_path p name) q
      (\<lparr>os_path = Some p0, os_fail = False\<rparr>, fs) = ((stream_after q p0, fs1), Ended)"
    and fs1: "fs_files fs1 = (fs_files fs)(p0 \<mapsto> contents fs p0 @ b)"
    using store_on_open_stream [OF "3.prems"(2), of bio_read q b dbg p0 fs] "3.prems" by auto
  then have "store_packet env bio_read dbg (resource_path p (uq_name q)) q (m_file_out s, fs)
      = ((stream_after q p0, fs1), Ended)"
    using "3.prems" by (simp add: nm)
  then obtain n w where up: "do_upload_file_req api env bio_read (Some p) dbg e junk d (s, fs) =
      Inr ((s\<lparr>m_file_out := stream_after q p0, m_send_queue := m_send_queue s @ [n]\<rparr>, fs1), w)"
    and n: "wire n = rsp_frame api (success_reply q Reply_null)"
    using upload_packet [of api d q s] assms "3.prems" by fastforce
  let ?s = "s\<lparr>m_file_out := stream_after q p0, m_send_queue := m_send_queue s @ [n]\<rparr>"
  have "\<exists>s' fs'. uploads api env bio_read (Some p) dbg e junk ds' (?s, fs1) = Inr (s', fs') \<and>
      fs_files fs' = (fs_files fs1)(p0 \<mapsto> contents fs1 p0 @ concat bs') \<and>
      \<not> is_open (m_file_out s') \<and>
      map wire (m_send_queue s') = map wire (m_send_queue ?s) @
        map (\<lambda>q. rsp_frame api (success_reply q Reply_null)) (q2 # qs)"
    using "3.prems" by (intro "3.IH") (auto simp: stream_after_def)
  moreover have "contents fs1 p0 = contents fs p0 @ b" by (simp add: contents_def fs1)
  ultimately show ?case using up n fs1 by (auto simp: fun_upd_def intro!: ext)
qed simp

text \<open>
  C3. A file sent in packets is stored whole: for any list of requests with one name, the
  first with \<open>seq = 1\<close> and the last, and only it, with \<open>last\<close> set, handled one after the
  other on a session whose file stream is closed, the file at the resource path ends up as
  the concatenation of the decoded data, whatever it held before; no other file changes, the
  stream is closed again, and each request is answered by one success frame, in order.
\<close>

theorem upload_stores_file:
  assumes "packets_of name qs" "uq_seq (hd qs) = 1" "list_all2 (parses_to api) ds qs"
    and "list_all2 (\<lambda>q b. base64_decode bio_read (uq_data q) = Inr b) qs bs"
    and "grants env (resource_path p name)" "dumps_small api"
    and "\<not> is_open (m_file_out s)" "length (m_send_queue s) + length qs \<le> Suc MAX_SENDQUE"
  shows "\<exists>s' fs'. uploads api env bio_read (Some p) dbg e junk ds (s, fs) = Inr (s', fs') \<and>
    fs_files fs' = (fs_files fs)(resource_path p name \<mapsto> concat bs) \<and>
    \<not> is_open (m_file_out s') \<and>
    map wire (m_send_queue s') = map wire (m_send_queue s) @
      map (\<lambda>q. rsp_frame api (success_reply q Reply_null)) qs"
proof -
  let ?path = "resource_path p name"
  obtain q qs' where qs: "qs = q # qs'" and nm: "uq_name q = name"
    using assms(1) by (cases "(name, qs)" rule: packets_of.cases) auto
  obtain d ds' b bs' where ds: "ds = d # ds'" "parses_to api d q" "list_all2 (parses_to api) ds' qs'"
    and bs: "bs = b # bs'" "base64_decode bio_read (uq_data q) = Inr b"
      "list_all2 (\<lambda>q b. base64_decode bio_read (uq_data q) = Inr b) qs' bs'"
    using assms(3,4) by (auto simp: qs list_all2_Cons1 list_all2_Cons2)
  obtain fs1 where "store_packet env bio_read dbg ?path q (m_file_out s, fs) =
      ((stream_after q ?path, fs1), Ended)" and fs1: "fs_files fs1 = (fs_files fs)(?path \<mapsto> b)"
    using store_on_closed_stream [OF assms(5) bs(2) assms(7), of dbg fs] assms(2) by (auto simp: qs)
  then have "store_packet env bio_read dbg (resource_path p (uq_name q)) q (m_file_out s, fs) =
      ((stream_after q ?path, fs1), Ended)" by (simp add: nm)
  then obtain n w where up: "do_upload_file_req api env bio_read (Some p) dbg e junk d (s, fs) =
      Inr ((s\<lparr>m_file_out := stream_after q ?path, m_send_queue := m_send_queue s @ [n]\<rparr>, fs1), w)"
    and n: "wire n = rsp_frame api (success_reply q Reply_null)"
    using upload_packet [OF ds(2) assms(6), of s] assms(8) by (fastforce simp: qs)
  show ?thesis
  proof (cases qs')
    case Nil
    then have "ds' = []" "bs' = []" "uq_last q" using ds bs assms(1) by (auto simp: qs)
    with Nil up n fs1 show ?thesis by (auto simp: qs ds bs stream_after_def)
  next
    case (Cons q2 qs2)
    let ?s = "s\<lparr>m_file_out := stream_after q ?path, m_send_queue := m_send_queue s @ [n]\<rparr>"
    have pk: "packets_of name qs'" "\<not> uq_last q" using assms(1) by (auto simp: qs Cons)
    have "\<exists>s' fs'. uploads api env bio_read (Some p) dbg e junk ds' (?s, fs1) = Inr (s', fs') \<and>
        fs_files fs' = (fs_files fs1)(?path \<mapsto> contents fs1 ?path @ concat bs') \<and>
        \<not> is_open (m_file_out s') \<and>
        map wire (m_send_queue s') = map wire (m_send_queue ?s) @
          map (\<lambda>q. rsp_frame api (success_reply q Reply_null)) qs'"
      using pk ds(3) bs(3) assms(5,8)
      by (intro uploads_open [OF assms(6)]) (auto simp: grants_def qs stream_after_def)
    moreover have "contents fs1 ?path = b" by (simp add: contents_def fs1)
    ultimately show ?thesis using up n fs1 by (auto simp: qs ds bs fun_upd_def intro!: ext)
  qed
qed

text \<open>A small JSON library and requests for the witnesses.\<close>

definition mini_api :: "(bytes \<Rightarrow> upload_req option) \<Rightarrow> upload_req json_api" where
  "mini_api parse = \<lparr>j_parse = parse, j_is_null = (\<lambda>_. False), j_is_object = (\<lambda>_. True),
     j_string = (\<lambda>q k. if k = ''md5'' then Some (uq_md5 q) else if k = ''name'' then Some (uq_name q)
        else if k = ''data'' then Some (uq_data q) else None),
     j_size = (\<lambda>q k. if k = ''seq'' then Some (uq_seq q)
        else if k = ''trans_size'' then Some (uq_trans_size q)
        else if k = ''total_size'' then Some (uq_total_size q) else None),
     j_bool = (\<lambda>q k. if k = ''last'' then Some (uq_last q) else None),
     j_dump = (\<lambda>r. [case r of Reply_null \<Rightarrow> 0 | Reply_obj _ \<Rightarrow> 1])\<rparr>"

definition packet :: "bytes \<Rightarrow> 64 word \<Rightarrow> bool \<Rightarrow> bytes \<Rightarrow> upload_req" where
  "packet name seq lst data = \<lparr>uq_md5 = [], uq_name = name, uq_seq = seq, uq_trans_size = 1,
     uq_total_size = 2, uq_last = lst, uq_data = data\<rparr>"

lemma mini_fields: "upload_fields (mini_api parse) q = Some q"
  by (simp add: upload_fields_def mini_api_def)

lemma mini_parses: "parse d = Some q \<Longrightarrow> parses_to (mini_api parse) d q"
  using mini_fields by (auto simp: parses_to_def mini_api_def)

lemma mini_small: "dumps_small (mini_api parse)"
  by (simp add: dumps_small_def mini_api_def)

definition all_env :: os_env where
  "all_env = \<lparr>can_mkdir = (\<lambda>_. True), can_open = (\<lambda>_. True)\<rparr>"

definition plain_bio :: "bytes \<Rightarrow> nat \<Rightarrow> int \<times> bytes" where
  "plain_bio s n = (int (length s), s)"

definition two_parts :: "bytes \<Rightarrow> upload_req option" where
  "two_parts d = (if d = [1] then Some (packet [65] 1 False [10, 11])
     else if d = [2] then Some (packet [65] 2 True [12]) else None)"

theorem upload_stores_file_witness:
  "\<exists>s s' fs'. CSession_new (\<lambda>_. 3) ''u1'' = Inr s \<and>
     uploads (mini_api two_parts) all_env plain_bio (Some [82]) True Little (\<lambda>_. 0) [[1], [2]]
       (s, \<lparr>fs_files = Map.empty, fs_dirs = []\<rparr>) = Inr (s', fs') \<and>
     fs_files fs' (resource_path [82] [65]) = Some [10, 11, 12]"
proof -
  obtain s where s: "CSession_new (\<lambda>_. 3) ''u1'' = Inr s" using CSession_new_ok by blast
  have cl: "\<not> is_open (m_file_out s)" and q: "m_send_queue s = []"
    using s by (auto simp: CSession_new_def is_open_def)
  let ?qs = "[packet [65] 1 False [10, 11], packet [65] 2 True [12]]"
  have "\<exists>s' fs'. uploads (mini_api two_parts) all_env plain_bio (Some [82]) True Little (\<lambda>_. 0)
      [[1], [2]] (s, \<lparr>fs_files = Map.empty, fs_dirs = []\<rparr>) = Inr (s', fs') \<and>
    fs_files fs' = (fs_files \<lparr>fs_files = Map.empty, fs_dirs = []\<rparr>)
      (resource_path [82] [65] \<mapsto> concat [[10, 11], [12]]) \<and>
    \<not> is_open (m_file_out s') \<and>
    map wire (m_send_queue s') = map wire (m_send_queue s) @
      map (\<lambda>q. rsp_frame (mini_api two_parts) (success_reply q Reply_null)) ?qs"
  proof (rule upload_stores_file)
    show "list_all2 (parses_to (mini_api two_parts)) [[1], [2]] ?qs"
      by (simp add: mini_parses two_parts_def)
    show "list_all2 (\<lambda>q b. base64_decode plain_bio (uq_data q) = Inr b) ?qs [[10, 11], [12]]"
      by (simp add: packet_def base64_decode_def plain_bio_def cstr_def)
  qed (use cl q in \<open>simp_all add: packet_def grants_def all_env_def mini_small MAX_SENDQUE_def\<close>)
  with s show ?thesis by fastforce
qed

section \<open>Every branch of the handler\<close>

lemma store_packet_release: "snd (store_packet env bio_read False path q st) \<noteq> Died"
  by (auto simp: store_packet_def Let_def split: sum.splits)

lemma upload_block_release:
  "upload_block api env bio_read cfg_root False root u = (u', r) \<Longrightarrow> r \<noteq> Died"
  using store_packet_release
  by (fastforce simp: upload_block_def Let_def case_prod_beta split: if_splits option.splits)

lemma upload_block_reply:
  assumes "upload_block api env bio_read cfg_root dbg root u = (u', r)" "us_respond u = Reply_null"
  shows "us_respond u' \<in> {Reply_null, invalid_reply Reply_null} \<union>
    {success_reply q Reply_null | q. upload_fields api root = Some q}"
  using assms
  by (auto simp: upload_block_def Let_def case_prod_beta split: if_splits option.splits)

text \<open>
  C9. In a release build every request whose payload is JSON is answered by exactly one
  response frame, whatever goes wrong in the handler, because the reply is sent by the scope
  guard: it is the success object of the request, the \<open>json is invalid\<close> object, or the
  bare null value when an exception cut the handler short. A payload that is not JSON gets no
  answer at all, and changes nothing.
\<close>

theorem upload_answered_once:
  assumes "dumps_small api" "length (m_send_queue s) \<le> MAX_SENDQUE"
  shows "case j_parse api d of
      None \<Rightarrow> do_upload_file_req api env bio_read cfg_root False e junk d (s, fs) =
        Inr ((s, fs), None)
    | Some root \<Rightarrow> \<exists>s' fs' w n r.
        do_upload_file_req api env bio_read cfg_root False e junk d (s, fs) = Inr ((s', fs'), w) \<and>
        m_send_queue s' = m_send_queue s @ [n] \<and> wire n = rsp_frame api r \<and>
        r \<in> {Reply_null, invalid_reply Reply_null} \<union>
          {success_reply q Reply_null | q. upload_fields api root = Some q}"
proof (cases "j_parse api d")
  case (Some root)
  obtain u r where u: "upload_block api env bio_read cfg_root False root
      \<lparr>us_out = get_file_stream s, us_fs = fs, us_respond = Reply_null\<rparr> = (u, r)" by fastforce
  have "r \<noteq> Died" by (rule upload_block_release [OF u])
  moreover have "us_respond u \<in> {Reply_null, invalid_reply Reply_null} \<union>
      {success_reply q Reply_null | q. upload_fields api root = Some q}"
    by (rule upload_block_reply [OF u]) simp
  moreover obtain n w where "send e junk E_ID_UPLOAD_FILE_RSP (j_dump api (us_respond u))
      (s\<lparr>m_file_out := us_out u\<rparr>) =
      Inr (s\<lparr>m_file_out := us_out u, m_send_queue := m_send_queue s @ [n]\<rparr>, w)"
    "wire n = rsp_frame api (us_respond u)"
    using send_dump [OF assms(1), of "s\<lparr>m_file_out := us_out u\<rparr>" e junk "us_respond u"] assms(2)
    by auto
  ultimately show ?thesis
    by (simp add: do_upload_file_req_def Some u del: Un_insert_left) blast
qed (simp add: do_upload_file_req_def)

theorem upload_answered_once_witness:
  "\<exists>s s' fs' w n. CSession_new (\<lambda>_. 3) ''u1'' = Inr s \<and>
     do_upload_file_req (mini_api two_parts) all_env plain_bio None False Little (\<lambda>_. 0) [1]
       (s, \<lparr>fs_files = Map.empty, fs_dirs = []\<rparr>) = Inr ((s', fs'), w) \<and> m_send_queue s' = [n]"
proof -
  obtain s where s: "CSession_new (\<lambda>_. 3) ''u1'' = Inr s" using CSession_new_ok by blast
  have q: "m_send_queue s = []" using CSession_new_fields [OF s] by simp
  have "\<exists>root. j_parse (mini_api two_parts) [1] = Some root"
    by (simp add: mini_api_def two_parts_def)
  moreover have "length (m_send_queue s) \<le> MAX_SENDQUE" by (simp add: q)
  note upload_answered_once [OF mini_small this, of two_parts all_env plain_bio None Little
      "\<lambda>_. 0" "[1]" "\<lparr>fs_files = Map.empty, fs_dirs = []\<rparr>"]
  ultimately show ?thesis using q s by auto
qed

text \<open>
  C18. The file stream belongs to the session, not to the upload: while it is open on one
  file, a packet for any other name, even the first packet of a new upload, is appended to
  the file that is open. The file it names is not touched, and the reply reports success
  under the name that was asked for.
\<close>

theorem upload_into_open_file:
  assumes "parses_to api d q" "dumps_small api" "length (m_send_queue s) \<le> MAX_SENDQUE"
    and "m_file_out s = \<lparr>os_path = Some p0, os_fail = False\<rparr>"
    and "grants env (resource_path p (uq_name q))" "base64_decode bio_read (uq_data q) = Inr b"
    and "resource_path p (uq_name q) \<noteq> p0"
  shows "\<exists>s' fs' n w. do_upload_file_req api env bio_read (Some p) dbg e junk d (s, fs) =
      Inr ((s', fs'), w) \<and>
    contents fs' p0 = contents fs p0 @ b \<and>
    fs_files fs' (resource_path p (uq_name q)) = fs_files fs (resource_path p (uq_name q)) \<and>
    m_send_queue s' = m_send_queue s @ [n] \<and>
    wire n = rsp_frame api (success_reply q Reply_null)"
proof -
  have "can_mkdir env (parent_path (resource_path p (uq_name q)))"
    using assms(5) by (simp add: grants_def)
  from store_on_open_stream [OF this assms(6)] obtain fs' where
    "store_packet env bio_read dbg (resource_path p (uq_name q)) q (m_file_out s, fs) =
      ((stream_after q p0, fs'), Ended)"
    and fs': "fs_files fs' = (fs_files fs)(p0 \<mapsto> contents fs p0 @ b)"
    unfolding assms(4) by blast
  then obtain n w where "do_upload_file_req api env bio_read (Some p) dbg e junk d (s, fs) =
      Inr ((s\<lparr>m_file_out := stream_after q p0, m_send_queue := m_send_queue s @ [n]\<rparr>, fs'), w)"
    "wire n = rsp_frame api (success_reply q Reply_null)"
    using upload_packet [OF assms(1-3)] by blast
  with fs' assms(7) show ?thesis by (auto simp: contents_def)
qed

theorem upload_into_open_file_witness:
  "\<exists>s s' fs' w. m_file_out s = \<lparr>os_path = Some [90], os_fail = False\<rparr> \<and>
     do_upload_file_req (mini_api two_parts) all_env plain_bio (Some [82]) False Little (\<lambda>_. 0) [1]
       (s, \<lparr>fs_files = [[90] \<mapsto> [7]], fs_dirs = []\<rparr>) = Inr ((s', fs'), w) \<and>
     contents fs' [90] = [7, 10, 11] \<and> fs_files fs' (resource_path [82] [65]) = None"
proof -
  obtain s0 where s0: "CSession_new (\<lambda>_. 3) ''u1'' = Inr s0" using CSession_new_ok by blast
  let ?s = "s0\<lparr>m_file_out := \<lparr>os_path = Some [90], os_fail = False\<rparr>\<rparr>"
  let ?q = "packet [65] 1 False [10, 11]"
  have rp: "resource_path [82] [65] = [82, 47, 98, 105, 110, 47, 115, 116, 97, 116, 105, 99, 47, 65]"
    by (simp add: resource_path_def path_append_def is_absolute_def slash_def lit_def)
  have "\<exists>s' fs' n w. do_upload_file_req (mini_api two_parts) all_env plain_bio (Some [82]) False
      Little (\<lambda>_. 0) [1] (?s, \<lparr>fs_files = [[90] \<mapsto> [7]], fs_dirs = []\<rparr>) = Inr ((s', fs'), w) \<and>
    contents fs' [90] = contents \<lparr>fs_files = [[90] \<mapsto> [7]], fs_dirs = []\<rparr> [90] @ [10, 11] \<and>
    fs_files fs' (resource_path [82] (uq_name ?q)) =
      fs_files \<lparr>fs_files = [[90] \<mapsto> [7]], fs_dirs = []\<rparr> (resource_path [82] (uq_name ?q)) \<and>
    m_send_queue s' = m_send_queue ?s @ [n] \<and>
    wire n = rsp_frame (mini_api two_parts) (success_reply ?q Reply_null)"
  proof (rule upload_into_open_file)
    show "parses_to (mini_api two_parts) [1] ?q" by (simp add: mini_parses two_parts_def)
    show "base64_decode plain_bio (uq_data ?q) = Inr [10, 11]"
      by (simp add: packet_def base64_decode_def plain_bio_def cstr_def)
  qed (use CSession_new_fields [OF s0] in
       \<open>simp_all add: packet_def grants_def all_env_def mini_small rp\<close>)
  then obtain s' fs' n w where "do_upload_file_req (mini_api two_parts) all_env plain_bio
      (Some [82]) False Little (\<lambda>_. 0) [1] (?s, \<lparr>fs_files = [[90] \<mapsto> [7]], fs_dirs = []\<rparr>) =
      Inr ((s', fs'), w)" "contents fs' [90] = [7, 10, 11]"
    "fs_files fs' (resource_path [82] [65]) = None"
    by (auto simp: packet_def rp contents_def)
  then show ?thesis by (intro exI [of _ ?s] exI [of _ s'] exI [of _ fs'] exI [of _ w]) simp
qed

end
