(* ===== verification/Upload_Errors.thy ===== *)
theory Upload_Errors
  imports Upload
begin

text \<open>
  What \<open>do_upload_file_req\<close> does off its success path: names that leave the resource
  directory, files that cannot be opened, requests without the fields it needs, and data
  that does not decode.
\<close>

section \<open>Where a name leads\<close>

definition root_dir :: "bytes \<Rightarrow> bytes" where
  "root_dir p = path_append (path_append p (lit ''bin'')) (lit ''static'')"

lemma resource_path_root: "resource_path p name = path_append (root_dir p) name"
  by (simp add: resource_path_def root_dir_def)

lemma root_dir_shape: "root_dir p \<noteq> []" "last (root_dir p) \<noteq> slash"
  by (auto simp: root_dir_def path_append_def lit_def is_absolute_def slash_def)

lemma dropWhile_no_slash: "slash \<notin> set cs \<Longrightarrow> dropWhile (\<lambda>c. c \<noteq> slash) (rev cs @ slash # d) = slash # d"
  by (subst dropWhile_append2) auto

lemma parent_of_child:
  assumes "d \<noteq> []" "last d \<noteq> slash" "slash \<notin> set name"
  shows "parent_path (d @ slash # name) = d"
proof -
  have "dropWhile (\<lambda>c. c = slash) (rev d) = rev d"
    using assms(1,2) by (cases d rule: rev_cases) auto
  moreover have "rev (d @ slash # name) = rev name @ slash # rev d" by simp
  ultimately show ?thesis
    using assms(1) dropWhile_no_slash [OF assms(3)] by (simp add: parent_path_def Let_def)
qed

text \<open>
  Where an upload lands is decided by its name. A name without separators lands
  directly in \<open>bin/static\<close> under the resource root; an absolute name replaces the root
  altogether, so the client chooses any path of the file system: nothing confines it.
\<close>

theorem upload_confinement:
  "(slash \<notin> set name \<longrightarrow> parent_path (resource_path p name) = root_dir p \<and>
      (\<exists>d. resource_path p name = root_dir p @ slash # name)) \<and>
   (is_absolute name \<longrightarrow> resource_path p name = name)"
proof -
  have "resource_path p name = root_dir p @ slash # name \<and>
      parent_path (resource_path p name) = root_dir p" if "slash \<notin> set name"
  proof -
    have "\<not> is_absolute name" using that by (cases name) (auto simp: is_absolute_def)
    then have "resource_path p name = root_dir p @ slash # name"
      using root_dir_shape [of p] by (simp add: resource_path_root path_append_def)
    then show ?thesis using parent_of_child [OF root_dir_shape that] by simp
  qed
  then show ?thesis by (auto simp: resource_path_root path_append_def)
qed

theorem upload_confinement_witness:
  "parent_path (resource_path [82] [65]) = root_dir [82] \<and>
   resource_path [82] [slash, 65] = [slash, 65]"
proof
  show "parent_path (resource_path [82] [65]) = root_dir [82]"
    by (rule conjunct1 [OF mp [OF conjunct1 [OF upload_confinement]]]) (simp add: slash_def)
  show "resource_path [82] [slash, 65] = [slash, 65]"
    using upload_confinement [of "[slash, 65]" "[82]"] by (simp add: is_absolute_def)
qed

text \<open>
  C17. An absolute name writes outside the resource root: one accepted packet replaces the
  file at exactly the path the client named, and the reply says success.
\<close>

theorem upload_escapes_root:
  assumes "parses_to api d q" "dumps_small api" "length (m_send_queue s) \<le> MAX_SENDQUE"
    and "is_absolute (uq_name q)" "uq_seq q = 1" "\<not> is_open (m_file_out s)"
    and "grants env (uq_name q)" "base64_decode bio_read (uq_data q) = Inr b"
  shows "\<exists>s' fs' n w. do_upload_file_req api env bio_read (Some p) dbg e junk d (s, fs) =
      Inr ((s', fs'), w) \<and>
    fs_files fs' = (fs_files fs)(uq_name q \<mapsto> b) \<and>
    m_send_queue s' = m_send_queue s @ [n] \<and>
    wire n = rsp_frame api (success_reply q Reply_null)"
proof -
  have rp: "resource_path p (uq_name q) = uq_name q"
    using assms(4) by (simp add: resource_path_root path_append_def)
  obtain fs' where st: "store_packet env bio_read dbg (resource_path p (uq_name q)) q
      (m_file_out s, fs) = ((stream_after q (uq_name q), fs'), Ended)"
    and fs': "fs_files fs' = (fs_files fs)(uq_name q \<mapsto> b)"
    using store_on_closed_stream [OF assms(7,8,6)] assms(5) by (auto simp: rp)
  from upload_packet [OF assms(1-3) st, of e junk] fs' show ?thesis by fastforce
qed

definition passwd_req :: "bytes \<Rightarrow> upload_req option" where
  "passwd_req d = (if d = [1] then Some (packet [0x2F, 101] 1 True [10]) else None)"

theorem upload_escapes_root_witness:
  "\<exists>s s' fs' w. do_upload_file_req (mini_api passwd_req) all_env plain_bio (Some [82]) True Little
     (\<lambda>_. 0) [1] (s, \<lparr>fs_files = Map.empty, fs_dirs = []\<rparr>) = Inr ((s', fs'), w) \<and>
   fs_files fs' [0x2F, 101] = Some [10]"
proof -
  obtain s where s: "CSession_new (\<lambda>_. 3) ''u1'' = Inr s" using CSession_new_ok by blast
  let ?q = "packet [0x2F, 101] 1 True [10]"
  have "\<exists>s' fs' n w. do_upload_file_req (mini_api passwd_req) all_env plain_bio (Some [82]) True
      Little (\<lambda>_. 0) [1] (s, \<lparr>fs_files = Map.empty, fs_dirs = []\<rparr>) = Inr ((s', fs'), w) \<and>
    fs_files fs' = (fs_files \<lparr>fs_files = Map.empty, fs_dirs = []\<rparr>)(uq_name ?q \<mapsto> [10]) \<and>
    m_send_queue s' = m_send_queue s @ [n] \<and>
    wire n = rsp_frame (mini_api passwd_req) (success_reply ?q Reply_null)"
  proof (rule upload_escapes_root)
    show "parses_to (mini_api passwd_req) [1] ?q" by (simp add: mini_parses passwd_req_def)
    show "base64_decode plain_bio (uq_data ?q) = Inr [10]"
      by (simp add: packet_def base64_decode_def plain_bio_def cstr_def)
    show "\<not> is_open (m_file_out s)" using s by (auto simp: CSession_new_def)
  qed (use CSession_new_fields [OF s] in
       \<open>simp_all add: packet_def grants_def all_env_def mini_small is_absolute_def slash_def\<close>)
  then show ?thesis by (elim exE conjE, intro exI conjI) (assumption, simp add: packet_def)
qed

section \<open>A file that cannot be opened\<close>

text \<open>
  C19. In a release build a file that cannot be opened is not noticed: the data is dropped,
  no file changes, and the client is told that the packet was stored.
\<close>

theorem open_failure_reports_success:
  assumes "parses_to api d q" "dumps_small api" "length (m_send_queue s) \<le> MAX_SENDQUE"
    and "can_mkdir env (parent_path (resource_path p (uq_name q)))"
    and "\<not> can_open env (resource_path p (uq_name q))"
    and "\<not> is_open (m_file_out s)" "base64_decode bio_read (uq_data q) = Inr b"
  shows "\<exists>s' fs' n w. do_upload_file_req api env bio_read (Some p) False e junk d (s, fs) =
      Inr ((s', fs'), w) \<and> fs_files fs' = fs_files fs \<and>
    m_send_queue s' = m_send_queue s @ [n] \<and>
    wire n = rsp_frame api (success_reply q Reply_null)"
proof -
  obtain fs' out' where st: "store_packet env bio_read False (resource_path p (uq_name q)) q
      (m_file_out s, fs) = ((out', fs'), Ended)" and "fs_files fs' = fs_files fs"
    using store_open_failure [OF assms(4-7)] by blast
  with upload_packet [OF assms(1-3) st, of e junk] show ?thesis by fastforce
qed

definition read_only_env :: os_env where
  "read_only_env = \<lparr>can_mkdir = (\<lambda>_. True), can_open = (\<lambda>_. False)\<rparr>"

theorem open_failure_reports_success_witness:
  "\<exists>s s' fs' n w. do_upload_file_req (mini_api two_parts) read_only_env plain_bio (Some [82]) False
     Little (\<lambda>_. 0) [1] (s, \<lparr>fs_files = Map.empty, fs_dirs = []\<rparr>) = Inr ((s', fs'), w) \<and>
   fs_files fs' = Map.empty \<and> m_send_queue s' = [n]"
proof -
  obtain s where s: "CSession_new (\<lambda>_. 3) ''u1'' = Inr s" using CSession_new_ok by blast
  let ?q = "packet [65] 1 False [10, 11]"
  have "\<exists>s' fs' n w. do_upload_file_req (mini_api two_parts) read_only_env plain_bio (Some [82])
      False Little (\<lambda>_. 0) [1] (s, \<lparr>fs_files = Map.empty, fs_dirs = []\<rparr>) = Inr ((s', fs'), w) \<and>
    fs_files fs' = fs_files \<lparr>fs_files = Map.empty, fs_dirs = []\<rparr> \<and>
    m_send_queue s' = m_send_queue s @ [n] \<and>
    wire n = rsp_frame (mini_api two_parts) (success_reply ?q Reply_null)"
  proof (rule open_failure_reports_success)
    show "parses_to (mini_api two_parts) [1] ?q" by (simp add: mini_parses two_parts_def)
    show "base64_decode plain_bio (uq_data ?q) = Inr [10, 11]"
      by (simp add: packet_def base64_decode_def plain_bio_def cstr_def)
    show "\<not> is_open (m_file_out s)" using s by (auto simp: CSession_new_def)
  qed (use CSession_new_fields [OF s] in
       \<open>simp_all add: packet_def read_only_env_def mini_small\<close>)
  then show ?thesis using CSession_new_fields [OF s] by auto
qed

section \<open>Requests cut short\<close>

lemma handler_cut:
  assumes "j_parse api d = Some root" "dumps_small api" "length (m_send_queue s) \<le> MAX_SENDQUE"
    and "upload_block api env bio_read cfg_root False root
      \<lparr>us_out = m_file_out s, us_fs = fs, us_respond = Reply_null\<rparr> =
      (\<lparr>us_out = out', us_fs = fs', us_respond = r\<rparr>, Threw x)"
  shows "\<exists>n w. do_upload_file_req api env bio_read cfg_root False e junk d (s, fs) =
      Inr ((s\<lparr>m_file_out := out', m_send_queue := m_send_queue s @ [n]\<rparr>, fs'), w) \<and>
    wire n = rsp_frame api r"
proof -
  obtain n w where "send e junk E_ID_UPLOAD_FILE_RSP (j_dump api r) (s\<lparr>m_file_out := out'\<rparr>) =
      Inr (s\<lparr>m_file_out := out', m_send_queue := m_send_queue s @ [n]\<rparr>, w)"
    "wire n = rsp_frame api r"
    using send_dump [OF assms(2), of "s\<lparr>m_file_out := out'\<rparr>" e junk r] assms(3) by auto
  with assms(1,4) show ?thesis
    by (auto simp: do_upload_file_req_def get_file_stream_def)
qed

text \<open>
  The check \<open>is_null () && !is_object ()\<close> does not do its work: a JSON document that is
  no object, or one that lacks a field, passes it unless it is null. The conversion of the
  missing field throws, and the client is answered with a bare null instead of the
  \<open>json is invalid\<close> object; nothing is stored and the file stream is untouched.
\<close>

theorem incomplete_request_answered_null:
  assumes "j_parse api d = Some root" "\<not> j_is_null api root" "upload_fields api root = None"
    and "dumps_small api" "length (m_send_queue s) \<le> MAX_SENDQUE"
  shows "\<exists>n w. do_upload_file_req api env bio_read cfg_root False e junk d (s, fs) =
      Inr ((s\<lparr>m_send_queue := m_send_queue s @ [n]\<rparr>, fs), w) \<and>
    wire n = rsp_frame api Reply_null"
proof -
  have "upload_block api env bio_read cfg_root False root
      \<lparr>us_out = m_file_out s, us_fs = fs, us_respond = Reply_null\<rparr> =
      (\<lparr>us_out = m_file_out s, us_fs = fs, us_respond = Reply_null\<rparr>, Threw Json_type_error)"
    using assms(2,3) by (simp add: upload_block_def)
  from handler_cut [OF assms(1,4,5) this] show ?thesis by simp
qed

definition no_fields_api :: "unit json_api" where
  "no_fields_api = \<lparr>j_parse = (\<lambda>_. Some ()), j_is_null = (\<lambda>_. False), j_is_object = (\<lambda>_. False),
     j_string = (\<lambda>_ _. None), j_size = (\<lambda>_ _. None), j_bool = (\<lambda>_ _. None),
     j_dump = (\<lambda>r. [case r of Reply_null \<Rightarrow> 0 | Reply_obj _ \<Rightarrow> 1])\<rparr>"

theorem incomplete_request_answered_null_witness:
  "\<exists>s n w. do_upload_file_req no_fields_api all_env plain_bio (Some [82]) False Little (\<lambda>_. 0) [91, 93]
     (s, \<lparr>fs_files = Map.empty, fs_dirs = []\<rparr>) =
       Inr ((s\<lparr>m_send_queue := m_send_queue s @ [n]\<rparr>, \<lparr>fs_files = Map.empty, fs_dirs = []\<rparr>), w) \<and>
     wire n = frame E_ID_UPLOAD_FILE_RSP [0]"
proof -
  obtain s where s: "CSession_new (\<lambda>_. 3) ''u1'' = Inr s" using CSession_new_ok by blast
  have "j_parse no_fields_api [91, 93] = Some ()" "\<not> j_is_null no_fields_api ()"
    "upload_fields no_fields_api () = None" "dumps_small no_fields_api"
    "length (m_send_queue s) \<le> MAX_SENDQUE"
    using CSession_new_fields [OF s]
    by (simp_all add: no_fields_api_def upload_fields_def dumps_small_def)
  from incomplete_request_answered_null [OF this, of all_env plain_bio "Some [82]" Little "\<lambda>_. 0"
      "\<lparr>fs_files = Map.empty, fs_dirs = []\<rparr>"]
  show ?thesis by (auto simp: rsp_frame_def no_fields_api_def)
qed

text \<open>
  C20. Data that does not decode comes too late: when OpenSSL reports an error the length
  \<open>-1\<close> makes the string constructor throw, but the first packet has by then emptied the file
  and opened the stream. The client is answered with null, and the stream stays open on the
  emptied file.
\<close>

theorem bad_base64_truncates:
  assumes "parses_to api d q" "dumps_small api" "length (m_send_queue s) \<le> MAX_SENDQUE"
    and "uq_seq q = 1" "\<not> is_open (m_file_out s)" "grants env (resource_path p (uq_name q))"
    and "fst (bio_read (cstr (uq_data q)) (length (uq_data q))) < 0"
  shows "\<exists>s' fs' n w. do_upload_file_req api env bio_read (Some p) False e junk d (s, fs) =
      Inr ((s', fs'), w) \<and>
    fs_files fs' = (fs_files fs)(resource_path p (uq_name q) \<mapsto> []) \<and>
    os_path (m_file_out s') = Some (resource_path p (uq_name q)) \<and>
    m_send_queue s' = m_send_queue s @ [n] \<and> wire n = rsp_frame api Reply_null"
proof -
  let ?path = "resource_path p (uq_name q)"
  obtain root where root: "j_parse api d = Some root" "\<not> j_is_null api root"
    "upload_fields api root = Some q"
    using assms(1) by (auto simp: parses_to_def)
  obtain fs1 where fs1: "ensure_dir env (parent_path ?path) fs = Inr fs1" "fs_files fs1 = fs_files fs"
    using ensure_dir_granted assms(6) unfolding grants_def by blast
  have "store_packet env bio_read False ?path q (m_file_out s, fs) =
      ((\<lparr>os_path = Some ?path, os_fail = False\<rparr>, file_put ?path [] fs1), Threw Length_error)"
    using assms(4-6) fs1(1) base64_decode_negative [of bio_read "uq_data q"] assms(7)
    by (simp add: store_packet_def open_stream_def os_open_def grants_def)
  then have "upload_block api env bio_read (Some p) False root
      \<lparr>us_out = m_file_out s, us_fs = fs, us_respond = Reply_null\<rparr> =
      (\<lparr>us_out = \<lparr>os_path = Some ?path, os_fail = False\<rparr>, us_fs = file_put ?path [] fs1,
        us_respond = Reply_null\<rparr>, Threw Length_error)"
    using root by (simp add: upload_block_def)
  from handler_cut [OF root(1) assms(2,3) this, of e junk] fs1(2) show ?thesis
    by (fastforce simp: file_put_def)
qed

theorem bad_base64_truncates_witness:
  "\<exists>s s' fs' w. do_upload_file_req (mini_api two_parts) all_env (\<lambda>s n. (- 1, s)) (Some [82]) False
     Little (\<lambda>_. 0) [1] (s, \<lparr>fs_files = [resource_path [82] [65] \<mapsto> [7, 8]], fs_dirs = []\<rparr>) =
       Inr ((s', fs'), w) \<and>
   fs_files fs' (resource_path [82] [65]) = Some []"
proof -
  obtain s where s: "CSession_new (\<lambda>_. 3) ''u1'' = Inr s" using CSession_new_ok by blast
  let ?q = "packet [65] 1 False [10, 11]"
  let ?fs = "\<lparr>fs_files = [resource_path [82] [65] \<mapsto> [7, 8]], fs_dirs = []\<rparr>"
  have "\<exists>s' fs' n w. do_upload_file_req (mini_api two_parts) all_env (\<lambda>s n. (- 1, s)) (Some [82])
      False Little (\<lambda>_. 0) [1] (s, ?fs) = Inr ((s', fs'), w) \<and>
    fs_files fs' = (fs_files ?fs)(resource_path [82] (uq_name ?q) \<mapsto> []) \<and>
    os_path (m_file_out s') = Some (resource_path [82] (uq_name ?q)) \<and>
    m_send_queue s' = m_send_queue s @ [n] \<and> wire n = rsp_frame (mini_api two_parts) Reply_null"
  proof (rule bad_base64_truncates)
    show "parses_to (mini_api two_parts) [1] ?q" by (simp add: mini_parses two_parts_def)
    show "\<not> is_open (m_file_out s)" using s by (auto simp: CSession_new_def)
  qed (use CSession_new_fields [OF s] in
       \<open>simp_all add: packet_def grants_def all_env_def mini_small\<close>)
  then show ?thesis by (elim exE conjE, intro exI conjI) (assumption, simp add: packet_def)
qed

end
