(* ===== verification/Io_Pool.thy ===== *)
theory Io_Pool
  imports Global_Defs
begin

text \<open>
  \<open>ResourceServer/include/ioservicepool.h\<close> and \<open>src/ioservicepool.cpp\<close>: the pool of
  \<open>io_context\<close>s, the threads that run them, and the round robin that hands them out.
\<close>

section \<open>State and operations\<close>

text \<open>
  The contexts are numbered; a work guard is either held or reset; a thread is the number
  of the context it runs. \<open>pool_joined\<close> counts the threads that have been joined.
\<close>

record io_pool =
  m_services :: nat
  m_service_works :: "bool list"
  m_work_ths :: "nat list"
  m_next_service :: nat
  p_stop :: bool
  svc_stopped :: "bool list"
  pool_joined :: nat

definition AsioIoServicePool :: "nat \<Rightarrow> io_pool" where
  "AsioIoServicePool sz =
     \<lparr>m_services = sz, m_service_works = replicate sz True,
      m_work_ths = [0..<sz] @ [0..<sz], m_next_service = 0, p_stop = False,
      svc_stopped = replicate sz False, pool_joined = 0\<rparr>"

text \<open>The reference \<open>m_services[m_next_service++]\<close> is not checked against the size.\<close>

definition get_service :: "io_pool \<Rightarrow> fault + nat \<times> io_pool" where
  "get_service p =
     (let i = m_next_service p; nxt = i + 1;
          p' = p\<lparr>m_next_service := (if nxt = m_services p then 0 else nxt)\<rparr>
      in if i < m_services p then Inr (i, p') else Inl Out_of_bounds)"

definition pool_stop :: "io_pool \<Rightarrow> io_pool" where
  "pool_stop p =
     (if p_stop p then p
      else p\<lparr>m_service_works := map (\<lambda>_. False) (m_service_works p),
             svc_stopped := map (\<lambda>_. True) (svc_stopped p),
             pool_joined := length (m_work_ths p), p_stop := True\<rparr>)"

definition pool_destroy :: "io_pool \<Rightarrow> io_pool" where
  "pool_destroy p = (if p_stop p then p else pool_stop p)"

section \<open>Round robin\<close>

fun get_services :: "nat \<Rightarrow> io_pool \<Rightarrow> fault + nat list \<times> io_pool" where
  "get_services 0 p = Inr ([], p)"
| "get_services (Suc n) p =
     bind_f (get_service p) (\<lambda>(i, p').
     bind_f (get_services n p') (\<lambda>(is, p''). Inr (i # is, p'')))"

definition pool_wf :: "io_pool \<Rightarrow> bool" where
  "pool_wf p \<longleftrightarrow> m_next_service p < m_services p"

lemma pool_wf_new [simp]: "pool_wf (AsioIoServicePool sz) \<longleftrightarrow> 0 < sz"
  by (simp add: pool_wf_def AsioIoServicePool_def)

lemma get_service_wf:
  "pool_wf p \<Longrightarrow> get_service p = Inr (m_next_service p,
     p\<lparr>m_next_service := Suc (m_next_service p) mod m_services p\<rparr>)"
  by (simp add: get_service_def pool_wf_def Let_def)

lemma get_service_keeps_wf: "pool_wf p \<Longrightarrow> get_service p = Inr (i, p') \<Longrightarrow> pool_wf p'"
  by (auto simp: get_service_def pool_wf_def Let_def split: if_splits)

lemma get_services_from:
  "pool_wf p \<Longrightarrow> get_services n p =
    Inr (map (\<lambda>k. (m_next_service p + k) mod m_services p) [0..<n],
         p\<lparr>m_next_service := (m_next_service p + n) mod m_services p\<rparr>)"
proof (induction n arbitrary: p)
  case (Suc n)
  let ?p = "p\<lparr>m_next_service := Suc (m_next_service p) mod m_services p\<rparr>"
  have wf: "pool_wf ?p" using Suc.prems by (auto simp: pool_wf_def)
  have "map (\<lambda>k. (m_next_service ?p + k) mod m_services ?p) [0..<n] =
      map (\<lambda>k. (m_next_service p + k) mod m_services p) [Suc 0..<Suc n]"
    by (simp only: map_Suc_upt [symmetric] map_map) (simp add: comp_def mod_add_left_eq)
  then show ?case
    using Suc.prems
    by (simp add: get_service_wf Suc.IH [OF wf] upt_conv_Cons mod_add_left_eq pool_wf_def
        del: upt_Suc)
qed (simp add: pool_wf_def)

text \<open>
  The pool hands its contexts out in turn: from a new pool of any positive size, the
  \<open>k\<close>-th call of \<open>get_service\<close> gives context \<open>k mod size\<close>, never an index out of range;
  with no context at all the very first call reads past the end of the vector.
\<close>

theorem get_service_round_robin:
  "(0 < sz \<longrightarrow> (\<exists>p'. get_services n (AsioIoServicePool sz) =
      Inr (map (\<lambda>k. k mod sz) [0..<n], p'))) \<and>
   get_service (AsioIoServicePool 0) = Inl Out_of_bounds"
  by (simp add: get_services_from) (simp add: AsioIoServicePool_def get_service_def)

theorem get_service_round_robin_witness:
  "\<exists>p'. get_services 5 (AsioIoServicePool 2) = Inr ([0, 1, 0, 1, 0], p')"
  using get_service_round_robin [of 2 5] by (simp add: upt_rec)

section \<open>Threads and shutdown\<close>

text \<open>
  Both loops of the constructor start threads, so every context is run by exactly two
  of them: the handlers of one session may run at the same time, there is no implicit strand.
  Stopping the pool resets every guard, stops every context and joins every thread, once:
  a second \<open>stop\<close>, and the destructor after it, change nothing.
\<close>

theorem pool_threads_and_stop:
  "(i < sz \<longrightarrow> count_list (m_work_ths (AsioIoServicePool sz)) i = 2) \<and>
   pool_joined (pool_stop (AsioIoServicePool sz)) = length (m_work_ths (AsioIoServicePool sz)) \<and>
   True \<notin> set (m_service_works (pool_stop (AsioIoServicePool sz))) \<and>
   False \<notin> set (svc_stopped (pool_stop (AsioIoServicePool sz))) \<and>
   pool_stop (pool_stop (AsioIoServicePool sz)) = pool_stop (AsioIoServicePool sz) \<and>
   pool_destroy (pool_stop (AsioIoServicePool sz)) = pool_stop (AsioIoServicePool sz)"
proof -
  have "count_list [0..<n] i = (if i < n then 1 else 0)" for n
    by (induction n) auto
  then show ?thesis
    by (simp add: AsioIoServicePool_def pool_stop_def pool_destroy_def)
qed

theorem pool_threads_and_stop_witness:
  "count_list (m_work_ths (AsioIoServicePool 2)) 1 = 2"
  using pool_threads_and_stop [of 1 2] by simp

end
