(* ===== verification/Server.thy ===== *)
theory Server
  imports Session_Read Session_Write Io_Pool
begin

text \<open>
  \<open>ResourceServer/include/cserver.h\<close> and \<open>src/cserver.cpp\<close>: the accept loop and the table
  of sessions. The sessions live on the heap, so the table maps an id to a reference.
\<close>

section \<open>State\<close>

record cserver =
  srv_port :: "16 word"
  srv_pool :: io_pool
  srv_objs :: "csession list"
  srv_ctx :: "nat list"
  m_sessions :: "string \<Rightarrow> nat option"
  m_accept :: "nat option"

definition CServer_new :: "16 word \<Rightarrow> io_pool \<Rightarrow> cserver" where
  "CServer_new port pool = \<lparr>srv_port = port, srv_pool = pool, srv_objs = [], srv_ctx = [],
     m_sessions = Map.empty, m_accept = None\<rparr>"

definition sessions_put :: "string \<Rightarrow> nat \<Rightarrow> cserver \<Rightarrow> cserver" where
  "sessions_put k v sv = sv\<lparr>m_sessions := (m_sessions sv)(k \<mapsto> v)\<rparr>"

definition clear_session :: "string \<Rightarrow> cserver \<Rightarrow> cserver" where
  "clear_session session_id sv = sv\<lparr>m_sessions := (m_sessions sv)(session_id := None)\<rparr>"

interpretation sessions: keyed_store m_sessions sessions_put clear_session
  by unfold_locales (simp_all add: sessions_put_def clear_session_def)

section \<open>The accept loop\<close>

text \<open>
  \<open>start\<close> takes a context from the pool, makes a session on it and starts an
  \<open>async_accept\<close> into its socket. The handler of the accept is cut at the points where
  the other threads can interfere: the session starts reading, then it is entered into the
  table, then \<open>start\<close> runs again.
\<close>

definition server_start :: "(nat \<Rightarrow> byte) \<Rightarrow> string \<Rightarrow> cserver \<Rightarrow> fault + cserver" where
  "server_start junk uuid sv =
     bind_f (get_service (srv_pool sv)) (\<lambda>(i, pool).
     bind_f (CSession_new junk uuid) (\<lambda>s.
     Inr (sv\<lparr>srv_pool := pool, srv_objs := srv_objs sv @ [s], srv_ctx := srv_ctx sv @ [i],
             m_accept := Some (length (srv_objs sv))\<rparr>)))"

definition accept_session_start :: "nat \<Rightarrow> cserver \<Rightarrow> fault + cserver" where
  "accept_session_start k sv =
     bind_f (start (srv_objs sv ! k)) (\<lambda>s.
     Inr (sv\<lparr>srv_objs := (srv_objs sv)[k := s], m_accept := None\<rparr>))"

definition accept_session_insert :: "nat \<Rightarrow> cserver \<Rightarrow> cserver" where
  "accept_session_insert k sv = sessions_put (get_session_id (srv_objs sv ! k)) k sv"

definition on_accept :: "(nat \<Rightarrow> byte) \<Rightarrow> string \<Rightarrow> bool \<Rightarrow> nat \<Rightarrow> cserver \<Rightarrow> fault + cserver" where
  "on_accept junk uuid ec k sv =
     (if ec then server_start junk uuid (sv\<lparr>m_accept := None\<rparr>)
      else bind_f (accept_session_start k sv) (\<lambda>sv'.
           server_start junk uuid (accept_session_insert k sv')))"

text \<open>A pool thread completes a read of session \<open>k\<close> with an error.\<close>

fun run_effect :: "effect \<Rightarrow> cserver \<Rightarrow> cserver" where
  "run_effect (Clear_session i) sv = clear_session i sv"
| "run_effect (Post_message nd) sv = sv"

definition session_fails :: "nat \<Rightarrow> cserver \<Rightarrow> cserver" where
  "session_fails k sv =
     (let (s', es) = fail_session ((srv_objs sv ! k)\<lparr>m_read := None\<rparr>)
      in fold run_effect es (sv\<lparr>srv_objs := (srv_objs sv)[k := s']\<rparr>))"

section \<open>The server with its threads\<close>

text \<open>
  A write of session \<open>k\<close> fails: the error path of \<open>write_handler\<close>, which closes the session and takes it out of the table,
  while a read may be outstanding.
\<close>

definition session_write_fails :: "nat \<Rightarrow> cserver \<Rightarrow> fault + cserver" where
  "session_write_fails k sv =
     bind_f (write_handler True (srv_objs sv ! k)) (\<lambda>(s', b, es).
     Inr (fold run_effect es (sv\<lparr>srv_objs := (srv_objs sv)[k := s']\<rparr>)))"

text \<open>Where the thread of the acceptor stands in the handler.\<close>

datatype accept_pc = Acc_wait | Acc_started nat | Acc_inserted

text \<open>
  Besides the server: for each session, how many of its messages have been posted and not yet handled, and how many of
  its writes, or their handlers, are under way.
\<close>

record srv_sys =
  ss_srv :: cserver
  ss_pc :: accept_pc
  ss_msgs :: "nat \<Rightarrow> nat"
  ss_writes :: "nat \<Rightarrow> nat"

definition ids :: "cserver \<Rightarrow> string list" where
  "ids sv = map get_session_id (srv_objs sv)"

text \<open>
  Random UUIDs are fresh: documented for \<open>boost::uuids::random_generator\<close> and part of the
  step that makes a session. The reads of a session go on with \<open>s_reads\<close>, until one fails. The callback of a
  message, in \<open>s_send\<close>, and the handler of a successful write, in \<open>s_written\<close>, may start a write; of the session they
  change the send queue, in whatever interleaving, and the callback also the file being written.
\<close>

definition post_count :: "effect list \<Rightarrow> nat" where
  "post_count es = length (filter (\<lambda>f. case f of Post_message nd \<Rightarrow> True | Clear_session i \<Rightarrow> False) es)"

definition set_obj :: "nat \<Rightarrow> csession \<Rightarrow> cserver \<Rightarrow> cserver" where
  "set_obj k s sv = sv\<lparr>srv_objs := (srv_objs sv)[k := s]\<rparr>"

abbreviation objs :: "srv_sys \<Rightarrow> csession list" where "objs y \<equiv> srv_objs (ss_srv y)"

inductive srv_step :: "srv_sys \<Rightarrow> srv_sys \<Rightarrow> bool" where
  s_accepted: "ss_pc y = Acc_wait \<Longrightarrow> m_accept (ss_srv y) = Some k \<Longrightarrow>
    accept_session_start k (ss_srv y) = Inr sv \<Longrightarrow>
    srv_step y (y\<lparr>ss_srv := sv, ss_pc := Acc_started k\<rparr>)"
| s_insert: "ss_pc y = Acc_started k \<Longrightarrow>
    srv_step y (y\<lparr>ss_srv := accept_session_insert k (ss_srv y), ss_pc := Acc_inserted\<rparr>)"
| s_again: "ss_pc y = Acc_inserted \<Longrightarrow> uuid \<notin> set (ids (ss_srv y)) \<Longrightarrow>
    server_start junk uuid (ss_srv y) = Inr sv \<Longrightarrow>
    srv_step y (y\<lparr>ss_srv := sv, ss_pc := Acc_wait\<rparr>)"
| s_refused: "ss_pc y = Acc_wait \<Longrightarrow> m_accept (ss_srv y) = Some k \<Longrightarrow>
    uuid \<notin> set (ids (ss_srv y)) \<Longrightarrow> on_accept junk uuid True k (ss_srv y) = Inr sv \<Longrightarrow>
    srv_step y (y\<lparr>ss_srv := sv, ss_pc := Acc_wait\<rparr>)"
| s_reads: "k < length (objs y) \<Longrightarrow> m_read (objs y ! k) = Some rop \<Longrightarrow>
    complete_read dbg e junk rop False data (objs y ! k) = Inr (s', es) \<Longrightarrow>
    srv_step y (y\<lparr>ss_srv := fold run_effect es (set_obj k s' (ss_srv y)), ss_msgs := (ss_msgs y)(k := ss_msgs y k + post_count es)\<rparr>)"
| s_fails: "k < length (objs y) \<Longrightarrow> m_read (objs y ! k) \<noteq> None \<Longrightarrow>
    srv_step y (y\<lparr>ss_srv := session_fails k (ss_srv y)\<rparr>)"
| s_send: "k < length (objs y) \<Longrightarrow> ss_msgs y k > 0 \<Longrightarrow> n \<in> {ss_writes y k, Suc (ss_writes y k)} \<Longrightarrow>
    srv_step y (y\<lparr>ss_srv := set_obj k ((objs y ! k)\<lparr>m_send_queue := q, m_file_out := f\<rparr>) (ss_srv y), ss_writes := (ss_writes y)(k := n)\<rparr>)"
| s_handled: "k < length (objs y) \<Longrightarrow> ss_msgs y k = Suc n \<Longrightarrow>
    srv_step y (y\<lparr>ss_msgs := (ss_msgs y)(k := n)\<rparr>)"
| s_written: "k < length (objs y) \<Longrightarrow> ss_writes y k = Suc n \<Longrightarrow> n' \<in> {n, Suc n} \<Longrightarrow>
    srv_step y (y\<lparr>ss_srv := set_obj k ((objs y ! k)\<lparr>m_send_queue := q\<rparr>) (ss_srv y), ss_writes := (ss_writes y)(k := n')\<rparr>)"
| s_write_fails: "k < length (objs y) \<Longrightarrow> ss_writes y k = Suc n \<Longrightarrow> session_write_fails k (ss_srv y) = Inr sv \<Longrightarrow>
    srv_step y (y\<lparr>ss_srv := sv, ss_writes := (ss_writes y)(k := n)\<rparr>)"

definition srv_init :: "srv_sys \<Rightarrow> bool" where
  "srv_init y \<longleftrightarrow> ss_pc y = Acc_wait \<and> ss_msgs y = (\<lambda>_. 0) \<and> ss_writes y = (\<lambda>_. 0) \<and>
     (\<exists>port sz junk uuid. 0 < sz \<and>
        server_start junk uuid (CServer_new port (AsioIoServicePool sz)) = Inr (ss_srv y))"

definition reading :: "cserver \<Rightarrow> nat \<Rightarrow> bool" where
  "reading sv k \<longleftrightarrow> k < length (srv_objs sv) \<and> m_read (srv_objs sv ! k) \<noteq> None"

definition srv_inv :: "srv_sys \<Rightarrow> bool" where
  "srv_inv y \<longleftrightarrow>
     (let sv = ss_srv y in
      pool_wf (srv_pool sv) \<and> distinct (ids sv) \<and>
      (\<forall>i k. m_sessions sv i = Some k \<longrightarrow>
         k < length (srv_objs sv) \<and> get_session_id (srv_objs sv ! k) = i) \<and>
      (\<forall>k. reading sv k \<longrightarrow> \<not> m_is_stop (srv_objs sv ! k) \<longrightarrow> ss_pc y \<noteq> Acc_started k \<longrightarrow>
         m_sessions sv (get_session_id (srv_objs sv ! k)) = Some k) \<and>
      (case ss_pc y of
         Acc_wait \<Rightarrow> (\<exists>k. m_accept sv = Some k \<and> k < length (srv_objs sv) \<and>
           sess_wf (srv_objs sv ! k) \<and> \<not> reading sv k)
       | Acc_started k \<Rightarrow> k < length (srv_objs sv)
       | Acc_inserted \<Rightarrow> True))"

lemma start_fields: "start s = Inr s' \<Longrightarrow> m_session_id s' = m_session_id s"
  by (auto simp: start_def read_head_def)

lemma server_start_ok:
  assumes "pool_wf (srv_pool sv)"
  obtains sv' where "server_start junk uuid sv = Inr sv'"
  using assms CSession_new_ok [of junk uuid] by (fastforce simp: server_start_def get_service_wf)

lemma server_start_fields:
  assumes "server_start junk uuid sv = Inr sv'" "pool_wf (srv_pool sv)"
  shows "pool_wf (srv_pool sv') \<and> m_sessions sv' = m_sessions sv \<and>
    m_accept sv' = Some (length (srv_objs sv)) \<and>
    (\<exists>s. srv_objs sv' = srv_objs sv @ [s] \<and> sess_wf s \<and> m_session_id s = uuid \<and> m_read s = None)"
proof -
  obtain i pool s where i: "get_service (srv_pool sv) = Inr (i, pool)"
    and s: "CSession_new junk uuid = Inr s"
    and sv': "sv' = sv\<lparr>srv_pool := pool, srv_objs := srv_objs sv @ [s],
      srv_ctx := srv_ctx sv @ [i], m_accept := Some (length (srv_objs sv))\<rparr>"
    using assms(1) by (auto simp: server_start_def)
  have "sess_wf s" "m_session_id s = uuid" "m_read s = None"
    using sess_wf_new [OF s] s by (auto simp: CSession_new_def)
  with get_service_keeps_wf [OF assms(2) i] show ?thesis by (simp add: sv')
qed

lemma ids_update [simp]:
  "k < length (srv_objs sv) \<Longrightarrow> get_session_id s = get_session_id (srv_objs sv ! k) \<Longrightarrow>
   map get_session_id ((srv_objs sv)[k := s]) = ids sv"
  by (simp add: ids_def map_update list_update_same_conv)

lemma session_fails_eq:
  "session_fails k sv = clear_session (get_session_id (srv_objs sv ! k))
     (sv\<lparr>srv_objs := (srv_objs sv)[k := (close (srv_objs sv ! k))\<lparr>m_read := None\<rparr>]\<rparr>)"
proof -
  have "(close (srv_objs sv ! k))\<lparr>m_read := None\<rparr> = close ((srv_objs sv ! k)\<lparr>m_read := None\<rparr>)"
    by (simp add: close_def)
  then show ?thesis
    by (simp only: session_fails_def fail_session_def Let_def case_prod_conv fold_simps
        run_effect.simps id_apply comp_apply) (simp add: get_session_id_def)
qed


lemma session_write_fails_eq:
  "session_write_fails k sv = Inr (clear_session (get_session_id (srv_objs sv ! k)) (set_obj k (close (srv_objs sv ! k)) sv))"
  by (simp add: session_write_fails_def write_handler_def fail_session_def set_obj_def get_session_id_def close_def)

text \<open>A read that completes posts at most one message; it keeps the id, and does not close the session.\<close>

lemma complete_read_keeps:
  assumes "complete_read dbg e junk rop False data s = Inr (s', es)"
  shows "m_session_id s' = m_session_id s" "m_is_stop s' = m_is_stop s" "fold run_effect es sv = sv"
proof -
  have h: "read_head a = Inr b \<Longrightarrow> m_session_id b = m_session_id a \<and> m_is_stop b = m_is_stop a" for a b
    by (auto simp: read_head_def)
  have f: "read_message_full r a = Inr b \<Longrightarrow> m_session_id b = m_session_id a \<and> m_is_stop b = m_is_stop a" for r a b
    by (auto simp: read_message_full_def)
  have "m_session_id s' = m_session_id s \<and> m_is_stop s' = m_is_stop s \<and> fold run_effect es sv = sv"
    using assms
    by (cases rop) (auto simp: complete_read_def on_head_def on_body_def Let_def split: if_splits option.splits dest!: h f)
  then show "m_session_id s' = m_session_id s" "m_is_stop s' = m_is_stop s" "fold run_effect es sv = sv" by simp_all
qed

text \<open>The invariant is about the server and the acceptor only.\<close>

lemma srv_inv_only [simp]:
  "srv_inv (y\<lparr>ss_msgs := f\<rparr>) = srv_inv y" "srv_inv (y\<lparr>ss_writes := f\<rparr>) = srv_inv y"
  by (simp_all add: srv_inv_def)

lemma srv_inv_start:
  assumes "server_start junk uuid sv = Inr sv'" "uuid \<notin> set (ids sv)"
    and "srv_inv (y\<lparr>ss_srv := sv, ss_pc := pc\<rparr>)" "\<And>k. pc \<noteq> Acc_started k"
  shows "srv_inv (y\<lparr>ss_srv := sv', ss_pc := Acc_wait\<rparr>)"
proof -
  obtain s where s: "srv_objs sv' = srv_objs sv @ [s]" "sess_wf s" "m_session_id s = uuid"
    "m_read s = None"
    and sv': "pool_wf (srv_pool sv')" "m_sessions sv' = m_sessions sv"
      "m_accept sv' = Some (length (srv_objs sv))"
    using server_start_fields [OF assms(1)] assms(3) by (auto simp: srv_inv_def Let_def)
  have "reading sv' k \<longleftrightarrow> reading sv k" for k
    by (auto simp: reading_def s nth_append less_Suc_eq)
  with assms(2-4) s sv' show ?thesis
    by (fastforce simp: srv_inv_def Let_def ids_def nth_append less_Suc_eq reading_def
        get_session_id_def)
qed

lemma srv_inv_init: "srv_init y \<Longrightarrow> srv_inv y"
proof -
  assume "srv_init y"
  then obtain port sz junk uuid where y: "ss_pc y = Acc_wait" and sz: "0 < sz"
    and st: "server_start junk uuid (CServer_new port (AsioIoServicePool sz)) = Inr (ss_srv y)"
    by (auto simp: srv_init_def)
  have "srv_inv (y\<lparr>ss_srv := CServer_new port (AsioIoServicePool sz), ss_pc := Acc_inserted\<rparr>)"
    using sz by (simp add: srv_inv_def CServer_new_def ids_def reading_def)
  from srv_inv_start [OF st _ this] show ?thesis using y
    by (simp add: ids_def CServer_new_def srv_inv_def)
qed

lemma reading_update:
  "k < length (srv_objs sv) \<Longrightarrow>
   reading (sv\<lparr>srv_objs := (srv_objs sv)[k := s]\<rparr>) j \<longleftrightarrow>
     (if j = k then m_read s \<noteq> None else reading sv j)"
  by (auto simp: reading_def)

lemma srv_inv_accepted:
  assumes "srv_inv y" "ss_pc y = Acc_wait" "m_accept (ss_srv y) = Some k"
    and "accept_session_start k (ss_srv y) = Inr sv"
  shows "srv_inv (y\<lparr>ss_srv := sv, ss_pc := Acc_started k\<rparr>)"
proof -
  obtain s where s: "start (srv_objs (ss_srv y) ! k) = Inr s"
    and sv: "sv = (ss_srv y)\<lparr>srv_objs := (srv_objs (ss_srv y))[k := s], m_accept := None\<rparr>"
    using assms(4) by (auto simp: accept_session_start_def)
  have sid: "get_session_id s = get_session_id (srv_objs (ss_srv y) ! k)"
    using start_fields [OF s] by (simp add: get_session_id_def)
  have k: "k < length (srv_objs (ss_srv y))"
    using assms(1-3) by (auto simp: srv_inv_def Let_def)
  have "ids sv = ids (ss_srv y)"
    using k sid by (simp add: sv ids_def map_update list_update_same_conv)
  moreover have "get_session_id (srv_objs sv ! j) = get_session_id (srv_objs (ss_srv y) ! j)" for j
    using k sid by (cases "j = k") (simp_all add: sv)
  moreover have "reading sv j \<Longrightarrow> j \<noteq> k \<Longrightarrow> reading (ss_srv y) j \<and> srv_objs sv ! j = srv_objs (ss_srv y) ! j" for j
    by (simp add: sv reading_def)
  moreover have "length (srv_objs sv) = length (srv_objs (ss_srv y))"
    "m_sessions sv = m_sessions (ss_srv y)" "srv_pool sv = srv_pool (ss_srv y)"
    by (simp_all add: sv)
  ultimately show ?thesis
    using assms(1,2) k by (auto simp: srv_inv_def Let_def)
qed

lemma srv_inv_insert:
  assumes "srv_inv y" "ss_pc y = Acc_started k"
  shows "srv_inv (y\<lparr>ss_srv := accept_session_insert k (ss_srv y), ss_pc := Acc_inserted\<rparr>)"
proof -
  let ?sv = "accept_session_insert k (ss_srv y)"
  have [simp]: "srv_objs ?sv = srv_objs (ss_srv y)" "srv_pool ?sv = srv_pool (ss_srv y)"
    "ids ?sv = ids (ss_srv y)" "reading ?sv j = reading (ss_srv y) j" for j
    by (simp_all add: accept_session_insert_def sessions_put_def ids_def reading_def)
  have k: "k < length (srv_objs (ss_srv y))" and d: "distinct (ids (ss_srv y))"
    using assms by (auto simp: srv_inv_def Let_def)
  have "get_session_id (srv_objs (ss_srv y) ! j) \<noteq> get_session_id (srv_objs (ss_srv y) ! k)"
    if "j \<noteq> k" "j < length (srv_objs (ss_srv y))" for j
    using d k that by (auto simp: ids_def distinct_conv_nth)
  then have "m_sessions ?sv (get_session_id (srv_objs (ss_srv y) ! j)) =
      (if j = k then Some k else m_sessions (ss_srv y) (get_session_id (srv_objs (ss_srv y) ! j)))"
    if "j < length (srv_objs (ss_srv y))" for j
    using that by (auto simp: accept_session_insert_def sessions.get_put)
  moreover have "m_sessions ?sv i = Some j \<Longrightarrow>
      i = get_session_id (srv_objs (ss_srv y) ! k) \<and> j = k \<or> m_sessions (ss_srv y) i = Some j" for i j
    by (auto simp: accept_session_insert_def sessions.get_put split: if_splits)
  ultimately show ?thesis
    using assms k by (fastforce simp: srv_inv_def Let_def reading_def)
qed

text \<open>A session changes, but not its id; it does not start to read, and stays closed if it was.\<close>

lemma srv_inv_set_obj:
  assumes "srv_inv y" "k < length (objs y)" "get_session_id s = get_session_id (objs y ! k)"
    and "m_read s \<noteq> None \<Longrightarrow> reading (ss_srv y) k" "m_is_stop (objs y ! k) \<Longrightarrow> m_is_stop s"
    and "m_accept (ss_srv y) = Some k \<Longrightarrow> ss_pc y = Acc_wait \<Longrightarrow> sess_wf (objs y ! k) \<Longrightarrow> sess_wf s"
  shows "srv_inv (y\<lparr>ss_srv := set_obj k s (ss_srv y)\<rparr>)"
proof -
  let ?sv = "set_obj k s (ss_srv y)"
  have [simp]: "srv_pool ?sv = srv_pool (ss_srv y)" "m_accept ?sv = m_accept (ss_srv y)" "m_sessions ?sv = m_sessions (ss_srv y)"
    "length (srv_objs ?sv) = length (objs y)" "ids ?sv = ids (ss_srv y)"
    using assms(2,3) by (simp_all add: set_obj_def ids_def map_update list_update_same_conv)
  have obj: "srv_objs ?sv ! j = (if j = k then s else objs y ! j)" for j using assms(2) by (simp add: set_obj_def)
  have [simp]: "get_session_id (srv_objs ?sv ! j) = get_session_id (objs y ! j)" for j using assms(3) by (simp add: obj)
  have rd: "reading ?sv j \<Longrightarrow> reading (ss_srv y) j" for j using assms(4) by (simp add: reading_def obj split: if_splits)
  have st: "\<not> m_is_stop (srv_objs ?sv ! j) \<Longrightarrow> \<not> m_is_stop (objs y ! j)" for j using assms(5) by (auto simp: obj split: if_splits)
  have wf: "m_accept (ss_srv y) = Some j \<Longrightarrow> ss_pc y = Acc_wait \<Longrightarrow> sess_wf (objs y ! j) \<Longrightarrow> sess_wf (srv_objs ?sv ! j)" for j
    using assms(6) by (auto simp: obj)
  show ?thesis
  proof (cases "ss_pc y")
    case Acc_wait
    then obtain a where a: "m_accept (ss_srv y) = Some a" "a < length (objs y)" "sess_wf (objs y ! a)" "\<not> reading (ss_srv y) a"
      using assms(1) by (auto simp: srv_inv_def Let_def)
    then show ?thesis using assms(1) Acc_wait rd st wf [OF a(1) Acc_wait a(3)] by (auto simp: srv_inv_def Let_def)
  qed (use assms(1) rd st in \<open>auto simp: srv_inv_def Let_def\<close>)
qed

text \<open>A session that has been closed is taken out of the table.\<close>

lemma srv_inv_clear:
  assumes "srv_inv y" "k < length (objs y)" "m_is_stop (objs y ! k)"
  shows "srv_inv (y\<lparr>ss_srv := clear_session (get_session_id (objs y ! k)) (ss_srv y)\<rparr>)"
proof -
  let ?i = "get_session_id (objs y ! k)"
  let ?sv = "clear_session ?i (ss_srv y)"
  have [simp]: "srv_pool ?sv = srv_pool (ss_srv y)" "m_accept ?sv = m_accept (ss_srv y)" "srv_objs ?sv = objs y"
    "ids ?sv = ids (ss_srv y)" "reading ?sv j = reading (ss_srv y) j" for j
    by (simp_all add: clear_session_def ids_def reading_def)
  have ses: "m_sessions ?sv i = (if i = ?i then None else m_sessions (ss_srv y) i)" for i by (simp add: sessions.get_del)
  have ne: "get_session_id (objs y ! j) \<noteq> ?i" if "\<not> m_is_stop (objs y ! j)" "j < length (objs y)" for j
  proof -
    have "distinct (ids (ss_srv y))" "j \<noteq> k" using assms that by (auto simp: srv_inv_def Let_def)
    then show ?thesis using assms(2) that(2) by (auto simp: ids_def distinct_conv_nth)
  qed
  have "m_sessions ?sv (get_session_id (objs y ! j)) = Some j"
    if h: "reading (ss_srv y) j" "\<not> m_is_stop (objs y ! j)" "ss_pc y \<noteq> Acc_started j" for j
  proof -
    have "m_sessions (ss_srv y) (get_session_id (objs y ! j)) = Some j" using assms(1) h by (simp add: srv_inv_def Let_def)
    then show ?thesis using ne [of j] h(1,2) by (simp add: ses reading_def)
  qed
  moreover have "m_sessions ?sv i = Some j \<Longrightarrow> j < length (objs y) \<and> get_session_id (objs y ! j) = i" for i j
    using assms(1) by (simp add: ses srv_inv_def Let_def split: if_splits)
  moreover have "pool_wf (srv_pool (ss_srv y))" "distinct (ids (ss_srv y))"
    "case ss_pc y of Acc_wait \<Rightarrow> (\<exists>k. m_accept (ss_srv y) = Some k \<and> k < length (objs y) \<and> sess_wf (objs y ! k) \<and> \<not> reading (ss_srv y) k)
       | Acc_started k \<Rightarrow> k < length (objs y) | Acc_inserted \<Rightarrow> True"
    using assms(1) unfolding srv_inv_def Let_def by blast+
  ultimately show ?thesis unfolding srv_inv_def Let_def by (cases "ss_pc y") simp_all
qed

lemma srv_inv_ends:
  assumes "srv_inv y" "k < length (objs y)" "s = close (objs y ! k) \<or> s = (close (objs y ! k))\<lparr>m_read := None\<rparr>"
  shows "srv_inv (y\<lparr>ss_srv := clear_session (get_session_id (objs y ! k)) (set_obj k s (ss_srv y))\<rparr>)"
proof -
  have s: "get_session_id s = get_session_id (objs y ! k)" "m_is_stop s"
    "m_read s \<noteq> None \<Longrightarrow> reading (ss_srv y) k" "sess_wf (objs y ! k) \<Longrightarrow> sess_wf s"
    using assms(2,3) by (auto simp: close_def get_session_id_def reading_def sess_wf_def)
  have "srv_inv (y\<lparr>ss_srv := set_obj k s (ss_srv y)\<rparr>)" by (rule srv_inv_set_obj) (use assms s in auto)
  from srv_inv_clear [OF this, of k] show ?thesis using assms(2) s(1,2) by (simp add: set_obj_def)
qed

lemma srv_inv_step: "srv_inv y \<Longrightarrow> srv_step y y' \<Longrightarrow> srv_inv y'"
proof (erule srv_step.cases, goal_cases)
  case (1 y0 k sv)
  then show ?case using srv_inv_accepted by blast
next
  case (2 y0 k)
  then show ?case using srv_inv_insert by blast
next
  case (3 y0 uuid junk sv)
  then have "srv_inv (y0\<lparr>ss_srv := ss_srv y0, ss_pc := Acc_inserted\<rparr>)" by (simp add: srv_inv_def)
  with 3 show ?case using srv_inv_start by blast
next
  case (4 y0 k uuid junk sv)
  then have "srv_inv (y\<lparr>ss_srv := (ss_srv y)\<lparr>m_accept := None\<rparr>, ss_pc := Acc_inserted\<rparr>)"
    by (auto simp: srv_inv_def Let_def ids_def reading_def)
  with 4 show ?case
    using srv_inv_start [where sv = "(ss_srv y)\<lparr>m_accept := None\<rparr>" and pc = Acc_inserted and y = y]
    by (simp add: on_accept_def ids_def)
next
  case (5 k y0 rop dbg e junk data s' es)
  note c = complete_read_keeps [OF 5(6)]
  have rd: "reading (ss_srv y0) k" using 5(4,5) by (simp add: reading_def)
  have "srv_inv (y0\<lparr>ss_srv := set_obj k s' (ss_srv y0)\<rparr>)"
  proof (rule srv_inv_set_obj)
    show "sess_wf s'" if "m_accept (ss_srv y0) = Some k" "ss_pc y0 = Acc_wait"
      using 5(1,2) that rd by (auto simp: srv_inv_def Let_def)
  qed (use 5 c rd in \<open>auto simp: get_session_id_def\<close>)
  then show ?case using 5(3) c(3) by simp
next
  case (6 k y0)
  have "session_fails k (ss_srv y0) =
      clear_session (get_session_id (objs y0 ! k)) (set_obj k ((close (objs y0 ! k))\<lparr>m_read := None\<rparr>) (ss_srv y0))"
    by (simp add: session_fails_eq set_obj_def)
  then show ?case using 6 srv_inv_ends by simp
next
  case (7 k y0 n f q)
  have "srv_inv (y0\<lparr>ss_srv := set_obj k ((objs y0 ! k)\<lparr>m_send_queue := q, m_file_out := f\<rparr>) (ss_srv y0)\<rparr>)"
    by (rule srv_inv_set_obj) (use 7 in \<open>auto simp: get_session_id_def reading_def sess_wf_def\<close>)
  then show ?case using 7(3) by simp
next
  case (8 k y0 n)
  then show ?case by simp
next
  case (9 k y0 n n' q)
  have "srv_inv (y0\<lparr>ss_srv := set_obj k ((objs y0 ! k)\<lparr>m_send_queue := q\<rparr>) (ss_srv y0)\<rparr>)"
    by (rule srv_inv_set_obj) (use 9 in \<open>auto simp: get_session_id_def reading_def sess_wf_def\<close>)
  then show ?case using 9(3) by simp
next
  case (10 k y0 n sv)
  have "srv_inv (y0\<lparr>ss_srv := sv\<rparr>)" using 10 srv_inv_ends [of y0 k] by (auto simp: session_write_fails_eq)
  then show ?case using 10(3) by simp
qed

interpretation srv: invariant_system srv_init srv_step srv_inv
  by unfold_locales (auto intro: srv_inv_init srv_inv_step)

section \<open>What the table holds\<close>

text \<open>
  C6. The session table is right for live sessions: in every reachable state an entry leads
  to a session with that id, and every session that is reading and has not been closed, except the one the acceptor
  has started and not yet entered, is found under its id. Sessions are closed, and erased, by a read that fails and by a
  write that fails while a read is outstanding.
\<close>

theorem live_sessions_registered:
  assumes "reachable srv_init srv_step y"
  shows "(\<forall>i k. m_sessions (ss_srv y) i = Some k \<longrightarrow> k < length (objs y) \<and> get_session_id (objs y ! k) = i) \<and>
    (\<forall>k. reading (ss_srv y) k \<and> \<not> m_is_stop (objs y ! k) \<and> ss_pc y \<noteq> Acc_started k \<longrightarrow>
      m_sessions (ss_srv y) (get_session_id (objs y ! k)) = Some k)"
  using srv.inv_reachable [OF assms] unfolding srv_inv_def Let_def by blast

text \<open>
  A server, one connection of which has been accepted and started.
\<close>

definition first_session :: csession where
  "first_session = (case CSession_new (\<lambda>_. 0) ''u1'' of Inr s \<Rightarrow> s)"

definition srv0 :: srv_sys where
  "srv0 = \<lparr>ss_srv = (CServer_new 9091 (AsioIoServicePool 2))
      \<lparr>srv_pool := (AsioIoServicePool 2)\<lparr>m_next_service := 1\<rparr>, srv_objs := [first_session],
       srv_ctx := [0], m_accept := Some 0\<rparr>, ss_pc = Acc_wait, ss_msgs = \<lambda>_. 0, ss_writes = \<lambda>_. 0\<rparr>"

definition srv1 :: srv_sys where
  "srv1 = srv0\<lparr>ss_srv := (ss_srv srv0)\<lparr>srv_objs := [idle first_session None], m_accept := None\<rparr>,
     ss_pc := Acc_started 0\<rparr>"

lemma first_session: "CSession_new (\<lambda>_. 0) ''u1'' = Inr first_session"
  using CSession_new_ok [of "\<lambda>_. 0" "''u1''"] by (auto simp: first_session_def)

lemma first_session_fields:
  "sess_wf first_session" "m_recv_node first_session = None" "m_session_id first_session = ''u1''" "\<not> m_is_stop first_session"
proof -
  show "sess_wf first_session" by (rule sess_wf_new [OF first_session])
  have "\<exists>h. first_session = \<lparr>m_session_id = ''u1'', m_uid = 0,
      m_data = replicate BUFFER_TOTAL_LEN 0, m_send_queue = [], m_head_node = h,
      m_recv_node = None, m_file_out = \<lparr>os_path = None, os_fail = False\<rparr>, m_is_stop = False,
      m_is_head = True, m_sock_open = True, m_read = None\<rparr>"
    using first_session by (auto simp: CSession_new_def simp del: BUFFER_TOTAL_LEN_def
        intro: sym)
  then obtain h where h: "first_session = \<lparr>m_session_id = ''u1'', m_uid = 0,
      m_data = replicate BUFFER_TOTAL_LEN 0, m_send_queue = [], m_head_node = h,
      m_recv_node = None, m_file_out = \<lparr>os_path = None, os_fail = False\<rparr>, m_is_stop = False,
      m_is_head = True, m_sock_open = True, m_read = None\<rparr>" ..
  show "m_recv_node first_session = None" "m_session_id first_session = ''u1''" "\<not> m_is_stop first_session"
    unfolding h by simp_all
qed

lemma srv0_reachable: "reachable srv_init srv_step srv0"
proof (rule reach_start)
  have "server_start (\<lambda>_. 0) ''u1'' (CServer_new 9091 (AsioIoServicePool 2)) = Inr (ss_srv srv0)"
    by (simp add: server_start_def get_service_def first_session srv0_def CServer_new_def
        AsioIoServicePool_def)
  then show "srv_init srv0"
    unfolding srv_init_def
    by (intro conjI exI [of _ "9091 :: 16 word"] exI [of _ "2 :: nat"] exI [of _ "\<lambda>_ :: nat. 0 :: byte"]
        exI [of _ "''u1''"]) (simp_all add: srv0_def)
qed

lemma srv1_reachable: "reachable srv_init srv_step srv1"
proof (rule reach_step [OF srv0_reachable])
  have "accept_session_start 0 (ss_srv srv0) = Inr (ss_srv srv1)"
    by (simp add: accept_session_start_def srv0_def srv1_def start_ok first_session_fields)
  from s_accepted [OF _ _ this] show "srv_step srv0 srv1"
    by (simp add: srv0_def srv1_def)
qed

definition srv2 :: srv_sys where
  "srv2 = srv1\<lparr>ss_srv := accept_session_insert 0 (ss_srv srv1), ss_pc := Acc_inserted\<rparr>"

lemma srv2_reachable: "reachable srv_init srv_step srv2"
  unfolding srv2_def
  by (rule reach_step [OF srv1_reachable]) (rule s_insert, simp add: srv1_def)

theorem live_sessions_registered_witness:
  "reading (ss_srv srv2) 0 \<and> m_sessions (ss_srv srv2) ''u1'' = Some 0"
proof -
  have r: "reading (ss_srv srv2) 0"
    by (simp add: reading_def srv2_def srv1_def accept_session_insert_def sessions_put_def)
  have "get_session_id (srv_objs (ss_srv srv2) ! 0) = ''u1''"
    by (simp add: srv2_def srv1_def accept_session_insert_def sessions_put_def get_session_id_def
        first_session_fields)
  moreover have "ss_pc srv2 \<noteq> Acc_started 0" "\<not> m_is_stop (objs srv2 ! 0)"
    by (simp_all add: srv2_def srv1_def accept_session_insert_def sessions_put_def idle_def first_session_fields)
  ultimately show ?thesis using live_sessions_registered [OF srv2_reachable] r by metis
qed

section \<open>A session that fails too early\<close>

text \<open>
  An entry of a session that has ended: it is closed, no read, write or accept of it is outstanding, and no message of
  it is waiting for its callback.
\<close>

definition dead_entry :: "srv_sys \<Rightarrow> string \<Rightarrow> nat \<Rightarrow> bool" where
  "dead_entry y i k \<longleftrightarrow> m_sessions (ss_srv y) i = Some k \<and> m_is_stop (objs y ! k) \<and> \<not> reading (ss_srv y) k \<and>
     m_accept (ss_srv y) \<noteq> Some k \<and> ss_msgs y k = 0 \<and> ss_writes y k = 0"

lemma dead_entry_step:
  assumes "srv_inv y" "srv_step y y'" "dead_entry y i k"
  shows "dead_entry y' i k"
proof -
  note d = assms(3) [unfolded dead_entry_def]
  have k: "k < length (objs y)" and i: "get_session_id (objs y ! k) = i"
    and wf: "pool_wf (srv_pool (ss_srv y))" and ds: "distinct (ids (ss_srv y))"
    using assms(1) d by (auto simp: srv_inv_def Let_def)
  have ne: "get_session_id (objs y ! j) \<noteq> i" if "j \<noteq> k" "j < length (objs y)" for j
    using ds k that i by (auto simp: ids_def distinct_conv_nth)
  show ?thesis
    using assms(2)
  proof cases
    case (s_accepted k' sv)
    with d show ?thesis
      by (cases "k' = k") (auto simp: accept_session_start_def reading_def dead_entry_def)
  next
    case (s_insert k')
    have "k' < length (objs y)"
      using assms(1) s_insert(2) by (auto simp: srv_inv_def Let_def)
    with s_insert d ne [of k'] i show ?thesis
      by (cases "k' = k") (auto simp: accept_session_insert_def sessions_put_def reading_def dead_entry_def)
  next
    case (s_again uuid junk sv)
    with server_start_fields [OF s_again(4) wf] d k show ?thesis
      by (auto simp: reading_def nth_append dead_entry_def)
  next
    case (s_refused k' uuid junk sv)
    then have "server_start junk uuid ((ss_srv y)\<lparr>m_accept := None\<rparr>) = Inr sv"
      by (simp add: on_accept_def)
    from server_start_fields [OF this] wf s_refused(1) d k show ?thesis
      by (auto simp: reading_def nth_append dead_entry_def)
  next
    case (s_reads k' rop dbg e junk data s' es)
    then have "k' \<noteq> k" using d by (auto simp: reading_def)
    then show ?thesis using d by (simp add: s_reads(1) complete_read_keeps(3) [OF s_reads(4)] set_obj_def reading_def dead_entry_def)
  next
    case (s_fails k')
    then have "k' \<noteq> k" using d by (auto simp: reading_def)
    with s_fails d ne [of k'] show ?thesis
      by (auto simp: session_fails_eq clear_session_def reading_def dead_entry_def)
  next
    case (s_send k' n q f)
    then have "k' \<noteq> k" using d by auto
    with s_send d show ?thesis by (auto simp: set_obj_def reading_def dead_entry_def)
  next
    case (s_handled k' n)
    then have "k' \<noteq> k" using d by auto
    with s_handled d show ?thesis by (auto simp: reading_def dead_entry_def)
  next
    case (s_written k' n n' q)
    then have "k' \<noteq> k" using d by auto
    with s_written d show ?thesis by (auto simp: set_obj_def reading_def dead_entry_def)
  next
    case (s_write_fails k' n sv)
    then have "k' \<noteq> k" using d by auto
    with s_write_fails d ne [of k'] show ?thesis
      by (auto simp: session_write_fails_eq set_obj_def clear_session_def reading_def dead_entry_def)
  qed
qed

definition srv1_failed :: srv_sys where
  "srv1_failed = srv1\<lparr>ss_srv := session_fails 0 (ss_srv srv1)\<rparr>"

definition srv_zombie :: srv_sys where
  "srv_zombie = srv1_failed\<lparr>ss_srv := accept_session_insert 0 (ss_srv srv1_failed), ss_pc := Acc_inserted\<rparr>"

lemma srv_zombie_reachable: "reachable srv_init srv_step srv_zombie"
proof -
  have "reachable srv_init srv_step srv1_failed"
    unfolding srv1_failed_def
    by (rule reach_step [OF srv1_reachable]) (rule s_fails, simp_all add: srv1_def)
  moreover have "srv_step srv1_failed srv_zombie"
    unfolding srv_zombie_def by (rule s_insert) (simp add: srv1_failed_def srv1_def)
  ultimately show ?thesis by (rule reach_step)
qed

lemma srv_zombie_dead: "dead_entry srv_zombie ''u1'' 0"
proof -
  have o: "objs srv_zombie = [(close (idle first_session None))\<lparr>m_read := None\<rparr>]"
    and z: "m_accept (ss_srv srv_zombie) = None" "ss_msgs srv_zombie = (\<lambda>_. 0)" "ss_writes srv_zombie = (\<lambda>_. 0)"
    by (simp_all add: srv_zombie_def srv1_failed_def srv1_def srv0_def session_fails_eq
        accept_session_insert_def sessions_put_def clear_session_def)
  have "m_sessions (ss_srv srv_zombie) ''u1'' = Some 0"
    by (simp add: srv_zombie_def accept_session_insert_def sessions.get_put)
      (simp add: srv1_failed_def srv1_def session_fails_eq clear_session_def get_session_id_def
        first_session_fields)
  then show ?thesis using o z by (simp add: dead_entry_def reading_def)
qed

text \<open>
  C22. The table leaks sessions that have ended. The handler of the accept starts a session before it enters it: when the
  first read fails in between, \<open>clear_session\<close> finds nothing to erase, and the closed session is then entered, with
  nothing of it outstanding. Such a state is reachable, and from there, whatever the server does, the entry stays.
\<close>

theorem dead_session_stays:
  "(\<exists>y i k. reachable srv_init srv_step y \<and> dead_entry y i k) \<and>
   (\<forall>y y' i k. reachable srv_init srv_step y \<and> dead_entry y i k \<and> srv_step\<^sup>*\<^sup>* y y' \<longrightarrow>
      dead_entry y' i k \<and> m_sessions (ss_srv y') i = Some k)"
proof (intro conjI allI impI)
  show "\<exists>y i k. reachable srv_init srv_step y \<and> dead_entry y i k"
    using srv_zombie_reachable srv_zombie_dead by blast
  fix y y' i k assume h: "reachable srv_init srv_step y \<and> dead_entry y i k \<and> srv_step\<^sup>*\<^sup>* y y'"
  then have "srv_step\<^sup>*\<^sup>* y y'" by blast
  then have "dead_entry y' i k \<and> srv_inv y'"
  proof (induction rule: rtranclp_induct)
    case base
    then show ?case using h srv.inv_reachable by blast
  next
    case (step y1 y2)
    then show ?case using dead_entry_step srv_inv_step by blast
  qed
  then show "dead_entry y' i k" "m_sessions (ss_srv y') i = Some k" by (simp_all add: dead_entry_def)
qed

theorem dead_session_stays_witness:
  "\<exists>y'. srv_step\<^sup>*\<^sup>* srv_zombie y' \<and> ss_pc y' = Acc_wait \<and> m_sessions (ss_srv y') ''u1'' = Some 0"
proof -
  have z: "ss_pc srv_zombie = Acc_inserted" "pool_wf (srv_pool (ss_srv srv_zombie))"
    using srv.inv_reachable [OF srv_zombie_reachable] by (simp_all add: srv_zombie_def srv_inv_def Let_def)
  have u: "''u2'' \<notin> set (ids (ss_srv srv_zombie))"
    by (simp add: srv_zombie_def srv1_failed_def srv1_def session_fails_eq ids_def
        accept_session_insert_def sessions_put_def clear_session_def get_session_id_def
        first_session_fields close_def)
  obtain sv where "server_start (\<lambda>_. 0) ''u2'' (ss_srv srv_zombie) = Inr sv" using server_start_ok [OF z(2)] .
  then have "srv_step srv_zombie (srv_zombie\<lparr>ss_srv := sv, ss_pc := Acc_wait\<rparr>)" by (rule s_again [OF z(1) u])
  then have "srv_step\<^sup>*\<^sup>* srv_zombie (srv_zombie\<lparr>ss_srv := sv, ss_pc := Acc_wait\<rparr>)" by blast
  then show ?thesis using dead_session_stays srv_zombie_reachable srv_zombie_dead
    by (intro exI [of _ "srv_zombie\<lparr>ss_srv := sv, ss_pc := Acc_wait\<rparr>"]) fastforce
qed

section \<open>The accept loop goes on\<close>

text \<open>
  C23. The accept loop never stops: from every reachable state the thread of the acceptor
  can go on by itself to a state in which an accept is outstanding, whatever the accepts
  before it did.
\<close>

theorem accept_loop_goes_on:
  assumes "reachable srv_init srv_step y" "uuid \<notin> set (ids (ss_srv y))"
  shows "\<exists>y' k. srv_step\<^sup>*\<^sup>* y y' \<and> ss_pc y' = Acc_wait \<and> m_accept (ss_srv y') = Some k \<and>
    k < length (srv_objs (ss_srv y'))"
proof -
  have again: "\<exists>y' k. srv_step\<^sup>*\<^sup>* y y' \<and> ss_pc y' = Acc_wait \<and> m_accept (ss_srv y') = Some k \<and>
      k < length (srv_objs (ss_srv y'))"
    if r: "ss_pc y = Acc_inserted" "srv_inv y" "uuid \<notin> set (ids (ss_srv y))" for y
  proof -
    have wf: "pool_wf (srv_pool (ss_srv y))" using r(2) by (simp add: srv_inv_def Let_def)
    obtain sv' where sv': "server_start (\<lambda>_. 0) uuid (ss_srv y) = Inr sv'"
      using server_start_ok [OF wf] .
    have "srv_step y (y\<lparr>ss_srv := sv', ss_pc := Acc_wait\<rparr>)" by (rule s_again [OF r(1,3) sv'])
    then show ?thesis
      using server_start_fields [OF sv' wf]
      by (intro exI [of _ "y\<lparr>ss_srv := sv', ss_pc := Acc_wait\<rparr>"]) auto
  qed
  have inv: "srv_inv y" by (rule srv.inv_reachable [OF assms(1)])
  show ?thesis
  proof (cases "ss_pc y")
    case Acc_wait
    with inv show ?thesis by (intro exI [of _ y]) (auto simp: srv_inv_def Let_def)
  next
    case Acc_inserted
    then show ?thesis using again inv assms(2) by blast
  next
    case (Acc_started k)
    let ?y = "y\<lparr>ss_srv := accept_session_insert k (ss_srv y), ss_pc := Acc_inserted\<rparr>"
    have "srv_step y ?y" by (rule s_insert [OF Acc_started])
    moreover have "ids (ss_srv ?y) = ids (ss_srv y)"
      by (simp add: ids_def accept_session_insert_def sessions_put_def)
    ultimately show ?thesis
      using again [of ?y] srv_inv_insert [OF inv Acc_started] assms(2)
      by (auto dest: converse_rtranclp_into_rtranclp [of srv_step])
  qed
qed

theorem accept_loop_goes_on_witness:
  "\<exists>y' k. srv_step\<^sup>*\<^sup>* srv_zombie y' \<and> m_accept (ss_srv y') = Some k"
proof -
  have "''u2'' \<notin> set (ids (ss_srv srv_zombie))"
    by (simp add: srv_zombie_def srv1_failed_def srv1_def session_fails_eq ids_def
        accept_session_insert_def sessions_put_def clear_session_def get_session_id_def
        first_session_fields close_def)
  from accept_loop_goes_on [OF srv_zombie_reachable this] show ?thesis by blast
qed

end
