(* ===== verification/Startup.thy ===== *)
theory Startup
  imports Server
begin

text \<open>
  \<open>src/ResourceServer.cpp\<close> and \<open>include/luavm.hpp\<close>: the start of the program, up to the first
  accept; and the bytes of the client in \<open>Test/TestCase/test_session.h\<close>. The TOML library, the
  Lua state and the UUIDs are parameters.
\<close>

section \<open>test\_luajit\<close>

text \<open>
  \<open>luaL_dostring\<close> of \<open>LuaJit/include/lauxlib.h\<close> is the C disjunction of the status of
  \<open>luaL_loadstring\<close> and, when that is 0, of \<open>lua_pcall\<close>: 0 or 1.
\<close>

definition luaL_dostring :: "int \<Rightarrow> int \<Rightarrow> int" where
  "luaL_dostring load_status pcall_status =
     (if load_status \<noteq> 0 then 1 else if pcall_status \<noteq> 0 then 1 else 0)"

datatype lua_report = Lua_failed | Lua_success

definition test_luajit :: "int \<Rightarrow> int \<Rightarrow> lua_report" where
  "test_luajit load_status pcall_status =
     (let result = luaL_dostring load_status pcall_status
      in if result = 0 then Lua_failed else Lua_success)"

text \<open>
  The report of \<open>test_luajit\<close> is the wrong way round: it prints \<open>failed\<close> exactly when
  the chunk was compiled and ran without an error (both statuses 0), and \<open>success\<close> otherwise.
\<close>

lemma test_luajit_inverted:
  "test_luajit l p = Lua_failed \<longleftrightarrow> l = 0 \<and> p = 0"
  by (auto simp: test_luajit_def luaL_dostring_def)

section \<open>Configuration and run\<close>

text \<open>
  \<open>cfg\<close> is parsed when the program is loaded, before \<open>main\<close>: a parse error there is thrown
  out of a static initialiser and ends the process. \<open>value_or\<close> gives a default where the
  node is missing or of another type.
\<close>

record config =
  cfg_name :: "bytes option"
  cfg_port :: "32 word option"
  cfg_resource_root :: "bytes option"

definition server_name :: "config \<Rightarrow> bytes" where
  "server_name c = (case cfg_name c of Some n \<Rightarrow> n | None \<Rightarrow> map of_char ''failed'')"

definition server_port :: "config \<Rightarrow> 16 word" where
  "server_port c = ucast (case cfg_port c of Some p \<Rightarrow> p | None \<Rightarrow> (9090 :: 32 word))"

record startup_log =
  su_lua :: lua_report
  su_name :: bytes

definition run :: "int \<Rightarrow> int \<Rightarrow> (nat \<Rightarrow> byte) \<Rightarrow> string \<Rightarrow> nat \<Rightarrow> config
    \<Rightarrow> fault + startup_log \<times> cserver" where
  "run load_status pcall_status junk uuid pool_size c =
     bind_f (server_start junk uuid (CServer_new (server_port c) (AsioIoServicePool pool_size)))
       (\<lambda>sv. Inr (\<lparr>su_lua = test_luajit load_status pcall_status, su_name = server_name c\<rparr>, sv))"

definition program :: "int \<Rightarrow> int \<Rightarrow> (nat \<Rightarrow> byte) \<Rightarrow> string \<Rightarrow> config option
    \<Rightarrow> fault + startup_log \<times> cserver" where
  "program load_status pcall_status junk uuid cfg =
     (case cfg of None \<Rightarrow> Inl Terminated
      | Some c \<Rightarrow> run load_status pcall_status junk uuid 2 c)"

text \<open>
  A configuration that parses brings the server up, with one accept outstanding and a
  session made for it on context 0; the port it listens on is the configured number modulo
  65536 (9090 when there is none), so that, say, 65536 + 80 silently becomes 80. One that does not
  parse ends the process before \<open>main\<close>, so the handler around \<open>run\<close> never sees the error.
\<close>

theorem program_starts:
  "(\<exists>sv. program l p junk uuid (Some c) =
      Inr (\<lparr>su_lua = test_luajit l p, su_name = server_name c\<rparr>, sv) \<and>
     m_accept sv = Some 0 \<and> srv_ctx sv = [0] \<and> m_sessions sv = Map.empty \<and>
     unat (srv_port sv) = unat (case cfg_port c of Some q \<Rightarrow> q | None \<Rightarrow> 9090) mod 65536) \<and>
   program l p junk uuid None = Inl Terminated"
proof -
  obtain s where "CSession_new junk uuid = Inr s" using CSession_new_ok by blast
  then have "program l p junk uuid (Some c) =
      Inr (\<lparr>su_lua = test_luajit l p, su_name = server_name c\<rparr>,
        (CServer_new (server_port c) (AsioIoServicePool 2))
          \<lparr>srv_pool := (AsioIoServicePool 2)\<lparr>m_next_service := 1\<rparr>, srv_objs := [s],
           srv_ctx := [0], m_accept := Some 0\<rparr>)"
    by (simp add: program_def run_def server_start_def get_service_def CServer_new_def
        AsioIoServicePool_def)
  then show ?thesis
    by (simp add: CServer_new_def server_port_def unsigned_ucast_eq unat_drop_bit_eq
        take_bit_eq_mod program_def)
qed

section \<open>The test client\<close>

text \<open>
  What \<open>test1\<close> writes for a message: the id through \<open>host_to_network_short\<close>, and the 32-bit
  length through the same 16-bit function, widened again.
\<close>

definition test1_request :: "endian \<Rightarrow> bytes \<Rightarrow> bytes" where
  "test1_request e message_body =
     (let message_id = 1019 :: 16 word;
          net_message_id = hton16 e message_id;
          body_length = of_nat (length message_body) :: 32 word;
          net_body_length = ucast (hton16 e (ucast body_length)) :: 32 word
      in store16 e net_message_id @ store32 e net_body_length @ message_body)"

definition test1_decode_len :: "endian \<Rightarrow> bytes \<Rightarrow> 32 word" where
  "test1_decode_len e wire_len = ucast (ntoh16 e (ucast (load32 e wire_len)))"

lemma length_4_split:
  assumes "length (bs :: bytes) = 4"
  obtains a b c d where "bs = [a, b, c, d]"
  using assms by (cases bs; cases "tl bs"; cases "tl (tl bs)"; cases "tl (tl (tl bs))") auto

lemma ucast_nat_32_16: "ucast (of_nat k :: 32 word) = (of_nat k :: 16 word)"
  by transfer (simp add: take_bit_take_bit)

lemma half_bit_beyond:
  "\<not> bit (w :: 16 word) (16 + n)" "\<not> bit (w :: 16 word) (24 + n)"
  by (auto dest: bit_imp_le_length)

lemma be32_ucast16: "be32 (ucast (w :: 16 word)) = [0, 0] @ be16 w"
  by (auto simp: be32_def be16_def intro!: bit_word_eqI simp: bit_simps half_bit_beyond)

lemma un_be32_high: "un_be32 (be16 w @ [0, 0]) = push_bit 16 (ucast w)"
proof (rule bit_word_eqI)
  fix n :: nat assume "n < LENGTH(32)"
  then consider "n < 16" | "16 \<le> n" "n < 24" | "24 \<le> n" "n < 32" by fastforce
  then show "bit (un_be32 (be16 w @ [0, 0])) n = bit (push_bit 16 (ucast w) :: 32 word) n"
    by cases (auto simp: un_be32_def be16_def bit_simps)
qed

lemma un_be32_low: "un_be32 ([0, 0] @ be16 w) = ucast w"
proof (rule bit_word_eqI)
  fix n :: nat assume "n < LENGTH(32)"
  then consider "n < 8" | "8 \<le> n" "n < 16" | "16 \<le> n" "n < 32" by fastforce
  then show "bit (un_be32 ([0, 0] @ be16 w)) n = bit (ucast w :: 32 word) n"
    by cases (auto simp: un_be32_def be16_def bit_simps dest: bit_imp_le_length)
qed

lemma test1_length_bytes:
  "store32 e (ucast (hton16 e w)) =
     (case e of Little \<Rightarrow> be16 w @ [0, 0] | Big \<Rightarrow> [0, 0] @ be16 w)"
  by (cases e)
    (simp_all only: store32_def hton16_def endian.case be32_ucast16 be16_bswap16 rev_append
      rev_rev_ident, simp_all)

text \<open>
  The test client and the server disagree about the header. The server gets the id
  1019, for which no callback is registered; on a little-endian client the length it reads is
  the real length modulo 65536 times 65536, so it waits for bytes that never come (or, from
  32768 bytes on, takes the length for a negative number).
\<close>

theorem test_client_length_misread:
  "\<exists>n. on_head e' junk False 6 ((idle s None)\<lparr>m_data := take 6 (test1_request e msg) @
        drop 6 zero_buf, m_read := None\<rparr>) =
      bind_f (RecvNode junk n 1019) (\<lambda>nd.
        Inr (in_body s (take 6 (test1_request e msg)) nd (scast n), [])) \<and>
     n = (case e of Little \<Rightarrow> of_nat (length msg mod 65536 * 65536)
          | Big \<Rightarrow> of_nat (length msg mod 65536))"
proof -
  let ?w = "of_nat (length msg) :: 16 word"
  let ?L = "un_be32 (store32 e (ucast (hton16 e ?w)))"
  obtain a b c d where abcd: "store32 e (ucast (hton16 e ?w)) = [a, b, c, d]"
    using length_store(2) [of e "ucast (hton16 e ?w)"]
    by (rule length_4_split)
  then have h: "take 6 (test1_request e msg) = be16 1019 @ be32 ?L"
    by (simp add: test1_request_def Let_def store16_hton16 be32_un_be32 ucast_nat_32_16)
  have "complete_read False e' junk Rd_head False (be16 1019 @ be32 ?L) (idle s None) =
      bind_f (RecvNode junk ?L 1019) (\<lambda>nd. Inr (in_body s (be16 1019 @ be32 ?L) nd (scast ?L), []))"
    by (rule complete_head)
  moreover have "mem_write (m_data (idle s None)) 0 (be16 1019 @ be32 ?L) =
      Inr ((be16 1019 @ be32 ?L) @ drop 6 zero_buf)"
    by (simp add: idle_def mem_write_def)
  ultimately have "on_head e' junk False 6 ((idle s None)
      \<lparr>m_data := take 6 (test1_request e msg) @ drop 6 zero_buf, m_read := None\<rparr>) =
      bind_f (RecvNode junk ?L 1019) (\<lambda>nd.
        Inr (in_body s (take 6 (test1_request e msg)) nd (scast ?L), []))"
    by (simp add: complete_read_def h)
  moreover have "?L = (case e of Little \<Rightarrow> of_nat (length msg mod 65536 * 65536)
          | Big \<Rightarrow> of_nat (length msg mod 65536))"
  proof -
    have u: "ucast ?w = (of_nat (length msg mod 65536) :: 32 word)"
      by (simp add: unsigned_of_nat take_bit_eq_mod)
    show ?thesis
      by (cases e) (simp_all only: test1_length_bytes endian.case un_be32_high un_be32_low u,
        simp_all add: push_bit_eq_mult)
  qed
  ultimately show ?thesis by blast
qed

end
