(* ===== verification/LJ_Bits.thy ===== *)
theory LJ_Bits
  imports RS_Prelude
begin

text \<open>
  \<open>LuaJit/include/lj_def.h\<close> and \<open>lj_char.h\<close>: the bit helpers and range checks that the other
  headers of the bundled LuaJIT are written with, and the character classes. Integers are
  words of their width; \<open>lj_ffs\<close> and \<open>lj_fls\<close> are given for non-zero arguments, as the
  compiler builtins they stand for are.
\<close>

section \<open>Rotations and bit scans\<close>

definition lj_rol :: "32 word \<Rightarrow> nat \<Rightarrow> 32 word" where
  "lj_rol x n = push_bit n x OR drop_bit ((32 - n) mod 32) x"

definition lj_ror :: "32 word \<Rightarrow> nat \<Rightarrow> 32 word" where
  "lj_ror x n = push_bit ((32 - n) mod 32) x OR drop_bit n x"

definition lj_ror64 :: "64 word \<Rightarrow> nat \<Rightarrow> 64 word" where
  "lj_ror64 x n = push_bit ((64 - n) mod 64) x OR drop_bit n x"

text \<open>The lowest and the highest set bit, found by scanning \<open>n\<close> positions.\<close>

fun scan_up :: "(nat \<Rightarrow> bool) \<Rightarrow> nat \<Rightarrow> nat \<Rightarrow> nat" where
  "scan_up b i 0 = i"
| "scan_up b i (Suc n) = (if b i then i else scan_up b (Suc i) n)"

fun scan_down :: "(nat \<Rightarrow> bool) \<Rightarrow> nat \<Rightarrow> nat" where
  "scan_down b 0 = 0"
| "scan_down b (Suc n) = (if b n then n else scan_down b n)"

definition lj_ffs :: "32 word \<Rightarrow> nat" where
  "lj_ffs x = scan_up (bit x) 0 32"

definition lj_fls :: "32 word \<Rightarrow> nat" where
  "lj_fls x = scan_down (bit x) 32"

definition lj_ffs64 :: "64 word \<Rightarrow> nat" where
  "lj_ffs64 x = scan_up (bit x) 0 64"

definition lj_fls64 :: "64 word \<Rightarrow> nat" where
  "lj_fls64 x = scan_down (bit x) 64"

lemma scan_up_first:
  "k < i + n \<Longrightarrow> i \<le> k \<Longrightarrow> b k \<Longrightarrow> b (scan_up b i n) \<and> scan_up b i n \<le> k \<and>
     (\<forall>j. i \<le> j \<longrightarrow> j < scan_up b i n \<longrightarrow> \<not> b j)"
proof (induction n arbitrary: i)
  case (Suc n)
  show ?case
  proof (cases "b i")
    case False
    then have "Suc i \<le> k" using Suc.prems by (metis le_neq_implies_less Suc_leI)
    moreover have "k < Suc i + n" using Suc.prems by simp
    ultimately show ?thesis using Suc.IH [of "Suc i"] Suc.prems(3) False
      by (auto simp: Suc_le_eq) (metis le_neq_implies_less)
  qed (use Suc.prems in auto)
qed simp

lemma scan_down_last:
  "k < n \<Longrightarrow> b k \<Longrightarrow> b (scan_down b n) \<and> k \<le> scan_down b n \<and> scan_down b n < n \<and>
     (\<forall>j. scan_down b n < j \<longrightarrow> j < n \<longrightarrow> \<not> b j)"
proof (induction n)
  case (Suc n)
  show ?case
  proof (cases "b n")
    case False
    then have "k < n" using Suc.prems by (metis less_antisym)
    then show ?thesis using Suc.IH Suc.prems False by (auto simp: less_Suc_eq)
  qed (use Suc.prems in auto)
qed simp

lemma bit_lt [dest]:
  "bit (x :: 32 word) k \<Longrightarrow> k < 32" "bit (y :: 64 word) k \<Longrightarrow> k < 64"
  by (auto dest: bit_imp_le_length)

lemma nonzero_bit64: "x \<noteq> 0 \<Longrightarrow> \<exists>k<64. bit (x :: 64 word) k"
  using bit_word_eqI [of x 0] by auto

lemma nonzero_bit32: "x \<noteq> 0 \<Longrightarrow> \<exists>k<32. bit (x :: 32 word) k"
  using bit_word_eqI [of x 0] by auto

lemma lj_ffs64_first:
  "x \<noteq> 0 \<Longrightarrow> bit x (lj_ffs64 x) \<and> lj_ffs64 x < 64 \<and> (\<forall>j < lj_ffs64 x. \<not> bit x j)"
  using nonzero_bit64 [of x] scan_up_first [of _ 0 64 "bit x"]
  by (fastforce simp: lj_ffs64_def)

lemma lj_fls64_last:
  "x \<noteq> 0 \<Longrightarrow> bit x (lj_fls64 x) \<and> lj_fls64 x < 64 \<and> (\<forall>j > lj_fls64 x. \<not> bit x j)"
  using nonzero_bit64 [of x] scan_down_last [of _ 64 "bit x"] bit_lt(2) [of x]
  unfolding lj_fls64_def by blast

lemma lj_fls_last:
  "x \<noteq> 0 \<Longrightarrow> bit x (lj_fls x) \<and> lj_fls x < 32 \<and> (\<forall>j > lj_fls x. \<not> bit x j)"
  using nonzero_bit32 [of x] scan_down_last [of _ 32 "bit x"] bit_lt(1) [of x]
  unfolding lj_fls_def by blast

text \<open>Rotations permute the bits, and one undoes the other.\<close>

lemma bit_lj_ror64: "n < 64 \<Longrightarrow> bit (lj_ror64 x n) k \<longleftrightarrow> k < 64 \<and> bit x ((k + n) mod 64)"
proof -
  assume n: "n < 64"
  show ?thesis
  proof (cases "n = 0")
    case True
    then show ?thesis using bit_lt(2) [of x k] by (cases "k < 64") (auto simp: lj_ror64_def)
  next
    case False
    then have m: "(64 - n) mod 64 = 64 - n" using n by simp
    show ?thesis
    proof (cases "k < 64 - n")
      case True
      then show ?thesis by (auto simp: lj_ror64_def m bit_simps add.commute [of n])
    next
      case ge: False
      then have "(k + n) mod 64 = k - (64 - n)" if "k < 64"
        using that n ge by (subst le_mod_geq) auto
      moreover have "\<not> bit x (k + n)" using ge n by (auto dest!: bit_lt)
      ultimately show ?thesis using ge by (auto simp: lj_ror64_def m bit_simps add.commute)
    qed
  qed
qed

lemma small_word_bits:
  assumes "unat (w :: 32 word) < 2 ^ k" "bit w n"
  shows "n < k"
proof (rule ccontr)
  assume "\<not> n < k"
  have "take_bit k (unat w) = unat w" using assms(1) by (simp add: take_bit_nat_eq_self_iff)
  then have "\<not> bit (unat w) n" using \<open>\<not> n < k\<close> by (metis bit_take_bit_iff)
  then show False using assms(2) by (auto simp: bit_unsigned_iff dest: bit_lt)
qed

lemma bit_int_128 [simp]: "bit (128 :: int) n \<longleftrightarrow> n = 7"
  using bit_exp_iff [of 7 n, where 'a = int] by auto

section \<open>Range checks and the Bloom filter\<close>

definition checki8 :: "int \<Rightarrow> bool" where
  "checki8 x \<longleftrightarrow> x = sint (word_of_int x :: 8 word)"

definition checku8 :: "int \<Rightarrow> bool" where
  "checku8 x \<longleftrightarrow> x = uint (word_of_int x :: 8 word)"

definition checki16 :: "int \<Rightarrow> bool" where
  "checki16 x \<longleftrightarrow> x = sint (word_of_int x :: 16 word)"

definition checku16 :: "int \<Rightarrow> bool" where
  "checku16 x \<longleftrightarrow> x = uint (word_of_int x :: 16 word)"

definition checki32 :: "int \<Rightarrow> bool" where
  "checki32 x \<longleftrightarrow> x = sint (word_of_int x :: 32 word)"

definition checku32 :: "int \<Rightarrow> bool" where
  "checku32 x \<longleftrightarrow> x = uint (word_of_int x :: 32 word)"

definition checkptr31 :: "64 word \<Rightarrow> bool" where
  "checkptr31 x \<longleftrightarrow> drop_bit 31 x = 0"

definition checkptr47 :: "64 word \<Rightarrow> bool" where
  "checkptr47 x \<longleftrightarrow> drop_bit 47 x = 0"

definition bloombit :: "64 word \<Rightarrow> 64 word" where
  "bloombit x = push_bit (unat (x AND 63)) 1"

definition bloomset :: "64 word \<Rightarrow> 64 word \<Rightarrow> 64 word" where
  "bloomset b x = b OR bloombit x"

definition bloomtest :: "64 word \<Rightarrow> 64 word \<Rightarrow> 64 word" where
  "bloomtest b x = b AND bloombit x"

lemma checki8_range: "checki8 x \<longleftrightarrow> - 128 \<le> x \<and> x < 128"
  by (auto simp: checki8_def signed_of_int signed_take_bit_int_eq_self_iff eq_commute [of x])

lemma checku8_range: "checku8 x \<longleftrightarrow> 0 \<le> x \<and> x < 256"
  by (auto simp: checku8_def unsigned_of_int take_bit_int_eq_self_iff eq_commute [of x])

lemma checki16_range: "checki16 x \<longleftrightarrow> - 32768 \<le> x \<and> x < 32768"
  by (auto simp: checki16_def signed_of_int signed_take_bit_int_eq_self_iff eq_commute [of x])

lemma checku16_range: "checku16 x \<longleftrightarrow> 0 \<le> x \<and> x < 65536"
  by (auto simp: checku16_def unsigned_of_int take_bit_int_eq_self_iff eq_commute [of x])

lemma checki32_range: "checki32 x \<longleftrightarrow> - (2 ^ 31) \<le> x \<and> x < 2 ^ 31"
  by (auto simp: checki32_def signed_of_int signed_take_bit_int_eq_self_iff eq_commute [of x])

lemma checku32_range: "checku32 x \<longleftrightarrow> 0 \<le> x \<and> x < 2 ^ 32"
  by (auto simp: checku32_def unsigned_of_int take_bit_int_eq_self_iff eq_commute [of x])

lemma word_unat_and_63: "unat (y AND 63 :: 64 word) < 64"
proof -
  have "y AND 63 \<le> 63" by (rule word_and_le1)
  then have "unat (y AND 63) \<le> unat (63 :: 64 word)" by (simp only: word_le_nat_alt)
  then show ?thesis by simp
qed

text \<open>The filter has no false negatives: what has been set tests non-zero ever after.\<close>

lemma bloomtest_set: "y \<in> set xs \<Longrightarrow> bloomtest (fold (\<lambda>x b. bloomset b x) xs b) y \<noteq> 0"
proof (induction xs arbitrary: b)
  case (Cons x xs)
  have keep: "bit b i \<Longrightarrow> bit (fold (\<lambda>x b. bloomset b x) zs b) i" for zs and b :: "64 word" and i
    by (induction zs arbitrary: b) (auto simp: bloomset_def bit_simps)
  have n: "unat (y AND 63) < 64"
    by (rule word_unat_and_63)
  show ?case
  proof (cases "y \<in> set xs")
    case False
    with Cons.prems have "x = y" by simp
    moreover have "bit (bloombit y) (unat (y AND 63))"
      using n by (simp add: bloombit_def bit_simps)
    ultimately have "bit (fold (\<lambda>x b. bloomset b x) (x # xs) b) (unat (y AND 63))"
      using keep by (simp add: bloomset_def bit_or_iff)
    then have "bit (bloomtest (fold (\<lambda>x b. bloomset b x) (x # xs) b) y) (unat (y AND 63))"
      using \<open>bit (bloombit y) _\<close> by (simp add: bloomtest_def bit_and_iff)
    then show ?thesis by auto
  qed (use Cons in auto)
qed simp

section \<open>Character classes\<close>

text \<open>
  \<open>lj_char_bits\<close> is a table of another file, indexed from -1: a parameter. What the case
  conversions rely on is that it marks the letters as lower and upper case.
\<close>

definition LJ_CHAR_UPPER :: "8 word" where "LJ_CHAR_UPPER = 0x20"

definition LJ_CHAR_LOWER :: "8 word" where "LJ_CHAR_LOWER = 0x40"

definition lj_char_isa :: "(int \<Rightarrow> 8 word) \<Rightarrow> int \<Rightarrow> 8 word \<Rightarrow> 8 word" where
  "lj_char_isa bits c t = bits (c + 1) AND t"

definition lj_char_toupper :: "(int \<Rightarrow> 8 word) \<Rightarrow> int \<Rightarrow> int" where
  "lj_char_toupper bits c = c - uint (drop_bit 1 (lj_char_isa bits c LJ_CHAR_LOWER))"

definition lj_char_tolower :: "(int \<Rightarrow> 8 word) \<Rightarrow> int \<Rightarrow> int" where
  "lj_char_tolower bits c = c + uint (lj_char_isa bits c LJ_CHAR_UPPER)"

definition ascii_letters :: "(int \<Rightarrow> 8 word) \<Rightarrow> bool" where
  "ascii_letters bits \<longleftrightarrow>
     (\<forall>c. (lj_char_isa bits c LJ_CHAR_LOWER = (if 97 \<le> c \<and> c \<le> 122 then LJ_CHAR_LOWER else 0)) \<and>
          (lj_char_isa bits c LJ_CHAR_UPPER = (if 65 \<le> c \<and> c \<le> 90 then LJ_CHAR_UPPER else 0)))"

lemma char_case:
  assumes "ascii_letters bits"
  shows "lj_char_toupper bits c = (if 97 \<le> c \<and> c \<le> 122 then c - 32 else c)"
    and "lj_char_tolower bits c = (if 65 \<le> c \<and> c \<le> 90 then c + 32 else c)"
    and "97 \<le> c \<Longrightarrow> c \<le> 122 \<Longrightarrow> lj_char_tolower bits (lj_char_toupper bits c) = c"
proof -
  have l: "lj_char_isa bits c LJ_CHAR_LOWER = (if 97 \<le> c \<and> c \<le> 122 then LJ_CHAR_LOWER else 0)"
    and u: "lj_char_isa bits c LJ_CHAR_UPPER = (if 65 \<le> c \<and> c \<le> 90 then LJ_CHAR_UPPER else 0)" for c
    using assms by (auto simp: ascii_letters_def)
  show up: "lj_char_toupper bits c = (if 97 \<le> c \<and> c \<le> 122 then c - 32 else c)"
    unfolding lj_char_toupper_def l by (simp add: LJ_CHAR_LOWER_def)
  show "lj_char_tolower bits c = (if 65 \<le> c \<and> c \<le> 90 then c + 32 else c)"
    unfolding lj_char_tolower_def u by (simp add: LJ_CHAR_UPPER_def)
  show "97 \<le> c \<Longrightarrow> c \<le> 122 \<Longrightarrow> lj_char_tolower bits (lj_char_toupper bits c) = c"
    unfolding up lj_char_tolower_def u by (simp add: LJ_CHAR_UPPER_def)
qed

end
