(* ===== verification/LJ_Bytecode.thy ===== *)
theory LJ_Bytecode
  imports LJ_Bits
begin

text \<open>
  \<open>LuaJit/include/lj_bc.h\<close>: the 32-bit bytecode instructions, their fields, the table of the
  opcodes with their operand modes, and the packed mode word of an opcode. The configuration
  is the one of the bundled library: FFI built in, so the metamethods include \<open>new\<close>,
  \<open>pairs\<close> and \<open>ipairs\<close>.
\<close>

section \<open>Instruction fields\<close>

type_synonym BCIns = "32 word"

definition BCBIAS_J :: int where "BCBIAS_J = 0x8000"

definition bc_op :: "BCIns \<Rightarrow> 32 word" where
  "bc_op i = i AND 0xff"

definition bc_a :: "BCIns \<Rightarrow> 32 word" where
  "bc_a i = drop_bit 8 i AND 0xff"

definition bc_b :: "BCIns \<Rightarrow> 32 word" where
  "bc_b i = drop_bit 24 i"

definition bc_c :: "BCIns \<Rightarrow> 32 word" where
  "bc_c i = drop_bit 16 i AND 0xff"

definition bc_d :: "BCIns \<Rightarrow> 32 word" where
  "bc_d i = drop_bit 16 i"

definition bc_j :: "BCIns \<Rightarrow> int" where
  "bc_j i = uint (bc_d i) - BCBIAS_J"

text \<open>Setting a field writes one byte, or one half word, of the instruction in host order.\<close>

definition setbc_byte :: "endian \<Rightarrow> BCIns \<Rightarrow> 32 word \<Rightarrow> nat \<Rightarrow> BCIns" where
  "setbc_byte e p x ofs =
     load32 e ((store32 e p)[(case e of Little \<Rightarrow> ofs | Big \<Rightarrow> 3 - ofs) := ucast x])"

definition setbc_op :: "endian \<Rightarrow> BCIns \<Rightarrow> 32 word \<Rightarrow> BCIns" where
  "setbc_op e p x = setbc_byte e p x 0"

definition setbc_a :: "endian \<Rightarrow> BCIns \<Rightarrow> 32 word \<Rightarrow> BCIns" where
  "setbc_a e p x = setbc_byte e p x 1"

definition setbc_b :: "endian \<Rightarrow> BCIns \<Rightarrow> 32 word \<Rightarrow> BCIns" where
  "setbc_b e p x = setbc_byte e p x 3"

definition setbc_c :: "endian \<Rightarrow> BCIns \<Rightarrow> 32 word \<Rightarrow> BCIns" where
  "setbc_c e p x = setbc_byte e p x 2"

definition setbc_d :: "endian \<Rightarrow> BCIns \<Rightarrow> 32 word \<Rightarrow> BCIns" where
  "setbc_d e p x =
     (let bs = store32 e p; h = (case e of Little \<Rightarrow> 1 | Big \<Rightarrow> 0)
      in load32 e (take (2 * h) bs @ store16 e (ucast x) @ drop (2 * h + 2) bs))"

definition setbc_j :: "endian \<Rightarrow> BCIns \<Rightarrow> int \<Rightarrow> BCIns" where
  "setbc_j e p x = setbc_d e p (word_of_int (x + BCBIAS_J))"

definition BCINS_ABC :: "32 word \<Rightarrow> 32 word \<Rightarrow> 32 word \<Rightarrow> 32 word \<Rightarrow> BCIns" where
  "BCINS_ABC o' a b c = o' OR push_bit 8 a OR push_bit 24 b OR push_bit 16 c"

definition BCINS_AD :: "32 word \<Rightarrow> 32 word \<Rightarrow> 32 word \<Rightarrow> BCIns" where
  "BCINS_AD o' a d = o' OR push_bit 8 a OR push_bit 16 d"

definition BCINS_AJ :: "32 word \<Rightarrow> 32 word \<Rightarrow> int \<Rightarrow> BCIns" where
  "BCINS_AJ o' a j = BCINS_AD o' a (word_of_int (j + BCBIAS_J))"

section \<open>The opcodes\<close>

datatype BCMode = BCMnone | BCMdst | BCMbase | BCMvar | BCMrbase | BCMuv
  | BCMlit | BCMlits | BCMpri | BCMnum | BCMstr | BCMtab | BCMfunc | BCMjump | BCMcdata

datatype MMS = MM_index | MM_newindex | MM_gc | MM_mode | MM_eq | MM_len
  | MM_lt | MM_le | MM_concat | MM_call
  | MM_add | MM_sub | MM_mul | MM_div | MM_mod | MM_pow | MM_unm
  | MM_metatable | MM_tostring | MM_new | MM_pairs | MM_ipairs | MM__MAX

type_synonym bc_row = "string \<times> BCMode \<times> BCMode \<times> BCMode \<times> MMS"

definition BCDEF :: "bc_row list" where
  "BCDEF =
    [(''ISLT'', BCMvar, BCMnone, BCMvar, MM_lt),
    (''ISGE'', BCMvar, BCMnone, BCMvar, MM_lt),
    (''ISLE'', BCMvar, BCMnone, BCMvar, MM_le),
    (''ISGT'', BCMvar, BCMnone, BCMvar, MM_le),
    (''ISEQV'', BCMvar, BCMnone, BCMvar, MM_eq),
    (''ISNEV'', BCMvar, BCMnone, BCMvar, MM_eq),
    (''ISEQS'', BCMvar, BCMnone, BCMstr, MM_eq),
    (''ISNES'', BCMvar, BCMnone, BCMstr, MM_eq),
    (''ISEQN'', BCMvar, BCMnone, BCMnum, MM_eq),
    (''ISNEN'', BCMvar, BCMnone, BCMnum, MM_eq),
    (''ISEQP'', BCMvar, BCMnone, BCMpri, MM_eq),
    (''ISNEP'', BCMvar, BCMnone, BCMpri, MM_eq),
    (''ISTC'', BCMdst, BCMnone, BCMvar, MM__MAX),
    (''ISFC'', BCMdst, BCMnone, BCMvar, MM__MAX),
    (''IST'', BCMnone, BCMnone, BCMvar, MM__MAX),
    (''ISF'', BCMnone, BCMnone, BCMvar, MM__MAX),
    (''ISTYPE'', BCMvar, BCMnone, BCMlit, MM__MAX),
    (''ISNUM'', BCMvar, BCMnone, BCMlit, MM__MAX),
    (''MOV'', BCMdst, BCMnone, BCMvar, MM__MAX),
    (''NOT'', BCMdst, BCMnone, BCMvar, MM__MAX),
    (''UNM'', BCMdst, BCMnone, BCMvar, MM_unm),
    (''LEN'', BCMdst, BCMnone, BCMvar, MM_len),
    (''ADDVN'', BCMdst, BCMvar, BCMnum, MM_add),
    (''SUBVN'', BCMdst, BCMvar, BCMnum, MM_sub),
    (''MULVN'', BCMdst, BCMvar, BCMnum, MM_mul),
    (''DIVVN'', BCMdst, BCMvar, BCMnum, MM_div),
    (''MODVN'', BCMdst, BCMvar, BCMnum, MM_mod),
    (''ADDNV'', BCMdst, BCMvar, BCMnum, MM_add),
    (''SUBNV'', BCMdst, BCMvar, BCMnum, MM_sub),
    (''MULNV'', BCMdst, BCMvar, BCMnum, MM_mul),
    (''DIVNV'', BCMdst, BCMvar, BCMnum, MM_div),
    (''MODNV'', BCMdst, BCMvar, BCMnum, MM_mod),
    (''ADDVV'', BCMdst, BCMvar, BCMvar, MM_add),
    (''SUBVV'', BCMdst, BCMvar, BCMvar, MM_sub),
    (''MULVV'', BCMdst, BCMvar, BCMvar, MM_mul),
    (''DIVVV'', BCMdst, BCMvar, BCMvar, MM_div),
    (''MODVV'', BCMdst, BCMvar, BCMvar, MM_mod),
    (''POW'', BCMdst, BCMvar, BCMvar, MM_pow),
    (''CAT'', BCMdst, BCMrbase, BCMrbase, MM_concat),
    (''KSTR'', BCMdst, BCMnone, BCMstr, MM__MAX),
    (''KCDATA'', BCMdst, BCMnone, BCMcdata, MM__MAX),
    (''KSHORT'', BCMdst, BCMnone, BCMlits, MM__MAX),
    (''KNUM'', BCMdst, BCMnone, BCMnum, MM__MAX),
    (''KPRI'', BCMdst, BCMnone, BCMpri, MM__MAX),
    (''KNIL'', BCMbase, BCMnone, BCMbase, MM__MAX),
    (''UGET'', BCMdst, BCMnone, BCMuv, MM__MAX),
    (''USETV'', BCMuv, BCMnone, BCMvar, MM__MAX),
    (''USETS'', BCMuv, BCMnone, BCMstr, MM__MAX),
    (''USETN'', BCMuv, BCMnone, BCMnum, MM__MAX),
    (''USETP'', BCMuv, BCMnone, BCMpri, MM__MAX),
    (''UCLO'', BCMrbase, BCMnone, BCMjump, MM__MAX),
    (''FNEW'', BCMdst, BCMnone, BCMfunc, MM_gc),
    (''TNEW'', BCMdst, BCMnone, BCMlit, MM_gc),
    (''TDUP'', BCMdst, BCMnone, BCMtab, MM_gc),
    (''GGET'', BCMdst, BCMnone, BCMstr, MM_index),
    (''GSET'', BCMvar, BCMnone, BCMstr, MM_newindex),
    (''TGETV'', BCMdst, BCMvar, BCMvar, MM_index),
    (''TGETS'', BCMdst, BCMvar, BCMstr, MM_index),
    (''TGETB'', BCMdst, BCMvar, BCMlit, MM_index),
    (''TGETR'', BCMdst, BCMvar, BCMvar, MM_index),
    (''TSETV'', BCMvar, BCMvar, BCMvar, MM_newindex),
    (''TSETS'', BCMvar, BCMvar, BCMstr, MM_newindex),
    (''TSETB'', BCMvar, BCMvar, BCMlit, MM_newindex),
    (''TSETM'', BCMbase, BCMnone, BCMnum, MM_newindex),
    (''TSETR'', BCMvar, BCMvar, BCMvar, MM_newindex),
    (''CALLM'', BCMbase, BCMlit, BCMlit, MM_call),
    (''CALL'', BCMbase, BCMlit, BCMlit, MM_call),
    (''CALLMT'', BCMbase, BCMnone, BCMlit, MM_call),
    (''CALLT'', BCMbase, BCMnone, BCMlit, MM_call),
    (''ITERC'', BCMbase, BCMlit, BCMlit, MM_call),
    (''ITERN'', BCMbase, BCMlit, BCMlit, MM_call),
    (''VARG'', BCMbase, BCMlit, BCMlit, MM__MAX),
    (''ISNEXT'', BCMbase, BCMnone, BCMjump, MM__MAX),
    (''RETM'', BCMbase, BCMnone, BCMlit, MM__MAX),
    (''RET'', BCMrbase, BCMnone, BCMlit, MM__MAX),
    (''RET0'', BCMrbase, BCMnone, BCMlit, MM__MAX),
    (''RET1'', BCMrbase, BCMnone, BCMlit, MM__MAX),
    (''FORI'', BCMbase, BCMnone, BCMjump, MM__MAX),
    (''JFORI'', BCMbase, BCMnone, BCMjump, MM__MAX),
    (''FORL'', BCMbase, BCMnone, BCMjump, MM__MAX),
    (''IFORL'', BCMbase, BCMnone, BCMjump, MM__MAX),
    (''JFORL'', BCMbase, BCMnone, BCMlit, MM__MAX),
    (''ITERL'', BCMbase, BCMnone, BCMjump, MM__MAX),
    (''IITERL'', BCMbase, BCMnone, BCMjump, MM__MAX),
    (''JITERL'', BCMbase, BCMnone, BCMlit, MM__MAX),
    (''LOOP'', BCMrbase, BCMnone, BCMjump, MM__MAX),
    (''ILOOP'', BCMrbase, BCMnone, BCMjump, MM__MAX),
    (''JLOOP'', BCMrbase, BCMnone, BCMlit, MM__MAX),
    (''JMP'', BCMrbase, BCMnone, BCMjump, MM__MAX),
    (''FUNCF'', BCMrbase, BCMnone, BCMnone, MM__MAX),
    (''IFUNCF'', BCMrbase, BCMnone, BCMnone, MM__MAX),
    (''JFUNCF'', BCMrbase, BCMnone, BCMlit, MM__MAX),
    (''FUNCV'', BCMrbase, BCMnone, BCMnone, MM__MAX),
    (''IFUNCV'', BCMrbase, BCMnone, BCMnone, MM__MAX),
    (''JFUNCV'', BCMrbase, BCMnone, BCMlit, MM__MAX),
    (''FUNCC'', BCMrbase, BCMnone, BCMnone, MM__MAX),
    (''FUNCCW'', BCMrbase, BCMnone, BCMnone, MM__MAX)]"

definition BC :: "string \<Rightarrow> nat" where
  "BC name = length (takeWhile (\<lambda>r. fst r \<noteq> name) BCDEF)"

definition BC__MAX :: nat where "BC__MAX = length BCDEF"

fun bcm_num :: "BCMode \<Rightarrow> nat" where
  "bcm_num BCMnone = 0" | "bcm_num BCMdst = 1" | "bcm_num BCMbase = 2" | "bcm_num BCMvar = 3"
| "bcm_num BCMrbase = 4" | "bcm_num BCMuv = 5" | "bcm_num BCMlit = 6" | "bcm_num BCMlits = 7"
| "bcm_num BCMpri = 8" | "bcm_num BCMnum = 9" | "bcm_num BCMstr = 10" | "bcm_num BCMtab = 11"
| "bcm_num BCMfunc = 12" | "bcm_num BCMjump = 13" | "bcm_num BCMcdata = 14"

fun mm_num :: "MMS \<Rightarrow> nat" where
  "mm_num MM_index = 0" | "mm_num MM_newindex = 1" | "mm_num MM_gc = 2" | "mm_num MM_mode = 3"
| "mm_num MM_eq = 4" | "mm_num MM_len = 5" | "mm_num MM_lt = 6" | "mm_num MM_le = 7"
| "mm_num MM_concat = 8" | "mm_num MM_call = 9" | "mm_num MM_add = 10" | "mm_num MM_sub = 11"
| "mm_num MM_mul = 12" | "mm_num MM_div = 13" | "mm_num MM_mod = 14" | "mm_num MM_pow = 15"
| "mm_num MM_unm = 16" | "mm_num MM_metatable = 17" | "mm_num MM_tostring = 18"
| "mm_num MM_new = 19" | "mm_num MM_pairs = 20" | "mm_num MM_ipairs = 21" | "mm_num MM__MAX = 22"

section \<open>The packed mode words\<close>

definition BCMODE :: "bc_row \<Rightarrow> 16 word" where
  "BCMODE r = (case r of (name, ma, mb, mc, mm) \<Rightarrow>
     of_nat (bcm_num ma) OR push_bit 3 (of_nat (bcm_num mb)) OR push_bit 7 (of_nat (bcm_num mc))
       OR push_bit 11 (of_nat (mm_num mm)))"

definition lj_bc_mode :: "16 word list" where
  "lj_bc_mode = map BCMODE BCDEF"

definition bcmode_a :: "nat \<Rightarrow> 16 word" where
  "bcmode_a op = lj_bc_mode ! op AND 7"

definition bcmode_b :: "nat \<Rightarrow> 16 word" where
  "bcmode_b op = drop_bit 3 (lj_bc_mode ! op) AND 15"

definition bcmode_c :: "nat \<Rightarrow> 16 word" where
  "bcmode_c op = drop_bit 7 (lj_bc_mode ! op) AND 15"

definition bcmode_d :: "nat \<Rightarrow> 16 word" where
  "bcmode_d op = bcmode_c op"

definition bcmode_hasd :: "nat \<Rightarrow> bool" where
  "bcmode_hasd op \<longleftrightarrow> lj_bc_mode ! op AND push_bit 3 15 = push_bit 3 (of_nat (bcm_num BCMnone))"

definition bcmode_mm :: "nat \<Rightarrow> 16 word" where
  "bcmode_mm op = drop_bit 11 (lj_bc_mode ! op)"

definition bc_isret :: "nat \<Rightarrow> bool" where
  "bc_isret op \<longleftrightarrow> op = BC ''RETM'' \<or> op = BC ''RET'' \<or> op = BC ''RET0'' \<or> op = BC ''RET1''"

definition bc_isret_or_tail :: "nat \<Rightarrow> bool" where
  "bc_isret_or_tail op \<longleftrightarrow> op = BC ''CALLMT'' \<or> op = BC ''CALLT'' \<or> bc_isret op"

section \<open>Fields: composing, reading and writing\<close>

lemma bit_masks [simp]:
  "bit (255 :: int) n \<longleftrightarrow> n < 8" "bit (65535 :: int) n \<longleftrightarrow> n < 16"
proof -
  have "(255 :: int) = mask 8" "(65535 :: int) = mask 16" by (simp_all add: mask_eq_exp_minus_1)
  then show "bit (255 :: int) n \<longleftrightarrow> n < 8" "bit (65535 :: int) n \<longleftrightarrow> n < 16"
    by (simp_all only: bit_mask_iff) auto
qed

lemma byte_bit_ge: "8 \<le> n \<Longrightarrow> \<not> bit (b :: byte) n"
  by (auto dest: bit_imp_le_length)

lemma bit_un_be32:
  "bit (un_be32 [a, b, c, d]) n \<longleftrightarrow>
     (if n < 8 then bit d n else if n < 16 then bit c (n - 8)
      else if n < 24 then bit b (n - 16) else n < 32 \<and> bit a (n - 24))"
  by (simp add: un_be32_def bit_simps) (auto simp: byte_bit_ge)

lemma bit_be32:
  "be32 p = [b3, b2, b1, b0] \<Longrightarrow> (bit b0 n \<longleftrightarrow> n < 8 \<and> bit p n) \<and> (bit b1 n \<longleftrightarrow> n < 8 \<and> bit p (8 + n)) \<and>
     (bit b2 n \<longleftrightarrow> n < 8 \<and> bit p (16 + n)) \<and> (bit b3 n \<longleftrightarrow> n < 8 \<and> bit p (24 + n))"
  by (auto simp: be32_def bit_simps)

lemma be32_4: obtains b3 b2 b1 b0 where "be32 p = [b3, b2, b1, b0]"
  by (simp add: be32_def)

lemma bit_setbc_byte:
  assumes "ofs < 4"
  shows "bit (setbc_byte e p x ofs) n \<longleftrightarrow>
    n < 32 \<and> (if 8 * ofs \<le> n \<and> n < 8 * ofs + 8 then bit x (n - 8 * ofs) else bit p n)"
proof -
  obtain b3 b2 b1 b0 where b: "be32 p = [b3, b2, b1, b0]" by (rule be32_4)
  note bs = bit_be32 [OF b]
  from assms consider "ofs = 0" | "ofs = 1" | "ofs = 2" | "ofs = 3" by linarith
  then show ?thesis
  proof cases
    case 1
    then have "setbc_byte e p x ofs = un_be32 [b3, b2, b1, ucast x]"
      by (cases e) (simp_all add: setbc_byte_def store32_def load32_def b)
    then show ?thesis using 1 by (auto simp: bit_un_be32 bs bit_simps split: if_splits)
  next
    case 2
    then have "setbc_byte e p x ofs = un_be32 [b3, b2, ucast x, b0]"
      by (cases e) (simp_all add: setbc_byte_def store32_def load32_def b)
    then show ?thesis using 2 by (auto simp: bit_un_be32 bs bit_simps split: if_splits)
  next
    case 3
    then have "setbc_byte e p x ofs = un_be32 [b3, ucast x, b1, b0]"
      by (cases e) (simp_all add: setbc_byte_def store32_def load32_def b numeral_2_eq_2)
    then show ?thesis using 3 by (auto simp: bit_un_be32 bs bit_simps split: if_splits)
  next
    case 4
    then have "setbc_byte e p x ofs = un_be32 [ucast x, b2, b1, b0]"
      by (cases e) (simp_all add: setbc_byte_def store32_def load32_def b numeral_3_eq_3)
    then show ?thesis using 4 by (auto simp: bit_un_be32 bs bit_simps split: if_splits)
  qed
qed

lemma bit_setbc_d:
  "bit (setbc_d e p x) n \<longleftrightarrow> n < 32 \<and> (if n < 16 then bit p n else bit x (n - 16))"
proof -
  obtain b3 b2 b1 b0 where b: "be32 p = [b3, b2, b1, b0]" by (rule be32_4)
  note bs = bit_be32 [OF b]
  obtain h l where hl: "be16 (ucast x) = [h, l]" by (simp add: be16_def)
  then have bh: "bit l n \<longleftrightarrow> n < 8 \<and> bit x n" "bit h n \<longleftrightarrow> n < 8 \<and> bit x (8 + n)" for n
    by (auto simp: be16_def bit_simps)
  have "setbc_d e p x = un_be32 [h, l, b1, b0]"
    by (cases e) (simp_all add: setbc_d_def store32_def store16_def load32_def b hl)
  then show ?thesis
    by (auto simp: bit_un_be32 bs bh split: if_splits)
qed

text \<open>What the fields of an instruction are, bit by bit.\<close>

lemma bit_fields:
  "bit (bc_op i) n \<longleftrightarrow> n < 8 \<and> bit i n" "bit (bc_a i) n \<longleftrightarrow> n < 8 \<and> bit i (8 + n)"
  "bit (bc_b i) n \<longleftrightarrow> n < 8 \<and> bit i (24 + n)" "bit (bc_c i) n \<longleftrightarrow> n < 8 \<and> bit i (16 + n)"
  "bit (bc_d i) n \<longleftrightarrow> n < 16 \<and> bit i (16 + n)"
  by (auto simp: bc_op_def bc_a_def bc_b_def bc_c_def bc_d_def bit_simps dest: bit_lt)

text \<open>
  Composing an instruction and reading its fields are inverse to each other, in both
  formats: fields that fit come back unchanged, and every instruction is the composition of
  its own fields.
\<close>

theorem bc_fields_roundtrip:
  "(unat op < 256 \<longrightarrow> unat a < 256 \<longrightarrow> unat b < 256 \<longrightarrow> unat c < 256 \<longrightarrow>
      bc_op (BCINS_ABC op a b c) = op \<and> bc_a (BCINS_ABC op a b c) = a \<and>
      bc_b (BCINS_ABC op a b c) = b \<and> bc_c (BCINS_ABC op a b c) = c) \<and>
   (unat op < 256 \<longrightarrow> unat a < 256 \<longrightarrow> unat d < 65536 \<longrightarrow>
      bc_op (BCINS_AD op a d) = op \<and> bc_a (BCINS_AD op a d) = a \<and> bc_d (BCINS_AD op a d) = d) \<and>
   BCINS_ABC (bc_op i) (bc_a i) (bc_b i) (bc_c i) = i \<and> BCINS_AD (bc_op i) (bc_a i) (bc_d i) = i"
proof (intro conjI impI)
  have small: "bit w n \<Longrightarrow> n < 8" "8 \<le> n \<Longrightarrow> \<not> bit w n" "\<not> bit w (8 + n)" "\<not> bit w (16 + n)" "\<not> bit w (24 + n)"
    if "unat w < 256" for w :: "32 word" and n
    using small_word_bits [of w 8 n] small_word_bits [of w 8 "8 + n"]
      small_word_bits [of w 8 "16 + n"] small_word_bits [of w 8 "24 + n"] that by auto
  assume op: "unat op < 256" and a: "unat a < 256"
  { assume b: "unat b < 256" and c: "unat c < 256"
    show "bc_op (BCINS_ABC op a b c) = op" "bc_a (BCINS_ABC op a b c) = a"
      "bc_b (BCINS_ABC op a b c) = b" "bc_c (BCINS_ABC op a b c) = c"
      by (auto intro!: bit_word_eqI simp: bit_fields BCINS_ABC_def bit_simps small [OF op]
          small [OF a] small [OF b] small [OF c]
          dest: small(1) [OF op] small(1) [OF a] small(1) [OF b] small(1) [OF c]) }
  { assume d: "unat d < 65536"
    have small16: "bit d n \<Longrightarrow> n < 16" for n using small_word_bits [of d 16] d by simp
    show "bc_op (BCINS_AD op a d) = op" "bc_a (BCINS_AD op a d) = a" "bc_d (BCINS_AD op a d) = d"
      by (auto intro!: bit_word_eqI simp: bit_fields BCINS_AD_def bit_simps small [OF op]
          small [OF a] dest: small(1) [OF op] small(1) [OF a] small16) }
next
  show "BCINS_ABC (bc_op i) (bc_a i) (bc_b i) (bc_c i) = i"
  proof (rule bit_word_eqI)
    fix n :: nat assume "n < LENGTH(32)"
    then consider "n < 8" | "8 \<le> n" "n < 16" | "16 \<le> n" "n < 24" | "24 \<le> n" "n < 32" by fastforce
    then show "bit (BCINS_ABC (bc_op i) (bc_a i) (bc_b i) (bc_c i)) n = bit i n"
      by cases (auto simp: bit_fields BCINS_ABC_def bit_simps)
  qed
  show "BCINS_AD (bc_op i) (bc_a i) (bc_d i) = i"
  proof (rule bit_word_eqI)
    fix n :: nat assume "n < LENGTH(32)"
    then consider "n < 8" | "8 \<le> n" "n < 16" | "16 \<le> n" "n < 32" by fastforce
    then show "bit (BCINS_AD (bc_op i) (bc_a i) (bc_d i)) n = bit i n"
      by cases (auto simp: bit_fields BCINS_AD_def bit_simps)
  qed
qed

theorem bc_fields_roundtrip_witness:
  "bc_a (BCINS_ABC 10 20 30 40) = 20 \<and> bc_b (BCINS_ABC 10 20 30 40) = 30 \<and>
   bc_d (BCINS_AD 10 20 4000) = 4000"
  using bc_fields_roundtrip [of 10 20 30 40] bc_fields_roundtrip [of 10 20 0 0 4000] by simp

text \<open>
  Patching an operand of an instruction in memory changes that operand only, on hosts
  of either byte order: the field set reads back as the value truncated to its width, the
  others keep theirs, and a jump offset in range reads back as it was set.
\<close>

theorem setbc_changes_one_field:
  "bc_op (setbc_op e p x) = x AND 0xff \<and> bc_a (setbc_op e p x) = bc_a p \<and> bc_d (setbc_op e p x) = bc_d p \<and>
   bc_a (setbc_a e p x) = x AND 0xff \<and> bc_op (setbc_a e p x) = bc_op p \<and> bc_d (setbc_a e p x) = bc_d p \<and>
   bc_b (setbc_b e p x) = x AND 0xff \<and> bc_c (setbc_b e p x) = bc_c p \<and>
   bc_a (setbc_b e p x) = bc_a p \<and> bc_op (setbc_b e p x) = bc_op p \<and>
   bc_c (setbc_c e p x) = x AND 0xff \<and> bc_b (setbc_c e p x) = bc_b p \<and>
   bc_a (setbc_c e p x) = bc_a p \<and> bc_op (setbc_c e p x) = bc_op p \<and>
   bc_d (setbc_d e p x) = x AND 0xffff \<and> bc_a (setbc_d e p x) = bc_a p \<and> bc_op (setbc_d e p x) = bc_op p \<and>
   (- 0x8000 \<le> j \<and> j < 0x8000 \<longrightarrow> bc_j (setbc_j e p j) = j)"
proof -
  have set: "bc_op (setbc_op e p x) = x AND 0xff" "bc_a (setbc_op e p x) = bc_a p"
    "bc_d (setbc_op e p x) = bc_d p"
    "bc_a (setbc_a e p x) = x AND 0xff" "bc_op (setbc_a e p x) = bc_op p" "bc_d (setbc_a e p x) = bc_d p"
    "bc_b (setbc_b e p x) = x AND 0xff" "bc_c (setbc_b e p x) = bc_c p"
    "bc_a (setbc_b e p x) = bc_a p" "bc_op (setbc_b e p x) = bc_op p"
    "bc_c (setbc_c e p x) = x AND 0xff" "bc_b (setbc_c e p x) = bc_b p"
    "bc_a (setbc_c e p x) = bc_a p" "bc_op (setbc_c e p x) = bc_op p"
    by (auto intro!: bit_word_eqI simp: setbc_op_def setbc_a_def setbc_b_def setbc_c_def bit_fields
        bit_setbc_byte bit_simps)
  have d: "bc_d (setbc_d e p x) = x AND 0xffff" "bc_a (setbc_d e p x) = bc_a p"
    "bc_op (setbc_d e p x) = bc_op p" for x
    by (auto intro!: bit_word_eqI simp: bit_fields bit_setbc_d bit_simps)
  have "bc_j (setbc_j e p j) = j" if "- 0x8000 \<le> j \<and> j < 0x8000"
  proof -
    have "uint (word_of_int (j + 0x8000) AND 0xffff :: 32 word) = j + 0x8000"
    proof -
      have "(0xffff :: 32 word) = mask 16" by (simp add: mask_eq_exp_minus_1)
      then have "word_of_int (j + 0x8000) AND 0xffff = (take_bit 16 (word_of_int (j + 0x8000)) :: 32 word)"
        by (simp only: take_bit_eq_mask)
      then show ?thesis
        using that
        by (simp only: unsigned_take_bit_eq unsigned_of_int take_bit_take_bit)
          (simp add: take_bit_int_eq_self)
    qed
    then show ?thesis by (simp add: bc_j_def setbc_j_def d(1) BCBIAS_J_def)
  qed
  with set d show ?thesis by blast
qed

theorem setbc_changes_one_field_witness:
  "bc_j (setbc_j Big 0x12345678 (- 3)) = - 3 \<and> bc_a (setbc_d Big 0x12345678 7) = bc_a 0x12345678"
  using setbc_changes_one_field [of Big "0x12345678" 7 "- 3"] by simp

section \<open>The opcode table\<close>

text \<open>The order of the operand modes, which the packing relies on (\<open>ORDER BCMode\<close>).\<close>

lemma bcm_num_inj: "bcm_num a = bcm_num b \<longleftrightarrow> a = b"
  by (cases a; cases b; simp)

instantiation BCMode :: linorder
begin

definition less_eq_BCMode :: "BCMode \<Rightarrow> BCMode \<Rightarrow> bool" where
  "less_eq_BCMode a b \<longleftrightarrow> bcm_num a \<le> bcm_num b"

definition less_BCMode :: "BCMode \<Rightarrow> BCMode \<Rightarrow> bool" where
  "less_BCMode a b \<longleftrightarrow> bcm_num a < bcm_num b"

instance
  by standard (auto simp: less_eq_BCMode_def less_BCMode_def bcm_num_inj)

end

lemma bit_of_nat16: "k < 2 ^ w \<Longrightarrow> bit (of_nat k :: 16 word) n \<Longrightarrow> n < w"
proof (rule ccontr)
  assume k: "k < 2 ^ w" and b: "bit (of_nat k :: 16 word) n" and n: "\<not> n < w"
  have "take_bit w k = k" using k by (simp add: take_bit_nat_eq_self_iff)
  then have "\<not> bit k n" using n by (metis bit_take_bit_iff)
  with b show False by (simp add: bit_of_nat_iff)
qed

lemma bcm_num_bound: "bcm_num m < 2 ^ 4" "m \<le> BCMuv \<Longrightarrow> bcm_num m < 2 ^ 3"
  by (cases m; simp add: less_eq_BCMode_def)+

lemma mm_num_bound: "mm_num m < 2 ^ 5"
  by (cases m) simp_all

lemma bit_BCMODE:
  assumes "ma \<le> BCMuv"
  shows "bit (BCMODE (name, ma, mb, mc, mm)) n \<longleftrightarrow>
    (if n < 3 then bit (of_nat (bcm_num ma) :: 16 word) n
     else if n < 7 then bit (of_nat (bcm_num mb) :: 16 word) (n - 3)
     else if n < 11 then bit (of_nat (bcm_num mc) :: 16 word) (n - 7)
     else n < 16 \<and> bit (of_nat (mm_num mm) :: 16 word) (n - 11))"
proof -
  note b = bit_of_nat16 [OF bcm_num_bound(2) [OF assms]] bit_of_nat16 [OF bcm_num_bound(1) [of mb]]
    bit_of_nat16 [OF bcm_num_bound(1) [of mc]]
  have "bit (push_bit k w) n \<longleftrightarrow> k \<le> n \<and> n < 16 \<and> bit w (n - k)" for k and w :: "16 word"
    by (auto simp: bit_push_bit_iff dest: bit_imp_le_length)
  then show ?thesis
    using b [of n] b(2) [of "n - 3"] b(3) [of "n - 7"]
    by (simp add: BCMODE_def bit_or_iff) linarith
qed

lemma table_modes: "list_all (\<lambda>(name, ma, mb, mc, mm). ma \<le> BCMuv) BCDEF"
  by (simp add: BCDEF_def less_eq_BCMode_def)

text \<open>
  The packed mode words say what the table says: for every opcode, the accessors get
  back the modes of its operands and its metamethod, \<open>bcmode_hasd\<close> holds exactly for the
  opcodes without a B operand, and the mode of A is at most \<open>BCMuv\<close>, so its three bits are
  enough.
\<close>

theorem bc_mode_table:
  assumes "op < BC__MAX" "BCDEF ! op = (name, ma, mb, mc, mm)"
  shows "bcmode_a op = of_nat (bcm_num ma) \<and> bcmode_b op = of_nat (bcm_num mb) \<and>
    bcmode_c op = of_nat (bcm_num mc) \<and> bcmode_d op = of_nat (bcm_num mc) \<and>
    bcmode_mm op = of_nat (mm_num mm) \<and> (bcmode_hasd op \<longleftrightarrow> mb = BCMnone) \<and> ma \<le> BCMuv"
proof -
  have ma: "ma \<le> BCMuv"
    using table_modes assms by (auto simp: list_all_length BC__MAX_def)
  have w: "lj_bc_mode ! op = BCMODE (name, ma, mb, mc, mm)"
    using assms by (simp add: lj_bc_mode_def BC__MAX_def)
  have m: "(7 :: 16 word) = mask 3" "(15 :: 16 word) = mask 4"
    by (simp_all add: mask_eq_exp_minus_1)
  note bits = bit_BCMODE [OF ma, of name mb mc mm] bit_of_nat16 [OF bcm_num_bound(1)]
    bit_of_nat16 [OF bcm_num_bound(2) [OF ma]] bit_of_nat16 [OF mm_num_bound]
  have b: "bcmode_b op = of_nat (bcm_num mb)"
    unfolding bcmode_b_def w m
    by (rule bit_word_eqI) (use bits(2) in \<open>auto simp: bit_and_iff bit_mask_iff bit_drop_bit_eq bits(1)\<close>)
  have "bcmode_hasd op \<longleftrightarrow> bcmode_b op = 0"
  proof -
    have "lj_bc_mode ! op AND push_bit 3 15 = push_bit 3 (bcmode_b op)"
      unfolding bcmode_b_def m
      by (rule bit_word_eqI) (auto simp: bit_and_iff bit_push_bit_iff bit_drop_bit_eq bit_mask_iff)
    then show ?thesis
      unfolding bcmode_hasd_def b by (cases mb) simp_all
  qed
  moreover have "(of_nat (bcm_num mb) :: 16 word) = 0 \<longleftrightarrow> mb = BCMnone"
    by (cases mb) simp_all
  moreover have "bcmode_a op = of_nat (bcm_num ma)" "bcmode_c op = of_nat (bcm_num mc)"
    "bcmode_mm op = of_nat (mm_num mm)"
    unfolding bcmode_a_def bcmode_c_def bcmode_mm_def w m
    by (rule bit_word_eqI, use bits(2-4) in
        \<open>auto simp: bit_and_iff bit_mask_iff bit_drop_bit_eq bits(1) dest: bit_imp_le_length\<close>)+
  ultimately show ?thesis using b ma by (simp add: bcmode_d_def)
qed

theorem bc_mode_table_witness:
  "bcmode_a 22 = of_nat (bcm_num BCMdst) \<and> bcmode_c 22 = of_nat (bcm_num BCMnum) \<and>
   bcmode_mm 22 = of_nat (mm_num MM_add)"
proof -
  have "(22 :: nat) < BC__MAX" "BCDEF ! 22 = (''ADDVN'', BCMdst, BCMvar, BCMnum, MM_add)"
    by (simp_all add: BC__MAX_def BCDEF_def)
  from bc_mode_table [OF this] show ?thesis by blast
qed

lemma BC_nums:
  "BC ''ISEQV'' = 4"
  "BC ''ISNEV'' = 5"
  "BC ''ISEQS'' = 6"
  "BC ''ISNES'' = 7"
  "BC ''ISEQN'' = 8"
  "BC ''ISNEN'' = 9"
  "BC ''ISEQP'' = 10"
  "BC ''ISNEP'' = 11"
  "BC ''ISLT'' = 0"
  "BC ''ISGE'' = 1"
  "BC ''ISLE'' = 2"
  "BC ''ISGT'' = 3"
  "BC ''IST'' = 14"
  "BC ''ISTC'' = 12"
  "BC ''ISF'' = 15"
  "BC ''ISFC'' = 13"
  "BC ''CALL'' = 66"
  "BC ''CALLT'' = 68"
  "BC ''CALLM'' = 65"
  "BC ''CALLMT'' = 67"
  "BC ''RETM'' = 73"
  "BC ''RET'' = 74"
  "BC ''RET0'' = 75"
  "BC ''RET1'' = 76"
  "BC ''FORL'' = 79"
  "BC ''IFORL'' = 80"
  "BC ''JFORL'' = 81"
  "BC ''ITERL'' = 82"
  "BC ''IITERL'' = 83"
  "BC ''JITERL'' = 84"
  "BC ''LOOP'' = 85"
  "BC ''ILOOP'' = 86"
  "BC ''JLOOP'' = 87"
  "BC ''FUNCF'' = 89"
  "BC ''IFUNCF'' = 90"
  "BC ''JFUNCF'' = 91"
  "BC ''FUNCV'' = 92"
  "BC ''IFUNCV'' = 93"
  "BC ''JFUNCV'' = 94"
  by (simp_all add: BC_def BCDEF_def)

lemma BC__MAX_97: "BC__MAX = 97"
  by (simp add: BC__MAX_def BCDEF_def)

text \<open>
  The numbering of the opcodes has the relations that the interpreter and the compiler
  use: flipping the lowest bit negates a comparison, the I and J variants of a loop or header
  follow it, returns and tail calls are adjacent, and the return tests hold for exactly the
  four returns and the two tail calls.
\<close>

theorem bc_opcode_order:
  "BC ''ISEQV'' + 1 = BC ''ISNEV'' \<and> xor (BC ''ISEQV'') 1 = BC ''ISNEV'' \<and>
   xor (BC ''ISEQS'') 1 = BC ''ISNES'' \<and> xor (BC ''ISEQN'') 1 = BC ''ISNEN'' \<and>
   xor (BC ''ISEQP'') 1 = BC ''ISNEP'' \<and> xor (BC ''ISLT'') 1 = BC ''ISGE'' \<and>
   xor (BC ''ISLE'') 1 = BC ''ISGT'' \<and> xor (BC ''ISLT'') 3 = BC ''ISGT'' \<and>
   int (BC ''IST'') - int (BC ''ISTC'') = int (BC ''ISF'') - int (BC ''ISFC'') \<and>
   int (BC ''CALLT'') - int (BC ''CALL'') = int (BC ''CALLMT'') - int (BC ''CALLM'') \<and>
   BC ''CALLMT'' + 1 = BC ''CALLT'' \<and> BC ''RETM'' + 1 = BC ''RET'' \<and>
   BC ''FORL'' + 1 = BC ''IFORL'' \<and> BC ''FORL'' + 2 = BC ''JFORL'' \<and>
   BC ''ITERL'' + 1 = BC ''IITERL'' \<and> BC ''ITERL'' + 2 = BC ''JITERL'' \<and>
   BC ''LOOP'' + 1 = BC ''ILOOP'' \<and> BC ''LOOP'' + 2 = BC ''JLOOP'' \<and>
   BC ''FUNCF'' + 1 = BC ''IFUNCF'' \<and> BC ''FUNCF'' + 2 = BC ''JFUNCF'' \<and>
   BC ''FUNCV'' + 1 = BC ''IFUNCV'' \<and> BC ''FUNCV'' + 2 = BC ''JFUNCV'' \<and>
   filter bc_isret [0..<BC__MAX] = map BC [''RETM'', ''RET'', ''RET0'', ''RET1''] \<and>
   filter bc_isret_or_tail [0..<BC__MAX] =
     map BC [''CALLMT'', ''CALLT'', ''RETM'', ''RET'', ''RET0'', ''RET1'']"
proof -
  have "filter bc_isret [0..<97] = [73, 74, 75, 76]"
    by (simp add: bc_isret_def BC_nums upt_rec)
  moreover have "filter bc_isret_or_tail [0..<97] = [67, 68, 73, 74, 75, 76]"
    by (simp add: bc_isret_or_tail_def bc_isret_def BC_nums upt_rec)
  ultimately show ?thesis by (simp add: BC_nums BC__MAX_97)
qed

end
