(* ===== verification/LJ_Target.thy ===== *)
theory LJ_Target
  imports LJ_Bits
begin

text \<open>
  \<open>LuaJit/include/lj_target.h\<close>: register numbers with their hint bit, combined register and
  spill slots, register sets as words, and allocation costs. A register set is a word of the
  width of the target (64 bits on ARM64, MIPS and PPC, 32 elsewhere), so the operations are
  polymorphic in the width.
\<close>

section \<open>Registers and spill slots\<close>

definition RID_NONE :: "32 word" where "RID_NONE = 0x80"

definition RID_MASK :: "32 word" where "RID_MASK = 0x7f"

definition RID_INIT :: "32 word" where "RID_INIT = RID_NONE OR RID_MASK"

definition RID_SINK :: "32 word" where "RID_SINK = RID_INIT - 1"

definition RID_SUNK :: "32 word" where "RID_SUNK = RID_INIT - 2"

definition ra_noreg :: "32 word \<Rightarrow> bool" where "ra_noreg r \<longleftrightarrow> r AND RID_NONE \<noteq> 0"

definition ra_hasreg :: "32 word \<Rightarrow> bool" where "ra_hasreg r \<longleftrightarrow> r AND RID_NONE = 0"

definition ra_hashint :: "32 word \<Rightarrow> bool" where "ra_hashint r \<longleftrightarrow> r < RID_SUNK"

definition ra_gethint :: "32 word \<Rightarrow> 32 word" where "ra_gethint r = r AND RID_MASK"

definition ra_sethint :: "32 word \<Rightarrow> 32 word" where
  "ra_sethint r = ucast (ucast (r OR RID_NONE) :: 8 word)"

definition ra_samehint :: "32 word \<Rightarrow> 32 word \<Rightarrow> bool" where
  "ra_samehint r1 r2 \<longleftrightarrow> ra_gethint (r1 XOR r2) = 0"

definition SPS_NONE :: "32 word" where "SPS_NONE = 0"

definition ra_hasspill :: "32 word \<Rightarrow> bool" where "ra_hasspill s \<longleftrightarrow> s \<noteq> SPS_NONE"

definition REGSP :: "32 word \<Rightarrow> 32 word \<Rightarrow> 32 word" where "REGSP r s = r + push_bit 8 s"

definition REGSP_HINT :: "32 word \<Rightarrow> 32 word" where "REGSP_HINT r = r OR RID_NONE"

definition REGSP_INIT :: "32 word" where "REGSP_INIT = REGSP RID_INIT 0"

definition regsp_reg :: "32 word \<Rightarrow> 32 word" where "regsp_reg rs = rs AND 255"

definition regsp_spill :: "32 word \<Rightarrow> 32 word" where "regsp_spill rs = drop_bit 8 rs"

definition regsp_used :: "32 word \<Rightarrow> bool" where
  "regsp_used rs \<longleftrightarrow> rs AND NOT (REGSP RID_MASK 0) \<noteq> REGSP RID_NONE 0"

lemmas rid_defs = RID_NONE_def RID_MASK_def RID_INIT_def RID_SINK_def RID_SUNK_def

text \<open>A register number below 128 survives being stored as a hint, and never looks allocated.\<close>

lemma hint_roundtrip:
  assumes "r < 128"
  shows "ra_gethint (ra_sethint r) = r" and "ra_noreg (ra_sethint r)" and "ra_hasreg r"
proof -
  have "unat r < 2 ^ 7" using assms by (simp add: word_less_nat_alt)
  then have lo: "bit r n \<Longrightarrow> n < 7" for n by (rule small_word_bits)
  have m: "RID_MASK = mask 7" "RID_NONE = push_bit 7 1"
    by (simp_all add: rid_defs mask_eq_exp_minus_1)
  have b: "bit (ra_sethint r) n \<longleftrightarrow> bit r n \<or> n = 7" for n
    unfolding ra_sethint_def m
    by (auto simp: bit_simps dest: lo)
  show "ra_gethint (ra_sethint r) = r"
    unfolding ra_gethint_def m
    by (rule bit_word_eqI) (auto simp: bit_and_iff b bit_mask_iff dest: lo)
  have "bit (ra_sethint r AND RID_NONE) 7"
    unfolding m by (simp add: bit_and_iff b bit_push_bit_iff)
  then show "ra_noreg (ra_sethint r)" by (auto simp: ra_noreg_def)
  show "ra_hasreg r"
    unfolding ra_hasreg_def m
    by (rule bit_word_eqI) (auto simp: bit_and_iff bit_push_bit_iff bit_1_iff dest: lo)
qed

section \<open>Register sets\<close>

definition RID2RSET :: "nat \<Rightarrow> 'a::len word" where "RID2RSET r = push_bit r 1"

definition RSET_EMPTY :: "'a::len word" where "RSET_EMPTY = 0"

definition RSET_RANGE :: "nat \<Rightarrow> nat \<Rightarrow> 'a::len word" where
  "RSET_RANGE lo hi = push_bit lo (RID2RSET (hi - lo) - 1)"

definition rset_test :: "'a::len word \<Rightarrow> nat \<Rightarrow> bool" where
  "rset_test rs r \<longleftrightarrow> drop_bit r rs AND 1 = 1"

definition rset_set :: "'a::len word \<Rightarrow> nat \<Rightarrow> 'a word" where
  "rset_set rs r = rs OR RID2RSET r"

definition rset_clear :: "'a::len word \<Rightarrow> nat \<Rightarrow> 'a word" where
  "rset_clear rs r = rs AND NOT (RID2RSET r)"

definition rset_exclude :: "'a::len word \<Rightarrow> nat \<Rightarrow> 'a word" where
  "rset_exclude rs r = rs AND NOT (RID2RSET r)"

definition rset_picktop :: "'a::len word \<Rightarrow> nat" where
  "rset_picktop rs = scan_down (bit rs) LENGTH('a)"

definition rset_pickbot :: "'a::len word \<Rightarrow> nat" where
  "rset_pickbot rs = scan_up (bit rs) 0 LENGTH('a)"

text \<open>The set a word stands for, and what the operations are on it.\<close>

definition rset_abs :: "'a::len word \<Rightarrow> nat set" where
  "rset_abs rs = {r. bit rs r}"

lemma rset_abs_finite [simp]: "finite (rset_abs rs)"
  by (rule finite_subset [of _ "{..<LENGTH('a)}"]) (auto simp: rset_abs_def dest: bit_imp_le_length)

lemma rset_abs_empty: "rset_abs rs = {} \<longleftrightarrow> rs = RSET_EMPTY"
  by (auto simp: rset_abs_def RSET_EMPTY_def intro!: bit_word_eqI)

lemma rset_abs_single: "rset_abs (RID2RSET r :: 'a::len word) = (if r < LENGTH('a) then {r} else {})"
  by (auto simp: rset_abs_def RID2RSET_def bit_simps)

lemma rset_abs_test: "rset_test rs r \<longleftrightarrow> r \<in> rset_abs rs"
  by (simp add: rset_test_def rset_abs_def and_one_eq odd_iff_mod_2_eq_one [symmetric] bit_iff_odd_drop_bit)

lemma rset_abs_set: "r < LENGTH('a) \<Longrightarrow> rset_abs (rset_set (rs :: 'a::len word) r) = insert r (rset_abs rs)"
  by (auto simp: rset_abs_def rset_set_def RID2RSET_def bit_simps)

lemma rset_abs_clear: "rset_abs (rset_clear rs r) = rset_abs rs - {r}"
  by (auto simp: rset_abs_def rset_clear_def RID2RSET_def bit_simps dest: bit_imp_le_length)

lemma rset_abs_exclude: "rset_abs (rset_exclude rs r) = rset_abs rs - {r}"
  by (auto simp: rset_abs_def rset_exclude_def RID2RSET_def bit_simps dest: bit_imp_le_length)

lemma rset_abs_range:
  assumes "lo \<le> hi" "hi \<le> LENGTH('a)" "hi - lo < LENGTH('a)"
  shows "rset_abs (RSET_RANGE lo hi :: 'a::len word) = {lo..<hi}"
proof -
  have "(RID2RSET (hi - lo) - 1 :: 'a word) = mask (hi - lo)"
    by (simp add: RID2RSET_def mask_eq_exp_minus_1 push_bit_of_1)
  then show ?thesis
    using assms by (auto simp: rset_abs_def RSET_RANGE_def bit_simps)
qed

lemma nonempty_bit: "rs \<noteq> 0 \<Longrightarrow> \<exists>k<LENGTH('a). bit (rs :: 'a::len word) k"
  using bit_word_eqI [of rs 0] by auto

lemma rset_picktop_Max: "rs \<noteq> RSET_EMPTY \<Longrightarrow> rset_picktop rs = Max (rset_abs rs)"
proof -
  assume "rs \<noteq> RSET_EMPTY"
  then obtain k where "k < LENGTH('a)" "bit rs k" using nonempty_bit by (auto simp: RSET_EMPTY_def)
  from scan_down_last [of k "LENGTH('a)" "bit rs", OF this] show ?thesis
    by (intro Max_eqI [symmetric])
      (auto simp: rset_picktop_def rset_abs_def, metis bit_imp_le_length not_le_imp_less)
qed

lemma rset_pickbot_Min: "rs \<noteq> RSET_EMPTY \<Longrightarrow> rset_pickbot rs = Min (rset_abs rs)"
proof -
  assume "rs \<noteq> RSET_EMPTY"
  then obtain k where "k < LENGTH('a)" "bit rs k" using nonempty_bit by (auto simp: RSET_EMPTY_def)
  then have "bit rs (scan_up (bit rs) 0 LENGTH('a)) \<and> (\<forall>j. j < scan_up (bit rs) 0 LENGTH('a) \<longrightarrow> \<not> bit rs j)"
    using scan_up_first [of k 0 "LENGTH('a)" "bit rs"] by simp
  then show ?thesis
    by (intro Min_eqI [symmetric]) (auto simp: rset_pickbot_def rset_abs_def not_le [symmetric])
qed

section \<open>Draining a register set\<close>

text \<open>
  The interface the allocator and the emitters use: test for empty, pick an extreme element,
  clear it. Whatever the representation, the loop that picks and clears until the set is
  empty visits every member exactly once, in order.
\<close>

fun drain :: "('s \<Rightarrow> bool) \<Rightarrow> ('s \<Rightarrow> nat) \<Rightarrow> ('s \<Rightarrow> nat \<Rightarrow> 's) \<Rightarrow> nat \<Rightarrow> 's \<Rightarrow> nat list" where
  "drain emp pick clr 0 s = []"
| "drain emp pick clr (Suc n) s =
     (if emp s then [] else pick s # drain emp pick clr n (clr s (pick s)))"

locale pick_set =
  fixes elems :: "'s \<Rightarrow> nat set" and is_empty :: "'s \<Rightarrow> bool" and pick :: "'s \<Rightarrow> nat"
    and clear :: "'s \<Rightarrow> nat \<Rightarrow> 's"
  assumes elems_finite: "finite (elems s)"
    and empty_elems: "is_empty s \<longleftrightarrow> elems s = {}"
    and pick_max: "elems s \<noteq> {} \<Longrightarrow> pick s = Max (elems s)"
    and elems_clear: "elems (clear s r) = elems s - {r}"
begin

lemma drain_sorted:
  "card (elems s) \<le> n \<Longrightarrow> drain is_empty pick clear n s = rev (sorted_list_of_set (elems s))"
proof (induction n arbitrary: s)
  case 0
  then show ?case using elems_finite [of s] by simp
next
  case (Suc n)
  show ?case
  proof (cases "elems s = {}")
    case False
    let ?m = "Max (elems s)"
    have m: "?m \<in> elems s" using False elems_finite by simp
    have "card (elems (clear s ?m)) \<le> n"
      using Suc.prems m elems_finite [of s] by (simp add: elems_clear)
    moreover have "sorted_list_of_set (elems s) = sorted_list_of_set (elems s - {?m}) @ [?m]"
    proof (rule sorted_distinct_set_unique)
      have "sorted (sorted_list_of_set (elems s - {?m}) @ [?m])"
        using elems_finite [of s] by (simp add: sorted_append)
      then show "sorted (sorted_list_of_set (elems s - {?m}) @ [?m])" .
      show "set (sorted_list_of_set (elems s)) = set (sorted_list_of_set (elems s - {?m}) @ [?m])"
        using m elems_finite [of s] by auto
    qed (use elems_finite [of s] in auto)
    ultimately show ?thesis
      using Suc.IH [of "clear s ?m"] False by (simp add: empty_elems pick_max elems_clear)
  qed (simp add: empty_elems)
qed

end

interpretation rset: pick_set "rset_abs :: 'a::len word \<Rightarrow> nat set" "\<lambda>rs. rs = RSET_EMPTY"
    rset_picktop rset_clear
  by unfold_locales
    (auto simp: rset_abs_empty rset_picktop_Max rset_abs_clear simp flip: rset_abs_empty)

text \<open>
  A register set behaves as the finite set of its registers: the word operations are
  membership, insertion, deletion, interval and greatest or least member, and the loop that
  picks the top register and clears it until the word is zero goes through all of them once,
  from the highest to the lowest.
\<close>

theorem rset_refines_sets:
  fixes rs :: "64 word"
  assumes "r < 64" "lo \<le> hi" "hi \<le> 64" "hi - lo < 64"
  shows "rset_test rs r = (r \<in> rset_abs rs) \<and> rset_abs (rset_set rs r) = insert r (rset_abs rs) \<and>
    rset_abs (rset_clear rs r) = rset_abs rs - {r} \<and>
    rset_abs (RSET_RANGE lo hi :: 64 word) = {lo..<hi} \<and>
    (if rs = 0 then rset_abs rs = {}
     else rset_picktop rs = Max (rset_abs rs) \<and> rset_pickbot rs = Min (rset_abs rs)) \<and>
    drain (\<lambda>rs. rs = RSET_EMPTY) rset_picktop rset_clear 64 rs =
      rev (sorted_list_of_set (rset_abs rs))"
proof -
  have "rset_abs rs \<subseteq> {..<64}" by (auto simp: rset_abs_def)
  then have "card (rset_abs rs) \<le> 64" using card_mono [of "{..<64}" "rset_abs rs"] by simp
  then have "drain (\<lambda>rs. rs = RSET_EMPTY) rset_picktop rset_clear 64 rs =
      rev (sorted_list_of_set (rset_abs rs))"
    by (rule rset.drain_sorted)
  with assms show ?thesis
    by (simp add: rset_abs_test rset_abs_set rset_abs_clear rset_abs_range rset_picktop_Max
        rset_pickbot_Min RSET_EMPTY_def rset_abs_empty)
qed

theorem rset_refines_sets_witness:
  "rset_abs (rset_set (RSET_RANGE 3 6 :: 64 word) 9) = {3, 4, 5, 9} \<and>
   drain (\<lambda>rs. rs = RSET_EMPTY) rset_picktop rset_clear 64 (RSET_RANGE 3 6 :: 64 word) = [5, 4, 3]"
proof -
  have "{3..<6} = {3, 4, 5 :: nat}" by auto
  then show ?thesis
    using rset_refines_sets [of 9 3 6 "RSET_RANGE 3 6"] by (simp add: insert_commute)
qed

section \<open>Allocation costs\<close>

definition REGCOST_PHI_WEIGHT :: "32 word" where "REGCOST_PHI_WEIGHT = 64"

definition IRT_ISPHI :: "32 word" where "IRT_ISPHI = 0x40"

definition REGCOST :: "32 word \<Rightarrow> 32 word \<Rightarrow> 32 word" where
  "REGCOST cost ref = ref + push_bit 16 cost"

definition regcost_ref :: "32 word \<Rightarrow> 16 word" where "regcost_ref rc = ucast rc"

definition REGCOST_T :: "32 word \<Rightarrow> 32 word" where
  "REGCOST_T t = (t AND IRT_ISPHI) * (push_bit 16 REGCOST_PHI_WEIGHT div IRT_ISPHI)"

definition REGCOST_REF_T :: "32 word \<Rightarrow> 32 word \<Rightarrow> 32 word" where
  "REGCOST_REF_T ref t = REGCOST ref ref + REGCOST_T t"

text \<open>
  The reference of a register can be read back from its cost, and among references the
  smaller one is the cheaper to evict: the order of the costs is the order of the
  references plus 64 for a PHI.
\<close>

lemma regcost_ref_back:
  "regcost_ref (REGCOST_REF_T ref t) = ucast ref"
proof -
  have low: "ucast (a + push_bit 16 b + c * 65536) = (ucast a :: 16 word)" for a b c :: "32 word"
  proof transfer
    fix a b c :: int
    have "(a + push_bit 16 b + c * 65536) mod 65536 = a mod 65536"
      by (simp add: push_bit_eq_mult)
    then show "take_bit LENGTH(16) (take_bit LENGTH(32) (a + push_bit 16 b + c * 65536)) =
        take_bit LENGTH(16) (take_bit LENGTH(32) a)"
      by (simp add: take_bit_take_bit) (simp add: take_bit_eq_mod)
  qed
  show ?thesis
    by (simp add: regcost_ref_def REGCOST_REF_T_def REGCOST_def REGCOST_T_def
        REGCOST_PHI_WEIGHT_def IRT_ISPHI_def low)
qed

section \<open>Searching a register set\<close>

text \<open>
  The loops of the emitters over a working set: the registers are tried from the highest down
  until one gives a result, and the set loses a register in each round.
\<close>

fun try_regs :: "(nat \<Rightarrow> 'b option) \<Rightarrow> nat \<Rightarrow> 'a::len word \<Rightarrow> 'b option" where
  "try_regs f 0 work = None"
| "try_regs f (Suc n) work =
     (if work = 0 then None
      else case f (rset_picktop work) of
             Some x \<Rightarrow> Some x
           | None \<Rightarrow> try_regs f n (rset_clear work (rset_picktop work)))"

lemma rset_picktop_in: "work \<noteq> 0 \<Longrightarrow> bit work (rset_picktop work)"
  using rset_picktop_Max [of work] Max_in [of "rset_abs work"] rset_abs_empty [of work]
  by (auto simp: RSET_EMPTY_def rset_abs_def)

lemma try_regs_some: "try_regs f n work = Some x \<Longrightarrow> \<exists>r. bit work r \<and> f r = Some x"
proof (induction n arbitrary: work)
  case (Suc n)
  then have "bit work (rset_picktop work)" using rset_picktop_in by (auto split: if_splits)
  moreover have "bit (rset_clear work k) r \<Longrightarrow> bit work r" for k r
    by (simp add: rset_clear_def bit_simps)
  ultimately show ?case using Suc by (fastforce split: if_splits option.splits)
qed simp

text \<open>With a round for each register of the set, a search that fails has tried them all.\<close>

lemma try_regs_none:
  "try_regs f n work = None \<Longrightarrow> card (rset_abs work) \<le> n \<Longrightarrow> bit work r \<Longrightarrow> f r = None"
proof (induction n arbitrary: work)
  case 0
  then have "rset_abs work = {}" by simp
  with 0 show ?case by (auto simp: rset_abs_def)
next
  case (Suc n)
  let ?t = "rset_picktop work"
  have nz: "work \<noteq> 0" using Suc.prems(3) by auto
  then have t: "?t \<in> rset_abs work" using rset_picktop_in by (simp add: rset_abs_def)
  have f: "f ?t = None" "try_regs f n (rset_clear work ?t) = None"
    using Suc.prems(1) nz by (auto split: option.splits)
  have "card (rset_abs (rset_clear work ?t)) \<le> n"
    using Suc.prems(2) t by (simp add: rset_abs_clear)
  moreover have "r = ?t \<or> bit (rset_clear work ?t) r"
    using Suc.prems(3) rset_abs_clear [of work ?t] by (auto simp: rset_abs_def)
  ultimately show ?case using Suc.IH [OF f(2)] f(1) by blast
qed

end
