(* ===== verification/LJ_Arm64.thy ===== *)
theory LJ_Arm64
  imports LJ_Target
begin

text \<open>
  \<open>LuaJit/include/lj_target_arm64.h\<close>: registers, register sets, instruction fields and the
  opcode words of the ARM64 code generator. The table of \<open>A64Ins\<close> is kept whole; the words
  the emitter uses have definitions of their own, checked against the table.
\<close>

section \<open>Registers\<close>

definition GPRDEF :: "string list" where
  "GPRDEF = [''X0'', ''X1'', ''X2'', ''X3'', ''X4'', ''X5'', ''X6'', ''X7'', ''X8'', ''X9'', ''X10'',
     ''X11'', ''X12'', ''X13'', ''X14'', ''X15'', ''X16'', ''X17'', ''X18'', ''X19'', ''X20'',
     ''X21'', ''X22'', ''X23'', ''X24'', ''X25'', ''X26'', ''X27'', ''X28'', ''FP'', ''LR'', ''SP'']"

definition FPRDEF :: "string list" where
  "FPRDEF = [''D0'', ''D1'', ''D2'', ''D3'', ''D4'', ''D5'', ''D6'', ''D7'', ''D8'', ''D9'', ''D10'',
     ''D11'', ''D12'', ''D13'', ''D14'', ''D15'', ''D16'', ''D17'', ''D18'', ''D19'', ''D20'',
     ''D21'', ''D22'', ''D23'', ''D24'', ''D25'', ''D26'', ''D27'', ''D28'', ''D29'', ''D30'', ''D31'']"

definition RID :: "string \<Rightarrow> nat" where
  "RID name = length (takeWhile (\<lambda>r. r \<noteq> name) (GPRDEF @ FPRDEF))"

definition RID_TMP :: nat where "RID_TMP = RID ''LR''"

definition RID_ZERO :: nat where "RID_ZERO = RID ''SP''"

definition RID_GL :: nat where "RID_GL = RID ''X22''"

definition RID_MIN_GPR :: nat where "RID_MIN_GPR = RID ''X0''"

definition RID_MAX_GPR :: nat where "RID_MAX_GPR = RID ''SP'' + 1"

definition RID_MIN_FPR :: nat where "RID_MIN_FPR = RID_MAX_GPR"

definition RID_MAX_FPR :: nat where "RID_MAX_FPR = RID ''D31'' + 1"

definition RSET_FIXED :: "64 word" where
  "RSET_FIXED = RID2RSET (RID ''X18'') OR RID2RSET (RID ''FP'') OR RID2RSET (RID ''LR'')
     OR RID2RSET (RID ''SP'') OR RID2RSET RID_GL"

definition RSET_GPR :: "64 word" where
  "RSET_GPR = RSET_RANGE RID_MIN_GPR RID_MAX_GPR - RSET_FIXED"

definition RSET_FPR :: "64 word" where
  "RSET_FPR = RSET_RANGE RID_MIN_FPR RID_MAX_FPR"

definition RSET_ALL :: "64 word" where "RSET_ALL = RSET_GPR OR RSET_FPR"

definition RSET_SCRATCH_GPR :: "64 word" where
  "RSET_SCRATCH_GPR = RSET_RANGE (RID ''X0'') (RID ''X17'' + 1)"

definition RSET_SCRATCH_FPR :: "64 word" where
  "RSET_SCRATCH_FPR = RSET_RANGE (RID ''D0'') (RID ''D7'' + 1) OR RSET_RANGE (RID ''D16'') (RID ''D31'' + 1)"

definition RSET_SCRATCH :: "64 word" where
  "RSET_SCRATCH = RSET_SCRATCH_GPR OR RSET_SCRATCH_FPR"

lemma RID_nums:
  "RID ''X0'' = 0" "RID ''X8'' = 8" "RID ''X17'' = 17" "RID ''X18'' = 18" "RID ''X22'' = 22"
  "RID ''FP'' = 29" "RID ''LR'' = 30" "RID ''SP'' = 31" "RID ''D0'' = 32" "RID ''D7'' = 39"
  "RID ''D16'' = 48" "RID ''D31'' = 63"
  by (simp_all add: RID_def GPRDEF_def FPRDEF_def)

lemmas rid_bounds = RID_TMP_def RID_ZERO_def RID_GL_def RID_MIN_GPR_def RID_MAX_GPR_def
  RID_MIN_FPR_def RID_MAX_FPR_def RID_nums

text \<open>
  The allocatable registers are the sixty-four without x18, fp, lr, sp and the register of the
  global state; general-purpose and floating-point registers are apart.
\<close>

lemma rset_values:
  "RSET_GPR = 0x1fbbffff" "RSET_FPR = 0xffffffff00000000" "RSET_GPR AND RSET_FPR = 0"
  "RSET_FIXED AND RSET_ALL = 0" "RSET_SCRATCH_GPR AND NOT RSET_GPR = 0"
  by (simp_all add: RSET_GPR_def RSET_FPR_def RSET_ALL_def RSET_FIXED_def RSET_RANGE_def RID2RSET_def
      RSET_SCRATCH_GPR_def rid_bounds)

section \<open>Spill slots and exit stubs\<close>

definition SPS_FIXED :: int where "SPS_FIXED = 4"

definition SPS_FIRST :: int where "SPS_FIRST = 2"

definition sps_scale :: "int \<Rightarrow> int" where "sps_scale slot = 4 * slot"

definition sps_align :: "int \<Rightarrow> int" where "sps_align slot = (slot - SPS_FIXED + 3) AND NOT 3"

text \<open>
  The stub of an exit: the code of a trace ends in a run of NOPs, three words follow, then one
  word per exit. The code is a list of words; scanning past its end has no meaning.
\<close>

fun exitstub_trace_addr :: "32 word list \<Rightarrow> nat \<Rightarrow> nat \<Rightarrow> nat option" where
  "exitstub_trace_addr [] p exitno = None"
| "exitstub_trace_addr (w # ws) p exitno =
     (if w = 0xd503201f then exitstub_trace_addr ws (p + 1) exitno else Some (p + 3 + exitno))"

lemma exitstub_skips_nops:
  "w \<noteq> 0xd503201f \<Longrightarrow>
   exitstub_trace_addr (replicate k 0xd503201f @ w # ws) p exitno = Some (p + k + 3 + exitno)"
  by (induction k arbitrary: p) simp_all

section \<open>Instruction fields\<close>

definition A64F_D :: "nat \<Rightarrow> 32 word" where "A64F_D r = of_nat r"

definition A64F_N :: "nat \<Rightarrow> 32 word" where "A64F_N r = push_bit 5 (of_nat r)"

definition A64F_A :: "nat \<Rightarrow> 32 word" where "A64F_A r = push_bit 10 (of_nat r)"

definition A64F_M :: "nat \<Rightarrow> 32 word" where "A64F_M r = push_bit 16 (of_nat r)"

definition A64F_IMMS :: "32 word \<Rightarrow> 32 word" where "A64F_IMMS x = push_bit 10 x"

definition A64F_IMMR :: "32 word \<Rightarrow> 32 word" where "A64F_IMMR x = push_bit 16 x"

definition A64F_U16 :: "32 word \<Rightarrow> 32 word" where "A64F_U16 x = push_bit 5 x"

definition A64F_U12 :: "32 word \<Rightarrow> 32 word" where "A64F_U12 x = push_bit 10 x"

definition A64F_S26 :: "int \<Rightarrow> 32 word" where "A64F_S26 x = word_of_int x AND 0x03ffffff"

definition A64F_S19 :: "int \<Rightarrow> 32 word" where "A64F_S19 x = push_bit 5 (word_of_int x AND 0x7ffff)"

definition A64F_S14 :: "int \<Rightarrow> 32 word" where "A64F_S14 x = push_bit 5 (word_of_int x AND 0x3fff)"

definition A64F_S9 :: "32 word \<Rightarrow> 32 word" where "A64F_S9 x = push_bit 12 x"

definition A64F_BIT :: "32 word \<Rightarrow> 32 word" where "A64F_BIT x = push_bit 19 x"

definition A64F_FP8 :: "32 word \<Rightarrow> 32 word" where "A64F_FP8 x = push_bit 13 x"

definition A64F_CC :: "32 word \<Rightarrow> 32 word" where "A64F_CC cc = push_bit 12 cc"

definition A64F_LSL16 :: "nat \<Rightarrow> 32 word" where "A64F_LSL16 x = push_bit 21 (of_nat (x div 16))"

lemmas a64f = A64F_D_def A64F_N_def A64F_A_def A64F_M_def A64F_IMMS_def A64F_IMMR_def A64F_U16_def
  A64F_U12_def A64F_S26_def A64F_S19_def A64F_S14_def A64F_S9_def A64F_BIT_def A64F_FP8_def
  A64F_CC_def A64F_LSL16_def

text \<open>\<open>x\<close> fits a signed field of \<open>b\<close> bits; the shift of a negative number is arithmetic.\<close>

definition A64F_S_OK :: "int \<Rightarrow> nat \<Rightarrow> bool" where
  "A64F_S_OK x b \<longleftrightarrow> drop_bit b (x + 2 ^ (b - 1)) = 0"

lemma A64F_S_OK_range: "0 < b \<Longrightarrow> A64F_S_OK x b \<longleftrightarrow> - (2 ^ (b - 1)) \<le> x \<and> x < 2 ^ (b - 1)"
proof -
  assume b: "0 < b"
  have "drop_bit b y = 0 \<longleftrightarrow> 0 \<le> y \<and> y < 2 ^ b" for y :: int
  proof -
    have "\<not> (y \<le> 0 \<and> 2 ^ b < y)" using zero_less_power [of "2 :: int" b] by linarith
    then show ?thesis by (auto simp: drop_bit_eq_div zdiv_eq_0_iff)
  qed
  then have eq: "A64F_S_OK x b \<longleftrightarrow> 0 \<le> x + 2 ^ (b - 1) \<and> x + 2 ^ (b - 1) < 2 ^ b"
    by (simp only: A64F_S_OK_def)
  define p :: int where "p = 2 ^ (b - 1)"
  have "(2 :: int) ^ b = 2 * p" unfolding p_def using b by (cases b) simp_all
  then show ?thesis unfolding eq p_def [symmetric] by (simp only:) linarith
qed

section \<open>Opcode words\<close>

definition A64I_S :: "32 word" where "A64I_S = 0x20000000"

definition A64I_X :: "32 word" where "A64I_X = 0x80000000"

definition A64I_EX :: "32 word" where "A64I_EX = 0x200000"

definition A64I_ON :: "32 word" where "A64I_ON = 0x200000"

definition A64I_K12 :: "32 word" where "A64I_K12 = 0x1a000000"

definition A64I_K13 :: "32 word" where "A64I_K13 = 0x18000000"

definition A64I_LS_U :: "32 word" where "A64I_LS_U = 0x1000000"

definition A64I_ADDw :: "32 word" where "A64I_ADDw = 0xb000000"

definition A64I_ADDx :: "32 word" where "A64I_ADDx = 0x8b000000"

definition A64I_SUBw :: "32 word" where "A64I_SUBw = 0x4b000000"

definition A64I_SUBx :: "32 word" where "A64I_SUBx = 0xcb000000"

definition A64I_ORRw :: "32 word" where "A64I_ORRw = 0x2a000000"

definition A64I_MOVw :: "32 word" where "A64I_MOVw = 0x2a0003e0"

definition A64I_MOVx :: "32 word" where "A64I_MOVx = 0xaa0003e0"

definition A64I_MOVKw :: "32 word" where "A64I_MOVKw = 0x72800000"

definition A64I_MOVZw :: "32 word" where "A64I_MOVZw = 0x52800000"

definition A64I_MOVNw :: "32 word" where "A64I_MOVNw = 0x12800000"

definition A64I_ADR :: "32 word" where "A64I_ADR = 0x10000000"

definition A64I_ADRP :: "32 word" where "A64I_ADRP = 0x90000000"

definition A64I_LDRw :: "32 word" where "A64I_LDRw = 0xb9400000"

definition A64I_LDRx :: "32 word" where "A64I_LDRx = 0xf9400000"

definition A64I_LDRLx :: "32 word" where "A64I_LDRLx = 0x58000000"

definition A64I_STRw :: "32 word" where "A64I_STRw = 0xb9000000"

definition A64I_STRx :: "32 word" where "A64I_STRx = 0xf9000000"

definition A64I_LDRs :: "32 word" where "A64I_LDRs = 0xbd400000"

definition A64I_LDRd :: "32 word" where "A64I_LDRd = 0xfd400000"

definition A64I_LDRLd :: "32 word" where "A64I_LDRLd = 0x5c000000"

definition A64I_STRs :: "32 word" where "A64I_STRs = 0xbd000000"

definition A64I_STRd :: "32 word" where "A64I_STRd = 0xfd000000"

definition A64I_B :: "32 word" where "A64I_B = 0x14000000"

definition A64I_BCC :: "32 word" where "A64I_BCC = 0x54000000"

definition A64I_BL :: "32 word" where "A64I_BL = 0x94000000"

definition A64I_BLR :: "32 word" where "A64I_BLR = 0xd63f0000"

definition A64I_BLRAAZ :: "32 word" where "A64I_BLRAAZ = 0xd63f081f"

definition A64I_FMOV_S :: "32 word" where "A64I_FMOV_S = 0x1e204000"

definition A64I_FMOV_D :: "32 word" where "A64I_FMOV_D = 0x1e604000"

definition A64I_FMOV_D_R :: "32 word" where "A64I_FMOV_D_R = 0x9e670000"

definition A64I_FMOV_DI :: "32 word" where "A64I_FMOV_DI = 0x1e601000"

definition A64I_MOVI_DI :: "32 word" where "A64I_MOVI_DI = 0x2f000400"

definition A64I_NOP :: "32 word" where "A64I_NOP = 0xd503201f"

lemmas a64i = A64I_S_def A64I_X_def A64I_EX_def A64I_ON_def A64I_K12_def A64I_K13_def A64I_LS_U_def A64I_ADDw_def A64I_ADDx_def A64I_SUBw_def A64I_SUBx_def A64I_ORRw_def A64I_MOVw_def A64I_MOVx_def A64I_MOVKw_def A64I_MOVZw_def A64I_MOVNw_def A64I_ADR_def A64I_ADRP_def A64I_LDRw_def A64I_LDRx_def A64I_LDRLx_def A64I_STRw_def A64I_STRx_def A64I_LDRs_def A64I_LDRd_def A64I_LDRLd_def A64I_STRs_def A64I_STRd_def A64I_B_def A64I_BCC_def A64I_BL_def A64I_BLR_def A64I_BLRAAZ_def A64I_FMOV_S_def A64I_FMOV_D_def A64I_FMOV_D_R_def A64I_FMOV_DI_def A64I_MOVI_DI_def A64I_NOP_def

definition A64Ins_int :: "(string \<times> 32 word) list" where
  "A64Ins_int =
    [(''S'', 0x20000000), (''X'', 0x80000000),
     (''EX'', 0x200000), (''ON'', 0x200000),
     (''K12'', 0x1a000000), (''K13'', 0x18000000),
     (''LS_U'', 0x1000000), (''LS_S'', 0x800000),
     (''LS_R'', 0x1200800), (''LS_SH'', 0x1000),
     (''LS_UXTWx'', 0x4000), (''LS_SXTWx'', 0xc000),
     (''LS_SXTXx'', 0xe000), (''LS_LSLx'', 0x6000),
     (''ADDw'', 0xb000000), (''ADDx'', 0x8b000000),
     (''ADDSw'', 0x2b000000), (''ADDSx'', 0xab000000),
     (''NEGw'', 0x4b0003e0), (''NEGx'', 0xcb0003e0),
     (''SUBw'', 0x4b000000), (''SUBx'', 0xcb000000),
     (''SUBSw'', 0x6b000000), (''SUBSx'', 0xeb000000),
     (''MULw'', 0x1b007c00), (''MULx'', 0x9b007c00),
     (''SMULL'', 0x9b207c00), (''ANDw'', 0xa000000),
     (''ANDx'', 0x8a000000), (''ANDSw'', 0x6a000000),
     (''ANDSx'', 0xea000000), (''EORw'', 0x4a000000),
     (''EORx'', 0xca000000), (''ORRw'', 0x2a000000),
     (''ORRx'', 0xaa000000), (''TSTw'', 0x6a00001f),
     (''TSTx'', 0xea00001f), (''CMPw'', 0x6b00001f),
     (''CMPx'', 0xeb00001f), (''CMNw'', 0x2b00001f),
     (''CMNx'', 0xab00001f), (''CCMPw'', 0x7a400000),
     (''CCMPx'', 0xfa400000), (''CSELw'', 0x1a800000),
     (''CSELx'', 0x9a800000), (''ASRw'', 0x13007c00),
     (''ASRx'', 0x9340fc00), (''LSLx'', 0xd3400000),
     (''LSRx'', 0xd340fc00), (''SHRw'', 0x1ac02000),
     (''SHRx'', 0x9ac02000), (''REVw'', 0x5ac00800),
     (''REVx'', 0xdac00c00), (''EXTRw'', 0x13800000),
     (''EXTRx'', 0x93c00000), (''BFMw'', 0x33000000),
     (''BFMx'', 0xb3400000), (''SBFMw'', 0x13000000),
     (''SBFMx'', 0x93400000), (''SXTBw'', 0x13001c00),
     (''SXTHw'', 0x13003c00), (''SXTW'', 0x93407c00),
     (''UBFMw'', 0x53000000), (''UBFMx'', 0xd3400000),
     (''UXTBw'', 0x53001c00), (''UXTHw'', 0x53003c00),
     (''MOVw'', 0x2a0003e0), (''MOVx'', 0xaa0003e0),
     (''MVNw'', 0x2a2003e0), (''MVNx'', 0xaa2003e0),
     (''MOVKw'', 0x72800000), (''MOVKx'', 0xf2800000),
     (''MOVZw'', 0x52800000), (''MOVZx'', 0xd2800000),
     (''MOVNw'', 0x12800000), (''MOVNx'', 0x92800000),
     (''ADR'', 0x10000000), (''ADRP'', 0x90000000)]"

definition A64Ins_mem_fp :: "(string \<times> 32 word) list" where
  "A64Ins_mem_fp =
    [(''LDRB'', 0x39400000), (''LDRH'', 0x79400000),
     (''LDRw'', 0xb9400000), (''LDRx'', 0xf9400000),
     (''LDRLw'', 0x18000000), (''LDRLx'', 0x58000000),
     (''STRB'', 0x39000000), (''STRH'', 0x79000000),
     (''STRw'', 0xb9000000), (''STRx'', 0xf9000000),
     (''STPw'', 0x29000000), (''STPx'', 0xa9000000),
     (''LDPw'', 0x29400000), (''LDPx'', 0xa9400000),
     (''B'', 0x14000000), (''BCC'', 0x54000000),
     (''BL'', 0x94000000), (''BR'', 0xd61f0000),
     (''BLR'', 0xd63f0000), (''TBZ'', 0x36000000),
     (''TBNZ'', 0x37000000), (''CBZ'', 0x34000000),
     (''CBNZ'', 0x35000000), (''BRAAZ'', 0xd61f081f),
     (''BLRAAZ'', 0xd63f081f), (''NOP'', 0xd503201f),
     (''FADDd'', 0x1e602800), (''FSUBd'', 0x1e603800),
     (''FMADDd'', 0x1f400000), (''FMSUBd'', 0x1f408000),
     (''FNMADDd'', 0x1f600000), (''FNMSUBd'', 0x1f608000),
     (''FMULd'', 0x1e600800), (''FDIVd'', 0x1e601800),
     (''FNEGd'', 0x1e614000), (''FABS'', 0x1e60c000),
     (''FSQRTd'', 0x1e61c000), (''LDRs'', 0xbd400000),
     (''LDRd'', 0xfd400000), (''LDRLd'', 0x5c000000),
     (''STRs'', 0xbd000000), (''STRd'', 0xfd000000),
     (''LDPs'', 0x2d400000), (''LDPd'', 0x6d400000),
     (''STPs'', 0x2d000000), (''STPd'', 0x6d000000),
     (''FCMPd'', 0x1e602000), (''FCMPZd'', 0x1e602008),
     (''FCSELd'', 0x1e600c00), (''FRINTMd'', 0x1e654000),
     (''FRINTPd'', 0x1e64c000), (''FRINTZd'', 0x1e65c000),
     (''FCVT_F32_F64'', 0x1e624000), (''FCVT_F64_F32'', 0x1e22c000),
     (''FCVT_F32_S32'', 0x1e220000), (''FCVT_F64_S32'', 0x1e620000),
     (''FCVT_F32_U32'', 0x1e230000), (''FCVT_F64_U32'', 0x1e630000),
     (''FCVT_F32_S64'', 0x9e220000), (''FCVT_F64_S64'', 0x9e620000),
     (''FCVT_F32_U64'', 0x9e230000), (''FCVT_F64_U64'', 0x9e630000),
     (''FCVT_S32_F64'', 0x1e780000), (''FCVT_S32_F32'', 0x1e380000),
     (''FCVT_U32_F64'', 0x1e790000), (''FCVT_U32_F32'', 0x1e390000),
     (''FCVT_S64_F64'', 0x9e780000), (''FCVT_S64_F32'', 0x9e380000),
     (''FCVT_U64_F64'', 0x9e790000), (''FCVT_U64_F32'', 0x9e390000),
     (''FMOV_S'', 0x1e204000), (''FMOV_D'', 0x1e604000),
     (''FMOV_R_S'', 0x1e260000), (''FMOV_S_R'', 0x1e270000),
     (''FMOV_R_D'', 0x9e660000), (''FMOV_D_R'', 0x9e670000),
     (''FMOV_DI'', 0x1e601000), (''MOVI_DI'', 0x2f000400)]"

definition A64Ins :: "(string \<times> 32 word) list" where
  "A64Ins = A64Ins_int @ A64Ins_mem_fp"

text \<open>The words the emitter uses are those of the table.\<close>

lemma A64Ins_agree:
  "A64Ins_int ! 14 = (''ADDw'', A64I_ADDw)"
  "A64Ins_int ! 21 = (''SUBx'', A64I_SUBx)"
  "A64Ins_int ! 33 = (''ORRw'', A64I_ORRw)"
  "A64Ins_int ! 70 = (''MOVKw'', A64I_MOVKw)"
  "A64Ins_int ! 72 = (''MOVZw'', A64I_MOVZw)"
  "A64Ins_int ! 74 = (''MOVNw'', A64I_MOVNw)"
  "A64Ins_mem_fp ! 3 = (''LDRx'', A64I_LDRx)"
  "A64Ins_mem_fp ! 9 = (''STRx'', A64I_STRx)"
  "A64Ins_mem_fp ! 15 = (''BCC'', A64I_BCC)"
  "A64Ins_mem_fp ! 16 = (''BL'', A64I_BL)"
  "A64Ins_mem_fp ! 77 = (''MOVI_DI'', A64I_MOVI_DI)"
  by (simp_all add: A64Ins_int_def A64Ins_mem_fp_def a64i)

end
