(* ===== verification/LJ_Emit_Arm64.thy ===== *)
theory LJ_Emit_Arm64
  imports LJ_Arm64
begin

text \<open>
  \<open>LuaJit/include/lj_emit_arm64.h\<close>: the instruction emitter of the ARM64 back end. Machine code
  is written from high to low addresses, so the code area is the list of the words emitted
  since \<open>mctop\<close>, newest first: its head is the word \<open>*as->mcp\<close> and the word that runs first.
  The assertions of the debug build are not part of the model.
\<close>

section \<open>The assembler state\<close>

record asm64 =
  mc :: "32 word list"
  mctop :: "64 word"
  mcloop :: "64 word"
  freeset :: "64 word"
  cost :: "nat \<Rightarrow> 32 word"

definition mcp :: "asm64 \<Rightarrow> 64 word" where
  "mcp st = mctop st - 4 * of_nat (length (mc st))"

definition emit :: "32 word \<Rightarrow> asm64 \<Rightarrow> asm64" where
  "emit w st = st\<lparr>mc := w # mc st\<rparr>"

text \<open>
  An IR constant of the trace: the opcode with the field its value is taken from, \<open>i\<close> for a
  32 bit constant and the 64 bit payload or pointer otherwise. What the emitter uses of the
  allocator (\<open>lj_asm.c\<close>, not in the repository) is a record of parameters: the IR constant of a
  reference, the pseudo references of \<open>ra_krefk\<close>, and \<open>ra_allock\<close>, which gives a register that
  holds a constant and may emit code for it.
\<close>

datatype irconst = KINT64 "64 word" | KGC "64 word" | KPTR "64 word" | KKPTR "64 word"
  | KINT "32 word" | KNULL "32 word"

record env64 =
  glbase :: "64 word"
  irk :: "16 word \<Rightarrow> irconst"
  iskref :: "16 word \<Rightarrow> bool"
  krefk :: "asm64 \<Rightarrow> 16 word \<Rightarrow> 64 word"
  allock :: "64 word \<Rightarrow> 64 word \<Rightarrow> asm64 \<Rightarrow> nat \<times> asm64"

definition REF_TRUE :: "16 word" where "REF_TRUE = 0x8000 - 3"

section \<open>Constant encodings\<close>

definition get_k64val :: "irconst \<Rightarrow> 64 word" where
  "get_k64val ir = (case ir of KINT64 u \<Rightarrow> u | KGC u \<Rightarrow> u | KPTR u \<Rightarrow> u | KKPTR u \<Rightarrow> u
     | KINT i \<Rightarrow> ucast i | KNULL i \<Rightarrow> ucast i)"

definition emit_isk12 :: "64 word \<Rightarrow> 32 word" where
  "emit_isk12 n =
     (let k = if n <s 0 then NOT n + 1 else n; m = if n <s 0 then 0x40000000 else 0 in
      if k < 0x1000 then A64I_K12 OR m OR A64F_U12 (ucast k)
      else if k AND 0xfff000 = k then A64I_K12 OR m OR 0x400000 OR A64F_U12 (ucast (drop_bit 12 k))
      else 0)"

definition emit_clz64 :: "64 word \<Rightarrow> nat" where "emit_clz64 n = lj_fls64 n XOR 63"

definition emit_ctz64 :: "64 word \<Rightarrow> nat" where "emit_ctz64 n = lj_ffs64 n"

definition dup32 :: "64 word \<Rightarrow> 64 word" where
  "dup32 n = push_bit 32 n OR ucast (ucast n :: 32 word)"

text \<open>The run of ones of a logical constant: rotation, number of ones and element size.\<close>

definition k13_rot :: "64 word \<Rightarrow> nat" where
  "k13_rot n = (if n AND (n + 1) \<noteq> 0 then emit_ctz64 (n AND (n + 1)) else 64)"

definition emit_isk13 :: "64 word \<Rightarrow> bool \<Rightarrow> 32 word" where
  "emit_isk13 n0 is64 =
     (let n = if is64 then n0 else dup32 n0 in
      if n + 1 \<le> 1 then 0
      else
        let rot = k13_rot n; n' = lj_ror64 n (rot mod 64); ones = emit_ctz64 (NOT n');
            size = emit_clz64 n' + ones in
        if lj_ror64 n' (size mod 64) \<noteq> n' then 0
        else
          let immr = - of_nat rot AND (of_nat size - 1);
              imms = (- push_bit 1 (of_nat size) OR (of_nat ones - 1)) AND 63 in
          A64I_K13 OR A64F_IMMR (immr OR (of_nat size AND 64)) OR A64F_IMMS imms)"

definition emit_isfpk64 :: "64 word \<Rightarrow> 32 word" where
  "emit_isfpk64 n =
     (let etop9 = drop_bit 54 n AND 0x1ff in
      if push_bit 16 n = 0 \<and> (etop9 = 0x100 \<or> etop9 = 0x0ff)
      then ucast ((drop_bit 48 n AND 0x7f) OR (drop_bit 56 n AND 0x80))
      else - 1)"

definition emit_isfpmovi :: "64 word \<Rightarrow> 32 word" where
  "emit_isfpmovi n =
     (if (n AND 0x0101010101010101) * 0xff \<noteq> n then 0
      else
        let n' = drop_bit 56 ((n AND 0x8040201008040201) * 0x0101010101010101) in
        ucast (push_bit 6 (n' AND 0xe0) OR 0x700 OR (n' AND 0x1f)))"

section \<open>Basic instructions\<close>

definition emit_dnma :: "32 word \<Rightarrow> nat \<Rightarrow> nat \<Rightarrow> nat \<Rightarrow> nat \<Rightarrow> asm64 \<Rightarrow> asm64" where
  "emit_dnma ai rd rn rm ra = emit (ai OR A64F_D rd OR A64F_N rn OR A64F_M rm OR A64F_A ra)"

definition emit_dnm :: "32 word \<Rightarrow> nat \<Rightarrow> nat \<Rightarrow> nat \<Rightarrow> asm64 \<Rightarrow> asm64" where
  "emit_dnm ai rd rn rm = emit (ai OR A64F_D rd OR A64F_N rn OR A64F_M rm)"

definition emit_dm :: "32 word \<Rightarrow> nat \<Rightarrow> nat \<Rightarrow> asm64 \<Rightarrow> asm64" where
  "emit_dm ai rd rm = emit (ai OR A64F_D rd OR A64F_M rm)"

definition emit_dn :: "32 word \<Rightarrow> nat \<Rightarrow> nat \<Rightarrow> asm64 \<Rightarrow> asm64" where
  "emit_dn ai rd rn = emit (ai OR A64F_D rd OR A64F_N rn)"

definition emit_nm :: "32 word \<Rightarrow> nat \<Rightarrow> nat \<Rightarrow> asm64 \<Rightarrow> asm64" where
  "emit_nm ai rn rm = emit (ai OR A64F_N rn OR A64F_M rm)"

definition emit_d :: "32 word \<Rightarrow> nat \<Rightarrow> asm64 \<Rightarrow> asm64" where
  "emit_d ai rd = emit (ai OR A64F_D rd)"

definition emit_dl :: "32 word \<Rightarrow> nat \<Rightarrow> 32 word \<Rightarrow> asm64 \<Rightarrow> asm64" where
  "emit_dl ai rd l = emit (ai OR A64F_D rd OR A64F_S19 (uint (drop_bit 2 l)))"

definition emit_n :: "32 word \<Rightarrow> nat \<Rightarrow> asm64 \<Rightarrow> asm64" where
  "emit_n ai rn = emit (ai OR A64F_N rn)"

section \<open>Loads and stores\<close>

definition ls_scale :: "32 word \<Rightarrow> nat" where "ls_scale ai = unat (drop_bit 30 ai AND 3)"

definition emit_checkofs :: "32 word \<Rightarrow> int \<Rightarrow> int" where
  "emit_checkofs ai ofs =
     (let scale = ls_scale ai in
      if ofs < 0 \<or> ofs AND (2 ^ scale - 1) \<noteq> 0 then (if - 256 \<le> ofs \<and> ofs \<le> 255 then - 1 else 0)
      else (if ofs < push_bit scale 4096 then 1 else 0))"

definition emit_lso_pair_candidate :: "32 word \<Rightarrow> int \<Rightarrow> nat \<Rightarrow> 32 word" where
  "emit_lso_pair_candidate ai ofs sc =
     (if 0 \<le> ofs then ai OR A64F_U12 (word_of_int (drop_bit sc ofs))
      else if - 256 \<le> ofs then (ai XOR A64I_LS_U) OR A64F_S9 (word_of_int (ofs AND 0x1ff))
      else A64F_D 31)"

definition lso_single :: "int \<Rightarrow> 32 word \<Rightarrow> nat \<Rightarrow> nat \<Rightarrow> int \<Rightarrow> 32 word" where
  "lso_single ot ai rd rn ofs =
     (if ot = 1 then ai OR A64F_D rd OR A64F_N rn OR A64F_U12 (word_of_int (drop_bit (ls_scale ai) ofs))
      else (ai XOR A64I_LS_U) OR A64F_D rd OR A64F_N rn OR A64F_S9 (word_of_int (ofs AND 0x1ff)))"

text \<open>
  The registers of the pair and its offset, when the word emitted last is a load or store of
  the neighbouring slot.
\<close>

definition lso_neighbour :: "32 word \<Rightarrow> 32 word \<Rightarrow> nat \<Rightarrow> nat \<Rightarrow> int \<Rightarrow> (32 word \<times> int) option" where
  "lso_neighbour w ai rd rn ofs =
     (let sc = ls_scale ai; prev = w AND NOT (A64F_D 31); ofsm = ofs - 2 ^ sc; ofsp = ofs + 2 ^ sc in
      if prev = emit_lso_pair_candidate (ai OR A64F_N rn) ofsm sc
      then Some (A64F_A rd OR (w AND 31), ofsm)
      else if prev = emit_lso_pair_candidate (ai OR A64F_N rn) ofsp sc
      then Some (A64F_D rd OR push_bit 10 (w AND 31), ofs)
      else None)"

definition lso_pair :: "32 word \<Rightarrow> 32 word \<Rightarrow> nat \<Rightarrow> nat \<Rightarrow> int \<Rightarrow> 32 word option" where
  "lso_pair w ai rd rn ofs =
     (case lso_neighbour w ai rd rn ofs of
        None \<Rightarrow> None
      | Some (aip, ofsm) \<Rightarrow>
          let sc = ls_scale ai in
          if lj_ror (word_of_int ofsm + push_bit sc 64) sc \<le> 127
          then Some (aip OR A64F_N rn OR push_bit 15 (word_of_int (drop_bit sc ofsm) AND 0x7f) OR
                 (ai XOR (if ai = A64I_LDRx \<or> ai = A64I_STRx then 0x50000000 else 0x90000000)))
          else None)"

definition emit_lso :: "32 word \<Rightarrow> nat \<Rightarrow> nat \<Rightarrow> int \<Rightarrow> asm64 \<Rightarrow> asm64" where
  "emit_lso ai rd rn ofs64 st =
     (let ot = emit_checkofs ai ofs64; sc = ls_scale ai; ofs = sint (word_of_int ofs64 :: 32 word);
          single = emit (lso_single ot ai rd rn ofs) st in
      if (sc = 2 \<or> sc = 3) \<and> (ai AND 0x400000 = 0 \<or> rd \<noteq> rn) \<and> mcp st \<noteq> mcloop st
      then (case mc st of
              [] \<Rightarrow> single
            | w # ws \<Rightarrow> (case lso_pair w ai rd rn ofs of
                           None \<Rightarrow> single
                         | Some p \<Rightarrow> st\<lparr>mc := p # ws\<rparr>))
      else single)"

section \<open>Constants in registers\<close>

text \<open>
  A constant that another register holds, give or take a 12 bit delta. The loop runs over the
  allocated registers from the highest down, at most sixty-four.
\<close>

definition X_bit :: "bool \<Rightarrow> 32 word" where "X_bit is64 = (if is64 then A64I_X else 0)"

definition kdelta_of :: "bool \<Rightarrow> 64 word \<Rightarrow> 64 word \<Rightarrow> 64 word" where
  "kdelta_of is64 k kx = (if is64 then k - kx else scast (ucast (k - kx) :: 32 word))"

definition kdelta_ins :: "bool \<Rightarrow> nat \<Rightarrow> nat \<Rightarrow> 64 word \<Rightarrow> (asm64 \<Rightarrow> asm64) option" where
  "kdelta_ins is64 rd r delta =
     (if delta = 0 then Some (emit_dm (X_bit is64 OR A64I_MOVw) rd r)
      else
        let k12 = emit_isk12 (if delta <s 0 then NOT delta + 1 else delta) in
        if k12 \<noteq> 0
        then Some (emit_dn ((if delta <s 0 then A64I_SUBw else A64I_ADDw) XOR X_bit is64 XOR k12) rd r)
        else None)"

fun kdelta_loop :: "env64 \<Rightarrow> nat \<Rightarrow> 64 word \<Rightarrow> nat \<Rightarrow> 64 word \<Rightarrow> bool \<Rightarrow> asm64 \<Rightarrow> asm64 option" where
  "kdelta_loop E 0 work rd k is64 st = None"
| "kdelta_loop E (Suc fuel) work rd k is64 st =
     (if work = 0 then None
      else
        let r = rset_picktop work; ref = regcost_ref (cost st r);
            next = kdelta_loop E fuel (rset_clear work r) rd k is64 st in
        if ref < REF_TRUE
        then
          let kx = if iskref E ref then krefk E st ref else get_k64val (irk E ref) in
          case kdelta_ins is64 rd r (kdelta_of is64 k kx) of
            Some ins \<Rightarrow> Some (ins st)
          | None \<Rightarrow> next
        else next)"

definition emit_kdelta :: "env64 \<Rightarrow> nat \<Rightarrow> 64 word \<Rightarrow> bool \<Rightarrow> asm64 \<Rightarrow> asm64 option" where
  "emit_kdelta E rd k is64 st =
     kdelta_loop E 64 (NOT (freeset st) AND RSET_GPR OR RID2RSET RID_GL) rd k is64 st"

definition glofs :: "env64 \<Rightarrow> 64 word \<Rightarrow> int" where "glofs E k = sint (k - glbase E)"

definition mcpofs :: "asm64 \<Rightarrow> 64 word \<Rightarrow> int" where "mcpofs st k = sint (k - (mcp st - 4))"

definition checkmcpofs :: "asm64 \<Rightarrow> 64 word \<Rightarrow> bool" where
  "checkmcpofs st k \<longleftrightarrow> A64F_S_OK (drop_bit 2 (mcpofs st k)) 19"

definition emit_adr :: "32 word \<Rightarrow> nat \<Rightarrow> int \<Rightarrow> asm64 \<Rightarrow> asm64" where
  "emit_adr ai rd ofs =
     emit_dl (ai OR push_bit 29 (word_of_int ofs AND 3)) rd (word_of_int ofs)"

definition emit_kadrp :: "env64 \<Rightarrow> nat \<Rightarrow> 64 word \<Rightarrow> asm64 \<Rightarrow> asm64 option" where
  "emit_kadrp E rd k st =
     (let ofs = mcpofs st k in
      if A64F_S_OK ofs 21 then Some (emit_adr A64I_ADR rd ofs st)
      else
        let kpage = k AND NOT 0xfff;
            adrp = mcp st - 4 - (if k \<noteq> kpage then 4 else 0);
            ofs = drop_bit 12 (sint (kpage - (adrp AND NOT 0xfff))) in
        if \<not> A64F_S_OK ofs 21 then None
        else
          let st = (if k \<noteq> kpage
                    then emit_dn ((A64I_ADDx XOR A64I_K12) OR A64F_U12 (ucast (k - kpage))) rd rd st
                    else st) in
          Some (emit_adr A64I_ADRP rd ofs st))"

text \<open>
  A constant from 16 bit fragments. \<open>frag u i\<close> is fragment \<open>i\<close>; the two counts decide between
  MOVZ and MOVN, and the loop fills the fragments above the lowest one that is not zero.
\<close>

definition frag :: "64 word \<Rightarrow> nat \<Rightarrow> 32 word" where
  "frag u i = ucast (drop_bit (i * 16) u AND 0xffff)"

definition count_frags :: "(32 word \<Rightarrow> bool) \<Rightarrow> 64 word \<Rightarrow> nat \<Rightarrow> nat" where
  "count_frags P u n = length (List.filter P (List.map (frag u) (rev [0..<n])))"

definition movk :: "bool \<Rightarrow> bool \<Rightarrow> nat \<Rightarrow> 64 word \<Rightarrow> nat \<Rightarrow> asm64 \<Rightarrow> asm64" where
  "movk is64 neg rd u i st =
     (if frag u i = 0 then st
      else emit_d (X_bit is64 OR A64I_MOVKw OR
             A64F_U16 (if neg then frag u i XOR 0xffff else frag u i) OR A64F_LSL16 (16 * i)) rd st)"

fun movk_loop :: "bool \<Rightarrow> bool \<Rightarrow> nat \<Rightarrow> 64 word \<Rightarrow> nat \<Rightarrow> nat \<Rightarrow> asm64 \<Rightarrow> asm64" where
  "movk_loop is64 neg rd u lo 0 st = st"
| "movk_loop is64 neg rd u lo (Suc n) st = movk_loop is64 neg rd u lo n (movk is64 neg rd u (lo + Suc n) st)"

definition emit_wide :: "bool \<Rightarrow> bool \<Rightarrow> nat \<Rightarrow> 64 word \<Rightarrow> asm64 \<Rightarrow> asm64" where
  "emit_wide is64 neg rd u64 st =
     (let u = if neg then (if is64 then NOT u64 else NOT u64 AND 0xffffffff) else u64;
          lo = if u = 0 then 0 else emit_ctz64 u div 16;
          hi = if u = 0 then 0 else (63 - emit_clz64 u) div 16;
          st = movk_loop is64 neg rd u lo (hi - lo) st in
      emit_d (X_bit is64 OR (if neg then A64I_MOVNw else A64I_MOVZw) OR
              A64F_U16 (frag u lo) OR A64F_LSL16 (16 * lo)) rd st)"

definition loadk_is64 :: "64 word \<Rightarrow> bool" where "loadk_is64 u \<longleftrightarrow> drop_bit 32 u \<noteq> 0"

definition emit_loadk :: "env64 \<Rightarrow> nat \<Rightarrow> 64 word \<Rightarrow> asm64 \<Rightarrow> asm64" where
  "emit_loadk E rd u64 st =
     (let is64 = loadk_is64 u64; n = if is64 then 4 else 2;
          zeros = count_frags (\<lambda>f. f \<noteq> 0) u64 n; ones = count_frags (\<lambda>f. f \<noteq> 0xffff) u64 n;
          neg = ones < zeros; wide = emit_wide is64 neg rd u64 st in
      if 1 < (if neg then ones else zeros)
      then
        let k13 = emit_isk13 u64 is64 in
        if k13 \<noteq> 0 then emit_dn ((X_bit is64 OR A64I_ORRw) XOR k13) rd RID_ZERO st
        else case emit_kdelta E rd u64 is64 st of
               Some st' \<Rightarrow> st'
             | None \<Rightarrow> (case emit_kadrp E rd u64 st of Some st' \<Rightarrow> st' | None \<Rightarrow> wide)
      else wide)"

definition emit_loadi :: "env64 \<Rightarrow> nat \<Rightarrow> 32 word \<Rightarrow> asm64 \<Rightarrow> asm64" where
  "emit_loadi E rd i = emit_loadk E rd (ucast i)"

definition emit_loadu64 :: "env64 \<Rightarrow> nat \<Rightarrow> 64 word \<Rightarrow> asm64 \<Rightarrow> asm64" where
  "emit_loadu64 E rd i = emit_loadk E rd i"

definition emit_lsptr :: "env64 \<Rightarrow> 32 word \<Rightarrow> nat \<Rightarrow> 64 word \<Rightarrow> asm64 \<Rightarrow> asm64" where
  "emit_lsptr E ai r p st =
     (let ofs = glofs E p in
      if emit_checkofs ai ofs \<noteq> 0 then emit_lso ai r RID_GL ofs st
      else if ai = A64I_LDRx \<and> checkmcpofs st p
      then emit_dl A64I_LDRLx r (word_of_int (mcpofs st p)) st
      else
        let (base, st) = allock E (p AND NOT 0x7fff) (rset_exclude RSET_GPR r) st in
        emit_lso ai r base (uint (p AND 0x7fff)) st)"

text \<open>\<open>k\<close> is the value of the IR constant and \<open>p\<close> the address of that value.\<close>

definition emit_loadk64 :: "env64 \<Rightarrow> nat \<Rightarrow> 64 word \<Rightarrow> 64 word \<Rightarrow> asm64 \<Rightarrow> asm64" where
  "emit_loadk64 E r k p st =
     (let fpr = RID_MAX_GPR \<le> r; fpk = emit_isfpk64 k; fpm = emit_isfpmovi k; ofs = glofs E p in
      if fpr \<and> fpk \<noteq> - 1 then emit_d (A64I_FMOV_DI OR A64F_FP8 fpk) (r mod 32) st
      else if fpr \<and> fpm \<noteq> 0 then emit_d (A64I_MOVI_DI OR push_bit 5 fpm) (r mod 32) st
      else if emit_checkofs A64I_LDRx ofs \<noteq> 0
      then emit_lso (if fpr then A64I_LDRd else A64I_LDRx) (r mod 32) RID_GL ofs st
      else if checkmcpofs st p
      then emit_dl (if fpr then A64I_LDRLd else A64I_LDRLx) (r mod 32) (word_of_int (mcpofs st p)) st
      else if fpr then emit_loadu64 E RID_TMP k (emit_dn A64I_FMOV_D_R (r mod 32) RID_TMP st)
      else emit_loadu64 E r k st)"

definition emit_getgl :: "env64 \<Rightarrow> nat \<Rightarrow> 64 word \<Rightarrow> asm64 \<Rightarrow> asm64" where
  "emit_getgl E r fieldofs = emit_lsptr E A64I_LDRx r (glbase E + fieldofs)"

definition emit_setgl :: "env64 \<Rightarrow> nat \<Rightarrow> 64 word \<Rightarrow> asm64 \<Rightarrow> asm64" where
  "emit_setgl E r fieldofs = emit_lsptr E A64I_STRx r (glbase E + fieldofs)"

section \<open>Control flow\<close>

text \<open>The distance, in instructions, from the next word to a target address.\<close>

definition branch_delta :: "asm64 \<Rightarrow> 64 word \<Rightarrow> int" where
  "branch_delta st target = drop_bit 2 (mcpofs st target)"

definition emit_cond_branch :: "32 word \<Rightarrow> 64 word \<Rightarrow> asm64 \<Rightarrow> asm64" where
  "emit_cond_branch cond target st =
     emit (A64I_BCC OR A64F_S19 (branch_delta st target) OR cond) st"

definition emit_branch :: "32 word \<Rightarrow> 64 word \<Rightarrow> asm64 \<Rightarrow> asm64" where
  "emit_branch ai target st = emit (ai OR A64F_S26 (branch_delta st target)) st"

definition emit_tnb :: "32 word \<Rightarrow> nat \<Rightarrow> 32 word \<Rightarrow> 64 word \<Rightarrow> asm64 \<Rightarrow> asm64" where
  "emit_tnb ai r b target st =
     (let ai = if 31 < b then ai OR A64I_X else ai in
      emit (ai OR A64F_BIT (b AND 31) OR A64F_S14 (branch_delta st target) OR of_nat r) st)"

definition emit_cnb :: "32 word \<Rightarrow> nat \<Rightarrow> 64 word \<Rightarrow> asm64 \<Rightarrow> asm64" where
  "emit_cnb ai r target st = emit (ai OR A64F_S19 (branch_delta st target) OR of_nat r) st"

definition emit_jmp :: "64 word \<Rightarrow> asm64 \<Rightarrow> asm64" where
  "emit_jmp target = emit_branch A64I_B target"

text \<open>
  A call: direct when the target is near, else through a register other than those of the
  arguments. The word of the call is reserved before the allocator is asked, and written
  after; without pointer authentication.
\<close>

definition emit_call :: "env64 \<Rightarrow> 64 word \<Rightarrow> asm64 \<Rightarrow> asm64" where
  "emit_call E target st =
     (let delta = branch_delta st target in
      if A64F_S_OK delta 26 then emit (A64I_BL OR A64F_S26 delta) st
      else
        let (r, st') = allock E target (RSET_RANGE (RID ''X8'') RID_MAX_GPR - RSET_FIXED) (emit 0 st) in
        st'\<lparr>mc := (mc st')[length (mc st') - 1 - length (mc st) := A64I_BLR OR A64F_N r]\<rparr>)"

section \<open>Generic operations\<close>

text \<open>
  A move between registers. When the word emitted last (which runs next) is a load or store
  based on the destination, it may use the source at once.
\<close>

definition swap_early :: "nat \<Rightarrow> nat \<Rightarrow> 32 word \<Rightarrow> 32 word" where
  "swap_early dst src ins =
     (let d = of_nat dst; swp = of_nat src XOR d in
      if ins AND 0xbf800000 = 0xb9000000
      then if ins AND 0x00400000 = 0 \<and> (ins XOR d) AND 0x1f = 0
           then ins XOR swp
           else if (ins XOR push_bit 5 d) AND 0x3e0 = 0 then ins XOR push_bit 5 swp else ins
      else ins)"

definition emit_movrr :: "bool \<Rightarrow> nat \<Rightarrow> nat \<Rightarrow> asm64 \<Rightarrow> asm64" where
  "emit_movrr isnum dst src st =
     (if RID_MAX_GPR \<le> dst
      then emit_dn (if isnum then A64I_FMOV_D else A64I_FMOV_S) (dst mod 32) (src mod 32) st
      else
        let st = (if mcp st \<noteq> mcloop st
                  then case mc st of [] \<Rightarrow> st | w # ws \<Rightarrow> st\<lparr>mc := swap_early dst src w # ws\<rparr>
                  else st) in
        emit_dm A64I_MOVx dst src st)"

definition emit_loadofs :: "bool \<Rightarrow> bool \<Rightarrow> nat \<Rightarrow> nat \<Rightarrow> int \<Rightarrow> asm64 \<Rightarrow> asm64" where
  "emit_loadofs isnum is64 r base ofs =
     (if RID_MAX_GPR \<le> r then emit_lso (if isnum then A64I_LDRd else A64I_LDRs) (r mod 32) base ofs
      else emit_lso (if is64 then A64I_LDRx else A64I_LDRw) r base ofs)"

definition emit_storeofs :: "bool \<Rightarrow> bool \<Rightarrow> nat \<Rightarrow> nat \<Rightarrow> int \<Rightarrow> asm64 \<Rightarrow> asm64" where
  "emit_storeofs isnum is64 r base ofs =
     (if RID_MAX_GPR \<le> r then emit_lso (if isnum then A64I_STRd else A64I_STRs) (r mod 32) base ofs
      else emit_lso (if is64 then A64I_STRx else A64I_STRw) r base ofs)"

definition emit_opk :: "env64 \<Rightarrow> 32 word \<Rightarrow> nat \<Rightarrow> nat \<Rightarrow> 32 word \<Rightarrow> 64 word \<Rightarrow> asm64 \<Rightarrow> asm64" where
  "emit_opk E ai dest src i allow st =
     (let k = emit_isk12 (scast i) in
      if k \<noteq> 0 then emit_dn (ai XOR k) dest src st
      else let (r, st) = allock E (scast i) allow st in emit_dnm ai dest src r st)"

definition emit_addptr :: "env64 \<Rightarrow> nat \<Rightarrow> 32 word \<Rightarrow> asm64 \<Rightarrow> asm64" where
  "emit_addptr E r ofs st =
     (if ofs = 0 then st
      else emit_opk E (if ofs <s 0 then A64I_SUBx else A64I_ADDx) r r
             (if ofs <s 0 then NOT ofs + 1 else ofs) (rset_exclude RSET_GPR r) st)"

definition emit_spsub :: "env64 \<Rightarrow> 32 word \<Rightarrow> asm64 \<Rightarrow> asm64" where
  "emit_spsub E ofs = emit_addptr E (RID ''SP'') (- ofs)"

end
