(* ===== verification/LJ_Arm64_Sem.thy ===== *)
theory LJ_Arm64_Sem
  imports LJ_Emit_Arm64
begin

text \<open>
  What the words of \<open>LJ_Emit_Arm64\<close> mean to an ARM64 processor: decoding of the immediate
  fields, execution of wide moves, and the correctness of the constant encodings.
\<close>

lemma and_mask_low: "unat (v :: 32 word) < 2 ^ k \<Longrightarrow> v AND mask k = v"
  by (rule bit_word_eqI) (auto simp: bit_simps dest: small_word_bits)

lemma field_low:
  assumes "k \<le> n" shows "push_bit n (v :: 32 word) AND mask k = 0"
  using assms by (intro bit_word_eqI) (auto simp: bit_simps)

lemma field_drop:
  assumes "n + k \<le> 32" "unat v < 2 ^ k"
  shows "drop_bit n (push_bit n (v :: 32 word)) = v"
  using assms by (intro bit_word_eqI) (auto simp: bit_simps dest: small_word_bits)

section \<open>Arithmetic constants\<close>

text \<open>The operand of an ADD or SUB with the immediate fields of \<open>w\<close>; bit 30 is the sign.\<close>

definition k12_value :: "32 word \<Rightarrow> 64 word" where
  "k12_value w =
     (let v = ucast (drop_bit 10 w AND 0xfff); v = if bit w 22 then push_bit 12 v else v in
      if bit w 30 then - v else v)"

lemma k12_word:
  assumes "unat v < 4096" "m = 0 \<or> m = 0x40000000" "s = 0 \<or> s = 0x400000"
  shows "k12_value (A64I_K12 OR m OR s OR A64F_U12 v) =
    (let x = ucast v; x = if s = 0 then x else push_bit 12 x in if m = 0 then x else - x)"
proof -
  have v: "drop_bit 10 (push_bit 10 v) = v" using assms by (intro field_drop [of _ 12]) simp_all
  have v2: "v AND 0xfff = v" using and_mask_low [of v 12] assms by (simp add: mask_eq_exp_minus_1)
  have b: "\<not> bit v 12" "\<not> bit v 20"
    using small_word_bits [of v 12 12] small_word_bits [of v 12 20] assms(1) by auto
  show ?thesis using assms(2,3)
    by (elim disjE) (simp_all add: k12_value_def a64i a64f v v2 drop_bit_or bit_simps word_ao_dist b)
qed
lemma ucast_small:
  assumes "unat (a :: 64 word) < 2 ^ 32"
  shows "unat (ucast a :: 32 word) = unat a" "ucast (ucast a :: 32 word) = a"
proof -
  show "unat (ucast a :: 32 word) = unat a"
    using assms by (simp add: unsigned_ucast_eq take_bit_nat_eq_self_iff)
  then show "ucast (ucast a :: 32 word) = a"
    by (intro word_unat_eq_iff [THEN iffD2]) (simp add: unsigned_ucast_eq unsigned_take_bit_eq take_bit_nat_eq_self_iff)
qed

text \<open>
  A constant that \<open>emit_isk12\<close> accepts is the operand the processor reads from the encoded fields:
  the twelve bit value, shifted or not, added or subtracted.
\<close>

theorem emit_isk12_sound:
  assumes nz: "emit_isk12 n \<noteq> 0"
  shows "k12_value (emit_isk12 n) = n"
proof -
  define k where "k = (if n <s 0 then NOT n + 1 else n)"
  define m :: "32 word" where "m = (if n <s 0 then 0x40000000 else 0)"
  have n: "(if m = 0 then k else - k) = n" by (simp add: k_def m_def not_eq_complement)
  have m01: "m = 0 \<or> m = 0x40000000" by (simp add: m_def)
  show ?thesis
  proof (cases "k < 0x1000")
    case True
    then have u: "unat (ucast k :: 32 word) < 4096" "ucast (ucast k :: 32 word) = k"
      using ucast_small [of k] True by (simp_all add: word_less_nat_alt)
    have "emit_isk12 n = A64I_K12 OR m OR 0 OR A64F_U12 (ucast k)"
      using True by (simp add: emit_isk12_def k_def m_def)
    then show ?thesis using k12_word [OF u(1) m01, of 0] n u(2) by simp
  next
    case False
    with nz have hi: "k AND 0xfff000 = k" by (auto simp: emit_isk12_def k_def Let_def split: if_splits)
    have eq: "(0xfff000 :: 64 word) = push_bit 12 (mask 12)" by (simp add: mask_eq_exp_minus_1)
    have k: "push_bit 12 (drop_bit 12 k) = k"
      by (subst (2) hi [symmetric], subst hi [symmetric], unfold eq)
        (auto intro!: bit_word_eqI simp: bit_simps)
    have "drop_bit 12 k = drop_bit 12 k AND mask 12"
      by (subst hi [symmetric], unfold eq) (auto intro!: bit_word_eqI simp: bit_simps)
    then have "drop_bit 12 k \<le> mask 12" by (metis word_and_le1)
    then have u: "unat (drop_bit 12 k) < 4096" by (simp add: word_le_nat_alt mask_eq_exp_minus_1)
    have "emit_isk12 n = A64I_K12 OR m OR 0x400000 OR A64F_U12 (ucast (drop_bit 12 k))"
      using False hi by (simp add: emit_isk12_def k_def m_def)
    moreover have "unat (ucast (drop_bit 12 k) :: 32 word) < 4096"
      "ucast (ucast (drop_bit 12 k) :: 32 word) = drop_bit 12 k"
      using ucast_small [of "drop_bit 12 k"] u by simp_all
    ultimately show ?thesis using k12_word [where v = "ucast (drop_bit 12 k)" and m = m and s = "0x400000"] m01 n k
      by simp
  qed
qed

theorem emit_isk12_sound_witness:
  "emit_isk12 0xfffffffffffff000 \<noteq> 0 \<and> k12_value (emit_isk12 0xfffffffffffff000) = 0xfffffffffffff000"
proof -
  have "emit_isk12 0xfffffffffffff000 \<noteq> 0" by code_simp
  then show ?thesis using emit_isk12_sound by blast
qed

section \<open>Wide moves\<close>

text \<open>
  What MOVZ, MOVN and MOVK do to the registers, read off the fields of the word as the
  architecture defines them; the 32 bit forms clear the upper half.
\<close>

definition f_rd :: "32 word \<Rightarrow> nat" where "f_rd w = unat (w AND 31)"
definition f_imm16 :: "32 word \<Rightarrow> 32 word" where "f_imm16 w = drop_bit 5 w AND 0xffff"
definition f_hw :: "32 word \<Rightarrow> nat" where "f_hw w = unat (drop_bit 21 w AND 3)"
definition f_opc :: "32 word \<Rightarrow> 32 word" where "f_opc w = drop_bit 23 w AND 0xff"
definition f_sf :: "32 word \<Rightarrow> bool" where "f_sf w = bit w 31"

definition cut :: "bool \<Rightarrow> 64 word \<Rightarrow> 64 word" where
  "cut sf x = (if sf then x else x AND 0xffffffff)"

definition exec_wide :: "32 word \<Rightarrow> (nat \<Rightarrow> 64 word) \<Rightarrow> (nat \<Rightarrow> 64 word) option" where
  "exec_wide w R =
     (let rd = f_rd w; imm = push_bit (16 * f_hw w) (ucast (f_imm16 w)); sf = f_sf w in
      if f_opc w = 0xa5 then Some (R(rd := cut sf imm))
      else if f_opc w = 0x25 then Some (R(rd := cut sf (NOT imm)))
      else if f_opc w = 0xe5
      then Some (R(rd := cut sf ((R rd AND NOT (push_bit (16 * f_hw w) 0xffff)) OR imm)))
      else None)"

lemma wide_fields:
  fixes is64 :: bool
  assumes c: "c \<in> {A64I_MOVZw, A64I_MOVNw, A64I_MOVKw}" and "unat v < 2 ^ 16" "rd < 32" "i < 4"
    and w: "w = (X_bit is64 OR c OR A64F_U16 v OR A64F_LSL16 (16 * i) OR A64F_D rd)"
  shows "f_rd w = rd" "f_imm16 w = v" "f_hw w = i" "f_sf w = is64" "f_opc w = drop_bit 23 c AND 0xff"
proof -
  define r :: "32 word" where "r = of_nat rd"
  define h :: "32 word" where "h = of_nat i"
  have r: "unat r < 2 ^ 5" "unat r = rd" using assms(3) by (simp_all add: r_def unat_of_nat)
  have h: "unat h < 2 ^ 2" "unat h = i" using assms(4) by (simp_all add: h_def unat_of_nat)
  have lt: "bit r n \<Longrightarrow> n < 5" "bit h n \<Longrightarrow> n < 2" "bit v n \<Longrightarrow> n < 16" for n
    using small_word_bits [OF r(1)] small_word_bits [OF h(1)] small_word_bits [OF assms(2)] by auto
  have m: "31 = (mask 5 :: 32 word)" "0xffff = (mask 16 :: 32 word)" "3 = (mask 2 :: 32 word)"
    "0xff = (mask 8 :: 32 word)" by (simp_all add: mask_eq_exp_minus_1)
  have w': "w = X_bit is64 OR c OR push_bit 5 v OR push_bit 21 h OR r"
    by (simp add: w a64f r_def h_def)
  have xs: "X_bit is64 AND mask 5 = 0" "drop_bit 5 (X_bit is64) AND mask 16 = 0"
    "drop_bit 21 (X_bit is64) AND mask 2 = 0" "drop_bit 23 (X_bit is64) AND mask 8 = (if is64 then 256 AND mask 8 else 0)"
    "bit (X_bit is64) 31 = is64"
    by (simp_all add: X_bit_def a64i mask_eq_exp_minus_1 bit_simps)
  have cs: "c AND mask 5 = 0" "drop_bit 5 c AND mask 16 = 0" "drop_bit 21 c AND mask 2 = 0" "\<not> bit c 31"
    using c by (auto simp: a64i mask_eq_exp_minus_1 bit_simps)
  have vs: "push_bit 5 v AND mask 5 = 0" "drop_bit 5 (push_bit 5 v) AND mask 16 = v"
     "drop_bit 21 (push_bit 5 v) = 0" "drop_bit 23 (push_bit 5 v) = 0" "\<not> bit (push_bit 5 v) 31"
    by (auto intro!: bit_word_eqI simp: bit_simps; drule lt; simp)+
  have hs: "push_bit 21 h AND mask 5 = 0" "drop_bit 5 (push_bit 21 h) AND mask 16 = 0"
     "drop_bit 21 (push_bit 21 h) AND mask 2 = h" "drop_bit 23 (push_bit 21 h) = 0" "\<not> bit (push_bit 21 h) 31"
    by (auto intro!: bit_word_eqI simp: bit_simps; drule lt; simp)+
  have rs: "r AND mask 5 = r" "drop_bit 5 r = 0" "drop_bit 21 r = 0" "drop_bit 23 r = 0" "\<not> bit r 31"
    by (auto intro!: bit_word_eqI simp: bit_simps; drule lt; simp)+
  note fs = w' m word_ao_dist xs cs vs hs rs
  show "f_sf w = is64" by (simp add: f_sf_def w' bit_or_iff xs cs vs hs rs)
  have "w AND mask 5 = r" unfolding w' by (simp only: word_ao_dist xs cs vs hs rs) simp
  then show "f_rd w = rd" by (simp add: f_rd_def r m)
  show "f_imm16 w = v" unfolding f_imm16_def w' m
    by (simp only: drop_bit_or word_ao_dist xs cs vs hs rs) simp
  have "drop_bit 21 w AND mask 2 = h" unfolding w'
    by (simp only: drop_bit_or word_ao_dist xs cs vs hs rs) simp
  then show "f_hw w = i" by (simp add: f_hw_def h m)
  show "f_opc w = drop_bit 23 c AND 0xff" unfolding f_opc_def w' m
    by (simp only: drop_bit_or word_ao_dist xs cs vs hs rs) (simp add: mask_eq_exp_minus_1)
qed

definition exec_wides :: "32 word list \<Rightarrow> (nat \<Rightarrow> 64 word) \<Rightarrow> (nat \<Rightarrow> 64 word) option" where
  "exec_wides ws R = fold (\<lambda>w Ro. Option.bind Ro (exec_wide w)) ws (Some R)"

lemma exec_wides_simps [simp]:
  "exec_wides [] R = Some R"
  "exec_wides (w # ws) R = Option.bind (exec_wide w R) (exec_wides ws)"
proof -
  have "fold (\<lambda>w Ro. Option.bind Ro (exec_wide w)) ws None = None" by (induction ws) auto
  then show "exec_wides (w # ws) R = Option.bind (exec_wide w R) (exec_wides ws)"
    by (cases "exec_wide w R") (simp_all add: exec_wides_def)
qed (simp add: exec_wides_def)

lemma exec_wides_append:
  "exec_wides (vs @ ws) R = Option.bind (exec_wides vs R) (exec_wides ws)"
  by (induction vs arbitrary: R) (auto simp: bind_assoc intro: Option.bind_cong)

text \<open>The constant with the fragments above \<open>j\<close> still as MOVZ or MOVN leave them.\<close>

definition part :: "bool \<Rightarrow> bool \<Rightarrow> 64 word \<Rightarrow> nat \<Rightarrow> 64 word" where
  "part is64 neg u j = cut is64 (let x = take_bit (16 * (j + 1)) u in if neg then NOT x else x)"

lemma bit_cut: "bit (cut sf x) k \<longleftrightarrow> bit x k \<and> (sf \<or> k < 32)"
proof -
  have m: "(0xffffffff :: 64 word) = mask 32" by (simp add: mask_eq_exp_minus_1)
  show ?thesis unfolding cut_def m by (auto simp: bit_simps)
qed

lemma bit_part: "bit (part is64 neg u j) k \<longleftrightarrow>
    (if is64 then k < 64 else k < 32) \<and> ((k < 16 * (j + 1) \<and> bit u k) \<noteq> neg)"
  by (auto simp: part_def bit_cut bit_simps Let_def dest: bit_lt)

lemma bit_frag: "bit (frag u i) n \<longleftrightarrow> n < 16 \<and> bit u (16 * i + n)"
proof -
  have m: "(0xffff :: 64 word) = mask 16" by (simp add: mask_eq_exp_minus_1)
  show ?thesis unfolding frag_def m by (auto simp: bit_simps ac_simps)
qed

lemma frag_small: "unat (frag u i) < 2 ^ 16" "unat (frag u i XOR 0xffff) < 2 ^ 16"
proof -
  have *: "unat w < 2 ^ 16" if "\<And>n. bit w n \<Longrightarrow> n < 16" for w :: "32 word"
  proof -
    have "take_bit 16 w = w" using that by (intro bit_word_eqI) (auto simp: bit_simps)
    then have "unat w = take_bit 16 (unat w)" by (metis unsigned_take_bit_eq)
    then show ?thesis by (metis take_bit_nat_less_exp)
  qed
  have m: "(0xffff :: 32 word) = mask 16" by (simp add: mask_eq_exp_minus_1)
  show "unat (frag u i) < 2 ^ 16" by (rule *) (simp add: bit_frag)
  show "unat (frag u i XOR 0xffff) < 2 ^ 16"
  proof (rule *)
    fix n assume "bit (frag u i XOR 0xffff) n"
    then show "n < 16" unfolding m by (cases "n < 16") (simp_all add: bit_frag bit_simps)
  qed
qed

lemma a64i_opc:
  "drop_bit 23 A64I_MOVZw AND 0xff = 0xa5" "drop_bit 23 A64I_MOVNw AND 0xff = 0x25"
  "drop_bit 23 A64I_MOVKw AND 0xff = 0xe5"
  by (simp_all add: a64i)

definition movk_word :: "bool \<Rightarrow> bool \<Rightarrow> nat \<Rightarrow> 64 word \<Rightarrow> nat \<Rightarrow> 32 word" where
  "movk_word is64 neg rd u i = X_bit is64 OR A64I_MOVKw OR
      A64F_U16 (if neg then frag u i XOR 0xffff else frag u i) OR A64F_LSL16 (16 * i) OR A64F_D rd"

lemma exec_movk:
  assumes "rd < 32" "0 < i" "i < 4" "is64 \<or> i < 2"
  shows "exec_wide (movk_word is64 neg rd u i) (R(rd := part is64 neg u (i - 1))) =
    Some (R(rd := part is64 neg u i))"
proof -
  define v where "v = (if neg then frag u i XOR 0xffff else frag u i)"
  have v: "unat v < 2 ^ 16" using frag_small by (simp add: v_def)
  have m: "(0xffff :: 32 word) = mask 16" "(0xffff :: 64 word) = mask 16"
    by (simp_all add: mask_eq_exp_minus_1)
  have bv: "bit v n \<longleftrightarrow> n < 16 \<and> (bit u (16 * i + n) \<noteq> neg)" for n
    unfolding v_def m by (auto simp: bit_frag bit_simps)
  have "cut is64 ((part is64 neg u (i - 1) AND NOT (push_bit (16 * i) 0xffff)) OR
      push_bit (16 * i) (ucast v)) = part is64 neg u i"
    (is "?l = ?r")
  proof (rule bit_word_eqI)
    fix k assume "k < LENGTH(64)"
    then have "bit ?l k \<longleftrightarrow> (is64 \<or> k < 32) \<and>
        (bit (part is64 neg u (i - 1)) k \<and> \<not> (16 * i \<le> k \<and> k < 16 * i + 16) \<or>
         16 * i \<le> k \<and> k < 16 * i + 16 \<and> bit u k \<noteq> neg)"
      unfolding m by (auto simp: bit_cut bit_simps bv)
    then show "bit ?l k = bit ?r k"
      using assms(2,3,4) \<open>k < LENGTH(64)\<close> by (auto simp: bit_part)
  qed
  then show ?thesis
    using wide_fields [OF _ v assms(1) \<open>i < 4\<close> refl, of A64I_MOVKw is64] unfolding movk_word_def v_def [symmetric]
    by (simp add: exec_wide_def a64i_opc)
qed

lemma mc_movk: "mc (movk is64 neg rd u i st) =
    (if frag u i = 0 then [] else [movk_word is64 neg rd u i]) @ mc st"
  by (simp add: movk_def movk_word_def emit_d_def emit_def ac_simps)

lemma part_skip: "frag u i = 0 \<Longrightarrow> 0 < i \<Longrightarrow> part is64 neg u (i - 1) = part is64 neg u i"
proof (rule bit_word_eqI)
  fix k assume f: "frag u i = 0" and i: "0 < i" and k: "k < LENGTH(64)"
  have "\<not> bit u k" if "16 * i \<le> k" "k < 16 * i + 16"
    using bit_frag [of u i "k - 16 * i"] that f by simp
  then show "bit (part is64 neg u (i - 1)) k = bit (part is64 neg u i) k"
    using i by (cases "16 * i \<le> k") (auto simp: bit_part)
qed

lemma exec_movk_loop:
  assumes "rd < 32" "lo + n < (if is64 then 4 else 2)"
  shows "\<exists>code. mc (movk_loop is64 neg rd u lo n st) = code @ mc st \<and>
    exec_wides code (R(rd := part is64 neg u lo)) = Some (R(rd := part is64 neg u (lo + n)))"
  using assms(2)
proof (induction n arbitrary: st)
  case (Suc n)
  let ?st = "movk is64 neg rd u (lo + Suc n) st"
  from Suc obtain code where code: "mc (movk_loop is64 neg rd u lo n ?st) = code @ mc ?st"
    "exec_wides code (R(rd := part is64 neg u lo)) = Some (R(rd := part is64 neg u (lo + n)))"
    by fastforce
  let ?c = "if frag u (lo + Suc n) = 0 then [] else [movk_word is64 neg rd u (lo + Suc n)]"
  have "exec_wides ?c (R(rd := part is64 neg u (lo + n))) = Some (R(rd := part is64 neg u (lo + Suc n)))"
    using part_skip [of u "lo + Suc n" is64 neg] exec_movk [OF assms(1), of "lo + Suc n" is64 neg u R] Suc.prems
    by (auto split: if_splits)
  then have "exec_wides (code @ ?c) (R(rd := part is64 neg u lo)) = Some (R(rd := part is64 neg u (lo + Suc n)))"
    by (simp add: exec_wides_append code)
  moreover have "mc (movk_loop is64 neg rd u lo (Suc n) st) = (code @ ?c) @ mc st"
    unfolding movk_loop.simps code(1) mc_movk append_assoc ..
  ultimately show ?case by blast
qed simp

lemma exec_mov_base:
  assumes "rd < 32" "lo < (if is64 then 4 else 2)" "\<And>k. k < 16 * lo \<Longrightarrow> \<not> bit u k"
  shows "exec_wide (X_bit is64 OR (if neg then A64I_MOVNw else A64I_MOVZw) OR
      A64F_U16 (frag u lo) OR A64F_LSL16 (16 * lo) OR A64F_D rd) R = Some (R(rd := part is64 neg u lo))"
proof -
  have "push_bit (16 * lo) (ucast (frag u lo) :: 64 word) = take_bit (16 * (lo + 1)) u"
  proof (rule bit_word_eqI)
    fix n assume "n < LENGTH(64)"
    then show "bit (push_bit (16 * lo) (ucast (frag u lo) :: 64 word)) n = bit (take_bit (16 * (lo + 1)) u) n"
      using assms(3) [of n] by (cases "16 * lo \<le> n") (auto simp: bit_simps bit_frag)
  qed
  then show ?thesis
    using wide_fields [OF _ frag_small(1) [of u lo] assms(1) _ refl, of "if neg then A64I_MOVNw else A64I_MOVZw" lo is64]
      assms(2)
    by (auto simp: exec_wide_def a64i_opc part_def Let_def split: if_splits)
qed

lemma clz_eq: "u \<noteq> 0 \<Longrightarrow> emit_clz64 u = 63 - lj_fls64 u"
proof -
  have "list_all (\<lambda>x. x XOR 63 = 63 - x) [0 ..< 64 :: nat]" by code_simp
  then have "x < 64 \<Longrightarrow> x XOR 63 = 63 - x" for x :: nat by (simp add: list_all_iff)
  moreover assume "u \<noteq> 0"
  ultimately show ?thesis using lj_fls64_last [of u] by (simp add: emit_clz64_def)
qed

lemma clz_fls: "u \<noteq> 0 \<Longrightarrow> 63 - emit_clz64 u = lj_fls64 u"
  using lj_fls64_last [of u] by (simp add: clz_eq)

text \<open>
  The wide moves load any constant. Running the words the emitter puts in front of the code
  leaves the 64 bit (or zero extended 32 bit) constant in the register and every other
  register as it was, whether it starts from zeros or from ones, and whichever 16 bit parts it skips.
\<close>

theorem wide_moves_load:
  assumes "rd < 32" "is64 \<or> drop_bit 32 u64 = 0"
  shows "\<exists>code. mc (emit_wide is64 neg rd u64 st) = code @ mc st \<and>
    exec_wides code R = Some (R(rd := u64))"
proof -
  define u where "u = (if neg then (if is64 then NOT u64 else NOT u64 AND 0xffffffff) else u64)"
  define lo where "lo = (if u = 0 then 0 else emit_ctz64 u div 16)"
  define hi where "hi = (if u = 0 then 0 else (63 - emit_clz64 u) div 16)"
  let ?L = "if is64 then 64 else 32 :: nat"
  have m: "(0xffffffff :: 64 word) = mask 32" by (simp add: mask_eq_exp_minus_1)
  have len64: "bit u64 k \<Longrightarrow> k < ?L" for k
  proof (rule ccontr)
    assume b: "bit u64 k" and k: "\<not> k < ?L"
    then have "\<not> is64" "32 \<le> k" by (auto split: if_splits)
    then have "bit (drop_bit 32 u64) (k - 32)" using b by (simp add: bit_drop_bit_eq)
    then show False using assms(2) \<open>\<not> is64\<close> by auto
  qed
  have ub: "bit u k \<longleftrightarrow> k < ?L \<and> (bit u64 k \<noteq> neg)" for k
    using len64 [of k] unfolding u_def m by (auto simp: bit_simps split: if_splits)
  have low: "k < 16 * lo \<Longrightarrow> \<not> bit u k" for k
    using lj_ffs64_first [of u] by (cases "u = 0") (auto simp: lo_def emit_ctz64_def)
  have hi: "bit u k \<Longrightarrow> k < 16 * (hi + 1)" for k
  proof -
    assume b: "bit u k"
    then have u0: "u \<noteq> 0" by auto
    then have "k \<le> lj_fls64 u" using b lj_fls64_last [of u] leI by blast
    then have "k < 16 * (lj_fls64 u div 16 + 1)"
      using div_mult_mod_eq [of "lj_fls64 u" 16] mod_less_divisor [of 16 "lj_fls64 u"] by simp
    then show "k < 16 * (hi + 1)" using u0 by (simp add: hi_def clz_fls)
  qed
  have lohi: "lo \<le> hi"
    using lj_fls64_last [of u] lj_ffs64_first [of u]
    by (cases "u = 0") (auto simp: lo_def hi_def clz_fls emit_ctz64_def intro!: div_le_mono leI)
  have hib: "hi < (if is64 then 4 else 2)"
    using lj_fls64_last [of u] ub [of "lj_fls64 u"]
    by (cases "u = 0") (auto simp: hi_def clz_fls)
  obtain code where code: "mc (movk_loop is64 neg rd u lo (hi - lo) st) = code @ mc st"
    "exec_wides code (R(rd := part is64 neg u lo)) = Some (R(rd := part is64 neg u hi))"
    using exec_movk_loop [OF assms(1), of lo "hi - lo" is64 neg u st R] lohi hib by auto
  have "part is64 neg u hi = u64"
  proof (rule bit_word_eqI)
    fix k assume "k < LENGTH(64)"
    then show "bit (part is64 neg u hi) k = bit u64 k"
      using len64 [of k] hi [of k] ub [of k] by (auto simp: bit_part split: if_splits)
  qed
  moreover define w where "w = (X_bit is64 OR (if neg then A64I_MOVNw else A64I_MOVZw) OR
      A64F_U16 (frag u lo) OR A64F_LSL16 (16 * lo) OR A64F_D rd)"
  moreover have "mc (emit_wide is64 neg rd u64 st) = w # code @ mc st"
    by (simp add: emit_wide_def Let_def emit_d_def emit_def code w_def ac_simps
        flip: u_def lo_def hi_def)
  moreover have "exec_wide w R = Some (R(rd := part is64 neg u lo))"
    unfolding w_def using lohi hib by (intro exec_mov_base [OF assms(1) _ low]) (auto split: if_splits)
  ultimately have "mc (emit_wide is64 neg rd u64 st) = (w # code) @ mc st \<and>
      exec_wides (w # code) R = Some (R(rd := u64))"
    using code(2) by simp
  then show ?thesis by blast
qed

theorem wide_moves_load_witness:
  "\<exists>code. mc (emit_wide True True 7 0xffff1234ffff5678
       \<lparr>mc = [], mctop = 0, mcloop = 0, freeset = 0, cost = (\<lambda>r. 0)\<rparr>) = code \<and>
     exec_wides code (\<lambda>r. 0) = Some ((\<lambda>r. 0)(7 := 0xffff1234ffff5678))"
  using wide_moves_load [of 7 True "0xffff1234ffff5678" True
      "\<lparr>mc = [], mctop = 0, mcloop = 0, freeset = 0, cost = (\<lambda>r. 0)\<rparr>" "\<lambda>r. 0"] by simp

section \<open>Periodic bit patterns\<close>

lemma periodic_mult: "(\<And>k. f (k + a) = f k) \<Longrightarrow> f (k + a * m) = f (k :: nat)"
proof (induction m)
  case (Suc m)
  have "k + a * Suc m = (k + a * m) + a" by simp
  with Suc show ?case by metis
qed simp

lemma periodic_gcd:
  "(\<And>k. f (k + a) = f k) \<Longrightarrow> (\<And>k. f (k + b) = f k) \<Longrightarrow> f (k + gcd a b) = f (k :: nat)"
proof (induction a b arbitrary: k rule: gcd_nat_induct)
  case (step a b)
  have "f (j + a mod b) = f j" for j
    using periodic_mult [of f b "j + a mod b" "a div b", OF step.prems(2)] step.prems(1) [of j]
    by (simp add: add.assoc)
  with step show ?case by (simp add: gcd_red_nat [of a b])
qed simp

lemma periodic_mod: "(\<And>k. f (k + a) = f k) \<Longrightarrow> f (k mod a) = f (k :: nat)"
  using periodic_mult [of f a "k mod a" "k div a"] by simp

text \<open>
  A pattern of 64 bits that starts with a run of ones and ends with a run of zeros, and that
  is its own rotation by the sum of the two lengths, consists of that one run repeated.
\<close>

lemma run_pattern:
  assumes per: "\<And>k. f (k + 64) = f k" "\<And>k. f (k + (ones + zs)) = f (k :: nat)"
    and one: "\<And>k. k < ones \<Longrightarrow> f k" "0 < ones" and zero: "\<And>j. 0 < j \<Longrightarrow> j \<le> zs \<Longrightarrow> \<not> f (64 - j)"
    and "0 < zs" "zs < 64"
  shows "(ones + zs) dvd 64" and "f k \<longleftrightarrow> k mod (ones + zs) < ones"
proof -
  define g where "g = gcd 64 (ones + zs)"
  have pg: "f (k + g) = f k" for k using periodic_gcd [of f 64 "ones + zs", OF per] by (simp add: g_def)
  have g0: "0 < g" "g dvd 64" by (simp_all add: g_def)
  have z: "\<not> f (g - j)" if "0 < j" "j \<le> zs" "j \<le> g" for j
  proof -
    obtain t where t: "64 = g * t" using g0 by (auto elim: dvdE)
    then obtain t' where "t = Suc t'" by (cases t) auto
    then have "64 - j = (g - j) + g * t'" using t that by simp
    then show ?thesis using zero [OF that(1,2)] periodic_mult [of f g "g - j" t', OF pg] by simp
  qed
  have "ones < g"
  proof (rule ccontr)
    assume "\<not> ones < g"
    then have "f (g - 1)" using one(1) [of "g - 1"] g0 by simp
    then show False using z [of 1] assms(6) g0 by simp
  qed
  moreover have "ones + zs \<le> g"
  proof (rule ccontr)
    assume n: "\<not> ones + zs \<le> g"
    show False
    proof (cases "zs \<le> g")
      case True
      then have "g - zs < ones" using n by linarith
      then show False using one(1) z [of zs] True assms(6) by simp
    next
      case False
      then show False using one(1) [of 0] one(2) z [of g] g0 by simp
    qed
  qed
  moreover have "g \<le> ones + zs" using one(2) by (simp add: g_def)
  ultimately have g: "g = ones + zs" by simp
  then show "(ones + zs) dvd 64" using g0 by simp
  have "f (k mod g) = f k" using periodic_mod [of f g, OF pg] .
  moreover have "k mod g < g" using g0 by simp
  moreover have "\<not> f (k mod g)" if "ones \<le> k mod g"
    using z [of "g - k mod g"] that \<open>k mod g < g\<close> g by simp
  ultimately show "f k \<longleftrightarrow> k mod (ones + zs) < ones" using one(1) g by (metis not_le)
qed

section \<open>Adding one\<close>

lemma plus_one_bits:
  assumes "n \<noteq> (- 1 :: 64 word)"
  defines "p \<equiv> lj_ffs64 (NOT n)"
  shows "bit (n + 1) k \<longleftrightarrow> k < 64 \<and> (k = p \<or> p < k \<and> bit n k)" "p < 64" "\<not> bit n p" "j < p \<Longrightarrow> bit n j"
proof -
  have nz: "NOT n \<noteq> 0" using assms(1) by (metis not_eq_complement bit.double_compl bit.compl_zero)
  have p: "p < 64" "\<not> bit n p" "\<And>j. j < p \<Longrightarrow> bit n j"
    using lj_ffs64_first [OF nz] by (auto simp: p_def bit_not_iff)
  then show "p < 64" "\<not> bit n p" "j < p \<Longrightarrow> bit n j" by auto
  define h where "h = n AND NOT (mask (Suc p))"
  have "n = mask p OR h"
    using p by (intro bit_word_eqI) (auto simp: h_def bit_simps less_Suc_eq not_less)
  also have "\<dots> = mask p + h" by (rule disjunctive_add [symmetric]) (auto simp: h_def bit_simps)
  finally have "n + 1 = push_bit p 1 + h" by (simp add: mask_eq_exp_minus_1)
  also have "\<dots> = push_bit p 1 OR h" by (rule disjunctive_add) (auto simp: h_def bit_simps)
  finally show "bit (n + 1) k \<longleftrightarrow> k < 64 \<and> (k = p \<or> p < k \<and> bit n k)"
    using p by (auto simp: h_def bit_simps dest: bit_lt)
qed

section \<open>Logical constants\<close>

text \<open>
  The value of the fields N, immr and imms of a logical instruction: \<open>S + 1\<close> ones in an
  element of \<open>esize\<close> bits, rotated right by \<open>R\<close> and repeated.
\<close>

definition k13_len :: "32 word \<Rightarrow> nat" where
  "k13_len w = (if bit w 22 then 6 else scan_down (\<lambda>i. \<not> bit w (10 + i)) 6)"

definition k13_value :: "32 word \<Rightarrow> 64 word" where
  "k13_value w =
     (let esize = 2 ^ k13_len w; S = unat (drop_bit 10 w AND 63) mod esize;
          R = unat (drop_bit 16 w AND 63) mod esize in
      horner_sum of_bool 2 (List.map (\<lambda>k. (k + R) mod esize \<le> S) [0..<64]))"

lemma bit_k13_value:
  "k < 64 \<Longrightarrow> bit (k13_value w) k \<longleftrightarrow>
     (k + unat (drop_bit 16 w AND 63) mod 2 ^ k13_len w) mod 2 ^ k13_len w
       \<le> unat (drop_bit 10 w AND 63) mod 2 ^ k13_len w"
  by (simp add: k13_value_def Let_def bit_horner_sum_bit_iff)

lemma nat_mod_pow_word:
  assumes "r \<le> 64" "e \<le> 6"
  shows "unat (take_bit e (- of_nat r :: 32 word)) = (64 - r) mod 2 ^ e"
proof -
  have "(64 :: int) = 2 ^ e * 2 ^ (6 - e)" using assms(2) by (simp flip: power_add)
  then have "int ((64 - r) mod 2 ^ e) = (2 ^ e * 2 ^ (6 - e) + - int r) mod 2 ^ e"
    using assms(1) by (simp add: zmod_int of_nat_diff)
  also have "\<dots> = (- int r) mod 2 ^ e" by (rule mod_mult_self4)
  finally have m: "take_bit e (- int r) = int ((64 - r) mod 2 ^ e)" by (simp add: take_bit_eq_mod)
  have "take_bit e (- of_nat r :: 32 word) = word_of_int (take_bit e (- int r))"
    using assms(2) by (simp add: take_bit_word_eq_self flip: take_bit_of_int)
  also have "\<dots> = of_nat ((64 - r) mod 2 ^ e)" by (simp add: m)
  finally have *: "take_bit e (- of_nat r :: 32 word) = of_nat ((64 - r) mod 2 ^ e)" .
  have "(64 - r) mod 2 ^ e < 2 ^ 32"
    using le_less_trans [OF mod_less_eq_dividend [of "64 - r" "2 ^ e"], of "2 ^ 32"] by simp
  then show ?thesis by (simp add: * unat_of_nat)
qed

text \<open>The fields of the word made for \<open>ones\<close> ones in \<open>2 ^ e\<close> bits.\<close>

lemma k13_fields:
  assumes "0 < e" "e \<le> 6" "0 < ones" "ones < 2 ^ e" "rot \<le> 64"
    and w: "w = A64I_K13 OR A64F_IMMR ((- of_nat rot AND (of_nat (2 ^ e) - 1)) OR (of_nat (2 ^ e) AND 64)) OR
      A64F_IMMS ((- push_bit 1 (of_nat (2 ^ e)) OR (of_nat ones - 1)) AND 63)"
  shows "k13_len w = e" "unat (drop_bit 16 w AND 63) mod 2 ^ e = (64 - rot) mod 2 ^ e"
    "unat (drop_bit 10 w AND 63) mod 2 ^ e = ones - 1"
proof -
  define I :: "32 word" where "I = take_bit e (- of_nat rot)"
  define o1 :: "32 word" where "o1 = of_nat ones - 1"
  have e64: "(2 :: nat) ^ e \<le> 64" using power_increasing [OF assms(2), of "2 :: nat"] by simp
  have uo: "unat o1 = ones - 1"
  proof -
    have "o1 = of_nat (ones - 1)" using assms(3) by (simp add: o1_def)
    moreover have "ones - 1 < 2 ^ 32" using assms(4) e64 by simp
    ultimately show ?thesis by (simp add: unat_of_nat)
  qed
  have lo: "bit o1 n \<Longrightarrow> n < e" for n
    using small_word_bits [of o1 e n] uo assms(4) by simp
  have li: "bit I n \<Longrightarrow> n < e" for n by (simp add: I_def bit_simps)
  have n64: "(64 :: 32 word) = push_bit 6 1" "(63 :: 32 word) = mask 6" "A64I_K13 = push_bit 27 (mask 2)"
    by (simp_all add: a64i mask_eq_exp_minus_1)
  have Iw: "- of_nat rot AND (push_bit e 1 - 1) = I"
    by (simp add: I_def take_bit_eq_mask mask_eq_exp_minus_1 push_bit_eq_mult)
  have neg: "- push_bit 1 (push_bit e 1) = (NOT (mask (Suc e)) :: 32 word)"
    by (simp add: push_bit_eq_mult flip: minus_exp_eq_not_mask)
  have pe: "(of_nat (2 ^ e) :: 32 word) = push_bit e 1" by (simp add: push_bit_eq_mult)
  have bw: "bit w n \<longleftrightarrow> n = 27 \<or> n = 28 \<or> 16 \<le> n \<and> (bit I (n - 16) \<or> e = 6 \<and> n = 22) \<or>
      10 \<le> n \<and> n < 16 \<and> (e < n - 10 \<or> bit o1 (n - 10))" if "n < 32" for n
  proof -
    have e: "bit (push_bit e (1 :: 32 word) AND push_bit 6 1) m \<longleftrightarrow> e = 6 \<and> m = 6" for m
      using assms(2) by (simp only: bit_and_iff bit_push_bit_iff bit_1_iff) auto
    have a: "bit (push_bit 27 (mask 2 :: 32 word)) n \<longleftrightarrow> n = 27 \<or> n = 28"
      using that by (auto simp only: bit_push_bit_iff bit_mask_iff) auto
    have b: "bit (push_bit 16 (I OR push_bit e 1 AND push_bit 6 1)) n \<longleftrightarrow>
        16 \<le> n \<and> (bit I (n - 16) \<or> e = 6 \<and> n = 22)"
      using that by (simp only: bit_push_bit_iff bit_or_iff e) auto
    have M: "bit ((NOT (mask (Suc e)) OR o1) AND mask 6) m \<longleftrightarrow> m < 6 \<and> (e < m \<or> bit o1 m)" for m
      by (auto simp: bit_simps)
    have c: "bit (push_bit 10 ((NOT (mask (Suc e)) OR o1) AND mask 6)) n \<longleftrightarrow>
        10 \<le> n \<and> n < 16 \<and> (e < n - 10 \<or> bit o1 (n - 10))"
      using that by (simp only: bit_push_bit_iff M) auto
    have "w = push_bit 27 (mask 2) OR push_bit 16 (I OR push_bit e 1 AND push_bit 6 1) OR
        push_bit 10 ((NOT (mask (Suc e)) OR o1) AND mask 6)"
      unfolding w pe Iw neg n64 A64F_IMMR_def A64F_IMMS_def o1_def ..
    then show ?thesis by (simp only: bit_or_iff a b c) blast
  qed
  have "bit (take_bit e (drop_bit 10 w AND 63)) n = bit o1 n"
    "bit (take_bit e (drop_bit 16 w AND 63)) n = bit I n" if "n < 32" for n
    using that assms(2) lo [of n] li [of n] bw [of "10 + n"] bw [of "16 + n"]
    unfolding n64 by (auto simp: bit_simps)
  then have "take_bit e (drop_bit 10 w AND 63) = o1" "take_bit e (drop_bit 16 w AND 63) = I"
    by (auto intro!: bit_word_eqI)
  then show "unat (drop_bit 16 w AND 63) mod 2 ^ e = (64 - rot) mod 2 ^ e"
    "unat (drop_bit 10 w AND 63) mod 2 ^ e = ones - 1"
    using nat_mod_pow_word [OF assms(5,2)] uo
    by (metis I_def take_bit_eq_mod unsigned_take_bit_eq)+
  show "k13_len w = e"
  proof (cases "e = 6")
    case True
    then show ?thesis using bw [of 22] by (simp add: k13_len_def)
  next
    case False
    then have "\<not> bit w 22" using bw [of 22] li [of 6] assms(2) by auto
    moreover have "bit w (10 + i) \<longleftrightarrow> e < i \<or> bit o1 i" if "i < 6" for i
      using that bw [of "10 + i"] by auto
    then have "scan_down (\<lambda>i. \<not> bit w (10 + i)) 6 = e"
      using scan_down_last [of e 6 "\<lambda>i. \<not> bit w (10 + i)"] False assms(2) lo
      by (metis le_neq_implies_less less_irrefl)
    ultimately show ?thesis by (simp add: k13_len_def)
  qed
qed


lemma dvd_64: "d dvd (64 :: nat) \<Longrightarrow> \<exists>e\<le>6. d = 2 ^ e"
proof -
  have "list_all (\<lambda>d. d dvd 64 \<longrightarrow> list_ex (\<lambda>e. d = 2 ^ e) [0..<7]) [0 ..< 65 :: nat]" by code_simp
  then have "d < 65 \<Longrightarrow> d dvd 64 \<Longrightarrow> \<exists>e<7. d = 2 ^ e"
    by (auto simp: list_all_iff list_ex_iff)
  moreover assume "d dvd 64"
  moreover from this have "d \<le> 64" by (rule dvd_imp_le) simp
  ultimately show ?thesis by force
qed

text \<open>Rotating by \<open>k13_rot\<close> brings a run of ones to the bottom, with a zero before it.\<close>

lemma k13_rot_start:
  assumes "n \<noteq> 0" "n \<noteq> - 1"
  shows "k13_rot n \<le> 64" "bit (lj_ror64 n (k13_rot n mod 64)) 0"
    "\<not> bit (lj_ror64 n (k13_rot n mod 64)) 63"
proof -
  define p where "p = lj_ffs64 (NOT n)"
  note po = plus_one_bits [OF assms(2), folded p_def]
  have m: "bit (n AND (n + 1)) k \<longleftrightarrow> p < k \<and> bit n k" for k
    using po(1) [of k] po(3) by (auto simp: bit_and_iff dest: bit_lt)
  show "k13_rot n \<le> 64"
    using lj_ffs64_first [of "n AND (n + 1)"] by (auto simp: k13_rot_def emit_ctz64_def)
  show "bit (lj_ror64 n (k13_rot n mod 64)) 0" "\<not> bit (lj_ror64 n (k13_rot n mod 64)) 63"
  proof (atomize (full), cases "n AND (n + 1) = 0")
    case True
    then have hi: "\<not> bit n k" if "p < k" for k using m that by (metis bit_0_eq bot_apply bot_bool_def)
    have "p \<noteq> 0"
    proof
      assume "p = 0"
      then have "n = 0" using hi po(3) by (intro bit_word_eqI) (metis bit_0_eq bot_apply bot_bool_def gr0I)
      then show False using assms(1) by simp
    qed
    then show "bit (lj_ror64 n (k13_rot n mod 64)) 0 \<and> \<not> bit (lj_ror64 n (k13_rot n mod 64)) 63"
      using True po(2,3) po(4) [of 0] hi [of 63] by (cases "p = 63") (auto simp: k13_rot_def bit_lj_ror64)
  next
    case False
    define r where "r = lj_ffs64 (n AND (n + 1))"
    have r: "p < r" "bit n r" "r < 64" "\<And>j. j < r \<Longrightarrow> p < j \<Longrightarrow> \<not> bit n j"
      using lj_ffs64_first [OF False] m by (auto simp: r_def)
    have "\<not> bit n (r - 1)" using r(1,4) po(3) by (cases "r - 1 = p") auto
    moreover have "(63 + r) mod 64 = r - 1" using r by (simp add: mod_if)
    ultimately show "bit (lj_ror64 n (k13_rot n mod 64)) 0 \<and> \<not> bit (lj_ror64 n (k13_rot n mod 64)) 63"
      using False r by (simp add: k13_rot_def bit_lj_ror64 emit_ctz64_def flip: r_def)
  qed
qed

text \<open>
  C27. A constant that \<open>emit_isk13\<close> accepts is the bit pattern the processor expands the encoded fields N,
  immr and imms to: a run of ones, rotated and repeated over the register. A 32 bit constant is the
  pattern in both halves.
\<close>

theorem emit_isk13_sound:
  assumes "emit_isk13 n0 is64 \<noteq> 0"
  shows "k13_value (emit_isk13 n0 is64) = (if is64 then n0 else dup32 n0)"
proof -
  define n where "n = (if is64 then n0 else dup32 n0)"
  define rot where "rot = k13_rot n"
  define n' where "n' = lj_ror64 n (rot mod 64)"
  define ones where "ones = emit_ctz64 (NOT n')"
  define zs where "zs = emit_clz64 n'"
  define enc where "enc = A64I_K13 OR
        A64F_IMMR ((- of_nat rot AND (of_nat (zs + ones) - 1)) OR (of_nat (zs + ones) AND 64)) OR
        A64F_IMMS ((- push_bit 1 (of_nat (zs + ones)) OR (of_nat ones - 1)) AND 63)"
  have eq: "emit_isk13 n0 is64 = (if n + 1 \<le> 1 then 0
      else if lj_ror64 n' ((zs + ones) mod 64) \<noteq> n' then 0 else enc)"
    unfolding emit_isk13_def Let_def enc_def zs_def ones_def n'_def rot_def n_def ..
  then have n01: "n \<noteq> 0" "n \<noteq> - 1" and rep: "lj_ror64 n' ((zs + ones) mod 64) = n'"
    and enc: "emit_isk13 n0 is64 = enc"
    using assms by (auto split: if_splits)
  note st = k13_rot_start [OF n01, folded rot_def, folded n'_def]
  define f where "f k = bit n' (k mod 64)" for k
  have nz: "n' \<noteq> 0" "NOT n' \<noteq> 0" using st by (auto dest: arg_cong [of _ _ "\<lambda>w. bit w 63"] simp: bit_not_iff)
  have one: "k < ones \<Longrightarrow> f k" and ones: "ones < 64" "\<not> f ones" for k
    using lj_ffs64_first [OF nz(2)] by (auto simp: ones_def emit_ctz64_def f_def bit_not_iff)
  have zs: "zs = 63 - lj_fls64 n'" using clz_eq [OF nz(1)] by (simp add: zs_def)
  have zero: "\<not> f (64 - j)" if "0 < j" "j \<le> zs" for j
    using lj_fls64_last [OF nz(1)] that by (simp add: zs f_def)
  have "lj_fls64 n' \<noteq> 63" using lj_fls64_last [OF nz(1)] st(3) by metis
  then have pos: "0 < ones" "0 < zs" "zs < 64"
    using ones(2) st(2) lj_fls64_last [OF nz(1)] by (auto simp: zs f_def intro!: gr0I)
  have per: "f (k + 64) = f k" "f (k + (ones + zs)) = f k" for k
  proof -
    show "f (k + 64) = f k" by (simp add: f_def)
    have "f k = bit (lj_ror64 n' ((zs + ones) mod 64)) (k mod 64)" unfolding rep f_def ..
    then show "f (k + (ones + zs)) = f k" by (simp add: bit_lj_ror64 f_def mod_add_eq ac_simps)
  qed
  note run = run_pattern [of f ones zs, OF per one pos(1) zero pos(2,3)]
  obtain e where e: "ones + zs = 2 ^ e" "e \<le> 6" using dvd_64 [OF run(1)] by auto
  then have e': "zs + ones = 2 ^ e" "ones < 2 ^ e" "0 < e" using pos by (auto intro!: gr0I)
  have "bit (k13_value enc) k = bit n k" if k: "k < 64" for k
  proof -
    note fl = k13_fields [OF e'(3) e(2) pos(1) e'(2) st(1) enc_def [unfolded e'(1)]]
    have "bit (k13_value enc) k \<longleftrightarrow> (k + (64 - rot)) mod 2 ^ e < ones"
      using pos(1) by (simp add: bit_k13_value [OF k] fl mod_add_right_eq) linarith
    also have "\<dots> \<longleftrightarrow> f (k + (64 - rot))" using run(2) by (simp add: e)
    also have "\<dots> \<longleftrightarrow> bit n ((k + (64 - rot) + rot) mod 64)"
      by (simp add: f_def n'_def bit_lj_ror64 mod_add_eq)
    also have "\<dots> \<longleftrightarrow> bit n k" using st(1) k by simp
    finally show ?thesis .
  qed
  then have "k13_value enc = n" by (auto intro!: bit_word_eqI)
  then show ?thesis by (simp add: enc n_def)
qed

theorem emit_isk13_sound_witness:
  "emit_isk13 0x3c3c3c3c3c3c3c3c True \<noteq> 0 \<and>
   k13_value (emit_isk13 0x3c3c3c3c3c3c3c3c True) = 0x3c3c3c3c3c3c3c3c"
proof -
  have "emit_isk13 0x3c3c3c3c3c3c3c3c True \<noteq> 0" by code_simp
  then show ?thesis using emit_isk13_sound [of "0x3c3c3c3c3c3c3c3c" True] by simp
qed

end
