(* ===== verification/LJ_Arm64_Exit.thy ===== *)
theory LJ_Arm64_Exit
  imports LJ_Arm64_Sem
begin

text \<open>
  The exits of traces in \<open>LuaJit/include/lj_asm_arm64.h\<close>: exit stubs (\<open>asm_exitstub_setup\<close>), guards (\<open>asm_guardcc\<close>,
  \<open>asm_guardtnb\<close>, \<open>asm_guardcnb\<close>), the branch of a loop (\<open>asm_loop_fixup\<close>), the tail of a trace (\<open>asm_tail_prep\<close>,
  \<open>asm_tail_fixup\<close>) and the linking of exits (\<open>lj_asm_patchexit\<close>), for a little endian target, where \<open>A64I_LE\<close> is the
  identity. Code is a list of words, and a pointer into it an index.
\<close>

section \<open>Branches\<close>

text \<open>The fields the processor reads, and what is left of a branch without its distance.\<close>

definition imm26 :: "32 word \<Rightarrow> int" where "imm26 w = sint (ucast w :: 26 word)"

definition imm19 :: "32 word \<Rightarrow> int" where "imm19 w = sint (ucast (drop_bit 5 w) :: 19 word)"

definition imm14 :: "32 word \<Rightarrow> int" where "imm14 w = sint (ucast (drop_bit 5 w) :: 14 word)"

definition branch64 :: "32 word \<Rightarrow> (32 word \<times> int) option" where
  "branch64 w =
     (if w AND 0xff000000 = 0x54000000 then Some (w AND 0xff00001f, imm19 w)
      else if w AND 0xfc000000 = 0x14000000 then Some (w AND 0xfc000000, imm26 w)
      else if w AND 0x7e000000 = 0x34000000 then Some (w AND 0xff00001f, imm19 w)
      else if w AND 0x7e000000 = 0x36000000 then Some (w AND 0xfff8001f, imm14 w)
      else None)"

lemma masks64:
  "(0x03ffffff :: 32 word) = mask 26" "(0x7ffff :: 32 word) = mask 19" "(0x3fff :: 32 word) = mask 14"
  "(0x00ffffe0 :: 32 word) = push_bit 5 (mask 19)" "(0x0007ffe0 :: 32 word) = push_bit 5 (mask 14)"
  "(0xfc000000 :: 32 word) = NOT (mask 26)" "(0xff00001f :: 32 word) = NOT (push_bit 5 (mask 19))"
  "(0xfff8001f :: 32 word) = NOT (push_bit 5 (mask 14))"
  by (simp_all add: mask_eq_exp_minus_1)

lemma sint_field: "A64F_S_OK d 26 \<Longrightarrow> sint (word_of_int d :: 26 word) = d"
  "A64F_S_OK d 19 \<Longrightarrow> sint (word_of_int d :: 19 word) = d" "A64F_S_OK d 14 \<Longrightarrow> sint (word_of_int d :: 14 word) = d"
  by (simp_all add: A64F_S_OK_range sint_sbintrunc' signed_take_bit_int_eq_self)

lemma branch_imms64:
  "A64F_S_OK d 26 \<Longrightarrow> imm26 (w AND 0xfc000000 OR A64F_S26 d) = d"
  "A64F_S_OK d 19 \<Longrightarrow> imm19 (w AND 0xff00001f OR A64F_S19 d) = d"
  "A64F_S_OK d 14 \<Longrightarrow> imm14 (w AND 0xfff8001f OR A64F_S14 d) = d"
proof -
  have "ucast (w AND 0xfc000000 OR A64F_S26 d) = (word_of_int d :: 26 word)"
    unfolding A64F_S26_def masks64 by (rule bit_word_eqI) (auto simp: bit_simps)
  then show "A64F_S_OK d 26 \<Longrightarrow> imm26 (w AND 0xfc000000 OR A64F_S26 d) = d" by (simp add: imm26_def sint_field)
  have "ucast (drop_bit 5 (w AND 0xff00001f OR A64F_S19 d)) = (word_of_int d :: 19 word)"
    unfolding A64F_S19_def masks64 by (rule bit_word_eqI) (auto simp: bit_simps)
  then show "A64F_S_OK d 19 \<Longrightarrow> imm19 (w AND 0xff00001f OR A64F_S19 d) = d" by (simp add: imm19_def sint_field)
  have "ucast (drop_bit 5 (w AND 0xfff8001f OR A64F_S14 d)) = (word_of_int d :: 14 word)"
    unfolding A64F_S14_def masks64 by (rule bit_word_eqI) (auto simp: bit_simps)
  then show "A64F_S_OK d 14 \<Longrightarrow> imm14 (w AND 0xfff8001f OR A64F_S14 d) = d" by (simp add: imm14_def sint_field)
qed

lemma keep_fields:
  "(w AND 0xfc000000 OR A64F_S26 d) AND 0xfc000000 = w AND 0xfc000000"
  "(w AND 0xff00001f OR A64F_S19 d) AND 0xff00001f = w AND 0xff00001f"
  "(w AND 0xfff8001f OR A64F_S14 d) AND 0xfff8001f = w AND 0xfff8001f"
  unfolding A64F_S26_def A64F_S19_def A64F_S14_def masks64
  by (rule bit_word_eqI, auto simp: bit_simps)+

lemma field_match:
  assumes "k + m \<le> 32"
  shows "((w :: 32 word) XOR push_bit k (word_of_int d)) AND push_bit k (mask m) = 0 \<longleftrightarrow> (\<forall>n < m. bit w (n + k) = bit d n)"
proof
  assume l: "(w XOR push_bit k (word_of_int d)) AND push_bit k (mask m) = 0"
  show "\<forall>n < m. bit w (n + k) = bit d n"
  proof (intro allI impI)
    fix n assume n: "n < m"
    have "\<not> bit ((w XOR push_bit k (word_of_int d)) AND push_bit k (mask m)) (n + k)" unfolding l by simp
    then show "bit w (n + k) = bit d n" using n assms by (simp add: bit_simps)
  qed
next
  assume r: "\<forall>n < m. bit w (n + k) = bit d n"
  show "(w XOR push_bit k (word_of_int d)) AND push_bit k (mask m) = 0"
  proof (rule bit_word_eqI)
    fix n assume "n < LENGTH(32)"
    then show "bit ((w XOR push_bit k (word_of_int d)) AND push_bit k (mask m)) n = bit (0 :: 32 word) n"
      using r [rule_format, of "n - k"] by (auto simp: bit_simps)
  qed
qed

lemma field_eq:
  "ucast (drop_bit k (w :: 32 word)) = (word_of_int d :: 'b::len word) \<longleftrightarrow> (\<forall>n < LENGTH('b). bit w (n + k) = bit d n)"
  by (auto simp: bit_eq_iff bit_simps ac_simps)

text \<open>A field that matches a distance is that distance, if it is in range.\<close>

lemma match_fields:
  "A64F_S_OK d 26 \<Longrightarrow> (w XOR word_of_int d) AND 0x03ffffff = 0 \<longleftrightarrow> imm26 w = d"
  "A64F_S_OK d 19 \<Longrightarrow> (w XOR push_bit 5 (word_of_int d)) AND 0x00ffffe0 = 0 \<longleftrightarrow> imm19 w = d"
  "A64F_S_OK d 14 \<Longrightarrow> (w XOR push_bit 5 (word_of_int d)) AND 0x0007ffe0 = 0 \<longleftrightarrow> imm14 w = d"
proof -
  have e: "sint a = d \<longleftrightarrow> a = word_of_int d" if "sint (word_of_int d :: 'b::len word) = d" for a :: "'b::len word"
  proof
    show "sint a = d \<Longrightarrow> a = word_of_int d" by (drule sym) simp
  qed (simp add: that)
  show "A64F_S_OK d 26 \<Longrightarrow> (w XOR word_of_int d) AND 0x03ffffff = 0 \<longleftrightarrow> imm26 w = d"
    using field_match [of 0 26 w d] field_eq [of 0 w d, where 'b = 26] unfolding masks64 by (simp add: imm26_def e sint_field)
  show "A64F_S_OK d 19 \<Longrightarrow> (w XOR push_bit 5 (word_of_int d)) AND 0x00ffffe0 = 0 \<longleftrightarrow> imm19 w = d"
    using field_match [of 5 19 w d] field_eq [of 5 w d, where 'b = 19] unfolding masks64 by (simp add: imm19_def e sint_field)
  show "A64F_S_OK d 14 \<Longrightarrow> (w XOR push_bit 5 (word_of_int d)) AND 0x0007ffe0 = 0 \<longleftrightarrow> imm14 w = d"
    using field_match [of 5 14 w d] field_eq [of 5 w d, where 'b = 14] unfolding masks64 by (simp add: imm14_def e sint_field)
qed


section \<open>Linking exits\<close>

definition A64I_ORRx :: "32 word" where "A64I_ORRx = 0xaa000000"

definition ARM64_NOPATCH_GC_CHECK :: "32 word" where
  "ARM64_NOPATCH_GC_CHECK = A64I_ORRx OR A64F_D RID_ZERO OR A64F_M RID_ZERO OR A64F_N RID_ZERO"

text \<open>
  \<open>ws\<close> are the words from the start of a trace on, its code and the exit stubs behind, \<open>before\<close> is the word in front, and
  \<open>target\<close> the index of the new trace. The state of the loop has \<open>patchlong\<close> and \<open>cstart\<close>.
\<close>

definition patch_word64 :: "32 word \<Rightarrow> nat \<Rightarrow> int \<Rightarrow> nat \<Rightarrow> 32 word list \<times> bool \<times> nat option \<Rightarrow> 32 word list \<times> bool \<times> nat option" where
  "patch_word64 before px target p s =
     (let (ws, patchlong, cstart) = s; delta = target - int p; ins = ws ! p; off = int px - int p;
          patched = (\<lambda>w. (ws[p := w], patchlong, if cstart = None then Some p else cstart)) in
      if ins AND 0xff000000 = 0x54000000 \<and> (ins XOR push_bit 5 (word_of_int off)) AND 0x00ffffe0 = 0 then
        if A64F_S_OK delta 19 then patched (ins AND 0xff00001f OR A64F_S19 delta) else s
      else if ins AND 0xfc000000 = 0x14000000 \<and> (ins XOR word_of_int off) AND 0x03ffffff = 0 then
        patched (ins AND 0xfc000000 OR A64F_S26 delta)
      else if ins AND 0x7e000000 = 0x34000000 \<and> (ins XOR push_bit 5 (word_of_int off)) AND 0x00ffffe0 = 0 then
        if (if p = 0 then before else ws ! (p - 1)) = ARM64_NOPATCH_GC_CHECK then (ws, False, cstart)
        else if A64F_S_OK delta 19 then patched (ins AND 0xff00001f OR A64F_S19 delta) else s
      else if ins AND 0x7e000000 = 0x36000000 \<and> (ins XOR push_bit 5 (word_of_int off)) AND 0x0007ffe0 = 0 then
        if A64F_S_OK delta 14 then patched (ins AND 0xfff8001f OR A64F_S14 delta) else s
      else s)"

text \<open>
  The result has the words and the range of the instruction cache to be synchronised. \<open>None\<close> stands for a scan for the
  exit stubs that leaves the code.
\<close>

definition lj_asm_patchexit_arm64 ::
  "32 word \<Rightarrow> nat \<Rightarrow> nat \<Rightarrow> int \<Rightarrow> 32 word list \<Rightarrow> (32 word list \<times> (nat \<times> nat) option) option" where
  "lj_asm_patchexit_arm64 before n exitno target ws =
     (case exitstub_trace_addr (drop n ws) n exitno of None \<Rightarrow> None
      | Some px \<Rightarrow>
          let (ws, patchlong, cstart) = fold (patch_word64 before px target) [0..<n] (ws, True, None);
              (ws, cstart) =
                (if patchlong then (ws[px := A64I_B OR A64F_S26 (target - int px)], if cstart = None then Some px else cstart)
                 else (ws, cstart)) in
          Some (ws, map_option (\<lambda>c. (c, px + 1)) cstart))"

text \<open>What a word is to become.\<close>

definition exits64 :: "nat \<Rightarrow> 32 word list \<Rightarrow> nat \<Rightarrow> bool" where
  "exits64 px ws p \<longleftrightarrow> (\<exists>b. branch64 (ws ! p) = Some (b, int px - int p))"

definition gc64 :: "32 word \<Rightarrow> nat \<Rightarrow> 32 word list \<Rightarrow> nat \<Rightarrow> bool" where
  "gc64 before px ws p \<longleftrightarrow> exits64 px ws p \<and> ws ! p AND 0x7e000000 = 0x34000000 \<and>
     (if p = 0 then before else ws ! (p - 1)) = ARM64_NOPATCH_GC_CHECK"

definition fits64 :: "32 word \<Rightarrow> int \<Rightarrow> bool" where
  "fits64 w d \<longleftrightarrow> A64F_S_OK d (if w AND 0xff000000 = 0x54000000 then 19 else if w AND 0xfc000000 = 0x14000000 then 26
     else if w AND 0x7e000000 = 0x34000000 then 19 else 14)"

definition relink64 :: "32 word \<Rightarrow> int \<Rightarrow> 32 word" where
  "relink64 w d =
     (if w AND 0xff000000 = 0x54000000 then w AND 0xff00001f OR A64F_S19 d
      else if w AND 0xfc000000 = 0x14000000 then w AND 0xfc000000 OR A64F_S26 d
      else if w AND 0x7e000000 = 0x34000000 then w AND 0xff00001f OR A64F_S19 d
      else w AND 0xfff8001f OR A64F_S14 d)"

text \<open>A test branch whose field matches that of the exit is in range of it.\<close>

definition near14 :: "nat \<Rightarrow> 32 word list \<Rightarrow> nat \<Rightarrow> bool" where
  "near14 px ws p \<longleftrightarrow> (ws ! p AND 0x7e000000 = 0x36000000 \<and>
     (ws ! p XOR push_bit 5 (word_of_int (int px - int p))) AND 0x0007ffe0 = 0 \<longrightarrow> A64F_S_OK (int px - int p) 14)"

lemma high_kept:
  "(w AND 0xff00001f OR A64F_S19 d) AND 0xff000000 = w AND 0xff000000"
  "(w AND 0xff00001f OR A64F_S19 d) AND 0xfc000000 = w AND 0xfc000000"
  "(w AND 0xff00001f OR A64F_S19 d) AND 0x7e000000 = w AND 0x7e000000"
  "(w AND 0xfc000000 OR A64F_S26 d) AND 0xfc000000 = w AND 0xfc000000"
  "(w AND 0xfff8001f OR A64F_S14 d) AND 0xff000000 = w AND 0xff000000"
  "(w AND 0xfff8001f OR A64F_S14 d) AND 0xfc000000 = w AND 0xfc000000"
  "(w AND 0xfff8001f OR A64F_S14 d) AND 0x7e000000 = w AND 0x7e000000"
proof -
  have m: "(0xff000000 :: 32 word) = push_bit 24 (mask 8)" "(0x7e000000 :: 32 word) = push_bit 25 (mask 6)"
    by (simp_all add: mask_eq_exp_minus_1)
  show "(w AND 0xff00001f OR A64F_S19 d) AND 0xff000000 = w AND 0xff000000"
    "(w AND 0xff00001f OR A64F_S19 d) AND 0xfc000000 = w AND 0xfc000000"
    "(w AND 0xff00001f OR A64F_S19 d) AND 0x7e000000 = w AND 0x7e000000"
    "(w AND 0xfc000000 OR A64F_S26 d) AND 0xfc000000 = w AND 0xfc000000"
    "(w AND 0xfff8001f OR A64F_S14 d) AND 0xff000000 = w AND 0xff000000"
    "(w AND 0xfff8001f OR A64F_S14 d) AND 0xfc000000 = w AND 0xfc000000"
    "(w AND 0xfff8001f OR A64F_S14 d) AND 0x7e000000 = w AND 0x7e000000"
    unfolding A64F_S26_def A64F_S19_def A64F_S14_def masks64 m
    by (rule bit_word_eqI, auto simp: bit_simps)+
qed

lemma b_not_bcc: "w AND 0xfc000000 = 0x14000000 \<Longrightarrow> w AND 0xff000000 \<noteq> (0x54000000 :: 32 word)"
proof
  assume a: "w AND 0xfc000000 = 0x14000000" "w AND 0xff000000 = 0x54000000"
  have "bit (w AND 0xfc000000) 30 = bit w 30" "bit (w AND 0xff000000) 30 = bit w 30" by (simp_all add: bit_simps)
  then show False unfolding a by simp
qed

lemma relink64_goes:
  assumes "branch64 w = Some (b, e)" "fits64 w d"
  shows "branch64 (relink64 w d) = Some (b, d)" "relink64 w d \<noteq> ARM64_NOPATCH_GC_CHECK"
proof -
  have m: "branch64 ARM64_NOPATCH_GC_CHECK = None"
    by (simp add: branch64_def ARM64_NOPATCH_GC_CHECK_def A64I_ORRx_def A64F_D_def A64F_M_def A64F_N_def RID_ZERO_def rid_bounds)
  show r: "branch64 (relink64 w d) = Some (b, d)"
  proof (cases "w AND 0xff000000 \<noteq> 0x54000000 \<and> w AND 0xfc000000 = 0x14000000")
    case True
    define x where x: "x = relink64 w d"
    have e: "x = w AND 0xfc000000 OR A64F_S26 d" using True by (simp only: x relink64_def) simp
    have i: "imm26 x = d" using assms(2) True unfolding e by (intro branch_imms64) (simp add: fits64_def)
    have h: "x AND 0xfc000000 = w AND 0xfc000000" unfolding e by (rule high_kept)
    have nb: "x AND 0xff000000 \<noteq> 0x54000000" using True h by (intro b_not_bcc) simp
    show ?thesis using assms(1) True nb h i unfolding x [symmetric] by (auto simp: branch64_def)
  next
    case False
    then show ?thesis using assms
      by (auto simp: branch64_def relink64_def fits64_def branch_imms64 keep_fields high_kept split: if_splits)
  qed
  show "relink64 w d \<noteq> ARM64_NOPATCH_GC_CHECK" using r m by auto
qed


text \<open>One round of the loop, and the whole loop.\<close>

lemma ok_wider: "A64F_S_OK d 19 \<Longrightarrow> A64F_S_OK d 26"
  by (simp add: A64F_S_OK_range)

lemma patch_word64_step:
  assumes "A64F_S_OK (int px - int p) 19" "near14 px ws p" "A64F_S_OK (target - int p) 26"
  shows "patch_word64 before px target p (ws, long, cs) =
    (if gc64 before px ws p then (ws, False, cs)
     else if exits64 px ws p \<and> fits64 (ws ! p) (target - int p)
     then (ws[p := relink64 (ws ! p) (target - int p)], long, if cs = None then Some p else cs)
     else (ws, long, cs))"
proof -
  define off where off: "off = int px - int p"
  let ?w = "ws ! p" and ?off = off
  have e: "patch_word64 before px target p (ws, long, cs) =
     (let patched = (\<lambda>w. (ws[p := w], long, if cs = None then Some p else cs)) in
      if ?w AND 0xff000000 = 0x54000000 \<and> (?w XOR push_bit 5 (word_of_int off)) AND 0x00ffffe0 = 0 then
        if A64F_S_OK (target - int p) 19 then patched (?w AND 0xff00001f OR A64F_S19 (target - int p)) else (ws, long, cs)
      else if ?w AND 0xfc000000 = 0x14000000 \<and> (?w XOR word_of_int off) AND 0x03ffffff = 0 then
        patched (?w AND 0xfc000000 OR A64F_S26 (target - int p))
      else if ?w AND 0x7e000000 = 0x34000000 \<and> (?w XOR push_bit 5 (word_of_int off)) AND 0x00ffffe0 = 0 then
        if (if p = 0 then before else ws ! (p - 1)) = ARM64_NOPATCH_GC_CHECK then (ws, False, cs)
        else if A64F_S_OK (target - int p) 19 then patched (?w AND 0xff00001f OR A64F_S19 (target - int p)) else (ws, long, cs)
      else if ?w AND 0x7e000000 = 0x36000000 \<and> (?w XOR push_bit 5 (word_of_int off)) AND 0x0007ffe0 = 0 then
        if A64F_S_OK (target - int p) 14 then patched (?w AND 0xfff8001f OR A64F_S14 (target - int p)) else (ws, long, cs)
      else (ws, long, cs))"
    unfolding patch_word64_def Let_def prod.case off ..
  have ex: "exits64 px ws p \<longleftrightarrow> (\<exists>b. branch64 ?w = Some (b, off))" by (simp add: exits64_def off)
  note assms' = assms(1,2) [unfolded near14_def, folded off]
  have m14: "?w AND 0x7e000000 = 0x36000000 \<Longrightarrow> (?w XOR push_bit 5 (word_of_int ?off)) AND 0x0007ffe0 = 0 \<longleftrightarrow> imm14 ?w = ?off"
  proof -
    assume t: "?w AND 0x7e000000 = 0x36000000"
    show ?thesis
    proof (cases "A64F_S_OK ?off 14")
      case True
      then show ?thesis by (rule match_fields(3))
    next
      case False
      have "A64F_S_OK (imm14 ?w) 14"
        using sint_ge [of "ucast (drop_bit 5 ?w) :: 14 word"] sint_lt [of "ucast (drop_bit 5 ?w) :: 14 word"]
        by (simp add: A64F_S_OK_range imm14_def)
      then show ?thesis using False assms'(2) t by auto
    qed
  qed
  note m = match_fields(1) [OF ok_wider [OF assms'(1)]] match_fields(2) [OF assms'(1)]
  note defs = e Let_def gc64_def ex fits64_def relink64_def branch64_def
  have k: "?w AND 0xfc000000 = 0x14000000 \<Longrightarrow> ?w AND 0x7e000000 \<noteq> 0x34000000 \<and> ?w AND 0x7e000000 \<noteq> 0x36000000"
  proof -
    assume a: "?w AND 0xfc000000 = 0x14000000"
    have "bit (?w AND 0xfc000000) 29 = bit ?w 29" "bit (?w AND 0x7e000000) 29 = bit ?w 29" by (simp_all add: bit_simps)
    then have "\<not> bit (?w AND 0x7e000000) 29" unfolding a by simp
    then show ?thesis by auto
  qed
  have k': "?w AND 0xff000000 = 0x54000000 \<Longrightarrow> ?w AND 0x7e000000 \<noteq> 0x34000000 \<and> ?w AND 0x7e000000 \<noteq> 0x36000000"
  proof -
    assume a: "?w AND 0xff000000 = 0x54000000"
    have "bit (?w AND 0xff000000) 29 = bit ?w 29" "bit (?w AND 0x7e000000) 29 = bit ?w 29" by (simp_all add: bit_simps)
    then have "\<not> bit (?w AND 0x7e000000) 29" unfolding a by simp
    then show ?thesis by auto
  qed
  consider (bcc) "?w AND 0xff000000 = 0x54000000" | (b) "?w AND 0xff000000 \<noteq> 0x54000000" "?w AND 0xfc000000 = 0x14000000"
    | (cbz) "?w AND 0xff000000 \<noteq> 0x54000000" "?w AND 0xfc000000 \<noteq> 0x14000000" "?w AND 0x7e000000 = 0x34000000"
    | (tbz) "?w AND 0xff000000 \<noteq> 0x54000000" "?w AND 0xfc000000 \<noteq> 0x14000000" "?w AND 0x7e000000 \<noteq> 0x34000000" "?w AND 0x7e000000 = 0x36000000"
    | (no) "?w AND 0xff000000 \<noteq> 0x54000000" "?w AND 0xfc000000 \<noteq> 0x14000000" "?w AND 0x7e000000 \<noteq> 0x34000000" "?w AND 0x7e000000 \<noteq> 0x36000000"
    by blast
  then show ?thesis
  proof cases
    case bcc
    then have "?w AND 0xfc000000 \<noteq> 0x14000000" using b_not_bcc by blast
    then show ?thesis using k' bcc by (simp add: defs m)
  next
    case b
    then show ?thesis using k assms(3) by (simp add: defs m)
  next
    case cbz
    then show ?thesis by (simp add: defs m)
  next
    case tbz
    then show ?thesis using m14 by (simp add: defs m)
  next
    case no
    then show ?thesis by (simp add: defs)
  qed
qed

definition new64 :: "32 word \<Rightarrow> nat \<Rightarrow> int \<Rightarrow> 32 word list \<Rightarrow> nat \<Rightarrow> 32 word" where
  "new64 before px target ws p =
     (if \<not> gc64 before px ws p \<and> exits64 px ws p \<and> fits64 (ws ! p) (target - int p)
      then relink64 (ws ! p) (target - int p) else ws ! p)"

lemma new64_marker:
  "new64 before px target ws p = ARM64_NOPATCH_GC_CHECK \<longleftrightarrow> ws ! p = ARM64_NOPATCH_GC_CHECK"
proof -
  have "branch64 ARM64_NOPATCH_GC_CHECK = None"
    by (simp add: branch64_def ARM64_NOPATCH_GC_CHECK_def A64I_ORRx_def A64F_D_def A64F_M_def A64F_N_def RID_ZERO_def rid_bounds)
  then show ?thesis using relink64_goes(2) by (auto simp: new64_def exits64_def)
qed

lemma patch_loop64:
  assumes "\<forall>p < n. A64F_S_OK (int px - int p) 19 \<and> near14 px ws p \<and> A64F_S_OK (target - int p) 26" "n \<le> length ws" "i \<le> n"
    "fold (patch_word64 before px target) [0..<i] (ws, True, None) = (ws', long, cs)"
  shows "length ws' = length ws" "\<forall>p < length ws. ws' ! p = (if p < i then new64 before px target ws p else ws ! p)"
    "long \<longleftrightarrow> (\<forall>p < i. \<not> gc64 before px ws p)"
    "(\<forall>p < i. ws' ! p \<noteq> ws ! p \<longrightarrow> (\<exists>c \<le> p. cs = Some c)) \<and> (\<forall>c. cs = Some c \<longrightarrow> c < i)"
proof -
  have "length ws' = length ws \<and> (\<forall>p < length ws. ws' ! p = (if p < i then new64 before px target ws p else ws ! p)) \<and>
    (long \<longleftrightarrow> (\<forall>p < i. \<not> gc64 before px ws p)) \<and>
    (\<forall>p < i. ws' ! p \<noteq> ws ! p \<longrightarrow> (\<exists>c \<le> p. cs = Some c)) \<and> (\<forall>c. cs = Some c \<longrightarrow> c < i)"
    using assms(3,4)
  proof (induction i arbitrary: ws' long cs)
    case 0
    then show ?case by simp
  next
    case (Suc i)
    obtain w l c where f: "fold (patch_word64 before px target) [0..<i] (ws, True, None) = (w, l, c)" by (metis prod_cases3)
    note IH = Suc.IH [OF _ f]
    have i: "i < n" "i \<le> n" "i < length ws" using Suc.prems(1) assms(2) by simp_all
    have len: "length w = length ws" and at: "\<forall>p < length ws. w ! p = (if p < i then new64 before px target ws p else ws ! p)"
      and l: "l \<longleftrightarrow> (\<forall>p < i. \<not> gc64 before px ws p)"
      and c: "\<forall>p < i. w ! p \<noteq> ws ! p \<longrightarrow> (\<exists>k \<le> p. c = Some k)" "\<forall>k. c = Some k \<longrightarrow> k < i" using IH i by auto
    have wi: "w ! i = ws ! i" using at i by simp
    have "i \<noteq> 0 \<Longrightarrow> w ! (i - 1) = new64 before px target ws (i - 1)" using at i by simp
    then have gc: "gc64 before px w i = gc64 before px ws i"
      using new64_marker [of before px target ws "i - 1"] by (auto simp: gc64_def exits64_def wi)
    have ex: "exits64 px w i = exits64 px ws i" "near14 px w i = near14 px ws i" by (simp_all add: exits64_def near14_def wi)
    have s: "(ws', long, cs) = (if gc64 before px ws i then (w, False, c)
       else if exits64 px ws i \<and> fits64 (ws ! i) (target - int i)
       then (w[i := relink64 (ws ! i) (target - int i)], l, if c = None then Some i else c) else (w, l, c))"
    proof -
      have "(ws', long, cs) = patch_word64 before px target i (w, l, c)" using Suc.prems(2) f by simp
      also have "\<dots> = (if gc64 before px w i then (w, False, c)
       else if exits64 px w i \<and> fits64 (w ! i) (target - int i)
       then (w[i := relink64 (w ! i) (target - int i)], l, if c = None then Some i else c) else (w, l, c))"
        by (rule patch_word64_step) (use assms(1) i ex(2) in simp_all)
      finally show ?thesis unfolding gc ex wi .
    qed
    show ?case
    proof (cases "gc64 before px ws i")
      case True
      then have "new64 before px target ws i = ws ! i" by (simp add: new64_def)
      then show ?thesis using s len at l c True wi by (auto simp: less_Suc_eq)
    next
      case False
      show ?thesis
      proof (cases "exits64 px ws i \<and> fits64 (ws ! i) (target - int i)")
        case True
        then have "new64 before px target ws i = relink64 (ws ! i) (target - int i)" using False by (simp add: new64_def)
        moreover have "ws' = w[i := relink64 (ws ! i) (target - int i)]" "long = l" "cs = (if c = None then Some i else c)"
          using s True False by simp_all
        ultimately show ?thesis using len at l c i False by (auto simp: less_Suc_eq nth_list_update le_less)
      next
        case no: False
        then have "new64 before px target ws i = ws ! i" by (auto simp: new64_def)
        then show ?thesis using s len at l c no False wi by (auto simp: less_Suc_eq)
      qed
    qed
  qed
  then show "length ws' = length ws" "\<forall>p < length ws. ws' ! p = (if p < i then new64 before px target ws p else ws ! p)"
    "long \<longleftrightarrow> (\<forall>p < i. \<not> gc64 before px ws p)"
    "(\<forall>p < i. ws' ! p \<noteq> ws ! p \<longrightarrow> (\<exists>c \<le> p. cs = Some c)) \<and> (\<forall>c. cs = Some c \<longrightarrow> c < i)" by blast+
qed


text \<open>Where the branch at an index goes.\<close>

definition goes64 :: "32 word list \<Rightarrow> nat \<Rightarrow> (32 word \<times> int) option" where
  "goes64 ws p = map_option (\<lambda>(b, d). (b, int p + d)) (branch64 (ws ! p))"

lemma goes64_exits: "goes64 ws p = Some (b, int px) \<longleftrightarrow> branch64 (ws ! p) = Some (b, int px - int p)"
  by (auto simp: goes64_def)

text \<open>The stub is behind the code.\<close>

lemma stub_index:
  "exitstub_trace_addr vs q exitno = Some px \<Longrightarrow> q + 3 + exitno \<le> px \<and> px < q + length vs + 3 + exitno"
  by (induction vs q exitno rule: exitstub_trace_addr.induct) (auto split: if_splits)

lemma stub_branch: "A64F_S_OK d 26 \<Longrightarrow> branch64 (A64I_B OR A64F_S26 d) = Some (A64I_B, d)"
  using branch_imms64(1) [of d A64I_B] keep_fields(1) [of A64I_B d] b_not_bcc [of "A64I_B OR A64F_S26 d"]
  by (simp add: A64I_B_def branch64_def)

text \<open>
  A trace is linked on ARM64. If the branches are in range, \<open>lj_asm_patchexit\<close> changes only branches to the
  stub of the exit, which then go to the new trace under the same condition, and the stub itself, to a jump there. Every
  branch to the stub is changed or still goes to the stub, and the stub is the jump to the new trace unless the exit
  belongs to a check of the collector, whose branch is not changed. What changed is within the range that is synchronised.
\<close>

theorem arm64_patchexit_links:
  assumes "exitstub_trace_addr (drop n ws) n exitno = Some px" "px < length ws" "px < 2 ^ 18" "n \<le> length ws"
    "\<forall>p < n. near14 px ws p" "\<forall>p \<le> px. A64F_S_OK (target - int p) 26"
  shows "\<exists>ws' sync. lj_asm_patchexit_arm64 before n exitno target ws = Some (ws', sync) \<and> length ws' = length ws \<and>
    (\<forall>p < length ws. ws' ! p = ws ! p \<or> p = px \<or> p < n \<and> (\<exists>b. goes64 ws p = Some (b, int px) \<and> goes64 ws' p = Some (b, target))) \<and>
    (\<forall>p < n. \<forall>b. goes64 ws p = Some (b, int px) \<longrightarrow> goes64 ws' p = Some (b, target) \<or>
       ws' ! p = ws ! p \<and> (goes64 ws' px = Some (A64I_B, target) \<or> (\<exists>q < n. gc64 before px ws q))) \<and>
    (\<forall>p < n. gc64 before px ws p \<longrightarrow> ws' ! p = ws ! p \<and> ws' ! px = ws ! px) \<and>
    (\<forall>p < length ws. ws' ! p \<noteq> ws ! p \<longrightarrow> (\<exists>a b. sync = Some (a, b) \<and> a \<le> p \<and> p < b))"
proof -
  obtain w long cs where f: "fold (patch_word64 before px target) [0..<n] (ws, True, None) = (w, long, cs)" by (metis prod_cases3)
  have px: "n + 3 \<le> px" using stub_index [OF assms(1)] by simp
  have "\<forall>p < n. A64F_S_OK (int px - int p) 19 \<and> near14 px ws p \<and> A64F_S_OK (target - int p) 26"
    using assms(3,5,6) px by (auto simp: A64F_S_OK_range)
  note l = patch_loop64 [OF this assms(4) order_refl f]
  define ws' where "ws' = (if long then w[px := A64I_B OR A64F_S26 (target - int px)] else w)"
  define sync where "sync = map_option (\<lambda>c. (c, px + 1)) (if long \<and> cs = None then Some px else cs)"
  have r: "lj_asm_patchexit_arm64 before n exitno target ws = Some (ws', sync)"
    by (simp add: lj_asm_patchexit_arm64_def assms(1) f ws'_def sync_def Let_def)
  have len: "length ws' = length ws" using l(1) by (simp add: ws'_def)
  have at: "ws' ! p = (if p < n then new64 before px target ws p else if p = px \<and> long then A64I_B OR A64F_S26 (target - int px) else ws ! p)"
    if "p < length ws" for p
    using that l(1,2) px by (auto simp: ws'_def nth_list_update)
  have new: "new64 before px target ws p = ws ! p \<or>
      (\<exists>b. goes64 ws p = Some (b, int px) \<and> branch64 (new64 before px target ws p) = Some (b, target - int p))" for p
    using relink64_goes(1) by (auto simp: new64_def exits64_def goes64_exits)
  have stub: "goes64 ws' px = Some (A64I_B, target)" if long
    using that at [OF assms(2)] px stub_branch assms(6) by (simp add: goes64_def)
  have one: "ws' ! p = ws ! p \<or> p = px \<or> p < n \<and> (\<exists>b. goes64 ws p = Some (b, int px) \<and> goes64 ws' p = Some (b, target))"
    if "p < length ws" for p
    using at [OF that] new [of p] by (auto simp: goes64_def)
  have two: "goes64 ws' p = Some (b, target) \<or>
       ws' ! p = ws ! p \<and> (goes64 ws' px = Some (A64I_B, target) \<or> (\<exists>q < n. gc64 before px ws q))"
    if "p < n" "goes64 ws p = Some (b, int px)" for p b
    using one [of p] that px assms(2) stub l(3) by (cases long) auto
  have three: "ws' ! p = ws ! p \<and> ws' ! px = ws ! px" if "p < n" "gc64 before px ws p" for p
    using that at [of p] at [OF assms(2)] l(3) px assms(2) by (auto simp: new64_def)
  have four: "\<exists>a b. sync = Some (a, b) \<and> a \<le> p \<and> p < b" if "p < length ws" "ws' ! p \<noteq> ws ! p" for p
  proof (cases "p < n")
    case True
    then have "w ! p \<noteq> ws ! p" using that at [of p] l(2) by simp
    then obtain c where "c \<le> p" "cs = Some c" using l(4) True by blast
    then show ?thesis using True px by (simp add: sync_def)
  next
    case False
    then have "p = px" long using that at [of p] by (auto split: if_splits)
    then show ?thesis using l(4) px by (cases cs) (auto simp: sync_def)
  qed
  show ?thesis
    by (rule exI [of _ ws'], rule exI [of _ sync]) (intro conjI r len; use one two three four in blast)
qed

text \<open>
  A conditional branch, a compare and branch, and a jump, all to the stub of the second exit, and three words and two
  stubs behind a no-op: linked to a trace 100000 words away, the jump and the stub are changed.
\<close>

definition demo64 :: "32 word list" where
  "demo64 = [A64I_BCC OR A64F_S19 8 OR 1, 0xb5000000 OR A64F_S19 7 OR 3, A64I_B OR A64F_S26 6,
     A64I_NOP, 0xf90003fe, 0x94000100, 0x52800020, 0x97fffffd, 0x97fffffc]"

lemma demo64_range: "\<forall>p \<le> 8. A64F_S_OK (100000 - int p) 26"
  by (auto simp: A64F_S_OK_range)

theorem arm64_patchexit_links_witness:
  "\<exists>ws' sync. lj_asm_patchexit_arm64 0 3 1 100000 demo64 = Some (ws', sync) \<and> length ws' = 9 \<and> ws' ! 7 = demo64 ! 7"
proof -
  have n: "length demo64 = 9" "8 < length demo64" "3 \<le> length demo64" by (simp_all add: demo64_def)
  have px: "exitstub_trace_addr (drop 3 demo64) 3 1 = Some 8" by (simp add: demo64_def A64I_NOP_def)
  have near: "\<forall>p < 3. near14 8 demo64 p"
  proof (intro allI impI)
    fix p :: nat assume "p < 3"
    then have "A64F_S_OK (int 8 - int p) 14" by (simp add: A64F_S_OK_range)
    then show "near14 8 demo64 p" unfolding near14_def by blast
  qed
  have lt: "(8 :: nat) < 2 ^ 18" by simp
  obtain ws' sync where w: "lj_asm_patchexit_arm64 0 3 1 100000 demo64 = Some (ws', sync)" "length ws' = length demo64"
    and c: "\<forall>p < length demo64. ws' ! p = demo64 ! p \<or> p = 8 \<or>
      p < 3 \<and> (\<exists>b. goes64 demo64 p = Some (b, int 8) \<and> goes64 ws' p = Some (b, 100000))"
    using arm64_patchexit_links [OF px n(2) lt n(3) near demo64_range, of 0]
    by (elim exE conjE) (rule that, assumption+)
  have "ws' ! 7 = demo64 ! 7" using c [rule_format, of 7] n(1) by simp
  then show ?thesis using w n(1) by auto
qed

end
