(* ===== verification/LJ_Arm64_Loop.thy ===== *)
theory LJ_Arm64_Loop
  imports LJ_Arm64_Exit
begin

text \<open>
  Exit stubs, guards, the branch of a loop and the tail of a trace in \<open>LuaJit/include/lj_asm_arm64.h\<close>, on the state of
  the emitter: the words from \<open>mcp\<close> to \<open>mctop\<close>.
\<close>

section \<open>Exit stubs\<close>

datatype exit64_error = MCLIM64

fun stub_words64 :: "nat \<Rightarrow> 32 word list \<Rightarrow> 32 word list" where
  "stub_words64 0 ws = ws"
| "stub_words64 (Suc i) ws = stub_words64 i ((A64I_BL OR A64F_S26 (- 3 - int i)) # ws)"

definition word_dist :: "64 word \<Rightarrow> 64 word \<Rightarrow> int" where "word_dist a b = drop_bit 2 (sint (a - b))"

text \<open>The stubs are the words below the old \<open>mctop\<close>; \<open>mclim\<close> and \<open>redz\<close> are the limit of the code area and its red zone.\<close>

definition asm_exitstub_setup_arm64 ::
  "64 word \<Rightarrow> nat \<Rightarrow> 64 word \<Rightarrow> 32 word \<Rightarrow> nat \<Rightarrow> asm64 \<Rightarrow> exit64_error + (32 word list \<times> asm64)" where
  "asm_exitstub_setup_arm64 mclim redz handler traceno nexits st =
     (if mctop st - 4 * of_nat (nexits + 3 + redz) < mclim then Inl MCLIM64
      else
        let ws = stub_words64 nexits [];
            ws = (A64I_MOVZw OR A64F_U16 traceno) # ws;
            mxp = mctop st - 4 * of_nat (length ws + 1);
            ws = (A64I_BL OR A64F_S26 (word_dist handler mxp)) # ws;
            ws = (A64I_STRx OR A64F_D (RID ''LR'') OR A64F_N (RID ''SP'')) # ws in
        Inr (ws, st\<lparr>mctop := mctop st - 4 * of_nat (length ws)\<rparr>))"

definition asm_exitstub_addr_arm64 :: "asm64 \<Rightarrow> nat \<Rightarrow> 64 word" where
  "asm_exitstub_addr_arm64 st exitno = mctop st + 4 * of_nat (exitno + 3)"

text \<open>The processor: instruction pointer, link register, and what is stored at the stack pointer.\<close>

definition stub_exec64 :: "32 word list \<Rightarrow> 64 word \<Rightarrow> 64 word \<times> 64 word \<times> 64 word \<Rightarrow> (64 word \<times> 64 word \<times> 64 word) option" where
  "stub_exec64 ws base = (\<lambda>(ip, lr, slot).
     let k = unat (ip - base) div 4; w = ws ! k in
     if length ws \<le> k then None
     else if w AND 0xfc000000 = 0x94000000 then Some (ip + 4 * word_of_int (imm26 w), ip + 4, slot)
     else if w = 0xf90003fe then Some (ip + 4, lr, lr) else None)"

lemma stub_words64_eq: "stub_words64 n ws = List.map (\<lambda>i. A64I_BL OR A64F_S26 (- 3 - int i)) [0..<n] @ ws"
  by (induction n arbitrary: ws) simp_all

lemma imm26_bl: "A64F_S_OK d 26 \<Longrightarrow> imm26 (A64I_BL OR A64F_S26 d) = d" "(A64I_BL OR A64F_S26 d) AND 0xfc000000 = 0x94000000"
  using branch_imms64(1) [of d A64I_BL] keep_fields(1) [of A64I_BL d] by (simp_all add: A64I_BL_def)

lemma str_lr: "A64I_STRx OR A64F_D (RID ''LR'') OR A64F_N (RID ''SP'') = 0xf90003fe"
  by (simp add: A64I_STRx_def A64F_D_def A64F_N_def rid_bounds)

lemma word_dist_back: "drop_bit 2 (sint (a - b)) * 4 = sint (a - b) \<Longrightarrow> b + 4 * word_of_int (word_dist a b) = a"
proof -
  assume a: "drop_bit 2 (sint (a - b)) * 4 = sint (a - b)"
  have "(word_of_int (word_dist a b * 4) :: 64 word) = word_of_int (sint (a - b))" by (simp only: word_dist_def a)
  then show ?thesis by (simp add: mult.commute)
qed

lemma unat_small: "m < 2 ^ 64 \<Longrightarrow> unat (of_nat m :: 64 word) = m"
  by (simp add: unat_of_nat take_bit_nat_eq_self)

lemma movz_fields:
  assumes "unat traceno < 2 ^ 16"
  shows "(A64I_MOVZw OR A64F_U16 traceno) AND 0xffe00000 = A64I_MOVZw" "drop_bit 5 (A64I_MOVZw OR A64F_U16 traceno) AND 0xffff = traceno"
proof -
  have m: "(0xffe00000 :: 32 word) = NOT (mask 21)" "(0xffff :: 32 word) = mask 16" by (simp_all add: mask_eq_exp_minus_1)
  have "A64F_U16 traceno AND 0xffe00000 = 0"
    unfolding m A64F_U16_def by (rule bit_word_eqI) (auto simp: bit_simps dest: small_word_bits [OF assms])
  then show "(A64I_MOVZw OR A64F_U16 traceno) AND 0xffe00000 = A64I_MOVZw" by (simp add: word_ao_dist A64I_MOVZw_def)
  have "drop_bit 5 (A64F_U16 traceno) = traceno" unfolding A64F_U16_def by (rule field_drop [of _ 16]) (use assms in simp_all)
  moreover have "traceno AND 0xffff = traceno" unfolding m by (rule and_mask_low) (use assms in simp)
  moreover have "drop_bit 5 A64I_MOVZw AND 0xffff = 0" by (simp add: A64I_MOVZw_def)
  ultimately show "drop_bit 5 (A64I_MOVZw OR A64F_U16 traceno) AND 0xffff = traceno" by (simp add: drop_bit_or word_ao_dist)
qed

text \<open>
  Every exit reaches the exit handler on ARM64. From the stub of an exit the processor is at the handler after three
  instructions, the return address of the stub is on the stack, and the link register points at the word with the
  number of the trace; the distance of the two gives the number of the exit. Past the no-ops that the tail of
  the trace may leave, the stub is where \<open>exitstub_trace_addr\<close> looks for it.
\<close>

theorem arm64_exits_reach_handler:
  assumes "asm_exitstub_setup_arm64 mclim redz handler traceno nexits st = Inr (ws, st')" "i < nexits" "nexits < 2 ^ 20"
    "word_dist handler (mctop st' + 4) * 4 = sint (handler - (mctop st' + 4))" "A64F_S_OK (word_dist handler (mctop st' + 4)) 26"
    "unat traceno < 2 ^ 16"
  shows "\<exists>s1 s2 slot. stub_exec64 ws (mctop st') (asm_exitstub_addr_arm64 st' i, lr, sl) = Some s1 \<and>
    stub_exec64 ws (mctop st') s1 = Some s2 \<and> stub_exec64 ws (mctop st') s2 = Some (handler, mctop st' + 8, slot) \<and>
    ws ! 2 AND 0xffe00000 = A64I_MOVZw \<and> drop_bit 5 (ws ! 2) AND 0xffff = traceno \<and>
    unat (drop_bit 2 (slot - (mctop st' + 8))) - 2 = i \<and>
    exitstub_trace_addr (replicate k 0xd503201f @ ws) n i = Some (n + k + 3 + i)"
proof -
  have r: "Inr (ws, st') = asm_exitstub_setup_arm64 mclim redz handler traceno nexits st" using assms(1) by simp
  have top: "mctop st' = mctop st - 4 * of_nat (nexits + 3)"
    using r by (simp add: asm_exitstub_setup_arm64_def Let_def stub_words64_eq split: if_splits)
  then have t4: "mctop st - 4 * of_nat (nexits + 2) = mctop st' + 4" by (simp add: algebra_simps)
  have "Inr (ws, st') = (Inr (0xf90003fe # (A64I_BL OR A64F_S26 (word_dist handler (mctop st - 4 * of_nat (nexits + 2)))) #
      (A64I_MOVZw OR A64F_U16 traceno) # List.map (\<lambda>i. A64I_BL OR A64F_S26 (- 3 - int i)) [0..<nexits],
      st\<lparr>mctop := mctop st - 4 * of_nat (nexits + 3)\<rparr>) :: exit64_error + _)"
    using r by (simp add: asm_exitstub_setup_arm64_def Let_def str_lr stub_words64_eq algebra_simps split: if_splits)
  then have ws: "ws = 0xf90003fe # (A64I_BL OR A64F_S26 (word_dist handler (mctop st' + 4))) # (A64I_MOVZw OR A64F_U16 traceno) #
      List.map (\<lambda>i. A64I_BL OR A64F_S26 (- 3 - int i)) [0..<nexits]"
    unfolding t4 by simp
  have len: "length ws = nexits + 3" by (simp add: ws)
  have at: "ws ! (i + 3) = A64I_BL OR A64F_S26 (- 3 - int i)" using assms(2) by (simp add: ws)
  have k: "unat (asm_exitstub_addr_arm64 st' i - mctop st') = 4 * (i + 3)"
    using assms(2,3) by (simp add: asm_exitstub_addr_arm64_def unat_word_ariths unat_of_nat take_bit_nat_eq_self flip: of_nat_add)
  have ok: "A64F_S_OK (- 3 - int i) 26" using assms(2,3) by (simp add: A64F_S_OK_range)
  let ?slot = "asm_exitstub_addr_arm64 st' i + 4"
  have s1: "stub_exec64 ws (mctop st') (asm_exitstub_addr_arm64 st' i, lr, sl) = Some (mctop st', ?slot, sl)"
    using at k len assms(2) imm26_bl(1) [OF ok] imm26_bl(2) by (simp add: stub_exec64_def Let_def) (simp add: asm_exitstub_addr_arm64_def)
  have s2: "stub_exec64 ws (mctop st') (mctop st', ?slot, sl) = Some (mctop st' + 4, ?slot, ?slot)"
    by (simp add: stub_exec64_def ws)
  have s3: "stub_exec64 ws (mctop st') (mctop st' + 4, ?slot, ?slot) = Some (handler, mctop st' + 8, ?slot)"
    using imm26_bl(1) [OF assms(5)] imm26_bl(2) word_dist_back [OF assms(4) [unfolded word_dist_def]]
    by (simp add: stub_exec64_def ws word_dist_def)
  have "?slot - (mctop st' + 8) = of_nat (4 * (i + 2))" by (simp add: asm_exitstub_addr_arm64_def algebra_simps)
  moreover have "unat (of_nat (4 * (i + 2)) :: 64 word) = 4 * (i + 2)"
    by (rule unat_small) (use assms(2,3) in simp)
  ultimately have "unat (?slot - (mctop st' + 8)) = 4 * (i + 2)" by simp
  then have d: "unat (drop_bit 2 (?slot - (mctop st' + 8))) - 2 = i" by (simp only: unat_drop_bit_eq drop_bit_nat_def) simp
  have m: "ws ! 2 AND 0xffe00000 = A64I_MOVZw" "drop_bit 5 (ws ! 2) AND 0xffff = traceno"
    using movz_fields [OF assms(6)] by (simp_all add: ws)
  have e: "exitstub_trace_addr (replicate k 0xd503201f @ ws) n i = Some (n + k + 3 + i)"
    by (induction k arbitrary: n) (simp_all add: ws)
  show ?thesis using s1 s2 s3 d m e by blast
qed


section \<open>Guards and the branch of a loop\<close>

text \<open>The fields of \<open>ASMState\<close> in use besides those of the emitter. \<open>None\<close> stands for \<open>NULL\<close>.\<close>

record loop64 =
  lasm64 :: asm64
  invmcp64 :: "64 word option"
  loopinv64 :: bool
  loopref64 :: "16 word"
  orignins64 :: "16 word"
  past64 :: "32 word list"

text \<open>\<open>room\<close> is the word that is in the code area before it is written.\<close>

definition asm_tail_prep_arm64 :: "32 word \<Rightarrow> loop64 \<Rightarrow> loop64" where
  "asm_tail_prep_arm64 room s =
     (if loopref64 s \<noteq> 0
      then let a = (lasm64 s)\<lparr>mc := [0]\<rparr> in s\<lparr>lasm64 := a, invmcp64 := Some (mcp a)\<rparr>
      else s\<lparr>lasm64 := (lasm64 s)\<lparr>mc := [room, 0]\<rparr>, invmcp64 := None\<rparr>)"

text \<open>The jump that leaves the loop is written over the word at \<open>mcp\<close>; the inverted branch in front goes to itself for now.\<close>

definition inverted64 :: "64 word \<Rightarrow> loop64 \<Rightarrow> loop64" where
  "inverted64 target s =
     (let a = lasm64 s in
      s\<lparr>loopinv64 := True, lasm64 := a\<lparr>mc := (A64I_B OR A64F_S26 (word_dist target (mcp a))) # tl (mc a)\<rparr>\<rparr>)"

definition asm_guardcc_arm64 :: "nat \<Rightarrow> 32 word \<Rightarrow> loop64 \<Rightarrow> loop64" where
  "asm_guardcc_arm64 snapno cc s =
     (let a = lasm64 s; target = asm_exitstub_addr_arm64 a snapno; p = mcp a in
      if invmcp64 s = Some p then
        let s = inverted64 target s in s\<lparr>lasm64 := emit_cond_branch (cc XOR 1) (p - 4) (lasm64 s)\<rparr>
      else s\<lparr>lasm64 := emit_cond_branch cc target a\<rparr>)"

definition asm_guardtnb_arm64 :: "nat \<Rightarrow> 32 word \<Rightarrow> nat \<Rightarrow> 32 word \<Rightarrow> loop64 \<Rightarrow> bool \<times> loop64" where
  "asm_guardtnb_arm64 snapno ai r b s =
     (let a = lasm64 s; target = asm_exitstub_addr_arm64 a snapno; p = mcp a; delta = word_dist target p in
      if invmcp64 s = Some p then
        if orignins64 s > 1023 then (False, s)
        else let s = inverted64 target s in (True, s\<lparr>lasm64 := emit_tnb (ai XOR 0x01000000) r b (p - 4) (lasm64 s)\<rparr>)
      else if delta \<ge> 0x1fff then (False, s)
      else (True, s\<lparr>lasm64 := emit_tnb ai r b target a\<rparr>))"

definition asm_guardcnb_arm64 :: "nat \<Rightarrow> 32 word \<Rightarrow> nat \<Rightarrow> loop64 \<Rightarrow> loop64" where
  "asm_guardcnb_arm64 snapno ai r s =
     (let a = lasm64 s; target = asm_exitstub_addr_arm64 a snapno; p = mcp a in
      if invmcp64 s = Some p then
        let s = inverted64 target s in s\<lparr>lasm64 := emit_cnb (ai XOR 0x01000000) r (p - 4) (lasm64 s)\<rparr>
      else s\<lparr>lasm64 := emit_cnb ai r target a\<rparr>)"

definition asm_loop_fixup_arm64 :: "loop64 \<Rightarrow> loop64" where
  "asm_loop_fixup_arm64 s =
     (let a = lasm64 s; ws = mc a; n = length ws; target = mcp a; p = mctop a in
      if loopinv64 s then
        let w = ws ! (n - 2);
            mask = (if w AND 0x7e000000 = 0x36000000 then 0x3fff else 0x7ffff);
            delta = word_dist target (p - 8) in
        s\<lparr>lasm64 := a\<lparr>mc := ws[n - 2 := w OR push_bit 5 (word_of_int delta AND mask)]\<rparr>\<rparr>
      else
        let delta = word_dist target (p - 4) in
        s\<lparr>lasm64 := a\<lparr>mc := ws[n - 1 := A64I_B OR A64F_S26 delta]\<rparr>\<rparr>)"

text \<open>
  \<open>spadjust\<close> is the stack adjustment of the trace, and \<open>lnk\<close> whether it is linked to another one, whose code, or else
  that of \<open>lj_vm_exit_interp\<close>, is at \<open>target\<close>.
\<close>

definition asm_tail_fixup_arm64 :: "bool \<Rightarrow> 32 word \<Rightarrow> 64 word \<Rightarrow> loop64 \<Rightarrow> loop64" where
  "asm_tail_fixup_arm64 lnk spadjust target s =
     (let spadj = spadjust + (if lnk then 0 else word_of_int (sps_scale SPS_FIXED)); a = lasm64 s; n = length (mc a);
          s = (if spadj = 0
               then s\<lparr>lasm64 := a\<lparr>mctop := mctop a - 4, mc := take (n - 1) (mc a)\<rparr>, past64 := A64I_NOP # past64 s\<rparr>
               else
                 let k = emit_isk12 (scast spadj) in
                 s\<lparr>lasm64 := a\<lparr>mc := (mc a)[n - 2 := (A64I_ADDx XOR k) OR A64F_D (RID ''SP'') OR A64F_N (RID ''SP'')]\<rparr>\<rparr>);
          a = lasm64 s; p = mctop a in
      s\<lparr>lasm64 := a\<lparr>mc := (mc a)[length (mc a) - 1 := A64I_B OR A64F_S26 (word_dist target p + 1)]\<rparr>\<rparr>)"

text \<open>What the processor tests: the flags for a condition, a register for zero, or a bit of it.\<close>

record cpu64 =
  flag_N :: bool
  flag_Z :: bool
  flag_C :: bool
  flag_V :: bool
  xregs :: "nat \<Rightarrow> 64 word"

definition cond64 :: "cpu64 \<Rightarrow> 32 word \<Rightarrow> bool" where
  "cond64 C cc =
     (let k = unat (drop_bit 1 cc);
          b = (if k = 0 then flag_Z C else if k = 1 then flag_C C else if k = 2 then flag_N C else if k = 3 then flag_V C
               else if k = 4 then flag_C C \<and> \<not> flag_Z C else if k = 5 then flag_N C = flag_V C
               else if k = 6 then flag_N C = flag_V C \<and> \<not> flag_Z C else True) in
      if bit cc 0 \<and> cc \<noteq> 15 then \<not> b else b)"

definition taken64 :: "cpu64 \<Rightarrow> 32 word \<Rightarrow> bool" where
  "taken64 C b =
     (let x = xregs C (unat (b AND 31)) in
      if b AND 0xff000000 = 0x54000000 then cond64 C (b AND 15)
      else if b AND 0xfc000000 = 0x14000000 then True
      else if b AND 0x7e000000 = 0x34000000 then ((if bit b 31 then x else x AND mask 32) = 0) \<noteq> bit b 24
      else bit x (unat (drop_bit 19 b AND 31) + (if bit b 31 then 32 else 0)) = bit b 24)"

fun lands64 :: "nat \<Rightarrow> cpu64 \<Rightarrow> 64 word \<Rightarrow> 32 word list \<Rightarrow> 64 word" where
  "lands64 (Suc n) C ip (w # ws) =
     (case branch64 w of
        Some (b, d) \<Rightarrow> if taken64 C b then ip + 4 * word_of_int d else lands64 n C (ip + 4) ws
      | None \<Rightarrow> ip)"
| "lands64 _ C ip _ = ip"


text \<open>The three kinds of guards: their word without the distance, when they leave, and their inverse.\<close>

datatype guard64 = Gcc "32 word" | Gtnb "32 word" nat "32 word" | Gcnb "32 word" nat

fun guard_ok64 :: "guard64 \<Rightarrow> bool" where
  "guard_ok64 (Gcc cc) \<longleftrightarrow> cc < 14"
| "guard_ok64 (Gtnb ai r b) \<longleftrightarrow> ai \<in> {0x36000000, 0x37000000} \<and> r < 32 \<and> b < 64"
| "guard_ok64 (Gcnb ai r) \<longleftrightarrow> ai \<in> {0x34000000, 0x35000000, 0xb4000000, 0xb5000000} \<and> r < 32"

fun guard_word64 :: "guard64 \<Rightarrow> 32 word" where
  "guard_word64 (Gcc cc) = A64I_BCC OR cc"
| "guard_word64 (Gtnb ai r b) = (if 31 < b then ai OR A64I_X else ai) OR A64F_BIT (b AND 31) OR of_nat r"
| "guard_word64 (Gcnb ai r) = ai OR of_nat r"

fun guard_dist64 :: "guard64 \<Rightarrow> int \<Rightarrow> 32 word" where
  "guard_dist64 (Gtnb ai r b) d = A64F_S14 d"
| "guard_dist64 _ d = A64F_S19 d"

fun guard_fits64 :: "guard64 \<Rightarrow> int \<Rightarrow> bool" where
  "guard_fits64 (Gtnb ai r b) d = A64F_S_OK d 14"
| "guard_fits64 _ d = A64F_S_OK d 19"

fun guard_leaves64 :: "cpu64 \<Rightarrow> guard64 \<Rightarrow> bool" where
  "guard_leaves64 C (Gcc cc) = cond64 C cc"
| "guard_leaves64 C (Gtnb ai r b) = (bit (xregs C r) (unat b) = bit ai 24)"
| "guard_leaves64 C (Gcnb ai r) = (((if bit ai 31 then xregs C r else xregs C r AND mask 32) = 0) \<noteq> bit ai 24)"

fun guard_inverse64 :: "guard64 \<Rightarrow> guard64" where
  "guard_inverse64 (Gcc cc) = Gcc (cc XOR 1)"
| "guard_inverse64 (Gtnb ai r b) = Gtnb (ai XOR 0x01000000) r b"
| "guard_inverse64 (Gcnb ai r) = Gcnb (ai XOR 0x01000000) r"

lemma below_14: "(cc :: 32 word) < 14 \<Longrightarrow> cc \<in> {0, 1, 2, 3, 4, 5, 6, 7, 8, 9, 10, 11, 12, 13}"
proof -
  assume "cc < 14"
  then have "unat cc < 14" by (simp add: word_less_nat_alt)
  then have "unat cc \<in> set [0..<14]" by simp
  then have "cc \<in> of_nat ` set [0..<14]" by (intro image_eqI [of _ _ "unat cc"]) simp_all
  then show ?thesis by (simp add: upt_rec)
qed

lemma reg_bits: "r < 32 \<Longrightarrow> bit (of_nat r :: 32 word) n \<Longrightarrow> n < 5"
proof -
  assume "r < 32" "bit (of_nat r :: 32 word) n"
  moreover have "unat (of_nat r :: 32 word) = r" using \<open>r < 32\<close> by (simp add: unat_of_nat take_bit_nat_eq_self)
  ultimately show "n < 5" using small_word_bits [of "of_nat r" 5 n] by simp
qed

lemma reg_nat_bits: "r < 32 \<Longrightarrow> bit (r :: nat) n \<Longrightarrow> n < 5"
proof (rule ccontr)
  assume a: "r < 32" "bit r n" "\<not> n < 5"
  then have "(2 :: nat) ^ 5 \<le> 2 ^ n" by (intro power_increasing) simp_all
  then have "r div 2 ^ n = 0" using a(1) by simp
  then show False using a(2) by (simp add: bit_iff_odd)
qed

lemma guard_inverse_ok:
  assumes "guard_ok64 g"
  shows "guard_ok64 (guard_inverse64 g)" "guard_leaves64 C (guard_inverse64 g) \<longleftrightarrow> \<not> guard_leaves64 C g"
proof -
  show "guard_ok64 (guard_inverse64 g)"
  proof (cases g)
    case (Gcc cc)
    then show ?thesis using assms below_14 [of cc] by auto
  qed (use assms in auto)
  show "guard_leaves64 C (guard_inverse64 g) \<longleftrightarrow> \<not> guard_leaves64 C g"
  proof (cases g)
    case (Gcc cc)
    then show ?thesis using assms below_14 [of cc] by (auto simp: cond64_def)
  qed (use assms in auto)
qed

lemma guard_word_keeps:
  assumes "guard_ok64 g"
  shows "(case g of Gtnb ai r b \<Rightarrow> guard_word64 g AND 0xfff8001f | _ \<Rightarrow> guard_word64 g AND 0xff00001f) = guard_word64 g"
proof (cases g)
  case (Gcc cc)
  then show ?thesis using assms below_14 [of cc] by (auto simp: A64I_BCC_def)
next
  case (Gtnb ai r b)
  have "of_nat r AND 0xfff8001f = (of_nat r :: 32 word)"
    unfolding masks64 using assms Gtnb by (intro bit_word_eqI) (auto simp: bit_simps dest: reg_bits)
  moreover have "A64F_BIT (b AND 31) AND 0xfff8001f = A64F_BIT (b AND 31)"
    unfolding masks64 A64F_BIT_def by (intro bit_word_eqI) (auto simp: bit_simps)
  ultimately show ?thesis using assms Gtnb by (auto simp: word_ao_dist A64I_X_def)
next
  case (Gcnb ai r)
  have "of_nat r AND 0xff00001f = (of_nat r :: 32 word)"
    unfolding masks64 using assms Gcnb by (intro bit_word_eqI) (auto simp: bit_simps dest: reg_bits)
  then show ?thesis using assms Gcnb by (auto simp: word_ao_dist)
qed


text \<open>The fields of a guard, read back.\<close>

lemma tnb_fields:
  assumes "guard_ok64 (Gtnb ai r b)"
  defines "w \<equiv> guard_word64 (Gtnb ai r b)"
  shows "w AND 0xff000000 \<noteq> 0x54000000" "w AND 0xfc000000 \<noteq> 0x14000000" "w AND 0x7e000000 = 0x36000000"
    "w AND 31 = of_nat r" "drop_bit 19 w AND 31 = b AND 31" "bit w 31 \<longleftrightarrow> 31 < b" "bit w 24 \<longleftrightarrow> bit ai 24"
proof -
  have m: "(0xff000000 :: 32 word) = push_bit 24 (mask 8)" "(0xfc000000 :: 32 word) = push_bit 26 (mask 6)"
    "(0x7e000000 :: 32 word) = push_bit 25 (mask 6)" "(31 :: 32 word) = mask 5" by (simp_all add: mask_eq_exp_minus_1)
  have r: "of_nat r AND push_bit 24 (mask 8) = (0 :: 32 word)" "of_nat r AND push_bit 26 (mask 6) = (0 :: 32 word)"
    "of_nat r AND push_bit 25 (mask 6) = (0 :: 32 word)" "of_nat r AND mask 5 = (of_nat r :: 32 word)"
    "drop_bit 19 (of_nat r :: 32 word) = 0"
    using assms(1) by (auto intro!: bit_word_eqI simp: bit_simps dest: reg_bits reg_nat_bits)
  have f: "A64F_BIT (b AND mask 5) AND push_bit 24 (mask 8) = 0" "A64F_BIT (b AND mask 5) AND push_bit 26 (mask 6) = 0"
    "A64F_BIT (b AND mask 5) AND push_bit 25 (mask 6) = 0" "A64F_BIT (b AND mask 5) AND mask 5 = 0"
    "drop_bit 19 (A64F_BIT (b AND mask 5)) AND mask 5 = b AND mask 5"
    unfolding A64F_BIT_def by (auto intro!: bit_word_eqI simp: bit_simps)
  have n: "\<not> bit (of_nat r :: 32 word) 31" "\<not> bit (of_nat r :: 32 word) 24" "\<not> bit (A64F_BIT (b AND 31)) 31" "\<not> bit (A64F_BIT (b AND 31)) 24"
    using assms(1) reg_bits [of r 31] reg_bits [of r 24] by (auto simp: A64F_BIT_def m bit_simps)
  have o: "ai = 0x36000000 \<or> ai = 0x37000000" using assms(1) by simp
  show "w AND 0xff000000 \<noteq> 0x54000000" "w AND 0xfc000000 \<noteq> 0x14000000" "w AND 0x7e000000 = 0x36000000"
    "w AND 31 = of_nat r" "drop_bit 19 w AND 31 = b AND 31"
    using o r [folded m] f [folded m] unfolding w_def by (auto simp: word_ao_dist drop_bit_or A64I_X_def)
  show "bit w 31 \<longleftrightarrow> 31 < b" "bit w 24 \<longleftrightarrow> bit ai 24"
    using o n unfolding w_def by (auto simp: bit_or_iff A64I_X_def)
qed

lemma cnb_fields:
  assumes "guard_ok64 (Gcnb ai r)"
  defines "w \<equiv> guard_word64 (Gcnb ai r)"
  shows "w AND 0xff000000 \<noteq> 0x54000000" "w AND 0xfc000000 \<noteq> 0x14000000" "w AND 0x7e000000 = 0x34000000"
    "w AND 31 = of_nat r" "bit w 31 \<longleftrightarrow> bit ai 31" "bit w 24 \<longleftrightarrow> bit ai 24"
proof -
  have m: "(0xff000000 :: 32 word) = push_bit 24 (mask 8)" "(0xfc000000 :: 32 word) = push_bit 26 (mask 6)"
    "(0x7e000000 :: 32 word) = push_bit 25 (mask 6)" "(31 :: 32 word) = mask 5" by (simp_all add: mask_eq_exp_minus_1)
  have r: "of_nat r AND push_bit 24 (mask 8) = (0 :: 32 word)" "of_nat r AND push_bit 26 (mask 6) = (0 :: 32 word)"
    "of_nat r AND push_bit 25 (mask 6) = (0 :: 32 word)" "of_nat r AND mask 5 = (of_nat r :: 32 word)"
    using assms(1) by (auto intro!: bit_word_eqI simp: bit_simps dest: reg_bits)
  have n: "\<not> bit (of_nat r :: 32 word) 31" "\<not> bit (of_nat r :: 32 word) 24"
    using assms(1) reg_bits [of r 31] reg_bits [of r 24] by auto
  have o: "ai = 0x34000000 \<or> ai = 0x35000000 \<or> ai = 0xb4000000 \<or> ai = 0xb5000000" using assms(1) by simp
  show "w AND 0xff000000 \<noteq> 0x54000000" "w AND 0xfc000000 \<noteq> 0x14000000" "w AND 0x7e000000 = 0x34000000" "w AND 31 = of_nat r"
    using o r [folded m] unfolding w_def by (auto simp: word_ao_dist)
  show "bit w 31 \<longleftrightarrow> bit ai 31" "bit w 24 \<longleftrightarrow> bit ai 24"
    using o n unfolding w_def by (auto simp: bit_or_iff)
qed

lemma cc_fields:
  assumes "guard_ok64 (Gcc cc)"
  shows "guard_word64 (Gcc cc) AND 0xff000000 = 0x54000000" "guard_word64 (Gcc cc) AND 15 = cc"
  using assms below_14 [of cc] by (auto simp: A64I_BCC_def)

lemma low_and_high: "n < 64 \<Longrightarrow> n mod 32 + (if 31 < n then 32 else 0) = (n :: nat)"
proof (cases "31 < n")
  case True
  assume "n < 64"
  moreover obtain m where "n = m + 32" using True by (intro that [of "n - 32"]) simp
  ultimately show ?thesis by simp
qed simp

lemma guard_taken:
  assumes "guard_ok64 g"
  shows "taken64 C (guard_word64 g) \<longleftrightarrow> guard_leaves64 C g"
proof (cases g)
  case (Gcc cc)
  then show ?thesis using assms cc_fields [of cc] by (simp add: taken64_def Let_def del: guard_word64.simps)
next
  case (Gtnb ai r b)
  have ok: "guard_ok64 (Gtnb ai r b)" using assms Gtnb by simp
  then have r: "unat (of_nat r :: 32 word) = r" and b: "unat b < 64" by (simp_all add: unat_of_nat take_bit_nat_eq_self word_less_nat_alt)
  have m: "unat (b AND 31) = unat b mod 32"
  proof -
    have "unat (take_bit 5 b) = take_bit 5 (unat b)" by (rule unsigned_take_bit_eq)
    moreover have "take_bit 5 b = b AND 31" by (simp add: take_bit_eq_mask mask_eq_exp_minus_1)
    moreover have "take_bit 5 (unat b) = unat b mod 32" by (simp add: take_bit_eq_mod)
    ultimately show ?thesis by metis
  qed
  have e: "31 < b \<longleftrightarrow> 31 < unat b" by (simp add: word_less_nat_alt)
  have "unat (b AND 31) + (if 31 < b then 32 else 0) = unat b" unfolding m e using b by (rule low_and_high)
  then show ?thesis using tnb_fields [OF ok] r Gtnb by (simp add: taken64_def Let_def del: guard_word64.simps)
next
  case (Gcnb ai r)
  have ok: "guard_ok64 (Gcnb ai r)" using assms Gcnb by simp
  then have r: "unat (of_nat r :: 32 word) = r" by (simp add: unat_of_nat take_bit_nat_eq_self)
  show ?thesis using cnb_fields [OF ok] r Gcnb by (simp add: taken64_def Let_def del: guard_word64.simps)
qed

lemma guard_branch:
  assumes "guard_ok64 g" "guard_fits64 g d"
  shows "branch64 (guard_word64 g OR guard_dist64 g d) = Some (guard_word64 g, d)"
proof (cases g)
  case (Gcc cc)
  note k = guard_word_keeps [OF assms(1), unfolded Gcc guard64.case]
  show ?thesis using assms cc_fields [of cc] branch_imms64(2) [of d "guard_word64 (Gcc cc)", unfolded k]
      high_kept(1) [of "guard_word64 (Gcc cc)" d, unfolded k] keep_fields(2) [of "guard_word64 (Gcc cc)" d, unfolded k]
    unfolding Gcc by (simp add: branch64_def del: guard_word64.simps)
next
  case (Gtnb ai r b)
  note k = guard_word_keeps [OF assms(1), unfolded Gtnb guard64.case] and h = high_kept(5-7) [of "guard_word64 (Gtnb ai r b)" d]
  show ?thesis using assms tnb_fields [of ai r b] branch_imms64(3) [of d "guard_word64 (Gtnb ai r b)", unfolded k]
      h [unfolded k] keep_fields(3) [of "guard_word64 (Gtnb ai r b)" d, unfolded k]
    unfolding Gtnb by (simp add: branch64_def del: guard_word64.simps guard_ok64.simps)
next
  case (Gcnb ai r)
  note k = guard_word_keeps [OF assms(1), unfolded Gcnb guard64.case] and h = high_kept(1-3) [of "guard_word64 (Gcnb ai r)" d]
  show ?thesis using assms cnb_fields [of ai r] branch_imms64(2) [of d "guard_word64 (Gcnb ai r)", unfolded k]
      h [unfolded k] keep_fields(2) [of "guard_word64 (Gcnb ai r)" d, unfolded k]
    unfolding Gcnb by (simp add: branch64_def del: guard_word64.simps guard_ok64.simps)
qed

end
