(* ===== verification/LJ_Arm64_Guard.thy ===== *)
theory LJ_Arm64_Guard
  imports LJ_Arm64_Loop
begin

text \<open>
  What the guards, the branch of a loop and the tail of a trace from the previous theory do when the processor runs them.
\<close>

section \<open>Distances\<close>

text \<open>One operation for the three kinds of guards.\<close>

fun asm_guard64 :: "nat \<Rightarrow> guard64 \<Rightarrow> loop64 \<Rightarrow> bool \<times> loop64" where
  "asm_guard64 snapno (Gcc cc) s = (True, asm_guardcc_arm64 snapno cc s)"
| "asm_guard64 snapno (Gtnb ai r b) s = asm_guardtnb_arm64 snapno ai r b s"
| "asm_guard64 snapno (Gcnb ai r) s = (True, asm_guardcnb_arm64 snapno ai r s)"

definition emit_guard64 :: "guard64 \<Rightarrow> 64 word \<Rightarrow> asm64 \<Rightarrow> asm64" where
  "emit_guard64 g target st = emit (guard_word64 g OR guard_dist64 g (branch_delta st target)) st"

lemma guard_emitters:
  "emit_cond_branch cc target st = emit_guard64 (Gcc cc) target st" "emit_tnb ai r b target st = emit_guard64 (Gtnb ai r b) target st"
  "emit_cnb ai r target st = emit_guard64 (Gcnb ai r) target st"
  by (simp_all add: emit_guard64_def emit_cond_branch_def emit_tnb_def emit_cnb_def Let_def ac_simps)

text \<open>A distance that is a whole number of words.\<close>

definition aligned64 :: "64 word \<Rightarrow> 64 word \<Rightarrow> bool" where
  "aligned64 a b \<longleftrightarrow> drop_bit 2 (sint (a - b)) * 4 = sint (a - b)"

lemma aligned64_back: "aligned64 a b \<Longrightarrow> b + 4 * word_of_int (word_dist a b) = a"
  by (rule word_dist_back) (simp add: aligned64_def)

lemma branch_delta_dist: "branch_delta st target = word_dist target (mcp st - 4)"
  by (simp add: branch_delta_def mcpofs_def word_dist_def)

lemma word_dist_int:
  assumes "\<bar>d\<bar> < 2 ^ 32"
  shows "word_dist (x + 4 * word_of_int d) x = d"
proof -
  have "x + 4 * word_of_int d - x = word_of_int (4 * d)" by simp
  then have "sint (x + 4 * word_of_int d - x) = signed_take_bit 63 (4 * d)" by (simp only: sint_sbintrunc') simp
  then have "sint (x + 4 * word_of_int d - x) = 4 * d" using assms by (simp add: signed_take_bit_int_eq_self)
  then show ?thesis by (simp add: word_dist_def drop_bit_eq_div)
qed


lemma word_dist_next:
  assumes "aligned64 a (x - 4)" "A64F_S_OK (word_dist a (x - 4)) 26"
  shows "word_dist a x = word_dist a (x - 4) - 1"
proof -
  have "a = x + 4 * word_of_int (word_dist a (x - 4) - 1)" using aligned64_back [OF assms(1)] by (simp add: algebra_simps)
  moreover have "- 33554432 \<le> word_dist a (x - 4)" "word_dist a (x - 4) < 33554432" using assms(2) by (simp_all add: A64F_S_OK_range)
  then have "\<bar>word_dist a (x - 4) - 1\<bar> < 2 ^ 32" unfolding abs_less_iff by simp
  ultimately show ?thesis using word_dist_int [of "word_dist a (x - 4) - 1" x] by simp
qed


lemma mcp_emit: "mcp (emit w a) = mcp a - 4"
  by (simp add: mcp_def emit_def algebra_simps)

text \<open>A guard in the middle of a trace.\<close>

lemma guard_middle:
  assumes "asm_guard64 sn g s = (True, s')" "invmcp64 s \<noteq> Some (mcp (lasm64 s))"
  shows "s' = s\<lparr>lasm64 := emit_guard64 g (asm_exitstub_addr_arm64 (lasm64 s) sn) (lasm64 s)\<rparr>"
  using assms by (cases g) (auto simp: asm_guardcc_arm64_def asm_guardtnb_arm64_def asm_guardcnb_arm64_def Let_def guard_emitters split: if_splits)

lemma lands64_guard:
  assumes "guard_ok64 g" "guard_fits64 g d"
  shows "lands64 (Suc n) C ip ((guard_word64 g OR guard_dist64 g d) # ws) =
    (if guard_leaves64 C g then ip + 4 * word_of_int d else lands64 n C (ip + 4) ws)"
  by (simp add: guard_branch [OF assms] guard_taken [OF assms(1)])

lemma b_branch: "A64F_S_OK d 26 \<Longrightarrow> branch64 (A64I_B OR A64F_S26 d) = Some (A64I_B, d)"
  using branch_imms64(1) [of d A64I_B] keep_fields(1) [of A64I_B d] b_not_bcc [of "A64I_B OR A64F_S26 d"]
  by (simp add: branch64_def A64I_B_def)


text \<open>
  A guard on ARM64. In the middle of a trace the processor is at the stub of the snapshot if the guard leaves the
  trace, which is the condition of the flags, of the register or of the bit that the caller named, and behind
  the guard otherwise. A test of a bit is emitted only if a stub ahead of it is in range; else the state is as it was and the
  caller is told.
\<close>

theorem arm64_guard_leaves:
  assumes "guard_ok64 g" "invmcp64 s \<noteq> Some (mcp (lasm64 s))" "asm_guard64 sn g s = (ok, s')"
    "stub = asm_exitstub_addr_arm64 (lasm64 s) sn" "aligned64 stub (mcp (lasm64 s) - 4)" "0 \<le> word_dist stub (mcp (lasm64 s) - 4)"
    "A64F_S_OK (word_dist stub (mcp (lasm64 s) - 4)) 19"
  shows "if ok then \<exists>w. lasm64 s' = emit w (lasm64 s) \<and> lands64 1 C (mcp (lasm64 s')) [w] = (if guard_leaves64 C g then stub else mcp (lasm64 s))
    else s' = s \<and> (\<exists>ai r b. g = Gtnb ai r b \<and> \<not> A64F_S_OK (word_dist stub (mcp (lasm64 s) - 4)) 14)"
proof -
  let ?d = "word_dist stub (mcp (lasm64 s) - 4)"
  note n = word_dist_next [OF assms(5) ok_wider [OF assms(7)]]
  show ?thesis
  proof (cases ok)
    case True
    have fits: "guard_fits64 g ?d"
      using assms n True by (cases g) (auto simp: asm_guardtnb_arm64_def Let_def A64F_S_OK_range split: if_splits)
    have "s' = s\<lparr>lasm64 := emit_guard64 g stub (lasm64 s)\<rparr>" using guard_middle [of sn g s s'] assms(2,3,4) True by simp
    then have e: "lasm64 s' = emit (guard_word64 g OR guard_dist64 g ?d) (lasm64 s)" by (simp add: emit_guard64_def branch_delta_dist)
    have "lands64 1 C (mcp (lasm64 s')) [guard_word64 g OR guard_dist64 g ?d] = (if guard_leaves64 C g then stub else mcp (lasm64 s))"
      unfolding One_nat_def lands64_guard [OF assms(1) fits] using aligned64_back [OF assms(5)] by (simp add: e mcp_emit)
    then show ?thesis using True e by (simp only: if_True) blast
  next
    case False
    then show ?thesis using assms n by (cases g) (auto simp: asm_guardtnb_arm64_def Let_def A64F_S_OK_range split: if_splits)
  qed
qed


section \<open>The branch of a loop\<close>

definition body64 :: "32 word list \<Rightarrow> loop64 \<Rightarrow> loop64" where
  "body64 ws s = s\<lparr>lasm64 := (lasm64 s)\<lparr>mc := ws @ mc (lasm64 s)\<rparr>\<rparr>"

lemma body64_simps [simp]:
  "mc (lasm64 (body64 ws s)) = ws @ mc (lasm64 s)" "mctop (lasm64 (body64 ws s)) = mctop (lasm64 s)" "loopinv64 (body64 ws s) = loopinv64 s"
  "past64 (body64 ws s) = past64 s"
  by (simp_all add: body64_def)







section \<open>The tail of a trace\<close>

text \<open>An addition to the stack pointer, if there is one, then a jump: where it goes, and the stack pointer there.\<close>

definition run_jump64 :: "64 word \<Rightarrow> 32 word \<Rightarrow> 64 word \<Rightarrow> (64 word \<times> 64 word) option" where
  "run_jump64 ip b sp = (case branch64 b of Some (x, d) \<Rightarrow> if x = A64I_B then Some (ip + 4 * word_of_int d, sp) else None | None \<Rightarrow> None)"

fun run_tail64 :: "64 word \<Rightarrow> 32 word list \<Rightarrow> 64 word \<Rightarrow> (64 word \<times> 64 word) option" where
  "run_tail64 ip [b] sp = run_jump64 ip b sp"
| "run_tail64 ip [a, b] sp = (if a AND 0xbf8003ff = 0x910003ff then run_jump64 (ip + 4) b (sp + k12_value a) else None)"
| "run_tail64 ip _ sp = None"

lemma xor_disjoint: "x AND u = 0 \<Longrightarrow> y AND u = 0 \<Longrightarrow> x XOR (y OR u) = (x XOR y) OR (u :: 32 word)"
  by (auto simp: bit_eq_iff bit_simps)

lemma k12_form:
  assumes "emit_isk12 n \<noteq> 0"
  shows "\<exists>v m s. emit_isk12 n = A64I_K12 OR m OR s OR A64F_U12 v \<and> unat v < 4096 \<and> (m = 0 \<or> m = 0x40000000) \<and> (s = 0 \<or> s = 0x400000)"
proof -
  define k where k: "k = (if n <s 0 then NOT n + 1 else n)"
  define m :: "32 word" where m: "m = (if n <s 0 then 0x40000000 else 0)"
  have e: "emit_isk12 n = (if k < 0x1000 then A64I_K12 OR m OR A64F_U12 (ucast k)
      else if k AND 0xfff000 = k then A64I_K12 OR m OR 0x400000 OR A64F_U12 (ucast (drop_bit 12 k)) else 0)"
    by (simp add: emit_isk12_def k m Let_def)
  have u: "unat (ucast a :: 32 word) < 4096" if "unat (a :: 64 word) < 4096" for a using ucast_small(1) [of a] that by simp
  show ?thesis
  proof (cases "k < 0x1000")
    case True
    then have "unat (ucast k :: 32 word) < 4096" by (intro u) (simp add: word_less_nat_alt)
    then show ?thesis using True by (intro exI [of _ "ucast k"] exI [of _ m] exI [of _ 0]) (simp add: e m)
  next
    case False
    then have hi: "k AND 0xfff000 = k" using assms by (auto simp: e split: if_splits)
    have eq: "(0xfff000 :: 64 word) = push_bit 12 (mask 12)" by (simp add: mask_eq_exp_minus_1)
    have "drop_bit 12 k = drop_bit 12 k AND mask 12"
      by (subst hi [symmetric], unfold eq) (auto intro!: bit_word_eqI simp: bit_simps)
    then have "drop_bit 12 k \<le> mask 12" by (metis word_and_le1)
    then have "unat (drop_bit 12 k) < 4096" by (simp add: word_le_nat_alt mask_eq_exp_minus_1)
    then have "unat (ucast (drop_bit 12 k) :: 32 word) < 4096" by (rule u)
    then show ?thesis using False hi
      by (intro exI [of _ "ucast (drop_bit 12 k)"] exI [of _ m] exI [of _ "0x400000"]) (simp add: e m)
  qed
qed

lemma sp_add:
  assumes "emit_isk12 n \<noteq> 0"
  defines "a \<equiv> (A64I_ADDx XOR emit_isk12 n) OR A64F_D (RID ''SP'') OR A64F_N (RID ''SP'')"
  shows "a AND 0xbf8003ff = 0x910003ff" "k12_value a = n"
proof -
  obtain v m s where f: "emit_isk12 n = A64I_K12 OR m OR s OR A64F_U12 v" "unat v < 4096" "m = 0 \<or> m = 0x40000000" "s = 0 \<or> s = 0x400000"
    using k12_form [OF assms(1)] by blast
  define u where u: "u = A64F_U12 v"
  define y where y: "y = A64I_K12 OR m OR s"
  have e: "emit_isk12 n = y OR u" unfolding f(1) u y by (simp only: or.assoc)
  have y4: "y \<in> {0x1a000000, 0x5a000000, 0x1a400000, 0x5a400000}" using f(3,4) by (auto simp: y A64I_K12_def)
  have ub: "bit u i \<Longrightarrow> 10 \<le> i \<and> i < 22" for i
    using small_word_bits [of v 12 "i - 10"] f(2) by (auto simp: u A64F_U12_def bit_simps)
  have z: "x AND u = 0" if "x AND 0x003ffc00 = 0" for x
  proof (rule bit_word_eqI)
    fix i
    have eq: "(0x003ffc00 :: 32 word) = push_bit 10 (mask 12)" by (simp add: mask_eq_exp_minus_1)
    have "\<not> bit (x AND 0x003ffc00) i" unfolding that by simp
    then show "bit (x AND u) i = bit 0 i" using ub [of i] unfolding eq by (auto simp: bit_simps)
  qed
  have "A64I_ADDx AND u = 0" "y AND u = 0" by (rule z, use y4 in \<open>auto simp: A64I_ADDx_def\<close>)+
  then have x: "A64I_ADDx XOR emit_isk12 n = (A64I_ADDx XOR y) OR u" unfolding e by (rule xor_disjoint)
  have d: "A64F_D (RID ''SP'') = 0x1f" "A64F_N (RID ''SP'') = 0x3e0" by (simp_all add: A64F_D_def A64F_N_def rid_bounds)
  define b where b: "b = (A64I_ADDx XOR y) OR 0x3ff"
  have b4: "b \<in> {0x910003ff, 0xd10003ff, 0x914003ff, 0xd14003ff}" using y4 by (auto simp: b A64I_ADDx_def)
  have "a = (A64I_ADDx XOR y) OR u OR (0x1f OR 0x3e0)" unfolding a_def x d by (simp only: or.assoc)
  also have "\<dots> = b OR u" by (simp add: b or.assoc or.commute or.left_commute)
  finally have a: "a = b OR u" .
  have "0xbf8003ff AND u = 0" by (rule z) simp
  then have "u AND 0xbf8003ff = 0" by (simp only: and.commute)
  then show "a AND 0xbf8003ff = 0x910003ff" using b4 by (auto simp: a word_ao_dist)
  have v: "drop_bit 10 u = v" unfolding u A64F_U12_def by (intro field_drop [of _ 12]) (use f(2) in simp_all)
  have v2: "v AND 0xfff = v" using and_mask_low [of v 12] f(2) by (simp add: mask_eq_exp_minus_1)
  have nb: "\<not> bit u 22" "\<not> bit u 30" using ub [of 22] ub [of 30] by auto
  have k: "k12_value (w OR u) = (let t = ucast v; t = if bit w 22 then push_bit 12 t else t in if bit w 30 then - t else t)"
    if "drop_bit 10 w AND 0xfff = 0" for w
    using nb that by (simp add: k12_value_def drop_bit_or word_ao_dist bit_or_iff v v2)
  have "k12_value a = k12_value (y OR u)"
  proof -
    have "drop_bit 10 b AND 0xfff = 0" "drop_bit 10 y AND 0xfff = 0" "bit b 22 = bit y 22" "bit b 30 = bit y 30"
      using b4 y4 by (auto simp: b A64I_ADDx_def)
    then show ?thesis unfolding a by (simp only: k)
  qed
  then show "k12_value a = n" using emit_isk12_sound [OF assms(1)] e by simp
qed

lemma jump64:
  assumes "aligned64 target p" "A64F_S_OK (word_dist target p) 26"
  shows "run_jump64 p (A64I_B OR A64F_S26 (word_dist target p)) sp = Some (target, sp)"
  using b_branch [OF assms(2)] aligned64_back [OF assms(1)] by (simp add: run_jump64_def)

text \<open>
  The end of a trace without a loop. Behind the body of the trace, with the room \<open>asm_tail_prep\<close> left filled in by
  \<open>asm_tail_fixup\<close>, the processor adds the stack adjustment to the stack pointer and is at the linked trace; if there is
  nothing to adjust, the word behind the jump is a no-op. The adjustment fits an immediate operand, as asserted.
\<close>

theorem arm64_tail_links:
  assumes "loopref64 s = 0" "s1 = asm_tail_prep_arm64 room s" "spadj = spadjust + (if lnk then 0 else word_of_int (sps_scale SPS_FIXED))"
    "s4 = asm_tail_fixup_arm64 lnk spadjust target (body64 ws s1)" "spadj = 0 \<or> emit_isk12 (scast spadj) \<noteq> 0"
    "aligned64 target (mctop (lasm64 s4) - 4)" "A64F_S_OK (word_dist target (mctop (lasm64 s4) - 4)) 26"
  shows "\<exists>tl. mc (lasm64 s4) = ws @ tl \<and>
    run_tail64 (mctop (lasm64 s4) - 4 * of_nat (length tl)) tl sp = Some (target, sp + scast spadj) \<and>
    past64 s4 = replicate (unat (mctop (lasm64 s1) - mctop (lasm64 s4)) div 4) A64I_NOP @ past64 s1"
proof -
  have p: "mc (lasm64 s1) = [room, 0]" using assms(1) by (simp add: assms(2) asm_tail_prep_arm64_def)
  let ?B = "A64I_B OR A64F_S26 (word_dist target (mctop (lasm64 s4) - 4))"
  note j = jump64 [OF assms(6,7)]
  have n: "word_dist target (mctop (lasm64 s4)) + 1 = word_dist target (mctop (lasm64 s4) - 4)"
    using word_dist_next [OF assms(6,7)] by simp
  show ?thesis
  proof (cases "spadj = 0")
    case True
    have t: "take (Suc (length ws)) (ws @ [room, 0]) = ws @ [room]" "(ws @ [room])[length ws := v] = ws @ [v]" for v by simp_all
    have s4: "mc (lasm64 s4) = ws @ [?B]" "mctop (lasm64 s4) = mctop (lasm64 s1) - 4" "past64 s4 = A64I_NOP # past64 s1"
      using True p n unfolding assms(4) asm_tail_fixup_arm64_def assms(3) [symmetric] by (simp_all add: Let_def t)
    then show ?thesis using True j by (intro exI [of _ "[?B]"]) simp
  next
    case False
    let ?a = "(A64I_ADDx XOR emit_isk12 (scast spadj)) OR A64F_D (RID ''SP'') OR A64F_N (RID ''SP'')"
    have k: "emit_isk12 (scast spadj) \<noteq> 0" using False assms(5) by blast
    have t: "(ws @ [room, 0])[length ws := v] = ws @ [v, 0]" "(ws @ [v, 0])[Suc (length ws) := w] = ws @ [v, w]" for v w
      by (simp_all add: list_update_append)
    have s4: "mc (lasm64 s4) = ws @ [?a, ?B]" "mctop (lasm64 s4) = mctop (lasm64 s1)" "past64 s4 = past64 s1"
      using False p n unfolding assms(4) asm_tail_fixup_arm64_def assms(3) [symmetric] by (simp_all add: Let_def t)
    have "mctop (lasm64 s4) - 4 * of_nat (length [?a, ?B]) + 4 = mctop (lasm64 s4) - 4" by simp
    then have "run_tail64 (mctop (lasm64 s4) - 4 * of_nat (length [?a, ?B])) [?a, ?B] sp = Some (target, sp + scast spadj)"
      using j sp_add [OF k] by (simp only: run_tail64.simps if_True simp_thms)
    then show ?thesis using s4 by (intro exI [of _ "[?a, ?B]"]) simp
  qed
qed

end
