(* ===== verification/LJ_Arm.thy ===== *)
theory LJ_Arm
  imports LJ_Target
begin

text \<open>
  \<open>LuaJit/include/lj_target_arm.h\<close> and \<open>lj_emit_arm.h\<close>: registers, opcode words and the
  instruction emitter of the ARM back end. Names shared with the ARM64 back end carry the
  suffix \<open>_arm\<close>. As there, the code area is the list of words emitted, newest first.
\<close>

section \<open>Registers\<close>

definition GPRDEF_arm :: "string list" where
  "GPRDEF_arm = [''R0'', ''R1'', ''R2'', ''R3'', ''R4'', ''R5'', ''R6'', ''R7'', ''R8'', ''R9'', ''R10'',
     ''R11'', ''R12'', ''SP'', ''LR'', ''PC'']"

definition FPRDEF_arm :: "string list" where
  "FPRDEF_arm = [''D0'', ''D1'', ''D2'', ''D3'', ''D4'', ''D5'', ''D6'', ''D7'', ''D8'', ''D9'', ''D10'',
     ''D11'', ''D12'', ''D13'', ''D14'', ''D15'']"

definition RID_arm :: "string \<Rightarrow> nat" where
  "RID_arm name = length (takeWhile (\<lambda>r. r \<noteq> name) (GPRDEF_arm @ FPRDEF_arm))"

definition RID_TMP_arm :: nat where "RID_TMP_arm = RID_arm ''LR''"

definition RID_MAX_GPR_arm :: nat where "RID_MAX_GPR_arm = RID_arm ''PC'' + 1"

definition RID_MAX_FPR_arm :: nat where "RID_MAX_FPR_arm = RID_arm ''D15'' + 1"

lemma RID_arm_nums [simp]:
  "RID_arm ''R0'' = 0" "RID_arm ''R3'' = 3" "RID_arm ''R4'' = 4" "RID_arm ''R12'' = 12"
  "RID_arm ''SP'' = 13" "RID_arm ''LR'' = 14" "RID_arm ''PC'' = 15" "RID_arm ''D0'' = 16"
  "RID_arm ''D7'' = 23" "RID_arm ''D15'' = 31"
  by (simp_all add: RID_arm_def GPRDEF_arm_def FPRDEF_arm_def)

definition RSET_GPR_arm :: "32 word" where "RSET_GPR_arm = RSET_RANGE (RID_arm ''R0'') (RID_arm ''R12'' + 1)"

definition RSET_GPREVEN :: "32 word" where
  "RSET_GPREVEN = foldr (\<lambda>r s. RID2RSET r OR s) [0, 2, 4, 6, 8, 10] 0"

definition RSET_GPRODD :: "32 word" where
  "RSET_GPRODD = foldr (\<lambda>r s. RID2RSET r OR s) [1, 3, 5, 7, 9, 11] 0"

definition RSET_FPR_arm :: "32 word" where
  "RSET_FPR_arm = RSET_RANGE RID_MAX_GPR_arm RID_MAX_FPR_arm"

definition RSET_SCRATCH_GPR_arm :: "32 word" where
  "RSET_SCRATCH_GPR_arm = RSET_RANGE (RID_arm ''R0'') (RID_arm ''R3'' + 1) OR RID2RSET (RID_arm ''R12'')"

definition RSET_SCRATCH_FPR_arm :: "32 word" where
  "RSET_SCRATCH_FPR_arm = RSET_RANGE (RID_arm ''D0'') (RID_arm ''D7'' + 1)"

definition sps_align_arm :: "int \<Rightarrow> int" where "sps_align_arm slot = (slot - 2 + 1) AND NOT 1"

lemma rset_arm:
  "RSET_GPR_arm = 0x1fff" "RSET_FPR_arm = 0xffff0000" "RSET_GPR_arm AND RSET_FPR_arm = 0"
  "RSET_GPREVEN AND RSET_GPRODD = 0" "(RSET_GPREVEN OR RSET_GPRODD) AND NOT RSET_GPR_arm = 0"
  by (simp_all add: RSET_GPR_arm_def RSET_FPR_arm_def RSET_GPREVEN_def RSET_GPRODD_def RSET_RANGE_def
      RID2RSET_def RID_MAX_GPR_arm_def RID_MAX_FPR_arm_def)

section \<open>Instruction words\<close>

definition ARMF_N :: "nat \<Rightarrow> 32 word" where "ARMF_N r = push_bit 16 (of_nat r)"

definition ARMF_D :: "nat \<Rightarrow> 32 word" where "ARMF_D r = push_bit 12 (of_nat r)"

definition ARMF_S :: "nat \<Rightarrow> 32 word" where "ARMF_S r = push_bit 8 (of_nat r)"

definition ARMF_M :: "nat \<Rightarrow> 32 word" where "ARMF_M r = of_nat r"

definition ARMF_SH :: "nat \<Rightarrow> nat \<Rightarrow> 32 word" where
  "ARMF_SH sh n = push_bit 5 (of_nat sh) OR push_bit 7 (of_nat n)"

definition ARMF_RSH :: "nat \<Rightarrow> nat \<Rightarrow> 32 word" where
  "ARMF_RSH sh r = 0x10 OR push_bit 5 (of_nat sh) OR ARMF_S r"

definition ARMI_CCAL :: "32 word" where "ARMI_CCAL = 0xe0000000"

definition ARMI_K12 :: "32 word" where "ARMI_K12 = 0x2000000"

definition ARMI_LS_U :: "32 word" where "ARMI_LS_U = 0x800000"

definition ARMI_LS_P :: "32 word" where "ARMI_LS_P = 0x1000000"

definition ARMI_LSX_I :: "32 word" where "ARMI_LSX_I = 0x400000"

definition ARMI_AND :: "32 word" where "ARMI_AND = 0xe0000000"

definition ARMI_EOR :: "32 word" where "ARMI_EOR = 0xe0200000"

definition ARMI_SUB :: "32 word" where "ARMI_SUB = 0xe0400000"

definition ARMI_ADD :: "32 word" where "ARMI_ADD = 0xe0800000"

definition ARMI_ADC :: "32 word" where "ARMI_ADC = 0xe0a00000"

definition ARMI_SBC :: "32 word" where "ARMI_SBC = 0xe0c00000"

definition ARMI_CMP :: "32 word" where "ARMI_CMP = 0xe1500000"

definition ARMI_CMN :: "32 word" where "ARMI_CMN = 0xe1700000"

definition ARMI_ORR :: "32 word" where "ARMI_ORR = 0xe1800000"

definition ARMI_MOV :: "32 word" where "ARMI_MOV = 0xe1a00000"

definition ARMI_BIC :: "32 word" where "ARMI_BIC = 0xe1c00000"

definition ARMI_MVN :: "32 word" where "ARMI_MVN = 0xe1e00000"

definition ARMI_LDR :: "32 word" where "ARMI_LDR = 0xe4100000"

definition ARMI_LDRD :: "32 word" where "ARMI_LDRD = 0xe00000d0"

definition ARMI_STR :: "32 word" where "ARMI_STR = 0xe4000000"

definition ARMI_STRD :: "32 word" where "ARMI_STRD = 0xe00000f0"

definition ARMI_B :: "32 word" where "ARMI_B = 0xea000000"

definition ARMI_BL :: "32 word" where "ARMI_BL = 0xeb000000"

definition ARMI_BLX :: "32 word" where "ARMI_BLX = 0xfa000000"

definition ARMI_BLXr :: "32 word" where "ARMI_BLXr = 0xe12fff30"

definition ARMI_MOVW :: "32 word" where "ARMI_MOVW = 0xe3000000"

definition ARMI_MOVT :: "32 word" where "ARMI_MOVT = 0xe3400000"

definition ARMI_VMOV_D :: "32 word" where "ARMI_VMOV_D = 0xeeb00b40"

definition ARMI_VMOV_S :: "32 word" where "ARMI_VMOV_S = 0xeeb00a40"

definition ARMI_VMOVI_D :: "32 word" where "ARMI_VMOVI_D = 0xeeb00b00"

definition ARMI_VLDR_S :: "32 word" where "ARMI_VLDR_S = 0xed100a00"

definition ARMI_VLDR_D :: "32 word" where "ARMI_VLDR_D = 0xed100b00"

definition ARMI_VSTR_S :: "32 word" where "ARMI_VSTR_S = 0xed000a00"

definition ARMI_VSTR_D :: "32 word" where "ARMI_VSTR_D = 0xed000b00"

lemmas armi = ARMI_CCAL_def ARMI_K12_def ARMI_LS_U_def ARMI_LS_P_def ARMI_LSX_I_def ARMI_AND_def ARMI_EOR_def ARMI_SUB_def ARMI_ADD_def ARMI_ADC_def ARMI_SBC_def ARMI_CMP_def ARMI_CMN_def ARMI_ORR_def ARMI_MOV_def ARMI_BIC_def ARMI_MVN_def ARMI_LDR_def ARMI_LDRD_def ARMI_STR_def ARMI_STRD_def ARMI_B_def ARMI_BL_def ARMI_BLX_def ARMI_BLXr_def ARMI_MOVW_def ARMI_MOVT_def ARMI_VMOV_D_def ARMI_VMOV_S_def ARMI_VMOVI_D_def ARMI_VLDR_S_def ARMI_VLDR_D_def ARMI_VSTR_S_def ARMI_VSTR_D_def

definition ARMIns :: "(string \<times> 32 word) list" where
  "ARMIns =
    [(''CCAL'', 0xe0000000), (''S'', 0x100000),
     (''K12'', 0x2000000), (''KNEG'', 0x200000),
     (''LS_W'', 0x200000), (''LS_U'', 0x800000),
     (''LS_P'', 0x1000000), (''LS_R'', 0x2000000),
     (''LSX_I'', 0x400000), (''AND'', 0xe0000000),
     (''EOR'', 0xe0200000), (''SUB'', 0xe0400000),
     (''RSB'', 0xe0600000), (''ADD'', 0xe0800000),
     (''ADC'', 0xe0a00000), (''SBC'', 0xe0c00000),
     (''RSC'', 0xe0e00000), (''TST'', 0xe1100000),
     (''TEQ'', 0xe1300000), (''CMP'', 0xe1500000),
     (''CMN'', 0xe1700000), (''ORR'', 0xe1800000),
     (''MOV'', 0xe1a00000), (''BIC'', 0xe1c00000),
     (''MVN'', 0xe1e00000), (''NOP'', 0xe1a00000),
     (''MUL'', 0xe0000090), (''SMULL'', 0xe0c00090),
     (''LDR'', 0xe4100000), (''LDRB'', 0xe4500000),
     (''LDRH'', 0xe01000b0), (''LDRSB'', 0xe01000d0),
     (''LDRSH'', 0xe01000f0), (''LDRD'', 0xe00000d0),
     (''STR'', 0xe4000000), (''STRB'', 0xe4400000),
     (''STRH'', 0xe00000b0), (''STRD'', 0xe00000f0),
     (''PUSH'', 0xe92d0000), (''B'', 0xea000000),
     (''BL'', 0xeb000000), (''BLX'', 0xfa000000),
     (''BLXr'', 0xe12fff30), (''REV'', 0xe6bf0f30),
     (''SXTB'', 0xe6af0070), (''SXTH'', 0xe6bf0070),
     (''UXTB'', 0xe6ef0070), (''UXTH'', 0xe6ff0070),
     (''MOVW'', 0xe3000000), (''MOVT'', 0xe3400000),
     (''BFI'', 0xe7c00010), (''VMOV_D'', 0xeeb00b40),
     (''VMOV_S'', 0xeeb00a40), (''VMOVI_D'', 0xeeb00b00),
     (''VMOV_R_S'', 0xee100a10), (''VMOV_S_R'', 0xee000a10),
     (''VMOV_RR_D'', 0xec500b10), (''VMOV_D_RR'', 0xec400b10),
     (''VADD_D'', 0xee300b00), (''VSUB_D'', 0xee300b40),
     (''VMUL_D'', 0xee200b00), (''VMLA_D'', 0xee000b00),
     (''VMLS_D'', 0xee000b40), (''VNMLS_D'', 0xee100b00),
     (''VDIV_D'', 0xee800b00), (''VABS_D'', 0xeeb00bc0),
     (''VNEG_D'', 0xeeb10b40), (''VSQRT_D'', 0xeeb10bc0),
     (''VCMP_D'', 0xeeb40b40), (''VCMPZ_D'', 0xeeb50b40),
     (''VMRS'', 0xeef1fa10), (''VCVT_S32_F32'', 0xeebd0ac0),
     (''VCVT_S32_F64'', 0xeebd0bc0), (''VCVT_U32_F32'', 0xeebc0ac0),
     (''VCVT_U32_F64'', 0xeebc0bc0), (''VCVT_F32_S32'', 0xeeb80ac0),
     (''VCVT_F64_S32'', 0xeeb80bc0), (''VCVT_F32_U32'', 0xeeb80a40),
     (''VCVT_F64_U32'', 0xeeb80b40), (''VCVT_F32_F64'', 0xeeb70bc0),
     (''VCVT_F64_F32'', 0xeeb70ac0), (''VLDR_S'', 0xed100a00),
     (''VLDR_D'', 0xed100b00), (''VSTR_S'', 0xed000a00),
     (''VSTR_D'', 0xed000b00)]"

definition ARMF_CC :: "32 word \<Rightarrow> nat \<Rightarrow> 32 word" where
  "ARMF_CC ai cc = (ai XOR ARMI_CCAL) OR push_bit 28 (of_nat cc)"

section \<open>Constants\<close>

definition emit_invai :: "32 word list" where
  "emit_invai =
    [drop_bit 21 (ARMI_AND XOR ARMI_BIC), 0, drop_bit 21 (ARMI_SUB XOR ARMI_ADD), 0,
     drop_bit 21 (ARMI_ADD XOR ARMI_SUB), drop_bit 21 (ARMI_ADC XOR ARMI_SBC),
     drop_bit 21 (ARMI_SBC XOR ARMI_ADC), 0, 0, 0, drop_bit 21 (ARMI_CMP XOR ARMI_CMN),
     drop_bit 21 (ARMI_CMN XOR ARMI_CMP), 0, drop_bit 21 (ARMI_MOV XOR ARMI_MVN),
     drop_bit 21 (ARMI_BIC XOR ARMI_AND), drop_bit 21 (ARMI_MVN XOR ARMI_MOV)]"

text \<open>The rotation by \<open>i\<close> pairs of bits that leaves a byte: the loop runs sixteen times at most.\<close>

fun k12_rot :: "nat \<Rightarrow> nat \<Rightarrow> 32 word \<Rightarrow> (nat \<times> 32 word) option" where
  "k12_rot 0 i m = None"
| "k12_rot (Suc n) i m = (if m \<le> 255 then Some (i, m) else k12_rot n (Suc i) (lj_rol m 2))"

definition k12_fields :: "32 word \<Rightarrow> 32 word option" where
  "k12_fields n =
     (case k12_rot 16 0 n of None \<Rightarrow> None | Some (i, m) \<Rightarrow> Some (m OR push_bit 8 (of_nat i)))"

definition emit_isk12_arm :: "32 word \<Rightarrow> 32 word \<Rightarrow> 32 word" where
  "emit_isk12_arm ai n =
     (case k12_fields n of
        Some f \<Rightarrow> ARMI_K12 OR f
      | None \<Rightarrow>
          let invai = emit_invai ! unat (drop_bit 21 ai AND 15) in
          if invai = 0 then 0
          else
            let m = if invai = drop_bit 21 (ARMI_SUB XOR ARMI_ADD) \<or>
                       invai = drop_bit 21 (ARMI_CMP XOR ARMI_CMN) then NOT n + 1 else NOT n in
            case k12_fields m of
              Some f \<Rightarrow> ARMI_K12 OR push_bit 21 invai OR f
            | None \<Rightarrow> 0)"

section \<open>The assembler state\<close>

record asm32 =
  mc :: "32 word list"
  mctop :: "32 word"
  mcloop :: "32 word"
  freeset :: "32 word"
  cost :: "nat \<Rightarrow> 32 word"

definition mcp_arm :: "asm32 \<Rightarrow> 32 word" where
  "mcp_arm st = mctop st - 4 * of_nat (length (mc st))"

definition emit_arm :: "32 word \<Rightarrow> asm32 \<Rightarrow> asm32" where
  "emit_arm w st = st\<lparr>mc := w # mc st\<rparr>"

text \<open>
  The parts of \<open>lj_asm.c\<close> the emitter uses and the CPU flags: the value of a constant reference,
  the limit of \<open>emit_canremat\<close>, \<open>ra_allock\<close>, and whether the CPU has the ARMv6T2 and VFPv3 sets.
\<close>

record env32 =
  kval :: "asm32 \<Rightarrow> 16 word \<Rightarrow> 32 word"
  asmref_L :: "16 word"
  allock :: "32 word \<Rightarrow> 32 word \<Rightarrow> asm32 \<Rightarrow> nat \<times> asm32"
  armv6t2 :: bool
  vfpv3 :: bool

section \<open>Basic instructions\<close>

definition emit_dnm_arm :: "32 word \<Rightarrow> nat \<Rightarrow> nat \<Rightarrow> nat \<Rightarrow> asm32 \<Rightarrow> asm32" where
  "emit_dnm_arm ai rd rn rm = emit_arm (ai OR ARMF_D rd OR ARMF_N rn OR ARMF_M rm)"

definition emit_dm_arm :: "32 word \<Rightarrow> nat \<Rightarrow> nat \<Rightarrow> asm32 \<Rightarrow> asm32" where
  "emit_dm_arm ai rd rm = emit_arm (ai OR ARMF_D rd OR ARMF_M rm)"

definition emit_dn_arm :: "32 word \<Rightarrow> nat \<Rightarrow> nat \<Rightarrow> asm32 \<Rightarrow> asm32" where
  "emit_dn_arm ai rd rn = emit_arm (ai OR ARMF_D rd OR ARMF_N rn)"

definition emit_nm_arm :: "32 word \<Rightarrow> nat \<Rightarrow> nat \<Rightarrow> asm32 \<Rightarrow> asm32" where
  "emit_nm_arm ai rn rm = emit_arm (ai OR ARMF_N rn OR ARMF_M rm)"

definition emit_d_arm :: "32 word \<Rightarrow> nat \<Rightarrow> asm32 \<Rightarrow> asm32" where
  "emit_d_arm ai rd = emit_arm (ai OR ARMF_D rd)"

definition emit_n_arm :: "32 word \<Rightarrow> nat \<Rightarrow> asm32 \<Rightarrow> asm32" where
  "emit_n_arm ai rn = emit_arm (ai OR ARMF_N rn)"

definition emit_m_arm :: "32 word \<Rightarrow> nat \<Rightarrow> asm32 \<Rightarrow> asm32" where
  "emit_m_arm ai rm = emit_arm (ai OR ARMF_M rm)"

definition emit_lsox :: "32 word \<Rightarrow> nat \<Rightarrow> nat \<Rightarrow> int \<Rightarrow> asm32 \<Rightarrow> asm32" where
  "emit_lsox ai rd rn ofs =
     (let ai = if ofs < 0 then ai else ai OR ARMI_LS_U; ofs = \<bar>ofs\<bar> in
      emit_arm (ai OR ARMI_LS_P OR ARMI_LSX_I OR ARMF_D rd OR ARMF_N rn OR
        push_bit 4 (word_of_int (ofs AND 0xf0)) OR word_of_int (ofs AND 0x0f)))"

definition lso_pairs :: "32 word \<Rightarrow> 32 word \<Rightarrow> nat \<Rightarrow> nat \<Rightarrow> int \<Rightarrow> bool" where
  "lso_pairs w ai rd rn ofs \<longleftrightarrow>
     w = (ai OR ARMI_LS_P OR ARMI_LS_U OR ARMF_D (rd XOR 1) OR ARMF_N rn OR word_of_int (ofs XOR 4)) \<and>
     ai AND NOT (ARMI_LDR XOR ARMI_STR) = ARMI_STR \<and> rd \<noteq> rn \<and> 0 \<le> ofs \<and> ofs \<le> 252 \<and>
     ofs AND 3 = 0 \<and> (int rd XOR drop_bit 2 ofs) AND 1 = 0"

definition emit_lso_arm :: "32 word \<Rightarrow> nat \<Rightarrow> nat \<Rightarrow> int \<Rightarrow> asm32 \<Rightarrow> asm32" where
  "emit_lso_arm ai rd rn ofs st =
     (let single = (let ai = if ofs < 0 then ai else ai OR ARMI_LS_U in
            emit_arm (ai OR ARMI_LS_P OR ARMF_D rd OR ARMF_N rn OR word_of_int \<bar>ofs\<bar>) st) in
      case mc st of
        [] \<Rightarrow> single
      | w # ws \<Rightarrow>
          if lso_pairs w ai rd rn ofs \<and> mcp_arm st \<noteq> mcloop st
          then emit_lsox (if ai = ARMI_LDR then ARMI_LDRD else ARMI_STRD) (rd - rd mod 2) rn (ofs AND NOT 4)
                 (st\<lparr>mc := ws\<rparr>)
          else single)"

definition emit_vlso :: "32 word \<Rightarrow> nat \<Rightarrow> nat \<Rightarrow> int \<Rightarrow> asm32 \<Rightarrow> asm32" where
  "emit_vlso ai rd rn ofs =
     (let ai = if ofs < 0 then ai else ai OR ARMI_LS_U in
      emit_arm (ai OR ARMI_LS_P OR ARMF_D (rd mod 16) OR ARMF_N rn OR word_of_int (drop_bit 2 \<bar>ofs\<bar>)))"

section \<open>Constants in registers\<close>

definition emit_canremat :: "env32 \<Rightarrow> 16 word \<Rightarrow> bool" where
  "emit_canremat E ref \<longleftrightarrow> ref < asmref_L E"

definition kdelta1_ins :: "nat \<Rightarrow> nat \<Rightarrow> 32 word \<Rightarrow> (asm32 \<Rightarrow> asm32) option" where
  "kdelta1_ins d r delta =
     (let k = emit_isk12_arm ARMI_ADD delta in
      if k = 0 then None
      else if k = ARMI_K12 then Some (emit_dm_arm ARMI_MOV d r)
      else Some (emit_dn_arm (ARMI_ADD XOR k) d r))"

definition kdelta2_ins :: "nat \<Rightarrow> nat \<Rightarrow> 32 word \<Rightarrow> (asm32 \<Rightarrow> asm32) option" where
  "kdelta2_ins rd r delta0 =
     (let inv = if delta0 <s 0 then ARMI_ADD XOR ARMI_SUB else 0;
          delta = if delta0 <s 0 then NOT delta0 + 1 else delta0;
          sh = 2 * (lj_ffs delta div 2);
          k2 = emit_isk12_arm 0 (delta AND push_bit sh 255);
          k = emit_isk12_arm 0 (delta AND NOT (push_bit sh 255)) in
      if k = 0 then None
      else Some (emit_dn_arm (ARMI_ADD XOR k XOR inv) rd r \<circ> emit_dn_arm (ARMI_ADD XOR k2 XOR inv) rd rd))"

text \<open>
  Both searches run over the allocated registers from the highest down; the second one leaves
  out registers that hold zero.
\<close>

fun kdelta_search :: "env32 \<Rightarrow> (nat \<Rightarrow> 32 word \<Rightarrow> (asm32 \<Rightarrow> asm32) option) \<Rightarrow> nat \<Rightarrow> 32 word
    \<Rightarrow> asm32 \<Rightarrow> asm32 option" where
  "kdelta_search E ins 0 work st = None"
| "kdelta_search E ins (Suc fuel) work st =
     (if work = 0 then None
      else
        let r = rset_picktop work; ref = regcost_ref (cost st r);
            next = kdelta_search E ins fuel (rset_clear work r) st in
        if emit_canremat E ref
        then (case ins r (kval E st ref) of Some f \<Rightarrow> Some (f st) | None \<Rightarrow> next)
        else next)"

definition emit_kdelta1 :: "env32 \<Rightarrow> nat \<Rightarrow> 32 word \<Rightarrow> asm32 \<Rightarrow> asm32 option" where
  "emit_kdelta1 E d i st =
     kdelta_search E (\<lambda>r v. kdelta1_ins d r (i - v)) 32 (NOT (freeset st) AND RSET_GPR_arm) st"

definition emit_kdelta2 :: "env32 \<Rightarrow> nat \<Rightarrow> 32 word \<Rightarrow> asm32 \<Rightarrow> asm32 option" where
  "emit_kdelta2 E rd i st =
     kdelta_search E (\<lambda>r v. if v = 0 then None else kdelta2_ins rd r (i - v)) 32
       (NOT (freeset st) AND RSET_GPR_arm) st"

definition movw16 :: "32 word \<Rightarrow> 32 word" where
  "movw16 i = (i AND 0x0fff) OR push_bit 4 (i AND 0xf000)"

text \<open>
  A constant in up to four instructions: a byte at an even position each time, from the bottom up. The
  loop ends when no bits are left, after at most sixteen rounds.
\<close>

fun loadi_bytes :: "nat \<Rightarrow> nat \<Rightarrow> 32 word \<Rightarrow> asm32 \<Rightarrow> asm32" where
  "loadi_bytes 0 rd i st = st"
| "loadi_bytes (Suc n) rd i st =
     (let sh = 2 * (lj_ffs i div 2); m = i AND push_bit sh 255; i = i AND NOT (push_bit sh 255) in
      if i = 0 then emit_d_arm (ARMI_MOV XOR emit_isk12_arm 0 m) rd st
      else loadi_bytes n rd i (emit_dn_arm (ARMI_ORR XOR emit_isk12_arm 0 m) rd rd st))"

definition emit_loadi_arm :: "env32 \<Rightarrow> nat \<Rightarrow> 32 word \<Rightarrow> asm32 \<Rightarrow> asm32" where
  "emit_loadi_arm E rd i st =
     (let k = emit_isk12_arm ARMI_MOV i in
      if k \<noteq> 0 then emit_d_arm (ARMI_MOV XOR k) rd st
      else if armv6t2 E \<and> i < 0x10000 then emit_d_arm (ARMI_MOVW OR movw16 i) rd st
      else case emit_kdelta1 E rd i st of
             Some st' \<Rightarrow> st'
           | None \<Rightarrow>
               if armv6t2 E
               then emit_d_arm (ARMI_MOVW OR movw16 i) rd
                      (emit_d_arm (ARMI_MOVT OR movw16 (drop_bit 16 i)) rd st)
               else case emit_kdelta2 E rd i st of
                      Some st' \<Rightarrow> st'
                    | None \<Rightarrow> loadi_bytes 16 rd i st)"

definition emit_lsptr_arm :: "env32 \<Rightarrow> 32 word \<Rightarrow> nat \<Rightarrow> 32 word \<Rightarrow> asm32 \<Rightarrow> asm32" where
  "emit_lsptr_arm E ai r p st =
     (let (base, st) = allock E (p AND NOT 4095) (rset_exclude RSET_GPR_arm r) st in
      emit_lso_arm ai r base (uint (p AND 4095)) st)"

text \<open>\<open>lo\<close> and \<open>hi\<close> are the halves of the number, \<open>p\<close> the address it is kept at.\<close>

definition emit_loadk64_arm :: "env32 \<Rightarrow> nat \<Rightarrow> 32 word \<Rightarrow> 32 word \<Rightarrow> 32 word \<Rightarrow> asm32 \<Rightarrow> asm32" where
  "emit_loadk64_arm E r lo hi p st =
     (let b = drop_bit 22 hi AND 0x1ff in
      if vfpv3 E \<and> lo = 0 \<and> hi AND 0xffff = 0 \<and> (b = 0x100 \<or> b = 0x0ff)
      then emit_arm (ARMI_VMOVI_D OR ARMF_D (r mod 16) OR (drop_bit 12 hi AND 0x00080000) OR
             (drop_bit 4 hi AND 0x00070000) OR (drop_bit 16 hi AND 0xf)) st
      else let (base, st) = allock E (p AND NOT 1020) RSET_GPR_arm st in
           emit_vlso ARMI_VLDR_D r base (uint (p AND 1020)) st)"

section \<open>Control flow\<close>

definition emit_branch_arm :: "32 word \<Rightarrow> 32 word \<Rightarrow> asm32 \<Rightarrow> asm32" where
  "emit_branch_arm ai target st =
     (let delta = signed_drop_bit 2 (target - mcp_arm st) - 1 in
      emit_arm (ai OR (delta AND 0x00ffffff)) st)"

definition emit_jmp_arm :: "32 word \<Rightarrow> asm32 \<Rightarrow> asm32" where
  "emit_jmp_arm target = emit_branch_arm ARMI_B target"

definition emit_call_arm :: "env32 \<Rightarrow> 32 word \<Rightarrow> asm32 \<Rightarrow> asm32" where
  "emit_call_arm E target st =
     (let delta = (target - (mcp_arm st - 4)) - 8; d4 = signed_drop_bit 2 delta in
      if signed_drop_bit 24 (d4 + 0x00800000) = 0
      then (if delta AND 1 \<noteq> 0
            then emit_arm (ARMI_BLX OR (d4 AND 0x00ffffff) OR push_bit 23 (delta AND 2)) st
            else emit_arm (ARMI_BL OR (d4 AND 0x00ffffff)) st)
      else
        let (r, st') = allock E target (RSET_RANGE (RID_arm ''R4'') (RID_arm ''R12'' + 1)) (emit_arm 0 st) in
        st'\<lparr>mc := (mc st')[length (mc st') - 1 - length (mc st) := ARMI_BLXr OR ARMF_M r]\<rparr>)"

section \<open>Generic operations\<close>

definition swap_early_arm :: "nat \<Rightarrow> nat \<Rightarrow> 32 word \<Rightarrow> 32 word" where
  "swap_early_arm dst src ins =
     (let d = of_nat dst; swp = of_nat src XOR d in
      if ins AND 0x0c000000 = 0x04000000 \<and> ins AND 0x02000010 \<noteq> 0x02000010
      then if ins AND 0x00100000 = 0 \<and> (ins XOR push_bit 12 d) AND 0xf000 = 0
           then ins XOR push_bit 12 swp
           else if (ins XOR push_bit 16 d) AND 0xf0000 = 0 then ins XOR push_bit 16 swp else ins
      else ins)"

definition emit_movrr_arm :: "bool \<Rightarrow> nat \<Rightarrow> nat \<Rightarrow> asm32 \<Rightarrow> asm32" where
  "emit_movrr_arm isnum dst src st =
     (if RID_MAX_GPR_arm \<le> dst
      then emit_dm_arm (if isnum then ARMI_VMOV_D else ARMI_VMOV_S) (dst mod 16) (src mod 16) st
      else
        let st = (if mcp_arm st \<noteq> mcloop st
                  then case mc st of [] \<Rightarrow> st | w # ws \<Rightarrow> st\<lparr>mc := swap_early_arm dst src w # ws\<rparr>
                  else st) in
        emit_dm_arm ARMI_MOV dst src st)"

definition emit_loadofs_arm :: "bool \<Rightarrow> nat \<Rightarrow> nat \<Rightarrow> int \<Rightarrow> asm32 \<Rightarrow> asm32" where
  "emit_loadofs_arm isnum r base ofs =
     (if RID_MAX_GPR_arm \<le> r then emit_vlso (if isnum then ARMI_VLDR_D else ARMI_VLDR_S) r base ofs
      else emit_lso_arm ARMI_LDR r base ofs)"

definition emit_storeofs_arm :: "bool \<Rightarrow> nat \<Rightarrow> nat \<Rightarrow> int \<Rightarrow> asm32 \<Rightarrow> asm32" where
  "emit_storeofs_arm isnum r base ofs =
     (if RID_MAX_GPR_arm \<le> r then emit_vlso (if isnum then ARMI_VSTR_D else ARMI_VSTR_S) r base ofs
      else emit_lso_arm ARMI_STR r base ofs)"

definition emit_opk_arm :: "env32 \<Rightarrow> 32 word \<Rightarrow> nat \<Rightarrow> nat \<Rightarrow> 32 word \<Rightarrow> 32 word \<Rightarrow> asm32 \<Rightarrow> asm32" where
  "emit_opk_arm E ai dest src i allow st =
     (let k = emit_isk12_arm ai i in
      if k \<noteq> 0 then emit_dn_arm (ai XOR k) dest src st
      else let (r, st) = allock E i allow st in emit_dnm_arm ai dest src r st)"

definition emit_addptr_arm :: "env32 \<Rightarrow> nat \<Rightarrow> 32 word \<Rightarrow> asm32 \<Rightarrow> asm32" where
  "emit_addptr_arm E r ofs st =
     (if ofs = 0 then st else emit_opk_arm E ARMI_ADD r r ofs (rset_exclude RSET_GPR_arm r) st)"

definition emit_spsub_arm :: "env32 \<Rightarrow> 32 word \<Rightarrow> asm32 \<Rightarrow> asm32" where
  "emit_spsub_arm E ofs = emit_addptr_arm E (RID_arm ''SP'') (- ofs)"

end
