(* ===== verification/LJ_Arm_Sem.thy ===== *)
theory LJ_Arm_Sem
  imports LJ_Arm
begin

text \<open>
  What the words of \<open>LJ_Arm\<close> mean to an ARM processor: the operands of data processing
  instructions, the execution of the instructions that build constants, and the correctness of
  \<open>emit_isk12\<close> and \<open>emit_loadi\<close>.
\<close>

section \<open>The operand of data processing instructions\<close>

lemma bit_lj_ror: "n < 32 \<Longrightarrow> bit (lj_ror x n) k \<longleftrightarrow> k < 32 \<and> bit x ((k + n) mod 32)"
proof -
  assume n: "n < 32"
  show ?thesis
  proof (cases "n = 0")
    case True
    then show ?thesis using bit_lt(1) [of x k] by (cases "k < 32") (auto simp: lj_ror_def)
  next
    case False
    then have m: "(32 - n) mod 32 = 32 - n" using n by simp
    show ?thesis
    proof (cases "k < 32 - n")
      case True
      then show ?thesis by (auto simp: lj_ror_def m bit_simps add.commute [of n])
    next
      case ge: False
      then have "(k + n) mod 32 = k - (32 - n)" if "k < 32"
        using that n ge by (subst le_mod_geq) auto
      moreover have "\<not> bit x (k + n)" using ge n by (auto dest!: bit_lt)
      ultimately show ?thesis using ge by (auto simp: lj_ror_def m bit_simps add.commute)
    qed
  qed
qed

lemma bit_lj_rol2: "bit (lj_rol x 2) k \<longleftrightarrow> k < 32 \<and> bit x ((k + 30) mod 32)"
proof -
  have "lj_rol x 2 = lj_ror x 30" by (simp add: lj_rol_def lj_ror_def)
  then show ?thesis by (simp add: bit_lj_ror)
qed

definition k12_val :: "32 word \<Rightarrow> 32 word" where
  "k12_val f = lj_ror (f AND 0xff) (2 * unat (drop_bit 8 f AND 15))"

lemma k12_rot_sound:
  "k12_rot n i m = Some (j, b) \<Longrightarrow> i \<le> j \<and> j < i + n \<and> b \<le> 255 \<and>
     (\<forall>k<32. bit b ((k + 2 * (j - i)) mod 32) = bit m k)"
proof (induction n arbitrary: i m)
  case (Suc n)
  show ?case
  proof (cases "m \<le> 255")
    case False
    with Suc.prems have s: "k12_rot n (Suc i) (lj_rol m 2) = Some (j, b)" by simp
    note IH = Suc.IH [OF s]
    have "bit b ((k + 2 * (j - i)) mod 32) = bit m k" if k: "k < 32" for k
    proof -
      have "((k + 2) mod 32 + 30) mod 32 = k" using k by (simp add: mod_add_left_eq)
      then have "bit (lj_rol m 2) ((k + 2) mod 32) = bit m k" by (simp add: bit_lj_rol2)
      moreover have "bit b (((k + 2) mod 32 + 2 * (j - Suc i)) mod 32) = bit (lj_rol m 2) ((k + 2) mod 32)"
        using IH by simp
      moreover have "((k + 2) mod 32 + 2 * (j - Suc i)) mod 32 = (k + 2 * (j - i)) mod 32"
      proof -
        have "2 * (j - i) = 2 + 2 * (j - Suc i)" using IH by auto
        then show ?thesis by (simp add: mod_simps)
      qed
      ultimately show ?thesis by simp
    qed
    moreover have "i \<le> j \<and> j < i + Suc n \<and> b \<le> 255" using IH by simp
    ultimately show ?thesis by blast
  qed (use Suc.prems in auto)
qed simp

lemma le_mask_bits: "(b :: 32 word) \<le> 255 \<longleftrightarrow> (\<forall>k. bit b k \<longrightarrow> k < 8)"
proof
  assume "b \<le> 255"
  then have "unat b < 2 ^ 8" by (simp add: word_le_nat_alt)
  then show "\<forall>k. bit b k \<longrightarrow> k < 8" using small_word_bits by blast
next
  assume *: "\<forall>k. bit b k \<longrightarrow> k < 8"
  have "b = b AND mask 8" using * by (intro bit_word_eqI) (auto simp: bit_simps)
  then have "b \<le> mask 8" by (metis word_and_le1)
  then show "b \<le> 255" by (simp add: mask_eq_exp_minus_1)
qed

lemma k12_fields_sound:
  assumes "k12_fields n = Some f"
  shows "f < 4096" "k12_val f = n"
proof -
  obtain i b where r: "k12_rot 16 0 n = Some (i, b)" and f0: "f = b OR push_bit 8 (of_nat i)"
    using assms by (auto simp: k12_fields_def split: option.splits)
  define w :: "32 word" where "w = of_nat i"
  note f = f0 [folded w_def]
  from k12_rot_sound [OF r] have i: "i < 16" and b: "b \<le> 255"
    and bits: "k < 32 \<Longrightarrow> bit b ((k + 2 * i) mod 32) = bit n k" for k by auto
  have m: "0xff = (mask 8 :: 32 word)" "15 = (mask 4 :: 32 word)" by (simp_all add: mask_eq_exp_minus_1)
  have u: "unat w = i" using i by (simp add: w_def unat_of_nat)
  then have i4: "bit w k \<Longrightarrow> k < 4" for k using small_word_bits [of w 4 k] i by simp
  have b8: "bit b k \<Longrightarrow> k < 8" for k using b le_mask_bits by blast
  have lo: "f AND 0xff = b" unfolding f m by (intro bit_word_eqI) (auto simp: bit_simps dest: b8)
  have hi: "drop_bit 8 f AND 15 = w" unfolding f m
    by (intro bit_word_eqI) (auto simp: bit_simps dest: b8 i4)
  have "f = f AND mask 12" unfolding f by (intro bit_word_eqI) (auto simp: bit_simps dest: b8 i4)
  then have "f \<le> mask 12" by (metis word_and_le1)
  then show "f < 4096" by (simp add: mask_eq_exp_minus_1 word_le_nat_alt word_less_nat_alt)
  show "k12_val f = n" unfolding k12_val_def lo hi u
    using i by (intro bit_word_eqI) (simp add: bit_lj_ror bits)
qed

lemma k12_rot_complete: "k12_rot n i m = None \<Longrightarrow> t < n \<Longrightarrow> \<not> ((\<lambda>x. lj_rol x 2) ^^ t) m \<le> 255"
proof (induction n arbitrary: i m t)
  case (Suc n)
  then show ?case by (cases t) (auto simp: funpow_Suc_right simp del: funpow.simps split: if_splits)
qed simp

lemma bit_rols: "k < 32 \<Longrightarrow> bit (((\<lambda>x. lj_rol x 2) ^^ t) m) k = bit m ((k + 30 * t) mod 32)"
proof (induction t arbitrary: k)
  case (Suc t)
  then show ?case by (simp add: bit_lj_rol2 mod_simps algebra_simps)
qed simp

text \<open>A byte at an even position can be encoded.\<close>

lemma k12_fields_byte:
  assumes "sh = 2 * t" "t < 16"
  shows "\<exists>f. k12_fields (i AND push_bit sh 255) = Some f"
proof (cases "k12_rot 16 0 (i AND push_bit sh 255)")
  case None
  let ?m = "i AND push_bit sh (255 :: 32 word)"
  have m: "255 = (mask 8 :: 32 word)" by (simp add: mask_eq_exp_minus_1)
  have "bit (((\<lambda>x. lj_rol x 2) ^^ ((16 - t) mod 16)) ?m) k \<Longrightarrow> k < 8" for k
  proof -
    assume a: "bit (((\<lambda>x. lj_rol x 2) ^^ ((16 - t) mod 16)) ?m) k"
    then have k: "k < 32" by blast
    with a have "bit ?m ((k + 30 * ((16 - t) mod 16)) mod 32)" by (simp add: bit_rols)
    then have "sh \<le> (k + 30 * ((16 - t) mod 16)) mod 32 \<and> (k + 30 * ((16 - t) mod 16)) mod 32 < sh + 8"
      unfolding m by (simp add: bit_simps) linarith
    moreover have "(k + 30 * ((16 - t) mod 16)) mod 32 = (k + sh) mod 32"
    proof (cases "t = 0")
      case False
      then have "(16 - t) mod 16 = 16 - t" by simp
      moreover have "k + 30 * (16 - t) = k + sh + 32 * (15 - t)" using assms False by simp
      ultimately show ?thesis by (simp only: mod_mult_self2)
    qed (use assms in simp)
    ultimately show "k < 8" using k assms
      by (cases "k + sh < 32") (auto simp: mod_if split: if_splits)
  qed
  then have "((\<lambda>x. lj_rol x 2) ^^ ((16 - t) mod 16)) ?m \<le> 255" by (simp add: le_mask_bits)
  then show ?thesis using k12_rot_complete [OF None, of "(16 - t) mod 16"] by simp
qed (auto simp: k12_fields_def)

section \<open>Execution\<close>

text \<open>
  The result of the sixteen data processing instructions on the first operand, the second one and
  the carry; the comparisons compute it for the flags only.
\<close>

definition alu :: "nat \<Rightarrow> bool \<Rightarrow> 32 word \<Rightarrow> 32 word \<Rightarrow> 32 word" where
  "alu op c a b =
     [a AND b, a XOR b, a - b, b - a, a + b, a + b + of_bool c, a - b - of_bool (\<not> c),
      b - a - of_bool (\<not> c), a AND b, a XOR b, a - b, a + b, a OR b, b, a AND NOT b, NOT b] ! op"

lemma alu_simps [simp]:
  "alu 0 c a b = a AND b"
  "alu 1 c a b = a XOR b"
  "alu 2 c a b = a - b"
  "alu 3 c a b = b - a"
  "alu 4 c a b = a + b"
  "alu 5 c a b = a + b + of_bool c"
  "alu 6 c a b = a - b - of_bool (\<not> c)"
  "alu 7 c a b = b - a - of_bool (\<not> c)"
  "alu 8 c a b = a AND b"
  "alu 9 c a b = a XOR b"
  "alu 10 c a b = a - b"
  "alu 11 c a b = a + b"
  "alu 12 c a b = a OR b"
  "alu 13 c a b = b"
  "alu 14 c a b = a AND NOT b"
  "alu 15 c a b = NOT b"
  by (simp_all only: alu_def) simp_all

lemma alu_inverse:
  "(q, v) \<in> {(0, 14), (5, 3), (6, 3), (13, 2), (14, 14), (15, 2)} \<Longrightarrow>
     alu (unat (of_nat q XOR v :: 32 word)) c a (NOT n) = alu q c a n"
  "(q, v) \<in> {(2, 6), (4, 6), (10, 1), (11, 1)} \<Longrightarrow>
     alu (unat (of_nat q XOR v :: 32 word)) c a (- n) = alu q c a n"
proof -
  have "a + NOT n + of_bool c = a - n - of_bool (\<not> c)" "a - NOT n - of_bool (\<not> c) = a + n + of_bool c"
    by (cases c; simp add: not_eq_complement)+
  then show "(q, v) \<in> {(0, 14), (5, 3), (6, 3), (13, 2), (14, 14), (15, 2)} \<Longrightarrow>
     alu (unat (of_nat q XOR v :: 32 word)) c a (NOT n) = alu q c a n"
    by (elim insertE emptyE) (simp_all only: prod.inject; simp)+
  show "(q, v) \<in> {(2, 6), (4, 6), (10, 1), (11, 1)} \<Longrightarrow>
     alu (unat (of_nat q XOR v :: 32 word)) c a (- n) = alu q c a n"
    by (elim insertE emptyE) (simp_all only: prod.inject; simp)+
qed

definition f_op :: "32 word \<Rightarrow> nat" where "f_op w = unat (drop_bit 21 w AND 15)"
definition f_d :: "32 word \<Rightarrow> nat" where "f_d w = unat (drop_bit 12 w AND 15)"
definition f_n :: "32 word \<Rightarrow> nat" where "f_n w = unat (drop_bit 16 w AND 15)"

definition exec_arm :: "bool \<Rightarrow> 32 word \<Rightarrow> (nat \<Rightarrow> 32 word) \<Rightarrow> (nat \<Rightarrow> 32 word) option" where
  "exec_arm c w R =
     (let d = f_d w; imm16 = push_bit 12 (of_nat (f_n w)) OR (w AND 0xfff) in
      if drop_bit 20 w = 0xe30 then Some (R(d := imm16))
      else if drop_bit 20 w = 0xe34 then Some (R(d := (R d AND 0xffff) OR push_bit 16 imm16))
      else if drop_bit 25 w = 0x71 \<and> f_op w \<notin> {8, 9, 10, 11}
      then Some (R(d := alu (f_op w) c (R (f_n w)) (k12_val (w AND 0xfff))))
      else if drop_bit 20 w = 0xe1a \<and> w AND 0xff0 = 0 then Some (R(d := R (unat (w AND 15))))
      else None)"

fun exec_arms :: "bool \<Rightarrow> 32 word list \<Rightarrow> (nat \<Rightarrow> 32 word) \<Rightarrow> (nat \<Rightarrow> 32 word) option" where
  "exec_arms c [] R = Some R"
| "exec_arms c (w # ws) R = Option.bind (exec_arm c w R) (exec_arms c ws)"

lemma invai_nums:
  "emit_invai = [14, 0, 6, 0, 6, 3, 3, 0, 0, 0, 1, 1, 0, 2, 14, 2]"
  by (simp add: emit_invai_def armi)

text \<open>The shape of an encoded operand: the bits of the inverse operation and twelve bits of constant.\<close>

lemma isk12_cases:
  assumes "emit_isk12_arm ai n \<noteq> 0"
  obtains f v where "emit_isk12_arm ai n = ARMI_K12 OR push_bit 21 v OR f" "f < 4096" "unat v < 16"
    "v = 0 \<and> k12_val f = n \<or> v = emit_invai ! unat (drop_bit 21 ai AND 15) \<and> v \<noteq> 0 \<and>
       k12_val f = (if v = 6 \<or> v = 1 then - n else NOT n)"
proof (cases "k12_fields n")
  case (Some f)
  show ?thesis
    using Some k12_fields_sound [OF Some] by (intro that [of 0 f]) (simp_all add: emit_isk12_arm_def)
next
  case None
  define v where "v = emit_invai ! unat (drop_bit 21 ai AND 15)"
  have n6: "drop_bit 21 (ARMI_SUB XOR ARMI_ADD) = 6" "drop_bit 21 (ARMI_CMP XOR ARMI_CMN) = 1"
    by (simp_all add: armi)
  have neg: "NOT n + 1 = - n" by (simp add: not_eq_complement)
  have "k12_fields (if v = 6 \<or> v = 1 then - n else NOT n) \<noteq> None \<and> v \<noteq> 0"
    using assms None unfolding emit_isk12_arm_def v_def [symmetric] n6 neg
    by (auto simp: Let_def split: if_splits option.splits)
  then obtain f where f: "k12_fields (if v = 6 \<or> v = 1 then - n else NOT n) = Some f" and v0: "v \<noteq> 0" by auto
  have "unat (drop_bit 21 ai AND 15) < 16"
    using word_and_le1 [of "drop_bit 21 ai" 15] by (simp add: word_le_nat_alt)
  then have "v \<in> set emit_invai" unfolding v_def by (intro nth_mem) (simp add: invai_nums)
  then have "unat v < 16" by (auto simp: invai_nums)
  moreover have "emit_isk12_arm ai n = ARMI_K12 OR push_bit 21 v OR f"
    using None f v0 unfolding emit_isk12_arm_def v_def [symmetric] n6 neg by (simp add: Let_def)
  ultimately show ?thesis using that [of v f] k12_fields_sound [OF f] v0 by (simp add: v_def)
qed

lemma op_bits:
  assumes "f < 4096" "unat v < 16" "ai AND 0xfff = 0" "w = ai XOR (ARMI_K12 OR push_bit 21 v OR f)"
  shows "w AND 0xfff = f" "drop_bit 21 w AND 15 = (drop_bit 21 ai AND 15) XOR v"
    "drop_bit 25 w = drop_bit 25 ai XOR 1" "bit w 20 = bit ai 20"
    "w AND 0xff000 = ai AND 0xff000"
proof -
  have m: "0xfff = (mask 12 :: 32 word)" "15 = (mask 4 :: 32 word)" "0xff000 = push_bit 12 (mask 8 :: 32 word)" by (simp_all add: mask_eq_exp_minus_1)
  have K: "bit ARMI_K12 k \<longleftrightarrow> k = 25" for k
  proof -
    have "ARMI_K12 = 2 ^ 25" by (simp add: armi)
    show ?thesis unfolding \<open>ARMI_K12 = 2 ^ 25\<close> bit_exp_iff by auto
  qed
  have f: "bit f k \<Longrightarrow> k < 12" for k
    using assms(1) small_word_bits [of f 12 k] by (simp add: word_less_nat_alt)
  have v: "bit v k \<Longrightarrow> k < 4" for k using assms(2) small_word_bits [of v 4 k] by simp
  have ai: "k < 12 \<Longrightarrow> \<not> bit ai k" for k
    using arg_cong [OF assms(3) [unfolded m], of "\<lambda>w. bit w k"] by (auto simp: bit_simps)
  note b = assms(4) m
  show "w AND 0xfff = f" unfolding b by (intro bit_word_eqI) (auto simp: bit_simps K dest: f ai)
  show "drop_bit 21 w AND 15 = (drop_bit 21 ai AND 15) XOR v"
    unfolding b by (intro bit_word_eqI) (auto simp: bit_simps K dest: f v)
  show "drop_bit 25 w = drop_bit 25 ai XOR 1"
    unfolding b by (intro bit_word_eqI) (auto simp: bit_simps K dest: f v)
  show "bit w 20 = bit ai 20" unfolding b by (auto simp: bit_simps K dest: f)
  show "w AND 0xff000 = ai AND 0xff000"
    unfolding b by (intro bit_word_eqI) (auto simp: bit_simps K; (drule f)?; linarith)
qed

text \<open>
  An encoded constant operand is exact. For any of the sixteen data processing opcodes, carry and first operand,
  the instruction with the encoding (which may be the inverse operation on the complement or the
  negated constant) computes what the original instruction computes on the constant; its condition, flag bit
  and register fields are those of the original.
\<close>

theorem arm_k12_operand:
  assumes "emit_isk12_arm ai n \<noteq> 0" "ai AND 0xfff = 0" "w = ai XOR emit_isk12_arm ai n"
  shows "alu (f_op w) c a (k12_val (w AND 0xfff)) = alu (f_op ai) c a n \<and>
    drop_bit 25 w = drop_bit 25 ai XOR 1 \<and> bit w 20 = bit ai 20 \<and> w AND 0xff000 = ai AND 0xff000"
proof -
  obtain f v where k: "emit_isk12_arm ai n = ARMI_K12 OR push_bit 21 v OR f" "f < 4096" "unat v < 16"
    and v: "v = 0 \<and> k12_val f = n \<or> v = emit_invai ! unat (drop_bit 21 ai AND 15) \<and> v \<noteq> 0 \<and>
       k12_val f = (if v = 6 \<or> v = 1 then - n else NOT n)"
    using isk12_cases [OF assms(1)] by blast
  note b = op_bits [OF k(2,3) assms(2) assms(3) [unfolded k(1)]]
  define q where "q = unat (drop_bit 21 ai AND 15)"
  have q: "drop_bit 21 ai AND 15 = of_nat q" by (simp add: q_def)
  have "q < 16" using word_and_le1 [of "drop_bit 21 ai" 15] by (simp add: q_def word_le_nat_alt)
  then have cs: "q \<in> {0, 1, 2, 3, 4, 5, 6, 7, 8, 9, 10, 11, 12, 13, 14, 15}"
    by (simp add: less_Suc_eq numeral_eq_Suc)
  have "alu (unat (of_nat q XOR v :: 32 word)) c a (k12_val f) = alu q c a n"
  proof (cases "v = 0")
    case True
    then show ?thesis using v \<open>q < 16\<close> by (auto simp: unat_of_nat)
  next
    case False
    with v have K: "k12_val f = (if v = 6 \<or> v = 1 then - n else NOT n)" and e: "v = emit_invai ! q"
      by (simp_all add: q_def)
    from e False cs have p: "(q, v) \<in> {(0, 14), (5, 3), (6, 3), (13, 2), (14, 14), (15, 2)} \<or>
        (q, v) \<in> {(2, 6), (4, 6), (10, 1), (11, 1)}"
      unfolding invai_nums by (elim insertE emptyE) simp_all
    then show ?thesis
    proof
      assume p: "(q, v) \<in> {(0, 14), (5, 3), (6, 3), (13, 2), (14, 14), (15, 2)}"
      then have "k12_val f = NOT n" unfolding K by auto
      then show ?thesis using alu_inverse(1) [OF p] by simp
    next
      assume p: "(q, v) \<in> {(2, 6), (4, 6), (10, 1), (11, 1)}"
      then have "k12_val f = - n" unfolding K by auto
      then show ?thesis using alu_inverse(2) [OF p] by simp
    qed
  qed
  moreover have "f_op w = unat (of_nat q XOR v :: 32 word)" unfolding f_op_def b q ..
  moreover have "f_op ai = q" by (simp only: f_op_def q_def)
  ultimately show ?thesis using b by simp
qed

theorem arm_k12_operand_witness:
  "emit_isk12_arm ARMI_AND 0xffffff00 \<noteq> 0 \<and>
   (let w = ARMI_AND XOR emit_isk12_arm ARMI_AND 0xffffff00 in
    f_op w = 14 \<and> alu (f_op w) False 0x1234 (k12_val (w AND 0xfff)) = 0x1200)"
proof -
  have e: "emit_isk12_arm ARMI_AND 0xffffff00 = 0x3c000ff" by code_simp
  have "f_op (ARMI_AND XOR 0x3c000ff) = 14" "f_op ARMI_AND = 0" by (simp_all add: f_op_def armi)
  then show ?thesis
    using arm_k12_operand [of ARMI_AND "0xffffff00" "ARMI_AND XOR 0x3c000ff" False "0x1234"]
    by (simp add: e) (simp add: armi)
qed

lemma reg_fields:
  assumes "x AND 0xff000 = 0" "rd < 16" "rn < 16" "w = (x OR ARMF_D rd OR ARMF_N rn)"
  shows "w AND 0xfff = x AND 0xfff" "drop_bit 20 w = drop_bit 20 x" "f_d w = rd" "f_n w = rn"
proof -
  define d where "d = (of_nat rd :: 32 word)"
  define n where "n = (of_nat rn :: 32 word)"
  have u: "unat d = rd" "unat n = rn" using assms(2,3) by (simp_all add: d_def n_def unat_of_nat)
  have d: "bit d k \<Longrightarrow> k < 4" and n: "bit n k \<Longrightarrow> k < 4" for k
    using small_word_bits [of d 4 k] small_word_bits [of n 4 k] u assms(2,3) by auto
  have m: "0xfff = (mask 12 :: 32 word)" "15 = (mask 4 :: 32 word)" "0xff000 = push_bit 12 (mask 8 :: 32 word)"
    by (simp_all add: mask_eq_exp_minus_1)
  have x: "12 \<le> k \<Longrightarrow> k < 20 \<Longrightarrow> \<not> bit x k" for k
    using arg_cong [OF assms(1) [unfolded m], of "\<lambda>w. bit w k"] by (auto simp: bit_simps)
  have w: "w = x OR push_bit 12 d OR push_bit 16 n"
    using assms(4) by (simp add: ARMF_D_def ARMF_N_def d_def n_def)
  show "w AND 0xfff = x AND 0xfff" unfolding w m by (intro bit_word_eqI) (auto simp: bit_simps)
  show "drop_bit 20 w = drop_bit 20 x" unfolding w m
    by (intro bit_word_eqI) (auto simp: bit_simps; (drule d)?; (drule n)?; simp)
  have "drop_bit 12 w AND 15 = d" unfolding w m
    by (intro bit_word_eqI) (auto simp: bit_simps x; (drule d)?; (drule n)?; simp)
  then show "f_d w = rd" by (simp add: f_d_def u)
  have "drop_bit 16 w AND 15 = n" unfolding w m
    by (intro bit_word_eqI) (auto simp: bit_simps x; (drule d)?; (drule n)?; simp)
  then show "f_n w = rn" by (simp add: f_n_def u)
qed

lemma drop_more: "drop_bit 21 w = drop_bit 1 (drop_bit 20 (w :: 32 word))"
  "drop_bit 25 w = drop_bit 5 (drop_bit 20 (w :: 32 word))"
  by (simp_all only: drop_bit_drop_bit) simp_all

lemma exec_dp:
  assumes "x AND 0xff000 = 0" "rd < 16" "rn < 16" "drop_bit 25 x = 0x71" "f_op x \<notin> {8, 9, 10, 11}"
  shows "exec_arm c (x OR ARMF_D rd OR ARMF_N rn) R =
    Some (R(rd := alu (f_op x) c (R rn) (k12_val (x AND 0xfff))))"
proof -
  let ?w = "x OR ARMF_D rd OR ARMF_N rn"
  note f = reg_fields [OF assms(1,2,3) refl]
  have op: "f_op ?w = f_op x" "drop_bit 25 ?w = 0x71"
  proof -
    show "f_op ?w = f_op x" unfolding f_op_def drop_more f(2) ..
    show "drop_bit 25 ?w = 0x71" using assms(4) unfolding drop_more f(2) .
  qed
  have n: "drop_bit 20 x \<noteq> 0xe30" "drop_bit 20 x \<noteq> 0xe34"
  proof -
    show "drop_bit 20 x \<noteq> 0xe30"
    proof
      assume a: "drop_bit 20 x = 0xe30"
      have "f_op x = 8" unfolding f_op_def drop_more(1) a by simp
      with assms(5) show False by simp
    qed
    show "drop_bit 20 x \<noteq> 0xe34"
    proof
      assume a: "drop_bit 20 x = 0xe34"
      have "f_op x = 10" unfolding f_op_def drop_more(1) a by simp
      with assms(5) show False by simp
    qed
  qed
  show ?thesis
    unfolding exec_arm_def Let_def
    by (simp only: op f n assms(5) if_False if_True simp_thms not_False_eq_True)
qed

lemma exec_dp_k12:
  assumes "emit_isk12_arm ai n \<noteq> 0" "ai AND 0xfffff = 0" "drop_bit 25 ai = 0x70"
    "f_op ai \<in> {4, 13}" "rd < 16" "rn < 16"
  shows "exec_arm c ((ai XOR emit_isk12_arm ai n) OR ARMF_D rd OR ARMF_N rn) R =
    Some (R(rd := alu (f_op ai) c (R rn) n))"
proof -
  let ?w = "ai XOR emit_isk12_arm ai n"
  obtain f v where k: "emit_isk12_arm ai n = ARMI_K12 OR push_bit 21 v OR f" "f < 4096" "unat v < 16"
    and v: "v = 0 \<or> v = emit_invai ! f_op ai"
  proof (rule isk12_cases [OF assms(1)], rule that)
    fix f v :: "32 word"
    assume "v = 0 \<and> k12_val f = n \<or> v = emit_invai ! unat (drop_bit 21 ai AND 15) \<and> v \<noteq> 0 \<and>
       k12_val f = (if v = 6 \<or> v = 1 then - n else NOT n)"
    then show "v = 0 \<or> v = emit_invai ! f_op ai" unfolding f_op_def by blast
  qed
  have low: "ai AND 0xfff = 0" "ai AND 0xff000 = 0"
  proof -
    have "ai AND 0xfff = (ai AND 0xfffff) AND 0xfff" "ai AND 0xff000 = (ai AND 0xfffff) AND 0xff000"
      by (simp_all only: and.assoc) simp_all
    then show "ai AND 0xfff = 0" "ai AND 0xff000 = 0" by (simp_all only: assms(2)) simp_all
  qed
  note b = op_bits [OF k(2,3) low(1) refl, folded k(1)]
  have e: "drop_bit 21 ai AND 15 = of_nat (f_op ai)" by (simp add: f_op_def)
  have "f_op ?w = unat ((drop_bit 21 ai AND 15) XOR v)" unfolding f_op_def b(2) ..
  then have "f_op ?w = unat (of_nat (f_op ai) XOR v :: 32 word)" unfolding e .
  then have "f_op ?w \<in> {4, 13, 2, 15}" using assms(4) v by (auto simp: invai_nums)
  moreover have "drop_bit 25 ?w = 0x71" unfolding b(3) assms(3) by simp
  ultimately have "exec_arm c (?w OR ARMF_D rd OR ARMF_N rn) R =
      Some (R(rd := alu (f_op ?w) c (R rn) (k12_val (?w AND 0xfff))))"
    using b(5) low(2) by (intro exec_dp assms(5,6)) auto
  then show ?thesis using arm_k12_operand [OF assms(1) low(1) refl, of c "R rn"] by simp
qed

lemma exec_direct:
  assumes "k12_fields m = Some f" "A AND 0xfff = 0" "A AND 0xff000 = 0" "drop_bit 25 A = 0x70"
    "f_op A \<notin> {8, 9, 10, 11}" "rd < 16" "rn < 16"
  shows "exec_arm c ((A XOR (ARMI_K12 OR f)) OR ARMF_D rd OR ARMF_N rn) R =
    Some (R(rd := alu (f_op A) c (R rn) m))"
proof -
  let ?w = "A XOR (ARMI_K12 OR f)"
  note b = op_bits [OF k12_fields_sound(1) [OF assms(1)], of 0 A ?w, OF _ assms(2)]
  have "f_op ?w = f_op A" unfolding f_op_def using b(2) by simp
  moreover have "drop_bit 25 ?w = 0x71" using b(3) assms(4) by simp
  moreover have "?w AND 0xfff = f" "?w AND 0xff000 = 0" using b(1,5) assms(3) by simp_all
  ultimately show ?thesis
    using exec_dp [of ?w rd rn c R] assms(5,6,7) k12_fields_sound(2) [OF assms(1)] by simp
qed

lemma exec_arm_words:
  "drop_bit 20 w = 0xe30 \<Longrightarrow> exec_arm c w R = Some (R(f_d w := push_bit 12 (of_nat (f_n w)) OR (w AND 0xfff)))"
  "drop_bit 20 w = 0xe34 \<Longrightarrow> exec_arm c w R =
     Some (R(f_d w := (R (f_d w) AND 0xffff) OR push_bit 16 (push_bit 12 (of_nat (f_n w)) OR (w AND 0xfff))))"
  "drop_bit 20 w = 0xe1a \<Longrightarrow> w AND 0xff0 = 0 \<Longrightarrow> exec_arm c w R = Some (R(f_d w := R (unat (w AND 15))))"
proof -
  show "drop_bit 20 w = 0xe1a \<Longrightarrow> w AND 0xff0 = 0 \<Longrightarrow> exec_arm c w R = Some (R(f_d w := R (unat (w AND 15))))"
  proof -
    assume a: "drop_bit 20 w = 0xe1a" "w AND 0xff0 = 0"
    have "drop_bit 25 w = 0x70" unfolding drop_more a by simp
    then show ?thesis by (simp add: exec_arm_def a)
  qed
qed (simp_all add: exec_arm_def Let_def)

lemma exec_movw_t:
  assumes "rd < 16"
  shows "exec_arm c (ARMI_MOVW OR movw16 i OR ARMF_D rd) R = Some (R(rd := i AND 0xffff))"
    "exec_arm c (ARMI_MOVT OR movw16 i OR ARMF_D rd) R =
      Some (R(rd := (R rd AND 0xffff) OR push_bit 16 (i AND 0xffff)))"
proof -
  define rn where "rn = unat (drop_bit 12 i AND 15)"
  have rn: "rn < 16" using word_and_le1 [of "drop_bit 12 i" 15] by (simp add: rn_def word_le_nat_alt)
  have m: "0xfff = (mask 12 :: 32 word)" "15 = (mask 4 :: 32 word)" "0xffff = (mask 16 :: 32 word)"
    "0xf000 = push_bit 12 (mask 4 :: 32 word)" by (simp_all add: mask_eq_exp_minus_1)
  have "movw16 i = (i AND 0xfff) OR push_bit 16 (drop_bit 12 i AND 15)"
    unfolding movw16_def m by (intro bit_word_eqI) (auto simp: bit_simps)
  then have mw: "movw16 i = (i AND 0xfff) OR ARMF_N rn" by (simp add: ARMF_N_def rn_def)
  have nn: "of_nat rn = drop_bit 12 i AND 15" by (simp add: rn_def)
  have im: "push_bit 12 (of_nat rn) OR (i AND 0xfff) = i AND 0xffff"
    unfolding nn m by (intro bit_word_eqI) (auto simp: bit_simps)
  have w: "C OR movw16 i OR ARMF_D rd = (C OR (i AND 0xfff)) OR ARMF_D rd OR ARMF_N rn" for C
    by (simp add: mw ac_simps)
  have x: "(C OR (i AND 0xfff)) AND 0xff000 = 0" "(C OR (i AND 0xfff)) AND 0xfff = i AND 0xfff"
    "drop_bit 20 (C OR (i AND 0xfff)) = drop_bit 20 C" if "C = ARMI_MOVW \<or> C = ARMI_MOVT" for C
    using that by (auto simp: armi word_ao_dist and.assoc drop_bit_or drop_bit_and)
  have W: "drop_bit 20 (ARMI_MOVW OR movw16 i OR ARMF_D rd) = 0xe30"
    "(ARMI_MOVW OR movw16 i OR ARMF_D rd) AND 0xfff = i AND 0xfff"
    "f_d (ARMI_MOVW OR movw16 i OR ARMF_D rd) = rd" "f_n (ARMI_MOVW OR movw16 i OR ARMF_D rd) = rn"
    unfolding w reg_fields [OF x(1) assms rn refl, OF disjI1, OF refl]
    using x(2,3) [of ARMI_MOVW] by (simp_all add: armi)
  have T: "drop_bit 20 (ARMI_MOVT OR movw16 i OR ARMF_D rd) = 0xe34"
    "(ARMI_MOVT OR movw16 i OR ARMF_D rd) AND 0xfff = i AND 0xfff"
    "f_d (ARMI_MOVT OR movw16 i OR ARMF_D rd) = rd" "f_n (ARMI_MOVT OR movw16 i OR ARMF_D rd) = rn"
    unfolding w reg_fields [OF x(1) assms rn refl, OF disjI2, OF refl]
    using x(2,3) [of ARMI_MOVT] by (simp_all add: armi)
  show "exec_arm c (ARMI_MOVW OR movw16 i OR ARMF_D rd) R = Some (R(rd := i AND 0xffff))"
    unfolding exec_arm_words(1) [OF W(1)] W im ..
  show "exec_arm c (ARMI_MOVT OR movw16 i OR ARMF_D rd) R =
      Some (R(rd := (R rd AND 0xffff) OR push_bit 16 (i AND 0xffff)))"
    unfolding exec_arm_words(2) [OF T(1)] T im ..
qed

lemma exec_mov:
  assumes "d < 16" "r < 16"
  shows "exec_arm c (ARMI_MOV OR ARMF_D d OR ARMF_M r) R = Some (R(d := R r))"
proof -
  define m where "m = (of_nat r :: 32 word)"
  let ?x = "ARMI_MOV OR m"
  have u: "unat m = r" using assms(2) by (simp add: m_def unat_of_nat)
  have m4: "bit m k \<Longrightarrow> k < 4" for k using small_word_bits [of m 4 k] u assms(2) by simp
  have w: "ARMI_MOV OR ARMF_D d OR ARMF_M r = ?x OR ARMF_D d OR ARMF_N 0"
    by (simp add: ARMF_M_def ARMF_N_def m_def ac_simps)
  have k: "0xff000 = push_bit 12 (mask 8 :: 32 word)" "0xff0 = push_bit 4 (mask 8 :: 32 word)"
    "15 = (mask 4 :: 32 word)" by (simp_all add: mask_eq_exp_minus_1)
  have z: "m AND 0xff000 = 0" "m AND 0xff0 = 0" "m AND 15 = m" "drop_bit 20 m = 0"
    unfolding k by (auto intro!: bit_word_eqI simp: bit_simps; drule m4; simp)+
  have x: "?x AND 0xff000 = 0" "?x AND 0xff0 = 0" "?x AND 15 = m" "drop_bit 20 ?x = 0xe1a"
    by (simp_all add: word_ao_dist drop_bit_or z armi)
  note f = reg_fields [OF x(1) assms(1) zero_less_numeral refl]
  let ?w = "?x OR ARMF_D d OR ARMF_N 0"
  have s: "?w AND 0xff0 = (?w AND 0xfff) AND 0xff0" "?w AND 15 = (?w AND 0xfff) AND 15"
    by (simp_all only: and.assoc) simp_all
  have "?w AND 0xff0 = 0" "?w AND 15 = m"
    unfolding s f(1) by (simp_all only: and.assoc) (simp_all add: x)
  moreover have "drop_bit 20 ?w = 0xe1a" unfolding f(2) x ..
  ultimately have "exec_arm c ?w R = Some (R(f_d ?w := R (unat m)))"
    using exec_arm_words(3) [of ?w c R] by simp
  then show ?thesis unfolding w f u .
qed

section \<open>Loading a constant\<close>

text \<open>
  What the register allocator keeps: an allocated register whose reference can be rematerialised
  holds the value of that constant.
\<close>

definition holds_consts :: "env32 \<Rightarrow> asm32 \<Rightarrow> (nat \<Rightarrow> 32 word) \<Rightarrow> bool" where
  "holds_consts E st R \<longleftrightarrow> (\<forall>r<16. bit (NOT (freeset st) AND RSET_GPR_arm) r \<longrightarrow>
     emit_canremat E (regcost_ref (cost st r)) \<longrightarrow> R r = kval E st (regcost_ref (cost st r)))"

lemma kdelta_search_some:
  "kdelta_search E ins n work st = Some st' \<Longrightarrow> \<exists>r f. bit work r \<and> emit_canremat E (regcost_ref (cost st r)) \<and>
     ins r (kval E st (regcost_ref (cost st r))) = Some f \<and> st' = f st"
proof (induction n arbitrary: work)
  case (Suc n)
  then have nz: "work \<noteq> 0" by auto
  then have top: "bit work (rset_picktop work)"
    using rset_picktop_Max [of work] Max_in [of "rset_abs work"] rset_abs_empty [of work]
    by (auto simp: RSET_EMPTY_def rset_abs_def)
  show ?case
  proof (cases "kdelta_search E ins n (rset_clear work (rset_picktop work)) st = Some st'")
    case True
    then obtain r f where "bit (rset_clear work (rset_picktop work)) r" and
      r: "emit_canremat E (regcost_ref (cost st r))"
        "ins r (kval E st (regcost_ref (cost st r))) = Some f" "st' = f st"
      using Suc.IH by blast
    moreover from this(1) have "bit work r" by (simp add: rset_clear_def bit_simps)
    ultimately show ?thesis by blast
  next
    case False
    with Suc.prems nz top show ?thesis by (auto simp: Let_def split: if_splits option.splits)
  qed
qed simp

lemma f_op_consts [simp]:
  "f_op ARMI_MOV = 13" "f_op ARMI_ADD = 4" "f_op ARMI_ORR = 12" "f_op ARMI_SUB = 2"
  by (simp_all add: f_op_def armi)

lemma const_shape [simp]:
  "ARMI_MOV AND 0xfffff = 0" "ARMI_ADD AND 0xfffff = 0" "drop_bit 25 ARMI_MOV = 0x70" "drop_bit 25 ARMI_ADD = 0x70"
  "ARMI_ORR AND 0xfff = 0" "ARMI_ORR AND 0xff000 = 0" "drop_bit 25 ARMI_ORR = 0x70"
  "ARMI_MOV AND 0xfff = 0" "ARMI_MOV AND 0xff000 = 0"
  by (simp_all add: armi)

lemma kdelta1_exec:
  assumes "kdelta1_ins d r (i - R r) = Some f" "d < 16" "r < 16"
  shows "\<exists>w. mc (f st) = w # mc st \<and> exec_arm c w R = Some (R(d := i))"
proof -
  define k where "k = emit_isk12_arm ARMI_ADD (i - R r)"
  have k0: "k \<noteq> 0" using assms(1) by (auto simp: kdelta1_ins_def k_def Let_def split: if_splits)
  show ?thesis
  proof (cases "k = ARMI_K12")
    case True
    then have "f = emit_dm_arm ARMI_MOV d r" using assms(1) k0 unfolding kdelta1_ins_def k_def [symmetric] by simp
    moreover have "alu 4 c (R r) 0 = alu 4 c (R r) (i - R r)"
    proof -
      have "k12_val ((ARMI_ADD XOR ARMI_K12) AND 0xfff) = 0" "f_op (ARMI_ADD XOR ARMI_K12) = 4"
        by (simp_all add: armi f_op_def k12_val_def lj_ror_def)
      moreover have "ARMI_ADD AND 0xfff = 0" by (simp add: armi)
      note arm_k12_operand [OF k0 [unfolded k_def] this refl, of c "R r", folded k_def, unfolded True]
      ultimately show ?thesis by simp
    qed
    ultimately show ?thesis
      using exec_mov [OF assms(2,3), of c R] by (simp add: emit_dm_arm_def emit_arm_def)
  next
    case False
    then have "f = emit_dn_arm (ARMI_ADD XOR k) d r"
      using assms(1) k0 unfolding kdelta1_ins_def k_def [symmetric] by simp
    then show ?thesis
      using exec_dp_k12 [OF k0 [unfolded k_def], of d r c R] assms(2,3)
      by (simp add: emit_dn_arm_def emit_arm_def k_def)
  qed
qed

text \<open>A constant whose low \<open>sh + 8\<close> bits and top bit are clear has no inverse encoding.\<close>

lemma no_inverse:
  assumes "\<And>k. k < 8 \<Longrightarrow> \<not> bit m k" "\<not> bit m 31"
  shows "k12_fields (NOT m) = None"
proof (rule ccontr)
  assume "k12_fields (NOT m) \<noteq> None"
  then obtain f where f: "k12_fields (NOT m) = Some f" by auto
  define n where "n = 2 * unat (drop_bit 8 f AND 15)"
  have n: "n < 32" using word_and_le1 [of "drop_bit 8 f" 15] by (simp add: n_def word_le_nat_alt)
  have m: "0xff = (mask 8 :: 32 word)" by (simp add: mask_eq_exp_minus_1)
  have b: "bit (NOT m) k \<Longrightarrow> (k + n) mod 32 < 8" for k
    using k12_fields_sound(2) [OF f, symmetric] n
    unfolding k12_val_def n_def [symmetric] m by (auto simp: bit_lj_ror bit_simps)
  have "bit (NOT m) 0" "bit (NOT m) 7" "bit (NOT m) 31" using assms by (simp_all add: bit_simps)
  then have "n mod 32 < 8" "(7 + n) mod 32 < 8" "(31 + n) mod 32 < 8" using b [of 0] b [of 7] b [of 31] by auto
  then show False using n by (auto simp: mod_if split: if_splits)
qed

lemma isk12_direct: "k12_fields n = Some f \<Longrightarrow> emit_isk12_arm ai n = ARMI_K12 OR f"
  by (simp add: emit_isk12_arm_def)

lemma fields_zero: "k12_fields 0 = Some 0"
  by (simp add: k12_fields_def numeral_eq_Suc)

lemma byte_fields: "\<exists>f. k12_fields (i AND push_bit (2 * t) 255) = Some f"
proof (cases "t < 16")
  case False
  have m: "255 = (mask 8 :: 32 word)" by (simp add: mask_eq_exp_minus_1)
  have "i AND push_bit (2 * t) 255 = 0" unfolding m
    using False by (intro bit_word_eqI) (auto simp: bit_simps)
  then show ?thesis using fields_zero by simp
qed (use k12_fields_byte in blast)

lemma ffs_low: "k < 2 * (lj_ffs x div 2) \<Longrightarrow> \<not> bit (x :: 32 word) k"
proof
  assume k: "k < 2 * (lj_ffs x div 2)" and b: "bit x k"
  then have "k < 32" by blast
  then have "lj_ffs x \<le> k" unfolding lj_ffs_def
    using scan_up_first [of k 0 32 "bit x"] b by simp
  then show False using k by presburger
qed

lemma n6: "drop_bit 21 (ARMI_SUB XOR ARMI_ADD) = 6" "drop_bit 21 (ARMI_CMP XOR ARMI_CMN) = 1"
  by (simp_all add: armi)

lemma isk12_none: "k12_fields m = None \<Longrightarrow> k12_fields (NOT m) = None \<Longrightarrow> emit_isk12_arm 0 m = 0"
  by (simp add: emit_isk12_arm_def invai_nums armi)

lemma ffs_top: "lj_ffs 0x80000000 = 31"
  by (simp add: lj_ffs_def numeral_eq_Suc)

lemma sless_0_iff: "(x :: 32 word) <s 0 \<longleftrightarrow> bit x 31"
  using bit_last_iff [of x] by (simp add: word_sless_alt)

lemma neg_top:
  "bit (if x <s 0 then NOT x + 1 else x :: 32 word) 31 \<Longrightarrow> (if x <s 0 then NOT x + 1 else x) = 0x80000000"
proof -
  assume b: "bit (if x <s 0 then NOT x + 1 else x) 31"
  then have "bit x 31" "bit (- x) 31"
    by (auto simp: sless_0_iff not_eq_complement split: if_splits)
  moreover have "bit w 31 \<Longrightarrow> 2 ^ 31 \<le> unat w" for w :: "32 word"
    using small_word_bits [of w 31 31] by (cases "unat w < 2 ^ 31") auto
  ultimately have "2 ^ 31 \<le> unat x" "2 ^ 31 \<le> unat (- x)" by blast+
  moreover have "unat (- x) = 2 ^ 32 - unat x" if "x \<noteq> 0"
  proof -
    have "unat x + unat (- x) = 2 ^ 32"
    proof -
      have "(unat x + unat (- x)) mod 2 ^ 32 = 0"
        using unat_word_ariths(1) [of x "- x"] by simp
      moreover have "unat x \<noteq> 0" "unat x < 2 ^ 32" "unat (- x) < 2 ^ 32"
        using that unsigned_less [of x] unsigned_less [of "- x"] by (simp_all add: unsigned_eq_0_iff)
      ultimately show ?thesis by (simp add: mod_if split: if_splits)
    qed
    then show ?thesis by simp
  qed
  ultimately have "unat x = 2 ^ 31" using unsigned_less [of x] by (cases "x = 0") auto
  then have "x = 0x80000000" by (simp add: word_unat_eq_iff)
  then show ?thesis by (simp add: not_eq_complement)
qed

lemma kdelta2_exec:
  assumes "kdelta2_ins rd r (i - R r) = Some f" "rd < 16" "r < 16"
  shows "\<exists>w v. mc (f st) = w # v # mc st \<and> exec_arms c [w, v] R = Some (R(rd := i))"
proof -
  define d0 where "d0 = i - R r"
  define A where "A = (if d0 <s 0 then ARMI_SUB else ARMI_ADD)"
  define d where "d = (if d0 <s 0 then NOT d0 + 1 else d0)"
  define t where "t = lj_ffs d div 2"
  let ?m = "push_bit (2 * t) 255 :: 32 word"
  obtain f2 where f2: "k12_fields (d AND ?m) = Some f2" using byte_fields by blast
  have inv: "ARMI_ADD XOR x XOR (if d0 <s 0 then ARMI_ADD XOR ARMI_SUB else 0) = A XOR x" for x
    by (simp add: A_def ac_simps)
  have k: "emit_isk12_arm 0 (d AND NOT ?m) \<noteq> 0" and
    f: "f = emit_dn_arm (A XOR emit_isk12_arm 0 (d AND NOT ?m)) rd r \<circ>
       emit_dn_arm (A XOR emit_isk12_arm 0 (d AND ?m)) rd rd"
    using assms(1) unfolding kdelta2_ins_def d0_def [symmetric] Let_def inv d_def [symmetric] t_def [symmetric]
    by (auto split: if_splits)
  obtain f1 where f1: "k12_fields (d AND NOT ?m) = Some f1"
  proof (cases "k12_fields (d AND NOT ?m)")
    case None
    have m: "255 = (mask 8 :: 32 word)" by (simp add: mask_eq_exp_minus_1)
    have "\<not> bit (d AND NOT ?m) k" if "k < 8" for k
      using ffs_low [of k d] that unfolding t_def m by (auto simp: bit_simps intro: leI)
    moreover have "\<not> bit (d AND NOT ?m) 31"
    proof (cases "bit d 31")
      case True
      then have "d = 0x80000000" using neg_top [of d0] unfolding d_def by (auto split: if_splits)
      then show ?thesis unfolding t_def by (simp add: ffs_top)
    qed (simp add: bit_simps)
    ultimately have "k12_fields (NOT (d AND NOT ?m)) = None" by (rule no_inverse)
    then have "emit_isk12_arm 0 (d AND NOT ?m) = 0"
      using None by (intro isk12_none)
    with k show ?thesis by simp
  qed (rule that)
  have sum: "(d AND NOT ?m) + (d AND ?m) = d"
  proof -
    have "(d AND NOT ?m) + (d AND ?m) = (d AND NOT ?m) OR (d AND ?m)"
      by (rule disjunctive_add_eq_or) (auto intro!: bit_word_eqI simp: bit_simps)
    then show ?thesis by (simp only: bit.conj_disj_distrib [symmetric]) simp
  qed
  have A: "A AND 0xfff = 0" "A AND 0xff000 = 0" "drop_bit 25 A = 0x70" "f_op A \<notin> {8, 9, 10, 11}"
    by (simp_all add: A_def) (simp_all add: armi)
  note e = exec_direct [OF f1 A assms(2,3), of c R]
    exec_direct [OF f2 A assms(2,2), of c "R(rd := alu (f_op A) c (R r) (d AND NOT ?m))"]
  have "alu (f_op A) c (alu (f_op A) c (R r) (d AND NOT ?m)) (d AND ?m) = i"
  proof (cases "d0 <s 0")
    case True
    have "d = R r - i" using True by (simp add: d_def d0_def not_eq_complement)
    moreover have "R r - (d AND NOT ?m) - (d AND ?m) = R r - d" using sum by (metis diff_diff_add)
    ultimately have "R r - (d AND NOT ?m) - (d AND ?m) = i" by simp
    then show ?thesis using True by (simp only: A_def if_True f_op_consts alu_simps)
  next
    case False
    have "d = i - R r" using False by (simp add: d_def d0_def)
    moreover have "R r + (d AND NOT ?m) + (d AND ?m) = R r + d" using sum by (metis add.assoc)
    ultimately have "R r + (d AND NOT ?m) + (d AND ?m) = i" by simp
    then show ?thesis using False by (simp only: A_def if_False f_op_consts alu_simps)
  qed
  then show ?thesis
    using e unfolding f isk12_direct [OF f1] isk12_direct [OF f2]
    by (simp add: emit_dn_arm_def emit_arm_def)
qed

lemma exec_arms_append: "exec_arms c (vs @ ws) R = Option.bind (exec_arms c vs R) (exec_arms c ws)"
  by (induction vs arbitrary: R) (auto simp: bind_assoc intro: Option.bind_cong)

lemma loadi_bytes_exec:
  assumes "rd < 16"
  shows "i \<noteq> 0 \<Longrightarrow> k < 4 \<Longrightarrow> take_bit (8 * k) i = 0 \<Longrightarrow> 4 - k \<le> n \<Longrightarrow>
    \<exists>code. mc (loadi_bytes n rd i st) = code @ mc st \<and> length code \<le> 4 - k \<and>
      exec_arms c code R = Some (R(rd := i))"
proof (induction n arbitrary: i k st)
  case (Suc n)
  define t where "t = lj_ffs i div 2"
  let ?m = "push_bit (2 * t) 255 :: 32 word"
  obtain f where f: "k12_fields (i AND ?m) = Some f" using byte_fields by blast
  have m: "255 = (mask 8 :: 32 word)" by (simp add: mask_eq_exp_minus_1)
  have low: "\<not> bit i j" if "j < 8 * k" for j
    using arg_cong [OF Suc.prems(3), of "\<lambda>w. bit w j"] that by (simp add: bit_simps)
  have "bit i (lj_ffs i)" using Suc.prems(1) nonzero_bit32 [of i] scan_up_first [of _ 0 32 "bit i"]
    by (fastforce simp: lj_ffs_def)
  then have "8 * k \<le> lj_ffs i" using low by (meson linorder_not_less)
  then have t: "8 * k \<le> 2 * t" by (simp add: t_def)
  have parts: "(i AND NOT ?m) OR (i AND ?m) = i" by (simp only: bit.conj_disj_distrib [symmetric]) simp
  show ?case
  proof (cases "i AND NOT ?m = 0")
    case True
    then have "i AND ?m = i" using parts by simp
    with f have fi: "k12_fields i = Some f" by simp
    have "loadi_bytes (Suc n) rd i st = emit_d_arm (ARMI_MOV XOR (ARMI_K12 OR f)) rd st"
      using True \<open>i AND ?m = i\<close> isk12_direct [OF fi] by (simp add: Let_def t_def)
    then have "mc (loadi_bytes (Suc n) rd i st) = [(ARMI_MOV XOR (ARMI_K12 OR f)) OR ARMF_D rd] @ mc st"
      by (simp add: emit_d_arm_def emit_arm_def del: loadi_bytes.simps)
    moreover have "exec_arms c [(ARMI_MOV XOR (ARMI_K12 OR f)) OR ARMF_D rd] R = Some (R(rd := i))"
      using exec_direct [OF fi, of ARMI_MOV rd 0 c R] assms by (simp add: ARMF_N_def fun_upd_def)
    moreover have "length [(ARMI_MOV XOR (ARMI_K12 OR f)) OR ARMF_D rd] \<le> 4 - k" using Suc.prems(2) by simp
    ultimately show ?thesis by blast
  next
    case False
    let ?i = "i AND NOT ?m"
    let ?w = "(ARMI_ORR XOR (ARMI_K12 OR f)) OR ARMF_D rd OR ARMF_N rd"
    have z: "take_bit (8 * (k + 1)) ?i = 0"
    proof (rule bit_word_eqI)
      fix j
      show "bit (take_bit (8 * (k + 1)) ?i) j = bit 0 j"
        using t ffs_low [of j i] unfolding t_def [symmetric] m by (auto simp: bit_simps intro: leI)
    qed
    have k: "k + 1 < 4"
    proof (rule ccontr)
      assume "\<not> k + 1 < 4"
      then have "8 * (k + 1) = 32" using Suc.prems(2) by simp
      with z have "take_bit 32 ?i = 0" by (simp only:)
      then have "?i = 0" by (subst (asm) take_bit_word_eq_self) simp_all
      with False show False ..
    qed
    have "loadi_bytes (Suc n) rd i st =
        loadi_bytes n rd ?i (emit_dn_arm (ARMI_ORR XOR (ARMI_K12 OR f)) rd rd st)"
      using False isk12_direct [OF f] by (simp add: Let_def t_def)
    moreover have "4 - (k + 1) \<le> n" using Suc.prems(4) by simp
    ultimately obtain code where code:
      "mc (loadi_bytes (Suc n) rd i st) = code @ ?w # mc st" "length code \<le> 4 - (k + 1)"
      "exec_arms c code R = Some (R(rd := ?i))"
      using Suc.IH [OF False k z, of "emit_dn_arm (ARMI_ORR XOR (ARMI_K12 OR f)) rd rd st"]
      by (auto simp: emit_dn_arm_def emit_arm_def fun_upd_def simp del: loadi_bytes.simps)
    have "exec_arms c (code @ [?w]) R = Some (R(rd := i))"
      using exec_direct [OF f, of ARMI_ORR rd rd c "R(rd := ?i)"] assms parts by (simp add: exec_arms_append code(3))
    moreover have "length (code @ [?w]) \<le> 4 - k" using code(2) k by simp
    moreover have "mc (loadi_bytes (Suc n) rd i st) = (code @ [?w]) @ mc st" using code(1) by simp
    ultimately show ?thesis by blast
  qed
qed simp

lemma exec_halves: "(i AND 0xffff) OR push_bit 16 (drop_bit 16 i AND 0xffff) = (i :: 32 word)"
proof -
  have m: "0xffff = (mask 16 :: 32 word)" by (simp add: mask_eq_exp_minus_1)
  show ?thesis unfolding m by (intro bit_word_eqI) (auto simp: bit_simps)
qed

lemma and_mask_low16: "(i :: 32 word) < 0x10000 \<Longrightarrow> i AND 0xffff = i"
proof -
  assume "i < 0x10000"
  then have "bit i k \<Longrightarrow> k < 16" for k using small_word_bits [of i 16 k] by (simp add: word_less_nat_alt)
  moreover have m: "0xffff = (mask 16 :: 32 word)" by (simp add: mask_eq_exp_minus_1)
  ultimately show ?thesis unfolding m by (intro bit_word_eqI) (auto simp: bit_simps)
qed

lemma RSET_GPR_arm_low: "bit RSET_GPR_arm r \<Longrightarrow> r < 16"
  using small_word_bits [of RSET_GPR_arm 16 r] by (simp add: rset_arm)

text \<open>
  C26. Loading a 32 bit constant into a register. Whatever way the emitter chooses (an encodable constant, 16 bit
  halves, a difference to one or two constants that other registers hold, or up to four bytes), it adds at
  most four words in front of the code and running them sets the register to the constant and
  nothing else.
\<close>

theorem arm_loadi_loads:
  assumes "rd < 16" "holds_consts E st R"
  shows "\<exists>code. mc (emit_loadi_arm E rd i st) = code @ mc st \<and> length code \<le> 4 \<and>
    exec_arms c code R = Some (R(rd := i))"
proof -
  define k where "k = emit_isk12_arm ARMI_MOV i"
  have one: "?thesis" if "emit_loadi_arm E rd i st = emit_d_arm a rd st"
    "exec_arm c (a OR ARMF_D rd) R = Some (R(rd := i))" for a
    using that by (intro exI [of _ "[a OR ARMF_D rd]"]) (simp add: emit_d_arm_def emit_arm_def)
  have delta: "\<exists>r f. r < 16 \<and> ins r (R r) = Some f \<and> st' = f st"
    if s: "kdelta_search E ins 32 (NOT (freeset st) AND RSET_GPR_arm) st = Some st'" for ins st'
  proof -
    obtain r f where r: "bit (NOT (freeset st) AND RSET_GPR_arm) r"
      "emit_canremat E (regcost_ref (cost st r))" "ins r (kval E st (regcost_ref (cost st r))) = Some f" "st' = f st"
      using kdelta_search_some [OF s] by blast
    from r(1) have "r < 16" using RSET_GPR_arm_low by (simp add: bit_and_iff)
    moreover have "R r = kval E st (regcost_ref (cost st r))"
      using assms(2) r(1,2) \<open>r < 16\<close> unfolding holds_consts_def by blast
    ultimately show ?thesis using r(3,4) by auto
  qed
  consider (k12) "k \<noteq> 0" | (low) "k = 0" "armv6t2 E" "i < 0x10000"
    | (d1) f r where "emit_loadi_arm E rd i st = f st" "kdelta1_ins rd r (i - R r) = Some f" "r < 16"
    | (mov) "emit_loadi_arm E rd i st =
         emit_d_arm (ARMI_MOVW OR movw16 i) rd (emit_d_arm (ARMI_MOVT OR movw16 (drop_bit 16 i)) rd st)"
    | (d2) f r where "emit_loadi_arm E rd i st = f st" "kdelta2_ins rd r (i - R r) = Some f" "r < 16"
    | (loop) "emit_loadi_arm E rd i st = loadi_bytes 16 rd i st" "k = 0"
  proof -
    consider "k \<noteq> 0" | "k = 0" "armv6t2 E" "i < 0x10000"
      | st' where "emit_loadi_arm E rd i st = st'" "emit_kdelta1 E rd i st = Some st'"
      | "emit_loadi_arm E rd i st =
         emit_d_arm (ARMI_MOVW OR movw16 i) rd (emit_d_arm (ARMI_MOVT OR movw16 (drop_bit 16 i)) rd st)"
      | st' where "emit_loadi_arm E rd i st = st'" "emit_kdelta2 E rd i st = Some st'"
      | "emit_loadi_arm E rd i st = loadi_bytes 16 rd i st" "k = 0"
      unfolding emit_loadi_arm_def k_def [symmetric] Let_def
      by (cases "k = 0"; cases "emit_kdelta1 E rd i st"; cases "emit_kdelta2 E rd i st"; cases "armv6t2 E"; cases "i < 0x10000"; simp)
    then show ?thesis
    proof cases
      case 3
      then obtain r f where "r < 16" "kdelta1_ins rd r (i - R r) = Some f" "st' = f st"
        using delta [OF 3(2) [unfolded emit_kdelta1_def]] by blast
      with 3 d1 show ?thesis by blast
    next
      case 5
      then obtain r f where "r < 16" "kdelta2_ins rd r (i - R r) = Some f" "st' = f st"
        using delta [OF 5(2) [unfolded emit_kdelta2_def]] by (auto split: if_splits)
      with 5 d2 show ?thesis by blast
    qed (use k12 low mov loop in blast)+
  qed
  then show ?thesis
  proof cases
    case k12
    then show ?thesis
      using one [of "ARMI_MOV XOR k"] exec_dp_k12 [of ARMI_MOV i rd 0 c R] assms(1)
      by (simp add: emit_loadi_arm_def k_def ARMF_N_def)
  next
    case low
    have "i AND 0xffff = i" using and_mask_low16 low by blast
    then show ?thesis using one [of "ARMI_MOVW OR movw16 i"] exec_movw_t(1) [OF assms(1), of c i R] low
      by (simp add: emit_loadi_arm_def k_def or.assoc)
  next
    case d1
    then obtain w where "mc (emit_loadi_arm E rd i st) = [w] @ mc st" "exec_arm c w R = Some (R(rd := i))"
      using kdelta1_exec [of rd r i R f st c] assms(1) d1 by auto
    then show ?thesis by (intro exI [of _ "[w]"]) simp
  next
    case mov
    then show ?thesis
      using exec_movw_t(1) [OF assms(1), of c i R] exec_halves [of i]
        exec_movw_t(2) [OF assms(1), of c "drop_bit 16 i" "R(rd := i AND 0xffff)"]
      by (intro exI [of _ "[ARMI_MOVW OR movw16 i OR ARMF_D rd, ARMI_MOVT OR movw16 (drop_bit 16 i) OR ARMF_D rd]"])
        (simp add: emit_d_arm_def emit_arm_def ac_simps)
  next
    case d2
    then obtain w v where "mc (emit_loadi_arm E rd i st) = [w, v] @ mc st"
      "exec_arms c [w, v] R = Some (R(rd := i))"
      using kdelta2_exec [of rd r i R f st c] assms(1) d2 by auto
    then show ?thesis by (intro exI [of _ "[w, v]"]) simp
  next
    case loop
    have "i \<noteq> 0" using loop(2) fields_zero by (auto simp: k_def emit_isk12_arm_def armi)
    then show ?thesis using loadi_bytes_exec [OF assms(1), of i 0 16 st c R] loop(1) by simp
  qed
qed

definition idle_env :: env32 where
  "idle_env = \<lparr>kval = (\<lambda>st ref. 0), asmref_L = 0, allock = (\<lambda>k allow st. (0, st)), armv6t2 = False, vfpv3 = False\<rparr>"

definition idle_asm :: asm32 where
  "idle_asm = \<lparr>mc = [], mctop = 0x1000, mcloop = 0, freeset = RSET_GPR_arm, cost = (\<lambda>r. 0)\<rparr>"

theorem arm_loadi_loads_witness:
  "\<exists>code. mc (emit_loadi_arm idle_env 3 0x12345678 idle_asm) = code \<and> length code \<le> 4 \<and>
     exec_arms False code (\<lambda>r. 0) = Some ((\<lambda>r. 0)(3 := 0x12345678))"
  using arm_loadi_loads [of 3 idle_env idle_asm "\<lambda>r. 0" "0x12345678" False]
  by (simp add: holds_consts_def idle_env_def idle_asm_def emit_canremat_def)

end
