(* ===== verification/LJ_Ppc.thy ===== *)
theory LJ_Ppc
  imports LJ_Target
begin

text \<open>
  \<open>LuaJit/include/lj_target_ppc.h\<close> and \<open>lj_emit_ppc.h\<close>: registers, opcode words and the
  instruction emitter of the 32 bit PowerPC back end (the target with an FPU, not the
  console variants). Names shared with other back ends carry the suffix \<open>_ppc\<close>. The code area is
  the list of words emitted, newest first.
\<close>

section \<open>Registers\<close>

definition GPRDEF_ppc :: "string list" where
  "GPRDEF_ppc =
    [''R0'', ''SP'', ''SYS1'', ''R3'', ''R4'', ''R5'', ''R6'', ''R7'', ''R8'', ''R9'',
     ''R10'', ''R11'', ''R12'', ''SYS2'', ''R14'', ''R15'', ''R16'', ''R17'', ''R18'',
     ''R19'', ''R20'', ''R21'', ''R22'', ''R23'', ''R24'', ''R25'', ''R26'', ''R27'',
     ''R28'', ''R29'', ''R30'', ''R31'']"

definition FPRDEF_ppc :: "string list" where
  "FPRDEF_ppc =
    [''F0'', ''F1'', ''F2'', ''F3'', ''F4'', ''F5'', ''F6'', ''F7'', ''F8'', ''F9'',
     ''F10'', ''F11'', ''F12'', ''F13'', ''F14'', ''F15'', ''F16'', ''F17'', ''F18'',
     ''F19'', ''F20'', ''F21'', ''F22'', ''F23'', ''F24'', ''F25'', ''F26'', ''F27'',
     ''F28'', ''F29'', ''F30'', ''F31'']"

definition RID_ppc :: "string \<Rightarrow> nat" where
  "RID_ppc name = length (takeWhile (\<lambda>r. r \<noteq> name) (GPRDEF_ppc @ FPRDEF_ppc))"

lemma RID_ppc_nums [simp]:
  "RID_ppc ''R0'' = 0" "RID_ppc ''SP'' = 1" "RID_ppc ''SYS1'' = 2" "RID_ppc ''R3'' = 3"
  "RID_ppc ''R10'' = 10" "RID_ppc ''R12'' = 12" "RID_ppc ''SYS2'' = 13" "RID_ppc ''R31'' = 31"
  "RID_ppc ''F0'' = 32" "RID_ppc ''F13'' = 45" "RID_ppc ''F31'' = 63"
  by (simp_all add: RID_ppc_def GPRDEF_ppc_def FPRDEF_ppc_def)

definition RID_TMP_ppc :: nat where "RID_TMP_ppc = RID_ppc ''R0''"

definition RID_JGL_ppc :: nat where "RID_JGL_ppc = RID_ppc ''R31''"

definition RID_MAX_GPR_ppc :: nat where "RID_MAX_GPR_ppc = RID_ppc ''R31'' + 1"

definition RID_MAX_FPR_ppc :: nat where "RID_MAX_FPR_ppc = RID_ppc ''F31'' + 1"

definition RSET_FIXED_ppc :: "64 word" where
  "RSET_FIXED_ppc = RID2RSET RID_TMP_ppc OR RID2RSET (RID_ppc ''SP'') OR RID2RSET (RID_ppc ''SYS1'') OR
     RID2RSET (RID_ppc ''SYS2'') OR RID2RSET RID_JGL_ppc"

definition RSET_GPR_ppc :: "64 word" where
  "RSET_GPR_ppc = RSET_RANGE (RID_ppc ''R0'') RID_MAX_GPR_ppc - RSET_FIXED_ppc"

definition RSET_FPR_ppc :: "64 word" where
  "RSET_FPR_ppc = RSET_RANGE (RID_ppc ''F0'') RID_MAX_FPR_ppc"

definition RSET_SCRATCH_GPR_ppc :: "64 word" where
  "RSET_SCRATCH_GPR_ppc = RSET_RANGE (RID_ppc ''R3'') (RID_ppc ''R12'' + 1)"

definition RSET_SCRATCH_FPR_ppc :: "64 word" where
  "RSET_SCRATCH_FPR_ppc = RSET_RANGE (RID_ppc ''F0'') (RID_ppc ''F13'' + 1)"

definition REGARG_LASTGPR_ppc :: nat where "REGARG_LASTGPR_ppc = RID_ppc ''R10''"

definition SPS_FIXED_ppc :: int where "SPS_FIXED_ppc = 7"

definition sps_align_ppc :: "int \<Rightarrow> int" where "sps_align_ppc slot = (slot - SPS_FIXED_ppc + 3) AND NOT 3"

lemma rset_ppc:
  "RSET_GPR_ppc = 0x7fffdff8" "RSET_FPR_ppc = 0xffffffff00000000" "RSET_GPR_ppc AND RSET_FPR_ppc = 0"
  "RSET_GPR_ppc AND RSET_FIXED_ppc = 0"
  by (simp_all add: RSET_GPR_ppc_def RSET_FPR_ppc_def RSET_FIXED_ppc_def RSET_RANGE_def RID2RSET_def
      RID_MAX_GPR_ppc_def RID_MAX_FPR_ppc_def RID_TMP_ppc_def RID_JGL_ppc_def)

text \<open>The exit stub \<open>exitno\<close> of a trace: three words behind the padding, then one word for each exit.\<close>

fun exitstub_trace_addr_ppc :: "32 word list \<Rightarrow> nat \<Rightarrow> nat \<Rightarrow> nat option" where
  "exitstub_trace_addr_ppc [] p exitno = None"
| "exitstub_trace_addr_ppc (w # ws) p exitno =
     (if w = 0x60000000 then exitstub_trace_addr_ppc ws (p + 1) exitno else Some (p + 3 + exitno))"

section \<open>Instruction words\<close>

definition PPCF_CC :: "32 word \<Rightarrow> 32 word" where
  "PPCF_CC cc = push_bit 16 (cc AND 3) OR push_bit 22 (cc AND 4)"

definition PPCF_T :: "nat \<Rightarrow> 32 word" where "PPCF_T r = push_bit 21 (of_nat r)"

definition PPCF_A :: "nat \<Rightarrow> 32 word" where "PPCF_A r = push_bit 16 (of_nat r)"

definition PPCF_B :: "nat \<Rightarrow> 32 word" where "PPCF_B r = push_bit 11 (of_nat r)"

definition PPCF_C :: "nat \<Rightarrow> 32 word" where "PPCF_C r = push_bit 6 (of_nat r)"

definition PPCF_MB :: "nat \<Rightarrow> 32 word" where "PPCF_MB n = push_bit 6 (of_nat n)"

definition PPCF_ME :: "nat \<Rightarrow> 32 word" where "PPCF_ME n = push_bit 1 (of_nat n)"

definition PPCF_Y :: "32 word" where "PPCF_Y = 0x00200000"

definition PPCI_MR :: "32 word" where "PPCI_MR = 0x7c000378"

definition PPCI_NOP :: "32 word" where "PPCI_NOP = 0x60000000"

definition PPCI_LI :: "32 word" where "PPCI_LI = 0x38000000"

definition PPCI_LIS :: "32 word" where "PPCI_LIS = 0x3c000000"

definition PPCI_ADDI :: "32 word" where "PPCI_ADDI = 0x38000000"

definition PPCI_ADDIS :: "32 word" where "PPCI_ADDIS = 0x3c000000"

definition PPCI_ORI :: "32 word" where "PPCI_ORI = 0x60000000"

definition PPCI_XORIS :: "32 word" where "PPCI_XORIS = 0x6c000000"

definition PPCI_CMPWI :: "32 word" where "PPCI_CMPWI = 0x2c000000"

definition PPCI_CMPLWI :: "32 word" where "PPCI_CMPLWI = 0x28000000"

definition PPCI_RLWINM :: "32 word" where "PPCI_RLWINM = 0x54000000"

definition PPCI_B :: "32 word" where "PPCI_B = 0x48000000"

definition PPCI_BL :: "32 word" where "PPCI_BL = 0x48000001"

definition PPCI_BCTRL :: "32 word" where "PPCI_BCTRL = 0x4e800421"

definition PPCI_MTCTR :: "32 word" where "PPCI_MTCTR = 0x7c0903a6"

definition PPCI_LWZ :: "32 word" where "PPCI_LWZ = 0x80000000"

definition PPCI_STW :: "32 word" where "PPCI_STW = 0x90000000"

definition PPCI_STWU :: "32 word" where "PPCI_STWU = 0x94000000"

definition PPCI_LFS :: "32 word" where "PPCI_LFS = 0xc0000000"

definition PPCI_LFD :: "32 word" where "PPCI_LFD = 0xc8000000"

definition PPCI_STFS :: "32 word" where "PPCI_STFS = 0xd0000000"

definition PPCI_STFD :: "32 word" where "PPCI_STFD = 0xd8000000"

definition PPCI_FMR :: "32 word" where "PPCI_FMR = 0xfc000090"

lemmas ppci = PPCI_MR_def PPCI_NOP_def PPCI_LI_def PPCI_LIS_def PPCI_ADDI_def PPCI_ADDIS_def 
  PPCI_ORI_def PPCI_XORIS_def PPCI_CMPWI_def PPCI_CMPLWI_def PPCI_RLWINM_def PPCI_B_def 
  PPCI_BL_def PPCI_BCTRL_def PPCI_MTCTR_def PPCI_LWZ_def PPCI_STW_def PPCI_STWU_def 
  PPCI_LFS_def PPCI_LFD_def PPCI_STFS_def PPCI_STFD_def PPCI_FMR_def

definition PPCIns :: "(string \<times> 32 word) list" where
  "PPCIns =
    [(''MR'', 0x7c000378), (''NOP'', 0x60000000), (''LI'', 0x38000000),
     (''LIS'', 0x3c000000), (''ADD'', 0x7c000214), (''ADDC'', 0x7c000014),
     (''ADDO'', 0x7c000614), (''ADDE'', 0x7c000114), (''ADDZE'', 0x7c000194),
     (''ADDME'', 0x7c0001d4), (''ADDI'', 0x38000000), (''ADDIS'', 0x3c000000),
     (''ADDIC'', 0x30000000), (''ADDICDOT'', 0x34000000), (''SUBF'', 0x7c000050),
     (''SUBFC'', 0x7c000010), (''SUBFO'', 0x7c000450), (''SUBFE'', 0x7c000110),
     (''SUBFZE'', 0x7c000190), (''SUBFME'', 0x7c0001d0), (''SUBFIC'', 0x20000000),
     (''NEG'', 0x7c0000d0), (''AND'', 0x7c000038), (''ANDC'', 0x7c000078),
     (''NAND'', 0x7c0003b8), (''ANDIDOT'', 0x70000000), (''ANDISDOT'', 0x74000000),
     (''OR'', 0x7c000378), (''NOR'', 0x7c0000f8), (''ORI'', 0x60000000),
     (''ORIS'', 0x64000000), (''XOR'', 0x7c000278), (''EQV'', 0x7c000238),
     (''XORI'', 0x68000000), (''XORIS'', 0x6c000000), (''CMPW'', 0x7c000000),
     (''CMPLW'', 0x7c000040), (''CMPWI'', 0x2c000000), (''CMPLWI'', 0x28000000),
     (''MULLW'', 0x7c0001d6), (''MULLI'', 0x1c000000), (''MULLWO'', 0x7c0005d6),
     (''EXTSB'', 0x7c000774), (''EXTSH'', 0x7c000734), (''SLW'', 0x7c000030),
     (''SRW'', 0x7c000430), (''SRAW'', 0x7c000630), (''SRAWI'', 0x7c000670),
     (''RLWNM'', 0x5c000000), (''RLWINM'', 0x54000000), (''RLWIMI'', 0x50000000),
     (''B'', 0x48000000), (''BL'', 0x48000001), (''BC'', 0x40800000), (''BCL'', 0x40800001),
     (''BCTR'', 0x4e800420), (''BCTRL'', 0x4e800421), (''CRANDC'', 0x4c000102),
     (''CRXOR'', 0x4c000182), (''CRAND'', 0x4c000202), (''CREQV'', 0x4c000242),
     (''CRORC'', 0x4c000342), (''CROR'', 0x4c000382), (''MFLR'', 0x7c0802a6),
     (''MTCTR'', 0x7c0903a6), (''MCRXR'', 0x7c000400), (''LWZ'', 0x80000000),
     (''LBZ'', 0x88000000), (''STW'', 0x90000000), (''STB'', 0x98000000),
     (''LHZ'', 0xa0000000), (''LHA'', 0xa8000000), (''STH'', 0xb0000000),
     (''STWU'', 0x94000000), (''LFS'', 0xc0000000), (''LFD'', 0xc8000000),
     (''STFS'', 0xd0000000), (''STFD'', 0xd8000000), (''LWZX'', 0x7c00002e),
     (''LBZX'', 0x7c0000ae), (''STWX'', 0x7c00012e), (''STBX'', 0x7c0001ae),
     (''LHZX'', 0x7c00022e), (''LHAX'', 0x7c0002ae), (''STHX'', 0x7c00032e),
     (''LWBRX'', 0x7c00042c), (''STWBRX'', 0x7c00052c), (''LFSX'', 0x7c00042e),
     (''LFDX'', 0x7c0004ae), (''STFSX'', 0x7c00052e), (''STFDX'', 0x7c0005ae),
     (''FMR'', 0xfc000090), (''FNEG'', 0xfc000050), (''FABS'', 0xfc000210),
     (''FRSP'', 0xfc000018), (''FCTIWZ'', 0xfc00001e), (''FADD'', 0xfc00002a),
     (''FSUB'', 0xfc000028), (''FMUL'', 0xfc000032), (''FDIV'', 0xfc000024),
     (''FSQRT'', 0xfc00002c), (''FMADD'', 0xfc00003a), (''FMSUB'', 0xfc000038),
     (''FNMSUB'', 0xfc00003c), (''FCMPU'', 0xfc000000), (''FSEL'', 0xfc00002e)]"

section \<open>The assembler state\<close>

record asm_ppc =
  mc :: "32 word list"
  mctop :: "32 word"
  freeset :: "64 word"
  cost :: "nat \<Rightarrow> 32 word"

definition mcp_ppc :: "asm_ppc \<Rightarrow> 32 word" where
  "mcp_ppc st = mctop st - 4 * of_nat (length (mc st))"

definition emit_ppc :: "32 word \<Rightarrow> asm_ppc \<Rightarrow> asm_ppc" where
  "emit_ppc w st = st\<lparr>mc := w # mc st\<rparr>"

text \<open>
  The parts of \<open>lj_asm.c\<close> the emitter uses: the address of the global state, the value of a
  constant reference, the limit of the references that stand for constants, \<open>ra_allock\<close>, and the
  stack adjustment of the parent trace (0 without one).
\<close>

record env_ppc =
  jgl :: "32 word"
  kval :: "asm_ppc \<Rightarrow> 16 word \<Rightarrow> 32 word"
  asmref_L :: "16 word"
  allock :: "32 word \<Rightarrow> 64 word \<Rightarrow> asm_ppc \<Rightarrow> nat \<times> asm_ppc"
  spadjust :: "32 word"

definition CFRAME_SIZE_ppc :: "32 word" where "CFRAME_SIZE_ppc = 272"

section \<open>Basic instructions\<close>

definition emit_tab :: "32 word \<Rightarrow> nat \<Rightarrow> nat \<Rightarrow> nat \<Rightarrow> asm_ppc \<Rightarrow> asm_ppc" where
  "emit_tab pi rt ra rb = emit_ppc (pi OR PPCF_T rt OR PPCF_A ra OR PPCF_B rb)"

definition emit_asb :: "32 word \<Rightarrow> nat \<Rightarrow> nat \<Rightarrow> nat \<Rightarrow> asm_ppc \<Rightarrow> asm_ppc" where
  "emit_asb pi ra rs rb = emit_tab pi rs ra rb"

definition emit_as :: "32 word \<Rightarrow> nat \<Rightarrow> nat \<Rightarrow> asm_ppc \<Rightarrow> asm_ppc" where
  "emit_as pi ra rs = emit_tab pi rs ra 0"

definition emit_ab :: "32 word \<Rightarrow> nat \<Rightarrow> nat \<Rightarrow> asm_ppc \<Rightarrow> asm_ppc" where
  "emit_ab pi ra rb = emit_tab pi 0 ra rb"

definition emit_tai :: "32 word \<Rightarrow> nat \<Rightarrow> nat \<Rightarrow> 32 word \<Rightarrow> asm_ppc \<Rightarrow> asm_ppc" where
  "emit_tai pi rt ra i = emit_ppc (pi OR PPCF_T rt OR PPCF_A ra OR (i AND 0xffff))"

definition emit_ti :: "32 word \<Rightarrow> nat \<Rightarrow> 32 word \<Rightarrow> asm_ppc \<Rightarrow> asm_ppc" where
  "emit_ti pi rt i = emit_tai pi rt 0 i"

definition emit_ai :: "32 word \<Rightarrow> nat \<Rightarrow> 32 word \<Rightarrow> asm_ppc \<Rightarrow> asm_ppc" where
  "emit_ai pi ra i = emit_tai pi 0 ra i"

definition emit_asi :: "32 word \<Rightarrow> nat \<Rightarrow> nat \<Rightarrow> 32 word \<Rightarrow> asm_ppc \<Rightarrow> asm_ppc" where
  "emit_asi pi ra rs i = emit_tai pi rs ra i"

definition emit_fab :: "32 word \<Rightarrow> nat \<Rightarrow> nat \<Rightarrow> nat \<Rightarrow> asm_ppc \<Rightarrow> asm_ppc" where
  "emit_fab pi rf ra rb = emit_tab pi (rf mod 32) (ra mod 32) (rb mod 32)"

definition emit_fb :: "32 word \<Rightarrow> nat \<Rightarrow> nat \<Rightarrow> asm_ppc \<Rightarrow> asm_ppc" where
  "emit_fb pi rf rb = emit_tab pi (rf mod 32) 0 (rb mod 32)"

definition emit_fac :: "32 word \<Rightarrow> nat \<Rightarrow> nat \<Rightarrow> nat \<Rightarrow> asm_ppc \<Rightarrow> asm_ppc" where
  "emit_fac pi rf ra rc = emit_tab (pi OR PPCF_C (rc mod 32)) (rf mod 32) (ra mod 32) 0"

definition emit_facb :: "32 word \<Rightarrow> nat \<Rightarrow> nat \<Rightarrow> nat \<Rightarrow> nat \<Rightarrow> asm_ppc \<Rightarrow> asm_ppc" where
  "emit_facb pi rf ra rc rb = emit_tab (pi OR PPCF_C (rc mod 32)) (rf mod 32) (ra mod 32) (rb mod 32)"

definition emit_fai :: "32 word \<Rightarrow> nat \<Rightarrow> nat \<Rightarrow> 32 word \<Rightarrow> asm_ppc \<Rightarrow> asm_ppc" where
  "emit_fai pi rf ra i = emit_tai pi (rf mod 32) ra i"

definition emit_rot :: "32 word \<Rightarrow> nat \<Rightarrow> nat \<Rightarrow> nat \<Rightarrow> nat \<Rightarrow> nat \<Rightarrow> asm_ppc \<Rightarrow> asm_ppc" where
  "emit_rot pi ra rs n b e =
     emit_ppc (pi OR PPCF_T rs OR PPCF_A ra OR PPCF_B n OR PPCF_MB b OR PPCF_ME e)"

definition emit_slwi :: "nat \<Rightarrow> nat \<Rightarrow> nat \<Rightarrow> asm_ppc \<Rightarrow> asm_ppc" where
  "emit_slwi ra rs n = emit_rot PPCI_RLWINM ra rs n 0 (31 - n)"

definition emit_rotlwi :: "nat \<Rightarrow> nat \<Rightarrow> nat \<Rightarrow> asm_ppc \<Rightarrow> asm_ppc" where
  "emit_rotlwi ra rs n = emit_rot PPCI_RLWINM ra rs n 0 31"

section \<open>Constants in registers\<close>

definition emit_canremat_ppc :: "16 word \<Rightarrow> bool" where "emit_canremat_ppc ref \<longleftrightarrow> ref \<le> 0x8000"

definition emit_kdelta1_ppc :: "env_ppc \<Rightarrow> nat \<Rightarrow> 32 word \<Rightarrow> asm_ppc \<Rightarrow> asm_ppc option" where
  "emit_kdelta1_ppc E rd i st =
     try_regs (\<lambda>r.
       let ref = regcost_ref (cost st r); delta = i - kval E st ref in
       if ref < asmref_L E \<and> checki16 (sint delta) then Some (emit_tai PPCI_ADDI rd r delta st) else None)
     64 (NOT (freeset st) AND RSET_GPR_ppc)"

definition emit_loadi_ppc :: "env_ppc \<Rightarrow> nat \<Rightarrow> 32 word \<Rightarrow> asm_ppc \<Rightarrow> asm_ppc" where
  "emit_loadi_ppc E r i st =
     (if checki16 (sint i) then emit_ti PPCI_LI r i st
      else if i AND 0xffff \<noteq> 0 then
        if i - jgl E < 65536 then emit_tai PPCI_ADDI r RID_JGL_ppc (i - jgl E - 32768) st
        else case emit_kdelta1_ppc E r i st of
               Some st' \<Rightarrow> st'
             | None \<Rightarrow> emit_ti PPCI_LIS r (signed_drop_bit 16 i) (emit_asi PPCI_ORI r r i st)
      else emit_ti PPCI_LIS r (signed_drop_bit 16 i) st)"

definition emit_lsptr_ppc :: "env_ppc \<Rightarrow> 32 word \<Rightarrow> nat \<Rightarrow> 32 word \<Rightarrow> 64 word \<Rightarrow> asm_ppc \<Rightarrow> asm_ppc" where
  "emit_lsptr_ppc E pi r p allow st =
     (if p - jgl E < 65536 then emit_tai pi r RID_JGL_ppc (p - jgl E - 32768) st
      else let (base, st) = allock E (p - scast (ucast p :: 16 word)) allow st in emit_tai pi r base p st)"

definition emit_loadk64_ppc :: "env_ppc \<Rightarrow> nat \<Rightarrow> 32 word \<Rightarrow> asm_ppc \<Rightarrow> asm_ppc" where
  "emit_loadk64_ppc E r p = emit_lsptr_ppc E PPCI_LFD (r mod 32) p RSET_GPR_ppc"

definition emit_lsglptr_ppc :: "32 word \<Rightarrow> nat \<Rightarrow> 32 word \<Rightarrow> asm_ppc \<Rightarrow> asm_ppc" where
  "emit_lsglptr_ppc pi r ofs = emit_tai pi r RID_JGL_ppc (ofs - 32768)"

definition emit_getgl_ppc :: "nat \<Rightarrow> 32 word \<Rightarrow> asm_ppc \<Rightarrow> asm_ppc" where
  "emit_getgl_ppc r ofs = emit_lsglptr_ppc PPCI_LWZ r ofs"

definition emit_setgl_ppc :: "nat \<Rightarrow> 32 word \<Rightarrow> asm_ppc \<Rightarrow> asm_ppc" where
  "emit_setgl_ppc r ofs = emit_lsglptr_ppc PPCI_STW r ofs"

section \<open>Control flow\<close>

definition emit_condbranch :: "32 word \<Rightarrow> 32 word \<Rightarrow> 32 word \<Rightarrow> asm_ppc \<Rightarrow> asm_ppc" where
  "emit_condbranch pi cc target st =
     (let delta = target - (mcp_ppc st - 4); pi = pi XOR ((delta AND 0x8000) * (PPCF_Y div 0x8000)) in
      emit_ppc (pi OR PPCF_CC cc OR (delta AND 0xffff)) st)"

definition emit_jmp_ppc :: "32 word \<Rightarrow> asm_ppc \<Rightarrow> asm_ppc" where
  "emit_jmp_ppc target st =
     (let delta = target - (mcp_ppc st - 4) in emit_ppc (PPCI_B OR (delta AND 0x03fffffc)) st)"

text \<open>
  The far call puts its two words at the place reserved for it and sets the code pointer to them,
  whatever \<open>ra_allock\<close> has put there.
\<close>

definition emit_call_ppc :: "env_ppc \<Rightarrow> 32 word \<Rightarrow> asm_ppc \<Rightarrow> asm_ppc" where
  "emit_call_ppc E target st =
     (let delta = target - (mcp_ppc st - 4) in
      if signed_drop_bit 24 (signed_drop_bit 2 delta + 0x00800000) = 0
      then emit_ppc (PPCI_BL OR (delta AND 0x03fffffc)) st
      else
        let allow = RSET_GPR_ppc AND NOT (RSET_RANGE (RID_ppc ''R0'') (REGARG_LASTGPR_ppc + 1));
            (r, st') = allock E target allow (emit_ppc 0 st) in
        st'\<lparr>mc := (PPCI_MTCTR OR PPCF_T r) # PPCI_BCTRL # mc st\<rparr>)"

section \<open>Generic operations\<close>

definition emit_mr :: "nat \<Rightarrow> nat \<Rightarrow> asm_ppc \<Rightarrow> asm_ppc" where
  "emit_mr dst src = emit_asb PPCI_MR dst src src"

definition emit_movrr_ppc :: "nat \<Rightarrow> nat \<Rightarrow> asm_ppc \<Rightarrow> asm_ppc" where
  "emit_movrr_ppc dst src = (if dst < RID_MAX_GPR_ppc then emit_mr dst src else emit_fb PPCI_FMR dst src)"

definition emit_loadofs_ppc :: "bool \<Rightarrow> nat \<Rightarrow> nat \<Rightarrow> 32 word \<Rightarrow> asm_ppc \<Rightarrow> asm_ppc" where
  "emit_loadofs_ppc isnum r base ofs =
     (if r < RID_MAX_GPR_ppc then emit_tai PPCI_LWZ r base ofs
      else emit_fai (if isnum then PPCI_LFD else PPCI_LFS) r base ofs)"

definition emit_storeofs_ppc :: "bool \<Rightarrow> nat \<Rightarrow> nat \<Rightarrow> 32 word \<Rightarrow> asm_ppc \<Rightarrow> asm_ppc" where
  "emit_storeofs_ppc isnum r base ofs =
     (if r < RID_MAX_GPR_ppc then emit_tai PPCI_STW r base ofs
      else emit_fai (if isnum then PPCI_STFD else PPCI_STFS) r base ofs)"

definition emit_cmpi :: "nat \<Rightarrow> 32 word \<Rightarrow> asm_ppc \<Rightarrow> asm_ppc" where
  "emit_cmpi r k st =
     (if checki16 (sint k) then emit_ai PPCI_CMPWI r k st
      else if checku16 (sint k) then emit_ai PPCI_CMPLWI r k st
      else emit_asi PPCI_XORIS RID_TMP_ppc r (signed_drop_bit 16 k) (emit_ai PPCI_CMPLWI RID_TMP_ppc k st))"

definition emit_addptr_ppc :: "nat \<Rightarrow> 32 word \<Rightarrow> asm_ppc \<Rightarrow> asm_ppc" where
  "emit_addptr_ppc r ofs st =
     (if ofs = 0 then st
      else
        let st = emit_tai PPCI_ADDI r r ofs st in
        if checki16 (sint ofs) then st
        else emit_tai PPCI_ADDIS r r (signed_drop_bit 16 (ofs + 32768)) st)"

definition emit_spsub_ppc :: "env_ppc \<Rightarrow> 32 word \<Rightarrow> asm_ppc \<Rightarrow> asm_ppc" where
  "emit_spsub_ppc E ofs st =
     (if ofs = 0 then st
      else emit_tai PPCI_ADDI RID_TMP_ppc (RID_ppc ''SP'') (CFRAME_SIZE_ppc + spadjust E)
             (emit_tai PPCI_STWU RID_TMP_ppc (RID_ppc ''SP'') (- ofs) st))"

end
