(* ===== verification/LJ_Imm.thy ===== *)
theory LJ_Imm
  imports LJ_Target
begin

text \<open>
  The instruction format PowerPC and MIPS share: an opcode of six bits, two register numbers
  and sixteen bits of immediate value; and how a constant is put together from two halves.
\<close>

definition fld_op :: "32 word \<Rightarrow> 32 word" where "fld_op w = drop_bit 26 w"
definition fld_hi :: "32 word \<Rightarrow> nat" where "fld_hi w = unat (drop_bit 21 w AND 31)"
definition fld_lo :: "32 word \<Rightarrow> nat" where "fld_lo w = unat (drop_bit 16 w AND 31)"

lemma masks32: "0xffff = (mask 16 :: 32 word)" "31 = (mask 5 :: 32 word)" "0x3ffffff = (mask 26 :: 32 word)"
  by (simp_all add: mask_eq_exp_minus_1)

lemma imm_fields:
  assumes "c AND 0x3ffffff = 0" "a < 32" "b < 32"
    and w: "w = (c OR push_bit 21 (of_nat a) OR push_bit 16 (of_nat b) OR (i AND 0xffff))"
  shows "fld_op w = drop_bit 26 c" "fld_hi w = a" "fld_lo w = b" "w AND 0xffff = i AND 0xffff"
proof -
  define d where "d = (of_nat a :: 32 word)"
  define n where "n = (of_nat b :: 32 word)"
  have u: "unat d = a" "unat n = b" using assms(2,3) by (simp_all add: d_def n_def unat_of_nat)
  have d: "bit d k \<Longrightarrow> k < 5" and n: "bit n k \<Longrightarrow> k < 5" for k
    using small_word_bits [of d 5 k] small_word_bits [of n 5 k] u assms(2,3) by auto
  have c: "k < 26 \<Longrightarrow> \<not> bit c k" for k
    using arg_cong [OF assms(1) [unfolded masks32], of "\<lambda>w. bit w k"] by (auto simp: bit_simps)
  have w: "w = c OR push_bit 21 d OR push_bit 16 n OR (i AND 0xffff)" using w by (simp add: d_def n_def)
  show "fld_op w = drop_bit 26 c" unfolding fld_op_def w masks32
    by (intro bit_word_eqI) (auto simp: bit_simps; (drule d)?; (drule n)?; simp)
  show "w AND 0xffff = i AND 0xffff" unfolding w masks32 by (intro bit_word_eqI) (auto simp: bit_simps c)
  have "drop_bit 21 w AND 31 = d" unfolding w masks32
    by (intro bit_word_eqI) (auto simp: bit_simps c; (drule d)?; (drule n)?; simp)
  then show "fld_hi w = a" by (simp add: fld_hi_def u)
  have "drop_bit 16 w AND 31 = n" unfolding w masks32
    by (intro bit_word_eqI) (auto simp: bit_simps c; (drule d)?; (drule n)?; simp)
  then show "fld_lo w = b" by (simp add: fld_lo_def u)
qed

text \<open>The immediate value of a word, sign extended.\<close>

definition simm :: "32 word \<Rightarrow> 'a::len word" where "simm w = scast (ucast w :: 16 word)"

lemma ucast_low: "w AND 0xffff = i AND 0xffff \<Longrightarrow> (ucast (w :: 32 word) :: 16 word) = ucast i"
proof (rule bit_word_eqI)
  fix k assume e: "w AND 0xffff = i AND 0xffff" and "k < LENGTH(16)"
  then show "bit (ucast w :: 16 word) k = bit (ucast i :: 16 word) k"
    using arg_cong [OF e [unfolded masks32], of "\<lambda>w. bit w k"] by (simp add: bit_simps)
qed

lemma simm_low: "w AND 0xffff = i AND 0xffff \<Longrightarrow> simm w = simm i"
  unfolding simm_def by (drule ucast_low) (rule arg_cong [of _ _ scast])

lemma down16: "word_of_int (sint (i :: 32 word)) = (ucast i :: 16 word)"
proof -
  have "(scast i :: 16 word) = ucast i"
    by (rule bit_word_eqI) (auto simp: bit_signed_iff bit_unsigned_iff signed_take_bit_def)
  then show ?thesis by (simp only: scast_eq)
qed

lemma simm_small: "checki16 (sint i) \<Longrightarrow> simm (i :: 32 word) = (scast i :: 'a::len word)"
  unfolding checki16_def down16 by (simp only: simm_def scast_eq)

text \<open>An offset below 65536 is a signed 16 bit number relative to the middle.\<close>

lemma low_middle:
  assumes "(d :: 'a::len word) < 65536" "32 \<le> LENGTH('a)"
  shows "sint (d - 32768) = uint d - 32768" "uint d < 65536"
proof -
  have "uint (65536 :: 'a word) = 65536"
  proof -
    have "(65536 :: int) < 2 ^ LENGTH('a)"
      using power_increasing [of 32 "LENGTH('a)" "2 :: int"] assms(2) by simp
    then show ?thesis by (simp add: take_bit_int_eq_self_iff)
  qed
  then have u: "0 \<le> uint d" "uint d < 65536" using assms(1) by (simp_all add: word_less_def)
  then show "uint d < 65536" by simp
  have "d - 32768 = word_of_int (uint d - 32768)" by simp
  then have "sint (d - 32768) = signed_take_bit (LENGTH('a) - 1) (uint d - 32768)"
    by (simp only: signed_of_int) simp
  also have "\<dots> = uint d - 32768"
  proof -
    have "(2147483648 :: int) \<le> 2 ^ (LENGTH('a) - 1)"
      using power_increasing [of 31 "LENGTH('a) - 1" "2 :: int"] assms(2) by simp
    then have "- (2 ^ (LENGTH('a) - 1)) \<le> uint d - 32768" "uint d - 32768 < 2 ^ (LENGTH('a) - 1)"
      using u by linarith+
    then show ?thesis by (simp add: signed_take_bit_int_eq_self_iff)
  qed
  finally show "sint (d - 32768) = uint d - 32768" .
qed

lemma low_bound:
  "(d :: 'a::len word) < 65536 \<Longrightarrow> 32 \<le> LENGTH('a) \<Longrightarrow> checki16 (sint (d - 32768))"
  by (simp add: low_middle checki16_range)

end
