(* ===== verification/LJ_Ppc_Sem.thy ===== *)
theory LJ_Ppc_Sem
  imports LJ_Ppc LJ_Imm
begin

text \<open>
  What the words of \<open>LJ_Ppc\<close> mean to a PowerPC processor: the immediate instructions that build
  constants and compare, on the registers and the equality flag.
\<close>

definition exec_ppc :: "32 word \<Rightarrow> (nat \<Rightarrow> 32 word) \<times> bool \<Rightarrow> ((nat \<Rightarrow> 32 word) \<times> bool) option" where
  "exec_ppc w s =
     (case s of (R, eq) \<Rightarrow>
        let t = fld_hi w; a = fld_lo w; op = fld_op w; base = (if a = 0 then 0 else R a) in
        if op = 14 then Some (R(t := base + simm w), eq)
        else if op = 15 then Some (R(t := base + push_bit 16 (simm w)), eq)
        else if op = 24 then Some (R(a := R t OR (w AND 0xffff)), eq)
        else if op = 27 then Some (R(a := R t XOR push_bit 16 (w AND 0xffff)), eq)
        else if op = 11 then Some (R, R a = simm w)
        else if op = 10 then Some (R, R a = (w AND 0xffff))
        else None)"

fun execs_ppc :: "32 word list \<Rightarrow> (nat \<Rightarrow> 32 word) \<times> bool \<Rightarrow> ((nat \<Rightarrow> 32 word) \<times> bool) option" where
  "execs_ppc [] s = Some s"
| "execs_ppc (w # ws) s = Option.bind (exec_ppc w s) (execs_ppc ws)"

definition tai_word :: "32 word \<Rightarrow> nat \<Rightarrow> nat \<Rightarrow> 32 word \<Rightarrow> 32 word" where
  "tai_word pi rt ra i = pi OR PPCF_T rt OR PPCF_A ra OR (i AND 0xffff)"

lemma mc_tai: "mc (emit_tai pi rt ra i st) = tai_word pi rt ra i # mc st"
  by (simp add: emit_tai_def emit_ppc_def tai_word_def)

lemma tai_fields:
  assumes "pi AND 0x3ffffff = 0" "rt < 32" "ra < 32"
  shows "fld_op (tai_word pi rt ra i) = drop_bit 26 pi" "fld_hi (tai_word pi rt ra i) = rt"
    "fld_lo (tai_word pi rt ra i) = ra" "tai_word pi rt ra i AND 0xffff = i AND 0xffff"
    "simm (tai_word pi rt ra i) = simm i"
  using imm_fields [OF assms, of "tai_word pi rt ra i" i] simm_low [of "tai_word pi rt ra i" i]
  by (simp_all add: tai_word_def PPCF_T_def PPCF_A_def)

lemma exec_tai:
  assumes "t < 32" "a < 32"
  shows "exec_ppc (tai_word PPCI_ADDI t a i) (R, eq) = Some (R(t := (if a = 0 then 0 else R a) + simm i), eq)"
    "exec_ppc (tai_word PPCI_ADDIS t a i) (R, eq) =
       Some (R(t := (if a = 0 then 0 else R a) + push_bit 16 (simm i)), eq)"
    "exec_ppc (tai_word PPCI_ORI t a i) (R, eq) = Some (R(a := R t OR (i AND 0xffff)), eq)"
    "exec_ppc (tai_word PPCI_XORIS t a i) (R, eq) = Some (R(a := R t XOR push_bit 16 (i AND 0xffff)), eq)"
    "exec_ppc (tai_word PPCI_CMPWI t a i) (R, eq) = Some (R, R a = simm i)"
    "exec_ppc (tai_word PPCI_CMPLWI t a i) (R, eq) = Some (R, R a = (i AND 0xffff))"
  by (simp_all add: exec_ppc_def tai_fields assms ppci)

lemma ppc_aliases: "PPCI_LI = PPCI_ADDI" "PPCI_LIS = PPCI_ADDIS"
  by (simp_all add: ppci)

section \<open>Constants\<close>

lemma Ppc_halves:
  "push_bit 16 (simm (signed_drop_bit 16 i)) OR (i AND 0xffff) = (i :: 32 word)"
  "push_bit 16 (signed_drop_bit 16 i AND 0xffff) OR (i AND 0xffff) = (i :: 32 word)"
  unfolding masks32 simm_def
  by (intro bit_word_eqI; auto simp: bit_simps)+

lemma take_16_shift: "take_bit 16 (take_bit 32 i + 32768) = take_bit 16 (i + 32768 :: int)"
proof -
  have "take_bit 16 (take_bit 32 i + 32768) = take_bit 16 (take_bit 16 (take_bit 32 i) + take_bit 16 32768)"
    by (rule take_bit_add [symmetric])
  also have "take_bit 16 (take_bit 32 i) = take_bit 16 i" by (simp only: take_bit_take_bit)
  finally show ?thesis by (simp only: take_bit_add)
qed

lemma Ppc_halves_add: "push_bit 16 (simm (signed_drop_bit 16 (i + 32768))) + simm i = (i :: 32 word)"
proof -
  define a where "a = i + 32768"
  have "push_bit 16 (simm (signed_drop_bit 16 a)) = a AND NOT (0xffff)" unfolding masks32 simm_def
    by (intro bit_word_eqI) (auto simp: bit_simps)
  moreover have "simm i = (a AND 0xffff) - 32768"
  proof -
    have "(ucast i :: 16 word) = word_of_int (uint i)" by (rule ucast_eq)
    then have "sint (ucast i :: 16 word) = signed_take_bit 15 (uint i)" by (simp only: signed_of_int) simp
    also have "\<dots> = take_bit 16 (uint i + 2 ^ 15) - 2 ^ 15"
      using signed_take_bit_eq_take_bit_shift [of 15 "uint i"] by simp
    finally have "simm i = word_of_int (take_bit 16 (uint i + 2 ^ 15)) - (32768 :: 32 word)"
      by (simp only: simm_def scast_eq) simp
    moreover have "word_of_int (take_bit 16 (uint i + 2 ^ 15)) = take_bit 16 a"
      unfolding a_def
      by transfer (simp add: take_16_shift)
    ultimately show ?thesis unfolding masks32 by (simp add: take_bit_eq_mask)
  qed
  moreover have "(a AND NOT 0xffff) + (a AND 0xffff) = a"
  proof -
    have "(a AND NOT 0xffff) + (a AND 0xffff) = (a AND NOT 0xffff) OR (a AND 0xffff)"
      by (rule disjunctive_add) (auto simp: bit_simps)
    then show ?thesis by (simp only: bit.conj_disj_distrib [symmetric]) simp
  qed
  ultimately have "push_bit 16 (simm (signed_drop_bit 16 a)) + simm i = a - 32768"
    by (simp only: add_diff_eq)
  then show ?thesis by (simp add: a_def)
qed

text \<open>
  What the register allocator keeps: an allocated register whose reference stands for a constant
  holds that constant.
\<close>

definition holds_ppc :: "env_ppc \<Rightarrow> asm_ppc \<Rightarrow> (nat \<Rightarrow> 32 word) \<Rightarrow> bool" where
  "holds_ppc E st R \<longleftrightarrow> (\<forall>r<32. bit (NOT (freeset st) AND RSET_GPR_ppc) r \<longrightarrow>
     regcost_ref (cost st r) < asmref_L E \<longrightarrow> R r = kval E st (regcost_ref (cost st r)))"

lemma rset_gpr_ppc: "bit RSET_GPR_ppc r \<Longrightarrow> 0 < r \<and> r < 32"
proof -
  assume b: "bit RSET_GPR_ppc r"
  have "RSET_GPR_ppc = RSET_GPR_ppc AND mask 32" by (simp add: rset_ppc mask_eq_exp_minus_1)
  with b have "r < 32" by (metis bit_and_iff bit_mask_iff)
  moreover have "\<not> bit RSET_GPR_ppc 0" by (simp add: rset_ppc)
  ultimately show ?thesis using b by (auto intro: gr0I)
qed

lemma kdelta1_exec_ppc:
  assumes "emit_kdelta1_ppc E rd i st = Some st'" "holds_ppc E st R" "rd < 32"
  shows "\<exists>w. mc st' = w # mc st \<and> exec_ppc w (R, eq) = Some (R(rd := i), eq)"
proof -
  obtain r where r: "bit (NOT (freeset st) AND RSET_GPR_ppc) r" "regcost_ref (cost st r) < asmref_L E"
      "checki16 (sint (i - kval E st (regcost_ref (cost st r))))"
      "st' = emit_tai PPCI_ADDI rd r (i - kval E st (regcost_ref (cost st r))) st"
    using try_regs_some [OF assms(1) [unfolded emit_kdelta1_ppc_def]] by (auto simp: Let_def split: if_splits)
  have b: "0 < r" "r < 32" using r(1) rset_gpr_ppc by (auto simp: bit_and_iff)
  then have "R r = kval E st (regcost_ref (cost st r))" using assms(2) r(1,2) unfolding holds_ppc_def by blast
  then show ?thesis using r b exec_tai(1) [OF assms(3) b(2)] simm_small [OF r(3), where 'a = 32]
    by (simp add: mc_tai)
qed

text \<open>
  Loading a constant on PowerPC. The emitter adds one or two words (a 16 bit constant, an
  offset to the global state or to a constant in another register, or two halves), and running
  them sets the register to the constant and changes nothing else.
\<close>

theorem ppc_loadi:
  assumes "0 < r" "r < 32" "R 31 = jgl E + 32768" "holds_ppc E st R"
  shows "\<exists>code. mc (emit_loadi_ppc E r i st) = code @ mc st \<and> length code \<le> 2 \<and>
    execs_ppc code (R, eq) = Some (R(r := i), eq)"
proof -
  have one: "?thesis" if "mc (emit_loadi_ppc E r i st) = w # mc st" "exec_ppc w (R, eq) = Some (R(r := i), eq)" for w
    using that by (intro exI [of _ "[w]"]) simp
  have two: "?thesis" if "mc (emit_loadi_ppc E r i st) = w # v # mc st"
    "execs_ppc [w, v] (R, eq) = Some (R(r := i), eq)" for w v
    using that by (intro exI [of _ "[w, v]"]) simp
  consider (small) "checki16 (sint i)" | (jgl) "\<not> checki16 (sint i)" "i AND 0xffff \<noteq> 0" "i - jgl E < 65536"
    | (delta) st' where "emit_loadi_ppc E r i st = st'" "emit_kdelta1_ppc E r i st = Some st'"
    | (halves) "emit_loadi_ppc E r i st = emit_ti PPCI_LIS r (signed_drop_bit 16 i) (emit_asi PPCI_ORI r r i st)"
    | (high) "emit_loadi_ppc E r i st = emit_ti PPCI_LIS r (signed_drop_bit 16 i) st" "i AND 0xffff = 0"
    unfolding emit_loadi_ppc_def
    by (cases "checki16 (sint i)"; cases "i AND 0xffff = 0"; cases "i - jgl E < 65536";
        cases "emit_kdelta1_ppc E r i st"; simp)
  then show ?thesis
  proof cases
    case small
    then show ?thesis using exec_tai(1) [OF assms(2), of 0 i R eq] one simm_small [OF small, where 'a = 32]
      by (simp add: emit_loadi_ppc_def emit_ti_def mc_tai ppc_aliases)
  next
    case jgl
    then show ?thesis
      using exec_tai(1) [OF assms(2), of 31 "i - jgl E - 32768" R eq] assms(3) one
        simm_small [OF low_bound [OF jgl(3)], simplified, where 'a = 32]
      by (simp add: emit_loadi_ppc_def mc_tai RID_JGL_ppc_def)
  next
    case delta
    then show ?thesis using kdelta1_exec_ppc [OF delta(2) assms(4,2), of eq] one by auto
  next
    case halves
    note e = exec_tai(2) [OF assms(2), of 0 "signed_drop_bit 16 i" R eq]
      exec_tai(3) [OF assms(2,2), of i "R(r := push_bit 16 (simm (signed_drop_bit 16 i)))" eq]
    show ?thesis
    proof (rule two)
      show "mc (emit_loadi_ppc E r i st) = tai_word PPCI_ADDIS r 0 (signed_drop_bit 16 i) # tai_word PPCI_ORI r r i # mc st"
        by (simp add: halves emit_ti_def emit_asi_def mc_tai ppc_aliases)
      show "execs_ppc [tai_word PPCI_ADDIS r 0 (signed_drop_bit 16 i), tai_word PPCI_ORI r r i] (R, eq) =
          Some (R(r := i), eq)"
        using e by (simp add: Ppc_halves)
    qed
  next
    case high
    show ?thesis
      using exec_tai(2) [OF assms(2), of 0 "signed_drop_bit 16 i" R eq] Ppc_halves(1) [of i] high
      by (intro one) (simp_all add: emit_ti_def mc_tai ppc_aliases)
  qed
qed

lemma u16_small: "checku16 (sint i) \<Longrightarrow> i AND 0xffff = (i :: 32 word)"
proof -
  assume "checku16 (sint i)"
  then have "sint i = uint (ucast i :: 16 word)" unfolding checku16_def down16 .
  then have "word_of_int (sint i) = (ucast (ucast i :: 16 word) :: 32 word)" by (simp only: ucast_eq)
  then have "i = ucast (ucast i :: 16 word)" by simp
  moreover have "bit (ucast (ucast i :: 16 word) :: 32 word) k \<Longrightarrow> k < 16" for k
    by (auto simp: bit_simps)
  ultimately have "bit i k \<Longrightarrow> k < 16" for k by metis
  then show ?thesis unfolding masks32 by (intro bit_word_eqI) (auto simp: bit_simps)
qed

lemma xor_eq_iff: "a XOR b = c \<longleftrightarrow> a = b XOR (c :: 32 word)"
  by (auto simp: xor.assoc [symmetric] xor.commute [of _ b])

text \<open>
  Comparing with and adding a constant on PowerPC. The words of \<open>emit_cmpi\<close> set the equality
  flag exactly if the register holds the constant, whatever its size, and change only the temporary
  register; those of \<open>emit_addptr\<close> add the offset, whose low half is sign extended by the processor.
\<close>

theorem ppc_compare_add:
  assumes "0 < r" "r < 32"
  shows "(\<exists>code x. mc (emit_cmpi r k st) = code @ mc st \<and> execs_ppc code (R, eq) = Some (R(0 := x), R r = k)) \<and>
    (\<exists>code. mc (emit_addptr_ppc r ofs st) = code @ mc st \<and>
       execs_ppc code (R, eq) = Some (R(r := R r + ofs), eq))"
proof
  show "\<exists>code x. mc (emit_cmpi r k st) = code @ mc st \<and> execs_ppc code (R, eq) = Some (R(0 := x), R r = k)"
  proof (cases "checki16 (sint k)")
    case True
    then show ?thesis
      using exec_tai(5) [OF _ assms(2), of 0 k R eq] simm_small [OF True, where 'a = 32]
      by (intro exI [of _ "[tai_word PPCI_CMPWI 0 r k]"] exI [of _ "R 0"])
        (simp add: emit_cmpi_def emit_ai_def mc_tai)
  next
    case F: False
    show ?thesis
    proof (cases "checku16 (sint k)")
      case True
      then show ?thesis
        using exec_tai(6) [OF _ assms(2), of 0 k R eq] u16_small [OF True] F
        by (intro exI [of _ "[tai_word PPCI_CMPLWI 0 r k]"] exI [of _ "R 0"])
          (simp add: emit_cmpi_def emit_ai_def mc_tai)
    next
      case False
      let ?x = "R r XOR push_bit 16 (signed_drop_bit 16 k AND 0xffff)"
      have "?x = (k AND 0xffff) \<longleftrightarrow> R r = k"
      proof -
        have "push_bit 16 (signed_drop_bit 16 k AND 0xffff) XOR (k AND 0xffff) = k"
          unfolding masks32 by (intro bit_word_eqI) (auto simp: bit_simps)
        then show ?thesis using xor_eq_iff [of "R r" _ "k AND 0xffff"] by simp
      qed
      then show ?thesis
        using exec_tai(4) [OF assms(2), of 0 "signed_drop_bit 16 k" R eq]
          exec_tai(6) [of 0 0 k "R(0 := ?x)" eq] False F
        by (intro exI [of _ "[tai_word PPCI_XORIS r 0 (signed_drop_bit 16 k), tai_word PPCI_CMPLWI 0 0 k]"] exI [of _ ?x])
          (simp add: emit_cmpi_def emit_ai_def emit_asi_def mc_tai RID_TMP_ppc_def)
    qed
  qed
  show "\<exists>code. mc (emit_addptr_ppc r ofs st) = code @ mc st \<and>
       execs_ppc code (R, eq) = Some (R(r := R r + ofs), eq)"
  proof (cases "ofs = 0")
    case True
    then show ?thesis by (simp add: emit_addptr_ppc_def)
  next
    case nz: False
    show ?thesis
    proof (cases "checki16 (sint ofs)")
      case True
      then show ?thesis
        using exec_tai(1) [OF assms(2,2), of ofs R eq] simm_small [OF True, where 'a = 32] nz assms(1)
        by (intro exI [of _ "[tai_word PPCI_ADDI r r ofs]"]) (simp add: emit_addptr_ppc_def mc_tai)
    next
      case False
      let ?h = "signed_drop_bit 16 (ofs + 32768)"
      have "R r + push_bit 16 (simm ?h) + simm ofs = R r + ofs" by (simp only: add.assoc Ppc_halves_add)
      then show ?thesis
        using exec_tai(2) [OF assms(2,2), of ?h R eq] False nz assms(1)
          exec_tai(1) [OF assms(2,2), of ofs "R(r := R r + push_bit 16 (simm ?h))" eq]
        by (intro exI [of _ "[tai_word PPCI_ADDIS r r ?h, tai_word PPCI_ADDI r r ofs]"])
          (simp add: emit_addptr_ppc_def mc_tai add.assoc)
    qed
  qed
qed

theorem ppc_compare_add_witness:
  "(\<exists>code x. mc (emit_cmpi 3 0x12345678 \<lparr>mc = [], mctop = 0, freeset = 0, cost = (\<lambda>r. 0)\<rparr>) = code \<and>
     execs_ppc code (\<lambda>r. 0x12345678, False) = Some ((\<lambda>r. 0x12345678)(0 := x), True)) \<and>
   (\<exists>code. mc (emit_addptr_ppc 3 0x18000 \<lparr>mc = [], mctop = 0, freeset = 0, cost = (\<lambda>r. 0)\<rparr>) = code \<and>
     execs_ppc code (\<lambda>r. 8, False) = Some ((\<lambda>r. 8)(3 := 0x18008), False))"
  using ppc_compare_add [of 3 "0x12345678" "\<lparr>mc = [], mctop = 0, freeset = 0, cost = (\<lambda>r. 0)\<rparr>"
      "\<lambda>r. 0x12345678" False 0]
    ppc_compare_add [of 3 0 "\<lparr>mc = [], mctop = 0, freeset = 0, cost = (\<lambda>r. 0)\<rparr>" "\<lambda>r. 8" False "0x18000"]
  by simp

definition idle_env_ppc :: env_ppc where
  "idle_env_ppc = \<lparr>jgl = 0x10000, kval = (\<lambda>st ref. 0), asmref_L = 0, allock = (\<lambda>k allow st. (14, st)), spadjust = 0\<rparr>"

theorem ppc_loadi_witness:
  "\<exists>code. mc (emit_loadi_ppc idle_env_ppc 3 0x12345678 \<lparr>mc = [], mctop = 0, freeset = 0, cost = (\<lambda>r. 0)\<rparr>) = code \<and>
     length code \<le> 2 \<and> execs_ppc code (\<lambda>r. 0x18000, True) = Some ((\<lambda>r. 0x18000)(3 := 0x12345678), True)"
  using ppc_loadi [of 3 "\<lambda>r. 0x18000" idle_env_ppc "\<lparr>mc = [], mctop = 0, freeset = 0, cost = (\<lambda>r. 0)\<rparr>" "0x12345678" True]
  by (simp add: idle_env_ppc_def holds_ppc_def)

text \<open>
  A far call on PowerPC loses whatever \<open>ra_allock\<close> has emitted: the code area holds the two words of
  the call and what was there before, for any allocator.
\<close>

lemma far_call_drops:
  "signed_drop_bit 24 (signed_drop_bit 2 (target - (mcp_ppc st - 4)) + 0x00800000) \<noteq> 0 \<Longrightarrow>
     \<exists>r. mc (emit_call_ppc E target st) = (PPCI_MTCTR OR PPCF_T r) # PPCI_BCTRL # mc st"
  by (auto simp: emit_call_ppc_def Let_def split: prod.splits)

end
