(* ===== verification/LJ_Mips.thy ===== *)
theory LJ_Mips
  imports LJ_Emit_Arm64
begin

text \<open>
  \<open>LuaJit/include/lj_target_mips.h\<close> and \<open>lj_emit_mips.h\<close>: registers, opcode words and the
  instruction emitter of the MIPS64 back end before release 6 (64 bit, hardware floating point).
  Names shared with other back ends carry the suffix \<open>_mips\<close>. The assembler state, the code area
  and the IR constants are those of \<open>LJ_Emit_Arm64\<close>.
\<close>

section \<open>Registers\<close>

definition GPRDEF_mips :: "string list" where
  "GPRDEF_mips =
    [''R0'', ''R1'', ''R2'', ''R3'', ''R4'', ''R5'', ''R6'', ''R7'', ''R8'', ''R9'',
     ''R10'', ''R11'', ''R12'', ''R13'', ''R14'', ''R15'', ''R16'', ''R17'', ''R18'',
     ''R19'', ''R20'', ''R21'', ''R22'', ''R23'', ''R24'', ''R25'', ''SYS1'', ''SYS2'',
     ''R28'', ''SP'', ''R30'', ''RA'']"

definition FPRDEF_mips :: "string list" where
  "FPRDEF_mips =
    [''F0'', ''F1'', ''F2'', ''F3'', ''F4'', ''F5'', ''F6'', ''F7'', ''F8'', ''F9'',
     ''F10'', ''F11'', ''F12'', ''F13'', ''F14'', ''F15'', ''F16'', ''F17'', ''F18'',
     ''F19'', ''F20'', ''F21'', ''F22'', ''F23'', ''F24'', ''F25'', ''F26'', ''F27'',
     ''F28'', ''F29'', ''F30'', ''F31'']"

definition RID_mips :: "string \<Rightarrow> nat" where
  "RID_mips name = length (takeWhile (\<lambda>r. r \<noteq> name) (GPRDEF_mips @ FPRDEF_mips))"

lemma RID_mips_nums [simp]:
  "RID_mips ''R0'' = 0" "RID_mips ''R1'' = 1" "RID_mips ''R15'' = 15" "RID_mips ''R24'' = 24"
  "RID_mips ''R25'' = 25" "RID_mips ''SYS1'' = 26" "RID_mips ''SYS2'' = 27" "RID_mips ''R28'' = 28"
  "RID_mips ''SP'' = 29" "RID_mips ''R30'' = 30" "RID_mips ''RA'' = 31" "RID_mips ''F0'' = 32"
  "RID_mips ''F24'' = 56" "RID_mips ''F31'' = 63"
  by (simp_all add: RID_mips_def GPRDEF_mips_def FPRDEF_mips_def)

definition RID_ZERO_mips :: nat where "RID_ZERO_mips = RID_mips ''R0''"

definition RID_TMP_mips :: nat where "RID_TMP_mips = RID_mips ''RA''"

definition RID_GP_mips :: nat where "RID_GP_mips = RID_mips ''R28''"

definition RID_CFUNCADDR_mips :: nat where "RID_CFUNCADDR_mips = RID_mips ''R25''"

definition RID_JGL_mips :: nat where "RID_JGL_mips = RID_mips ''R30''"

definition RID_MAX_GPR_mips :: nat where "RID_MAX_GPR_mips = RID_mips ''RA'' + 1"

definition RID_MAX_FPR_mips :: nat where "RID_MAX_FPR_mips = RID_mips ''F31'' + 1"

definition RSET_FIXED_mips :: "64 word" where
  "RSET_FIXED_mips = RID2RSET RID_ZERO_mips OR RID2RSET RID_TMP_mips OR RID2RSET (RID_mips ''SP'') OR
     RID2RSET (RID_mips ''SYS1'') OR RID2RSET (RID_mips ''SYS2'') OR RID2RSET RID_JGL_mips OR
     RID2RSET RID_GP_mips"

definition RSET_GPR_mips :: "64 word" where
  "RSET_GPR_mips = RSET_RANGE (RID_mips ''R0'') RID_MAX_GPR_mips - RSET_FIXED_mips"

definition RSET_FPR_mips :: "64 word" where
  "RSET_FPR_mips = RSET_RANGE RID_MAX_GPR_mips RID_MAX_FPR_mips"

definition RSET_SCRATCH_GPR_mips :: "64 word" where
  "RSET_SCRATCH_GPR_mips = RSET_RANGE (RID_mips ''R1'') (RID_mips ''R15'' + 1) OR
     RID2RSET (RID_mips ''R24'') OR RID2RSET (RID_mips ''R25'')"

definition RSET_SCRATCH_FPR_mips :: "64 word" where
  "RSET_SCRATCH_FPR_mips = RSET_RANGE (RID_mips ''F0'') (RID_mips ''F24'')"

definition SPS_FIXED_mips :: int where "SPS_FIXED_mips = 4"

definition sps_align_mips :: "int \<Rightarrow> int" where
  "sps_align_mips slot = (slot - SPS_FIXED_mips + 1) AND NOT 1"

lemma rset_mips:
  "RSET_GPR_mips = 0x3fffffe" "RSET_FPR_mips = 0xffffffff00000000" "RSET_GPR_mips AND RSET_FPR_mips = 0"
  "RSET_GPR_mips AND RSET_FIXED_mips = 0"
  by (simp_all add: RSET_GPR_mips_def RSET_FPR_mips_def RSET_FIXED_mips_def RSET_RANGE_def RID2RSET_def
      RID_MAX_GPR_mips_def RID_MAX_FPR_mips_def RID_TMP_mips_def RID_JGL_mips_def RID_ZERO_mips_def RID_GP_mips_def)

text \<open>The exit stubs of a trace start behind the padding.\<close>

fun exitstub_trace_addr_mips :: "32 word list \<Rightarrow> nat \<Rightarrow> nat option" where
  "exitstub_trace_addr_mips [] p = None"
| "exitstub_trace_addr_mips (w # ws) p =
     (if w = 0 then exitstub_trace_addr_mips ws (p + 1) else Some p)"

section \<open>Instruction words\<close>

definition MIPSF_S :: "nat \<Rightarrow> 32 word" where "MIPSF_S r = push_bit 21 (of_nat r)"

definition MIPSF_T :: "nat \<Rightarrow> 32 word" where "MIPSF_T r = push_bit 16 (of_nat r)"

definition MIPSF_D :: "nat \<Rightarrow> 32 word" where "MIPSF_D r = push_bit 11 (of_nat r)"

definition MIPSF_R :: "nat \<Rightarrow> 32 word" where "MIPSF_R r = push_bit 21 (of_nat r)"

definition MIPSF_H :: "nat \<Rightarrow> 32 word" where "MIPSF_H r = push_bit 16 (of_nat r)"

definition MIPSF_G :: "nat \<Rightarrow> 32 word" where "MIPSF_G r = push_bit 11 (of_nat r)"

definition MIPSF_F :: "nat \<Rightarrow> 32 word" where "MIPSF_F r = push_bit 6 (of_nat r)"

definition MIPSF_A :: "32 word \<Rightarrow> 32 word" where "MIPSF_A n = push_bit 6 n"

definition MIPSF_M :: "32 word \<Rightarrow> 32 word" where "MIPSF_M n = push_bit 11 n"

definition MIPSF_L :: "32 word \<Rightarrow> 32 word" where "MIPSF_L n = push_bit 6 n"

definition MIPSI_MOVE :: "32 word" where "MIPSI_MOVE = 0x25"

definition MIPSI_NOP :: "32 word" where "MIPSI_NOP = 0x0"

definition MIPSI_LI :: "32 word" where "MIPSI_LI = 0x24000000"

definition MIPSI_LUI :: "32 word" where "MIPSI_LUI = 0x3c000000"

definition MIPSI_ORI :: "32 word" where "MIPSI_ORI = 0x34000000"

definition MIPSI_ADDIU :: "32 word" where "MIPSI_ADDIU = 0x24000000"

definition MIPSI_DADDIU :: "32 word" where "MIPSI_DADDIU = 0x64000000"

definition MIPSI_OR :: "32 word" where "MIPSI_OR = 0x25"

definition MIPSI_SLL :: "32 word" where "MIPSI_SLL = 0x0"

definition MIPSI_SRL :: "32 word" where "MIPSI_SRL = 0x2"

definition MIPSI_ROTR :: "32 word" where "MIPSI_ROTR = 0x200002"

definition MIPSI_DSLL :: "32 word" where "MIPSI_DSLL = 0x38"

definition MIPSI_DSLL32 :: "32 word" where "MIPSI_DSLL32 = 0x3c"

definition MIPSI_B :: "32 word" where "MIPSI_B = 0x10000000"

definition MIPSI_JAL :: "32 word" where "MIPSI_JAL = 0xc000000"

definition MIPSI_JALX :: "32 word" where "MIPSI_JALX = 0x74000000"

definition MIPSI_JALR :: "32 word" where "MIPSI_JALR = 0xf809"

definition MIPSI_LW :: "32 word" where "MIPSI_LW = 0x8c000000"

definition MIPSI_LD :: "32 word" where "MIPSI_LD = 0xdc000000"

definition MIPSI_SW :: "32 word" where "MIPSI_SW = 0xac000000"

definition MIPSI_SD :: "32 word" where "MIPSI_SD = 0xfc000000"

definition MIPSI_LWC1 :: "32 word" where "MIPSI_LWC1 = 0xc4000000"

definition MIPSI_SWC1 :: "32 word" where "MIPSI_SWC1 = 0xe4000000"

definition MIPSI_LDC1 :: "32 word" where "MIPSI_LDC1 = 0xd4000000"

definition MIPSI_SDC1 :: "32 word" where "MIPSI_SDC1 = 0xf4000000"

definition MIPSI_MOV_S :: "32 word" where "MIPSI_MOV_S = 0x46000006"

definition MIPSI_MOV_D :: "32 word" where "MIPSI_MOV_D = 0x46200006"

definition MIPSI_DMTC1 :: "32 word" where "MIPSI_DMTC1 = 0x44a00000"

definition MIPSI_AADDIU :: "32 word" where "MIPSI_AADDIU = 0x64000000"

definition MIPSI_AL :: "32 word" where "MIPSI_AL = 0xdc000000"

definition MIPSI_AS :: "32 word" where "MIPSI_AS = 0xfc000000"

lemmas mipsi = MIPSI_MOVE_def MIPSI_NOP_def MIPSI_LI_def MIPSI_LUI_def MIPSI_ORI_def MIPSI_ADDIU_def 
  MIPSI_DADDIU_def MIPSI_OR_def MIPSI_SLL_def MIPSI_SRL_def MIPSI_ROTR_def MIPSI_DSLL_def 
  MIPSI_DSLL32_def MIPSI_B_def MIPSI_JAL_def MIPSI_JALX_def MIPSI_JALR_def MIPSI_LW_def 
  MIPSI_LD_def MIPSI_SW_def MIPSI_SD_def MIPSI_LWC1_def MIPSI_SWC1_def MIPSI_LDC1_def 
  MIPSI_SDC1_def MIPSI_MOV_S_def MIPSI_MOV_D_def MIPSI_DMTC1_def MIPSI_AADDIU_def 
  MIPSI_AL_def MIPSI_AS_def

definition MIPSIns_int :: "(string \<times> 32 word) list" where
  "MIPSIns_int =
    [(''D'', 0x38), (''DV'', 0x10), (''D32'', 0x3c), (''MOVE'', 0x25), (''NOP'', 0x0),
     (''LI'', 0x24000000), (''LU'', 0x34000000), (''LUI'', 0x3c000000), (''AND'', 0x24),
     (''ANDI'', 0x30000000), (''OR'', 0x25), (''ORI'', 0x34000000), (''XOR'', 0x26),
     (''XORI'', 0x38000000), (''NOR'', 0x27), (''SLT'', 0x2a), (''SLTU'', 0x2b),
     (''SLTI'', 0x28000000), (''SLTIU'', 0x2c000000), (''ADDU'', 0x21),
     (''ADDIU'', 0x24000000), (''SUB'', 0x22), (''SUBU'', 0x23), (''MUL'', 0x70000002),
     (''DIV'', 0x1a), (''DIVU'', 0x1b), (''MOVZ'', 0xa), (''MOVN'', 0xb), (''MFHI'', 0x10),
     (''MFLO'', 0x12), (''MULT'', 0x18), (''SLL'', 0x0), (''SRL'', 0x2), (''SRA'', 0x3),
     (''ROTR'', 0x200002), (''DROTR'', 0x20003a), (''DROTR32'', 0x20003e), (''SLLV'', 0x4),
     (''SRLV'', 0x6), (''SRAV'', 0x7), (''ROTRV'', 0x46), (''DROTRV'', 0x56),
     (''INS'', 0x7c000004), (''SEB'', 0x7c000420), (''SEH'', 0x7c000620),
     (''WSBH'', 0x7c0000a0), (''DSBH'', 0x7c0000a4), (''B'', 0x10000000),
     (''J'', 0x8000000), (''JAL'', 0xc000000), (''JALX'', 0x74000000), (''JR'', 0x8),
     (''JALR'', 0xf809), (''BEQ'', 0x10000000), (''BNE'', 0x14000000),
     (''BLEZ'', 0x18000000), (''BGTZ'', 0x1c000000), (''BLTZ'', 0x4000000),
     (''BGEZ'', 0x4010000), (''LW'', 0x8c000000), (''LD'', 0xdc000000),
     (''SW'', 0xac000000), (''SD'', 0xfc000000), (''LB'', 0x80000000), (''SB'', 0xa0000000),
     (''LH'', 0x84000000), (''SH'', 0xa4000000), (''LBU'', 0x90000000),
     (''LHU'', 0x94000000), (''LWC1'', 0xc4000000), (''SWC1'', 0xe4000000),
     (''LDC1'', 0xd4000000), (''SDC1'', 0xf4000000), (''DADD'', 0x2c), (''DADDU'', 0x2d)]"

definition MIPSIns_64_fp :: "(string \<times> 32 word) list" where
  "MIPSIns_64_fp =
    [(''DADDIU'', 0x64000000), (''DSUB'', 0x2e), (''DSUBU'', 0x2f), (''DDIV'', 0x1e),
     (''DDIVU'', 0x1f), (''DMULT'', 0x1c), (''DMULTU'', 0x1d), (''DSLL'', 0x38),
     (''DSRL'', 0x3a), (''DSLLV'', 0x14), (''DSRLV'', 0x16), (''DSRA'', 0x3b),
     (''DSRAV'', 0x17), (''DSRA32'', 0x3f), (''DSLL32'', 0x3c), (''DSRL32'', 0x3e),
     (''DSHD'', 0x7c000164), (''AADDU'', 0x2d), (''AADDIU'', 0x64000000), (''ASUBU'', 0x2f),
     (''AL'', 0xdc000000), (''AS'', 0xfc000000), (''DEXTM'', 0x7c000001),
     (''DEXTU'', 0x7c000002), (''DEXT'', 0x7c000003), (''DINSM'', 0x7c000005),
     (''DINSU'', 0x7c000006), (''DINS'', 0x7c000007), (''FLOOR_D'', 0x4620000b),
     (''MOV_S'', 0x46000006), (''MOV_D'', 0x46200006), (''MOVT_D'', 0x46210011),
     (''MOVF_D'', 0x46200011), (''ABS_D'', 0x46200005), (''NEG_D'', 0x46200007),
     (''ADD_D'', 0x46200000), (''SUB_D'', 0x46200001), (''MUL_D'', 0x46200002),
     (''DIV_D'', 0x46200003), (''SQRT_D'', 0x46200004), (''ADD_S'', 0x46000000),
     (''SUB_S'', 0x46000001), (''CVT_D_S'', 0x46000021), (''CVT_W_S'', 0x46000024),
     (''CVT_S_D'', 0x46200020), (''CVT_W_D'', 0x46200024), (''CVT_S_W'', 0x46800020),
     (''CVT_D_W'', 0x46800021), (''CVT_S_L'', 0x46a00020), (''CVT_D_L'', 0x46a00021),
     (''TRUNC_W_S'', 0x4600000d), (''TRUNC_W_D'', 0x4620000d), (''TRUNC_L_S'', 0x46000009),
     (''TRUNC_L_D'', 0x46200009), (''FLOOR_W_S'', 0x4600000f), (''FLOOR_W_D'', 0x4620000f),
     (''MFC1'', 0x44000000), (''MTC1'', 0x44800000), (''DMTC1'', 0x44a00000),
     (''DMFC1'', 0x44200000), (''BC1F'', 0x45000000), (''BC1T'', 0x45010000),
     (''C_EQ_D'', 0x46200032), (''C_OLT_S'', 0x46000034), (''C_OLT_D'', 0x46200034),
     (''C_ULT_D'', 0x46200035), (''C_OLE_D'', 0x46200036), (''C_ULE_D'', 0x46200037)]"

section \<open>Basic instructions\<close>

text \<open>
  The environment has the limit of the references that stand for constants and
  \<open>ra_allockreg\<close> beside the parameters of the ARM64 emitter; \<open>glbase\<close> is the address of the global
  state.
\<close>

record env_mips = env64 +
  asmref_L :: "16 word"
  allockreg :: "64 word \<Rightarrow> nat \<Rightarrow> asm64 \<Rightarrow> asm64"

definition get_k64val_mips :: "irconst \<Rightarrow> 64 word" where
  "get_k64val_mips ir = (case ir of KINT64 u \<Rightarrow> u | KGC u \<Rightarrow> u | KPTR u \<Rightarrow> u | KKPTR u \<Rightarrow> u
     | KINT i \<Rightarrow> scast i | KNULL i \<Rightarrow> scast i)"

definition emit_dst :: "32 word \<Rightarrow> nat \<Rightarrow> nat \<Rightarrow> nat \<Rightarrow> asm64 \<Rightarrow> asm64" where
  "emit_dst mi rd rs rt = emit (mi OR MIPSF_D rd OR MIPSF_S rs OR MIPSF_T rt)"

definition emit_dta :: "32 word \<Rightarrow> nat \<Rightarrow> nat \<Rightarrow> 32 word \<Rightarrow> asm64 \<Rightarrow> asm64" where
  "emit_dta mi rd rt a = emit (mi OR MIPSF_D rd OR MIPSF_T rt OR MIPSF_A a)"

definition emit_ds :: "32 word \<Rightarrow> nat \<Rightarrow> nat \<Rightarrow> asm64 \<Rightarrow> asm64" where
  "emit_ds mi rd rs = emit_dst mi rd rs 0"

definition emit_tg :: "32 word \<Rightarrow> nat \<Rightarrow> nat \<Rightarrow> asm64 \<Rightarrow> asm64" where
  "emit_tg mi rt rg = emit_dst mi (rg mod 32) 0 rt"

definition emit_tsi :: "32 word \<Rightarrow> nat \<Rightarrow> nat \<Rightarrow> 32 word \<Rightarrow> asm64 \<Rightarrow> asm64" where
  "emit_tsi mi rt rs i = emit (mi OR MIPSF_T rt OR MIPSF_S rs OR (i AND 0xffff))"

definition emit_ti_mips :: "32 word \<Rightarrow> nat \<Rightarrow> 32 word \<Rightarrow> asm64 \<Rightarrow> asm64" where
  "emit_ti_mips mi rt i = emit_tsi mi rt 0 i"

definition emit_hsi :: "32 word \<Rightarrow> nat \<Rightarrow> nat \<Rightarrow> 32 word \<Rightarrow> asm64 \<Rightarrow> asm64" where
  "emit_hsi mi rh rs i = emit_tsi mi (rh mod 32) rs i"

definition emit_fgh :: "32 word \<Rightarrow> nat \<Rightarrow> nat \<Rightarrow> nat \<Rightarrow> asm64 \<Rightarrow> asm64" where
  "emit_fgh mi rf rg rh = emit (mi OR MIPSF_F (rf mod 32) OR MIPSF_G (rg mod 32) OR MIPSF_H (rh mod 32))"

definition emit_fg :: "32 word \<Rightarrow> nat \<Rightarrow> nat \<Rightarrow> asm64 \<Rightarrow> asm64" where
  "emit_fg mi rf rg = emit_fgh mi rf rg 0"

text \<open>Rotation with one instruction, or with two shifts where it is missing (\<open>has\<close> false).\<close>

definition emit_rotr :: "bool \<Rightarrow> nat \<Rightarrow> nat \<Rightarrow> nat \<Rightarrow> 32 word \<Rightarrow> asm64 \<Rightarrow> asm64" where
  "emit_rotr has dest src tmp shift st =
     (if has then emit_dta MIPSI_ROTR dest src shift st
      else emit_dta MIPSI_SRL tmp src shift
            (emit_dta MIPSI_SLL dest src (- shift AND 31) (emit_dst MIPSI_OR dest dest tmp st)))"

definition emit_tsml :: "32 word \<Rightarrow> nat \<Rightarrow> nat \<Rightarrow> 32 word \<Rightarrow> 32 word \<Rightarrow> asm64 \<Rightarrow> asm64" where
  "emit_tsml mi rt rs msb lsb = emit (mi OR MIPSF_T rt OR MIPSF_S rs OR MIPSF_M msb OR MIPSF_L lsb)"

section \<open>Constants in registers\<close>

definition emit_canremat_mips :: "16 word \<Rightarrow> bool" where "emit_canremat_mips ref \<longleftrightarrow> ref \<le> 0x8000"

definition emit_kdelta1_mips :: "env_mips \<Rightarrow> nat \<Rightarrow> 64 word \<Rightarrow> asm64 \<Rightarrow> asm64 option" where
  "emit_kdelta1_mips E rd i st =
     try_regs (\<lambda>r.
       let ref = regcost_ref (cost st r);
           delta = i - (if iskref E ref then krefk E st ref else get_k64val_mips (irk E ref)) in
       if ref < asmref_L E \<and> checki16 (sint delta) then Some (emit_tsi MIPSI_AADDIU rd r (ucast delta) st)
       else None)
     64 (NOT (freeset st) AND RSET_GPR_mips)"

definition emit_loadi_mips :: "env_mips \<Rightarrow> nat \<Rightarrow> 32 word \<Rightarrow> asm64 \<Rightarrow> asm64" where
  "emit_loadi_mips E r i st =
     (if checki16 (sint i) then emit_ti_mips MIPSI_LI r i st
      else if i AND 0xffff \<noteq> 0 then
        if scast i - glbase E < 65536
        then emit_tsi MIPSI_ADDIU r RID_JGL_mips (ucast (scast i - glbase E - 32768)) st
        else case emit_kdelta1_mips E r (scast i) st of
               Some st' \<Rightarrow> st'
             | None \<Rightarrow>
                 if signed_drop_bit 16 i = 0 then emit_tsi MIPSI_ORI r RID_ZERO_mips i st
                 else emit_ti_mips MIPSI_LUI r (signed_drop_bit 16 i) (emit_tsi MIPSI_ORI r r i st)
      else emit_ti_mips MIPSI_LUI r (signed_drop_bit 16 i) st)"

definition emit_loadu64_mips :: "env_mips \<Rightarrow> nat \<Rightarrow> 64 word \<Rightarrow> asm64 \<Rightarrow> asm64" where
  "emit_loadu64_mips E r u64 st =
     (if checki32 (sint u64) then emit_loadi_mips E r (ucast u64) st
      else
        let delta = u64 - glbase E in
        if delta < 65536 then emit_tsi MIPSI_DADDIU r RID_JGL_mips (ucast (delta - 32768)) st
        else case emit_kdelta1_mips E r u64 st of
               Some st' \<Rightarrow> st'
             | None \<Rightarrow>
                 let st = (if u64 AND 0xffff \<noteq> 0 then emit_tsi MIPSI_ORI r r (ucast (u64 AND 0xffff)) st else st);
                     st = (if drop_bit 16 u64 AND 0xffff \<noteq> 0
                           then emit_dta MIPSI_DSLL r r 16
                                 (emit_tsi MIPSI_ORI r r (ucast (drop_bit 16 u64 AND 0xffff))
                                   (emit_dta MIPSI_DSLL r r 16 st))
                           else emit_dta MIPSI_DSLL32 r r 0 st) in
                 emit_loadi_mips E r (ucast (drop_bit 32 u64)) st)"

definition emit_loada_mips :: "env_mips \<Rightarrow> nat \<Rightarrow> 64 word \<Rightarrow> asm64 \<Rightarrow> asm64" where
  "emit_loada_mips E r addr = emit_loadu64_mips E r addr"

text \<open>The test for an address near the global state looks at the low 32 bits of the distance only.\<close>

definition emit_lsptr_mips :: "env_mips \<Rightarrow> 32 word \<Rightarrow> nat \<Rightarrow> 64 word \<Rightarrow> 64 word \<Rightarrow> asm64 \<Rightarrow> asm64" where
  "emit_lsptr_mips E mi r p allow st =
     (if (ucast (p - glbase E) :: 32 word) < 65536
      then emit_tsi mi r RID_JGL_mips (ucast (p - glbase E - 32768)) st
      else let (base, st) = allock E (p - scast (ucast p :: 16 word)) allow st in
           emit_tsi mi r base (ucast p) st)"

text \<open>\<open>k\<close> is the address of the constant and \<open>u64\<close> its value.\<close>

definition emit_loadk64_mips :: "env_mips \<Rightarrow> nat \<Rightarrow> 64 word \<Rightarrow> 64 word \<Rightarrow> asm64 \<Rightarrow> asm64" where
  "emit_loadk64_mips E r k u64 st =
     (let fpr = rset_test RSET_FPR_mips r;
          r64 = (if fpr then RID_TMP_mips else r);
          st = (if fpr then emit_tg MIPSI_DMTC1 r64 r st else st) in
      if (ucast (k - glbase E) :: 32 word) < 65536 then emit_lsptr_mips E MIPSI_LD r64 k 0 st
      else emit_loadu64_mips E r64 u64 st)"

definition emit_lsglptr_mips :: "32 word \<Rightarrow> nat \<Rightarrow> 32 word \<Rightarrow> asm64 \<Rightarrow> asm64" where
  "emit_lsglptr_mips mi r ofs = emit_tsi mi r RID_JGL_mips (ofs - 32768)"

definition emit_getgl_mips :: "nat \<Rightarrow> 32 word \<Rightarrow> asm64 \<Rightarrow> asm64" where
  "emit_getgl_mips r ofs = emit_lsglptr_mips MIPSI_AL r ofs"

definition emit_setgl_mips :: "nat \<Rightarrow> 32 word \<Rightarrow> asm64 \<Rightarrow> asm64" where
  "emit_setgl_mips r ofs = emit_lsglptr_mips MIPSI_AS r ofs"

section \<open>Control flow\<close>

definition emit_branch_mips :: "32 word \<Rightarrow> nat \<Rightarrow> nat \<Rightarrow> 64 word \<Rightarrow> asm64 \<Rightarrow> asm64" where
  "emit_branch_mips mi rs rt target st =
     (let delta = signed_drop_bit 2 (target - mcp st) in
      emit (mi OR MIPSF_S rs OR MIPSF_T rt OR (ucast delta AND 0xffff)) st)"

definition emit_jmp_mips :: "64 word \<Rightarrow> asm64 \<Rightarrow> asm64" where
  "emit_jmp_mips target st = emit_branch_mips MIPSI_B RID_ZERO_mips RID_ZERO_mips target (emit MIPSI_NOP st)"

definition emit_call_mips :: "env_mips \<Rightarrow> 64 word \<Rightarrow> bool \<Rightarrow> asm64 \<Rightarrow> asm64" where
  "emit_call_mips E target needcfa st =
     (let st = emit MIPSI_NOP st in
      if drop_bit 28 (target XOR mcp st) = 0
      then
        let st = emit ((if target AND 1 \<noteq> 0 then MIPSI_JALX else MIPSI_JAL) OR
                   (ucast (drop_bit 2 target) AND 0x03ffffff)) st in
        if needcfa then allockreg E target RID_CFUNCADDR_mips st else st
      else allockreg E target RID_CFUNCADDR_mips (emit (MIPSI_JALR OR MIPSF_S RID_CFUNCADDR_mips) st))"

section \<open>Generic operations\<close>

definition emit_move_mips :: "nat \<Rightarrow> nat \<Rightarrow> asm64 \<Rightarrow> asm64" where
  "emit_move_mips dst src = emit_ds MIPSI_MOVE dst src"

definition emit_movrr_mips :: "bool \<Rightarrow> nat \<Rightarrow> nat \<Rightarrow> asm64 \<Rightarrow> asm64" where
  "emit_movrr_mips isnum dst src =
     (if dst < RID_MAX_GPR_mips then emit_move_mips dst src
      else emit_fg (if isnum then MIPSI_MOV_D else MIPSI_MOV_S) dst src)"

definition emit_loadofs_mips :: "bool \<Rightarrow> bool \<Rightarrow> nat \<Rightarrow> nat \<Rightarrow> 32 word \<Rightarrow> asm64 \<Rightarrow> asm64" where
  "emit_loadofs_mips is64 isnum r base ofs =
     (if r < RID_MAX_GPR_mips then emit_tsi (if is64 then MIPSI_LD else MIPSI_LW) r base ofs
      else emit_tsi (if isnum then MIPSI_LDC1 else MIPSI_LWC1) (r mod 32) base ofs)"

definition emit_storeofs_mips :: "bool \<Rightarrow> bool \<Rightarrow> nat \<Rightarrow> nat \<Rightarrow> 32 word \<Rightarrow> asm64 \<Rightarrow> asm64" where
  "emit_storeofs_mips is64 isnum r base ofs =
     (if r < RID_MAX_GPR_mips then emit_tsi (if is64 then MIPSI_SD else MIPSI_SW) r base ofs
      else emit_tsi (if isnum then MIPSI_SDC1 else MIPSI_SWC1) (r mod 32) base ofs)"

definition emit_addptr_mips :: "nat \<Rightarrow> 32 word \<Rightarrow> asm64 \<Rightarrow> asm64" where
  "emit_addptr_mips r ofs st = (if ofs \<noteq> 0 then emit_tsi MIPSI_AADDIU r r ofs st else st)"

definition emit_spsub_mips :: "32 word \<Rightarrow> asm64 \<Rightarrow> asm64" where
  "emit_spsub_mips ofs = emit_addptr_mips (RID_mips ''SP'') (- ofs)"

end
