(* ===== verification/LJ_Mips_Sem.thy ===== *)
theory LJ_Mips_Sem
  imports LJ_Mips LJ_Imm
begin

text \<open>
  What the words of \<open>LJ_Mips\<close> mean to a MIPS64 processor: the immediate instructions and the two
  shifts that build constants, and the address of a load or store.
\<close>

definition sext32 :: "32 word \<Rightarrow> 64 word" where "sext32 x = scast x"

definition fld_d :: "32 word \<Rightarrow> nat" where "fld_d w = unat (drop_bit 11 w AND 31)"
definition fld_a :: "32 word \<Rightarrow> nat" where "fld_a w = unat (drop_bit 6 w AND 31)"

definition exec_mips :: "32 word \<Rightarrow> (nat \<Rightarrow> 64 word) \<Rightarrow> (nat \<Rightarrow> 64 word) option" where
  "exec_mips w R =
     (let s = fld_hi w; t = fld_lo w; op = fld_op w; fn = w AND 63 in
      if op = 9 then Some (R(t := sext32 (ucast (R s + simm w))))
      else if op = 25 then Some (R(t := R s + simm w))
      else if op = 13 then Some (R(t := R s OR ucast (w AND 0xffff)))
      else if op = 15 then Some (R(t := sext32 (push_bit 16 (w AND 0xffff))))
      else if op = 0 \<and> fn = 0x38 then Some (R(fld_d w := push_bit (fld_a w) (R t)))
      else if op = 0 \<and> fn = 0x3c then Some (R(fld_d w := push_bit (fld_a w + 32) (R t)))
      else None)"

fun execs_mips :: "32 word list \<Rightarrow> (nat \<Rightarrow> 64 word) \<Rightarrow> (nat \<Rightarrow> 64 word) option" where
  "execs_mips [] R = Some R"
| "execs_mips (w # ws) R = Option.bind (exec_mips w R) (execs_mips ws)"

lemma execs_mips_append: "execs_mips (vs @ ws) R = Option.bind (execs_mips vs R) (execs_mips ws)"
  by (induction vs arbitrary: R) (auto simp: bind_assoc intro: Option.bind_cong)

text \<open>The address a load or store accesses.\<close>

definition address :: "32 word \<Rightarrow> (nat \<Rightarrow> 64 word) \<Rightarrow> 64 word" where
  "address w R = R (fld_hi w) + simm w"

definition tsi_word :: "32 word \<Rightarrow> nat \<Rightarrow> nat \<Rightarrow> 32 word \<Rightarrow> 32 word" where
  "tsi_word mi rt rs i = mi OR MIPSF_T rt OR MIPSF_S rs OR (i AND 0xffff)"

definition dta_word :: "32 word \<Rightarrow> nat \<Rightarrow> nat \<Rightarrow> 32 word \<Rightarrow> 32 word" where
  "dta_word mi rd rt a = mi OR MIPSF_D rd OR MIPSF_T rt OR MIPSF_A a"

lemma mc_mips: "mc (emit_tsi mi rt rs i st) = tsi_word mi rt rs i # mc st"
  "mc (emit_dta mi rd rt a st) = dta_word mi rd rt a # mc st"
  by (simp_all add: emit_tsi_def emit_dta_def emit_def tsi_word_def dta_word_def)

lemma tsi_fields:
  assumes "mi AND 0x3ffffff = 0" "rt < 32" "rs < 32"
  shows "fld_op (tsi_word mi rt rs i) = drop_bit 26 mi" "fld_hi (tsi_word mi rt rs i) = rs"
    "fld_lo (tsi_word mi rt rs i) = rt" "tsi_word mi rt rs i AND 0xffff = i AND 0xffff"
    "simm (tsi_word mi rt rs i) = simm i"
proof -
  have w: "tsi_word mi rt rs i = mi OR push_bit 21 (of_nat rs) OR push_bit 16 (of_nat rt) OR (i AND 0xffff)"
    by (simp add: tsi_word_def MIPSF_T_def MIPSF_S_def ac_simps)
  note f = imm_fields [OF assms(1,3,2) w]
  show "fld_op (tsi_word mi rt rs i) = drop_bit 26 mi" "fld_hi (tsi_word mi rt rs i) = rs"
    "fld_lo (tsi_word mi rt rs i) = rt" "tsi_word mi rt rs i AND 0xffff = i AND 0xffff"
    "simm (tsi_word mi rt rs i) = simm i"
    using f simm_low [OF f(4)] by simp_all
qed

lemma dta_fields:
  assumes "mi \<in> {MIPSI_DSLL, MIPSI_DSLL32}" "rd < 32" "rt < 32" "unat a < 32"
  shows "fld_op (dta_word mi rd rt a) = 0" "fld_lo (dta_word mi rd rt a) = rt"
    "fld_d (dta_word mi rd rt a) = rd" "fld_a (dta_word mi rd rt a) = unat a"
    "dta_word mi rd rt a AND 63 = mi"
proof -
  define d where "d = (of_nat rd :: 32 word)"
  define n where "n = (of_nat rt :: 32 word)"
  have u: "unat d = rd" "unat n = rt" using assms(2,3) by (simp_all add: d_def n_def unat_of_nat)
  have d: "bit d k \<Longrightarrow> k < 5" and n: "bit n k \<Longrightarrow> k < 5" and a: "bit a k \<Longrightarrow> k < 5" for k
    using small_word_bits [of d 5 k] small_word_bits [of n 5 k] small_word_bits [of a 5 k] u assms by auto
  have "mi AND mask 6 = mi" using assms(1) by (auto simp: mipsi mask_eq_exp_minus_1)
  then have m: "bit mi k \<Longrightarrow> k < 6" for k by (metis bit_and_iff bit_mask_iff)
  have w: "dta_word mi rd rt a = mi OR push_bit 11 d OR push_bit 16 n OR push_bit 6 a"
    by (simp add: dta_word_def MIPSF_D_def MIPSF_T_def MIPSF_A_def d_def n_def ac_simps)
  have m63: "63 = (mask 6 :: 32 word)" by (simp add: mask_eq_exp_minus_1)
  have "drop_bit 26 (dta_word mi rd rt a) = 0" unfolding w
    by (intro bit_word_eqI) (auto simp: bit_simps; (drule d)?; (drule n)?; (drule m)?; (drule a)?; simp)
  then show "fld_op (dta_word mi rd rt a) = 0" by (simp add: fld_op_def)
  have "drop_bit 16 (dta_word mi rd rt a) AND 31 = n" unfolding w masks32
    by (intro bit_word_eqI) (auto simp: bit_simps; (drule d)?; (drule n)?; (drule m)?; (drule a)?; simp)
  then show "fld_lo (dta_word mi rd rt a) = rt" by (simp add: fld_lo_def u)
  have "drop_bit 11 (dta_word mi rd rt a) AND 31 = d" unfolding w masks32
    by (intro bit_word_eqI) (auto simp: bit_simps; (drule d)?; (drule n)?; (drule m)?; (drule a)?; simp)
  then show "fld_d (dta_word mi rd rt a) = rd" by (simp add: fld_d_def u)
  have "drop_bit 6 (dta_word mi rd rt a) AND 31 = a" unfolding w masks32
    by (intro bit_word_eqI) (auto simp: bit_simps; (drule d)?; (drule n)?; (drule m)?; (drule a)?; simp)
  then show "fld_a (dta_word mi rd rt a) = unat a" by (simp add: fld_a_def)
  show "dta_word mi rd rt a AND 63 = mi" unfolding w m63
    by (intro bit_word_eqI) (auto simp: bit_simps; (drule d)?; (drule n)?; (drule m)?; (drule a)?; simp)
qed

lemma exec_tsi:
  assumes "t < 32" "s < 32"
  shows "exec_mips (tsi_word MIPSI_ADDIU t s i) R = Some (R(t := sext32 (ucast (R s + simm i))))"
    "exec_mips (tsi_word MIPSI_DADDIU t s i) R = Some (R(t := R s + simm i))"
    "exec_mips (tsi_word MIPSI_ORI t s i) R = Some (R(t := R s OR ucast (i AND 0xffff)))"
    "exec_mips (tsi_word MIPSI_LUI t s i) R = Some (R(t := sext32 (push_bit 16 (i AND 0xffff))))"
  by (simp_all add: exec_mips_def tsi_fields assms mipsi Let_def)

lemma exec_dta:
  assumes "d < 32" "t < 32" "unat a < 32"
  shows "exec_mips (dta_word MIPSI_DSLL d t a) R = Some (R(d := push_bit (unat a) (R t)))"
    "exec_mips (dta_word MIPSI_DSLL32 d t a) R = Some (R(d := push_bit (unat a + 32) (R t)))"
  by (simp_all add: exec_mips_def dta_fields assms Let_def) (simp_all add: mipsi)

lemma mips_aliases: "MIPSI_LI = MIPSI_ADDIU" "MIPSI_AADDIU = MIPSI_DADDIU"
  by (simp_all add: mipsi)

section \<open>Putting constants together\<close>

lemma bit_sext32: "bit (sext32 x) k \<longleftrightarrow> k < 64 \<and> bit x (min 31 k)"
  by (simp add: sext32_def bit_signed_iff)

lemma ucast_sext32: "ucast (sext32 x) = x"
  by (rule bit_word_eqI) (simp add: bit_sext32 bit_simps)

lemma sext32_scast: "(scast (x :: 32 word) :: 64 word) = sext32 x"
  by (simp add: sext32_def)

lemma sext_halves:
  "sext32 (push_bit 16 (signed_drop_bit 16 i AND 0xffff)) OR ucast (i AND 0xffff) = sext32 i"
proof (rule bit_word_eqI)
  fix k assume "k < LENGTH(64)"
  then show "bit (sext32 (push_bit 16 (signed_drop_bit 16 i AND 0xffff)) OR ucast (i AND 0xffff)) k = bit (sext32 i) k"
    unfolding masks32 by (auto simp: bit_or_iff bit_sext32 bit_simps min_def)
qed

lemma sext_low:
  assumes "signed_drop_bit 16 i = (0 :: 32 word)"
  shows "ucast (i AND 0xffff) = sext32 i"
proof -
  have z: "\<not> bit i k" if "16 \<le> k" "k < 32" for k
    using arg_cong [OF assms, of "\<lambda>w. bit w (k - 16)"] that by (auto simp: bit_simps split: if_splits)
  show ?thesis
  proof (rule bit_word_eqI)
    fix k assume "k < LENGTH(64)"
    then show "bit (ucast (i AND 0xffff) :: 64 word) k = bit (sext32 i) k"
      unfolding masks32 using z [of k] z [of 31]
      by (cases "k < 16"; cases "k < 31") (auto simp: bit_sext32 bit_simps min_def)
  qed
qed

lemma mask64: "0xffff = (mask 16 :: 64 word)" by (simp add: mask_eq_exp_minus_1)

lemma u64_parts:
  fixes u :: "64 word"
  shows "push_bit 16 (push_bit 16 (sext32 (ucast (drop_bit 32 u))) OR (drop_bit 16 u AND 0xffff)) OR (u AND 0xffff) = u"
    "drop_bit 16 u AND 0xffff = 0 \<Longrightarrow> push_bit 32 (sext32 (ucast (drop_bit 32 u))) OR (u AND 0xffff) = u"
proof -
  show "push_bit 16 (push_bit 16 (sext32 (ucast (drop_bit 32 u))) OR (drop_bit 16 u AND 0xffff)) OR (u AND 0xffff) = u"
  proof (rule bit_word_eqI)
    fix k assume k: "k < LENGTH(64)"
    show "bit (push_bit 16 (push_bit 16 (sext32 (ucast (drop_bit 32 u))) OR (drop_bit 16 u AND 0xffff)) OR (u AND 0xffff)) k = bit u k"
      unfolding mask64 using k by (cases "k < 16"; cases "k < 32"; cases "k = 63") (auto simp: bit_or_iff bit_sext32 bit_simps min_def)
  qed
  assume zm: "drop_bit 16 u AND 0xffff = 0"
  have z: "\<not> bit u k" if "16 \<le> k" "k < 32" for k
    using arg_cong [OF zm [unfolded mask64], of "\<lambda>w. bit w (k - 16)"] that by (auto simp: bit_simps)
  show "push_bit 32 (sext32 (ucast (drop_bit 32 u))) OR (u AND 0xffff) = u"
  proof (rule bit_word_eqI)
    fix k assume "k < LENGTH(64)"
    then show "bit (push_bit 32 (sext32 (ucast (drop_bit 32 u))) OR (u AND 0xffff)) k = bit u k"
      unfolding mask64 using z [of k]
      by (cases "k < 16"; cases "k < 32"; cases "k = 63") (auto simp: bit_or_iff bit_sext32 bit_simps min_def)
  qed
qed

lemma simm_ucast: "checki16 (sint x) \<Longrightarrow> simm (ucast (x :: 64 word)) = x"
proof -
  assume c: "checki16 (sint x)"
  have d: "word_of_int (sint x) = (ucast x :: 16 word)"
  proof -
    have "(scast x :: 16 word) = ucast x"
      by (rule bit_word_eqI) (auto simp: bit_signed_iff bit_unsigned_iff signed_take_bit_def)
    then show ?thesis by (simp only: scast_eq)
  qed
  have "(ucast (ucast x :: 32 word) :: 16 word) = ucast x"
    by (rule bit_word_eqI) (simp add: bit_simps)
  then have "simm (ucast x :: 32 word) = word_of_int (sint (ucast x :: 16 word))"
    by (simp only: simm_def scast_eq)
  also have "\<dots> = word_of_int (sint x)" using c unfolding checki16_def d by (rule arg_cong [OF sym])
  also have "\<dots> = x" by simp
  finally show ?thesis .
qed

section \<open>Loading a constant\<close>

text \<open>
  What the register allocator keeps: an allocated register whose reference stands for a constant
  holds that constant, whatever code has been emitted since.
\<close>

definition holds_mips :: "env_mips \<Rightarrow> asm64 \<Rightarrow> (nat \<Rightarrow> 64 word) \<Rightarrow> bool" where
  "holds_mips E st R \<longleftrightarrow> (\<forall>code. \<forall>r<32. bit (NOT (freeset st) AND RSET_GPR_mips) r \<longrightarrow>
     (let ref = regcost_ref (cost st r) in ref < asmref_L E \<longrightarrow>
        R r = (if iskref E ref then krefk E (st\<lparr>mc := code\<rparr>) ref else get_k64val_mips (irk E ref))))"

definition regs_mips :: "env_mips \<Rightarrow> (nat \<Rightarrow> 64 word) \<Rightarrow> bool" where
  "regs_mips E R \<longleftrightarrow> R 0 = 0 \<and> R 30 = glbase E + 32768"

lemma rset_gpr_mips: "bit RSET_GPR_mips r \<Longrightarrow> 0 < r \<and> r < 32"
proof -
  assume b: "bit RSET_GPR_mips r"
  have "RSET_GPR_mips = RSET_GPR_mips AND mask 32" by (simp add: rset_mips mask_eq_exp_minus_1)
  with b have "r < 32" by (metis bit_and_iff bit_mask_iff)
  moreover have "\<not> bit RSET_GPR_mips 0" by (simp add: rset_mips)
  ultimately show ?thesis using b by (auto intro: gr0I)
qed

lemma kdelta1_exec_mips:
  assumes "emit_kdelta1_mips E rd i (st\<lparr>mc := code\<rparr>) = Some st'" "holds_mips E st R" "rd < 32"
  shows "\<exists>w. mc st' = w # code \<and> exec_mips w R = Some (R(rd := i))"
proof -
  obtain r where r: "bit (NOT (freeset st) AND RSET_GPR_mips) r"
    and l: "regcost_ref (cost st r) < asmref_L E"
    and c: "checki16 (sint (i - (if iskref E (regcost_ref (cost st r))
        then krefk E (st\<lparr>mc := code\<rparr>) (regcost_ref (cost st r)) else get_k64val_mips (irk E (regcost_ref (cost st r))))))"
    and st': "st' = emit_tsi MIPSI_AADDIU rd r (ucast (i - (if iskref E (regcost_ref (cost st r))
        then krefk E (st\<lparr>mc := code\<rparr>) (regcost_ref (cost st r)) else get_k64val_mips (irk E (regcost_ref (cost st r)))))) (st\<lparr>mc := code\<rparr>)"
    using try_regs_some [OF assms(1) [unfolded emit_kdelta1_mips_def]] by (auto simp: Let_def split: if_splits)
  have b: "r < 32" using r rset_gpr_mips by (auto simp: bit_and_iff)
  have R: "(if iskref E (regcost_ref (cost st r))
        then krefk E (st\<lparr>mc := code\<rparr>) (regcost_ref (cost st r)) else get_k64val_mips (irk E (regcost_ref (cost st r)))) = R r"
    using assms(2) r l b unfolding holds_mips_def Let_def by metis
  show ?thesis
    unfolding st' R using exec_tsi(2) [OF assms(3) b, of "ucast (i - R r)" R] simm_ucast [OF c [unfolded R]]
    by (simp add: mc_mips mips_aliases)
qed

lemma loadi_exec_mips:
  assumes "0 < r" "r < 32" "regs_mips E R" "holds_mips E st R"
  shows "\<exists>code. mc (emit_loadi_mips E r i (st\<lparr>mc := rest\<rparr>)) = code @ rest \<and> length code \<le> 2 \<and>
    execs_mips code R = Some (R(r := sext32 i))"
proof -
  let ?st = "st\<lparr>mc := rest\<rparr>" and ?h = "signed_drop_bit 16 i"
  have R0: "R 0 = 0" and J: "R 30 = glbase E + 32768" using assms(3) by (simp_all add: regs_mips_def)
  have one: "?thesis" if "mc (emit_loadi_mips E r i ?st) = w # rest" "exec_mips w R = Some (R(r := sext32 i))" for w
    using that by (intro exI [of _ "[w]"]) simp
  consider (small) "checki16 (sint i)" | (jgl) "\<not> checki16 (sint i)" "i AND 0xffff \<noteq> 0" "scast i - glbase E < 65536"
    | (delta) st' where "emit_loadi_mips E r i ?st = st'" "emit_kdelta1_mips E r (scast i) ?st = Some st'"
    | (low) "emit_loadi_mips E r i ?st = emit_tsi MIPSI_ORI r RID_ZERO_mips i ?st" "?h = 0"
    | (halves) "emit_loadi_mips E r i ?st = emit_ti_mips MIPSI_LUI r ?h (emit_tsi MIPSI_ORI r r i ?st)"
    | (high) "emit_loadi_mips E r i ?st = emit_ti_mips MIPSI_LUI r ?h ?st" "i AND 0xffff = 0"
    unfolding emit_loadi_mips_def
    by (cases "checki16 (sint i)"; cases "i AND 0xffff = 0"; cases "scast i - glbase E < 65536";
        cases "emit_kdelta1_mips E r (scast i) ?st"; cases "?h = 0"; simp)
  then show ?thesis
  proof cases
    case small
    have "(ucast (simm i :: 64 word) :: 32 word) = i"
      unfolding simm_small [OF small] sext32_scast by (rule ucast_sext32)
    then show ?thesis using exec_tsi(1) [OF assms(2), of 0 i R] R0 small
      by (intro one) (simp_all add: emit_loadi_mips_def emit_ti_mips_def mc_mips mips_aliases)
  next
    case jgl
    let ?x = "scast i - glbase E - 32768"
    have "simm (ucast ?x :: 32 word) = ?x" by (rule simm_ucast) (rule low_bound, use jgl in simp_all)
    then have "R 30 + simm (ucast ?x :: 32 word) = sext32 i" by (simp add: J sext32_scast)
    then show ?thesis using exec_tsi(1) [OF assms(2), of 30 "ucast ?x" R] jgl
      by (intro one) (simp_all add: emit_loadi_mips_def mc_mips RID_JGL_mips_def ucast_sext32)
  next
    case delta
    then obtain w where "mc st' = w # rest" "exec_mips w R = Some (R(r := scast i))"
      using kdelta1_exec_mips [OF delta(2) assms(4,2)] by blast
    then show ?thesis using delta(1) by (intro one) (simp_all add: sext32_scast)
  next
    case low
    then show ?thesis using exec_tsi(3) [OF assms(2), of 0 i R] R0 sext_low [OF low(2)]
      by (intro one) (simp_all add: mc_mips RID_ZERO_mips_def)
  next
    case halves
    have "mc (emit_loadi_mips E r i ?st) = [tsi_word MIPSI_LUI r 0 ?h, tsi_word MIPSI_ORI r r i] @ rest"
      by (simp add: halves emit_ti_mips_def mc_mips)
    moreover have "execs_mips [tsi_word MIPSI_LUI r 0 ?h, tsi_word MIPSI_ORI r r i] R = Some (R(r := sext32 i))"
      using exec_tsi(4) [OF assms(2), of 0 ?h R] sext_halves [of i]
        exec_tsi(3) [OF assms(2,2), of i "R(r := sext32 (push_bit 16 (?h AND 0xffff)))"] by simp
    ultimately show ?thesis by (intro exI [of _ "[tsi_word MIPSI_LUI r 0 ?h, tsi_word MIPSI_ORI r r i]"]) simp
  next
    case high
    then show ?thesis using exec_tsi(4) [OF assms(2), of 0 ?h R] sext_halves [of i]
      by (intro one) (simp_all add: emit_ti_mips_def mc_mips)
  qed
qed
section \<open>Loading a wide constant\<close>

definition low_words :: "nat \<Rightarrow> 64 word \<Rightarrow> 32 word list" where
  "low_words r u =
     (if drop_bit 16 u AND 0xffff \<noteq> 0
      then [dta_word MIPSI_DSLL r r 16, tsi_word MIPSI_ORI r r (ucast (drop_bit 16 u AND 0xffff)),
            dta_word MIPSI_DSLL r r 16]
      else [dta_word MIPSI_DSLL32 r r 0]) @
     (if u AND 0xffff \<noteq> 0 then [tsi_word MIPSI_ORI r r (ucast (u AND 0xffff))] else [])"

lemma ucast_mask16: "ucast ((ucast (v AND 0xffff) :: 32 word) AND 0xffff) = (v AND 0xffff :: 64 word)"
  unfolding mask64 masks32 by (rule bit_word_eqI) (auto simp: bit_simps)

lemma low_words_exec:
  assumes "r < 32"
  shows "execs_mips (low_words r u) (R(r := sext32 (ucast (drop_bit 32 u)))) = Some (R(r := u))"
  using u64_parts [of u] u64_parts(1) [of u] assms
  by (auto simp: low_words_def exec_dta exec_tsi ucast_mask16)

lemma low_words_length: "length (low_words r u) \<le> 4"
  by (simp add: low_words_def)

lemma loadu64_halves:
  assumes "\<not> checki32 (sint u)" "\<not> u - glbase E < 65536" "emit_kdelta1_mips E r u st = None"
  shows "emit_loadu64_mips E r u st = emit_loadi_mips E r (ucast (drop_bit 32 u)) (st\<lparr>mc := low_words r u @ mc st\<rparr>)"
proof -
  have f: "(foldr emit ws st :: asm64) = st\<lparr>mc := ws @ mc st\<rparr>" for ws
    by (induction ws) (simp_all add: emit_def)
  have e: "emit_tsi mi rt rs i = emit (tsi_word mi rt rs i)" "emit_dta mi rt rs i = emit (dta_word mi rt rs i)" for mi rt rs i
    by (simp_all add: fun_eq_iff emit_tsi_def emit_dta_def emit_def tsi_word_def dta_word_def)
  have "emit_loadu64_mips E r u st = emit_loadi_mips E r (ucast (drop_bit 32 u)) (foldr emit (low_words r u) st)"
    using assms by (simp add: emit_loadu64_mips_def Let_def e low_words_def)
  then show ?thesis by (simp only: f)
qed

text \<open>
  Loading a 64 bit constant on MIPS64 emits at most six instructions in front of the code,
  which set the register to the constant and change nothing else, whichever of the encodings is
  picked: a sign-extended 16 or 32 bit number, an offset from the global state, the difference to a
  constant in another register, or the halves shifted together.
\<close>

theorem mips_loadu64_loads:
  assumes "0 < r" "r < 32" "regs_mips E R" "holds_mips E st R"
  shows "\<exists>code. mc (emit_loadu64_mips E r u st) = code @ mc st \<and> length code \<le> 6 \<and>
    execs_mips code R = Some (R(r := u))"
proof -
  have J: "R 30 = glbase E + 32768" using assms(3) by (simp add: regs_mips_def)
  have one: "?thesis" if "mc (emit_loadu64_mips E r u st) = w # mc st" "exec_mips w R = Some (R(r := u))" for w
    using that by (intro exI [of _ "[w]"]) simp
  consider (small) "checki32 (sint u)" | (jgl) "\<not> checki32 (sint u)" "u - glbase E < 65536"
    | (delta) st' where "emit_loadu64_mips E r u st = st'" "emit_kdelta1_mips E r u st = Some st'"
    | (halves) "\<not> checki32 (sint u)" "\<not> u - glbase E < 65536" "emit_kdelta1_mips E r u st = None"
    unfolding emit_loadu64_mips_def Let_def
    by (cases "checki32 (sint u)"; cases "u - glbase E < 65536"; cases "emit_kdelta1_mips E r u st"; simp)
  then show ?thesis
  proof cases
    case small
    have "sext32 (ucast u) = u"
    proof -
      have "word_of_int (sint u) = (ucast u :: 32 word)"
      proof -
        have "(scast u :: 32 word) = ucast u"
          by (rule bit_word_eqI) (auto simp: bit_signed_iff bit_unsigned_iff signed_take_bit_def)
        then show ?thesis by (simp only: scast_eq)
      qed
      then have "sint (ucast u :: 32 word) = sint u" using small by (simp add: checki32_def)
      then show ?thesis by (simp add: sext32_def scast_eq)
    qed
    then show ?thesis
      using loadi_exec_mips [OF assms, of "ucast u" "mc st"] small
      by (auto simp: emit_loadu64_mips_def intro: le_trans)
  next
    case jgl
    let ?x = "u - glbase E - 32768"
    have "simm (ucast ?x :: 32 word) = ?x" by (rule simm_ucast) (rule low_bound, use jgl in simp_all)
    then have "R 30 + simm (ucast ?x :: 32 word) = u" by (simp add: J)
    then show ?thesis using exec_tsi(2) [OF assms(2), of 30 "ucast ?x" R] jgl
      by (intro one) (simp_all add: emit_loadu64_mips_def Let_def mc_mips RID_JGL_mips_def)
  next
    case delta
    then obtain w where "mc st' = w # mc st" "exec_mips w R = Some (R(r := u))"
      using kdelta1_exec_mips [of E r u "mc st" st st' R] assms(2,4) by auto
    then show ?thesis using delta(1) by (intro one) simp_all
  next
    case halves
    obtain code where c: "mc (emit_loadu64_mips E r u st) = code @ low_words r u @ mc st" "length code \<le> 2"
      "execs_mips code R = Some (R(r := sext32 (ucast (drop_bit 32 u))))"
      using loadi_exec_mips [OF assms, of "ucast (drop_bit 32 u)" "low_words r u @ mc st"] loadu64_halves [OF halves] by auto
    show ?thesis
      using c low_words_exec [OF assms(2), of u R] low_words_length [of r u]
      by (intro exI [of _ "code @ low_words r u"]) (simp add: execs_mips_append)
  qed
qed

lemma ucast_diff32: "(ucast (x - y :: 64 word) :: 32 word) = ucast x - ucast y"
proof -
  have "take_bit LENGTH(32) (take_bit LENGTH(64) (i - j) :: int)
      = take_bit LENGTH(32) (take_bit LENGTH(64) i - take_bit LENGTH(64) j)" for i j
  proof -
    have "take_bit 32 (take_bit 64 i - take_bit 64 j) = take_bit 32 (take_bit 32 (take_bit 64 i) - take_bit 32 (take_bit 64 j))"
      by (rule take_bit_diff [symmetric])
    then show ?thesis by (simp add: take_bit_diff)
  qed
  then show ?thesis by transfer
qed

text \<open>
  A load or store through \<open>emit_lsptr\<close> accesses the pointer it was given when its truncated
  distance from the global state is 65536 or more, and otherwise the global state plus that truncated
  distance: for a pointer whose distance has low 32 bits below 65536 and is not itself below 65536,
  the word accesses another address (the test casts the 64 bit distance to \<open>uint32_t\<close>).
\<close>

theorem mips_lsptr_address:
  assumes "mi AND 0x3ffffff = 0" "r < 32" "R 30 = glbase E + 32768"
    "allock E (p - scast (ucast p :: 16 word)) allow st = (base, st')"
    "base < 32" "R base = p - scast (ucast p :: 16 word)"
  shows "\<exists>w. mc (emit_lsptr_mips E mi r p allow st)
        = w # (if (ucast (p - glbase E) :: 32 word) < 65536 then mc st else mc st') \<and>
    fld_op w = drop_bit 26 mi \<and> fld_lo w = r \<and>
    address w R = (if (ucast (p - glbase E) :: 32 word) < 65536
                   then glbase E + ucast (ucast (p - glbase E) :: 32 word) else p)"
proof (cases "(ucast (p - glbase E) :: 32 word) < 65536")
  case True
  let ?d = "p - glbase E" and ?u = "ucast (p - glbase E) :: 32 word"
  have x: "(ucast (?d - 32768) :: 32 word) = ?u - 32768"
    unfolding ucast_diff32 [of ?d 32768] by simp
  have "simm (?u - 32768) = (scast (?u - 32768) :: 64 word)"
    by (rule simm_small) (rule low_bound, use True in simp_all)
  also have "\<dots> = word_of_int (uint ?u - 32768)" using low_middle(1) [of ?u] True by (simp add: scast_eq)
  also have "\<dots> = ucast ?u - 32768" by (simp only: ucast_eq [of ?u] of_int_diff of_int_numeral)
  finally have a: "simm (ucast (?d - 32768)) = (ucast ?u - 32768 :: 64 word)" unfolding x .
  show ?thesis using True
    by (simp add: emit_lsptr_mips_def mc_mips RID_JGL_mips_def tsi_fields assms address_def a)
next
  case False
  have "(ucast (ucast p :: 32 word) :: 16 word) = ucast p" by (rule bit_word_eqI) (simp add: bit_simps)
  then have s: "simm (ucast p :: 32 word) = (scast (ucast p :: 16 word) :: 64 word)" by (simp add: simm_def)
  show ?thesis using False
    by (simp add: emit_lsptr_mips_def mc_mips tsi_fields assms address_def s)
qed

definition idle_env_mips :: env_mips where
  "idle_env_mips = \<lparr>glbase = 0x7fff0000, irk = (\<lambda>ref. KNULL 0), iskref = (\<lambda>ref. False),
     krefk = (\<lambda>st ref. 0), allock = (\<lambda>k allow st. (2, st)), asmref_L = 0, allockreg = (\<lambda>k r st. st)\<rparr>"

definition empty_asm :: asm64 where
  "empty_asm = \<lparr>mc = [], mctop = 0x1000, mcloop = 0, freeset = 0, cost = (\<lambda>r. 0)\<rparr>"

definition gl_regs :: "nat \<Rightarrow> 64 word" where
  "gl_regs = (\<lambda>r. if r = 30 then 0x7fff8000 else if r = 2 then 0x8000000000 else 0)"

theorem mips_loadu64_loads_witness:
  "\<exists>code. mc (emit_loadu64_mips idle_env_mips 3 0x123456789abcdef0 empty_asm) = code \<and> length code \<le> 6 \<and>
     execs_mips code gl_regs = Some (gl_regs(3 := 0x123456789abcdef0))"
  using mips_loadu64_loads [of 3 idle_env_mips gl_regs empty_asm "0x123456789abcdef0"]
  by (simp add: idle_env_mips_def empty_asm_def gl_regs_def regs_mips_def holds_mips_def)

theorem mips_lsptr_address_witness:
  "(\<exists>w. mc (emit_lsptr_mips idle_env_mips MIPSI_LD 3 0x8000000010 0 empty_asm) = [w] \<and> address w gl_regs = 0x8000000010) \<and>
   (\<exists>w. mc (emit_lsptr_mips idle_env_mips MIPSI_LD 3 0x17fff0010 0 empty_asm) = [w] \<and> address w (gl_regs(2 := 0x17fff0000)) = 0x7fff0010)"
  using mips_lsptr_address [of MIPSI_LD 3 gl_regs idle_env_mips "0x8000000010" 0 empty_asm 2 empty_asm]
    mips_lsptr_address [of MIPSI_LD 3 "gl_regs(2 := 0x17fff0000)" idle_env_mips "0x17fff0010" 0 empty_asm 2 empty_asm]
  by (auto simp: idle_env_mips_def empty_asm_def gl_regs_def mipsi word_less_def)

end
