(* ===== verification/LJ_X86.thy ===== *)
theory LJ_X86
  imports LJ_Target
begin

text \<open>
  \<open>LuaJit/include/lj_target_x86.h\<close> and \<open>lj_emit_x86.h\<close> for x64 with 64 bit references: registers,
  opcodes and the instruction emitter. Registers are words, because the emitter adds prefix flags to
  them. The code area grows down, so the emitted bytes are a list with the newest byte first.
\<close>

section \<open>Registers\<close>

definition GPRDEF_x86 :: "string list" where
  "GPRDEF_x86 =
    [''EAX'', ''ECX'', ''EDX'', ''EBX'', ''ESP'', ''EBP'', ''ESI'', ''EDI'',
     ''R8D'', ''R9D'', ''R10D'', ''R11D'', ''R12D'', ''R13D'', ''R14D'', ''R15D'']"

definition FPRDEF_x86 :: "string list" where
  "FPRDEF_x86 =
    [''XMM0'', ''XMM1'', ''XMM2'', ''XMM3'', ''XMM4'', ''XMM5'', ''XMM6'', ''XMM7'',
     ''XMM8'', ''XMM9'', ''XMM10'', ''XMM11'', ''XMM12'', ''XMM13'', ''XMM14'', ''XMM15'']"

definition RID_x86 :: "string \<Rightarrow> nat" where
  "RID_x86 name = length (takeWhile (\<lambda>r. r \<noteq> name) (GPRDEF_x86 @ FPRDEF_x86))"

lemma RID_x86_nums [simp]:
  "RID_x86 ''EAX'' = 0" "RID_x86 ''ECX'' = 1" "RID_x86 ''EDX'' = 2" "RID_x86 ''EBX'' = 3"
  "RID_x86 ''ESP'' = 4" "RID_x86 ''EBP'' = 5" "RID_x86 ''ESI'' = 6" "RID_x86 ''EDI'' = 7"
  "RID_x86 ''R8D'' = 8" "RID_x86 ''R9D'' = 9" "RID_x86 ''R11D'' = 11" "RID_x86 ''R14D'' = 14"
  "RID_x86 ''XMM0'' = 16" "RID_x86 ''XMM3'' = 19" "RID_x86 ''XMM5'' = 21" "RID_x86 ''XMM7'' = 23"
  by (simp_all add: RID_x86_def GPRDEF_x86_def FPRDEF_x86_def)

definition RID_MAX_x86 :: nat where "RID_MAX_x86 = length (GPRDEF_x86 @ FPRDEF_x86)"

definition RID_MRM :: "32 word" where "RID_MRM = of_nat RID_MAX_x86"

definition RID_RIP :: "32 word" where "RID_RIP = of_nat (RID_MAX_x86 + 5)"

definition RID_ESP :: "32 word" where "RID_ESP = of_nat (RID_x86 ''ESP'')"

definition RID_EBP :: "32 word" where "RID_EBP = of_nat (RID_x86 ''EBP'')"

definition RID_RET_x86 :: "32 word" where "RID_RET_x86 = of_nat (RID_x86 ''EAX'')"

text \<open>The parameter \<open>win\<close> stands for \<open>LJ_ABI_WIN\<close>.\<close>

definition RID_LPC :: "bool \<Rightarrow> nat" where
  "RID_LPC win = (if \<not> win then RID_x86 ''EBX'' else RID_x86 ''ESI'')"

definition RID_DISPATCH :: "bool \<Rightarrow> nat" where
  "RID_DISPATCH win = (if \<not> win then RID_x86 ''R14D'' else RID_x86 ''EBX'')"

definition RID_MAX_GPR_x86 :: nat where "RID_MAX_GPR_x86 = RID_x86 ''XMM0''"

definition RID_MAX_FPR_x86 :: nat where "RID_MAX_FPR_x86 = RID_MAX_x86"

definition RSET_GPR_x86 :: "bool \<Rightarrow> 32 word" where
  "RSET_GPR_x86 win =
     RSET_RANGE (RID_x86 ''EAX'') RID_MAX_GPR_x86 - RID2RSET (RID_x86 ''ESP'') - RID2RSET (RID_DISPATCH win)"

definition RSET_FPR_x86 :: "32 word" where
  "RSET_FPR_x86 = RSET_RANGE (RID_x86 ''XMM0'') RID_MAX_FPR_x86"

definition RSET_ACD :: "32 word" where
  "RSET_ACD = RID2RSET (RID_x86 ''EAX'') OR RID2RSET (RID_x86 ''ECX'') OR RID2RSET (RID_x86 ''EDX'')"

definition RSET_SCRATCH_x86 :: "bool \<Rightarrow> 32 word" where
  "RSET_SCRATCH_x86 win =
     (if win
      then RSET_ACD OR RSET_RANGE (RID_x86 ''R8D'') (RID_x86 ''R11D'' + 1) OR
        RSET_RANGE (RID_x86 ''XMM0'') (RID_x86 ''XMM5'' + 1)
      else RSET_ACD OR RSET_RANGE (RID_x86 ''ESI'') (RID_x86 ''R11D'' + 1) OR RSET_FPR_x86)"

text \<open>The registers of the integer arguments of a call, five bits each, the first one lowest.\<close>

definition REGARG_GPRS :: "bool \<Rightarrow> 32 word" where
  "REGARG_GPRS win =
     (if win
      then of_nat (RID_x86 ''ECX'') OR
        push_bit 5 (of_nat (RID_x86 ''EDX'') OR
          push_bit 5 (of_nat (RID_x86 ''R8D'') OR push_bit 5 (of_nat (RID_x86 ''R9D''))))
      else of_nat (RID_x86 ''EDI'') OR
        push_bit 5 (of_nat (RID_x86 ''ESI'') OR
          push_bit 5 (of_nat (RID_x86 ''EDX'') OR
            push_bit 5 (of_nat (RID_x86 ''ECX'') OR
              push_bit 5 (of_nat (RID_x86 ''R8D'') OR push_bit 5 (of_nat (RID_x86 ''R9D'')))))))"

definition REGARG_NUMGPR_x86 :: "bool \<Rightarrow> nat" where "REGARG_NUMGPR_x86 win = (if win then 4 else 6)"

definition REGARG_NUMFPR_x86 :: "bool \<Rightarrow> nat" where "REGARG_NUMFPR_x86 win = (if win then 4 else 8)"

definition REGARG_LASTFPR_x86 :: "bool \<Rightarrow> nat" where
  "REGARG_LASTFPR_x86 win = (if win then RID_x86 ''XMM3'' else RID_x86 ''XMM7'')"

definition STACKARG_OFS :: "bool \<Rightarrow> nat" where "STACKARG_OFS win = (if win then 4 * 8 else 0)"

text \<open>The pick prefers the low eight registers of each kind: the bytes of the set are swapped first.\<close>

definition lj_bswap :: "32 word \<Rightarrow> 32 word" where
  "lj_bswap x = push_bit 24 x OR push_bit 8 (x AND 0xff00) OR (drop_bit 8 x AND 0xff00) OR drop_bit 24 x"

definition rset_picktop_x86 :: "32 word \<Rightarrow> nat" where
  "rset_picktop_x86 rs = lj_fls (lj_bswap rs) XOR 0x18"

definition SPS_FIXED_x86 :: "bool \<Rightarrow> int" where "SPS_FIXED_x86 win = (if win then 4 * 2 else 2)"

definition SPS_FIRST_x86 :: "bool \<Rightarrow> int" where "SPS_FIRST_x86 win = (if win then 4 * 2 else 2)"

definition sps_align_x86 :: "bool \<Rightarrow> int \<Rightarrow> int" where
  "sps_align_x86 win slot = (slot - SPS_FIXED_x86 win + 3) AND NOT 3"

definition EXITSTUB_SPACING :: nat where "EXITSTUB_SPACING = 2 + 2"

definition EXITSTUBS_PER_GROUP :: nat where "EXITSTUBS_PER_GROUP = 32"

section \<open>Operands and opcodes\<close>

definition XM_OFS0 :: "32 word" where "XM_OFS0 = 0x00"

definition XM_OFS8 :: "32 word" where "XM_OFS8 = 0x40"

definition XM_OFS32 :: "32 word" where "XM_OFS32 = 0x80"

definition XM_REG :: "32 word" where "XM_REG = 0xc0"

definition XM_SCALE1 :: "32 word" where "XM_SCALE1 = 0x00"

definition XM_SCALE2 :: "32 word" where "XM_SCALE2 = 0x40"

definition XM_SCALE4 :: "32 word" where "XM_SCALE4 = 0x80"

definition XM_SCALE8 :: "32 word" where "XM_SCALE8 = 0xc0"

definition XM_MASK :: "32 word" where "XM_MASK = 0xc0"

lemmas xm_nums = XM_OFS0_def XM_OFS8_def XM_OFS32_def XM_REG_def XM_SCALE1_def XM_SCALE2_def
  XM_SCALE4_def XM_SCALE8_def XM_MASK_def

record x86ModRM =
  mrm_ofs :: "32 word"
  mrm_base :: "8 word"
  mrm_idx :: "8 word"
  mrm_scale :: "8 word"

text \<open>Opcodes of variable length carry their length, negated and with one added, in the low byte.\<close>

definition XO_1 :: "32 word \<Rightarrow> 32 word" where "XO_1 b = 0x0000fe + push_bit 24 b"

definition XO_FPU :: "32 word \<Rightarrow> 32 word \<Rightarrow> 32 word" where
  "XO_FPU a b = 0x00fd + push_bit 16 a + push_bit 24 b"

definition XO_0f :: "32 word \<Rightarrow> 32 word" where "XO_0f b = 0x0f00fd + push_bit 24 b"

definition XO_66 :: "32 word \<Rightarrow> 32 word" where "XO_66 b = 0x6600fd + push_bit 24 b"

definition XO_660f :: "32 word \<Rightarrow> 32 word" where "XO_660f b = 0x0f66fc + push_bit 24 b"

definition XO_f20f :: "32 word \<Rightarrow> 32 word" where "XO_f20f b = 0x0ff2fc + push_bit 24 b"

definition XO_f30f :: "32 word \<Rightarrow> 32 word" where "XO_f30f b = 0x0ff3fc + push_bit 24 b"

definition XV_660f38 :: "32 word \<Rightarrow> 32 word" where "XV_660f38 b = 0x79e2c4 + push_bit 24 b"

definition XV_f20f38 :: "32 word \<Rightarrow> 32 word" where "XV_f20f38 b = 0x7be2c4 + push_bit 24 b"

definition XV_f20f3a :: "32 word \<Rightarrow> 32 word" where "XV_f20f3a b = 0x7be3c4 + push_bit 24 b"

definition XV_f30f38 :: "32 word \<Rightarrow> 32 word" where "XV_f30f38 b = 0x7ae2c4 + push_bit 24 b"

lemmas xo_macros = XO_1_def XO_FPU_def XO_0f_def XO_66_def XO_660f_def XO_f20f_def XO_f30f_def
  XV_660f38_def XV_f20f38_def XV_f20f3a_def XV_f30f38_def

definition XI_O16 :: "32 word" where "XI_O16 = 0x66"

definition XI_NOP :: "32 word" where "XI_NOP = 0x90"

definition XI_XCHGa :: "32 word" where "XI_XCHGa = 0x90"

definition XI_CALL :: "32 word" where "XI_CALL = 0xe8"

definition XI_JMP :: "32 word" where "XI_JMP = 0xe9"

definition XI_JMPs :: "32 word" where "XI_JMPs = 0xeb"

definition XI_PUSH :: "32 word" where "XI_PUSH = 0x50"

definition XI_JCCs :: "32 word" where "XI_JCCs = 0x70"

definition XI_JCCn :: "32 word" where "XI_JCCn = 0x80"

definition XI_LEA :: "32 word" where "XI_LEA = 0x8d"

definition XI_MOVrib :: "32 word" where "XI_MOVrib = 0xb0"

definition XI_MOVri :: "32 word" where "XI_MOVri = 0xb8"

definition XI_ARITHib :: "32 word" where "XI_ARITHib = 0x80"

definition XI_ARITHi :: "32 word" where "XI_ARITHi = 0x81"

definition XI_ARITHi8 :: "32 word" where "XI_ARITHi8 = 0x83"

definition XI_PUSHi8 :: "32 word" where "XI_PUSHi8 = 0x6a"

definition XI_TESTb :: "32 word" where "XI_TESTb = 0x84"

definition XI_TEST :: "32 word" where "XI_TEST = 0x85"

definition XI_INT3 :: "32 word" where "XI_INT3 = 0xcc"

definition XI_MOVmi :: "32 word" where "XI_MOVmi = 0xc7"

definition XI_GROUP5 :: "32 word" where "XI_GROUP5 = 0xff"

definition XI_FLDZ :: "32 word" where "XI_FLDZ = 0xeed9"

definition XI_FLD1 :: "32 word" where "XI_FLD1 = 0xe8d9"

definition XI_FDUP :: "32 word" where "XI_FDUP = 0xc0d9"

definition XI_FPOP :: "32 word" where "XI_FPOP = 0xd8dd"

definition XI_FPOP1 :: "32 word" where "XI_FPOP1 = 0xd9dd"

definition XI_FRNDINT :: "32 word" where "XI_FRNDINT = 0xfcd9"

definition XI_FSCALE :: "32 word" where "XI_FSCALE = 0xfdd9"

definition XI_FYL2X :: "32 word" where "XI_FYL2X = 0xf1d9"

definition XV_RORX :: "32 word" where "XV_RORX = XV_f20f3a 0xf0"

definition XV_SARX :: "32 word" where "XV_SARX = XV_f30f38 0xf7"

definition XV_SHLX :: "32 word" where "XV_SHLX = XV_660f38 0xf7"

definition XV_SHRX :: "32 word" where "XV_SHRX = XV_f20f38 0xf7"

definition XO_OR :: "32 word" where "XO_OR = XO_1 0x0b"

definition XO_MOV :: "32 word" where "XO_MOV = XO_1 0x8b"

definition XO_MOVto :: "32 word" where "XO_MOVto = XO_1 0x89"

definition XO_MOVtow :: "32 word" where "XO_MOVtow = XO_66 0x89"

definition XO_MOVtob :: "32 word" where "XO_MOVtob = XO_1 0x88"

definition XO_MOVmi :: "32 word" where "XO_MOVmi = XO_1 0xc7"

definition XO_MOVmib :: "32 word" where "XO_MOVmib = XO_1 0xc6"

definition XO_LEA :: "32 word" where "XO_LEA = XO_1 0x8d"

definition XO_ARITHib :: "32 word" where "XO_ARITHib = XO_1 0x80"

definition XO_ARITHi :: "32 word" where "XO_ARITHi = XO_1 0x81"

definition XO_ARITHi8 :: "32 word" where "XO_ARITHi8 = XO_1 0x83"

definition XO_ARITHiw8 :: "32 word" where "XO_ARITHiw8 = XO_66 0x83"

definition XO_SHIFTi :: "32 word" where "XO_SHIFTi = XO_1 0xc1"

definition XO_SHIFT1 :: "32 word" where "XO_SHIFT1 = XO_1 0xd1"

definition XO_SHIFTcl :: "32 word" where "XO_SHIFTcl = XO_1 0xd3"

definition XO_IMUL :: "32 word" where "XO_IMUL = XO_0f 0xaf"

definition XO_IMULi :: "32 word" where "XO_IMULi = XO_1 0x69"

definition XO_IMULi8 :: "32 word" where "XO_IMULi8 = XO_1 0x6b"

definition XO_CMP :: "32 word" where "XO_CMP = XO_1 0x3b"

definition XO_TESTb :: "32 word" where "XO_TESTb = XO_1 0x84"

definition XO_TEST :: "32 word" where "XO_TEST = XO_1 0x85"

definition XO_GROUP3b :: "32 word" where "XO_GROUP3b = XO_1 0xf6"

definition XO_GROUP3 :: "32 word" where "XO_GROUP3 = XO_1 0xf7"

definition XO_GROUP5b :: "32 word" where "XO_GROUP5b = XO_1 0xfe"

definition XO_GROUP5 :: "32 word" where "XO_GROUP5 = XO_1 0xff"

definition XO_MOVZXb :: "32 word" where "XO_MOVZXb = XO_0f 0xb6"

definition XO_MOVZXw :: "32 word" where "XO_MOVZXw = XO_0f 0xb7"

definition XO_MOVSXb :: "32 word" where "XO_MOVSXb = XO_0f 0xbe"

definition XO_MOVSXw :: "32 word" where "XO_MOVSXw = XO_0f 0xbf"

definition XO_MOVSXd :: "32 word" where "XO_MOVSXd = XO_1 0x63"

definition XO_BSWAP :: "32 word" where "XO_BSWAP = XO_0f 0xc8"

definition XO_CMOV :: "32 word" where "XO_CMOV = XO_0f 0x40"

definition XO_MOVSD :: "32 word" where "XO_MOVSD = XO_f20f 0x10"

definition XO_MOVSDto :: "32 word" where "XO_MOVSDto = XO_f20f 0x11"

definition XO_MOVSS :: "32 word" where "XO_MOVSS = XO_f30f 0x10"

definition XO_MOVSSto :: "32 word" where "XO_MOVSSto = XO_f30f 0x11"

definition XO_MOVLPD :: "32 word" where "XO_MOVLPD = XO_660f 0x12"

definition XO_MOVAPS :: "32 word" where "XO_MOVAPS = XO_0f 0x28"

definition XO_XORPS :: "32 word" where "XO_XORPS = XO_0f 0x57"

definition XO_ANDPS :: "32 word" where "XO_ANDPS = XO_0f 0x54"

definition XO_ADDSD :: "32 word" where "XO_ADDSD = XO_f20f 0x58"

definition XO_SUBSD :: "32 word" where "XO_SUBSD = XO_f20f 0x5c"

definition XO_MULSD :: "32 word" where "XO_MULSD = XO_f20f 0x59"

definition XO_DIVSD :: "32 word" where "XO_DIVSD = XO_f20f 0x5e"

definition XO_SQRTSD :: "32 word" where "XO_SQRTSD = XO_f20f 0x51"

definition XO_MINSD :: "32 word" where "XO_MINSD = XO_f20f 0x5d"

definition XO_MAXSD :: "32 word" where "XO_MAXSD = XO_f20f 0x5f"

definition XO_ROUNDSD :: "32 word" where "XO_ROUNDSD = 0x0b3a0ffc"

definition XO_UCOMISD :: "32 word" where "XO_UCOMISD = XO_660f 0x2e"

definition XO_CVTSI2SD :: "32 word" where "XO_CVTSI2SD = XO_f20f 0x2a"

definition XO_CVTTSD2SI :: "32 word" where "XO_CVTTSD2SI = XO_f20f 0x2c"

definition XO_CVTSI2SS :: "32 word" where "XO_CVTSI2SS = XO_f30f 0x2a"

definition XO_CVTTSS2SI :: "32 word" where "XO_CVTTSS2SI = XO_f30f 0x2c"

definition XO_CVTSS2SD :: "32 word" where "XO_CVTSS2SD = XO_f30f 0x5a"

definition XO_CVTSD2SS :: "32 word" where "XO_CVTSD2SS = XO_f20f 0x5a"

definition XO_ADDSS :: "32 word" where "XO_ADDSS = XO_f30f 0x58"

definition XO_MOVD :: "32 word" where "XO_MOVD = XO_660f 0x6e"

definition XO_MOVDto :: "32 word" where "XO_MOVDto = XO_660f 0x7e"

definition XO_FLDd :: "32 word" where "XO_FLDd = XO_1 0xd9"

definition XOg_FLDd :: "32 word" where "XOg_FLDd = 0"

definition XO_FLDq :: "32 word" where "XO_FLDq = XO_1 0xdd"

definition XOg_FLDq :: "32 word" where "XOg_FLDq = 0"

definition XO_FILDd :: "32 word" where "XO_FILDd = XO_1 0xdb"

definition XOg_FILDd :: "32 word" where "XOg_FILDd = 0"

definition XO_FILDq :: "32 word" where "XO_FILDq = XO_1 0xdf"

definition XOg_FILDq :: "32 word" where "XOg_FILDq = 5"

definition XO_FSTPd :: "32 word" where "XO_FSTPd = XO_1 0xd9"

definition XOg_FSTPd :: "32 word" where "XOg_FSTPd = 3"

definition XO_FSTPq :: "32 word" where "XO_FSTPq = XO_1 0xdd"

definition XOg_FSTPq :: "32 word" where "XOg_FSTPq = 3"

definition XO_FISTPq :: "32 word" where "XO_FISTPq = XO_1 0xdf"

definition XOg_FISTPq :: "32 word" where "XOg_FISTPq = 7"

definition XO_FISTTPq :: "32 word" where "XO_FISTTPq = XO_1 0xdd"

definition XOg_FISTTPq :: "32 word" where "XOg_FISTTPq = 1"

definition XO_FADDq :: "32 word" where "XO_FADDq = XO_1 0xdc"

definition XOg_FADDq :: "32 word" where "XOg_FADDq = 0"

definition XO_FLDCW :: "32 word" where "XO_FLDCW = XO_1 0xd9"

definition XOg_FLDCW :: "32 word" where "XOg_FLDCW = 5"

definition XO_FNSTCW :: "32 word" where "XO_FNSTCW = XO_1 0xd9"

definition XOg_FNSTCW :: "32 word" where "XOg_FNSTCW = 7"

lemmas x86_ops = XI_O16_def XI_NOP_def XI_XCHGa_def XI_CALL_def XI_JMP_def XI_JMPs_def
  XI_PUSH_def XI_JCCs_def XI_JCCn_def XI_LEA_def XI_MOVrib_def XI_MOVri_def XI_ARITHib_def
  XI_ARITHi_def XI_ARITHi8_def XI_PUSHi8_def XI_TESTb_def XI_TEST_def XI_INT3_def XI_MOVmi_def
  XI_GROUP5_def XI_FLDZ_def XI_FLD1_def XI_FDUP_def XI_FPOP_def XI_FPOP1_def XI_FRNDINT_def
  XI_FSCALE_def XI_FYL2X_def XV_RORX_def XV_SARX_def XV_SHLX_def XV_SHRX_def XO_OR_def
  XO_MOV_def XO_MOVto_def XO_MOVtow_def XO_MOVtob_def XO_MOVmi_def XO_MOVmib_def XO_LEA_def
  XO_ARITHib_def XO_ARITHi_def XO_ARITHi8_def XO_ARITHiw8_def XO_SHIFTi_def XO_SHIFT1_def
  XO_SHIFTcl_def XO_IMUL_def XO_IMULi_def XO_IMULi8_def XO_CMP_def XO_TESTb_def XO_TEST_def
  XO_GROUP3b_def XO_GROUP3_def XO_GROUP5b_def XO_GROUP5_def XO_MOVZXb_def XO_MOVZXw_def
  XO_MOVSXb_def XO_MOVSXw_def XO_MOVSXd_def XO_BSWAP_def XO_CMOV_def XO_MOVSD_def XO_MOVSDto_def
  XO_MOVSS_def XO_MOVSSto_def XO_MOVLPD_def XO_MOVAPS_def XO_XORPS_def XO_ANDPS_def XO_ADDSD_def
  XO_SUBSD_def XO_MULSD_def XO_DIVSD_def XO_SQRTSD_def XO_MINSD_def XO_MAXSD_def XO_ROUNDSD_def
  XO_UCOMISD_def XO_CVTSI2SD_def XO_CVTTSD2SI_def XO_CVTSI2SS_def XO_CVTTSS2SI_def
  XO_CVTSS2SD_def XO_CVTSD2SS_def XO_ADDSS_def XO_MOVD_def XO_MOVDto_def XO_FLDd_def
  XOg_FLDd_def XO_FLDq_def XOg_FLDq_def XO_FILDd_def XOg_FILDd_def XO_FILDq_def XOg_FILDq_def
  XO_FSTPd_def XOg_FSTPd_def XO_FSTPq_def XOg_FSTPq_def XO_FISTPq_def XOg_FISTPq_def
  XO_FISTTPq_def XOg_FISTTPq_def XO_FADDq_def XOg_FADDq_def XO_FLDCW_def XOg_FLDCW_def
  XO_FNSTCW_def XOg_FNSTCW_def

text \<open>Groups hold the opcode for a byte, the opcode for a word and the number in the group.\<close>

definition XG_mk :: "32 word \<Rightarrow> 32 word \<Rightarrow> 32 word \<Rightarrow> 32 word" where
  "XG_mk i8 i g = push_bit 16 i8 + push_bit 8 i + g"

definition XG_ARITHi :: "32 word \<Rightarrow> 32 word" where "XG_ARITHi g = XG_mk XI_ARITHi8 XI_ARITHi g"

definition XG_TOXOi :: "32 word \<Rightarrow> 32 word" where
  "XG_TOXOi xg = 0x000000fe + (push_bit 16 xg AND 0xff000000)"

definition XG_TOXOi8 :: "32 word \<Rightarrow> 32 word" where
  "XG_TOXOi8 xg = 0x000000fe + (push_bit 8 xg AND 0xff000000)"

definition XO_ARITH :: "32 word \<Rightarrow> 32 word" where "XO_ARITH a = 0x030000fe + push_bit 27 a"

definition XO_ARITHw :: "32 word \<Rightarrow> 32 word" where "XO_ARITHw a = 0x036600fd + push_bit 27 a"

definition XOg_ADD :: "32 word" where "XOg_ADD = 0"

definition XOg_OR :: "32 word" where "XOg_OR = 1"

definition XOg_ADC :: "32 word" where "XOg_ADC = 2"

definition XOg_SBB :: "32 word" where "XOg_SBB = 3"

definition XOg_AND :: "32 word" where "XOg_AND = 4"

definition XOg_SUB :: "32 word" where "XOg_SUB = 5"

definition XOg_XOR :: "32 word" where "XOg_XOR = 6"

definition XOg_CMP :: "32 word" where "XOg_CMP = 7"

definition XOg_X_IMUL :: "32 word" where "XOg_X_IMUL = 8"

definition XOg_ROL :: "32 word" where "XOg_ROL = 0"

definition XOg_ROR :: "32 word" where "XOg_ROR = 1"

definition XOg_RCL :: "32 word" where "XOg_RCL = 2"

definition XOg_RCR :: "32 word" where "XOg_RCR = 3"

definition XOg_SHL :: "32 word" where "XOg_SHL = 4"

definition XOg_SHR :: "32 word" where "XOg_SHR = 5"

definition XOg_SAL :: "32 word" where "XOg_SAL = 6"

definition XOg_SAR :: "32 word" where "XOg_SAR = 7"

definition XOg_TEST :: "32 word" where "XOg_TEST = 0"

definition XOg_TEST_2 :: "32 word" where "XOg_TEST_2 = 1"

definition XOg_NOT :: "32 word" where "XOg_NOT = 2"

definition XOg_NEG :: "32 word" where "XOg_NEG = 3"

definition XOg_MUL :: "32 word" where "XOg_MUL = 4"

definition XOg_IMUL :: "32 word" where "XOg_IMUL = 5"

definition XOg_DIV :: "32 word" where "XOg_DIV = 6"

definition XOg_IDIV :: "32 word" where "XOg_IDIV = 7"

definition XOg_INC :: "32 word" where "XOg_INC = 0"

definition XOg_DEC :: "32 word" where "XOg_DEC = 1"

definition XOg_CALL :: "32 word" where "XOg_CALL = 2"

definition XOg_CALLfar :: "32 word" where "XOg_CALLfar = 3"

definition XOg_JMP :: "32 word" where "XOg_JMP = 4"

definition XOg_JMPfar :: "32 word" where "XOg_JMPfar = 5"

definition XOg_PUSH :: "32 word" where "XOg_PUSH = 6"

definition CC_O :: "32 word" where "CC_O = 0"

definition CC_NO :: "32 word" where "CC_NO = 1"

definition CC_B :: "32 word" where "CC_B = 2"

definition CC_NB :: "32 word" where "CC_NB = 3"

definition CC_E :: "32 word" where "CC_E = 4"

definition CC_NE :: "32 word" where "CC_NE = 5"

definition CC_BE :: "32 word" where "CC_BE = 6"

definition CC_NBE :: "32 word" where "CC_NBE = 7"

definition CC_S :: "32 word" where "CC_S = 8"

definition CC_NS :: "32 word" where "CC_NS = 9"

definition CC_P :: "32 word" where "CC_P = 10"

definition CC_NP :: "32 word" where "CC_NP = 11"

definition CC_L :: "32 word" where "CC_L = 12"

definition CC_NL :: "32 word" where "CC_NL = 13"

definition CC_LE :: "32 word" where "CC_LE = 14"

definition CC_NLE :: "32 word" where "CC_NLE = 15"

definition CC_C :: "32 word" where "CC_C = CC_B"

definition CC_NAE :: "32 word" where "CC_NAE = CC_C"

definition CC_NC :: "32 word" where "CC_NC = CC_NB"

definition CC_AE :: "32 word" where "CC_AE = CC_NB"

definition CC_Z :: "32 word" where "CC_Z = CC_E"

definition CC_NZ :: "32 word" where "CC_NZ = CC_NE"

definition CC_NA :: "32 word" where "CC_NA = CC_BE"

definition CC_A :: "32 word" where "CC_A = CC_NBE"

definition CC_PE :: "32 word" where "CC_PE = CC_P"

definition CC_PO :: "32 word" where "CC_PO = CC_NP"

definition CC_NGE :: "32 word" where "CC_NGE = CC_L"

definition CC_GE :: "32 word" where "CC_GE = CC_NL"

definition CC_NG :: "32 word" where "CC_NG = CC_LE"

definition CC_G :: "32 word" where "CC_G = CC_NLE"

lemmas x86_groups = XOg_ADD_def XOg_OR_def XOg_ADC_def XOg_SBB_def XOg_AND_def XOg_SUB_def
  XOg_XOR_def XOg_CMP_def XOg_X_IMUL_def XOg_ROL_def XOg_ROR_def XOg_RCL_def XOg_RCR_def
  XOg_SHL_def XOg_SHR_def XOg_SAL_def XOg_SAR_def XOg_TEST_def XOg_TEST_2_def XOg_NOT_def
  XOg_NEG_def XOg_MUL_def XOg_IMUL_def XOg_DIV_def XOg_IDIV_def XOg_INC_def XOg_DEC_def
  XOg_CALL_def XOg_CALLfar_def XOg_JMP_def XOg_JMPfar_def XOg_PUSH_def CC_O_def CC_NO_def
  CC_B_def CC_NB_def CC_E_def CC_NE_def CC_BE_def CC_NBE_def CC_S_def CC_NS_def CC_P_def
  CC_NP_def CC_L_def CC_NL_def CC_LE_def CC_NLE_def CC_C_def CC_NAE_def CC_NC_def CC_AE_def
  CC_Z_def CC_NZ_def CC_NA_def CC_A_def CC_PE_def CC_PO_def CC_NGE_def CC_GE_def CC_NG_def
  CC_G_def

end
