(* ===== verification/LJ_Emit_X86.thy ===== *)
theory LJ_Emit_X86
  imports LJ_X86
begin

text \<open>
  The instruction emitter of \<open>lj_emit_x86.h\<close>, x64 with 64 bit references. The environment has what the
  emitter reads and never changes: the address of the dispatch table and of the global state, the
  constants of the trace with their addresses, the bytes above the code area, the ABI, and
  \<open>MCLIM_REDZONE\<close>, which is defined outside the headers.
\<close>

section \<open>The assembler state\<close>

record asm_x86 =
  mc :: "8 word list"
  mctop :: "64 word"
  mcbase :: "64 word"
  bots :: "8 word list"
  mclim :: "64 word"
  mrm :: x86ModRM
  ir_ofs :: "16 word \<Rightarrow> 32 word"
  curins :: "16 word"
  stopins :: "16 word"

record env_x86 =
  abi_win :: bool
  disptab :: "64 word"
  glbase :: "64 word"
  kaddr :: "16 word \<Rightarrow> 64 word"
  kval64 :: "16 word \<Rightarrow> 64 word"
  above :: "nat \<Rightarrow> 8 word"
  redzone :: "64 word"

definition mcp_x86 :: "asm_x86 \<Rightarrow> 64 word" where "mcp_x86 st = mctop st - of_nat (length (mc st))"

definition mcbot :: "asm_x86 \<Rightarrow> 64 word" where "mcbot st = mcbase st + of_nat (length (bots st))"

definition at_mcp :: "env_x86 \<Rightarrow> asm_x86 \<Rightarrow> nat \<Rightarrow> 8 word" where
  "at_mcp E st k = (if k < length (mc st) then mc st ! k else above E (k - length (mc st)))"

definition le32 :: "32 word \<Rightarrow> 8 word list" where
  "le32 w = [ucast w, ucast (drop_bit 8 w), ucast (drop_bit 16 w), ucast (drop_bit 24 w)]"

definition le64 :: "64 word \<Rightarrow> 8 word list" where
  "le64 w = le32 (ucast w) @ le32 (ucast (drop_bit 32 w))"

section \<open>Basic instructions\<close>

definition MODRM :: "32 word \<Rightarrow> 32 word \<Rightarrow> 32 word \<Rightarrow> 8 word" where
  "MODRM mode r1 r2 = ucast (mode + push_bit 3 (r1 AND 7) + (r2 AND 7))"

definition REXRB :: "32 word \<Rightarrow> 32 word \<Rightarrow> 8 word list \<Rightarrow> 8 word list" where
  "REXRB rr rb p =
     (let rex = ucast (0x40 + (drop_bit 1 rr AND 4) + (drop_bit 3 rb AND 1)) in
      if rex \<noteq> 0x40 then rex # p else p)"

definition FORCE_REX :: "32 word" where "FORCE_REX = 0x200"

definition REX_64 :: "32 word" where "REX_64 = FORCE_REX OR 0x080000"

definition VEX_64 :: "32 word" where "VEX_64 = 0x800000"

definition REX_GC64 :: "32 word" where "REX_GC64 = REX_64"

definition put_bytes :: "8 word list \<Rightarrow> asm_x86 \<Rightarrow> asm_x86" where
  "put_bytes bs st = st\<lparr>mc := bs @ mc st\<rparr>"

definition emit_i8 :: "32 word \<Rightarrow> asm_x86 \<Rightarrow> asm_x86" where "emit_i8 i = put_bytes [ucast i]"

definition emit_i32 :: "32 word \<Rightarrow> asm_x86 \<Rightarrow> asm_x86" where "emit_i32 i = put_bytes (le32 i)"

definition emit_u32 :: "32 word \<Rightarrow> asm_x86 \<Rightarrow> asm_x86" where "emit_u32 u = put_bytes (le32 u)"

definition emit_x87op :: "32 word \<Rightarrow> asm_x86 \<Rightarrow> asm_x86" where
  "emit_x87op xo = put_bytes [ucast xo, ucast (drop_bit 8 xo)]"

text \<open>
  \<open>emit_op\<close> puts the opcode in front of the bytes \<open>p\<close> that start at the pointer plus \<open>delta\<close>. The
  code stores all four bytes of the opcode and moves back over its length only, so that the bytes below
  are overwritten by what comes next.
\<close>

definition emit_op :: "32 word \<Rightarrow> 32 word \<Rightarrow> 32 word \<Rightarrow> 32 word \<Rightarrow> 8 word list \<Rightarrow> 8 word list" where
  "emit_op xo rr rb rx p =
     (let n = sint (ucast xo :: 8 word) in
      if n = - 60
      then le32 (xo XOR push_bit 13 ((drop_bit 1 rr AND 4) + (drop_bit 2 rx AND 2) + (drop_bit 3 rb AND 1))) @ p
      else
        let ops = drop (nat (5 + n)) (le32 xo);
            rex = 0x40 + (drop_bit 1 rr AND (4 + drop_bit 1 FORCE_REX)) + (drop_bit 2 rx AND 2) + (drop_bit 3 rb AND 1) in
        if rex \<noteq> 0x40 then
          let rex = rex OR drop_bit 16 rr in
          if n = - 4 then ucast (drop_bit 8 xo) # ucast rex # tl ops @ p
          else if xo AND 0xffffff = 0x6600fd then 0x66 # ucast rex # tl ops @ p
          else ucast rex # ops @ p
        else ops @ p)"

definition emit_opm :: "32 word \<Rightarrow> 32 word \<Rightarrow> 32 word \<Rightarrow> 32 word \<Rightarrow> 8 word list \<Rightarrow> 8 word list" where
  "emit_opm xo mode rr rb p = emit_op xo rr rb 0 (MODRM mode rr rb # p)"

definition emit_opmx ::
  "32 word \<Rightarrow> 32 word \<Rightarrow> 32 word \<Rightarrow> 32 word \<Rightarrow> 32 word \<Rightarrow> 32 word \<Rightarrow> 8 word list \<Rightarrow> 8 word list" where
  "emit_opmx xo mode scale rr rb rx p =
     emit_op xo rr rb rx (MODRM mode rr RID_ESP # MODRM scale rx rb # p)"

definition emit_rr :: "32 word \<Rightarrow> 32 word \<Rightarrow> 32 word \<Rightarrow> asm_x86 \<Rightarrow> asm_x86" where
  "emit_rr xo r1 r2 st = st\<lparr>mc := emit_opm xo XM_REG r1 r2 (mc st)\<rparr>"

definition ptr2addr :: "64 word \<Rightarrow> 32 word" where "ptr2addr p = ucast p"

text \<open>The displacement of an operand and the mode that announces it, shared by the three emitters below.\<close>

definition ofs_mode :: "32 word \<Rightarrow> 32 word \<Rightarrow> 8 word list \<Rightarrow> 32 word \<times> 8 word list" where
  "ofs_mode rb ofs p =
     (if ofs = 0 \<and> rb AND 7 \<noteq> RID_EBP then (XM_OFS0, p)
      else if checki8 (sint ofs) then (XM_OFS8, ucast ofs # p)
      else (XM_OFS32, le32 ofs @ p))"

definition esp_sib :: "32 word \<Rightarrow> 8 word list \<Rightarrow> 8 word list" where
  "esp_sib rb p = (if rb AND 7 = RID_ESP then MODRM XM_SCALE1 RID_ESP RID_ESP # p else p)"

definition emit_rmro :: "32 word \<Rightarrow> 32 word \<Rightarrow> 32 word \<Rightarrow> 32 word \<Rightarrow> asm_x86 \<Rightarrow> asm_x86" where
  "emit_rmro xo rr rb ofs st =
     (if ra_hasreg rb
      then let (mode, p) = (if rb = RID_RIP then (XM_OFS0, le32 ofs @ mc st) else ofs_mode rb ofs (mc st)) in
           st\<lparr>mc := emit_opm xo mode rr rb (esp_sib rb p)\<rparr>
      else st\<lparr>mc := emit_opm xo XM_OFS0 rr RID_ESP (MODRM XM_SCALE1 RID_ESP RID_EBP # le32 ofs @ mc st)\<rparr>)"

definition emit_rmrxo ::
  "32 word \<Rightarrow> 32 word \<Rightarrow> 32 word \<Rightarrow> 32 word \<Rightarrow> 32 word \<Rightarrow> 32 word \<Rightarrow> asm_x86 \<Rightarrow> asm_x86" where
  "emit_rmrxo xo rr rb rx scale ofs st =
     (let (mode, p) = ofs_mode rb ofs (mc st) in st\<lparr>mc := emit_opmx xo mode scale rr rb rx p\<rparr>)"

definition emit_gri :: "32 word \<Rightarrow> 32 word \<Rightarrow> 32 word \<Rightarrow> asm_x86 \<Rightarrow> asm_x86" where
  "emit_gri xg rb i st =
     (let (xo, p) = (if checki8 (sint i) then (XG_TOXOi8 xg, ucast i # mc st) else (XG_TOXOi xg, le32 i @ mc st)) in
      st\<lparr>mc := emit_opm xo XM_REG ((xg AND 7) OR (rb AND REX_64)) rb p\<rparr>)"

definition emit_gmroi :: "32 word \<Rightarrow> 32 word \<Rightarrow> 32 word \<Rightarrow> 32 word \<Rightarrow> asm_x86 \<Rightarrow> asm_x86" where
  "emit_gmroi xg rb ofs i st =
     (let (xo, st) = (if checki8 (sint i) then (XG_TOXOi8 xg, emit_i8 i st) else (XG_TOXOi xg, emit_i32 i st)) in
      emit_rmro xo (xg AND 7) rb ofs st)"

definition emit_shifti :: "32 word \<Rightarrow> 32 word \<Rightarrow> 32 word \<Rightarrow> asm_x86 \<Rightarrow> asm_x86" where
  "emit_shifti xg r i st = emit_rr XO_SHIFTi xg r (emit_i8 i st)"

text \<open>The operand is a register, or the one the state describes when the register is \<open>RID_MRM\<close>.\<close>

definition emit_mrm :: "32 word \<Rightarrow> 32 word \<Rightarrow> 32 word \<Rightarrow> asm_x86 \<Rightarrow> asm_x86" where
  "emit_mrm xo rr rb st =
     (if rb \<noteq> RID_MRM then st\<lparr>mc := emit_opm xo XM_REG rr rb (mc st)\<rparr>
      else
        let base = ucast (mrm_base (mrm st)); idx = ucast (mrm_idx (mrm st));
            scale = ucast (mrm_scale (mrm st)); ofs = mrm_ofs (mrm st) in
        if base = RID_NONE then
          if idx \<noteq> RID_NONE then st\<lparr>mc := emit_opmx xo XM_OFS0 scale rr RID_EBP idx (le32 ofs @ mc st)\<rparr>
          else st\<lparr>mc := emit_opm xo XM_OFS0 rr RID_ESP (MODRM XM_SCALE1 RID_ESP RID_EBP # le32 ofs @ mc st)\<rparr>
        else if base = RID_RIP then st\<lparr>mc := emit_opm xo XM_OFS0 rr base (le32 ofs @ mc st)\<rparr>
        else
          let (mode, p) = ofs_mode base ofs (mc st) in
          if idx \<noteq> RID_NONE then st\<lparr>mc := emit_opmx xo mode scale rr base idx p\<rparr>
          else st\<lparr>mc := emit_opm xo mode rr base (esp_sib base p)\<rparr>)"

definition emit_gmrmi :: "32 word \<Rightarrow> 32 word \<Rightarrow> 32 word \<Rightarrow> asm_x86 \<Rightarrow> asm_x86" where
  "emit_gmrmi xg rb i st =
     (let (xo, st) = (if checki8 (sint i) then (XG_TOXOi8 xg, emit_i8 i st) else (XG_TOXOi xg, emit_i32 i st)) in
      emit_mrm xo ((xg AND 7) OR (rb AND REX_64)) (rb AND NOT REX_64) st)"

section \<open>Loads and stores\<close>

definition emit_movmroi :: "32 word \<Rightarrow> 32 word \<Rightarrow> 32 word \<Rightarrow> asm_x86 \<Rightarrow> asm_x86" where
  "emit_movmroi base ofs i st = emit_rmro XO_MOVmi 0 base ofs (emit_i32 i st)"

definition emit_movtomro :: "32 word \<Rightarrow> 32 word \<Rightarrow> 32 word \<Rightarrow> asm_x86 \<Rightarrow> asm_x86" where
  "emit_movtomro r base ofs = emit_rmro XO_MOVto r base ofs"

text \<open>Zero is loaded with an exclusive or, except in front of a conditional jump, which needs the flags.\<close>

definition emit_loadi_x86 :: "env_x86 \<Rightarrow> 32 word \<Rightarrow> 32 word \<Rightarrow> asm_x86 \<Rightarrow> asm_x86" where
  "emit_loadi_x86 E r i st =
     (if i = 0 \<and> \<not> ((at_mcp E st 0 = 0x0f \<and> ucast (at_mcp E st 1) AND 0xf0 = XI_JCCn) \<or>
                    ucast (at_mcp E st 0) AND 0xf0 = XI_JCCs)
      then emit_rr (XO_ARITH XOg_XOR) r r st
      else st\<lparr>mc := REXRB 0 r (ucast (XI_MOVri + (r AND 7)) # le32 i @ mc st)\<rparr>)"

definition dispofs :: "env_x86 \<Rightarrow> 64 word \<Rightarrow> 64 word" where "dispofs E k = k - disptab E"

definition mcpofs_x86 :: "asm_x86 \<Rightarrow> 64 word \<Rightarrow> 64 word" where "mcpofs_x86 st k = k - mcp_x86 st"

definition mctopofs :: "asm_x86 \<Rightarrow> 64 word \<Rightarrow> 64 word" where "mctopofs st k = k - mctop st"

definition full_load :: "32 word \<Rightarrow> 64 word \<Rightarrow> asm_x86 \<Rightarrow> asm_x86" where
  "full_load r u64 =
     put_bytes (ucast (0x48 + (drop_bit 3 r AND 1)) # ucast (XI_MOVri + (r AND 7)) # le64 u64)"

definition emit_loadu64_x86 :: "env_x86 \<Rightarrow> 32 word \<Rightarrow> 64 word \<Rightarrow> asm_x86 \<Rightarrow> asm_x86" where
  "emit_loadu64_x86 E r u64 st =
     (if checku32 (uint u64) then emit_loadi_x86 E r (ucast u64) st
      else if checki32 (sint u64) then st\<lparr>mc := emit_opm XO_MOVmi XM_REG REX_64 r (le32 (ucast u64) @ mc st)\<rparr>
      else if checki32 (sint (dispofs E u64)) then
        emit_rmro XO_LEA (r OR REX_64) (of_nat (RID_DISPATCH (abi_win E))) (ucast (dispofs E u64)) st
      else if checki32 (sint (mcpofs_x86 st u64)) \<and> checki32 (sint (mctopofs st u64)) then
        emit_rmro XO_LEA (r OR REX_64) RID_RIP (ucast (mcpofs_x86 st u64)) st
      else full_load r u64 st)"

definition emit_loada_x86 :: "env_x86 \<Rightarrow> 32 word \<Rightarrow> 64 word \<Rightarrow> asm_x86 \<Rightarrow> asm_x86" where
  "emit_loada_x86 E r addr = emit_loadu64_x86 E r addr"

text \<open>
  An operand at an address. When no displacement reaches it, the destination of a move holds the
  address first; another instruction borrows the dispatch register and loads it again. The byte
  operand of \<open>XO_GROUP3b\<close> is taken off the code and put back behind that load.
\<close>

definition reload_dispatch :: "env_x86 \<Rightarrow> asm_x86 \<Rightarrow> asm_x86" where
  "reload_dispatch E st =
     (if checku32 (uint (disptab E))
      then emit_loadi_x86 E (of_nat (RID_DISPATCH (abi_win E))) (ucast (disptab E)) st
      else full_load (of_nat (RID_DISPATCH (abi_win E))) (disptab E) st)"

definition emit_rma :: "env_x86 \<Rightarrow> 32 word \<Rightarrow> 32 word \<Rightarrow> 64 word \<Rightarrow> asm_x86 \<Rightarrow> asm_x86" where
  "emit_rma E xo rr addr st =
     (if checki32 (sint (dispofs E addr)) then
        emit_rmro xo rr (of_nat (RID_DISPATCH (abi_win E))) (ucast (dispofs E addr)) st
      else if checki32 (sint (mcpofs_x86 st addr)) \<and> checki32 (sint (mctopofs st addr)) then
        emit_rmro xo rr RID_RIP (ucast (mcpofs_x86 st addr)) st
      else if \<not> checki32 (sint addr) then
        (let (ra, st) =
           (if xo \<noteq> XO_MOV then
              let i8 = at_mcp E st 0;
                  st = (if xo = XO_GROUP3b then st\<lparr>mc := tl (mc st)\<rparr> else st);
                  st = reload_dispatch E st in
              (of_nat (RID_DISPATCH (abi_win E)), if xo = XO_GROUP3b then put_bytes [i8] st else st)
            else (rr AND 15, st)) in
         emit_loadu64_x86 E ra addr (emit_rmro xo rr ra 0 st))
      else st\<lparr>mc := emit_opm xo XM_OFS0 rr RID_ESP (MODRM XM_SCALE1 RID_ESP RID_EBP # le32 (ptr2addr addr) @ mc st)\<rparr>)"

text \<open>\<open>ofs\<close> is the offset of the field in the global state.\<close>

definition emit_opgl :: "env_x86 \<Rightarrow> 32 word \<Rightarrow> 32 word \<Rightarrow> 64 word \<Rightarrow> asm_x86 \<Rightarrow> asm_x86" where
  "emit_opgl E xo r ofs = emit_rma E xo r (glbase E + ofs)"

definition emit_getgl_x86 :: "env_x86 \<Rightarrow> 32 word \<Rightarrow> 64 word \<Rightarrow> asm_x86 \<Rightarrow> asm_x86" where
  "emit_getgl_x86 E r ofs = emit_opgl E XO_MOV (r OR REX_GC64) ofs"

definition emit_setgl_x86 :: "env_x86 \<Rightarrow> 32 word \<Rightarrow> 64 word \<Rightarrow> asm_x86 \<Rightarrow> asm_x86" where
  "emit_setgl_x86 E r ofs = emit_opgl E XO_MOVto (r OR REX_GC64) ofs"

definition emit_setvmstate_x86 :: "env_x86 \<Rightarrow> 64 word \<Rightarrow> 32 word \<Rightarrow> asm_x86 \<Rightarrow> asm_x86" where
  "emit_setvmstate_x86 E vmstate i st = emit_opgl E XO_MOVmi 0 vmstate (emit_i32 i st)"

text \<open>A constant that cannot be reached is added at the bottom of the code area, on an 8 byte boundary.\<close>

fun pad_bot :: "nat \<Rightarrow> asm_x86 \<Rightarrow> asm_x86" where
  "pad_bot 0 st = st"
| "pad_bot (Suc n) st =
     (if mcbot st AND 7 \<noteq> 0 then pad_bot n (st\<lparr>bots := bots st @ [ucast XI_INT3]\<rparr>) else st)"

definition add_k64 :: "env_x86 \<Rightarrow> 16 word \<Rightarrow> asm_x86 \<Rightarrow> asm_x86" where
  "add_k64 E ref st =
     (let st = pad_bot 8 st;
          st' = st\<lparr>bots := bots st @ le64 (kval64 E ref),
                  ir_ofs := (ir_ofs st)(ref := ucast (mctop st - mcbot st))\<rparr> in
      st'\<lparr>mclim := mcbot st' + redzone E\<rparr>)"

definition emit_loadk64_x86 :: "env_x86 \<Rightarrow> 32 word \<Rightarrow> 16 word \<Rightarrow> asm_x86 \<Rightarrow> asm_x86" where
  "emit_loadk64_x86 E r ref st =
     (let k = kaddr E ref; v = kval64 E ref; fpr = rset_test RSET_FPR_x86 (unat r);
          r64 = (if fpr then r else r OR REX_64); xo = (if fpr then XO_MOVSD else XO_MOV) in
      if v = 0 then emit_rr (if fpr then XO_XORPS else XO_ARITH XOg_XOR) r r st
      else if checki32 (sint k) \<or> checki32 (sint (dispofs E k)) \<or>
              (checki32 (sint (mcpofs_x86 st k)) \<and> checki32 (sint (mctopofs st k)))
      then emit_rma E xo r64 k st
      else if ir_ofs st ref = 0 \<and> curins st \<le> stopins st \<and> rset_test (RSET_GPR_x86 (abi_win E)) (unat r)
      then emit_loadu64_x86 E r v st
      else
        let st = (if ir_ofs st ref \<noteq> 0 then st else add_k64 E ref st) in
        emit_rmro xo r64 RID_RIP (ucast (mcpofs_x86 st (mctop st - scast (ir_ofs st ref)))) st)"

section \<open>Control flow\<close>

definition emit_sjcc :: "32 word \<Rightarrow> 64 word \<Rightarrow> asm_x86 \<Rightarrow> asm_x86" where
  "emit_sjcc cc target st = put_bytes [ucast (XI_JCCs + (cc AND 15)), ucast (target - mcp_x86 st)] st"

text \<open>A short jump whose target is filled in later; the label is the address behind the jump.\<close>

definition emit_sjcc_label :: "32 word \<Rightarrow> asm_x86 \<Rightarrow> 64 word \<times> asm_x86" where
  "emit_sjcc_label cc st = (mcp_x86 st, put_bytes [ucast (XI_JCCs + (cc AND 15)), 0] st)"

definition emit_sfixup :: "64 word \<Rightarrow> asm_x86 \<Rightarrow> asm_x86" where
  "emit_sfixup source st = st\<lparr>mc := (mc st)[unat (source - 1 - mcp_x86 st) := ucast (mcp_x86 st - source)]\<rparr>"

definition emit_label_x86 :: "asm_x86 \<Rightarrow> 64 word" where "emit_label_x86 st = mcp_x86 st"

definition jmprel :: "64 word \<Rightarrow> 64 word \<Rightarrow> 32 word" where "jmprel p target = ucast (target - p)"

definition emit_jcc :: "32 word \<Rightarrow> 64 word \<Rightarrow> asm_x86 \<Rightarrow> asm_x86" where
  "emit_jcc cc target st =
     put_bytes (0x0f # ucast (XI_JCCn + (cc AND 15)) # le32 (jmprel (mcp_x86 st) target)) st"

definition emit_jmp_x86 :: "64 word \<Rightarrow> asm_x86 \<Rightarrow> asm_x86" where
  "emit_jmp_x86 target st = put_bytes (ucast XI_JMP # le32 (jmprel (mcp_x86 st) target)) st"

definition emit_call_x86 :: "env_x86 \<Rightarrow> 64 word \<Rightarrow> asm_x86 \<Rightarrow> asm_x86" where
  "emit_call_x86 E target st =
     (if \<not> checki32 (sint (target - mcp_x86 st))
      then emit_loadu64_x86 E RID_RET_x86 target (emit_rr XO_GROUP5 XOg_CALL RID_RET_x86 st)
      else put_bytes (ucast XI_CALL # le32 (jmprel (mcp_x86 st) target)) st)"

section \<open>Generic operations\<close>

definition REX_64IR :: "bool \<Rightarrow> 32 word \<Rightarrow> 32 word" where
  "REX_64IR is64 r = r + (if is64 then REX_64 else 0)"

definition VEX_64IR :: "bool \<Rightarrow> 32 word \<Rightarrow> 32 word" where
  "VEX_64IR is64 r = r + (if is64 then VEX_64 else 0)"

definition emit_movrr_x86 :: "bool \<Rightarrow> 32 word \<Rightarrow> 32 word \<Rightarrow> asm_x86 \<Rightarrow> asm_x86" where
  "emit_movrr_x86 is64 dst src =
     (if dst < of_nat RID_MAX_GPR_x86 then emit_rr XO_MOV (REX_64IR is64 dst) src
      else emit_rr XO_MOVAPS dst src)"

definition emit_loadofs_x86 :: "bool \<Rightarrow> bool \<Rightarrow> 32 word \<Rightarrow> 32 word \<Rightarrow> 32 word \<Rightarrow> asm_x86 \<Rightarrow> asm_x86" where
  "emit_loadofs_x86 is64 isnum r base ofs =
     (if r < of_nat RID_MAX_GPR_x86 then emit_rmro XO_MOV (REX_64IR is64 r) base ofs
      else emit_rmro (if isnum then XO_MOVSD else XO_MOVSS) r base ofs)"

definition emit_storeofs_x86 :: "bool \<Rightarrow> bool \<Rightarrow> 32 word \<Rightarrow> 32 word \<Rightarrow> 32 word \<Rightarrow> asm_x86 \<Rightarrow> asm_x86" where
  "emit_storeofs_x86 is64 isnum r base ofs =
     (if r < of_nat RID_MAX_GPR_x86 then emit_rmro XO_MOVto (REX_64IR is64 r) base ofs
      else emit_rmro (if isnum then XO_MOVSDto else XO_MOVSSto) r base ofs)"

definition emit_addptr_x86 :: "32 word \<Rightarrow> 32 word \<Rightarrow> asm_x86 \<Rightarrow> asm_x86" where
  "emit_addptr_x86 r ofs st = (if ofs \<noteq> 0 then emit_gri (XG_ARITHi XOg_ADD) (r OR REX_GC64) ofs st else st)"

definition emit_spsub_x86 :: "32 word \<Rightarrow> asm_x86 \<Rightarrow> asm_x86" where
  "emit_spsub_x86 ofs = emit_addptr_x86 (RID_ESP OR REX_64) (- ofs)"

definition emit_canremat_x86 :: "16 word \<Rightarrow> bool" where "emit_canremat_x86 ref \<longleftrightarrow> ref \<le> 0x8000"

end
