(* ===== verification/LJ_X86_Decode.thy ===== *)
theory LJ_X86_Decode
  imports LJ_Emit_X86
begin

text \<open>
  What an x64 processor reads from the bytes \<open>LJ_Emit_X86\<close> emits: prefixes, opcode, ModRM and SIB
  bytes and displacements.
\<close>

section \<open>Decoding\<close>

text \<open>An operand is a register, a sum of base, scaled index and displacement, or relative to the next instruction.\<close>

datatype operand = Reg nat | Mem "nat option" "(nat \<times> nat) option" "64 word" | Rip "64 word"

fun un_le32 :: "8 word list \<Rightarrow> 32 word" where
  "un_le32 (a # b # c # d # _) = ucast a OR push_bit 8 (ucast b) OR push_bit 16 (ucast c) OR push_bit 24 (ucast d)"
| "un_le32 _ = 0"

definition take_pfx :: "8 word list \<Rightarrow> 8 word option \<times> 8 word list" where
  "take_pfx bs = (case bs of b # bs' \<Rightarrow> if b \<in> {0x66, 0xf2, 0xf3} then (Some b, bs') else (None, bs) | [] \<Rightarrow> (None, []))"

definition take_rex :: "8 word list \<Rightarrow> 8 word \<times> 8 word list" where
  "take_rex bs = (case bs of b # bs' \<Rightarrow> if drop_bit 4 b = 4 then (b AND 15, bs') else (0, bs) | [] \<Rightarrow> (0, []))"

definition take_op :: "8 word list \<Rightarrow> 8 word list \<times> 8 word list" where
  "take_op bs = (if take 1 bs = [0x0f] then (take 2 bs, drop 2 bs) else (take 1 bs, drop 1 bs))"

definition take_head :: "8 word list \<Rightarrow> (8 word option \<times> 8 word list) \<times> 8 word \<times> 8 word list" where
  "take_head bs = (let (pfx, bs) = take_pfx bs; (rex, bs) = take_rex bs; (opc, bs) = take_op bs in ((pfx, opc), rex, bs))"

definition take_disp :: "8 word \<Rightarrow> 8 word list \<Rightarrow> (64 word \<times> 8 word list) option" where
  "take_disp md bs =
     (if md = 0 then Some (0, bs)
      else if md = 1 then (case bs of b # bs' \<Rightarrow> Some (scast b, bs') | [] \<Rightarrow> None)
      else if length bs < 4 then None else Some (scast (un_le32 bs), drop 4 bs))"

definition ext :: "8 word \<Rightarrow> nat \<Rightarrow> 8 word \<Rightarrow> nat" where
  "ext rex n r = unat (r AND 7) + (if bit rex n then 8 else 0)"

definition take_sib :: "8 word \<Rightarrow> 8 word \<Rightarrow> 8 word list \<Rightarrow> (operand \<times> 8 word list) option" where
  "take_sib rex md bs =
     (case bs of [] \<Rightarrow> None
      | s # bs' \<Rightarrow>
          let idx = ext rex 1 (drop_bit 3 s);
              index = (if idx = 4 then None else Some (idx, 2 ^ unat (drop_bit 6 s)));
              nobase = (s AND 7 = 5 \<and> md = 0) in
          map_option (apfst (Mem (if nobase then None else Some (ext rex 0 s)) index))
            (take_disp (if nobase then 2 else md) bs'))"

definition take_modrm :: "8 word \<Rightarrow> 8 word list \<Rightarrow> (nat \<times> operand \<times> 8 word list) option" where
  "take_modrm rex bs =
     (case bs of [] \<Rightarrow> None
      | m # bs' \<Rightarrow>
          let md = drop_bit 6 m; reg = ext rex 2 (drop_bit 3 m) in
          map_option (Pair reg)
            (if md = 3 then Some (Reg (ext rex 0 m), bs')
             else if m AND 7 = 4 then take_sib rex md bs'
             else if m AND 7 = 5 \<and> md = 0 then map_option (apfst Rip) (take_disp 2 bs')
             else map_option (apfst (Mem (Some (ext rex 0 m)) None)) (take_disp md bs')))"

text \<open>Mandatory prefix and opcode, operand size, register and operand of an instruction, and the bytes behind.\<close>

definition decode :: "8 word list \<Rightarrow> ((8 word option \<times> 8 word list) \<times> bool \<times> nat \<times> operand \<times> 8 word list) option" where
  "decode bs = (let (opc, rex, bs) = take_head bs in
     map_option (\<lambda>(reg, opnd, bs). (opc, bit rex 3, reg, opnd, bs)) (take_modrm rex bs))"

section \<open>Opcodes and prefixes\<close>

definition op_len :: "32 word \<Rightarrow> int" where "op_len xo = sint (ucast xo :: 8 word)"

definition op_code :: "32 word \<Rightarrow> 8 word option \<times> 8 word list" where
  "op_code xo =
     (let b1 = ucast (drop_bit 8 xo); b2 = ucast (drop_bit 16 xo); b3 = ucast (drop_bit 24 xo) in
      if op_len xo = - 2 then (None, [b3])
      else if op_len xo = - 3 then if xo AND 0xffffff = 0x6600fd then (Some 0x66, [b3]) else (None, [b2, b3])
      else (Some b1, [b2, b3]))"

definition plain_op :: "8 word \<Rightarrow> bool" where
  "plain_op b \<longleftrightarrow> b \<notin> {0x0f, 0x66, 0xf2, 0xf3} \<and> drop_bit 4 b \<noteq> 4"

definition op_ok :: "32 word \<Rightarrow> bool" where
  "op_ok xo =
     (let b1 = ucast (drop_bit 8 xo) :: 8 word; b2 = ucast (drop_bit 16 xo) :: 8 word;
         b3 = ucast (drop_bit 24 xo) :: 8 word in
      op_len xo = - 2 \<and> plain_op b3 \<or>
      op_len xo = - 3 \<and> (if xo AND 0xffffff = 0x6600fd then plain_op b3 else b2 = 0x0f) \<or>
      op_len xo = - 4 \<and> b1 \<in> {0x66, 0xf2, 0xf3} \<and> b2 = 0x0f)"

definition var_ops :: "32 word list" where
  "var_ops =
    [XO_OR, XO_MOV, XO_MOVto, XO_MOVtow, XO_MOVtob, XO_MOVmi, XO_MOVmib, XO_LEA, XO_ARITHib, XO_ARITHi,
     XO_ARITHi8, XO_ARITHiw8, XO_SHIFTi, XO_SHIFT1, XO_SHIFTcl, XO_IMUL, XO_IMULi, XO_IMULi8, XO_CMP,
     XO_TESTb, XO_TEST, XO_GROUP3b, XO_GROUP3, XO_GROUP5b, XO_GROUP5, XO_MOVZXb, XO_MOVZXw, XO_MOVSXb,
     XO_MOVSXw, XO_MOVSXd, XO_CMOV, XO_MOVSD, XO_MOVSDto, XO_MOVSS, XO_MOVSSto, XO_MOVLPD,
     XO_MOVAPS, XO_XORPS, XO_ANDPS, XO_ADDSD, XO_SUBSD, XO_MULSD, XO_DIVSD, XO_SQRTSD, XO_MINSD, XO_MAXSD,
     XO_UCOMISD, XO_CVTSI2SD, XO_CVTTSD2SI, XO_CVTSI2SS, XO_CVTTSS2SI, XO_CVTSS2SD, XO_CVTSD2SS, XO_ADDSS,
     XO_MOVD, XO_MOVDto, XO_FLDd, XO_FLDq, XO_FILDd, XO_FILDq, XO_FSTPd, XO_FSTPq, XO_FISTPq, XO_FISTTPq,
     XO_FADDq, XO_FLDCW, XO_FNSTCW]"

lemma var_ops_ok: "list_all op_ok var_ops"
  by (simp add: var_ops_def op_ok_def op_len_def plain_op_def x86_ops xo_macros Let_def)

lemma arith_ok: "a < 8 \<Longrightarrow> op_ok (XO_ARITH (of_nat a)) \<and> op_code (XO_ARITH (of_nat a)) = (None, [of_nat (8 * a + 3)])"
proof -
  assume "a < 8"
  then have "a \<in> set [0..<8]" by simp
  then show ?thesis
    by (simp add: upt_rec) (elim disjE; simp add: op_ok_def op_code_def op_len_def plain_op_def XO_ARITH_def Let_def)
qed

lemma bit_and_pow:
  "(x :: 32 word) AND 1 = (if bit x 0 then 1 else 0)" "x AND 2 = (if bit x 1 then 2 else 0)"
  "x AND 4 = (if bit x 2 then 4 else 0)" "x AND 8 = (if bit x 3 then 8 else 0)" "x AND 0x100 = (if bit x 8 then 0x100 else 0)"
proof -
  have "x AND push_bit k 1 = (if bit x k then push_bit k 1 else 0)" for k
    by (intro bit_word_eqI) (auto simp: bit_simps)
  from this [of 0] this [of 1] this [of 2] this [of 3] this [of 8] show
    "x AND 1 = (if bit x 0 then 1 else 0)" "x AND 2 = (if bit x 1 then 2 else 0)"
    "x AND 4 = (if bit x 2 then 4 else 0)" "x AND 8 = (if bit x 3 then 8 else 0)" "x AND 0x100 = (if bit x 8 then 0x100 else 0)"
    by simp_all
qed

text \<open>A register operand may carry \<open>FORCE_REX\<close> or \<open>REX_64\<close>, and no other bits.\<close>

definition reg_ok :: "32 word \<Rightarrow> bool" where
  "reg_ok rr \<longleftrightarrow> rr AND NOT (0x1f OR REX_64) = 0 \<and> (bit rr 19 \<longrightarrow> bit rr 9)"

definition rex_of :: "32 word \<Rightarrow> 32 word \<Rightarrow> 32 word \<Rightarrow> 8 word" where
  "rex_of rr rx rb = (if bit rr 19 then 8 else 0) + (if bit rr 3 then 4 else 0) +
     (if bit rx 3 then 2 else 0) + (if bit rb 3 then 1 else 0)"

lemma rex_of_bits:
  "bit (rex_of rr rx rb) 0 = bit rb 3" "bit (rex_of rr rx rb) (Suc 0) = bit rx 3" "bit (rex_of rr rx rb) 2 = bit rr 3"
  "bit (rex_of rr rx rb) 3 = bit rr 19"
  by (simp_all add: rex_of_def)

lemma bit_REX_64: "bit REX_64 k \<longleftrightarrow> k = 9 \<or> k = 19"
proof -
  have r: "REX_64 = push_bit 9 1 OR push_bit 19 1" by (simp add: REX_64_def FORCE_REX_def)
  show ?thesis unfolding r by (auto simp: bit_simps simp del: push_bit_of_1)
qed

lemma reg_ok_high: "reg_ok rr \<Longrightarrow> drop_bit 16 rr = (if bit rr 19 then 8 else 0)"
proof (rule bit_word_eqI)
  fix k assume a: "reg_ok rr" "k < LENGTH(32)"
  have "bit (rr AND NOT (mask 5 OR REX_64)) (16 + k) = False" using a(1) by (simp add: reg_ok_def mask_eq_exp_minus_1)
  then have "k \<noteq> 3 \<Longrightarrow> \<not> bit rr (16 + k)"
    by (auto simp: bit_simps bit_REX_64 dest: bit_imp_le_length)
  moreover have "bit (8 :: 32 word) k = bit (push_bit 3 (1 :: 32 word)) k" by simp
  ultimately show "bit (drop_bit 16 rr) k = bit (if bit rr 19 then 8 else 0 :: 32 word) k"
    by (cases "k = 3") (auto simp: bit_simps simp del: push_bit_of_1)
qed

lemma emit_op_rex:
  fixes rx rb :: "32 word"
  assumes "reg_ok rr"
  defines "q \<equiv> 0x40 + (drop_bit 1 rr AND (4 + drop_bit 1 FORCE_REX)) + (drop_bit 2 rx AND 2) + (drop_bit 3 rb AND 1)"
  shows "q = 0x40 \<longleftrightarrow> rex_of rr rx rb = 0 \<and> \<not> bit rr 9"
    "drop_bit 4 (ucast (q OR drop_bit 16 rr) :: 8 word) = 4"
    "(ucast (q OR drop_bit 16 rr) :: 8 word) AND 15 = rex_of rr rx rb"
proof -
  have d: "drop_bit 1 rr AND (4 + drop_bit 1 FORCE_REX) = (if bit rr 3 then 4 else 0) + (if bit rr 9 then 0x100 else 0)"
  proof -
    have e: "4 + drop_bit 1 FORCE_REX = 4 OR 0x100" by (simp add: FORCE_REX_def)
    show ?thesis unfolding e bit.conj_disj_distrib bit_and_pow by (simp add: bit_drop_bit_eq eval_nat_numeral)
  qed
  have b: "drop_bit 2 rx AND 2 = (if bit rx 3 then 2 else 0)" "drop_bit 3 rb AND 1 = (if bit rb 3 then 1 else 0)"
    by (simp_all add: bit_and_pow bit_drop_bit_eq)
  have w: "bit rr 19 \<Longrightarrow> bit rr 9" using assms(1) by (simp add: reg_ok_def)
  show "q = 0x40 \<longleftrightarrow> rex_of rr rx rb = 0 \<and> \<not> bit rr 9"
    "drop_bit 4 (ucast (q OR drop_bit 16 rr) :: 8 word) = 4"
    "(ucast (q OR drop_bit 16 rr) :: 8 word) AND 15 = rex_of rr rx rb"
    unfolding q_def d b reg_ok_high [OF assms(1)] rex_of_def using w
    by (cases "bit rr 3"; cases "bit rr 9"; cases "bit rr 19"; cases "bit rx 3"; cases "bit rb 3"; simp)+
qed

lemma take_rex_plain: "plain_op b \<Longrightarrow> take_rex (b # p) = (0, b # p)" "take_rex (0x0f # p) = (0, 0x0f # p)"
  by (simp_all add: take_rex_def plain_op_def)

lemma take_rex_yes: "drop_bit 4 b = 4 \<Longrightarrow> take_rex (b # p) = (b AND 15, p)"
  by (simp add: take_rex_def)

lemma take_op_simps: "plain_op b \<Longrightarrow> take_op (b # p) = ([b], p)" "take_op (0x0f # b # p) = ([0x0f, b], p)"
  by (simp_all add: take_op_def plain_op_def)

lemma rex_not_pfx: "drop_bit 4 (b :: 8 word) = 4 \<Longrightarrow> b \<noteq> 0x66 \<and> b \<noteq> 0xf2 \<and> b \<noteq> 0xf3"
  by auto

lemma low24:
  assumes "xo AND 0xffffff = 0x6600fd"
  shows "op_len xo = - 3" "(ucast (drop_bit 16 xo) :: 8 word) = 0x66"
proof -
  have m: "0xffffff = (mask 24 :: 32 word)" by (simp add: mask_eq_exp_minus_1)
  have "(ucast xo :: 8 word) = ucast (xo AND 0xffffff)" unfolding m by (rule bit_word_eqI) (auto simp: bit_simps)
  then show "op_len xo = - 3" unfolding assms by (simp add: op_len_def)
  have "(ucast (drop_bit 16 xo) :: 8 word) = ucast (drop_bit 16 (xo AND 0xffffff))"
    unfolding m by (rule bit_word_eqI) (auto simp: bit_simps)
  then show "(ucast (drop_bit 16 xo) :: 8 word) = 0x66" unfolding assms by simp
qed

lemma emit_op_shape:
  assumes "op_ok xo" "reg_ok rr"
  obtains rexb where "emit_op xo rr rb rx p = (case fst (op_code xo) of Some b \<Rightarrow> [b] | None \<Rightarrow> []) @ rexb @ snd (op_code xo) @ p"
    "rexb = [] \<and> rex_of rr rx rb = 0 \<or> (\<exists>b. rexb = [b] \<and> drop_bit 4 b = 4 \<and> b AND 15 = rex_of rr rx rb)"
proof -
  define b1 b2 b3 where b: "b1 = (ucast (drop_bit 8 xo) :: 8 word)" "b2 = (ucast (drop_bit 16 xo) :: 8 word)"
    "b3 = (ucast (drop_bit 24 xo) :: 8 word)"
  define q where q: "q = 0x40 + (drop_bit 1 rr AND (4 + drop_bit 1 FORCE_REX)) + (drop_bit 2 rx AND 2) + (drop_bit 3 rb AND 1)"
  define rexb where r: "rexb = (if q \<noteq> 0x40 then [ucast (q OR drop_bit 16 rr) :: 8 word] else [])"
  note rex = emit_op_rex [OF assms(2), of rx rb, folded q]
  have e: "emit_op xo rr rb rx p =
    (let ops = drop (nat (5 + op_len xo)) [ucast xo, b1, b2, b3] in
     if q \<noteq> 0x40 then
       if op_len xo = - 4 then b1 # ucast (q OR drop_bit 16 rr) # tl ops @ p
       else if xo AND 0xffffff = 0x6600fd then 0x66 # ucast (q OR drop_bit 16 rr) # tl ops @ p
       else ucast (q OR drop_bit 16 rr) # ops @ p
     else ops @ p)"
    if "op_len xo \<noteq> - 60"
    using that by (simp add: emit_op_def op_len_def Let_def le32_def b q)
  consider (one) "op_len xo = - 2" "plain_op b3" "xo AND 0xffffff \<noteq> 0x6600fd"
    | (w) "op_len xo = - 3" "xo AND 0xffffff = 0x6600fd" "plain_op b3" "b2 = 0x66"
    | (two) "op_len xo = - 3" "xo AND 0xffffff \<noteq> 0x6600fd" "b2 = 0x0f"
    | (three) "op_len xo = - 4" "b1 \<in> {0x66, 0xf2, 0xf3}" "b2 = 0x0f" "xo AND 0xffffff \<noteq> 0x6600fd"
    using assms(1) low24 [of xo] unfolding op_ok_def Let_def b [symmetric] by (auto split: if_splits)
  then have "emit_op xo rr rb rx p = (case fst (op_code xo) of Some b \<Rightarrow> [b] | None \<Rightarrow> []) @ rexb @ snd (op_code xo) @ p"
    by cases (simp_all add: e op_code_def b [symmetric] r Let_def)
  moreover have "rexb = [] \<and> rex_of rr rx rb = 0 \<or> (\<exists>b. rexb = [b] \<and> drop_bit 4 b = 4 \<and> b AND 15 = rex_of rr rx rb)"
    using rex by (auto simp: r)
  ultimately show ?thesis by (rule that)
qed

text \<open>An opcode is one byte or follows \<open>0x0f\<close>.\<close>

lemma op_code_cases:
  assumes "op_ok xo"
  obtains b where "snd (op_code xo) = [b]" "plain_op b" "fst (op_code xo) \<in> {None, Some 0x66}"
  | b where "snd (op_code xo) = [0x0f, b]" "fst (op_code xo) \<in> {None, Some 0x66, Some 0xf2, Some 0xf3}"
  using assms by (auto simp: op_ok_def op_code_def Let_def split: if_splits)

lemma take_head_emit_op:
  assumes "op_ok xo" "reg_ok rr"
  shows "take_head (emit_op xo rr rb rx p) = (op_code xo, rex_of rr rx rb, p)"
proof -
  obtain rexb where e: "emit_op xo rr rb rx p = (case fst (op_code xo) of Some b \<Rightarrow> [b] | None \<Rightarrow> []) @ rexb @ snd (op_code xo) @ p"
    and r: "rexb = [] \<and> rex_of rr rx rb = 0 \<or> (\<exists>b. rexb = [b] \<and> drop_bit 4 b = 4 \<and> b AND 15 = rex_of rr rx rb)"
    using emit_op_shape [OF assms] by metis
  obtain pfx opc where oc: "op_code xo = (pfx, opc)" by fastforce
  show ?thesis
    using op_code_cases [OF assms(1)] r unfolding e oc
    by cases (auto simp: take_head_def take_pfx_def take_rex_plain take_rex_yes take_op_simps rex_not_pfx plain_op_def)
qed

section \<open>Operands\<close>

definition regno :: "32 word \<Rightarrow> nat" where "regno r = unat (r AND 15)"

definition modes :: "32 word set" where "modes = {0, 0x40, 0x80, 0xc0}"

lemma MODRM_or:
  assumes "mode \<in> modes"
  shows "MODRM mode r1 r2 = ucast (mode OR push_bit 3 (r1 AND 7) OR (r2 AND 7))"
    "bit mode k \<Longrightarrow> k = 6 \<or> k = 7"
proof -
  have m7: "7 = (mask 3 :: 32 word)" by (simp add: mask_eq_exp_minus_1)
  have "mode = 0 \<or> mode = push_bit 6 1 \<or> mode = push_bit 7 1 \<or> mode = push_bit 6 1 OR push_bit 7 1"
    using assms by (auto simp: modes_def)
  then have m: "bit mode k \<Longrightarrow> k = 6 \<or> k = 7" for k
    by (elim disjE) (auto simp: bit_simps simp del: push_bit_of_1)
  then show "bit mode k \<Longrightarrow> k = 6 \<or> k = 7" by blast
  have "mode + push_bit 3 (r1 AND 7) = mode OR push_bit 3 (r1 AND 7)"
    unfolding m7 by (rule disjunctive_add) (use m in \<open>fastforce simp: bit_simps\<close>)
  moreover have "(mode OR push_bit 3 (r1 AND 7)) + (r2 AND 7) = (mode OR push_bit 3 (r1 AND 7)) OR (r2 AND 7)"
    unfolding m7 by (rule disjunctive_add) (use m in \<open>fastforce simp: bit_simps\<close>)
  ultimately show "MODRM mode r1 r2 = ucast (mode OR push_bit 3 (r1 AND 7) OR (r2 AND 7))"
    by (simp add: MODRM_def or.assoc)
qed

lemma MODRM_fields:
  assumes "mode \<in> modes"
  shows "drop_bit 6 (MODRM mode r1 r2) = ucast (drop_bit 6 mode)" "drop_bit 3 (MODRM mode r1 r2) AND 7 = ucast (r1 AND 7)"
    "MODRM mode r1 r2 AND 7 = ucast (r2 AND 7)"
proof -
  have m: "7 = (mask 3 :: 8 word)" "7 = (mask 3 :: 32 word)" by (simp_all add: mask_eq_exp_minus_1)
  note b = MODRM_or(2) [OF assms]
  have nb: "\<not> bit mode k" if "k \<noteq> 6" "k \<noteq> 7" for k using b that by blast
  show "drop_bit 6 (MODRM mode r1 r2) = ucast (drop_bit 6 mode)" unfolding MODRM_or(1) [OF assms] m
    by (rule bit_word_eqI) (auto simp: bit_simps dest: b)
  show "drop_bit 3 (MODRM mode r1 r2) AND 7 = ucast (r1 AND 7)" unfolding MODRM_or(1) [OF assms] m
    by (rule bit_word_eqI) (auto simp: bit_simps nb)
  show "MODRM mode r1 r2 AND 7 = ucast (r2 AND 7)" unfolding MODRM_or(1) [OF assms] m
    by (rule bit_word_eqI) (auto simp: bit_simps nb)
qed

lemma ext_regno:
  assumes "x AND 7 = ucast (r AND 7)" "bit rex n = bit r 3"
  shows "ext rex n x = regno r"
proof -
  have "r AND 15 = (r AND 7) + (if bit r 3 then 8 else 0)"
  proof -
    have "r AND 15 = (r AND 7) OR (r AND 8)" by (simp flip: bit.conj_disj_distrib)
    also have "\<dots> = (r AND 7) + (r AND 8)"
    proof (rule disjunctive_add [symmetric])
      have e: "(7 :: 32 word) = mask 3" "(8 :: 32 word) = push_bit 3 1" by (simp_all add: mask_eq_exp_minus_1)
      show "\<not> bit (r AND 7) k \<or> \<not> bit (r AND 8) k" for k
        unfolding e by (auto simp: bit_simps simp del: push_bit_of_1)
    qed
    finally show ?thesis by (simp add: bit_and_pow)
  qed
  moreover have l: "unat (r AND 7) < 8" using word_and_le1 [of r 7] word_and_le2 [of r 7] by (simp add: word_le_nat_alt)
  moreover have "unat (ucast (r AND 7) :: 8 word) = unat (r AND 7)" using l by (simp add: unsigned_ucast_eq take_bit_nat_eq_self_iff)
  ultimately show ?thesis
    by (auto simp: ext_def regno_def assms unat_word_ariths)
qed

lemma un_le32_le32: "un_le32 (le32 w @ p) = w"
proof -
  have "bit (un_le32 (le32 w @ p)) k = bit w k" if "k < 32" for k
    using that by (cases "k < 8"; cases "k < 16"; cases "k < 24") (auto simp: le32_def bit_simps)
  then show ?thesis by (intro bit_word_eqI) simp
qed

lemma length_le32 [simp]: "length (le32 w) = 4"
  by (simp add: le32_def)

lemma narrow:
  assumes "sint (x :: 'a::len word) = sint (word_of_int (sint x) :: 'b::len word)" "LENGTH('b) \<le> LENGTH('a)"
  shows "(scast (ucast x :: 'b word) :: 'c::len word) = scast x"
proof -
  have d: "word_of_int (sint x) = (ucast x :: 'b word)"
  proof -
    have "(scast x :: 'b word) = ucast x"
    proof (rule bit_word_eqI)
      fix n assume "n < LENGTH('b)"
      moreover have "min (LENGTH('a) - Suc 0) n = n" using \<open>n < LENGTH('b)\<close> assms(2) by simp
      ultimately show "bit (scast x :: 'b word) n = bit (ucast x :: 'b word) n"
        by (simp add: bit_signed_iff bit_unsigned_iff)
    qed
    then show ?thesis by (simp only: scast_eq)
  qed
  have "(scast (ucast x :: 'b word) :: 'c word) = word_of_int (sint (ucast x :: 'b word))" by (simp only: scast_eq)
  also have "\<dots> = word_of_int (sint x)" using assms(1) unfolding d by (rule arg_cong [OF sym])
  finally show ?thesis by (simp only: scast_eq)
qed

lemma narrow_checks:
  "checki8 (sint (w :: 32 word)) \<Longrightarrow> (scast (ucast w :: 8 word) :: 64 word) = scast w"
  "checki8 (sint (x :: 64 word)) \<Longrightarrow> scast (ucast x :: 8 word) = x"
  "checki32 (sint (x :: 64 word)) \<Longrightarrow> scast (ucast x :: 32 word) = x"
  using narrow [of w, where 'b = 8 and 'c = 64] narrow [of x, where 'b = 8 and 'c = 64]
    narrow [of x, where 'b = 32 and 'c = 64]
  by (simp_all add: checki8_def checki32_def)

lemma ofs_mode_disp:
  assumes "ofs_mode rb ofs p = (mode, q)"
  shows "mode \<in> modes" "ucast (drop_bit 6 mode) \<noteq> (3 :: 8 word)" "rb AND 7 = 5 \<Longrightarrow> ucast (drop_bit 6 mode) \<noteq> (0 :: 8 word)"
    "take_disp (ucast (drop_bit 6 mode)) q = Some (scast ofs, p)"
  using assms
  by (auto simp: ofs_mode_def modes_def xm_nums RID_EBP_def take_disp_def un_le32_le32 narrow_checks split: if_splits)

definition mem_operand :: "32 word \<Rightarrow> 32 word \<Rightarrow> operand" where
  "mem_operand rb ofs =
     (if rb = RID_RIP then Rip (scast ofs)
      else Mem (if ra_hasreg rb then Some (regno rb) else None) None (scast ofs))"

definition mrm_operand :: "x86ModRM \<Rightarrow> operand" where
  "mrm_operand m =
     (if mrm_base m = ucast RID_RIP then Rip (scast (mrm_ofs m))
      else Mem (if mrm_base m = ucast RID_NONE then None else Some (regno (ucast (mrm_base m))))
        (if mrm_idx m = ucast RID_NONE then None
         else Some (regno (ucast (mrm_idx m)), 2 ^ unat (drop_bit 6 (mrm_scale m)))) (scast (mrm_ofs m)))"

lemma sib_base:
  assumes "bit rex 0 = bit rb 3" "ofs_mode rb ofs p = (mode, q)" "\<not> bit rex (Suc 0)" "rb AND 7 = RID_ESP"
  shows "take_sib rex (ucast (drop_bit 6 mode)) (MODRM XM_SCALE1 RID_ESP RID_ESP # q) = Some (Mem (Some (regno rb)) None (scast ofs), p)"
proof -
  have "MODRM XM_SCALE1 RID_ESP RID_ESP = 0x24" by (simp add: MODRM_def xm_nums RID_ESP_def)
  moreover have "ext rex 0 0x24 = regno rb" using assms by (intro ext_regno) (simp_all add: RID_ESP_def)
  ultimately show ?thesis using ofs_mode_disp [OF assms(2)] assms(3)
    by (simp add: take_sib_def Let_def ext_def)
qed

lemma modrm_fields_cast:
  "mode \<in> modes \<Longrightarrow> drop_bit 6 (MODRM mode rr rb) = ucast (drop_bit 6 mode)"
  "mode \<in> modes \<Longrightarrow> bit rex 2 = bit rr 3 \<Longrightarrow> ext rex 2 (drop_bit 3 (MODRM mode rr rb)) = regno rr"
  "mode \<in> modes \<Longrightarrow> bit rex 0 = bit rb 3 \<Longrightarrow> ext rex 0 (MODRM mode rr rb) = regno rb"
  "mode \<in> modes \<Longrightarrow> bit rex (Suc 0) = bit rr 3 \<Longrightarrow> ext rex (Suc 0) (drop_bit 3 (MODRM mode rr rb)) = regno rr"
  by (simp_all add: MODRM_fields ext_regno)

lemma low3_eq: "(ucast (r AND 7) :: 8 word) = n \<longleftrightarrow> r AND 7 = ucast n" for r :: "32 word"
proof -
  have "r AND 7 = ucast (ucast (r AND 7) :: 8 word)"
  proof -
    have m: "7 = (mask 3 :: 32 word)" by (simp add: mask_eq_exp_minus_1)
    show ?thesis unfolding m by (intro bit_word_eqI) (auto simp: bit_simps)
  qed
  moreover have "(ucast (ucast n :: 32 word) :: 8 word) = n" by (rule bit_word_eqI) (simp add: bit_simps)
  ultimately show ?thesis by metis
qed

definition rex_fits :: "8 word \<Rightarrow> 32 word \<Rightarrow> 32 word \<Rightarrow> 32 word \<Rightarrow> bool" where
  "rex_fits rex rr rx rb \<longleftrightarrow> bit rex 2 = bit rr 3 \<and> bit rex (Suc 0) = bit rx 3 \<and> bit rex 0 = bit rb 3"

lemma modrm_reg: "rex_fits rex r1 rx r2 \<Longrightarrow> take_modrm rex (MODRM XM_REG r1 r2 # p) = Some (regno r1, Reg (regno r2), p)"
  by (simp add: take_modrm_def Let_def rex_fits_def modrm_fields_cast modes_def xm_nums)

lemma modrm_mem:
  assumes "rex_fits rex rr 0 rb" "ofs_mode rb ofs p = (mode, q)"
  shows "take_modrm rex (MODRM mode rr rb # esp_sib rb q) = Some (regno rr, Mem (Some (regno rb)) None (scast ofs), p)"
proof -
  note o = ofs_mode_disp [OF assms(2)]
  have r: "bit rex 2 = bit rr 3" "bit rex 0 = bit rb 3" "\<not> bit rex (Suc 0)" using assms(1) by (simp_all add: rex_fits_def)
  have f: "MODRM mode rr rb AND 7 = ucast (rb AND 7)" by (rule MODRM_fields) (rule o)
  show ?thesis
  proof (cases "rb AND 7 = RID_ESP")
    case True
    then show ?thesis using sib_base [OF r(2) assms(2) r(3) True] o r
      by (simp add: take_modrm_def Let_def modrm_fields_cast f esp_sib_def low3_eq RID_ESP_def)
  next
    case False
    then show ?thesis using o r
      by (auto simp: take_modrm_def Let_def modrm_fields_cast f esp_sib_def low3_eq RID_ESP_def)
  qed
qed

lemma disp32: "take_disp 2 (le32 ofs @ p) = Some (scast ofs, p)"
  by (simp add: take_disp_def un_le32_le32)

lemma modrm_rip:
  "rex_fits rex rr rx rb \<Longrightarrow> take_modrm rex (MODRM XM_OFS0 rr RID_RIP # le32 ofs @ p) = Some (regno rr, Rip (scast ofs), p)"
  by (simp add: take_modrm_def Let_def rex_fits_def modrm_fields_cast modes_def xm_nums MODRM_fields low3_eq RID_RIP_def
      RID_MAX_x86_def GPRDEF_x86_def FPRDEF_x86_def disp32)

lemma modrm_abs:
  assumes "rex_fits rex rr 0 RID_ESP"
  shows "take_modrm rex (MODRM XM_OFS0 rr RID_ESP # MODRM XM_SCALE1 RID_ESP RID_EBP # le32 ofs @ p)
    = Some (regno rr, Mem None None (scast ofs), p)"
proof -
  have "MODRM XM_SCALE1 RID_ESP RID_EBP = 0x25" by (simp add: MODRM_def xm_nums RID_ESP_def RID_EBP_def)
  moreover have "ext rex (Suc 0) 4 = 4" using assms by (simp add: ext_def rex_fits_def)
  moreover have "0 \<in> modes" by (simp add: modes_def)
  ultimately show ?thesis using assms
    by (simp add: take_modrm_def Let_def rex_fits_def modrm_fields_cast XM_OFS0_def MODRM_fields low3_eq RID_ESP_def
        take_sib_def disp32)
qed

lemma modrm_idx:
  assumes "rex_fits rex rr rx rb" "ofs_mode rb ofs p = (mode, q)" "scale \<in> modes" "regno rx \<noteq> 4"
  shows "take_modrm rex (MODRM mode rr RID_ESP # MODRM scale rx rb # q)
    = Some (regno rr, Mem (Some (regno rb)) (Some (regno rx, 2 ^ unat (drop_bit 6 scale))) (scast ofs), p)"
proof -
  note o = ofs_mode_disp [OF assms(2)]
  have r: "bit rex 2 = bit rr 3" "bit rex 0 = bit rb 3" "bit rex (Suc 0) = bit rx 3" using assms(1) by (simp_all add: rex_fits_def)
  have "unat (ucast (drop_bit 6 scale) :: 8 word) = unat (drop_bit 6 scale)" using assms(3) by (auto simp: modes_def)
  then show ?thesis using o r assms(3,4)
    by (auto simp: take_modrm_def Let_def modrm_fields_cast MODRM_fields low3_eq RID_ESP_def take_sib_def)
qed

lemma modrm_idx_abs:
  assumes "rex_fits rex rr rx RID_EBP" "scale \<in> modes" "regno rx \<noteq> 4"
  shows "take_modrm rex (MODRM XM_OFS0 rr RID_ESP # MODRM scale rx RID_EBP # le32 ofs @ p)
    = Some (regno rr, Mem None (Some (regno rx, 2 ^ unat (drop_bit 6 scale))) (scast ofs), p)"
proof -
  have r: "bit rex 2 = bit rr 3" "bit rex (Suc 0) = bit rx 3" using assms(1) by (simp_all add: rex_fits_def)
  have "unat (ucast (drop_bit 6 scale) :: 8 word) = unat (drop_bit 6 scale)" using assms(2) by (auto simp: modes_def)
  moreover have "0 \<in> modes" by (simp add: modes_def)
  ultimately show ?thesis using r assms(2,3)
    by (simp add: take_modrm_def Let_def modrm_fields_cast MODRM_fields low3_eq RID_ESP_def RID_EBP_def take_sib_def xm_nums disp32)
qed

lemma rex_of_fits: "rex_fits (rex_of rr rx rb) rr rx rb"
  by (simp add: rex_fits_def rex_of_bits)

lemma decode_opm:
  assumes "op_ok xo" "reg_ok rr" "take_modrm (rex_of rr 0 rb) (MODRM mode rr rb # p) = Some (reg, opnd, rest)"
  shows "decode (emit_opm xo mode rr rb p) = Some (op_code xo, bit rr 19, reg, opnd, rest)"
  by (simp add: decode_def emit_opm_def take_head_emit_op assms rex_of_bits)

lemma decode_opmx:
  assumes "op_ok xo" "reg_ok rr"
    "take_modrm (rex_of rr rx rb) (MODRM mode rr RID_ESP # MODRM scale rx rb # p) = Some (reg, opnd, rest)"
  shows "decode (emit_opmx xo mode scale rr rb rx p) = Some (op_code xo, bit rr 19, reg, opnd, rest)"
  by (simp add: decode_def emit_opmx_def take_head_emit_op assms rex_of_bits)

lemma rids: "RID_RIP = 37" "RID_MRM = 32" "RID_ESP = 4" "RID_EBP = 5" "RID_NONE = 0x80"
  by (simp_all add: RID_RIP_def RID_MRM_def RID_ESP_def RID_EBP_def RID_NONE_def RID_MAX_x86_def GPRDEF_x86_def FPRDEF_x86_def)

lemma byte_eq: "(ucast (b :: 8 word) :: 32 word) = ucast n \<longleftrightarrow> b = n"
proof -
  have "(ucast (ucast x :: 32 word) :: 8 word) = x" for x by (rule bit_word_eqI) (simp add: bit_simps)
  then show ?thesis by metis
qed

lemma small_scale:
  assumes "(w :: 8 word) AND 0x3f = 0"
  shows "ucast w \<in> modes" "unat (drop_bit 6 (ucast w :: 32 word)) = unat (drop_bit 6 w)"
proof -
  have m: "0x3f = (mask 6 :: 8 word)" by (simp add: mask_eq_exp_minus_1)
  have z: "\<not> bit w k" if "k < 6" for k
    using arg_cong [OF assms [unfolded m], of "\<lambda>x. bit x k"] that by (simp add: bit_simps)
  have "w = (if bit w 6 then push_bit 6 1 else 0) OR (if bit w 7 then push_bit 7 1 else 0)"
  proof (rule bit_word_eqI)
    fix k assume "k < LENGTH(8)"
    then consider "k < 6" | "k = 6" | "k = 7" by fastforce
    then show "bit w k = bit ((if bit w 6 then push_bit 6 1 else 0) OR (if bit w 7 then push_bit 7 1 else 0) :: 8 word) k"
      by cases (auto simp: z bit_simps simp del: push_bit_of_1)
  qed
  then have "w \<in> {0, 0x40, 0x80, 0xc0}" by (cases "bit w 6"; cases "bit w 7") auto
  then show "ucast w \<in> modes" "unat (drop_bit 6 (ucast w :: 32 word)) = unat (drop_bit 6 w)"
    by (auto simp: modes_def)
qed

lemma decode_rr:
  "op_ok xo \<Longrightarrow> reg_ok rr \<Longrightarrow>
     decode (mc (emit_rr xo rr rb st)) = Some (op_code xo, bit rr 19, regno rr, Reg (regno rb), mc st)"
  unfolding emit_rr_def by (simp, rule decode_opm, assumption+, rule modrm_reg, rule rex_of_fits)

lemma decode_rmro:
  assumes "op_ok xo" "reg_ok rr"
  shows "decode (mc (emit_rmro xo rr rb ofs st)) = Some (op_code xo, bit rr 19, regno rr, mem_operand rb ofs, mc st)"
proof -
  consider (rip) "rb = RID_RIP" | (reg) "rb \<noteq> RID_RIP" "ra_hasreg rb" | (abs) "rb \<noteq> RID_RIP" "\<not> ra_hasreg rb" by blast
  then show ?thesis
  proof cases
    case rip
    have "ra_hasreg rb" "rb AND 7 \<noteq> RID_ESP" by (simp_all add: rip ra_hasreg_def rids)
    then show ?thesis using rip decode_opm [OF assms modrm_rip [OF rex_of_fits]]
      by (simp add: emit_rmro_def mem_operand_def esp_sib_def)
  next
    case reg
    obtain mode q where o: "ofs_mode rb ofs (mc st) = (mode, q)" by fastforce
    show ?thesis using reg decode_opm [OF assms modrm_mem [OF rex_of_fits o]] o
      by (simp add: emit_rmro_def mem_operand_def)
  next
    case abs
    then show ?thesis using decode_opm [OF assms modrm_abs [OF rex_of_fits]]
      by (simp add: emit_rmro_def mem_operand_def)
  qed
qed

lemma decode_rmrxo:
  assumes "op_ok xo" "reg_ok rr" "regno rx \<noteq> 4" "scale \<in> modes"
  shows "decode (mc (emit_rmrxo xo rr rb rx scale ofs st)) = Some (op_code xo, bit rr 19, regno rr,
    Mem (Some (regno rb)) (Some (regno rx, 2 ^ unat (drop_bit 6 scale))) (scast ofs), mc st)"
proof -
  obtain mode q where o: "ofs_mode rb ofs (mc st) = (mode, q)" by fastforce
  show ?thesis using decode_opmx [OF assms(1,2) modrm_idx [OF rex_of_fits o assms(4,3)]]
    by (simp add: emit_rmrxo_def o)
qed

definition mrm_ok :: "x86ModRM \<Rightarrow> bool" where
  "mrm_ok m \<longleftrightarrow> mrm_scale m AND 0x3f = 0 \<and> regno (ucast (mrm_idx m)) \<noteq> 4 \<and>
     (mrm_base m = ucast RID_RIP \<longrightarrow> mrm_idx m = ucast RID_NONE)"

lemma decode_mrm:
  assumes "op_ok xo" "reg_ok rr" "mrm_ok (mrm st)"
  shows "decode (mc (emit_mrm xo rr rb st)) = Some (op_code xo, bit rr 19, regno rr,
    if rb = RID_MRM then mrm_operand (mrm st) else Reg (regno rb), mc st)"
proof (cases "rb = RID_MRM")
  case False
  then show ?thesis using decode_opm [OF assms(1,2) modrm_reg [OF rex_of_fits]] by (simp add: emit_mrm_def)
next
  case True
  obtain d i b s where m: "mrm st = \<lparr>mrm_ofs = d, mrm_base = b, mrm_idx = i, mrm_scale = s\<rparr>" by (cases "mrm st")
  have s: "ucast s \<in> modes" "unat (drop_bit 6 (ucast s :: 32 word)) = unat (drop_bit 6 s)" and i: "regno (ucast i) \<noteq> 4"
    and r: "b = 37 \<longrightarrow> i = 0x80"
    using assms(3) small_scale [of s] by (auto simp: mrm_ok_def m rids)
  obtain mode q where f: "ofs_mode (ucast b) d (mc st) = (mode, q)" by fastforce
  have c: "ucast b = (0x80 :: 32 word) \<longleftrightarrow> b = 0x80" "ucast i = (0x80 :: 32 word) \<longleftrightarrow> i = 0x80" "ucast b = (37 :: 32 word) \<longleftrightarrow> b = 37"
    using byte_eq [of b "0x80"] byte_eq [of i "0x80"] byte_eq [of b 37] by simp_all
  note dr = decode_opm [OF assms(1,2)] and dx = decode_opmx [OF assms(1,2)]
  show ?thesis
    using True r s(2) dr [OF modrm_abs [OF rex_of_fits], of d "mc st"]
      dr [OF modrm_rip [OF rex_of_fits], of d "mc st"] dr [OF modrm_mem [OF rex_of_fits f]]
      dx [OF modrm_idx [OF rex_of_fits f s(1) i]] dx [OF modrm_idx_abs [OF rex_of_fits s(1) i], of d "mc st"]
    by (auto simp: emit_mrm_def mrm_operand_def m Let_def rids c f)
qed

text \<open>
  C28. The processor reads back what the x64 emitter was asked for. For every opcode of the table and every
  register, with or without the prefix flags, the bytes of \<open>emit_rr\<close>, \<open>emit_rmro\<close>, \<open>emit_rmrxo\<close> and
  \<open>emit_mrm\<close> decode to that opcode, operand size, register and operand (base, scaled index and
  displacement, relative to the instruction pointer, or an absolute address), whichever ModRM form, SIB byte,
  displacement size and REX prefix was chosen, and the code behind starts right after them. The
  conditions are those the code asserts or relies on: the stack pointer is no index.
\<close>

theorem x86_operands_decode:
  assumes "xo \<in> set var_ops" "reg_ok rr" "regno rx \<noteq> 4" "scale \<in> modes" "mrm_ok (mrm st)"
  shows "decode (mc (emit_rr xo rr rb st)) = Some (op_code xo, bit rr 19, regno rr, Reg (regno rb), mc st) \<and>
    decode (mc (emit_rmro xo rr rb ofs st)) = Some (op_code xo, bit rr 19, regno rr, mem_operand rb ofs, mc st) \<and>
    decode (mc (emit_rmrxo xo rr rb rx scale ofs st)) = Some (op_code xo, bit rr 19, regno rr,
      Mem (Some (regno rb)) (Some (regno rx, 2 ^ unat (drop_bit 6 scale))) (scast ofs), mc st) \<and>
    decode (mc (emit_mrm xo rr rb st)) = Some (op_code xo, bit rr 19, regno rr,
      if rb = RID_MRM then mrm_operand (mrm st) else Reg (regno rb), mc st)"
proof -
  have "op_ok xo" using assms(1) var_ops_ok by (simp add: list_all_iff)
  then show ?thesis using decode_rr decode_rmro decode_rmrxo decode_mrm assms by blast
qed

definition empty_x86 :: asm_x86 where
  "empty_x86 = \<lparr>mc = [], mctop = 0x10000, mcbase = 0, bots = [], mclim = 0,
     mrm = \<lparr>mrm_ofs = 0x1234, mrm_base = 12, mrm_idx = 9, mrm_scale = 0x80\<rparr>, ir_ofs = (\<lambda>ref. 0), curins = 0, stopins = 0\<rparr>"

text \<open>\<open>mov r11, [r12 + 4 * r9 + 0x1234]\<close> with 64 bit operands, among others.\<close>

theorem x86_operands_decode_witness:
  "decode (mc (emit_rr XO_MOV (11 OR REX_64) RID_MRM empty_x86)) = Some ((None, [0x8b]), True, 11, Reg 0, []) \<and>
   decode (mc (emit_rmro XO_MOV (11 OR REX_64) RID_MRM 8 empty_x86)) = Some ((None, [0x8b]), True, 11, Mem (Some 0) None 8, []) \<and>
   decode (mc (emit_rmrxo XO_MOV (11 OR REX_64) RID_MRM 9 XM_SCALE8 0 empty_x86))
     = Some ((None, [0x8b]), True, 11, Mem (Some 0) (Some (9, 8)) 0, []) \<and>
   decode (mc (emit_mrm XO_MOV (11 OR REX_64) RID_MRM empty_x86))
     = Some ((None, [0x8b]), True, 11, Mem (Some 12) (Some (9, 4)) 0x1234, [])"
proof -
  have "op_code XO_MOV = (None, [0x8b])" "XO_MOV \<in> set var_ops"
    by (simp_all add: op_code_def op_len_def var_ops_def XO_MOV_def XO_1_def)
  moreover have "reg_ok (11 OR REX_64)" "bit (11 OR REX_64 :: 32 word) 19" "regno (11 OR REX_64) = 11" "regno 9 = 9"
    by (simp_all add: reg_ok_def regno_def REX_64_def FORCE_REX_def)
  moreover have "mrm_ok (mrm empty_x86)" "mrm_operand (mrm empty_x86) = Mem (Some 12) (Some (9, 4)) 0x1234"
    by (simp_all add: mrm_ok_def mrm_operand_def empty_x86_def regno_def rids)
  moreover have "regno RID_MRM = 0" "mem_operand RID_MRM 8 = Mem (Some 0) None 8" "mc empty_x86 = []"
    by (simp_all add: regno_def mem_operand_def ra_hasreg_def rids empty_x86_def)
  ultimately show ?thesis
    using x86_operands_decode [of XO_MOV "11 OR REX_64" 9 XM_SCALE8 empty_x86 RID_MRM 8]
      x86_operands_decode [of XO_MOV "11 OR REX_64" 9 XM_SCALE8 empty_x86 RID_MRM 0]
    by (simp add: modes_def xm_nums)
qed

end
