(* ===== verification/LJ_X86_Inslen.thy ===== *)
theory LJ_X86_Inslen
  imports LJ_X86_Decode
begin

text \<open>
  The instruction length decoder of \<open>LuaJit/include/lj_asm_x86.h\<close>, which finds the exits of a trace in its machine
  code, for 64 bit targets, and its agreement with the decoder of \<open>LJ_X86_Decode\<close> on what the x64 emitter emits.
\<close>

section \<open>The decoder\<close>

text \<open>The tables are rows of 16, as in the source; an entry is what to do next and a length.\<close>

definition map_op1_0 :: "32 word list" where
  "map_op1_0 = [0x92, 0x92, 0x92, 0x92, 0x52, 0x45, 0x51, 0x51, 0x92, 0x92, 0x92, 0x92, 0x52, 0x45, 0x51, 0x20]"

definition map_op1_1 :: "32 word list" where
  "map_op1_1 = [0x92, 0x92, 0x92, 0x92, 0x52, 0x45, 0x51, 0x51, 0x92, 0x92, 0x92, 0x92, 0x52, 0x45, 0x51, 0x51]"

definition map_op1_2 :: "32 word list" where
  "map_op1_2 = [0x92, 0x92, 0x92, 0x92, 0x52, 0x45, 0x10, 0x51, 0x92, 0x92, 0x92, 0x92, 0x52, 0x45, 0x10, 0x51]"

definition map_op1_3 :: "32 word list" where
  "map_op1_3 = [0x92, 0x92, 0x92, 0x92, 0x52, 0x45, 0x10, 0x51, 0x92, 0x92, 0x92, 0x92, 0x52, 0x45, 0x10, 0x51]"

definition map_op1_4 :: "32 word list" where
  "map_op1_4 = [0x10, 0x10, 0x10, 0x10, 0x10, 0x10, 0x10, 0x10, 0x14, 0x14, 0x14, 0x14, 0x14, 0x14, 0x14, 0x14]"

definition map_op1_5 :: "32 word list" where
  "map_op1_5 = [0x51, 0x51, 0x51, 0x51, 0x51, 0x51, 0x51, 0x51, 0x51, 0x51, 0x51, 0x51, 0x51, 0x51, 0x51, 0x51]"

definition map_op1_6 :: "32 word list" where
  "map_op1_6 = [0x51, 0x51, 0x92, 0x92, 0x10, 0x10, 0x12, 0x11, 0x45, 0x86, 0x52, 0x93, 0x51, 0x51, 0x51, 0x51]"

definition map_op1_7 :: "32 word list" where
  "map_op1_7 = [0x52, 0x52, 0x52, 0x52, 0x52, 0x52, 0x52, 0x52, 0x52, 0x52, 0x52, 0x52, 0x52, 0x52, 0x52, 0x52]"

definition map_op1_8 :: "32 word list" where
  "map_op1_8 = [0x93, 0x86, 0x93, 0x93, 0x92, 0x92, 0x92, 0x92, 0x92, 0x92, 0x92, 0x92, 0x92, 0x92, 0x92, 0x92]"

definition map_op1_9 :: "32 word list" where
  "map_op1_9 = [0x51, 0x51, 0x51, 0x51, 0x51, 0x51, 0x51, 0x51, 0x51, 0x51, 0x47, 0x51, 0x51, 0x51, 0x51, 0x51]"

definition map_op1_a :: "32 word list" where
  "map_op1_a = [0x59, 0x59, 0x59, 0x59, 0x51, 0x51, 0x51, 0x51, 0x52, 0x45, 0x51, 0x51, 0x51, 0x51, 0x51, 0x51]"

definition map_op1_b :: "32 word list" where
  "map_op1_b = [0x52, 0x52, 0x52, 0x52, 0x52, 0x52, 0x52, 0x52, 0x05, 0x05, 0x05, 0x05, 0x05, 0x05, 0x05, 0x05]"

definition map_op1_c :: "32 word list" where
  "map_op1_c = [0x93, 0x93, 0x53, 0x51, 0x70, 0x71, 0x93, 0x86, 0x54, 0x51, 0x53, 0x51, 0x51, 0x52, 0x51, 0x51]"

definition map_op1_d :: "32 word list" where
  "map_op1_d = [0x92, 0x92, 0x92, 0x92, 0x52, 0x52, 0x51, 0x51, 0x92, 0x92, 0x92, 0x92, 0x92, 0x92, 0x92, 0x92]"

definition map_op1_e :: "32 word list" where
  "map_op1_e = [0x52, 0x52, 0x52, 0x52, 0x52, 0x52, 0x52, 0x52, 0x45, 0x45, 0x47, 0x52, 0x51, 0x51, 0x51, 0x51]"

definition map_op1_f :: "32 word list" where
  "map_op1_f = [0x10, 0x51, 0x10, 0x10, 0x51, 0x51, 0x63, 0x66, 0x51, 0x51, 0x51, 0x51, 0x51, 0x51, 0x92, 0x92]"

definition map_op1_rows :: "32 word list list" where
  "map_op1_rows =
    [map_op1_0, map_op1_1, map_op1_2, map_op1_3, map_op1_4, map_op1_5, map_op1_6, map_op1_7,
     map_op1_8, map_op1_9, map_op1_a, map_op1_b, map_op1_c, map_op1_d, map_op1_e, map_op1_f]"

lemma map_op1_nth: "map_op1_rows ! 0 = map_op1_0" "map_op1_rows ! Suc 0 = map_op1_1" "map_op1_rows ! 2 = map_op1_2"
    "map_op1_rows ! 3 = map_op1_3" "map_op1_rows ! 4 = map_op1_4" "map_op1_rows ! 5 = map_op1_5"
    "map_op1_rows ! 6 = map_op1_6" "map_op1_rows ! 7 = map_op1_7" "map_op1_rows ! 8 = map_op1_8"
    "map_op1_rows ! 9 = map_op1_9" "map_op1_rows ! 10 = map_op1_a" "map_op1_rows ! 11 = map_op1_b"
    "map_op1_rows ! 12 = map_op1_c" "map_op1_rows ! 13 = map_op1_d" "map_op1_rows ! 14 = map_op1_e"
    "map_op1_rows ! 15 = map_op1_f"
  by (simp_all add: map_op1_rows_def)

definition map_op2_0 :: "32 word list" where
  "map_op2_0 = [0x93, 0x93, 0x93, 0x93, 0x52, 0x52, 0x52, 0x52, 0x52, 0x52, 0x51, 0x52, 0x51, 0x93, 0x52, 0x94]"

definition map_op2_1 :: "32 word list" where
  "map_op2_1 = [0x93, 0x93, 0x93, 0x93, 0x93, 0x93, 0x93, 0x93, 0x93, 0x93, 0x93, 0x93, 0x93, 0x93, 0x93, 0x93]"

definition map_op2_2 :: "32 word list" where
  "map_op2_2 = [0x53, 0x53, 0x53, 0x53, 0x53, 0x53, 0x53, 0x53, 0x93, 0x93, 0x93, 0x93, 0x93, 0x93, 0x93, 0x93]"

definition map_op2_3 :: "32 word list" where
  "map_op2_3 = [0x52, 0x52, 0x52, 0x52, 0x52, 0x52, 0x52, 0x52, 0x34, 0x51, 0x35, 0x51, 0x51, 0x51, 0x51, 0x51]"

definition map_op2_4 :: "32 word list" where
  "map_op2_4 = [0x93, 0x93, 0x93, 0x93, 0x93, 0x93, 0x93, 0x93, 0x93, 0x93, 0x93, 0x93, 0x93, 0x93, 0x93, 0x93]"

definition map_op2_5 :: "32 word list" where
  "map_op2_5 = [0x53, 0x93, 0x93, 0x93, 0x93, 0x93, 0x93, 0x93, 0x93, 0x93, 0x93, 0x93, 0x93, 0x93, 0x93, 0x93]"

definition map_op2_6 :: "32 word list" where
  "map_op2_6 = [0x93, 0x93, 0x93, 0x93, 0x93, 0x93, 0x93, 0x93, 0x93, 0x93, 0x93, 0x93, 0x93, 0x93, 0x93, 0x93]"

definition map_op2_7 :: "32 word list" where
  "map_op2_7 = [0x94, 0x54, 0x54, 0x54, 0x93, 0x93, 0x93, 0x52, 0x93, 0x93, 0x93, 0x93, 0x93, 0x93, 0x93, 0x93]"

definition map_op2_8 :: "32 word list" where
  "map_op2_8 = [0x46, 0x46, 0x46, 0x46, 0x46, 0x46, 0x46, 0x46, 0x46, 0x46, 0x46, 0x46, 0x46, 0x46, 0x46, 0x46]"

definition map_op2_9 :: "32 word list" where
  "map_op2_9 = [0x93, 0x93, 0x93, 0x93, 0x93, 0x93, 0x93, 0x93, 0x93, 0x93, 0x93, 0x93, 0x93, 0x93, 0x93, 0x93]"

definition map_op2_a :: "32 word list" where
  "map_op2_a = [0x52, 0x52, 0x52, 0x93, 0x94, 0x93, 0x51, 0x51, 0x52, 0x52, 0x52, 0x93, 0x94, 0x93, 0x93, 0x93]"

definition map_op2_b :: "32 word list" where
  "map_op2_b = [0x93, 0x93, 0x93, 0x93, 0x93, 0x93, 0x93, 0x93, 0x93, 0x93, 0x94, 0x93, 0x93, 0x93, 0x93, 0x93]"

definition map_op2_c :: "32 word list" where
  "map_op2_c = [0x93, 0x93, 0x94, 0x93, 0x94, 0x94, 0x94, 0x93, 0x52, 0x52, 0x52, 0x52, 0x52, 0x52, 0x52, 0x52]"

definition map_op2_d :: "32 word list" where
  "map_op2_d = [0x93, 0x93, 0x93, 0x93, 0x93, 0x93, 0x93, 0x93, 0x93, 0x93, 0x93, 0x93, 0x93, 0x93, 0x93, 0x93]"

definition map_op2_e :: "32 word list" where
  "map_op2_e = [0x93, 0x93, 0x93, 0x93, 0x93, 0x93, 0x93, 0x93, 0x93, 0x93, 0x93, 0x93, 0x93, 0x93, 0x93, 0x93]"

definition map_op2_f :: "32 word list" where
  "map_op2_f = [0x93, 0x93, 0x93, 0x93, 0x93, 0x93, 0x93, 0x93, 0x93, 0x93, 0x93, 0x93, 0x93, 0x93, 0x93, 0x52]"

definition map_op2_rows :: "32 word list list" where
  "map_op2_rows =
    [map_op2_0, map_op2_1, map_op2_2, map_op2_3, map_op2_4, map_op2_5, map_op2_6, map_op2_7,
     map_op2_8, map_op2_9, map_op2_a, map_op2_b, map_op2_c, map_op2_d, map_op2_e, map_op2_f]"

lemma map_op2_nth: "map_op2_rows ! 0 = map_op2_0" "map_op2_rows ! Suc 0 = map_op2_1" "map_op2_rows ! 2 = map_op2_2"
    "map_op2_rows ! 3 = map_op2_3" "map_op2_rows ! 4 = map_op2_4" "map_op2_rows ! 5 = map_op2_5"
    "map_op2_rows ! 6 = map_op2_6" "map_op2_rows ! 7 = map_op2_7" "map_op2_rows ! 8 = map_op2_8"
    "map_op2_rows ! 9 = map_op2_9" "map_op2_rows ! 10 = map_op2_a" "map_op2_rows ! 11 = map_op2_b"
    "map_op2_rows ! 12 = map_op2_c" "map_op2_rows ! 13 = map_op2_d" "map_op2_rows ! 14 = map_op2_e"
    "map_op2_rows ! 15 = map_op2_f"
  by (simp_all add: map_op2_rows_def)

lemmas map_op_rows = map_op1_0_def map_op1_1_def map_op1_2_def map_op1_3_def map_op1_4_def
  map_op1_5_def map_op1_6_def map_op1_7_def map_op1_8_def map_op1_9_def map_op1_a_def map_op1_b_def
  map_op1_c_def map_op1_d_def map_op1_e_def map_op1_f_def map_op2_0_def map_op2_1_def map_op2_2_def
  map_op2_3_def map_op2_4_def map_op2_5_def map_op2_6_def map_op2_7_def map_op2_8_def map_op2_9_def
  map_op2_a_def map_op2_b_def map_op2_c_def map_op2_d_def map_op2_e_def map_op2_f_def

definition map_op1 :: "8 word \<Rightarrow> 32 word" where
  "map_op1 b = map_op1_rows ! (unat b div 16) ! (unat b mod 16)"

definition map_op2 :: "8 word \<Rightarrow> 32 word" where
  "map_op2 b = map_op2_rows ! (unat b div 16) ! (unat b mod 16)"

text \<open>
  The pointer \<open>p\<close> is the list of the bytes from \<open>*p\<close> on; a read behind the last byte is \<open>None\<close>. This is the code
  at the label \<open>mrm\<close>: a ModRM byte, possibly with a SIB byte, and a displacement.
\<close>

definition inslen_mrm :: "32 word \<Rightarrow> 32 word \<Rightarrow> 8 word list \<Rightarrow> 32 word option" where
  "inslen_mrm result x p =
     (case tl p of [] \<Rightarrow> None
      | m # rest \<Rightarrow>
          let result = result + (x AND 15); md = drop_bit 6 m in
          if md = 0 \<and> m AND 7 = 5 then Some (result + 4)
          else if md = 3 then Some result
          else
            let result = (if md = 1 then result + 1 else if md = 2 then result + 4 else result) in
            if m AND 7 = 4 then
              if m < 0x40 then
                case rest of [] \<Rightarrow> None
                | s # _ \<Rightarrow> Some (if s AND 7 = 5 then result + 1 + 4 else result + 1)
              else Some (result + 1)
            else Some result)"

text \<open>The loop of the switch; \<open>x\<close> is the entry to act on, with the byte it belongs to in front.\<close>

fun inslen_loop :: "32 word \<Rightarrow> 32 word \<Rightarrow> 32 word \<Rightarrow> 8 word list \<Rightarrow> 32 word option" where
  "inslen_loop result prefixes x [] = None"
| "inslen_loop result prefixes x [b] =
     (if drop_bit 4 x = 0 then Some (result + x + (prefixes AND 4))
      else if drop_bit 4 x = 4 then Some (result - (prefixes AND 2) + (x AND 15))
      else if drop_bit 4 x = 5 then Some (result + (x AND 15))
      else None)"
| "inslen_loop result prefixes x (b # c # p) =
     (if drop_bit 4 x = 0 then Some (result + x + (prefixes AND 4))
      else if drop_bit 4 x = 1 then inslen_loop (result + 1) (prefixes OR x) (map_op1 c) (c # p)
      else if drop_bit 4 x = 2 then inslen_loop result prefixes (map_op2 c) (c # p)
      else if drop_bit 4 x = 3 then inslen_mrm result x (c # p)
      else if drop_bit 4 x = 4 then Some (result - (prefixes AND 2) + (x AND 15))
      else if drop_bit 4 x = 5 then Some (result + (x AND 15))
      else if drop_bit 4 x = 6 then
        inslen_mrm result
          (if c AND 0x38 \<noteq> 0 then 2 else if prefixes AND 2 \<noteq> 0 \<and> x = 0x66 then 4 else x) (b # c # p)
      else if drop_bit 4 x = 7 then
        if x = 0x70 then
          if c AND 0x1f \<ge> 2 then inslen_mrm (result + 1 + 2) (ucast (c AND 0x1f)) (drop 2 (c # p))
          else (case p of _ # d # q \<Rightarrow> inslen_loop (result + 1 + 1) prefixes (map_op2 d) (d # q) | _ \<Rightarrow> None)
        else (case p of d # q \<Rightarrow> inslen_loop (result + 1) prefixes (map_op2 d) (d # q) | [] \<Rightarrow> None)
      else if drop_bit 4 x = 8 then inslen_mrm (result - (prefixes AND 2)) x (b # c # p)
      else if drop_bit 4 x = 9 then inslen_mrm result x (b # c # p)
      else None)"

definition asm_x86_inslen :: "8 word list \<Rightarrow> 32 word option" where
  "asm_x86_inslen p = (case p of [] \<Rightarrow> None | b # _ \<Rightarrow> inslen_loop 0 0 (map_op1 b) p)"

declare inslen_loop.simps [simp del]

text \<open>One round of the loop, by the action of the entry.\<close>

lemma inslen_ends:
  "drop_bit 4 x = 0 \<Longrightarrow> inslen_loop r px x (b # p) = Some (r + x + (px AND 4))"
  "drop_bit 4 x = 4 \<Longrightarrow> inslen_loop r px x (b # p) = Some (r - (px AND 2) + (x AND 15))"
  "drop_bit 4 x = 5 \<Longrightarrow> inslen_loop r px x (b # p) = Some (r + (x AND 15))"
  by (cases p; simp add: inslen_loop.simps)+

lemma inslen_more:
  "drop_bit 4 x = 1 \<Longrightarrow> inslen_loop r px x (b # c # p) = inslen_loop (r + 1) (px OR x) (map_op1 c) (c # p)"
  "drop_bit 4 x = 2 \<Longrightarrow> inslen_loop r px x (b # c # p) = inslen_loop r px (map_op2 c) (c # p)"
  "drop_bit 4 x = 3 \<Longrightarrow> inslen_loop r px x (b # c # p) = inslen_mrm r x (c # p)"
  "drop_bit 4 x = 6 \<Longrightarrow> inslen_loop r px x (b # c # p) =
     inslen_mrm r (if c AND 0x38 \<noteq> 0 then 2 else if px AND 2 \<noteq> 0 \<and> x = 0x66 then 4 else x) (b # c # p)"
  "drop_bit 4 x = 8 \<Longrightarrow> inslen_loop r px x (b # c # p) = inslen_mrm (r - (px AND 2)) x (b # c # p)"
  "drop_bit 4 x = 9 \<Longrightarrow> inslen_loop r px x (b # c # p) = inslen_mrm r x (b # c # p)"
  by (subst inslen_loop.simps(3), simp)+

lemma inslen_vex:
  "drop_bit 4 x = 7 \<Longrightarrow> x \<noteq> 0x70 \<Longrightarrow> inslen_loop r px x (b # c # d # p) = inslen_loop (r + 1) px (map_op2 d) (d # p)"
  "inslen_loop r px 0x70 (b # c # d # e # p) =
     (if c AND 0x1f \<ge> 2 then inslen_mrm (r + 1 + 2) (ucast (c AND 0x1f)) (e # p)
      else inslen_loop (r + 1 + 1) px (map_op2 e) (e # p))"
  by (subst inslen_loop.simps(3), simp)+

lemmas inslen_steps = inslen_ends inslen_more inslen_vex

lemma inslen_short:
  "drop_bit 4 x \<notin> {0, 4, 5} \<Longrightarrow> inslen_loop r px x [b] = None"
  "drop_bit 4 x = 7 \<Longrightarrow> inslen_loop r px x [b, c] = None"
  "inslen_loop r px 0x70 [b, c, d] = (if c AND 0x1f \<ge> 2 then inslen_mrm (r + 1 + 2) (ucast (c AND 0x1f)) [] else None)"
  by (simp_all add: inslen_loop.simps(2), (subst inslen_loop.simps(3), simp add: inslen_mrm_def)+)

lemma inslen_none: "drop_bit 4 x \<notin> {0, 1, 2, 3, 4, 5, 6, 7, 8, 9} \<Longrightarrow> inslen_loop r px x p = None"
  by (cases p rule: remdups_adj.cases) (simp_all add: inslen_loop.simps)

section \<open>Measuring what the emitter emits\<close>

text \<open>ModRM and SIB bytes and displacements have the length the processor reads.\<close>

section \<open>Measuring what the emitter emits\<close>

text \<open>ModRM and SIB bytes and displacements have the length the processor reads.\<close>

lemma top_bits: "unat (drop_bit 6 (m :: 8 word)) = unat m div 64"
  unfolding unat_drop_bit_eq by (simp add: drop_bit_nat_def)

lemma md_cases: "drop_bit 6 (m :: 8 word) = 0 \<or> drop_bit 6 m = 1 \<or> drop_bit 6 m = 2 \<or> drop_bit 6 m = 3"
proof -
  have "unat m < 2 ^ LENGTH(8)" by (rule unsigned_less)
  then have "unat (drop_bit 6 m) \<in> {0, 1, 2, 3}" unfolding top_bits by auto
  then show ?thesis by (auto simp: word_unat_eq_iff)
qed

lemma small_md: "m < 0x40 \<longleftrightarrow> drop_bit 6 (m :: 8 word) = 0"
  unfolding word_unat_eq_iff [of "drop_bit 6 m"] top_bits by (simp add: word_less_nat_alt div_eq_0_iff)

lemma inslen_mrm_reads:
  assumes "take_modrm rex p = Some (reg, opnd, rest)"
  shows "inslen_mrm r x (b # p) = Some (r + (x AND 15) + of_nat (length p - length rest - 1)) \<and> length rest < length p"
proof (cases p)
  case Nil
  then show ?thesis using assms by (simp add: take_modrm_def)
next
  case (Cons m p')
  show ?thesis using assms md_cases [of m] unfolding Cons
    by (elim disjE) (auto simp: take_modrm_def inslen_mrm_def take_sib_def take_disp_def Let_def small_md
        split: if_splits list.splits option.splits)
qed

text \<open>Prefixes are skipped and counted.\<close>

lemma loop_prefixes:
  "\<forall>b \<in> set pre. drop_bit 4 (map_op1 b) = 1 \<Longrightarrow>
   inslen_loop r px (map_op1 (hd (pre @ c # q))) (pre @ c # q) =
   inslen_loop (r + of_nat (length pre)) (fold (\<lambda>b px. px OR map_op1 b) pre px) (map_op1 c) (c # q)"
proof (induction pre arbitrary: r px)
  case (Cons b pre)
  obtain d q' where d: "pre @ c # q = d # q'" by (cases "pre @ c # q") auto
  have "inslen_loop r px (map_op1 b) (b # d # q') = inslen_loop (r + 1) (px OR map_op1 b) (map_op1 d) (d # q')"
    using Cons.prems by (simp add: inslen_steps)
  then show ?case using Cons.IH [of "r + 1" "px OR map_op1 b"] Cons.prems d by (simp add: add.assoc)
qed simp

text \<open>The bytes of an immediate operand, by opcode and the register field of the ModRM byte.\<close>

definition imm_bytes :: "8 word list \<Rightarrow> 8 word \<Rightarrow> nat" where
  "imm_bytes opc reg =
     (if opc \<in> {[0x69], [0x81], [0xc7]} \<or> opc = [0xf7] \<and> reg = 0 then 4
      else if opc \<in> {[0x6b], [0x80], [0x83], [0xc0], [0xc1], [0xc6]} \<or> opc = [0xf6] \<and> reg = 0 then 1 else 0)"

definition op_entry :: "8 word list \<Rightarrow> 32 word" where
  "op_entry opc = (if length opc = 1 then map_op1 (hd opc) else map_op2 (last opc))"

lemma imm_bytes_reg: "imm_bytes opc r = (if r = 0 then imm_bytes opc 0 else imm_bytes opc 1)"
  by (simp add: imm_bytes_def)

text \<open>The entry of an opcode of \<open>n\<close> bytes that takes \<open>i0\<close> or \<open>i1\<close> immediate bytes, by the register field.\<close>

definition entry_ok :: "8 word option \<Rightarrow> nat \<Rightarrow> 32 word \<Rightarrow> nat \<Rightarrow> nat \<Rightarrow> bool" where
  "entry_ok pfx n x i0 i1 \<longleftrightarrow>
     (drop_bit 4 x = 9 \<or> drop_bit 4 x = 8 \<and> pfx \<noteq> Some 0x66) \<and> x AND 15 = of_nat (n + 1 + i0) \<and> i0 = i1 \<or>
     drop_bit 4 x = 6 \<and> pfx \<noteq> Some 0x66 \<and> n = 1 \<and> x AND 15 = of_nat (2 + i0) \<and> i1 = 0"

definition code_ok :: "8 word option \<Rightarrow> 8 word list \<Rightarrow> bool" where
  "code_ok pfx opc = entry_ok pfx (length opc) (op_entry opc) (imm_bytes opc 0) (imm_bytes opc 1)"

definition op_row_ok :: "32 word \<Rightarrow> bool" where
  "op_row_ok xo = case_prod code_ok (op_code xo)"

lemma op_entry_simps: "op_entry [b] = map_op1 b" "op_entry [b, c] = map_op2 c"
  by (simp_all add: op_entry_def)

text \<open>What the loop does at the last byte of an opcode.\<close>

lemma inslen_entry:
  assumes "entry_ok pfx n x i0 i1" "pfx = Some 0x66 \<or> px AND 2 = 0"
  shows "\<exists>y. inslen_loop r px x (b # m # p) = inslen_mrm r y (b # m # p) \<and>
    y AND 15 = of_nat (n + 1 + (if drop_bit 3 m AND 7 = 0 then i0 else i1))"
proof -
  consider "drop_bit 4 x = 9" "i0 = i1" "x AND 15 = of_nat (n + 1 + i0)"
    | "drop_bit 4 x = 8" "px AND 2 = 0" "i0 = i1" "x AND 15 = of_nat (n + 1 + i0)"
    | "drop_bit 4 x = 6" "px AND 2 = 0" "n = 1" "i1 = 0" "x AND 15 = of_nat (2 + i0)"
    using assms by (auto simp: entry_ok_def)
  then show ?thesis
  proof cases
    case 3
    have "m AND 0x38 = push_bit 3 (drop_bit 3 m AND 7)"
    proof -
      have e: "0x38 = push_bit 3 (mask 3 :: 8 word)" "7 = (mask 3 :: 8 word)" by (simp_all add: mask_eq_exp_minus_1)
      show ?thesis unfolding e by (rule bit_word_eqI) (auto simp: bit_simps)
    qed
    moreover have "push_bit 3 (k AND 7) = 0 \<longleftrightarrow> k AND 7 = 0" for k :: "8 word"
    proof -
      have e: "7 = (mask 3 :: 8 word)" by (simp add: mask_eq_exp_minus_1)
      have "drop_bit 3 (push_bit 3 (k AND 7)) = k AND 7" unfolding e by (rule bit_word_eqI) (auto simp: bit_simps)
      then show ?thesis by (metis drop_bit_of_0 push_bit_of_0)
    qed
    ultimately have "m AND 0x38 = 0 \<longleftrightarrow> drop_bit 3 m AND 7 = 0" by simp
    then show ?thesis using 3 by (cases "drop_bit 3 m AND 7 = 0") (auto simp: inslen_steps)
  qed (auto simp: inslen_steps)
qed

lemma rex_entry: "drop_bit 4 b = 4 \<Longrightarrow> map_op1 b \<in> {0x10, 0x14}"
proof -
  assume a: "drop_bit 4 b = 4"
  have "unat b div 16 = 4" using arg_cong [OF a, of unat] by (simp add: unat_drop_bit_eq drop_bit_nat_def)
  moreover have "unat b mod 16 \<in> set [0..<16]" by simp
  ultimately show ?thesis unfolding map_op1_def
    by (simp add: upt_rec map_op1_nth) (elim disjE; simp add: map_op1_4_def)
qed

lemma pfx_entry: "map_op1 0x66 = 0x12" "map_op1 0xf2 = 0x10" "map_op1 0xf3 = 0x10" "map_op1 0x0f = 0x20"
  by (simp_all add: map_op1_def map_op1_nth map_op_rows)

lemma loop_0f: "inslen_loop r px 0x20 (a # b # p) = inslen_loop r px (map_op2 b) (b # p)"
  by (rule inslen_steps) simp

lemma inslen_emit_op:
  assumes "op_ok xo" "reg_ok rr" "op_row_ok xo" "take_modrm rex (m # p) = Some (reg, opnd, rest)"
  shows "asm_x86_inslen (emit_op xo rr rb rx (m # p)) = Some (of_nat (length (emit_op xo rr rb rx (m # p)) - length rest +
    imm_bytes (snd (op_code xo)) (drop_bit 3 m AND 7)))"
proof -
  obtain pfx opc where oc: "op_code xo = (pfx, opc)" by fastforce
  obtain rexb where e: "emit_op xo rr rb rx (m # p) = (case pfx of Some b \<Rightarrow> [b] | None \<Rightarrow> []) @ rexb @ opc @ m # p"
    and r: "rexb = [] \<or> (\<exists>b. rexb = [b] \<and> drop_bit 4 b = 4)"
    using emit_op_shape [OF assms(1,2), of rb rx "m # p"] by (auto simp: oc)
  define pre where pre: "pre = (case pfx of Some b \<Rightarrow> [b] | None \<Rightarrow> []) @ rexb"
  define px where px: "px = fold (\<lambda>b px. px OR map_op1 b) pre 0"
  have row: "entry_ok pfx (length opc) (op_entry opc) (imm_bytes opc 0) (imm_bytes opc 1)"
    using assms(3) by (simp add: op_row_ok_def code_ok_def oc)
  have pfx: "pfx \<in> {None, Some 0x66, Some 0xf2, Some 0xf3}" and opc: "(\<exists>b. opc = [b]) \<or> (\<exists>b. opc = [0x0f, b])"
    using op_code_cases [OF assms(1)] by (auto simp: oc)
  have P: "\<forall>b \<in> set pre. drop_bit 4 (map_op1 b) = 1" using pfx r rex_entry by (fastforce simp: pre pfx_entry)
  have X: "pfx = Some 0x66 \<or> px AND 2 = 0" using pfx r rex_entry by (fastforce simp: px pre pfx_entry)
  have "\<exists>b. asm_x86_inslen (emit_op xo rr rb rx (m # p)) = inslen_loop (of_nat (length pre)) px (op_entry opc) (b # m # p)"
  proof -
    have head: "asm_x86_inslen (pre @ c # q) = inslen_loop (of_nat (length pre)) px (map_op1 c) (c # q)" for c q
      using loop_prefixes [OF P, of 0 0 c q] by (cases "pre @ c # q") (auto simp: asm_x86_inslen_def px)
    consider b where "opc = [b]" | b where "opc = [0x0f, b]" using opc by blast
    then show ?thesis
    proof cases
      case 1
      then show ?thesis using 1 head [of b "m # p"] e by (auto simp: pre op_entry_simps)
    next
      case 2
      have "emit_op xo rr rb rx (m # p) = pre @ 0x0f # b # m # p" by (simp add: e 2 pre)
      moreover have "inslen_loop (of_nat (length pre)) px 0x20 (0x0f # b # m # p) = inslen_loop (of_nat (length pre)) px (map_op2 b) (b # m # p)"
        by (rule loop_0f)
      ultimately have "asm_x86_inslen (emit_op xo rr rb rx (m # p)) = inslen_loop (of_nat (length pre)) px (map_op2 b) (b # m # p)"
        using head [of "0x0f" "b # m # p"] by (simp only: pfx_entry)
      then show ?thesis by (auto simp only: 2 op_entry_simps)
    qed
  qed
  then obtain b where b: "asm_x86_inslen (emit_op xo rr rb rx (m # p)) = inslen_loop (of_nat (length pre)) px (op_entry opc) (b # m # p)" ..
  have i: "(if drop_bit 3 m AND 7 = 0 then imm_bytes opc 0 else imm_bytes opc 1) = imm_bytes opc (drop_bit 3 m AND 7)"
    by (rule imm_bytes_reg [symmetric])
  obtain y where y: "inslen_loop (of_nat (length pre)) px (op_entry opc) (b # m # p) = inslen_mrm (of_nat (length pre)) y (b # m # p)"
    "y AND 15 = of_nat (length opc + 1 + imm_bytes opc (drop_bit 3 m AND 7))"
    using inslen_entry [OF row X, of "of_nat (length pre)" b m p, unfolded i] by blast
  have "asm_x86_inslen (emit_op xo rr rb rx (m # p)) = Some (of_nat (length pre) +
      of_nat (length opc + 1 + imm_bytes opc (drop_bit 3 m AND 7)) + of_nat (length (m # p) - length rest - 1))"
    and l: "length rest < length (m # p)"
    using inslen_mrm_reads [OF assms(4), of "of_nat (length pre)" y b] unfolding b y by blast+
  moreover have "length (emit_op xo rr rb rx (m # p)) - length rest + imm_bytes opc (drop_bit 3 m AND 7) =
      length pre + (length opc + 1 + imm_bytes opc (drop_bit 3 m AND 7)) + (length (m # p) - length rest - 1)"
    using l by (simp add: e pre)
  ultimately show ?thesis by (simp only: oc snd_conv of_nat_add)
qed

text \<open>An instruction that the processor decodes is measured right; immediate operands follow it.\<close>

lemma inslen_decode:
  assumes "op_ok xo" "reg_ok rr" "op_row_ok xo" "decode (emit_op xo rr rb rx q) = Some (opc, w, reg, opnd, rest)"
  shows "asm_x86_inslen (emit_op xo rr rb rx q) = Some (of_nat (length (emit_op xo rr rb rx q) - length rest +
    imm_bytes (snd (op_code xo)) (of_nat (reg mod 8))))"
proof -
  have t: "take_modrm (rex_of rr rx rb) q = Some (reg, opnd, rest)"
    using assms(4) by (simp add: decode_def take_head_emit_op [OF assms(1,2)])
  then obtain m p where q: "q = m # p" by (cases q) (auto simp: take_modrm_def)
  have "reg = ext (rex_of rr rx rb) 2 (drop_bit 3 m)" using t by (auto simp: q take_modrm_def Let_def)
  moreover have "unat (drop_bit 3 m AND 7) < 8"
    using word_and_le1 [of "drop_bit 3 m" 7] by (simp add: word_le_nat_alt)
  ultimately have "reg mod 8 = unat (drop_bit 3 m AND 7)" by (auto simp: ext_def)
  then show ?thesis using inslen_emit_op [OF assms(1-3) t [unfolded q]] by (simp add: q)
qed

lemma var_ops_rows: "list_all op_row_ok var_ops"
  by (simp add: var_ops_def op_row_ok_def code_ok_def op_code_def op_len_def op_entry_simps map_op1_def map_op2_def
      map_op1_nth map_op2_nth map_op_rows entry_ok_def imm_bytes_def x86_ops xo_macros Let_def)

lemma emitters_emit_op:
  "\<exists>b x q. mc (emit_rr xo rr rb st) = emit_op xo rr b x q"
  "\<exists>b x q. mc (emit_rmro xo rr rb ofs st) = emit_op xo rr b x q"
  "\<exists>b x q. mc (emit_rmrxo xo rr rb rx scale ofs st) = emit_op xo rr b x q"
  "\<exists>b x q. mc (emit_mrm xo rr rb st) = emit_op xo rr b x q"
proof -
  have o: "\<exists>b x q. emit_opm xo mode rr rb' p = emit_op xo rr b x q" "\<exists>b x q. emit_opmx xo mode sc rr rb' rx' p = emit_op xo rr b x q"
    for mode sc rb' rx' p by (auto simp: emit_opm_def emit_opmx_def)
  show "\<exists>b x q. mc (emit_rr xo rr rb st) = emit_op xo rr b x q" using o(1) by (simp add: emit_rr_def)
  show "\<exists>b x q. mc (emit_rmro xo rr rb ofs st) = emit_op xo rr b x q"
    using o(1) by (simp add: emit_rmro_def split: prod.splits)
  show "\<exists>b x q. mc (emit_rmrxo xo rr rb rx scale ofs st) = emit_op xo rr b x q"
    using o(2) by (simp add: emit_rmrxo_def split: prod.splits)
  show "\<exists>b x q. mc (emit_mrm xo rr rb st) = emit_op xo rr b x q"
    using o by (simp add: emit_mrm_def Let_def split: prod.splits)
qed

text \<open>
  C33. The length decoder that finds the exits of a trace agrees with what the emitter emits. For every opcode of the
  table, in every form of the operand, with any prefix, the decoder computes the number of bytes \<open>emit_rr\<close>,
  \<open>emit_rmro\<close>, \<open>emit_rmrxo\<close> and \<open>emit_mrm\<close> put in front of the code plus the immediate bytes the opcode takes, so a walk
  over the code of a trace steps from instruction to instruction.
\<close>

theorem x86_inslen_measures:
  assumes "xo \<in> set var_ops" "reg_ok rr" "regno rx \<noteq> 4" "scale \<in> modes" "mrm_ok (mrm st)"
    "st' \<in> {emit_rr xo rr rb st, emit_rmro xo rr rb ofs st, emit_rmrxo xo rr rb rx scale ofs st, emit_mrm xo rr rb st}"
  shows "asm_x86_inslen (mc st') = Some (of_nat (length (mc st') - length (mc st) +
    imm_bytes (snd (op_code xo)) (of_nat (regno rr mod 8))))"
proof -
  have ok: "op_ok xo" and row: "op_row_ok xo" using assms(1) var_ops_ok var_ops_rows by (simp_all add: list_all_iff)
  obtain opnd where d: "decode (mc st') = Some (op_code xo, bit rr 19, regno rr, opnd, mc st)"
    using assms(6) decode_rr [OF ok assms(2)] decode_rmro [OF ok assms(2)] decode_rmrxo [OF ok assms(2-4)]
      decode_mrm [OF ok assms(2,5)] by auto
  obtain b x q where "mc st' = emit_op xo rr b x q"
    using assms(6) emitters_emit_op by (elim insertE emptyE) metis+
  then show ?thesis using inslen_decode [OF ok assms(2) row] d by metis
qed

text \<open>\<open>add dword [r12 + 4 * r9 + 0x1234], imm\<close> has eight bytes and four immediate ones.\<close>

theorem x86_inslen_measures_witness:
  "asm_x86_inslen (mc (emit_mrm XO_ARITHi (0 OR REX_64) RID_MRM (empty_x86\<lparr>mc := [1, 2, 3, 4]\<rparr>))) = Some 12"
proof -
  let ?st = "empty_x86\<lparr>mc := [1, 2, 3, 4]\<rparr>"
  have "XO_ARITHi \<in> set var_ops" "op_code XO_ARITHi = (None, [0x81])"
    by (simp_all add: var_ops_def op_code_def op_len_def XO_ARITHi_def XO_1_def)
  moreover have "reg_ok (0 OR REX_64)" "regno (0 OR REX_64) = 0" "regno 9 = 9"
    by (simp_all add: reg_ok_def regno_def REX_64_def FORCE_REX_def)
  moreover have "mrm_ok (mrm ?st)" by (simp add: mrm_ok_def empty_x86_def regno_def rids)
  moreover have "length (mc (emit_mrm XO_ARITHi (0 OR REX_64) RID_MRM ?st)) = 12"
    by (simp add: emit_mrm_def empty_x86_def rids ofs_mode_def checki8_def emit_opmx_def emit_op_def XO_ARITHi_def XO_1_def
        REX_64_def FORCE_REX_def le32_def xm_nums Let_def)
  ultimately show ?thesis
    using x86_inslen_measures [of XO_ARITHi "0 OR REX_64" 9 0 ?st _ RID_MRM 0] by (simp add: modes_def imm_bytes_def)
qed

end
