(* ===== verification/LJ_X86_Sem.thy ===== *)
theory LJ_X86_Sem
  imports LJ_X86_Decode
begin

text \<open>
  What the instructions of \<open>LJ_Emit_X86\<close> that load constants, jump and call do.
\<close>

section \<open>Constants\<close>

definition addr_of :: "64 word \<Rightarrow> 8 word list \<Rightarrow> 64 word" where
  "addr_of hi bs = hi - of_nat (length bs)"

definition ea :: "64 word \<Rightarrow> (nat \<Rightarrow> 64 word) \<Rightarrow> operand \<Rightarrow> 8 word list \<Rightarrow> 64 word" where
  "ea hi R opnd rest =
     (case opnd of Reg r \<Rightarrow> R r
      | Mem b i d \<Rightarrow> (case b of None \<Rightarrow> 0 | Some b \<Rightarrow> R b) + (case i of None \<Rightarrow> 0 | Some (i, s) \<Rightarrow> R i * of_nat s) + d
      | Rip d \<Rightarrow> addr_of hi rest + d)"

definition un_le64 :: "8 word list \<Rightarrow> 64 word" where
  "un_le64 bs = ucast (un_le32 bs) OR push_bit 32 (ucast (un_le32 (drop 4 bs)))"

text \<open>
  One step over an instruction that loads a constant. The second component of the state tells whether
  the flags are still what they were.
\<close>

definition step_movri :: "8 word \<Rightarrow> 8 word \<Rightarrow> 8 word list \<Rightarrow> (nat \<Rightarrow> 64 word) \<times> bool \<Rightarrow> ((nat \<Rightarrow> 64 word) \<times> bool) \<times> 8 word list" where
  "step_movri rex b p = (\<lambda>(R, fl).
     if bit rex 3 then ((R(ext rex 0 b := un_le64 p), fl), drop 8 p)
     else ((R(ext rex 0 b := ucast (un_le32 p)), fl), drop 4 p))"

definition step_x86 ::
  "64 word \<Rightarrow> 8 word list \<Rightarrow> (nat \<Rightarrow> 64 word) \<times> bool \<Rightarrow> (((nat \<Rightarrow> 64 word) \<times> bool) \<times> 8 word list) option" where
  "step_x86 hi bs s =
     (let (opc, rex, p) = take_head bs; b = hd (snd opc) in
      if opc = (None, [b]) \<and> drop_bit 3 b = 0x17 then Some (step_movri rex b p s)
      else
        case decode bs of None \<Rightarrow> None
        | Some (opc, w, reg, opnd, rest) \<Rightarrow>
            (case (opc, opnd, s) of
               ((None, [b]), Reg r, (R, fl)) \<Rightarrow>
                 if b = 0x33 \<and> \<not> w then Some ((R(reg := ucast (ucast (R reg) XOR ucast (R r) :: 32 word)), False), rest)
                 else if b = 0xc7 \<and> reg = 0 \<and> w then Some ((R(r := scast (un_le32 rest)), fl), drop 4 rest)
                 else None
             | ((None, [b]), _, (R, fl)) \<Rightarrow>
                 if b = 0x8d \<and> w then Some ((R(reg := ea hi R opnd rest), fl), rest) else None
             | _ \<Rightarrow> None))"

fun starts_jcc :: "8 word list \<Rightarrow> bool" where
  "starts_jcc (b # c # _) \<longleftrightarrow> drop_bit 4 b = 7 \<or> (b = 0x0f \<and> drop_bit 4 c = 8)"
| "starts_jcc _ \<longleftrightarrow> False"

lemma word16_cases: "(r :: 32 word) < 16 \<Longrightarrow> r \<in> {0, 1, 2, 3, 4, 5, 6, 7, 8, 9, 10, 11, 12, 13, 14, 15}"
proof -
  assume "r < 16"
  then have "unat r < 16" by (simp add: word_less_nat_alt)
  then have "unat r \<in> set [0..<16]" by simp
  then have "r \<in> of_nat ` set [0..<16]" by (intro image_eqI [of _ _ "unat r"]) simp_all
  then show ?thesis by (simp add: upt_rec)
qed

lemma un_le64_le64: "un_le64 (le64 u @ p) = u"
proof -
  have "un_le64 (le64 u @ p) = ucast (ucast u :: 32 word) OR push_bit 32 (ucast (ucast (drop_bit 32 u) :: 32 word))"
    using un_le32_le32 [of "ucast u" "le32 (ucast (drop_bit 32 u)) @ p"] un_le32_le32 [of "ucast (drop_bit 32 u)" p]
    by (simp add: un_le64_def le64_def)
  also have "\<dots> = u" by (rule bit_word_eqI) (auto simp: bit_simps)
  finally show ?thesis .
qed

lemma narrow_u32: "checku32 (uint (x :: 64 word)) \<Longrightarrow> ucast (ucast x :: 32 word) = x"
proof -
  assume c: "checku32 (uint x)"
  have d: "word_of_int (uint x) = (ucast x :: 32 word)" by (simp only: ucast_eq)
  have "(ucast (ucast x :: 32 word) :: 64 word) = word_of_int (uint (ucast x :: 32 word))" by (simp only: ucast_eq)
  also have "\<dots> = word_of_int (uint x)" using c unfolding checku32_def d by (rule arg_cong [OF sym])
  finally show ?thesis by simp
qed

lemma step_loadi:
  assumes "r < 16"
  shows "step_x86 hi (REXRB 0 r (ucast (XI_MOVri + (r AND 7)) # le32 i @ p)) (R, fl) = Some ((R(unat r := ucast i), fl), p)"
  using word16_cases [OF assms]
  by (elim insertE emptyE)
    (simp_all add: REXRB_def XI_MOVri_def step_x86_def take_head_def take_pfx_def take_rex_def take_op_def step_movri_def
      ext_def un_le32_le32)

lemma step_full:
  assumes "r < 16"
  shows "step_x86 hi (mc (full_load r u st)) (R, fl) = Some ((R(unat r := u), fl), mc st)"
proof -
  have "drop 8 (le64 u @ mc st) = mc st" by (simp add: le64_def)
  then show ?thesis using word16_cases [OF assms]
  by (elim insertE emptyE)
    (simp_all add: full_load_def put_bytes_def XI_MOVri_def step_x86_def take_head_def take_pfx_def take_rex_def take_op_def step_movri_def
      ext_def un_le64_le64)
qed

lemma or_rex:
  assumes "(r :: 32 word) < 16"
  shows "reg_ok (r OR REX_64)" "regno (r OR REX_64) = unat r" "bit (r OR REX_64) 19" "regno r = unat r" "reg_ok r" "\<not> bit r 19"
  using word16_cases [OF assms]
  by (elim insertE emptyE; simp add: reg_ok_def regno_def REX_64_def FORCE_REX_def)+

text \<open>Instructions that decode are executed by their opcode and operand.\<close>

lemma step_decoded:
  assumes "op_ok xo" "reg_ok rr" "op_code xo = (None, [b])" "drop_bit 3 b \<noteq> 0x17"
  shows "step_x86 hi (emit_op xo rr rb rx p) s =
    (case decode (emit_op xo rr rb rx p) of None \<Rightarrow> None
     | Some (opc, w, reg, opnd, rest) \<Rightarrow>
         (case (opc, opnd, s) of
            ((None, [b]), Reg r, (R, fl)) \<Rightarrow>
              if b = 0x33 \<and> \<not> w then Some ((R(reg := ucast (ucast (R reg) XOR ucast (R r) :: 32 word)), False), rest)
              else if b = 0xc7 \<and> reg = 0 \<and> w then Some ((R(r := scast (un_le32 rest)), fl), drop 4 rest)
              else None
          | ((None, [b]), _, (R, fl)) \<Rightarrow>
              if b = 0x8d \<and> w then Some ((R(reg := ea hi R opnd rest), fl), rest) else None
          | _ \<Rightarrow> None))"
  using assms by (simp add: step_x86_def take_head_emit_op Let_def)

lemma ops_known:
  "op_ok XO_LEA" "op_code XO_LEA = (None, [0x8d])" "op_ok XO_MOVmi" "op_code XO_MOVmi = (None, [0xc7])"
  "op_ok (XO_ARITH XOg_XOR)" "op_code (XO_ARITH XOg_XOR) = (None, [0x33])"
  "op_ok XO_GROUP5" "op_code XO_GROUP5 = (None, [0xff])"
  by (simp_all add: op_ok_def op_code_def op_len_def plain_op_def x86_ops xo_macros XO_ARITH_def x86_groups Let_def)

lemma mc_emit_rmro: "\<exists>rb' rx p. mc (emit_rmro xo rr rb ofs st) = emit_op xo rr rb' rx p"
  by (auto simp: emit_rmro_def emit_opm_def Let_def split: prod.splits)

lemma step_lea:
  assumes "r < 16" "mem_operand rb ofs = opnd" "opnd \<notin> range Reg"
  shows "step_x86 hi (mc (emit_rmro XO_LEA (r OR REX_64) rb ofs st)) (R, fl)
    = Some ((R(unat r := ea hi R opnd (mc st)), fl), mc st)"
proof -
  note q = or_rex [OF assms(1)]
  obtain rb' rx p where e: "mc (emit_rmro XO_LEA (r OR REX_64) rb ofs st) = emit_op XO_LEA (r OR REX_64) rb' rx p"
    using mc_emit_rmro by blast
  have "decode (emit_op XO_LEA (r OR REX_64) rb' rx p) = Some ((None, [0x8d]), True, unat r, opnd, mc st)"
    using decode_rmro [OF ops_known(1) q(1), of rb ofs st] by (simp add: e assms q ops_known)
  then show ?thesis unfolding e using assms(3)
    by (cases opnd) (auto simp: step_decoded [OF ops_known(1) q(1) ops_known(2)])
qed

lemma step_movmi:
  assumes "r < 16"
  shows "step_x86 hi (emit_opm XO_MOVmi XM_REG REX_64 r (le32 i @ p)) (R, fl) = Some ((R(unat r := scast i), fl), p)"
proof -
  have k: "reg_ok REX_64" "bit REX_64 19" "regno REX_64 = 0" by (simp_all add: reg_ok_def REX_64_def FORCE_REX_def regno_def)
  have "decode (emit_opm XO_MOVmi XM_REG REX_64 r (le32 i @ p)) = Some ((None, [0xc7]), True, 0, Reg (unat r), le32 i @ p)"
    using decode_opm [OF ops_known(3) k(1) modrm_reg [OF rex_of_fits], of r "le32 i @ p"] k or_rex(4) [OF assms]
    by (simp add: ops_known)
  then show ?thesis unfolding emit_opm_def
    by (simp add: step_decoded [OF ops_known(3) k(1) ops_known(4)] un_le32_le32)
qed

lemma step_xor:
  assumes "r < 16"
  shows "step_x86 hi (mc (emit_rr (XO_ARITH XOg_XOR) r r st)) (R, fl) = Some ((R(unat r := 0), False), mc st)"
proof -
  note q = or_rex [OF assms]
  have "decode (mc (emit_rr (XO_ARITH XOg_XOR) r r st)) = Some ((None, [0x33]), False, unat r, Reg (unat r), mc st)"
    using decode_rr [OF ops_known(5) q(5), of r st] q by (simp add: ops_known)
  then show ?thesis unfolding emit_rr_def emit_opm_def
    by (simp add: step_decoded [OF ops_known(5) q(5) ops_known(6)])
qed

lemma hi_nibble: "ucast (b :: 8 word) AND (0xf0 :: 32 word) = 0x70 \<longleftrightarrow> drop_bit 4 b = 7"
  "ucast b AND (0xf0 :: 32 word) = 0x80 \<longleftrightarrow> drop_bit 4 b = 8"
proof -
  have u: "ucast b AND (0xf0 :: 32 word) = push_bit 4 (ucast (drop_bit 4 b))"
  proof -
    have m: "(0xf0 :: 32 word) = push_bit 4 (mask 4)" by (simp add: mask_eq_exp_minus_1)
    show ?thesis unfolding m by (rule bit_word_eqI) (auto simp: bit_simps dest: bit_imp_le_length)
  qed
  have i: "push_bit 4 (ucast (drop_bit 4 b)) = (push_bit 4 (ucast n) :: 32 word) \<longleftrightarrow> drop_bit 4 b = n" if "n < 16" for n
  proof -
    have "drop_bit 4 (push_bit 4 (ucast x) :: 32 word) = ucast (x :: 8 word)" for x
      by (rule bit_word_eqI) (auto simp: bit_simps dest: bit_imp_le_length)
    then show ?thesis by (metis byte_eq)
  qed
  from i [of 7] i [of 8] show "ucast b AND (0xf0 :: 32 word) = 0x70 \<longleftrightarrow> drop_bit 4 b = 7"
    "ucast b AND (0xf0 :: 32 word) = 0x80 \<longleftrightarrow> drop_bit 4 b = 8"
    unfolding u by simp_all
qed

lemma loadi_x86_step:
  assumes "r < 16"
  shows "\<exists>fl'. step_x86 hi (mc (emit_loadi_x86 E r i st)) (R, fl) = Some ((R(unat r := ucast i), fl'), mc st) \<and>
    (starts_jcc (mc st) \<longrightarrow> fl' = fl)"
proof -
  let ?xor = "i = 0 \<and> \<not> ((at_mcp E st 0 = 0x0f \<and> ucast (at_mcp E st 1) AND 0xf0 = XI_JCCn) \<or>
                    ucast (at_mcp E st 0) AND 0xf0 = XI_JCCs)"
  show ?thesis
  proof (cases ?xor)
    case True
    have "\<not> starts_jcc (mc st)" using True
      by (cases "mc st" rule: starts_jcc.cases)
        (auto simp: at_mcp_def XI_JCCn_def XI_JCCs_def hi_nibble)
    then show ?thesis using True step_xor [OF assms, of hi st R fl]
      by (intro exI [of _ False]) (simp add: emit_loadi_x86_def)
  next
    case False
    then have "mc (emit_loadi_x86 E r i st) = REXRB 0 r (ucast (XI_MOVri + (r AND 7)) # le32 i @ mc st)"
      unfolding emit_loadi_x86_def by (subst if_not_P) simp_all
    then show ?thesis using step_loadi [OF assms] by simp
  qed
qed

lemma loadu64_x86_step:
  assumes "r < 16" "R (RID_DISPATCH (abi_win E)) = disptab E"
  shows "\<exists>fl'. step_x86 (mctop st) (mc (emit_loadu64_x86 E r u st)) (R, fl) = Some ((R(unat r := u), fl'), mc st) \<and>
    (starts_jcc (mc st) \<longrightarrow> fl' = fl)"
proof -
  consider (zx) "checku32 (uint u)" | (sx) "\<not> checku32 (uint u)" "checki32 (sint u)"
    | (disp) "\<not> checku32 (uint u)" "\<not> checki32 (sint u)" "checki32 (sint (dispofs E u))"
    | (rip) "\<not> checku32 (uint u)" "\<not> checki32 (sint u)" "\<not> checki32 (sint (dispofs E u))" "checki32 (sint (mcpofs_x86 st u))"
        "checki32 (sint (mctopofs st u))"
    | (full) "mc (emit_loadu64_x86 E r u st) = mc (full_load r u st)"
    unfolding emit_loadu64_x86_def
    by (cases "checku32 (uint u)"; cases "checki32 (sint u)"; cases "checki32 (sint (dispofs E u))";
        cases "checki32 (sint (mcpofs_x86 st u)) \<and> checki32 (sint (mctopofs st u))"; simp)
  then show ?thesis
  proof cases
    case zx
    then show ?thesis using loadi_x86_step [OF assms(1), of "mctop st" E "ucast u" st R fl]
      by (simp add: emit_loadu64_x86_def narrow_u32)
  next
    case sx
    then show ?thesis by (simp add: emit_loadu64_x86_def step_movmi [OF assms(1)] narrow_checks)
  next
    case disp
    let ?d = "of_nat (RID_DISPATCH (abi_win E)) :: 32 word" and ?o = "ucast (dispofs E u) :: 32 word"
    have "mem_operand ?d ?o = Mem (Some (RID_DISPATCH (abi_win E))) None (dispofs E u)"
      by (cases "abi_win E") (simp_all add: mem_operand_def RID_DISPATCH_def rids ra_hasreg_def regno_def narrow_checks(3) [OF disp(3)])
    then show ?thesis using disp step_lea [OF assms(1), of ?d ?o _ "mctop st" st R fl] assms(2)
      by (auto simp: emit_loadu64_x86_def ea_def dispofs_def)
  next
    case rip
    have "mem_operand RID_RIP (ucast (mcpofs_x86 st u)) = Rip (mcpofs_x86 st u)"
      by (simp add: mem_operand_def narrow_checks(3) [OF rip(4)])
    then show ?thesis using rip step_lea [OF assms(1), of RID_RIP "ucast (mcpofs_x86 st u)" _ "mctop st" st R fl]
      by (auto simp: emit_loadu64_x86_def ea_def mcpofs_x86_def addr_of_def mcp_x86_def)
  next
    case full
    then show ?thesis by (simp add: step_full [OF assms(1)])
  qed
qed

text \<open>
  C29. Loading a 64 bit constant on x64: one instruction, after which the register holds the constant and
  the others what they held, whichever form is picked (an exclusive or, a zero or sign extended 32 bit
  immediate, an address relative to the dispatch table or to the next instruction, a full immediate).
  When a conditional jump follows, the flags it tests are left alone.
\<close>

theorem x86_loadu64_loads:
  assumes "r < 16" "R (RID_DISPATCH (abi_win E)) = disptab E"
  shows "\<exists>fl'. step_x86 (mctop st) (mc (emit_loadu64_x86 E r u st)) (R, fl) = Some ((R(unat r := u), fl'), mc st) \<and>
    (starts_jcc (mc st) \<longrightarrow> fl' = fl)"
  using assms by (rule loadu64_x86_step)

section \<open>Jumps and calls\<close>

datatype branch = Jump | Call | Cond "8 word"

definition branch_of :: "64 word \<Rightarrow> 8 word list \<Rightarrow> (branch \<times> 64 word \<times> 8 word list) option" where
  "branch_of hi bs =
     (let rel8 = (\<lambda>k p. map_option (\<lambda>(d, p). (k, addr_of hi p + d, p)) (take_disp 1 p));
          rel32 = (\<lambda>k p. map_option (\<lambda>(d, p). (k, addr_of hi p + d, p)) (take_disp 2 p)) in
      case bs of [] \<Rightarrow> None
      | b # p \<Rightarrow>
          if b = 0xe9 then rel32 Jump p
          else if b = 0xe8 then rel32 Call p
          else if drop_bit 4 b = 7 then rel8 (Cond (b AND 15)) p
          else if b = 0x0f then
            (case p of [] \<Rightarrow> None
             | c # p \<Rightarrow> if drop_bit 4 c = 8 then rel32 (Cond (c AND 15)) p else None)
          else None)"

lemma cc_bytes:
  "drop_bit 4 (ucast (XI_JCCs + (cc AND 15)) :: 8 word) = 7" "(ucast (XI_JCCs + (cc AND 15)) :: 8 word) AND 15 = ucast (cc AND 15)"
  "drop_bit 4 (ucast (XI_JCCn + (cc AND 15)) :: 8 word) = 8" "(ucast (XI_JCCn + (cc AND 15)) :: 8 word) AND 15 = ucast (cc AND 15)"
proof -
  have "cc AND 15 \<le> 15" using word_and_le1 [of cc 15] word_and_le2 [of cc 15] by simp
  then have "cc AND 15 < 16" by (simp add: word_le_nat_alt word_less_nat_alt)
  from word16_cases [OF this] show
    "drop_bit 4 (ucast (XI_JCCs + (cc AND 15)) :: 8 word) = 7" "(ucast (XI_JCCs + (cc AND 15)) :: 8 word) AND 15 = ucast (cc AND 15)"
    "drop_bit 4 (ucast (XI_JCCn + (cc AND 15)) :: 8 word) = 8" "(ucast (XI_JCCn + (cc AND 15)) :: 8 word) AND 15 = ucast (cc AND 15)"
    by (elim insertE emptyE; simp add: XI_JCCs_def XI_JCCn_def)+
qed

lemma cc_not_jump: "drop_bit 4 (b :: 8 word) = 7 \<Longrightarrow> b \<noteq> 0xe9 \<and> b \<noteq> 0xe8"
  by auto

lemma small_back: "0 < k \<Longrightarrow> k \<le> 128 \<Longrightarrow> checki8 (sint (- of_nat k :: 64 word))"
proof -
  assume k: "0 < k" "k \<le> 128"
  have "(- of_nat k :: 64 word) = word_of_int (- int k)" by simp
  then have "sint (- of_nat k :: 64 word) = signed_take_bit 63 (- int k)" by (simp only: signed_of_int) simp
  also have "\<dots> = - int k" using k by (simp add: signed_take_bit_int_eq_self_iff)
  finally show ?thesis using k by (simp add: checki8_range)
qed

lemma sfixup_bytes:
  assumes "emit_sjcc_label cc st = (l, st1)" "length ws \<le> 126" "st2 = st1\<lparr>mc := ws @ mc st1\<rparr>"
  shows "mc (emit_sfixup l st2) = ws @ [ucast (XI_JCCs + (cc AND 15)), ucast (mcp_x86 st2 - mcp_x86 st)] @ mc st"
    "mcp_x86 st2 - mcp_x86 st = - of_nat (length ws + 2)"
proof -
  have s: "l = mcp_x86 st" "mc st2 = ws @ [ucast (XI_JCCs + (cc AND 15)), 0] @ mc st" "mctop st2 = mctop st"
    using assms by (auto simp: emit_sjcc_label_def put_bytes_def)
  show d: "mcp_x86 st2 - mcp_x86 st = - of_nat (length ws + 2)" by (simp add: mcp_x86_def s)
  have "l - 1 - mcp_x86 st2 = of_nat (length ws + 1)" by (simp add: mcp_x86_def s)
  then have "unat (l - 1 - mcp_x86 st2) = length ws + 1" using assms(2) by (simp only: unat_of_nat) (simp add: take_bit_nat_eq_self_iff)
  then show "mc (emit_sfixup l st2) = ws @ [ucast (XI_JCCs + (cc AND 15)), ucast (mcp_x86 st2 - mcp_x86 st)] @ mc st"
    by (simp add: emit_sfixup_def s list_update_append)
qed

lemma far_rel: "checki32 (sint (target - mcp_x86 st)) \<Longrightarrow> addr_of (mctop st) (mc st) + scast (jmprel (mcp_x86 st) target) = target"
  by (simp add: jmprel_def narrow_checks addr_of_def mcp_x86_def)

lemma sjcc_bytes:
  "checki8 (sint (target - mcp_x86 st)) \<Longrightarrow>
     branch_of (mctop st) ([ucast (XI_JCCs + (cc AND 15)), ucast (target - mcp_x86 st)] @ mc st)
       = Some (Cond (ucast (cc AND 15)), target, mc st)"
  using cc_not_jump [OF cc_bytes(1), of cc]
  by (simp add: branch_of_def cc_bytes take_disp_def addr_of_def mcp_x86_def narrow_checks)

lemma near_branches:
  "checki32 (sint (target - mcp_x86 st)) \<Longrightarrow>
     branch_of (mctop st) (mc (emit_jcc cc target st)) = Some (Cond (ucast (cc AND 15)), target, mc st) \<and>
     branch_of (mctop st) (mc (emit_jmp_x86 target st)) = Some (Jump, target, mc st) \<and>
     branch_of (mctop st) (mc (emit_call_x86 E target st)) = Some (Call, target, mc st)"
  using far_rel [of target st]
  by (simp add: branch_of_def emit_jcc_def emit_jmp_x86_def emit_call_x86_def put_bytes_def cc_bytes disp32
      XI_JMP_def XI_CALL_def)

lemma far_call:
  assumes "\<not> checki32 (sint (target - mcp_x86 st))" "R (RID_DISPATCH (abi_win E)) = disptab E"
  shows "\<exists>fl' code. step_x86 (mctop st) (mc (emit_call_x86 E target st)) (R, fl) = Some ((R(0 := target), fl'), code) \<and>
    decode code = Some ((None, [0xff]), False, 2, Reg 0, mc st)"
proof -
  let ?st = "emit_rr XO_GROUP5 XOg_CALL RID_RET_x86 st"
  have r: "RID_RET_x86 = 0" "XOg_CALL = 2" by (simp_all add: RID_RET_x86_def XOg_CALL_def)
  have "decode (mc ?st) = Some ((None, [0xff]), False, 2, Reg 0, mc st)"
    using decode_rr [OF ops_known(7), of 2 0 st] or_rex(4-6) [of 2] by (simp add: r ops_known regno_def)
  moreover have "mctop ?st = mctop st" by (simp add: emit_rr_def)
  ultimately show ?thesis using loadu64_x86_step [of 0 R E ?st target fl] assms
    by (auto simp: emit_call_x86_def r)
qed

text \<open>
  C30. The branches the x64 emitter writes go where they were told to. A conditional jump, a jump and
  a call whose target is within 32 bits reach it; a call beyond loads the target into the register of
  the result and calls through it. A short conditional jump reaches its target within 8 bits, and one
  whose label was left open reaches, after \<open>emit_sfixup\<close>, the code emitted at that moment, with up to
  126 bytes in between, and nothing else of the code changes.
\<close>

theorem x86_branches_reach:
  assumes "R (RID_DISPATCH (abi_win E)) = disptab E"
    "emit_sjcc_label cc st = (l, st1)" "length ws \<le> 126" "st2 = st1\<lparr>mc := ws @ mc st1\<rparr>"
  shows "(if checki32 (sint (target - mcp_x86 st))
     then branch_of (mctop st) (mc (emit_jcc cc target st)) = Some (Cond (ucast (cc AND 15)), target, mc st) \<and>
       branch_of (mctop st) (mc (emit_jmp_x86 target st)) = Some (Jump, target, mc st) \<and>
       branch_of (mctop st) (mc (emit_call_x86 E target st)) = Some (Call, target, mc st)
     else \<exists>fl' code. step_x86 (mctop st) (mc (emit_call_x86 E target st)) (R, fl) = Some ((R(0 := target), fl'), code) \<and>
        decode code = Some ((None, [0xff]), False, 2, Reg 0, mc st)) \<and>
    (checki8 (sint (target - mcp_x86 st)) \<longrightarrow>
      branch_of (mctop st) (mc (emit_sjcc cc target st)) = Some (Cond (ucast (cc AND 15)), target, mc st)) \<and>
    (\<exists>jcc. mc (emit_sfixup l st2) = ws @ jcc \<and>
      branch_of (mctop st) jcc = Some (Cond (ucast (cc AND 15)), mcp_x86 st2, mc st))"
proof (intro conjI)
  show "if checki32 (sint (target - mcp_x86 st))
     then branch_of (mctop st) (mc (emit_jcc cc target st)) = Some (Cond (ucast (cc AND 15)), target, mc st) \<and>
       branch_of (mctop st) (mc (emit_jmp_x86 target st)) = Some (Jump, target, mc st) \<and>
       branch_of (mctop st) (mc (emit_call_x86 E target st)) = Some (Call, target, mc st)
     else \<exists>fl' code. step_x86 (mctop st) (mc (emit_call_x86 E target st)) (R, fl) = Some ((R(0 := target), fl'), code) \<and>
        decode code = Some ((None, [0xff]), False, 2, Reg 0, mc st)"
    using near_branches far_call [of target st R E fl] assms(1) by simp
  show "checki8 (sint (target - mcp_x86 st)) \<longrightarrow>
      branch_of (mctop st) (mc (emit_sjcc cc target st)) = Some (Cond (ucast (cc AND 15)), target, mc st)"
    using sjcc_bytes [of target st cc] by (simp add: emit_sjcc_def put_bytes_def)
  note f = sfixup_bytes [OF assms(2-4)]
  have "checki8 (sint (mcp_x86 st2 - mcp_x86 st))" unfolding f(2) by (rule small_back) (use assms(3) in simp_all)
  then show "\<exists>jcc. mc (emit_sfixup l st2) = ws @ jcc \<and>
      branch_of (mctop st) jcc = Some (Cond (ucast (cc AND 15)), mcp_x86 st2, mc st)"
    using f(1) sjcc_bytes [of "mcp_x86 st2" st cc] by blast
qed

definition env0_x86 :: env_x86 where
  "env0_x86 = \<lparr>abi_win = False, disptab = 0x7f0000000000, glbase = 0x7f0000000100, kaddr = (\<lambda>ref. 0), kval64 = (\<lambda>ref. 0),
     above = (\<lambda>k. 0), redzone = 64\<rparr>"

theorem x86_loadu64_loads_witness:
  "\<exists>fl'. step_x86 0x10000 (mc (emit_loadu64_x86 env0_x86 9 0x123456789abcdef0 empty_x86)) (\<lambda>r. 0x7f0000000000, True)
     = Some (((\<lambda>r. 0x7f0000000000)(9 := 0x123456789abcdef0), fl'), [])"
  using x86_loadu64_loads [of 9 "\<lambda>r. 0x7f0000000000" env0_x86 empty_x86 "0x123456789abcdef0" True]
  by (auto simp: env0_x86_def empty_x86_def)

theorem x86_branches_reach_witness:
  "\<exists>jcc. mc (emit_sfixup 0x10000 (empty_x86\<lparr>mc := [0x90, 0x90, 0x75, 0]\<rparr>)) = [0x90, 0x90] @ jcc \<and>
     branch_of 0x10000 jcc = Some (Cond 5, 0xfffc, [])"
  using x86_branches_reach [of "\<lambda>r. 0x7f0000000000" env0_x86 5 empty_x86 "0x10000" "empty_x86\<lparr>mc := [0x75, 0]\<rparr>" "[0x90, 0x90]"]
  by (simp add: env0_x86_def emit_sjcc_label_def put_bytes_def empty_x86_def mcp_x86_def XI_JCCs_def)

section \<open>Operands at an address\<close>

lemma dispatch_operand:
  "checki32 (sint (dispofs E addr)) \<Longrightarrow>
     mem_operand (of_nat (RID_DISPATCH (abi_win E))) (ucast (dispofs E addr))
       = Mem (Some (RID_DISPATCH (abi_win E))) None (dispofs E addr)"
  by (cases "abi_win E") (simp_all add: mem_operand_def RID_DISPATCH_def rids ra_hasreg_def regno_def narrow_checks)

lemma rip_operand:
  "checki32 (sint (mcpofs_x86 st addr)) \<Longrightarrow> mem_operand RID_RIP (ucast (mcpofs_x86 st addr)) = Rip (mcpofs_x86 st addr)"
  by (simp add: mem_operand_def narrow_checks)

lemma base_operand: "r < 16 \<Longrightarrow> mem_operand r 0 = Mem (Some (unat r)) None 0"
  by (drule word16_cases, elim insertE emptyE) (simp_all add: mem_operand_def rids ra_hasreg_def regno_def)

lemma decode_abs:
  assumes "op_ok xo" "reg_ok rr" "checki32 (sint addr)"
  shows "decode (emit_opm xo XM_OFS0 rr RID_ESP (MODRM XM_SCALE1 RID_ESP RID_EBP # le32 (ptr2addr addr) @ p))
    = Some (op_code xo, bit rr 19, regno rr, Mem None None addr, p)"
  using decode_opm [OF assms(1,2) modrm_abs [OF rex_of_fits]] narrow_checks(3) [OF assms(3)] by (simp add: ptr2addr_def)

lemma rip_address: "n \<le> length (mc st) \<Longrightarrow> addr_of (mctop st) (drop n (mc st)) + mcpofs_x86 st addr = addr + of_nat n"
  by (simp add: addr_of_def mcpofs_x86_def mcp_x86_def of_nat_diff)

text \<open>
  C31. Where an operand given by its address is. The bytes of \<open>emit_rma\<close> decode to the opcode with an operand
  that names the address, reached from the dispatch register, from the instruction pointer or
  absolutely. The displacement from the instruction pointer is computed from the code emitted so far, which
  for an instruction with \<open>n\<close> bytes of immediate operand starts with those bytes, but the processor adds it
  to the address behind them: then the operand is \<open>n\<close> bytes off (the byte tests of the collector's marks
  and of the hook mask have \<open>n = 1\<close>).
\<close>

theorem x86_rma_operand:
  assumes "xo \<in> set var_ops" "reg_ok rr" "R (RID_DISPATCH (abi_win E)) = disptab E" "n \<le> length (mc st)"
    and "dreach = checki32 (sint (dispofs E addr))"
    and "preach = (checki32 (sint (mcpofs_x86 st addr)) \<and> checki32 (sint (mctopofs st addr)))"
    and "dreach \<or> preach \<or> checki32 (sint addr)"
  shows "\<exists>opnd. decode (mc (emit_rma E xo rr addr st)) = Some (op_code xo, bit rr 19, regno rr, opnd, mc st) \<and>
    ea (mctop st) R opnd (drop n (mc st)) = (if \<not> dreach \<and> preach then addr + of_nat n else addr)"
proof -
  have ok: "op_ok xo" using assms(1) var_ops_ok by (simp add: list_all_iff)
  consider (disp) "dreach" | (rip) "\<not> dreach" "preach" | (abs) "\<not> dreach" "\<not> preach" "checki32 (sint addr)"
    using assms(7) by blast
  then show ?thesis
  proof cases
    case disp
    then show ?thesis unfolding assms(5)
      using decode_rmro [OF ok assms(2)] dispatch_operand [of E addr] assms(3)
      by (auto simp: emit_rma_def ea_def dispofs_def)
  next
    case rip
    then show ?thesis unfolding assms(5,6)
      using decode_rmro [OF ok assms(2)] rip_operand [of st addr] rip_address [OF assms(4), of addr]
      by (auto simp: emit_rma_def ea_def)
  next
    case abs
    then show ?thesis unfolding assms(5,6) using decode_abs [OF ok assms(2) abs(3)]
      by (auto simp: emit_rma_def ea_def)
  qed
qed

text \<open>Out of reach, a move loads the address into its destination first.\<close>

lemma rma_far_move:
  assumes "\<not> checki32 (sint (dispofs E addr))" "\<not> (checki32 (sint (mcpofs_x86 st addr)) \<and> checki32 (sint (mctopofs st addr)))"
    "\<not> checki32 (sint addr)" "reg_ok rr" "R (RID_DISPATCH (abi_win E)) = disptab E"
  shows "\<exists>fl' code. step_x86 (mctop st) (mc (emit_rma E XO_MOV rr addr st)) (R, fl) = Some ((R(regno rr := addr), fl'), code) \<and>
    decode code = Some ((None, [0x8b]), bit rr 19, regno rr, Mem (Some (regno rr)) None 0, mc st)"
proof -
  let ?ra = "rr AND 15" let ?st = "emit_rmro XO_MOV rr ?ra 0 st"
  have ra: "?ra < 16"
    using word_and_le1 [of rr 15] word_and_le2 [of rr 15] by (simp add: word_le_nat_alt word_less_nat_alt)
  have "op_ok XO_MOV" "op_code XO_MOV = (None, [0x8b])"
    by (simp_all add: op_ok_def op_code_def op_len_def plain_op_def XO_MOV_def XO_1_def Let_def)
  then have "decode (mc ?st) = Some ((None, [0x8b]), bit rr 19, regno rr, Mem (Some (regno rr)) None 0, mc st)"
    using decode_rmro [OF _ assms(4)] base_operand [OF ra] by (simp add: regno_def)
  moreover have "mctop ?st = mctop st" by (simp add: emit_rmro_def Let_def split: prod.split)
  moreover have "emit_rma E XO_MOV rr addr st = emit_loadu64_x86 E ?ra addr ?st" using assms(1-3) by (auto simp: emit_rma_def)
  ultimately show ?thesis using loadu64_x86_step [OF ra, of R E ?st addr fl] assms(5) by (auto simp: regno_def)
qed

text \<open>
  Another instruction borrows the dispatch register: the address is loaded into it, the operand is there,
  and the register is loaded again behind the instruction, in front of which a byte operand is kept.
\<close>

lemma reload_dispatch_step:
  assumes "R' = R(RID_DISPATCH (abi_win E) := disptab E)"
  shows "\<exists>fl'. step_x86 (mctop st) (mc (reload_dispatch E st)) (R, fl) = Some ((R', fl'), mc st) \<and>
    (starts_jcc (mc st) \<longrightarrow> fl' = fl)"
proof -
  let ?d = "of_nat (RID_DISPATCH (abi_win E)) :: 32 word"
  have d: "?d < 16" "unat ?d = RID_DISPATCH (abi_win E)" by (cases "abi_win E"; simp add: RID_DISPATCH_def)+
  show ?thesis
    using loadi_x86_step [OF d(1), of "mctop st" E "ucast (disptab E)" st R fl] step_full [OF d(1), of "mctop st" "disptab E" st R fl]
    by (auto simp: reload_dispatch_def assms d(2) narrow_u32)
qed

lemma rma_far_borrow:
  assumes "\<not> checki32 (sint (dispofs E addr))" "\<not> (checki32 (sint (mcpofs_x86 st addr)) \<and> checki32 (sint (mctopofs st addr)))"
    "\<not> checki32 (sint addr)" "op_ok xo" "reg_ok rr" "R (RID_DISPATCH (abi_win E)) = disptab E" "xo \<noteq> XO_MOV"
    "mc st = imm @ p" "length imm = (if xo = XO_GROUP3b then 1 else 0)"
  shows "\<exists>fl1 fl2 code rest. step_x86 (mctop st) (mc (emit_rma E xo rr addr st)) (R, fl)
        = Some ((R(RID_DISPATCH (abi_win E) := addr), fl1), code) \<and>
    decode code = Some (op_code xo, bit rr 19, regno rr, Mem (Some (RID_DISPATCH (abi_win E))) None 0, imm @ rest) \<and>
    step_x86 (mctop st) rest (R(RID_DISPATCH (abi_win E) := addr), fl) = Some ((R, fl2), p) \<and> (starts_jcc p \<longrightarrow> fl2 = fl)"
proof -
  let ?d = "RID_DISPATCH (abi_win E)" let ?dw = "of_nat ?d :: 32 word"
  have d: "?dw < 16" "unat ?dw = ?d" by (cases "abi_win E"; simp add: RID_DISPATCH_def)+
  let ?st0 = "st\<lparr>mc := p\<rparr>" let ?st1 = "reload_dispatch E ?st0"
  let ?st2 = "put_bytes imm ?st1" let ?st3 = "emit_rmro xo rr ?dw 0 ?st2"
  have top: "mctop ?st1 = mctop st" "mctop ?st2 = mctop st" "mctop ?st3 = mctop st"
    by (auto simp: emit_rmro_def reload_dispatch_def emit_loadi_x86_def emit_rr_def full_load_def put_bytes_def Let_def split: prod.split)
  have "emit_rma E xo rr addr st = emit_loadu64_x86 E ?dw addr ?st3"
  proof (cases "xo = XO_GROUP3b")
    case True
    then obtain b where b: "imm = [b]" using assms(9) by (cases imm) auto
    then have "at_mcp E st 0 = b" "tl (mc st) = p" using assms(8) by (simp_all add: at_mcp_def)
    then show ?thesis using assms(1-3,7) True b by (auto simp: emit_rma_def)
  next
    case False
    then have i: "imm = []" "st\<lparr>mc := p\<rparr> = st" using assms(8,9) by simp_all
    have "put_bytes [] x = x" for x by (simp add: put_bytes_def)
    then show ?thesis using assms(1-3,7) False by (auto simp: emit_rma_def i)
  qed
  moreover have "decode (mc ?st3) = Some (op_code xo, bit rr 19, regno rr, Mem (Some ?d) None 0, imm @ mc ?st1)"
    using decode_rmro [OF assms(4,5)] base_operand [OF d(1)] d(2) by (simp add: put_bytes_def)
  moreover have "\<exists>fl'. step_x86 (mctop st) (mc ?st1) (R(?d := addr), fl) = Some ((R, fl'), p) \<and> (starts_jcc p \<longrightarrow> fl' = fl)"
    using reload_dispatch_step [of R "R(?d := addr)" E ?st0 fl] assms(6) by (simp add: fun_upd_idem)
  ultimately show ?thesis using loadu64_x86_step [OF d(1), of R E ?st3 addr fl] assms(6) d(2) top(3) by auto
qed

text \<open>
  A byte test of an address that the instruction pointer reaches and the dispatch register does not reads the
  byte behind the address.
\<close>

theorem x86_rma_operand_witness:
  "\<exists>opnd. decode (mc (emit_rma env0_x86 XO_GROUP3b 0 0x20000 (empty_x86\<lparr>mc := [4]\<rparr>))) = Some ((None, [0xf6]), False, 0, opnd, [4]) \<and>
     ea 0x10000 (\<lambda>r. 0x7f0000000000) opnd [] = 0x20001"
proof -
  have "op_code XO_GROUP3b = (None, [0xf6])" "XO_GROUP3b \<in> set var_ops" "reg_ok 0"
    by (simp_all add: op_code_def op_len_def var_ops_def XO_GROUP3b_def XO_1_def reg_ok_def)
  then show ?thesis
    using x86_rma_operand [of XO_GROUP3b 0 "\<lambda>r. 0x7f0000000000" env0_x86 1 "empty_x86\<lparr>mc := [4]\<rparr>" False "0x20000" True]
    by (simp add: env0_x86_def empty_x86_def dispofs_def mcpofs_x86_def mctopofs_def mcp_x86_def checki32_range regno_def)
qed

section \<open>Constants in the code area\<close>

lemma low3_mod: "unat (w AND 7 :: 64 word) = unat w mod 8"
proof -
  have m: "7 = (mask 3 :: 64 word)" by (simp add: mask_eq_exp_minus_1)
  show ?thesis unfolding m by (simp add: take_bit_eq_mod unat_mod_distrib flip: take_bit_eq_mask)
qed

lemma low3_succ: "unat (w + 1 AND 7 :: 64 word) = (unat (w AND 7) + 1) mod 8"
proof -
  have "unat (w + 1) = (unat w + 1) mod 2 ^ 64" by (simp add: unat_word_ariths)
  moreover have "(unat w + 1) mod 2 ^ 64 mod 8 = (unat w + 1) mod 8" by (simp add: mod_mod_cancel)
  ultimately show ?thesis by (simp only: low3_mod) (simp add: mod_simps)
qed

lemma pad_bot_aligns:
  "(8 - unat (mcbot st AND 7)) mod 8 \<le> n \<Longrightarrow> mcbot (pad_bot n st) AND 7 = 0"
proof (induction n arbitrary: st)
  case 0
  have "unat (mcbot st AND 7) < 8" by (simp add: low3_mod)
  with 0 have "unat (mcbot st AND 7) = 0" by (cases "unat (mcbot st AND 7) = 0") auto
  then show ?case by (simp add: unsigned_eq_0_iff)
next
  case (Suc n)
  let ?st = "st\<lparr>bots := bots st @ [ucast XI_INT3]\<rparr>"
  have s: "mcbot ?st = mcbot st + 1" by (simp add: mcbot_def)
  have l: "unat (mcbot st AND 7) < 8" by (simp add: low3_mod)
  show ?case
  proof (cases "mcbot st AND 7 = 0")
    case False
    then have "unat (mcbot st AND 7) \<noteq> 0" by (metis unat_0_iff)
    then have "(8 - unat (mcbot ?st AND 7)) mod 8 \<le> n" using Suc.prems l
      unfolding s low3_succ by (cases "unat (mcbot st AND 7) = 7") auto
    then show ?thesis using Suc.IH [of ?st] False by simp
  qed simp
qed

lemma pad_bot_fields: "mc (pad_bot n st) = mc st" "mctop (pad_bot n st) = mctop st" "mcbase (pad_bot n st) = mcbase st"
  "ir_ofs (pad_bot n st) = ir_ofs st" "\<exists>k. bots (pad_bot n st) = bots st @ replicate k (ucast XI_INT3)"
proof -
  show "mc (pad_bot n st) = mc st" "mctop (pad_bot n st) = mctop st" "mcbase (pad_bot n st) = mcbase st"
    "ir_ofs (pad_bot n st) = ir_ofs st"
    by (induction n st rule: pad_bot.induct) simp_all
  show "\<exists>k. bots (pad_bot n st) = bots st @ replicate k (ucast XI_INT3)"
  proof (induction n st rule: pad_bot.induct)
    case (2 n st)
    then show ?case
      by (cases "mcbot st AND 7 = 0")
        (fastforce intro: exI [of _ 0] exI [of _ "Suc _"] simp: replicate_app_Cons_same)+
  qed (auto intro: exI [of _ 0])
qed

text \<open>
  The constant is stored on an 8 byte boundary behind what was there, and the offset kept with it leads
  back to it.
\<close>

lemma add_k64_stored:
  assumes "st' = add_k64 E ref st"
  shows "\<exists>pad. bots st' = bots st @ pad @ le64 (kval64 E ref) \<and>
    (mcbase st + of_nat (length (bots st @ pad))) AND 7 = 0 \<and>
    (checki32 (sint (mctop st - (mcbase st + of_nat (length (bots st @ pad))))) \<longrightarrow>
      mctop st' - scast (ir_ofs st' ref) = mcbase st + of_nat (length (bots st @ pad)))"
proof -
  let ?st = "pad_bot 8 st"
  obtain k where b: "bots ?st = bots st @ replicate k (ucast XI_INT3)" using pad_bot_fields(5) by blast
  have a: "mcbot ?st AND 7 = 0" by (rule pad_bot_aligns) simp
  have m: "mcbot ?st = mcbase st + of_nat (length (bots st @ replicate k (ucast XI_INT3)))"
    by (simp add: mcbot_def pad_bot_fields b)
  show ?thesis
    using a m narrow_checks(3) [of "mctop st - mcbot ?st"]
    by (intro exI [of _ "replicate k (ucast XI_INT3)"]) (simp add: assms add_k64_def Let_def b pad_bot_fields)
qed

section \<open>Picking registers\<close>

text \<open>
  The pick takes a member of the set, and one of the low eight general registers when there is one.
\<close>

lemma below_32: "(k :: nat) < 32 \<Longrightarrow> k \<in> {0, 1, 2, 3, 4, 5, 6, 7, 8, 9, 10, 11, 12, 13, 14, 15, 16, 17, 18, 19, 20, 21,
    22, 23, 24, 25, 26, 27, 28, 29, 30, 31}"
proof -
  assume "k < 32"
  then have "k \<in> set [0..<32]" by simp
  moreover have "[0..<32 :: nat] = [0, 1, 2, 3, 4, 5, 6, 7, 8, 9, 10, 11, 12, 13, 14, 15, 16, 17, 18, 19, 20, 21,
    22, 23, 24, 25, 26, 27, 28, 29, 30, 31]" by code_simp
  ultimately show ?thesis by simp
qed

lemma bit_bswap: "k < 32 \<Longrightarrow> bit (lj_bswap x) (k XOR 24) = bit x k"
proof -
  assume "k < 32"
  have e: "0xff00 = push_bit 8 (mask 8 :: 32 word)" by (simp add: mask_eq_exp_minus_1)
  have h: "\<not> bit x j" if "32 \<le> j" for j using that by (auto dest: bit_imp_le_length)
  from below_32 [OF \<open>k < 32\<close>] show ?thesis unfolding lj_bswap_def e
    by (elim insertE emptyE) (simp_all add: bit_simps h)
qed

lemma xor_24: "((k :: nat) XOR 24) XOR 24 = k" "k < 32 \<Longrightarrow> k XOR 24 < 32" "k < 8 \<Longrightarrow> k XOR 24 = k + 24"
  "24 \<le> k \<Longrightarrow> k < 32 \<Longrightarrow> k XOR 24 < 8"
proof -
  show "(k XOR 24) XOR 24 = k" by (simp add: xor.assoc)
  show "k < 32 \<Longrightarrow> k XOR 24 < 32" by (drule below_32, elim insertE emptyE) simp_all
  show "k XOR 24 = k + 24" if "k < 8"
  proof -
    have "k < 32" using that by simp
    from below_32 [OF this] that show ?thesis by (elim insertE emptyE) simp_all
  qed
  show "k XOR 24 < 8" if "24 \<le> k" "k < 32"
    using below_32 [OF that(2)] that(1) by (elim insertE emptyE) simp_all
qed

lemma rset_picktop_x86_in:
  assumes "rs \<noteq> 0"
  shows "bit rs (rset_picktop_x86 rs)" and "bit rs r \<Longrightarrow> r < 8 \<Longrightarrow> rset_picktop_x86 rs < 8"
proof -
  let ?k = "lj_fls (lj_bswap rs)"
  obtain n where "bit rs n" "n < 32" using nonzero_bit32 [OF assms] by blast
  then have "lj_bswap rs \<noteq> 0" using bit_bswap [of n rs] by auto
  note k = lj_fls_last [OF this]
  have "bit (lj_bswap rs) ((?k XOR 24) XOR 24) = bit rs (?k XOR 24)" by (rule bit_bswap) (use k xor_24(2) in blast)
  then show "bit rs (rset_picktop_x86 rs)" using k by (simp only: xor_24(1) rset_picktop_x86_def)
  show "rset_picktop_x86 rs < 8" if "bit rs r" "r < 8"
  proof -
    have "bit (lj_bswap rs) (r + 24)" using bit_bswap [of r rs] that by (simp add: xor_24(3))
    then have "24 \<le> ?k" using k by (metis le_add2 not_less order_trans)
    then show ?thesis using k xor_24(4) [of ?k] by (simp add: rset_picktop_x86_def)
  qed
qed

end
