(* ===== verification/LJ_X86_Patch.thy ===== *)
theory LJ_X86_Patch
  imports LJ_X86_Inslen LJ_X86_Sem
begin

text \<open>
  The exits of traces in \<open>LuaJit/include/lj_asm_x86.h\<close>, for x64 with 64 bit references: \<open>lj_asm_patchexit\<close>, which
  makes the guards of a compiled trace branch to a new trace instead of their exit stub.
\<close>

section \<open>Patching\<close>

text \<open>Unaligned 32 bit accesses to the machine code.\<close>

definition get32 :: "nat \<Rightarrow> 8 word list \<Rightarrow> 32 word" where "get32 k bs = un_le32 (drop k bs)"

definition put32 :: "nat \<Rightarrow> 32 word \<Rightarrow> 8 word list \<Rightarrow> 8 word list" where
  "put32 k v bs = take k bs @ le32 v @ drop (k + 4) bs"

text \<open>
  \<open>code\<close> is the machine code of the trace, \<open>T->szmcode\<close> bytes from \<open>T->mcode\<close> on, which is the address \<open>base\<close>, and
  pointers into it are offsets. \<open>statei\<close> is the displacement of the VM state from the dispatch table, \<open>exit\<close> the
  address of the exit stub and \<open>gc_step\<close> that of \<open>lj_gc_step_jit\<close>. First the branch at the end of the trace.
\<close>

definition patch_tail :: "64 word \<Rightarrow> 64 word \<Rightarrow> 64 word \<Rightarrow> 8 word list \<Rightarrow> 8 word list" where
  "patch_tail base exit target code =
     (let len = length code; px = exit - 6 in
      if 5 < len \<and> ucast (code ! (len - 5)) = XI_JMP \<and>
         base + of_nat len - 6 + scast (get32 (len - 4) code) = px
      then put32 (len - 4) (jmprel (base + of_nat len) target) code else code)"

text \<open>The store of the VM state, \<open>mov [DISPATCH+statei], imm32\<close> with or without a REX prefix.\<close>

definition vmstate_store :: "32 word \<Rightarrow> 8 word list \<Rightarrow> bool" where
  "vmstate_store statei p =
     (let ofs = (if p ! 0 AND 0xf0 = 0x40 then 1 else 0) in
      get32 (2 + ofs) p = statei \<and> ucast (p ! ofs) = XI_MOVmi)"

text \<open>
  The two loops step over instructions with the length decoder. Each is the least solution of its equation: \<open>None\<close>
  stands for a decoder that leaves the code, or for a loop that never ends.
\<close>

partial_function (option) skip_to_vmstate :: "32 word \<Rightarrow> 8 word list \<Rightarrow> nat \<Rightarrow> nat \<Rightarrow> nat option" where
  "skip_to_vmstate statei code pe i =
     (if i < pe \<and> \<not> vmstate_store statei (drop i code)
      then (case asm_x86_inslen (drop i code) of None \<Rightarrow> None
            | Some n \<Rightarrow> skip_to_vmstate statei code pe (i + unat n))
      else Some i)"

definition patch_at :: "64 word \<Rightarrow> 64 word \<Rightarrow> 64 word \<Rightarrow> 64 word \<Rightarrow> nat \<Rightarrow> 8 word list \<times> nat option \<Rightarrow> 8 word list \<times> nat option" where
  "patch_at base exit target gc_step i s =
     (let (code, pgc) = s; p = drop i code; px = exit - 6 in
      if p ! 0 = 0x0f \<and> p ! 1 AND 0xf0 = 0x80 \<and> base + of_nat i + scast (get32 2 p) = px \<and> pgc \<noteq> Some i
      then (put32 (i + 2) (jmprel (base + of_nat i + 6) target) code, pgc)
      else if ucast (p ! 0) = XI_CALL \<and> base + of_nat i + 5 + scast (get32 1 p) = gc_step
      then (code, Some (i + 7))
      else (code, pgc))"

partial_function (option) patch_exits ::
  "64 word \<Rightarrow> 64 word \<Rightarrow> 64 word \<Rightarrow> 64 word \<Rightarrow> nat \<Rightarrow> nat \<Rightarrow> 8 word list \<times> nat option \<Rightarrow> 8 word list option" where
  "patch_exits base exit target gc_step pe i s =
     (if i < pe
      then let s = patch_at base exit target gc_step i s in
        (case asm_x86_inslen (drop i (fst s)) of None \<Rightarrow> None
         | Some n \<Rightarrow> patch_exits base exit target gc_step pe (i + unat n) s)
      else Some (fst s))"

definition lj_asm_patchexit_x86 ::
  "64 word \<Rightarrow> 64 word \<Rightarrow> 64 word \<Rightarrow> 64 word \<Rightarrow> 32 word \<Rightarrow> 8 word list \<Rightarrow> 8 word list option" where
  "lj_asm_patchexit_x86 base exit target gc_step statei code =
     (let pe = length code - 6; code = patch_tail base exit target code in
      case skip_to_vmstate statei code pe 0 of None \<Rightarrow> None
      | Some i \<Rightarrow> patch_exits base exit target gc_step pe i (code, None))"

section \<open>The decoder reads an instruction only\<close>

lemma inslen_mrm_append: "inslen_mrm r x p = Some n \<Longrightarrow> inslen_mrm r x (p @ q) = Some n"
  by (cases p) (auto simp: inslen_mrm_def Let_def split: list.splits if_splits)

lemma inslen_loop_append: "inslen_loop r px x p = Some n \<Longrightarrow> inslen_loop r px x (p @ q) = Some n"
proof (induction r px x p rule: inslen_loop.induct)
  case (1 r px x)
  then show ?case by (simp add: inslen_loop.simps(1))
next
  case (2 r px x b)
  then have "drop_bit 4 x \<in> {0, 4, 5}" using inslen_short(1) [of x] by fastforce
  then show ?case using 2 by (auto simp: inslen_ends)
next
  case (3 r px x b c p)
  note mrm = inslen_mrm_append [of _ _ "b # c # p" n q, simplified] inslen_mrm_append [of _ _ "c # p" n q, simplified]
  consider "drop_bit 4 x = 0 \<or> drop_bit 4 x = 4 \<or> drop_bit 4 x = 5" | (pfx) "drop_bit 4 x = 1" | (map) "drop_bit 4 x = 2"
    | "drop_bit 4 x = 3" | "drop_bit 4 x = 6" | (vex) "drop_bit 4 x = 7" | "drop_bit 4 x = 8" | "drop_bit 4 x = 9"
    | "drop_bit 4 x \<notin> {0, 1, 2, 3, 4, 5, 6, 7, 8, 9}" by blast
  then show ?case
  proof cases
    case 1
    then show ?thesis using "3.prems" by (auto simp: inslen_ends)
  next
    case pfx
    then show ?thesis using "3.IH"(1) "3.prems" by (simp add: inslen_steps)
  next
    case map
    then show ?thesis using "3.IH"(2) "3.prems" by (simp add: inslen_steps)
  next
    case vex
    show ?thesis
    proof (cases "x = 0x70")
      case True
      obtain d e p' where p: "p = d # e # p'" using "3.prems" True vex
        by (cases p rule: remdups_adj.cases) (auto simp: inslen_loop.simps(3) inslen_mrm_def split: if_splits)
      show ?thesis
        using "3.IH"(3) [of d "e # p'" e p'] "3.prems" True vex inslen_mrm_append [of _ _ "e # p'" n q]
        by (simp add: p inslen_vex split: if_splits)
    next
      case False
      then obtain d p' where "p = d # p'" using "3.prems" vex inslen_short(2) [of x r px b c] by (cases p) auto
      then show ?thesis using "3.IH"(4) "3.prems" vex False by (simp add: inslen_steps)
    qed
  next
    case 9
    then show ?thesis using "3.prems" inslen_none by force
  qed (use "3.prems" mrm in \<open>simp_all add: inslen_steps\<close>)
qed

lemma inslen_append: "asm_x86_inslen p = Some n \<Longrightarrow> asm_x86_inslen (p @ q) = Some n"
  by (cases p) (auto simp: asm_x86_inslen_def dest: inslen_loop_append [where q = q])

section \<open>Patching instruction by instruction\<close>

text \<open>
  The same on a list of instructions: what the loops over the bytes are to do. An instruction is measured if the
  decoder gives its length.
\<close>

definition measured :: "8 word list \<Rightarrow> bool" where
  "measured x \<longleftrightarrow> asm_x86_inslen x = Some (of_nat (length x)) \<and> 0 < length x \<and> length x < 2 ^ 32"

definition is_jcc :: "8 word list \<Rightarrow> bool" where "is_jcc x \<longleftrightarrow> x ! 0 = 0x0f \<and> x ! 1 AND 0xf0 = 0x80"

definition exits_at :: "64 word \<Rightarrow> 64 word \<Rightarrow> nat \<Rightarrow> 8 word list \<Rightarrow> bool" where
  "exits_at base exit i x \<longleftrightarrow> is_jcc x \<and> base + of_nat i + scast (get32 2 x) = exit - 6"

definition calls_at :: "64 word \<Rightarrow> 64 word \<Rightarrow> nat \<Rightarrow> 8 word list \<Rightarrow> bool" where
  "calls_at base gc_step i x \<longleftrightarrow> x ! 0 = 0xe8 \<and> base + of_nat i + 5 + scast (get32 1 x) = gc_step"

definition linked_to :: "64 word \<Rightarrow> 64 word \<Rightarrow> nat \<Rightarrow> 8 word list \<Rightarrow> 8 word list" where
  "linked_to base target i x = take 2 x @ le32 (jmprel (base + of_nat i + 6) target)"

fun link_from ::
  "64 word \<Rightarrow> 64 word \<Rightarrow> 64 word \<Rightarrow> 64 word \<Rightarrow> nat \<Rightarrow> nat \<Rightarrow> nat option \<Rightarrow> 8 word list list \<Rightarrow> 8 word list list" where
  "link_from base exit target gc_step pe i g [] = []"
| "link_from base exit target gc_step pe i g (x # xs) =
     (if i < pe
      then (if exits_at base exit i x \<and> g \<noteq> Some i then linked_to base target i x else x) #
        link_from base exit target gc_step pe (i + length x)
          (if calls_at base gc_step i x then Some (i + 7) else g) xs
      else x # xs)"

fun link_trace ::
  "64 word \<Rightarrow> 64 word \<Rightarrow> 64 word \<Rightarrow> 64 word \<Rightarrow> 32 word \<Rightarrow> nat \<Rightarrow> nat \<Rightarrow> 8 word list list \<Rightarrow> 8 word list list" where
  "link_trace base exit target gc_step statei pe i [] = []"
| "link_trace base exit target gc_step statei pe i (x # xs) =
     (if i < pe \<and> \<not> vmstate_store statei (concat (x # xs))
      then x # link_trace base exit target gc_step statei pe (i + length x) xs
      else link_from base exit target gc_step pe i None (x # xs))"

lemma measured_append: "measured x \<Longrightarrow> asm_x86_inslen (x @ q) = Some (of_nat (length x))"
  by (simp add: measured_def inslen_append)

lemma unat_len: "measured x \<Longrightarrow> unat (of_nat (length x) :: 32 word) = length x"
  by (simp add: measured_def unat_of_nat take_bit_nat_eq_self)

text \<open>A conditional jump has six bytes, a call or jump five.\<close>

lemma jcc_entry: "b AND 0xf0 = 0x80 \<Longrightarrow> map_op2 b = 0x46"
proof -
  assume a: "b AND 0xf0 = 0x80"
  have e: "0xf0 = push_bit 4 (mask 4 :: 8 word)" by (simp add: mask_eq_exp_minus_1)
  have "drop_bit 4 b = drop_bit 4 (b AND 0xf0)" unfolding e by (rule bit_word_eqI) (auto simp: bit_simps dest: bit_imp_le_length)
  then have "unat (drop_bit 4 b) = 8" unfolding a by simp
  then have "unat b div 16 = 8" by (simp add: unat_drop_bit_eq drop_bit_nat_def)
  moreover have "unat b mod 16 \<in> set [0..<16]" by simp
  ultimately show ?thesis unfolding map_op2_def
    by (simp add: upt_rec map_op2_nth) (elim disjE; simp add: map_op2_8_def)
qed

lemma inslen_jcc: "b AND 0xf0 = 0x80 \<Longrightarrow> asm_x86_inslen (0x0f # b # p) = Some 6"
  by (simp add: asm_x86_inslen_def pfx_entry inslen_steps jcc_entry)

lemma jump_entry: "map_op1 0xe8 = 0x45" "map_op1 0xe9 = 0x45"
  by (simp_all add: map_op1_def map_op1_nth map_op_rows)

lemma inslen_call: "asm_x86_inslen (0xe8 # p) = Some 5" "asm_x86_inslen (0xe9 # p) = Some 5"
  by (simp_all add: asm_x86_inslen_def jump_entry inslen_steps)

lemma of_nat_len: "measured x \<Longrightarrow> (of_nat (length x) :: 32 word) = n \<Longrightarrow> length x = unat n"
  using unat_len by fastforce

lemma measured_len:
  assumes "measured x"
  shows "x ! 0 = 0x0f \<Longrightarrow> 2 \<le> length x" "is_jcc x \<Longrightarrow> length x = 6" "x ! 0 = 0xe8 \<Longrightarrow> length x = 5" "x ! 0 = 0xe9 \<Longrightarrow> length x = 5"
proof -
  have x: "x \<noteq> []" using assms by (auto simp: measured_def)
  show two: "2 \<le> length x" if "x ! 0 = 0x0f"
  proof (rule ccontr)
    assume "\<not> 2 \<le> length x"
    then have "x = [0x0f]" using x that by (cases x; cases "tl x") auto
    then show False using assms by (simp add: measured_def asm_x86_inslen_def pfx_entry inslen_short)
  qed
  show "length x = 6" if j: "is_jcc x"
  proof -
    obtain b p where "x = 0x0f # b # p" "b AND 0xf0 = 0x80" using j two x by (cases x; cases "tl x") (auto simp: is_jcc_def)
    then show ?thesis using assms inslen_jcc [of b p] of_nat_len [OF assms, of 6] by (simp add: measured_def)
  qed
  show "length x = 5" if "x ! 0 = 0xe8"
    using that x assms inslen_call of_nat_len [OF assms, of 5] by (cases x) (auto simp: measured_def)
  show "length x = 5" if "x ! 0 = 0xe9"
    using that x assms inslen_call of_nat_len [OF assms, of 5] by (cases x) (auto simp: measured_def)
qed

lemma four_bytes: "4 \<le> length p \<Longrightarrow> \<exists>a b c d q. p = a # b # c # d # q"
  by (auto simp: eval_nat_numeral Suc_le_length_iff)

lemma get32_append: "k + 4 \<le> length x \<Longrightarrow> get32 k (x @ q) = get32 k x"
proof -
  assume a: "k + 4 \<le> length x"
  then have "4 \<le> length (drop k x)" by simp
  then obtain b c d e p where "drop k x = b # c # d # e # p" using four_bytes by blast
  then show ?thesis using a by (simp add: get32_def)
qed

lemma measured_linked: "measured x \<Longrightarrow> exits_at base exit i x \<Longrightarrow> measured (linked_to base target i x) \<and> length (linked_to base target i x) = length x"
proof -
  assume m: "measured x" and e: "exits_at base exit i x"
  have j: "is_jcc x" and l: "length x = 6" using e measured_len(2) [OF m] by (simp_all add: exits_at_def)
  then obtain b p where "x = 0x0f # b # p" "b AND 0xf0 = 0x80"
    by (cases x; cases "tl x") (auto simp: is_jcc_def)
  then show ?thesis using l inslen_jcc [of b] by (simp add: linked_to_def measured_def)
qed

text \<open>One round of the second loop.\<close>

lemma patch_at_ins:
  assumes "measured x" "i = length done"
  shows "patch_at base exit target gc_step i (done @ x @ q, g) =
    (done @ (if exits_at base exit i x \<and> g \<noteq> Some i then linked_to base target i x else x) @ q,
     if calls_at base gc_step i x then Some (i + 7) else g)"
proof -
  have x: "x \<noteq> []" using assms(1) by (auto simp: measured_def)
  have p: "(x @ q) ! 0 = x ! 0" using x by (simp add: nth_append)
  have c: "ucast (x ! 0) = XI_CALL \<longleftrightarrow> x ! 0 = 0xe8" using byte_eq [of "x ! 0" "0xe8"] by (simp add: XI_CALL_def)
  consider (jcc) "is_jcc x" | (o) "x ! 0 \<noteq> 0x0f" | (f) "x ! 0 = 0x0f" "\<not> is_jcc x" by (auto simp: is_jcc_def)
  then show ?thesis
  proof cases
    case jcc
    have l: "length x = 6" using measured_len(2) assms(1) jcc by blast
    then have "(x @ q) ! 1 = x ! 1" by (simp add: nth_append)
    moreover have "get32 2 (x @ q) = get32 2 x" using l by (simp add: get32_append)
    moreover have "put32 (i + 2) v (done @ x @ q) = done @ take 2 x @ le32 v @ q" for v
      using l assms(2) by (simp add: put32_def)
    ultimately show ?thesis using jcc p c
      by (auto simp: patch_at_def assms(2) exits_at_def calls_at_def linked_to_def is_jcc_def Let_def)
  next
    case o
    have "get32 1 (x @ q) = get32 1 x" if "x ! 0 = 0xe8" using measured_len(3) [OF assms(1) that] by (simp add: get32_append)
    then show ?thesis using o p c by (auto simp: patch_at_def assms(2) exits_at_def calls_at_def is_jcc_def Let_def)
  next
    case f
    have "(x @ q) ! 1 = x ! 1" using measured_len(1) [OF assms(1) f(1)] by (simp add: nth_append)
    then show ?thesis using f p c by (auto simp: patch_at_def assms(2) exits_at_def calls_at_def is_jcc_def Let_def)
  qed
qed

lemma patch_exits_link:
  assumes "\<forall>x \<in> set xs. measured x" "pe \<le> length done + length (concat xs)"
  shows "patch_exits base exit target gc_step pe (length done) (done @ concat xs, g) =
    Some (done @ concat (link_from base exit target gc_step pe (length done) g xs))"
  using assms
proof (induction xs arbitrary: "done" g)
  case Nil
  then show ?case by (simp add: patch_exits.simps)
next
  case (Cons x xs)
  let ?i = "length done"
  show ?case
  proof (cases "?i < pe")
    case True
    define x' where x': "x' = (if exits_at base exit ?i x \<and> g \<noteq> Some ?i then linked_to base target ?i x else x)"
    define g' where g': "g' = (if calls_at base gc_step ?i x then Some (?i + 7) else g)"
    have m: "measured x" using Cons.prems(1) by simp
    have m': "measured x'" "length x' = length x" using m measured_linked [OF m] by (auto simp: x')
    have "patch_exits base exit target gc_step pe ?i (done @ concat (x # xs), g) =
        patch_exits base exit target gc_step pe (?i + length x) (done @ x' @ concat xs, g')"
      using True patch_at_ins [OF m refl, of base exit target gc_step "done" "concat xs" g] m' unat_len [OF m'(1)]
      by (subst patch_exits.simps) (simp add: measured_append flip: x' g')
    also have "\<dots> = Some ((done @ x') @ concat (link_from base exit target gc_step pe (length (done @ x')) g' xs))"
      using Cons.IH [of "done @ x'" g'] Cons.prems m'(2) by simp
    finally show ?thesis using True m'(2) by (simp flip: x' g')
  next
    case False
    then show ?thesis by (simp add: patch_exits.simps)
  qed
qed

text \<open>The first loop.\<close>

lemma skip_link:
  assumes "\<forall>x \<in> set xs. measured x" "pe \<le> length done + length (concat xs)"
  shows "\<exists>j. skip_to_vmstate statei (done @ concat xs) pe (length done) = Some j \<and>
    patch_exits base exit target gc_step pe j (done @ concat xs, None) =
      Some (done @ concat (link_trace base exit target gc_step statei pe (length done) xs))"
  using assms
proof (induction xs arbitrary: "done")
  case Nil
  then show ?case by (simp add: skip_to_vmstate.simps patch_exits.simps)
next
  case (Cons x xs)
  have m: "measured x" using Cons.prems(1) by simp
  show ?case
  proof (cases "length done < pe \<and> \<not> vmstate_store statei (concat (x # xs))")
    case True
    have "skip_to_vmstate statei (done @ concat (x # xs)) pe (length done) =
        skip_to_vmstate statei ((done @ x) @ concat xs) pe (length (done @ x))"
      using True unat_len [OF m] by (subst skip_to_vmstate.simps) (simp add: measured_append [OF m])
    then show ?thesis using Cons.IH [of "done @ x"] Cons.prems True by simp
  next
    case False
    then have "skip_to_vmstate statei (done @ concat (x # xs)) pe (length done) = Some (length done)"
      by (subst skip_to_vmstate.simps) auto
    then show ?thesis using patch_exits_link [OF Cons.prems] False by auto
  qed
qed

section \<open>Where the branches go\<close>

definition offset :: "8 word list list \<Rightarrow> nat \<Rightarrow> nat" where "offset xs k = length (concat (take k xs))"

definition goes :: "64 word \<Rightarrow> 8 word list list \<Rightarrow> nat \<Rightarrow> (branch \<times> 64 word) option" where
  "goes base xs k = map_option (\<lambda>(b, t, _). (b, t)) (branch_of (base + of_nat (length (concat xs))) (concat (drop k xs)))"

lemma offset_simps [simp]: "offset (x # xs) (Suc k) = length x + offset xs k" "offset xs 0 = 0"
  by (simp_all add: offset_def)

lemma link_from_len: "length (link_from base exit target gc_step pe i g xs) = length xs"
  by (induction xs arbitrary: i g) simp_all

lemma link_trace_len: "length (link_trace base exit target gc_step statei pe i xs) = length xs"
proof (induction xs arbitrary: i)
  case (Cons x xs)
  then show ?case using link_from_len [of base exit target gc_step pe i None "x # xs"]
    by (simp only: link_trace.simps) simp
qed simp

lemma link_from_nth:
  assumes "k < length xs"
  shows "length (link_from base exit target gc_step pe i g xs) = length xs"
    "link_from base exit target gc_step pe i g xs ! k = xs ! k \<or>
       exits_at base exit (i + offset xs k) (xs ! k) \<and>
       link_from base exit target gc_step pe i g xs ! k = linked_to base target (i + offset xs k) (xs ! k)"
    "i + offset xs k < pe \<Longrightarrow> exits_at base exit (i + offset xs k) (xs ! k) \<Longrightarrow> g \<noteq> Some (i + offset xs k) \<Longrightarrow>
       \<forall>j < k. calls_at base gc_step (i + offset xs j) (xs ! j) \<longrightarrow> offset xs k \<noteq> offset xs j + 7 \<Longrightarrow>
       link_from base exit target gc_step pe i g xs ! k = linked_to base target (i + offset xs k) (xs ! k)"
proof -
  show "length (link_from base exit target gc_step pe i g xs) = length xs" by (rule link_from_len)
  show "link_from base exit target gc_step pe i g xs ! k = xs ! k \<or>
       exits_at base exit (i + offset xs k) (xs ! k) \<and>
       link_from base exit target gc_step pe i g xs ! k = linked_to base target (i + offset xs k) (xs ! k)"
    using assms
  proof (induction xs arbitrary: i g k)
    case (Cons x xs)
    then show ?case using Cons.IH [of "k - 1" "i + length x" "if calls_at base gc_step i x then Some (i + 7) else g"]
      by (cases k) (auto simp: add.assoc)
  qed simp
  show "i + offset xs k < pe \<Longrightarrow> exits_at base exit (i + offset xs k) (xs ! k) \<Longrightarrow> g \<noteq> Some (i + offset xs k) \<Longrightarrow>
       \<forall>j < k. calls_at base gc_step (i + offset xs j) (xs ! j) \<longrightarrow> offset xs k \<noteq> offset xs j + 7 \<Longrightarrow>
       link_from base exit target gc_step pe i g xs ! k = linked_to base target (i + offset xs k) (xs ! k)"
    using assms
  proof (induction xs arbitrary: i g k)
    case (Cons x xs)
    show ?case
    proof (cases k)
      case (Suc k')
      define g' where "g' = (if calls_at base gc_step i x then Some (i + 7) else g)"
      have "\<forall>j < k'. calls_at base gc_step (i + length x + offset xs j) (xs ! j) \<longrightarrow> offset xs k' \<noteq> offset xs j + 7"
      proof (intro allI impI)
        fix j assume "j < k'" "calls_at base gc_step (i + length x + offset xs j) (xs ! j)"
        then show "offset xs k' \<noteq> offset xs j + 7"
          using Cons.prems(4) [rule_format, of "Suc j"] by (simp add: Suc add.assoc)
      qed
      moreover have "g' \<noteq> Some (i + length x + offset xs k')"
        using Cons.prems(3) Cons.prems(4) [rule_format, of 0] by (auto simp: g'_def Suc add.assoc split: if_splits)
      ultimately show ?thesis
        using Cons.IH [of "i + length x" k' g'] Cons.prems by (simp add: Suc add.assoc g'_def)
    qed (use Cons.prems in simp)
  qed simp
qed

lemma link_trace_nth:
  assumes "k < length xs"
  shows "length (link_trace base exit target gc_step statei pe i xs) = length xs"
    "link_trace base exit target gc_step statei pe i xs ! k = xs ! k \<or>
       exits_at base exit (i + offset xs k) (xs ! k) \<and>
       link_trace base exit target gc_step statei pe i xs ! k = linked_to base target (i + offset xs k) (xs ! k)"
    "i + offset xs k < pe \<Longrightarrow> exits_at base exit (i + offset xs k) (xs ! k) \<Longrightarrow>
       vmstate_store statei (concat (drop l xs)) \<Longrightarrow> l \<le> k \<Longrightarrow>
       \<forall>j < k. calls_at base gc_step (i + offset xs j) (xs ! j) \<longrightarrow> offset xs k \<noteq> offset xs j + 7 \<Longrightarrow>
       link_trace base exit target gc_step statei pe i xs ! k = linked_to base target (i + offset xs k) (xs ! k)"
proof -
  show "length (link_trace base exit target gc_step statei pe i xs) = length xs" by (rule link_trace_len)
  show "link_trace base exit target gc_step statei pe i xs ! k = xs ! k \<or>
       exits_at base exit (i + offset xs k) (xs ! k) \<and>
       link_trace base exit target gc_step statei pe i xs ! k = linked_to base target (i + offset xs k) (xs ! k)"
    using assms
  proof (induction xs arbitrary: i k)
    case (Cons x xs)
    show ?case
    proof (cases "i < pe \<and> \<not> vmstate_store statei (concat (x # xs))")
      case True
      then show ?thesis using Cons.IH [of "k - 1" "i + length x"] Cons.prems by (cases k) (auto simp: add.assoc)
    next
      case False
      then show ?thesis using link_from_nth(2) [OF Cons.prems] by (simp only: link_trace.simps if_False)
    qed
  qed simp
  show "i + offset xs k < pe \<Longrightarrow> exits_at base exit (i + offset xs k) (xs ! k) \<Longrightarrow>
       vmstate_store statei (concat (drop l xs)) \<Longrightarrow> l \<le> k \<Longrightarrow>
       \<forall>j < k. calls_at base gc_step (i + offset xs j) (xs ! j) \<longrightarrow> offset xs k \<noteq> offset xs j + 7 \<Longrightarrow>
       link_trace base exit target gc_step statei pe i xs ! k = linked_to base target (i + offset xs k) (xs ! k)"
    using assms
  proof (induction xs arbitrary: i k l)
    case (Cons x xs)
    show ?case
    proof (cases "i < pe \<and> \<not> vmstate_store statei (concat (x # xs))")
      case True
      then obtain l' where l: "l = Suc l'" using Cons.prems(3) by (cases l) auto
      then obtain k' where k: "k = Suc k'" using Cons.prems(4) by (cases k) auto
      have "\<forall>j < k'. calls_at base gc_step (i + length x + offset xs j) (xs ! j) \<longrightarrow> offset xs k' \<noteq> offset xs j + 7"
      proof (intro allI impI)
        fix j assume "j < k'" "calls_at base gc_step (i + length x + offset xs j) (xs ! j)"
        then show "offset xs k' \<noteq> offset xs j + 7"
          using Cons.prems(5) [rule_format, of "Suc j"] by (simp add: k add.assoc)
      qed
      then show ?thesis
        using Cons.IH [of "i + length x" k' l'] Cons.prems True by (simp add: k l add.assoc)
    next
      case False
      then have e: "link_trace base exit target gc_step statei pe i (x # xs) = link_from base exit target gc_step pe i None (x # xs)"
        by (simp only: link_trace.simps if_False)
      show ?thesis unfolding e
        by (rule link_from_nth(3) [OF Cons.prems(6,1,2) _ Cons.prems(5)]) simp
    qed
  qed simp
qed

text \<open>What stays as it is: the branch behind a call of the collector, and what is in front of the first store.\<close>

lemma link_from_at:
  assumes "\<forall>x \<in> set xs. measured x" "k < length xs" "offset xs k = d" "d < 5"
  shows "link_from base exit target gc_step pe i (Some (i + d)) xs ! k = xs ! k"
  using assms
proof (induction xs arbitrary: i k d)
  case (Cons x xs)
  show ?case
  proof (cases k)
    case 0
    then show ?thesis using Cons.prems(3) by simp
  next
    case (Suc k')
    then have d: "offset xs k' = d - length x" "length x \<le> d" using Cons.prems(3) by simp_all
    have "x ! 0 \<noteq> 0xe8"
    proof
      assume "x ! 0 = 0xe8"
      then have "length x = 5" using Cons.prems(1) measured_len(3) [of x] by simp
      then show False using d(2) Cons.prems(4) by simp
    qed
    then have "\<not> calls_at base gc_step i x" by (simp add: calls_at_def)
    moreover have "link_from base exit target gc_step pe (i + length x) (Some (i + length x + (d - length x))) xs ! k' = xs ! k'"
      by (rule Cons.IH) (use Cons.prems Suc d in simp_all)
    ultimately show ?thesis using d(2) by (simp add: Suc)
  qed
qed simp

lemma link_from_gc:
  assumes "\<forall>x \<in> set xs. measured x" "j < k" "k < length xs" "calls_at base gc_step (i + offset xs j) (xs ! j)" "offset xs k = offset xs j + 7"
  shows "link_from base exit target gc_step pe i g xs ! k = xs ! k"
  using assms
proof (induction xs arbitrary: i g j k)
  case (Cons x xs)
  obtain k' where k: "k = Suc k'" using Cons.prems(2) by (cases k) auto
  show ?case
  proof (cases j)
    case 0
    then have c: "calls_at base gc_step i x" using Cons.prems(4) by simp
    then have "length x = 5" using Cons.prems(1) measured_len(3) [of x] by (simp add: calls_at_def)
    then have "link_from base exit target gc_step pe (i + length x) (Some (i + length x + 2)) xs ! k' = xs ! k'"
      using Cons.prems(1,3,5) 0 k by (intro link_from_at) simp_all
    then show ?thesis using c \<open>length x = 5\<close> by (simp add: k add.commute)
  next
    case (Suc j')
    then have "link_from base exit target gc_step pe (i + length x) g' xs ! k' = xs ! k'" for g'
      using Cons.prems k by (intro Cons.IH [of j']) (simp_all add: add.assoc)
    then show ?thesis by (simp add: k)
  qed
qed simp

lemma link_trace_gc:
  assumes "\<forall>x \<in> set xs. measured x" "vmstate_store statei (concat (drop l xs))" "l \<le> j" "j < k" "k < length xs"
    "calls_at base gc_step (i + offset xs j) (xs ! j)" "offset xs k = offset xs j + 7"
  shows "link_trace base exit target gc_step statei pe i xs ! k = xs ! k"
  using assms
proof (induction xs arbitrary: i l j k)
  case (Cons x xs)
  show ?case
  proof (cases "i < pe \<and> \<not> vmstate_store statei (concat (x # xs))")
    case True
    then obtain l' where l: "l = Suc l'" using Cons.prems(2) by (cases l) auto
    obtain j' k' where jk: "j = Suc j'" "k = Suc k'" using Cons.prems(3,4) l by (cases j; cases k) auto
    have "link_trace base exit target gc_step statei pe (i + length x) xs ! k' = xs ! k'"
      by (rule Cons.IH [of l' j']) (use Cons.prems l jk in \<open>simp_all add: add.assoc\<close>)
    then show ?thesis using True by (simp add: jk)
  next
    case False
    then have e: "link_trace base exit target gc_step statei pe i (x # xs) = link_from base exit target gc_step pe i None (x # xs)"
      by (simp only: link_trace.simps if_False)
    show ?thesis unfolding e by (rule link_from_gc [OF Cons.prems(1,4-7)])
  qed
qed simp

lemma link_trace_front:
  assumes "\<forall>m \<le> k. \<not> vmstate_store statei (concat (drop m xs))"
  shows "link_trace base exit target gc_step statei pe i xs ! k = xs ! k"
  using assms
proof (induction xs arbitrary: i k)
  case (Cons x xs)
  show ?case
  proof (cases "i < pe")
    case True
    moreover have "\<not> vmstate_store statei (concat (x # xs))" using Cons.prems [rule_format, of 0] by simp
    moreover have "link_trace base exit target gc_step statei pe (i + length x) xs ! k' = xs ! k'" if "k = Suc k'" for k'
      using Cons.prems that by (intro Cons.IH) (auto dest: spec [of _ "Suc _"])
    ultimately show ?thesis by (cases k) simp_all
  next
    case False
    then have "link_trace base exit target gc_step statei pe i (x # xs) = link_from base exit target gc_step pe i None (x # xs)"
      by (simp only: link_trace.simps) simp
    then show ?thesis using False by simp
  qed
qed simp

text \<open>Where a measured branch goes.\<close>

lemma jcc_nibble: "b AND 0xf0 = 0x80 \<longleftrightarrow> drop_bit 4 (b :: 8 word) = 8"
proof -
  have e: "0xf0 = push_bit 4 (mask 4 :: 8 word)" by (simp add: mask_eq_exp_minus_1)
  have "b AND 0xf0 = push_bit 4 (drop_bit 4 b)" unfolding e by (rule bit_word_eqI) (auto simp: bit_simps)
  moreover have "drop_bit 4 (b AND 0xf0) = drop_bit 4 b"
    unfolding e by (rule bit_word_eqI) (auto simp: bit_simps dest: bit_imp_le_length)
  ultimately show ?thesis by auto
qed

lemma branch_jcc:
  assumes "is_jcc x" "length x = 6"
  shows "branch_of hi (x @ q) = Some (Cond (x ! 1 AND 15), hi - of_nat (length q) + scast (get32 2 x), q)"
proof -
  obtain b p where x: "x = 0x0f # b # p" "drop_bit 4 b = 8" "length p = 4"
    using assms by (cases x; cases "tl x") (auto simp: is_jcc_def jcc_nibble)
  then obtain c d e f where "p = [c, d, e, f]" using four_bytes [of p] by auto
  then show ?thesis using x by (simp add: branch_of_def take_disp_def addr_of_def get32_def)
qed

lemma branch_rel32:
  assumes "x ! 0 = b" "length x = 5" "b = 0xe8 \<or> b = 0xe9"
  shows "branch_of hi (x @ q) = Some (if b = 0xe8 then Call else Jump, hi - of_nat (length q) + scast (get32 1 x), q)"
proof -
  obtain p where x: "x = b # p" "length p = 4" using assms by (cases x) auto
  then obtain c d e f where "p = [c, d, e, f]" using four_bytes [of p] by auto
  then show ?thesis using x assms(3) by (auto simp: branch_of_def take_disp_def addr_of_def get32_def)
qed

lemma split_at: "k < length xs \<Longrightarrow> concat (drop k xs) = xs ! k @ concat (drop (Suc k) xs)"
  by (metis Cons_nth_drop_Suc concat.simps(2))

lemma offset_rest:
  assumes "k < length xs"
  shows "length (concat xs) = offset xs k + length (xs ! k) + length (concat (drop (Suc k) xs))"
proof -
  have "concat xs = concat (take k xs) @ concat (drop k xs)" by (simp flip: concat_append)
  then show ?thesis using split_at [OF assms] by (simp add: offset_def)
qed

text \<open>The address behind an instruction.\<close>

lemma behind: "k < length xs \<Longrightarrow> base + of_nat (length (concat xs)) - of_nat (length (concat (drop (Suc k) xs)))
    = base + of_nat (offset xs k) + (of_nat (length (xs ! k)) :: 64 word)"
  by (simp add: offset_rest)

lemma goes_jcc: "k < length xs \<Longrightarrow> is_jcc (xs ! k) \<Longrightarrow> length (xs ! k) = 6 \<Longrightarrow>
    goes base xs k = Some (Cond (xs ! k ! 1 AND 15), base + of_nat (offset xs k) + 6 + scast (get32 2 (xs ! k)))"
  by (simp add: goes_def split_at branch_jcc behind)

lemma goes_rel32: "k < length xs \<Longrightarrow> xs ! k ! 0 = b \<Longrightarrow> length (xs ! k) = 5 \<Longrightarrow> b = 0xe8 \<or> b = 0xe9 \<Longrightarrow>
    goes base xs k = Some (if b = 0xe8 then Call else Jump, base + of_nat (offset xs k) + 5 + scast (get32 1 (xs ! k)))"
  by (simp add: goes_def split_at branch_rel32 [of _ b] behind)

lemma offset_lengths: "offset xs k = sum_list (take k (List.map length xs))"
  by (simp add: offset_def length_concat take_map)

text \<open>The branch at the end of the trace.\<close>

definition linked_jmp :: "64 word \<Rightarrow> 64 word \<Rightarrow> 64 word \<Rightarrow> nat \<Rightarrow> 8 word list \<Rightarrow> 8 word list" where
  "linked_jmp base exit target len z =
     (if base + of_nat len + scast (get32 1 z) = exit then 0xe9 # le32 (jmprel (base + of_nat len) target) else z)"

lemma patch_tail_link:
  assumes "z ! 0 = 0xe9" "length z = 5" "ws \<noteq> []"
  shows "patch_tail base exit target (ws @ z) = ws @ linked_jmp base exit target (length (ws @ z)) z"
proof -
  have "5 < length (ws @ z)" using assms(2,3) by simp
  moreover have "(ws @ z) ! (length (ws @ z) - 5) = 0xe9" using assms by (simp add: nth_append)
  moreover have "get32 (length (ws @ z) - 4) (ws @ z) = get32 1 z" using assms(2) by (simp add: get32_def)
  moreover have "put32 (length (ws @ z) - 4) v (ws @ z) = ws @ 0xe9 # le32 v" for v
    using assms(1,2) by (cases z) (simp_all add: put32_def)
  moreover have "a - 6 + b = exit - 6 \<longleftrightarrow> a + b = exit" for a b :: "64 word" by (simp add: algebra_simps)
  ultimately show ?thesis by (simp add: patch_tail_def linked_jmp_def XI_JMP_def Let_def add.assoc)
qed

lemma linked_jmp_measured:
  assumes "measured z" "z ! 0 = 0xe9"
  shows "measured (linked_jmp base exit target n z)" "length (linked_jmp base exit target n z) = 5"
    "linked_jmp base exit target n z ! 0 = 0xe9"
  using assms measured_len(4) [OF assms] by (auto simp: linked_jmp_def measured_def inslen_call)

lemma get32_le32: "get32 (length p) (p @ le32 v) = v"
  using un_le32_le32 [of v "[]"] by (simp add: get32_def)

lemma linked_goes:
  assumes "length x = 6" "is_jcc x"
  shows "is_jcc (linked_to base target i x)" "length (linked_to base target i x) = 6"
    "linked_to base target i x ! 1 = x ! 1" "get32 2 (linked_to base target i x) = jmprel (base + of_nat i + 6) target"
proof -
  obtain a b p where x: "x = a # b # p" using assms by (cases x; cases "tl x") auto
  show "is_jcc (linked_to base target i x)" "length (linked_to base target i x) = 6"
    "linked_to base target i x ! 1 = x ! 1" "get32 2 (linked_to base target i x) = jmprel (base + of_nat i + 6) target"
    using assms get32_le32 [of "[a, b]"] by (simp_all add: linked_to_def is_jcc_def x numeral_2_eq_2)
qed

lemma jmprel_back: "checki32 (sint (target - a)) \<Longrightarrow> a + scast (jmprel a target) = target"
  by (simp add: jmprel_def narrow_checks)

text \<open>What the patching does to the instructions of a trace that ends in a jump.\<close>

lemma patchexit_link:
  fixes base exit target :: "64 word"
  assumes "\<forall>x \<in> set ws. measured x" "ws \<noteq> []" "measured z" "z ! 0 = 0xe9"
  defines "zs \<equiv> ws @ [linked_jmp base exit target (length (concat (ws @ [z]))) z]"
  shows "lj_asm_patchexit_x86 base exit target gc_step statei (concat (ws @ [z])) =
    Some (concat (link_trace base exit target gc_step statei (length (concat (ws @ [z])) - 6) 0 zs))"
proof -
  have l: "length z = 5" using measured_len(4) assms(3,4) by blast
  have ne: "concat ws \<noteq> []" using assms(1,2) by (cases ws) (auto simp: measured_def)
  have t: "patch_tail base exit target (concat (ws @ [z])) = concat zs"
    using patch_tail_link [OF assms(4) l ne] by (simp add: zs_def)
  have m: "\<forall>x \<in> set zs. measured x" using assms(1) linked_jmp_measured(1) [OF assms(3,4)] by (auto simp: zs_def)
  have "length (concat zs) = length (concat (ws @ [z]))" using linked_jmp_measured(2) [OF assms(3,4)] l by (simp add: zs_def)
  then show ?thesis
    using t skip_link [OF m, of "length (concat (ws @ [z])) - 6" "[]" statei base exit target gc_step]
    by (auto simp: lj_asm_patchexit_x86_def Let_def)
qed

lemma store_front: "7 \<le> length p \<Longrightarrow> vmstate_store statei (p @ q) = vmstate_store statei p"
  by (auto simp: vmstate_store_def Let_def get32_append nth_append split: if_splits)

lemma store_append: "vmstate_store statei x \<Longrightarrow> 7 \<le> length x \<Longrightarrow> vmstate_store statei (x @ q)"
  by (auto simp: vmstate_store_def Let_def get32_append nth_append split: if_splits)

text \<open>An exit and what it is linked to; \<open>ys\<close> has instructions of the same lengths.\<close>

lemma goes_exit:
  assumes "k < length xs" "measured (xs ! k)" "exits_at base exit (offset xs k) (xs ! k)"
  shows "goes base xs k = Some (Cond (xs ! k ! 1 AND 15), exit)"
proof -
  have j: "is_jcc (xs ! k)" and e: "base + of_nat (offset xs k) + scast (get32 2 (xs ! k)) = exit - 6"
    using assms(3) by (simp_all add: exits_at_def)
  then have "base + of_nat (offset xs k) + 6 + scast (get32 2 (xs ! k)) = exit" by (simp add: algebra_simps)
  then show ?thesis using goes_jcc [OF assms(1) j measured_len(2) [OF assms(2) j]] by simp
qed

lemma exit_goes:
  assumes "k < length xs" "measured (xs ! k)" "xs ! k ! 0 = 0x0f" "goes base xs k = Some (Cond cc, exit)"
  shows "exits_at base exit (offset xs k) (xs ! k)" "cc = xs ! k ! 1 AND 15" "length (xs ! k) = 6"
proof -
  obtain b p where x: "xs ! k = 0x0f # b # p"
    using measured_len(1) [OF assms(2,3)] assms(3) by (cases "xs ! k"; cases "tl (xs ! k)") auto
  then have "drop_bit 4 b = 8" using assms(4) by (auto simp: goes_def split_at [OF assms(1)] branch_of_def split: if_splits)
  then have j: "is_jcc (xs ! k)" by (simp add: is_jcc_def x jcc_nibble)
  show l: "length (xs ! k) = 6" by (rule measured_len(2) [OF assms(2) j])
  show "exits_at base exit (offset xs k) (xs ! k)" "cc = xs ! k ! 1 AND 15"
    using goes_jcc [OF assms(1) j l, of base] assms(4) j by (auto simp: exits_at_def algebra_simps)
qed

lemma goes_call:
  assumes "k < length xs" "measured (xs ! k)" "goes base xs k = Some (Call, gc_step)"
  shows "calls_at base gc_step (offset xs k) (xs ! k)"
proof -
  obtain b p where x: "xs ! k = b # p" using assms(2) by (cases "xs ! k") (auto simp: measured_def)
  have e: "b = 0xe8" using assms(3) by (auto simp: goes_def split_at [OF assms(1)] branch_of_def x split: if_splits list.splits)
  then have "length (xs ! k) = 5" using measured_len(3) [OF assms(2)] by (simp add: x)
  then show ?thesis using goes_rel32 [OF assms(1), of b base] assms(3) e by (simp add: calls_at_def x)
qed

lemma goes_linked:
  assumes "k < length xs" "measured (xs ! k)" "exits_at base exit (offset xs k) (xs ! k)" "List.map length ys = List.map length xs"
    "ys ! k = linked_to base target (offset xs k) (xs ! k)" "checki32 (sint (target - (base + of_nat (offset xs k + 6))))"
  shows "goes base ys k = Some (Cond (xs ! k ! 1 AND 15), target)"
proof -
  have j: "is_jcc (xs ! k)" "length (xs ! k) = 6" using assms(3) measured_len(2) [OF assms(2)] by (auto simp: exits_at_def)
  have n: "length ys = length xs" using assms(4) by (metis length_map)
  have o: "offset ys k = offset xs k" by (simp only: offset_lengths assms(4))
  have "base + of_nat (offset xs k) + 6 + scast (jmprel (base + of_nat (offset xs k) + 6) target) = target"
    by (rule jmprel_back) (use assms(6) in \<open>simp add: add.assoc\<close>)
  then show ?thesis
    using goes_jcc [of k ys base] linked_goes [OF j(2,1), of base target "offset xs k"] assms(1) by (simp add: n o assms(5))
qed

lemma goes_jmp:
  assumes "xs ! (length xs - 1) ! 0 = 0xe9" "length (xs ! (length xs - 1)) = 5" "xs \<noteq> []"
  shows "goes base xs (length xs - 1) = Some (Jump, base + of_nat (length (concat xs)) + scast (get32 1 (xs ! (length xs - 1))))"
proof -
  have "length xs - 1 < length xs" using assms(3) by simp
  moreover from offset_rest [OF this] have "length (concat xs) = offset xs (length xs - 1) + 5" using assms by simp
  ultimately show ?thesis using goes_rel32 [of "length xs - 1" xs "0xe9" base] assms by (simp add: add.assoc)
qed

text \<open>
  C34. A trace is linked to a side trace. For the code of a trace that ends in a jump, made of instructions the
  decoder measures, \<open>lj_asm_patchexit\<close> returns, and what it changes are branches: every instruction is what it was,
  or it went to the exit stub and the same branch now goes to the new trace. The jump at the end is linked if it went to
  the exit, and so is every conditional jump to the exit behind a store of the VM state, unless it stands where the
  test after a call of \<open>lj_gc_step_jit\<close> branches. That branch stays as it is, since the collector check must leave by
  the exit, and so does everything in front of the first store, such as the check of the stack.
\<close>

theorem x86_patchexit_links:
  assumes "\<forall>x \<in> set xs. measured x" "2 \<le> length xs" "last xs ! 0 = 0xe9"
    "\<forall>k \<le> length (concat xs). checki32 (sint (target - (base + of_nat k)))"
  shows "\<exists>ys. lj_asm_patchexit_x86 base exit target gc_step statei (concat xs) = Some (concat ys) \<and>
    List.map length ys = List.map length xs \<and>
    (\<forall>k < length xs. ys ! k = xs ! k \<or> (\<exists>b. goes base xs k = Some (b, exit) \<and> goes base ys k = Some (b, target))) \<and>
    (goes base xs (length xs - 1) = Some (Jump, exit) \<longrightarrow> goes base ys (length xs - 1) = Some (Jump, target)) \<and>
    (\<forall>l k cc. vmstate_store statei (xs ! l) \<and> 7 \<le> length (xs ! l) \<and> l \<le> k \<and> k < length xs \<and>
       xs ! k ! 0 = 0x0f \<and> goes base xs k = Some (Cond cc, exit) \<and>
       (\<forall>j < k. goes base xs j = Some (Call, gc_step) \<longrightarrow> offset xs k \<noteq> offset xs j + 7) \<longrightarrow>
       goes base ys k = Some (Cond cc, target)) \<and>
    (\<forall>l j k. vmstate_store statei (xs ! l) \<and> 7 \<le> length (xs ! l) \<and> l \<le> j \<and> j < k \<and> k < length xs \<and>
       xs ! k ! 0 = 0x0f \<and> goes base xs j = Some (Call, gc_step) \<and> offset xs k = offset xs j + 7 \<longrightarrow> ys ! k = xs ! k) \<and>
    (\<forall>l k. l < length xs \<and> vmstate_store statei (xs ! l) \<and> 7 \<le> length (xs ! l) \<and>
       (\<forall>m < l. \<not> vmstate_store statei (concat (drop m xs))) \<and> k < l \<longrightarrow> ys ! k = xs ! k)"
proof -
  obtain ws z where xs: "xs = ws @ [z]" "ws \<noteq> []" using assms(2) by (cases xs rule: rev_cases) fastforce+
  have z: "measured z" "z ! 0 = 0xe9" and lz: "length z = 5" using assms(1,3) measured_len(4) [of z] by (auto simp: xs)
  let ?len = "length (concat xs)" and ?k = "length xs - 1"
  define z' where z': "z' = linked_jmp base exit target ?len z"
  define zs where zs: "zs = ws @ [z']"
  define ys where ys: "ys = link_trace base exit target gc_step statei (?len - 6) 0 zs"
  note mz = linked_jmp_measured [OF z, of base exit target ?len, folded z']
  have run: "lj_asm_patchexit_x86 base exit target gc_step statei (concat xs) = Some (concat ys)"
    using patchexit_link [of ws z base exit target gc_step statei] assms(1) xs z by (simp add: ys zs z')
  have n: "length zs = length xs" "length ys = length xs" by (simp_all add: ys zs xs link_trace_len)
  have before: "zs ! k = xs ! k" if "k < length ws" for k using that by (simp add: zs xs nth_append)
  have m: "measured (xs ! k)" if "k < length xs" for k using that assms(1) by simp
  have off: "offset zs k = offset xs k" if "k < length xs" for k using that by (simp add: offset_def zs xs)
  have fin: "zs ! ?k = z'" "xs ! ?k = z" by (simp_all add: zs xs)
  have chg: "ys ! k = zs ! k \<or> exits_at base exit (offset xs k) (xs ! k) \<and> k < length ws \<and> ys ! k = linked_to base target (offset xs k) (xs ! k)"
    if "k < length xs" for k
    using link_trace_nth(2) [of k zs base exit target gc_step statei "?len - 6" 0] that mz(3) fin before [of k]
    by (cases "k < length ws") (auto simp: ys n off exits_at_def is_jcc_def xs less_Suc_eq)
  have lens: "List.map length ys = List.map length xs"
  proof (rule nth_equalityI)
    fix k assume "k < length (List.map length ys)"
    then have k: "k < length xs" by (simp add: n)
    have "length (ys ! k) = length (xs ! k)"
      using k chg [OF k] before [of k] measured_linked [OF m [OF k]] fin mz(2) lz by (cases "k < length ws") (auto simp: xs less_Suc_eq)
    then show "List.map length ys ! k = List.map length xs ! k" using k by (simp add: n)
  qed (simp add: n)
  have reach: "checki32 (sint (target - (base + of_nat (offset xs k + 6))))" if "k < length xs" "length (xs ! k) = 6" for k
    using assms(4) [rule_format, of "offset xs k + 6"] offset_rest [OF that(1)] that(2) by simp
  have six: "length (xs ! k) = 6" if "k < length xs" "exits_at base exit (offset xs k) (xs ! k)" for k
    using measured_len(2) [OF m] that by (auto simp: exits_at_def)
  have last: "ys ! ?k = z'" using chg [of ?k] fin by (auto simp: xs)
  have concats: "length (concat ys) = ?len" using lens by (simp add: length_concat)
  have tail: "goes base ys ?k = Some (Jump, target)" if "base + of_nat ?len + scast (get32 1 z) = exit"
  proof -
    have "z' = 0xe9 # le32 (jmprel (base + of_nat ?len) target)" using that by (simp add: z' linked_jmp_def)
    then have h: "ys ! ?k ! 0 = 0xe9" "length (ys ! ?k) = 5" "get32 1 (ys ! ?k) = jmprel (base + of_nat ?len) target"
      using last get32_le32 [of "[0xe9]"] by simp_all
    have ne: "ys \<noteq> []" using n(2) xs by auto
    have "base + of_nat ?len + scast (jmprel (base + of_nat ?len) target) = target"
      by (rule jmprel_back) (use assms(4) in simp)
    then show ?thesis using goes_jmp [of ys base, unfolded n(2)] h ne by (simp add: concats)
  qed
  have goes_last: "goes base xs ?k = Some (Jump, base + of_nat ?len + scast (get32 1 z))"
    using goes_jmp [of xs base] fin z(2) lz xs by simp
  have some: "ys ! k = xs ! k \<or> (\<exists>b. goes base xs k = Some (b, exit) \<and> goes base ys k = Some (b, target))" if k: "k < length xs" for k
  proof (cases "k = ?k")
    case True
    then show ?thesis using last fin goes_last tail by (cases "z' = z") (auto simp: z' linked_jmp_def split: if_splits)
  next
    case False
    then show ?thesis
      using chg [OF k] before [of k] goes_exit [OF k m [OF k]] goes_linked [OF k m [OF k] _ lens _ reach [OF k]] six [OF k] k
      by (auto simp: xs)
  qed
  have guard: "goes base ys k = Some (Cond cc, target)"
    if h: "vmstate_store statei (xs ! l)" "7 \<le> length (xs ! l)" "l \<le> k" "k < length xs" "xs ! k ! 0 = 0x0f"
      "goes base xs k = Some (Cond cc, exit)"
      "\<forall>j < k. goes base xs j = Some (Call, gc_step) \<longrightarrow> offset xs k \<noteq> offset xs j + 7" for l k cc
  proof -
    note e = exit_goes [OF h(4) m [OF h(4)] h(5,6)]
    have kw: "k < length ws" using h(4,5) z(2) fin by (cases "k = length ws") (auto simp: xs less_Suc_eq)
    have "5 \<le> length (concat (drop (Suc k) xs))" using kw lz by (simp add: xs)
    then have pe: "offset xs k < ?len - 6" using offset_rest [OF h(4)] e(3) by linarith
    have st: "vmstate_store statei (concat (drop l zs))"
    proof -
      have "l < length ws" "l < length zs" using h(3,4) kw n(1) by simp_all
      then show ?thesis using split_at [of l zs] store_append [OF h(1,2)] before [of l] by simp
    qed
    have calls: "\<forall>j < k. calls_at base gc_step (offset zs j) (zs ! j) \<longrightarrow> offset zs k \<noteq> offset zs j + 7"
    proof (intro allI impI)
      fix j assume jk: "j < k" and c: "calls_at base gc_step (offset zs j) (zs ! j)"
      have jx: "j < length xs" "zs ! j = xs ! j" using jk kw before by (simp_all add: xs)
      have "length (xs ! j) = 5" using c measured_len(3) [OF m [OF jx(1)]] jx by (simp add: calls_at_def)
      then have "goes base xs j = Some (Call, gc_step)"
        using c goes_rel32 [of j xs "0xe8" base] jx by (simp add: calls_at_def off)
      then show "offset zs k \<noteq> offset zs j + 7" using h(7) jk h(4) off jx by simp
    qed
    have "ys ! k = linked_to base target (offset xs k) (xs ! k)"
      using link_trace_nth(3) [of k zs 0 "?len - 6" base exit statei l gc_step target] e pe st h(3,4) calls before [OF kw]
      by (simp add: ys n off)
    then show ?thesis using goes_linked [OF h(4) m [OF h(4)] e(1) lens _ reach [OF h(4) e(3)]] e(2) by simp
  qed
  have store: "vmstate_store statei (concat (drop l zs))" if "vmstate_store statei (xs ! l)" "7 \<le> length (xs ! l)" "l < length ws" for l
    using that split_at [of l zs] store_append [OF that(1,2)] before [of l] n(1) xs by simp
  have mzs: "\<forall>x \<in> set zs. measured x" using assms(1) mz(1) by (auto simp: zs xs)
  have inner: "k < length ws" if "k < length xs" "xs ! k ! 0 = 0x0f" for k
    using that z(2) fin by (cases "k = length ws") (auto simp: xs less_Suc_eq)
  have gc: "ys ! k = xs ! k"
    if h: "vmstate_store statei (xs ! l)" "7 \<le> length (xs ! l)" "l \<le> j" "j < k" "k < length xs" "xs ! k ! 0 = 0x0f"
      "goes base xs j = Some (Call, gc_step)" "offset xs k = offset xs j + 7" for l j k
  proof -
    have k: "k < length ws" "k < length zs" using inner h(5,6) n(1) by simp_all
    have j: "j < length xs" "j < length ws" using h(4,5) k by simp_all
    have c: "calls_at base gc_step (0 + offset zs j) (zs ! j)"
      using goes_call [OF j(1) m [OF j(1)] h(7)] before [OF j(2)] off [OF j(1)] by simp
    have "ys ! k = zs ! k" unfolding ys
      by (rule link_trace_gc [OF mzs store [OF h(1,2)] h(3,4) k(2) c]) (use h k j off in simp_all)
    then show ?thesis using before [OF k(1)] by simp
  qed
  have front: "ys ! k = xs ! k"
    if h: "l < length xs" "7 \<le> length (xs ! l)" "\<forall>m < l. \<not> vmstate_store statei (concat (drop m xs))" "k < l" for l k
  proof -
    have l: "l < length ws" using h(1,2) lz fin by (cases "l = length ws") (auto simp: xs less_Suc_eq)
    have "\<not> vmstate_store statei (concat (drop m zs))" if mk: "m \<le> k" for m
    proof -
      have "m < l" "m \<le> length ws" using mk h(4) l by simp_all
      have "xs ! l \<in> set (drop m ws)" using \<open>m < l\<close> l by (auto simp: xs nth_append in_set_conv_nth intro!: exI [of _ "l - m"])
      then have "length (xs ! l) \<le> length (concat (drop m ws))" by (auto simp: length_concat intro!: member_le_sum_list)
      then have seven: "7 \<le> length (concat (drop m ws))" using h(2) by simp
      have "concat (drop m zs) = concat (drop m ws) @ z'" "concat (drop m xs) = concat (drop m ws) @ z"
        using \<open>m \<le> length ws\<close> by (simp_all add: zs xs)
      then show ?thesis using h(3) [rule_format, OF \<open>m < l\<close>] store_front [OF seven] by simp
    qed
    then have "ys ! k = zs ! k" unfolding ys by (intro link_trace_front) blast
    then show ?thesis using before [of k] h(4) l by simp
  qed
  have "goes base xs ?k = Some (Jump, exit) \<longrightarrow> goes base ys ?k = Some (Jump, target)" using goes_last tail by simp
  then show ?thesis using run lens some guard gc front by (intro exI [of _ ys] conjI) blast+
qed

text \<open>
  A trace of a store of the VM state, a guard, a call of \<open>lj_gc_step_jit\<close> with its test and branch, and a jump: the
  guard and the jump are linked from \<open>0x2000\<close> to \<open>0x9000\<close>, the branch behind the call is not.
\<close>

definition demo_trace :: "8 word list list" where
  "demo_trace =
    [[0x41, 0xc7, 0x86] @ le32 0xfffffff0 @ le32 7, [0x0f, 0x85] @ le32 (0x2000 - 0x1011), 0xe8 # le32 (0x3000 - 0x1016),
     [0x85, 0xc0], [0x0f, 0x85] @ le32 (0x2000 - 0x101e), 0xe9 # le32 (0x2000 - 0x1023)]"

lemma demo_measured: "\<forall>x \<in> set demo_trace. measured x"
  by (simp add: demo_trace_def measured_def le32_def asm_x86_inslen_def inslen_steps inslen_mrm_def
      map_op1_def map_op2_def map_op1_nth map_op2_nth map_op_rows)

lemma demo_store: "vmstate_store 0xfffffff0 (demo_trace ! 0)" "7 \<le> length (demo_trace ! 0)" "length demo_trace = 6"
    "length (concat demo_trace) = 35"
  by (simp_all add: demo_trace_def vmstate_store_def get32_def le32_def XI_MOVmi_def)

lemma demo_reach: "\<forall>k \<le> length (concat demo_trace). checki32 (sint (0x9000 - (0x1000 + of_nat k) :: 64 word))"
proof (intro allI impI)
  fix k :: nat assume "k \<le> length (concat demo_trace)"
  then have "k \<in> set [0..<36]" by (simp add: demo_store)
  then show "checki32 (sint (0x9000 - (0x1000 + of_nat k) :: 64 word))"
    by (simp add: upt_rec) (elim disjE; simp add: checki32_def)
qed

lemma demo_goes:
  "goes 0x1000 demo_trace 0 = None" "goes 0x1000 demo_trace 1 = Some (Cond 5, 0x2000)"
  "goes 0x1000 demo_trace 5 = Some (Jump, 0x2000)" "demo_trace ! 1 ! 0 = 0x0f" "last demo_trace ! 0 = 0xe9"
  by (simp_all add: goes_def demo_trace_def branch_of_def take_disp_def addr_of_def le32_def)

lemma demo_gc:
  "goes 0x1000 demo_trace 2 = Some (Call, 0x3000)" "offset demo_trace 4 = offset demo_trace 2 + 7" "demo_trace ! 4 ! 0 = 0x0f"
  by (simp_all add: goes_def offset_def demo_trace_def branch_of_def take_disp_def addr_of_def le32_def)

theorem x86_patchexit_links_witness:
  "\<exists>ys. lj_asm_patchexit_x86 0x1000 0x2000 0x9000 0x3000 0xfffffff0 (concat demo_trace) = Some (concat ys) \<and>
     goes 0x1000 ys 1 = Some (Cond 5, 0x9000) \<and> goes 0x1000 ys 5 = Some (Jump, 0x9000) \<and> ys ! 4 = demo_trace ! 4"
proof -
  have two: "2 \<le> length demo_trace" by (simp add: demo_store)
  obtain ys where y: "lj_asm_patchexit_x86 0x1000 0x2000 0x9000 0x3000 0xfffffff0 (concat demo_trace) = Some (concat ys)"
    and j: "goes 0x1000 demo_trace (length demo_trace - 1) = Some (Jump, 0x2000) \<longrightarrow>
      goes 0x1000 ys (length demo_trace - 1) = Some (Jump, 0x9000)"
    and g: "\<forall>l k cc. vmstate_store 0xfffffff0 (demo_trace ! l) \<and> 7 \<le> length (demo_trace ! l) \<and> l \<le> k \<and>
      k < length demo_trace \<and> demo_trace ! k ! 0 = 0x0f \<and> goes 0x1000 demo_trace k = Some (Cond cc, 0x2000) \<and>
      (\<forall>j < k. goes 0x1000 demo_trace j = Some (Call, 0x3000) \<longrightarrow> offset demo_trace k \<noteq> offset demo_trace j + 7) \<longrightarrow>
      goes 0x1000 ys k = Some (Cond cc, 0x9000)"
    and c: "\<forall>l j k. vmstate_store 0xfffffff0 (demo_trace ! l) \<and> 7 \<le> length (demo_trace ! l) \<and> l \<le> j \<and> j < k \<and> k < length demo_trace \<and>
       demo_trace ! k ! 0 = 0x0f \<and> goes 0x1000 demo_trace j = Some (Call, 0x3000) \<and> offset demo_trace k = offset demo_trace j + 7 \<longrightarrow>
       ys ! k = demo_trace ! k"
    using x86_patchexit_links [OF demo_measured two demo_goes(5) demo_reach, of "0x2000" "0x3000" "0xfffffff0"] by blast
  have "goes 0x1000 ys 1 = Some (Cond 5, 0x9000)"
    using g [rule_format, of 0 1 5] demo_store demo_goes by (simp add: less_Suc_eq_0_disj)
  moreover have "ys ! 4 = demo_trace ! 4" by (rule c [rule_format, of 0 2 4]) (simp add: demo_store demo_gc)
  ultimately show ?thesis using y j demo_store(3) demo_goes(3) by (intro exI [of _ ys]) simp
qed

end
