(* ===== verification/LJ_X86_Exit.thy ===== *)
theory LJ_X86_Exit
  imports LJ_X86_Patch
begin

text \<open>
  The exits of traces in \<open>LuaJit/include/lj_asm_x86.h\<close>, for x64 with 64 bit references: the exit stubs at the
  bottom of the code area (\<open>asm_exitstub_gen\<close>, \<open>asm_exitstub_setup\<close>). The bytes at the bottom are \<open>bots\<close> of the
  assembler state, and the exit stub groups of \<open>jit_State\<close> are a list of addresses, \<open>0\<close> for one that does not exist.
\<close>

section \<open>Exit stubs\<close>

definition LJ_MAX_EXITSTUBGR :: nat where "LJ_MAX_EXITSTUBGR = 16"

datatype exit_error = MCLIM | TRERR_SNAPOV

definition exitstub_addr :: "64 word list \<Rightarrow> 32 word \<Rightarrow> 64 word" where
  "exitstub_addr gr exitno =
     gr ! (unat exitno div EXITSTUBS_PER_GROUP) + of_nat (EXITSTUB_SPACING * (unat exitno mod EXITSTUBS_PER_GROUP))"

text \<open>The bytes of a group, which starts at the address \<open>mxp\<close>.\<close>

definition stub_pushes :: "nat \<Rightarrow> 8 word list" where
  "stub_pushes grp =
     (let groupofs = (grp * EXITSTUBS_PER_GROUP) AND 0xff in
      [ucast XI_PUSHi8, of_nat groupofs] @
      concat (List.map (\<lambda>i. [ucast XI_JMPs, of_nat ((2 + 2) * (EXITSTUBS_PER_GROUP - i) - 2),
                        ucast XI_PUSHi8, of_nat (groupofs + i)]) [1..<EXITSTUBS_PER_GROUP]) @
      [ucast XI_PUSHi8, of_nat (drop_bit 8 (grp * EXITSTUBS_PER_GROUP))])"

definition stub_bytes :: "64 word \<Rightarrow> nat \<Rightarrow> 64 word \<Rightarrow> 8 word list" where
  "stub_bytes handler grp mxp =
     (let bs = stub_pushes grp in
      bs @ ucast XI_JMP # le32 (jmprel (mxp + of_nat (length bs) + 5) handler))"

text \<open>
  \<open>commit\<close> is \<open>lj_mcode_commitbot\<close> of the code allocator, and \<open>handler\<close> the address of \<open>lj_vm_exit_handler\<close>.
\<close>

definition asm_exitstub_gen ::
  "(64 word \<Rightarrow> 'j \<Rightarrow> 'j) \<Rightarrow> 64 word \<Rightarrow> 64 word \<Rightarrow> nat \<Rightarrow> asm_x86 \<times> 'j \<Rightarrow> exit_error + (64 word \<times> asm_x86 \<times> 'j)" where
  "asm_exitstub_gen commit handler redz grp s =
     (let (st, j) = s; mxpstart = mcbot st in
      if mxpstart + of_nat ((2 + 2) * EXITSTUBS_PER_GROUP + 8 + 5) \<ge> mctop st then Inl MCLIM
      else
        let st = st\<lparr>bots := bots st @ stub_bytes handler grp mxpstart\<rparr>;
            mxp = mcbot st in
        Inr (mxpstart, st\<lparr>mclim := mxp + redz\<rparr>, commit mxp j))"

fun stub_loop ::
  "(64 word \<Rightarrow> 'j \<Rightarrow> 'j) \<Rightarrow> 64 word \<Rightarrow> 64 word \<Rightarrow> nat list \<Rightarrow> 64 word list \<times> asm_x86 \<times> 'j \<Rightarrow>
     exit_error + (64 word list \<times> asm_x86 \<times> 'j)" where
  "stub_loop commit handler redz [] s = Inr s"
| "stub_loop commit handler redz (i # gs) (gr, s) =
     (if gr ! i = 0
      then (case asm_exitstub_gen commit handler redz i s of Inl e \<Rightarrow> Inl e
            | Inr (p, s) \<Rightarrow> stub_loop commit handler redz gs (gr[i := p], s))
      else stub_loop commit handler redz gs (gr, s))"

definition asm_exitstub_setup ::
  "(64 word \<Rightarrow> 'j \<Rightarrow> 'j) \<Rightarrow> 64 word \<Rightarrow> 64 word \<Rightarrow> 32 word \<Rightarrow> 64 word list \<times> asm_x86 \<times> 'j \<Rightarrow>
     exit_error + (64 word list \<times> asm_x86 \<times> 'j)" where
  "asm_exitstub_setup commit handler redz nexits s =
     (if unat nexits \<ge> EXITSTUBS_PER_GROUP * LJ_MAX_EXITSTUBGR then Inl TRERR_SNAPOV
      else stub_loop commit handler redz [0..<(unat nexits + EXITSTUBS_PER_GROUP - 1) div EXITSTUBS_PER_GROUP] s)"

section \<open>What the processor does in a stub\<close>

text \<open>
  The memory is that of the code area below \<open>mcbot\<close>, and \<open>M\<close> elsewhere. A step pushes a byte, as 64 bits, or jumps.
\<close>

definition code_mem :: "asm_x86 \<Rightarrow> (64 word \<Rightarrow> 8 word) \<Rightarrow> 64 word \<Rightarrow> 8 word" where
  "code_mem st M a = (let k = unat (a - mcbase st) in if k < length (bots st) then bots st ! k else M a)"

definition mem32 :: "(64 word \<Rightarrow> 8 word) \<Rightarrow> 64 word \<Rightarrow> 32 word" where
  "mem32 M a = un_le32 [M a, M (a + 1), M (a + 2), M (a + 3)]"

inductive stub_step :: "(64 word \<Rightarrow> 8 word) \<Rightarrow> 64 word \<times> 64 word list \<Rightarrow> 64 word \<times> 64 word list \<Rightarrow> bool" for M where
  push: "M ip = 0x6a \<Longrightarrow> stub_step M (ip, s) (ip + 2, scast (M (ip + 1)) # s)"
| short: "M ip = 0xeb \<Longrightarrow> stub_step M (ip, s) (ip + 2 + scast (M (ip + 1)), s)"
| near: "M ip = 0xe9 \<Longrightarrow> stub_step M (ip, s) (ip + 5 + scast (mem32 M (ip + 1)), s)"

text \<open>Bytes that the fixing of a trace may still overwrite, and groups of stubs that are in place.\<close>

definition area_ok :: "asm_x86 \<Rightarrow> bool" where
  "area_ok st \<longleftrightarrow> 0 < unat (mcbase st) \<and> unat (mcbase st) + length (bots st) \<le> unat (mctop st) \<and> unat (mctop st) < 2 ^ 47"

definition free_at :: "asm_x86 \<Rightarrow> 64 word \<Rightarrow> bool" where
  "free_at st a \<longleftrightarrow> length (bots st) \<le> unat (a - mcbase st) \<and> unat (a - mcbase st) < unat (mctop st - mcbase st)"

definition group_ok :: "64 word \<Rightarrow> asm_x86 \<Rightarrow> (64 word \<Rightarrow> 8 word) \<Rightarrow> nat \<Rightarrow> 64 word \<Rightarrow> bool" where
  "group_ok handler st M i g \<longleftrightarrow>
     (\<forall>k < 133. code_mem st M (g + of_nat k) = stub_bytes handler i g ! k \<and> \<not> free_at st (g + of_nat k)) \<and>
     checki32 (sint (handler - (g + 133)))"

definition groups_ok :: "64 word \<Rightarrow> asm_x86 \<Rightarrow> (64 word \<Rightarrow> 8 word) \<Rightarrow> 64 word list \<Rightarrow> bool" where
  "groups_ok handler st M gr \<longleftrightarrow>
     length gr = LJ_MAX_EXITSTUBGR \<and> (\<forall>i < LJ_MAX_EXITSTUBGR. gr ! i \<noteq> 0 \<longrightarrow> group_ok handler st M i (gr ! i))"

lemma stub_consts [simp]: "EXITSTUBS_PER_GROUP = 32" "EXITSTUB_SPACING = 4" "LJ_MAX_EXITSTUBGR = 16"
  "XI_PUSHi8 = 0x6a" "XI_JMPs = 0xeb" "XI_JMP = 0xe9"
  by (simp_all add: EXITSTUBS_PER_GROUP_def EXITSTUB_SPACING_def LJ_MAX_EXITSTUBGR_def XI_PUSHi8_def XI_JMPs_def XI_JMP_def)

text \<open>The bytes of a group: four for each stub but the last, which has two, then the push and the jump they share.\<close>

definition stub_ofs :: "nat \<Rightarrow> nat" where "stub_ofs i = i * 32 AND 0xff"

lemma stub_pushes_unroll:
  "stub_pushes i = concat (List.map (\<lambda>k. [0x6a, of_nat (stub_ofs i + k), 0xeb, of_nat (126 - (4 * k + 4))]) [0..<31]) @
     [0x6a, of_nat (stub_ofs i + 31), 0x6a, of_nat (drop_bit 8 (i * 32))]"
  by (simp add: stub_pushes_def Let_def upt_rec flip: stub_ofs_def)

lemma stub_len: "length (stub_pushes i) = 128" "length (stub_bytes handler i g) = 133"
proof -
  show l: "length (stub_pushes i) = 128"
    by (simp add: stub_pushes_unroll length_concat comp_def sum_list_triv)
  show "length (stub_bytes handler i g) = 133" by (simp add: stub_bytes_def Let_def l le32_def)
qed

lemma concat_nth:
  "\<forall>k. length (f k) = 4 \<Longrightarrow> k < n \<Longrightarrow> j < 4 \<Longrightarrow> concat (List.map f [0..<n]) ! (4 * k + j) = f k ! j"
proof (induction n)
  case (Suc n)
  have l: "length (concat (List.map f [0..<n])) = 4 * n" using Suc.prems(1) by (simp add: length_concat comp_def sum_list_triv)
  show ?case
  proof (cases "k = n")
    case True
    then show ?thesis using l Suc.prems by (simp add: nth_append)
  next
    case False
    then have "k < n" using Suc.prems by simp
    then show ?thesis using l Suc Suc.prems(3) by (simp add: nth_append)
  qed
qed simp

lemma stub_nth:
  "k < 32 \<Longrightarrow> stub_bytes handler i g ! (4 * k) = 0x6a"
  "k < 32 \<Longrightarrow> stub_bytes handler i g ! (4 * k + 1) = of_nat (stub_ofs i + k)"
  "k < 31 \<Longrightarrow> stub_bytes handler i g ! (4 * k + 2) = 0xeb"
  "k < 31 \<Longrightarrow> stub_bytes handler i g ! (4 * k + 3) = of_nat (126 - (4 * k + 4))"
  "stub_bytes handler i g ! 126 = 0x6a" "stub_bytes handler i g ! 127 = of_nat (drop_bit 8 (i * 32))"
  "stub_bytes handler i g ! 128 = 0xe9"
  "un_le32 [stub_bytes handler i g ! 129, stub_bytes handler i g ! 130, stub_bytes handler i g ! 131, stub_bytes handler i g ! 132]
     = jmprel (g + 133) handler"
proof -
  let ?f = "\<lambda>k. [0x6a, of_nat (stub_ofs i + k), 0xeb, of_nat (126 - (4 * k + 4))] :: 8 word list"
  have l: "length (concat (List.map ?f [0..<31])) = 124" by (simp add: length_concat comp_def sum_list_triv)
  have lo: "stub_bytes handler i g ! m = concat (List.map ?f [0..<31]) ! m" if "m < 124" for m
    using that l by (simp add: stub_bytes_def Let_def stub_pushes_unroll nth_append)
  have hi: "stub_bytes handler i g ! (124 + m) =
     ([0x6a, of_nat (stub_ofs i + 31), 0x6a, of_nat (drop_bit 8 (i * 32))] @ 0xe9 # le32 (jmprel (g + 133) handler)) ! m" for m
    using stub_len(1) [of i] l by (simp add: stub_bytes_def Let_def stub_pushes_unroll nth_append add.assoc)
  have m: "\<forall>k. length (?f k) = 4" by simp
  note c = concat_nth [OF m, where n = 31]
  show "stub_bytes handler i g ! (4 * k) = 0x6a" if "k < 32"
    using that lo [of "4 * k"] c [of k 0] hi [of 0] by (cases "k = 31") simp_all
  show "stub_bytes handler i g ! (4 * k + 1) = of_nat (stub_ofs i + k)" if "k < 32"
    using that lo [of "4 * k + 1"] c [of k 1] hi [of 1] by (cases "k = 31") simp_all
  show "k < 31 \<Longrightarrow> stub_bytes handler i g ! (4 * k + 2) = 0xeb" using lo [of "4 * k + 2"] c [of k 2] by simp
  show "k < 31 \<Longrightarrow> stub_bytes handler i g ! (4 * k + 3) = of_nat (126 - (4 * k + 4))" using lo [of "4 * k + 3"] c [of k 3] by simp
  show "stub_bytes handler i g ! 126 = 0x6a" using hi [of 2] by simp
  show "stub_bytes handler i g ! 127 = of_nat (drop_bit 8 (i * 32))" using hi [of 3] by simp
  show "stub_bytes handler i g ! 128 = 0xe9" using hi [of 4] by simp
  show "un_le32 [stub_bytes handler i g ! 129, stub_bytes handler i g ! 130, stub_bytes handler i g ! 131, stub_bytes handler i g ! 132]
     = jmprel (g + 133) handler"
    using hi [of 5] hi [of 6] hi [of 7] hi [of 8] get32_le32 [of "[]" "jmprel (g + 133) handler"]
    by (simp add: le32_def get32_def)
qed


text \<open>From a stub the processor pushes two bytes and reaches the handler.\<close>

lemma stub_runs:
  assumes "group_ok handler st M i g" "k < 32"
  shows "(stub_step (code_mem st M))\<^sup>*\<^sup>* (g + of_nat (4 * k), s)
    (handler, scast (of_nat (drop_bit 8 (i * 32)) :: 8 word) # scast (of_nat (stub_ofs i + k) :: 8 word) # s)"
proof -
  let ?m = "code_mem st M" and ?b = "stub_bytes handler i g"
  have m: "?m (g + of_nat j) = ?b ! j" if "j < 133" for j using assms(1) that by (simp add: group_ok_def)
  note n = stub_nth [where handler = handler and i = i and g = g]
  have fin: "(stub_step ?m)\<^sup>*\<^sup>* (g + 126, t) (handler, scast (of_nat (drop_bit 8 (i * 32)) :: 8 word) # t)" for t
  proof -
    have e: "g + 126 + 1 = g + 127" "g + 126 + 2 = g + 128" "g + 128 + 1 = g + 129" "g + 128 + 5 = g + 133" by simp_all
    have "stub_step ?m (g + 126, t) (g + 128, scast (?m (g + 127)) # t)"
      using stub_step.push [of ?m "g + 126" t, unfolded e] m [of 126] n(5) by simp
    moreover have "stub_step ?m (g + 128, u) (g + 133 + scast (mem32 ?m (g + 129)), u)" for u
      using stub_step.near [of ?m "g + 128" u, unfolded e] m [of 128] n(7) by simp
    moreover have "mem32 ?m (g + 129) = jmprel (g + 133) handler"
    proof -
      have a: "g + 129 + 1 = g + 130" "g + 129 + 2 = g + 131" "g + 129 + 3 = g + 132" by simp_all
      show ?thesis using m [of 129] m [of 130] m [of 131] m [of 132] n(8) unfolding mem32_def a by simp
    qed
    moreover have "g + 133 + scast (jmprel (g + 133) handler) = handler"
      by (rule jmprel_back) (use assms(1) in \<open>simp add: group_ok_def\<close>)
    moreover have "?m (g + 127) = of_nat (drop_bit 8 (i * 32))" using m [of 127] n(6) by simp
    ultimately show ?thesis by (simp add: converse_rtranclp_into_rtranclp [OF _ r_into_rtranclp])
  qed
  define a where a: "a = g + of_nat (4 * k)"
  have ma: "?m (a + of_nat j) = ?b ! (4 * k + j)" if "4 * k + j < 133" for j using m [OF that] by (simp add: a add.assoc)
  have push: "stub_step ?m (a, s) (a + 2, scast (of_nat (stub_ofs i + k) :: 8 word) # s)"
    using stub_step.push [of ?m a s] ma [of 0] ma [of 1] n(1,2) [OF assms(2)] assms(2) by simp
  show ?thesis unfolding a [symmetric]
  proof (cases "k = 31")
    case True
    then have a2: "a + 2 = g + 126" by (simp add: a)
    then show "(stub_step ?m)\<^sup>*\<^sup>* (a, s) (handler, scast (of_nat (drop_bit 8 (i * 32)) :: 8 word) # scast (of_nat (stub_ofs i + k) :: 8 word) # s)"
      by (intro converse_rtranclp_into_rtranclp [where r = "stub_step ?m", OF push]) (simp only: a2 fin)
  next
    case False
    then have k: "k < 31" using assms(2) by simp
    have e: "a + 2 + 1 = a + 3" "a + 2 + 2 = a + 4" by simp_all
    have d: "(scast (of_nat (126 - (4 * k + 4)) :: 8 word) :: 64 word) = of_nat (126 - (4 * k + 4))"
    proof -
      have "k \<in> set [0..<31]" using k by simp
      then show ?thesis by (simp add: upt_rec) (elim disjE; simp)
    qed
    have "?m (a + 3) = of_nat (126 - (4 * k + 4))" using ma [of 3] n(4) [OF k] k by simp
    then have "scast (?m (a + 3)) = (of_nat (126 - (4 * k + 4)) :: 64 word)" by (simp only: d)
    moreover have "a + 4 + of_nat (126 - (4 * k + 4)) = g + 126" using k by (simp add: a of_nat_diff algebra_simps)
    ultimately have t: "a + 4 + scast (?m (a + 3)) = g + 126" by (simp only:)
    have "?m (a + 2) = 0xeb" using ma [of 2] n(3) [OF k] k by simp
    then have "stub_step ?m (a + 2, t) (g + 126, t)" for t
      using stub_step.short [of ?m "a + 2" t, unfolded e t] by simp
    then show "(stub_step ?m)\<^sup>*\<^sup>* (a, s) (handler, scast (of_nat (drop_bit 8 (i * 32)) :: 8 word) # scast (of_nat (stub_ofs i + k) :: 8 word) # s)"
      by (intro converse_rtranclp_into_rtranclp [where r = "stub_step ?m", OF push] converse_rtranclp_into_rtranclp [where r = "stub_step ?m", OF _ fin])
  qed
qed


text \<open>A new group is in place, and what was in place stays.\<close>

lemma unat_back: "b \<le> a \<Longrightarrow> unat (a - b) = unat a - unat (b :: 64 word)"
  by (simp add: unat_sub)

lemma area_simps:
  assumes "area_ok st"
  shows "unat (mcbot st) = unat (mcbase st) + length (bots st)" "mcbot st \<noteq> 0" "unat (mctop st - mcbase st) = unat (mctop st) - unat (mcbase st)"
proof -
  have "length (bots st) < 2 ^ 64" "unat (mcbase st) + length (bots st) < 2 ^ 64" using assms by (auto simp: area_ok_def)
  then show u: "unat (mcbot st) = unat (mcbase st) + length (bots st)"
    by (simp add: mcbot_def unat_word_ariths unat_of_nat take_bit_nat_eq_self)
  show "mcbot st \<noteq> 0" using u assms by (metis add_is_0 area_ok_def less_numeral_extra(3) unat_0)
  show "unat (mctop st - mcbase st) = unat (mctop st) - unat (mcbase st)"
    by (rule unat_back) (use assms in \<open>simp add: area_ok_def word_le_nat_alt\<close>)
qed

lemma gen_room:
  assumes "area_ok st" "\<not> mcbot st + of_nat ((2 + 2) * EXITSTUBS_PER_GROUP + 8 + 5) \<ge> mctop st"
  shows "length (bots st) + 133 \<le> unat (mctop st - mcbase st)"
proof -
  have "unat (mcbot st) + 141 < 2 ^ 64" using area_simps(1) [OF assms(1)] assms(1) by (simp add: area_ok_def)
  then have "unat (mcbot st + 141) = unat (mcbot st) + 141" by (simp add: unat_word_ariths)
  then have "unat (mcbot st) + 141 < unat (mctop st)" using assms(2) by (simp add: not_le word_less_nat_alt)
  then show ?thesis using area_simps [OF assms(1)] assms(1) by (simp add: area_ok_def)
qed

lemma gen_keeps:
  assumes "length (bots st) + length bs \<le> unat (mctop st - mcbase st)" "\<not> free_at st a"
    "st' = st\<lparr>bots := bots st @ bs, mclim := l\<rparr>"
  shows "code_mem st' M a = code_mem st M a" "\<not> free_at st' a"
  using assms by (auto simp: code_mem_def free_at_def Let_def nth_append)

lemma exitstub_gen_ok:
  assumes "asm_exitstub_gen commit handler redz i (st, j) = Inr (p, st', j')" "area_ok st"
    "\<forall>k. checki32 (sint (handler - (mcbase st + of_nat k))) \<or> unat (mctop st - mcbase st) < k"
  shows "p \<noteq> 0" "area_ok st'" "group_ok handler st' M i p" "\<forall>i g. group_ok handler st M i g \<longrightarrow> group_ok handler st' M i g"
    "mcbase st' = mcbase st" "mctop st' = mctop st"
proof -
  let ?bs = "stub_bytes handler i (mcbot st)"
  have st': "st' = st\<lparr>bots := bots st @ ?bs, mclim := mcbot (st\<lparr>bots := bots st @ ?bs\<rparr>) + redz\<rparr>" and p: "p = mcbot st"
    and lim: "\<not> mcbot st + of_nat ((2 + 2) * EXITSTUBS_PER_GROUP + 8 + 5) \<ge> mctop st"
    using assms(1) by (auto simp: asm_exitstub_gen_def Let_def split: if_splits)
  note room = gen_room [OF assms(2) lim]
  have bs: "length ?bs = 133" by (simp add: stub_len)
  show "p \<noteq> 0" using area_simps(2) [OF assms(2)] p by simp
  show "area_ok st'" using assms(2) room area_simps(3) [OF assms(2)] by (simp add: st' area_ok_def bs)
  show "mcbase st' = mcbase st" "mctop st' = mctop st" by (simp_all add: st')
  have keeps: "code_mem st' M a = code_mem st M a" "\<not> free_at st' a" if "\<not> free_at st a" for a
    using gen_keeps [OF _ that st'] room bs by simp_all
  show "\<forall>i g. group_ok handler st M i g \<longrightarrow> group_ok handler st' M i g" using keeps by (simp add: group_ok_def)
  have at: "unat (p + of_nat k - mcbase st) = length (bots st) + k" if "k < 133" for k
  proof -
    have "unat (mctop st - mcbase st) < 2 ^ 64" using unsigned_less [of "mctop st - mcbase st"] by simp
    then have "length (bots st) + k < 2 ^ 64" using that room by linarith
    then show ?thesis by (simp add: p mcbot_def add.assoc unat_word_ariths unat_of_nat take_bit_nat_eq_self flip: of_nat_add)
  qed
  have "checki32 (sint (handler - (mcbase st + of_nat (length (bots st) + 133))))" using assms(3) room by (meson not_less)
  then have "checki32 (sint (handler - (p + 133)))" by (simp add: p mcbot_def add.assoc)
  then show "group_ok handler st' M i p"
    by (auto simp: group_ok_def code_mem_def free_at_def Let_def at st' bs nth_append) (simp add: p)
qed


definition reaches :: "64 word \<Rightarrow> asm_x86 \<Rightarrow> bool" where
  "reaches handler st \<longleftrightarrow> (\<forall>k \<le> unat (mctop st - mcbase st). checki32 (sint (handler - (mcbase st + of_nat k))))"

lemma gen_returns:
  assumes "area_ok st" "length (bots st) + 141 < unat (mctop st - mcbase st)"
  shows "\<exists>p st' j'. asm_exitstub_gen commit handler redz i (st, j) = Inr (p, st', j') \<and> length (bots st') = length (bots st) + 133"
proof -
  note a = area_simps [OF assms(1)]
  have "unat (mctop st) < 2 ^ 47" using assms(1) by (simp add: area_ok_def)
  then have "unat (mcbot st + 141) = unat (mcbot st) + 141" using a assms(2) by (simp add: unat_word_ariths)
  then have "\<not> mcbot st + 141 \<ge> mctop st" using a assms by (simp add: word_le_nat_alt area_ok_def)
  then show ?thesis by (simp add: asm_exitstub_gen_def Let_def stub_len)
qed

lemma stub_loop_ok:
  assumes "area_ok st" "groups_ok handler st M gr" "reaches handler st" "\<forall>i \<in> set gs. i < 16"
    "length (bots st) + 133 * length gs + 8 < unat (mctop st - mcbase st)"
  shows "\<exists>gr' st' j'. stub_loop commit handler redz gs (gr, st, j) = Inr (gr', st', j') \<and>
    groups_ok handler st' M gr' \<and> area_ok st' \<and> (\<forall>i \<in> set gs. gr' ! i \<noteq> 0) \<and> (\<forall>i. gr ! i \<noteq> 0 \<longrightarrow> gr' ! i = gr ! i)"
  using assms
proof (induction gs arbitrary: gr st j)
  case (Cons i gs)
  show ?case
  proof (cases "gr ! i = 0")
    case False
    have "\<exists>gr' st' j'. stub_loop commit handler redz gs (gr, st, j) = Inr (gr', st', j') \<and>
      groups_ok handler st' M gr' \<and> area_ok st' \<and> (\<forall>i \<in> set gs. gr' ! i \<noteq> 0) \<and> (\<forall>i. gr ! i \<noteq> 0 \<longrightarrow> gr' ! i = gr ! i)"
      by (rule Cons.IH) (use Cons.prems in simp_all)
    then show ?thesis using False by fastforce
  next
    case True
    obtain p st1 j1 where g: "asm_exitstub_gen commit handler redz i (st, j) = Inr (p, st1, j1)" and l: "length (bots st1) = length (bots st) + 133"
      using gen_returns [OF Cons.prems(1)] Cons.prems(5) by (cases gs) fastforce+
    have "\<forall>k. checki32 (sint (handler - (mcbase st + of_nat k))) \<or> unat (mctop st - mcbase st) < k"
      using Cons.prems(3) by (auto simp: reaches_def not_less)
    note ok = exitstub_gen_ok [OF g Cons.prems(1) this]
    have i: "i < length gr" using Cons.prems(2,4) by (simp add: groups_ok_def)
    have gr: "groups_ok handler st1 M (gr[i := p])"
      using Cons.prems(2) ok(3,4) i by (auto simp: groups_ok_def nth_list_update)
    have "\<exists>gr' st' j'. stub_loop commit handler redz gs (gr[i := p], st1, j1) = Inr (gr', st', j') \<and>
      groups_ok handler st' M gr' \<and> area_ok st' \<and> (\<forall>i \<in> set gs. gr' ! i \<noteq> 0) \<and> (\<forall>k. gr[i := p] ! k \<noteq> 0 \<longrightarrow> gr' ! k = gr[i := p] ! k)"
      by (rule Cons.IH) (use Cons.prems gr ok l in \<open>simp_all add: reaches_def\<close>)
    then obtain gr' st' j' where r: "stub_loop commit handler redz gs (gr[i := p], st1, j1) = Inr (gr', st', j')"
      "groups_ok handler st' M gr'" "area_ok st'" "\<forall>i \<in> set gs. gr' ! i \<noteq> 0" "\<forall>k. gr[i := p] ! k \<noteq> 0 \<longrightarrow> gr' ! k = gr[i := p] ! k"
      by blast
    have "gr' ! i \<noteq> 0" using r(5) ok(1) i by (metis nth_list_update_eq)
    moreover have "\<forall>k. gr ! k \<noteq> 0 \<longrightarrow> gr' ! k = gr ! k" using r(5) True by (metis nth_list_update_neq)
    ultimately show ?thesis using True g r by auto
  qed
qed simp

lemma exit_bytes:
  assumes "unat n < 512"
  shows "(of_nat (stub_ofs (unat n div 32) + unat n mod 32) :: 8 word) = ucast (n :: 32 word)"
    "(of_nat (drop_bit 8 (unat n div 32 * 32)) :: 8 word) = ucast (drop_bit 8 n)"
proof -
  let ?n = "unat n"
  have "stub_ofs (?n div 32) = ?n div 32 * 32 mod 256"
    using take_bit_eq_mask [of 8 "?n div 32 * 32"] by (simp add: stub_ofs_def mask_eq_exp_minus_1 take_bit_eq_mod)
  then have "(stub_ofs (?n div 32) + ?n mod 32) mod 256 = ?n mod 256"
    by (simp only: mod_add_left_eq div_mult_mod_eq)
  then have "(of_nat (stub_ofs (?n div 32) + ?n mod 32) :: 8 word) = of_nat ?n"
    by (simp only: word_of_nat_eq_iff take_bit_eq_mod) simp
  then show "(of_nat (stub_ofs (?n div 32) + ?n mod 32) :: 8 word) = ucast n" by (simp only: of_nat_unat)
  have "?n div 32 * 32 div (32 * 8) = ?n div (32 * 8)" by (simp add: div_mult2_eq)
  then have d: "drop_bit 8 (?n div 32 * 32) = unat (drop_bit 8 n)" unfolding unat_drop_bit_eq drop_bit_nat_def by simp
  show "(of_nat (drop_bit 8 (?n div 32 * 32)) :: 8 word) = ucast (drop_bit 8 n)" by (simp only: d of_nat_unat)
qed

text \<open>
  C35. Every exit of a trace reaches the exit handler with its number. Setting up the exit stubs fails with
  \<open>LJ_TRERR_SNAPOV\<close> from 512 exits on. Below, with room for the groups, it returns, and from the stub of each exit the
  processor pushes the low and the high byte of the number of the exit and is at \<open>lj_vm_exit_handler\<close>. Groups that were
  there stay where and what they are.
\<close>

theorem x86_exits_reach_handler:
  assumes "area_ok st" "groups_ok handler st M gr" "reaches handler st"
    "length (bots st) + 16 * 133 + 8 < unat (mctop st - mcbase st)"
  shows "if 512 \<le> unat nexits then asm_exitstub_setup commit handler redz nexits (gr, st, j) = Inl TRERR_SNAPOV
    else \<exists>gr' st' j'. asm_exitstub_setup commit handler redz nexits (gr, st, j) = Inr (gr', st', j') \<and>
      area_ok st' \<and> groups_ok handler st' M gr' \<and> (\<forall>i. gr ! i \<noteq> 0 \<longrightarrow> gr' ! i = gr ! i) \<and>
      (\<forall>n s. unat n < unat nexits \<longrightarrow> (stub_step (code_mem st' M))\<^sup>*\<^sup>* (exitstub_addr gr' n, s)
         (handler, scast (ucast (drop_bit 8 n) :: 8 word) # scast (ucast n :: 8 word) # s))"
proof (cases "512 \<le> unat nexits")
  case False
  let ?gs = "[0..<(unat nexits + 31) div 32]"
  have "(unat nexits + 31) div 32 \<le> 16" using False by simp
  then have len: "length ?gs \<le> 16" "\<forall>i \<in> set ?gs. i < 16" by auto
  have "\<exists>gr' st' j'. stub_loop commit handler redz ?gs (gr, st, j) = Inr (gr', st', j') \<and> groups_ok handler st' M gr' \<and>
    area_ok st' \<and> (\<forall>i \<in> set ?gs. gr' ! i \<noteq> 0) \<and> (\<forall>i. gr ! i \<noteq> 0 \<longrightarrow> gr' ! i = gr ! i)"
    by (rule stub_loop_ok [OF assms(1-3) len(2)]) (use assms(4) len(1) in linarith)
  then obtain gr' st' j' where r: "stub_loop commit handler redz ?gs (gr, st, j) = Inr (gr', st', j')" "groups_ok handler st' M gr'"
    "area_ok st'" "\<forall>i \<in> set ?gs. gr' ! i \<noteq> 0" "\<forall>i. gr ! i \<noteq> 0 \<longrightarrow> gr' ! i = gr ! i" by blast
  have "(stub_step (code_mem st' M))\<^sup>*\<^sup>* (exitstub_addr gr' n, s)
         (handler, scast (ucast (drop_bit 8 n) :: 8 word) # scast (ucast n :: 8 word) # s)" if n: "unat n < unat nexits" for n s
  proof -
    have "unat n div 32 \<in> set ?gs" "unat n div 32 < 16" using n False by (simp_all add: less_mult_imp_div_less)
    then have "group_ok handler st' M (unat n div 32) (gr' ! (unat n div 32))" using r(2,4) by (simp add: groups_ok_def)
    then show ?thesis
      using stub_runs [of handler st' M "unat n div 32" _ "unat n mod 32" s] exit_bytes [of n] n False
      by (simp add: exitstub_addr_def)
  qed
  moreover have "asm_exitstub_setup commit handler redz nexits (gr, st, j) = stub_loop commit handler redz ?gs (gr, st, j)"
    using False by (simp add: asm_exitstub_setup_def add.commute)
  ultimately show ?thesis using False r by auto
qed (simp add: asm_exitstub_setup_def)


lemma small_checki32: "- (2 ^ 31) \<le> x \<Longrightarrow> x < 2 ^ 31 \<Longrightarrow> checki32 x"
  by (simp add: checki32_def sint_sbintrunc' signed_take_bit_int_eq_self)

lemma low_reaches:
  assumes "a < 2 ^ 31" "b < 2 ^ 31"
  shows "checki32 (sint (of_nat a - of_nat b :: 64 word))"
proof -
  have e: "(of_nat a - of_nat b :: 64 word) = word_of_int (int a - int b)" by simp
  have "sint (of_nat a - of_nat b :: 64 word) = int a - int b"
    unfolding e by (subst signed_of_int) (use assms in \<open>simp add: signed_take_bit_int_eq_self\<close>)
  then show ?thesis using assms by (simp add: small_checki32)
qed

theorem x86_exits_reach_handler_witness:
  "\<exists>gr st j. asm_exitstub_setup (\<lambda>p j. p) 0x30000 64 40 (replicate 16 0, empty_x86\<lparr>mcbase := 0x10000, mctop := 0x20000\<rparr>, 0) = Inr (gr, st, j) \<and>
     (stub_step (code_mem st (\<lambda>a. 0)))\<^sup>*\<^sup>* (exitstub_addr gr 39, []) (0x30000, [0, 39])"
proof -
  let ?st = "empty_x86\<lparr>mcbase := 0x10000, mctop := 0x20000\<rparr>"
  have a: "area_ok ?st" by (simp add: area_ok_def empty_x86_def)
  have g: "groups_ok 0x30000 ?st (\<lambda>a. 0) (replicate 16 0)" by (simp add: groups_ok_def)
  have r: "reaches 0x30000 ?st"
    using low_reaches [of "0x30000" "0x10000 + k" for k] by (simp add: reaches_def)
  have l: "length (bots ?st) + 16 * 133 + 8 < unat (mctop ?st - mcbase ?st)" by (simp add: empty_x86_def)
  have n: "\<not> 512 \<le> unat (40 :: 32 word)" "unat (39 :: 32 word) < unat (40 :: 32 word)" by simp_all
  obtain gr st j where s: "asm_exitstub_setup (\<lambda>p j. p) 0x30000 64 40 (replicate 16 0, ?st, 0) = Inr (gr, st, j)"
    and e: "\<forall>n s. unat n < unat (40 :: 32 word) \<longrightarrow> (stub_step (code_mem st (\<lambda>a. 0)))\<^sup>*\<^sup>* (exitstub_addr gr n, s)
         (0x30000, scast (ucast (drop_bit 8 n) :: 8 word) # scast (ucast n :: 8 word) # s)"
    using x86_exits_reach_handler [OF a g r l, where nexits = 40 and commit = "\<lambda>p j. p" and redz = 64 and j = 0, unfolded if_not_P [OF n(1)]]
    by blast
  have "(stub_step (code_mem st (\<lambda>a. 0)))\<^sup>*\<^sup>* (exitstub_addr gr 39, []) (0x30000, [0, 39])"
    using e [rule_format, of 39 "[]"] by simp
  then show ?thesis using s by blast
qed

end
