(* ===== verification/LJ_X86_Loop.thy ===== *)
theory LJ_X86_Loop
  imports LJ_X86_Exit
begin

text \<open>
  The end of a trace in \<open>LuaJit/include/lj_asm_x86.h\<close>, for x64: guards (\<open>asm_guardcc\<close>), and the room that is left at the
  end of the code (\<open>asm_tail_prep\<close>) for the branch of a loop (\<open>asm_loop_fixup\<close>) or the exit (\<open>asm_tail_fixup\<close>). The
  assembler works backwards: what it emits later runs earlier.
\<close>

section \<open>The code\<close>

text \<open>
  The fields of \<open>ASMState\<close> in use besides those of the emitter, \<open>None\<close> for \<open>NULL\<close>. \<open>past\<close> are the bytes written behind
  \<open>mctop\<close>. Code is reassembled with \<open>realign\<close> set when its loop is small.
\<close>

record loop_x86 =
  lasm :: asm_x86
  invmcp :: "64 word option"
  loopinv :: nat
  realign :: "64 word option"
  loopref :: "16 word"
  nins :: "16 word"
  orignins :: "16 word"
  past :: "8 word list"

text \<open>\<open>room k\<close> are the bytes of the code area below its end before anything is written.\<close>

definition tail_room :: "(nat \<Rightarrow> 8 word) \<Rightarrow> nat \<Rightarrow> 8 word list" where
  "tail_room room n = List.map room [0..<n]"

definition realign_pad :: "loop_x86 \<Rightarrow> loop_x86" where
  "realign_pad s =
     (case realign s of None \<Rightarrow> s
      | Some r \<Rightarrow>
          let i = unat (r AND 15) in
          s\<lparr>lasm := (lasm s)\<lparr>mctop := mctop (lasm s) - of_nat i\<rparr>, past := replicate i (ucast XI_NOP) @ past s\<rparr>)"

definition asm_tail_prep_x86 :: "(nat \<Rightarrow> 8 word) \<Rightarrow> loop_x86 \<Rightarrow> loop_x86" where
  "asm_tail_prep_x86 room s =
     (let n = (case realign s of None \<Rightarrow> 5 | Some r \<Rightarrow> if loopinv s \<noteq> 0 then 5 else 2);
          s = realign_pad s in
      if loopref s \<noteq> 0
      then let a = (lasm s)\<lparr>mc := tail_room room n\<rparr> in s\<lparr>lasm := a, invmcp := Some (mcp_x86 a)\<rparr>
      else s\<lparr>lasm := (lasm s)\<lparr>mc := tail_room room (n + 7)\<rparr>, invmcp := None\<rparr>)"

text \<open>
  A guard leaves for the exit of the current snapshot, \<open>snapno\<close>. The last one of a loop is inverted: it branches to the
  start of the loop, which is filled in later, and the jump behind it leaves.
\<close>

definition fix_rip :: "32 word \<Rightarrow> asm_x86 \<Rightarrow> asm_x86" where
  "fix_rip n a = (if ucast (mrm_base (mrm a)) = RID_RIP then a\<lparr>mrm := (mrm a)\<lparr>mrm_ofs := mrm_ofs (mrm a) + n\<rparr>\<rparr> else a)"

definition asm_guardcc_x86 :: "64 word list \<Rightarrow> 32 word \<Rightarrow> 32 word \<Rightarrow> loop_x86 \<Rightarrow> loop_x86" where
  "asm_guardcc_x86 gr snapno cc s =
     (let target = exitstub_addr gr snapno; a = lasm s; p = mcp_x86 a in
      if invmcp s = Some p then
        let a = a\<lparr>mc := put32 1 (jmprel (p + 5) target) (mc a)\<rparr>; cc = cc XOR 1; s = s\<lparr>loopinv := 1\<rparr> in
        if realign s \<noteq> None then s\<lparr>lasm := emit_sjcc cc p (fix_rip 2 a)\<rparr>
        else s\<lparr>lasm := emit_jcc cc p (fix_rip 6 a)\<rparr>
      else s\<lparr>lasm := emit_jcc cc target (fix_rip 6 a)\<rparr>)"

text \<open>The branch of the loop. \<open>d\<close> is the distance from the end of the code to its start, the pointer \<open>as->mcp\<close>.\<close>

definition asm_loop_fixup_x86 :: "loop_x86 \<Rightarrow> loop_x86" where
  "asm_loop_fixup_x86 s =
     (let a = lasm s; bs = mc a; n = length bs; target = mcp_x86 a; p = mctop a in
      if realign s \<noteq> None then
        let s = s\<lparr>realign := None\<rparr> in
        if loopinv s \<noteq> 0 then
          let p = p - 5;
              bs = bs[n - 5 := ucast XI_JMP];
              bs = bs[n - 6 := ucast (target - p)];
              bs = (if loopinv s = 2 then bs[n - 8 := ucast (target - p + 2)] else bs) in
          s\<lparr>lasm := a\<lparr>mc := bs\<rparr>\<rparr>
        else
          s\<lparr>lasm := a\<lparr>mc := bs[n - 1 := ucast (target - p), n - 2 := ucast XI_JMPs]\<rparr>\<rparr>
      else
        let bs = bs[n - 5 := ucast XI_JMP];
            (p, newloop, bs) =
              (if loopinv s \<noteq> 0 then
                 let p = p - 5; bs = put32 (n - 9) (ucast (target - p)) bs in
                 if loopinv s = 2 then (p, target + 8, put32 (n - 15) (ucast (target - p + 6)) bs)
                 else (p, target + 4, bs)
               else (p, target + 3, put32 (n - 4) (ucast (target - p)) bs));
            s = s\<lparr>lasm := a\<lparr>mc := bs\<rparr>\<rparr> in
        if newloop \<ge> p - 128
        then s\<lparr>realign := Some newloop, lasm := (lasm s)\<lparr>curins := stopins (lasm s)\<rparr>, nins := orignins s\<rparr>
        else s)"

text \<open>
  The exit: the stack pointer is adjusted by \<open>spadj\<close>, and a jump to \<open>target\<close> follows, the linked trace or
  \<open>lj_vm_exit_interp\<close>. What is not used of the room is filled with no-ops and dropped.
\<close>

definition asm_tail_fixup_x86 :: "32 word \<Rightarrow> 64 word \<Rightarrow> loop_x86 \<Rightarrow> loop_x86" where
  "asm_tail_fixup_x86 spadj target s =
     (let a = lasm s; bs = mc a; n = length bs;
          (k, bs) =
            (if spadj = 0 then (7, bs)
             else
               let (k, p1, bs) =
                     (if checki8 (sint spadj) then (3, n - 9, bs[n - 9 := ucast spadj])
                      else (0, n - 9, put32 (n - 9) spadj bs));
                   bs = bs[p1 - 3 := 0x48];
                   bs = bs[p1 - 2 := ucast (if checki8 (sint spadj) then XI_ARITHi8 else XI_ARITHi)];
                   bs = bs[p1 - 1 := MODRM XM_REG XOg_ADD RID_ESP] in (k, bs));
          p = mctop a - of_nat k;
          bs = put32 (n - k - 4) (jmprel p target) bs;
          bs = bs[n - k - 5 := ucast XI_JMP] in
      s\<lparr>lasm := a\<lparr>mc := take (n - k) bs, mctop := p\<rparr>, past := replicate k (ucast XI_NOP) @ past s\<rparr>)"

section \<open>Where code leads\<close>

text \<open>\<open>branch_of\<close> with the short jump, and the address that at most \<open>n\<close> branches lead to.\<close>

definition jump_of :: "64 word \<Rightarrow> 8 word list \<Rightarrow> (branch \<times> 64 word \<times> 8 word list) option" where
  "jump_of hi bs =
     (case bs of b # p \<Rightarrow>
        if b = 0xeb then map_option (\<lambda>(d, p). (Jump, addr_of hi p + d, p)) (take_disp 1 p) else branch_of hi bs
      | [] \<Rightarrow> None)"

fun lands :: "nat \<Rightarrow> (8 word \<Rightarrow> bool) \<Rightarrow> 64 word \<Rightarrow> 8 word list \<Rightarrow> 64 word" where
  "lands 0 f hi bs = addr_of hi bs"
| "lands (Suc n) f hi bs =
     (case jump_of hi bs of
        Some (Cond c, t, q) \<Rightarrow> if f c then t else lands n f hi q
      | Some (Jump, t, q) \<Rightarrow> t
      | _ \<Rightarrow> addr_of hi bs)"

text \<open>The flags a condition looks at.\<close>

record x86_flags =
  fl_C :: bool
  fl_P :: bool
  fl_Z :: bool
  fl_S :: bool
  fl_O :: bool

definition cc_holds :: "x86_flags \<Rightarrow> 8 word \<Rightarrow> bool" where
  "cc_holds F c =
     (let k = unat c div 2;
          b = (if k = 0 then fl_O F else if k = 1 then fl_C F else if k = 2 then fl_Z F else if k = 3 then fl_C F \<or> fl_Z F
               else if k = 4 then fl_S F else if k = 5 then fl_P F else if k = 6 then fl_S F \<noteq> fl_O F
               else fl_Z F \<or> fl_S F \<noteq> fl_O F) in
      if even (unat c) then b else \<not> b)"

lemma cc_low: "(cc :: 32 word) AND 15 < 16"
  using word_and_le1 [of cc 15] word_and_le2 [of cc 15] by (simp add: word_le_nat_alt word_less_nat_alt)

lemma cc_xor: "(cc XOR 1) AND 15 = (cc AND 15) XOR (1 :: 32 word)"
  by (rule bit_word_eqI) (auto simp: bit_simps)

lemma cc_inverted: "cc_holds F (ucast ((cc XOR 1) AND (15 :: 32 word))) \<longleftrightarrow> \<not> cc_holds F (ucast (cc AND 15))"
  unfolding cc_xor using word16_cases [OF cc_low [of cc]] by (elim insertE emptyE) (simp_all add: cc_holds_def Let_def)


text \<open>Reading the branches.\<close>

lemma jump_near: "jump_of hi (0xe9 # le32 d @ q) = Some (Jump, hi - of_nat (length q) + scast d, q)"
  by (simp add: jump_of_def branch_of_def disp32 addr_of_def)

lemma jump_cond:
  "jump_of hi (0x0f # ucast (XI_JCCn + (cc AND 15)) # le32 d @ q) = Some (Cond (ucast (cc AND 15)), hi - of_nat (length q) + scast d, q)"
  by (simp add: jump_of_def branch_of_def disp32 addr_of_def cc_bytes)

lemma jump_short: "jump_of hi (0xeb # d # q) = Some (Jump, hi - of_nat (length q) + scast d, q)"
  by (simp add: jump_of_def take_disp_def addr_of_def)

lemma jump_scond:
  "jump_of hi (ucast (XI_JCCs + (cc AND 15)) # d # q) = Some (Cond (ucast (cc AND 15)), hi - of_nat (length q) + scast d, q)"
proof -
  have "(ucast (XI_JCCs + (cc AND 15)) :: 8 word) \<noteq> 0xeb" using cc_bytes(1) [of cc] by auto
  then show ?thesis using cc_not_jump [OF cc_bytes(1), of cc]
    by (simp add: jump_of_def branch_of_def take_disp_def addr_of_def cc_bytes)
qed

lemma neg_disp:
  "m < 2 ^ 31 \<Longrightarrow> scast (ucast (- of_nat m :: 64 word) :: 32 word) = (- of_nat m :: 64 word)"
  "m \<le> 128 \<Longrightarrow> scast (ucast (- of_nat m :: 64 word) :: 8 word) = (- of_nat m :: 64 word)"
proof -
  show "m < 2 ^ 31 \<Longrightarrow> scast (ucast (- of_nat m :: 64 word) :: 32 word) = (- of_nat m :: 64 word)"
    using low_reaches [of 0 m] by (intro narrow_checks(3)) simp
  show "m \<le> 128 \<Longrightarrow> scast (ucast (- of_nat m :: 64 word) :: 8 word) = (- of_nat m :: 64 word)"
    using small_back [of m] narrow_checks(2) [of "- of_nat m"] by (cases "m = 0") simp_all
qed

lemma put32_at: "length us = k \<Longrightarrow> length vs = 4 \<Longrightarrow> put32 k d (us @ vs @ ws) = us @ le32 d @ ws"
  by (simp add: put32_def)

lemma five_bytes: "length p = 5 \<Longrightarrow> \<exists>a b c d e. p = [a, b, c, d, e]"
  by (auto simp: eval_nat_numeral length_Suc_conv)


text \<open>The code with a loop body \<open>ws\<close> in front.\<close>

definition body :: "8 word list \<Rightarrow> loop_x86 \<Rightarrow> loop_x86" where
  "body ws s = s\<lparr>lasm := put_bytes ws (lasm s)\<rparr>"

lemma body_simps [simp]:
  "mc (lasm (body ws s)) = ws @ mc (lasm s)" "mctop (lasm (body ws s)) = mctop (lasm s)" "invmcp (body ws s) = invmcp s"
  "loopinv (body ws s) = loopinv s" "realign (body ws s) = realign s"
  by (simp_all add: body_def put_bytes_def)

lemma fix_rip_simps [simp]: "mc (fix_rip n a) = mc a" "mctop (fix_rip n a) = mctop a"
  by (simp_all add: fix_rip_def)

lemma prep_simps:
  assumes "loopref s \<noteq> 0"
  shows "invmcp (asm_tail_prep_x86 room s) = Some (mcp_x86 (lasm (asm_tail_prep_x86 room s)))"
    "length (mc (lasm (asm_tail_prep_x86 room s))) = (if realign s \<noteq> None \<and> loopinv s = 0 then 2 else 5)"
    "realign (asm_tail_prep_x86 room s) = realign s" "loopinv (asm_tail_prep_x86 room s) = loopinv s"
  using assms by (auto simp: asm_tail_prep_x86_def realign_pad_def tail_room_def Let_def split: option.splits)

text \<open>The inverted guard.\<close>

lemma guard_inverted:
  assumes "length (mc (lasm s)) = 5" "invmcp s = Some (mcp_x86 (lasm s))"
  shows "\<exists>b. mc (lasm (asm_guardcc_x86 gr sn cc s)) =
      (if realign s = None then 0x0f # ucast (XI_JCCn + ((cc XOR 1) AND 15)) # le32 (jmprel (mcp_x86 (lasm s)) (mcp_x86 (lasm s)))
       else [ucast (XI_JCCs + ((cc XOR 1) AND 15)), 0]) @ b # le32 (jmprel (mctop (lasm s)) (exitstub_addr gr sn))"
    "mctop (lasm (asm_guardcc_x86 gr sn cc s)) = mctop (lasm s)" "loopinv (asm_guardcc_x86 gr sn cc s) = 1"
    "realign (asm_guardcc_x86 gr sn cc s) = realign s"
proof -
  obtain b c d e f where m: "mc (lasm s) = [b, c, d, e, f]" using five_bytes [OF assms(1)] by blast
  have p: "mcp_x86 (lasm s) + 5 = mctop (lasm s)" by (simp add: mcp_x86_def assms(1))
  have w: "mcp_x86 (fix_rip n (lasm s\<lparr>mc := put32 1 v (mc (lasm s))\<rparr>)) = mcp_x86 (lasm s)" for n v
    by (simp add: mcp_x86_def put32_def m le32_def)
  show "\<exists>b. mc (lasm (asm_guardcc_x86 gr sn cc s)) =
      (if realign s = None then 0x0f # ucast (XI_JCCn + ((cc XOR 1) AND 15)) # le32 (jmprel (mcp_x86 (lasm s)) (mcp_x86 (lasm s)))
       else [ucast (XI_JCCs + ((cc XOR 1) AND 15)), 0]) @ b # le32 (jmprel (mctop (lasm s)) (exitstub_addr gr sn))"
    "mctop (lasm (asm_guardcc_x86 gr sn cc s)) = mctop (lasm s)" "loopinv (asm_guardcc_x86 gr sn cc s) = 1"
    "realign (asm_guardcc_x86 gr sn cc s) = realign s"
    using assms(2) w by (auto simp: asm_guardcc_x86_def Let_def emit_jcc_def emit_sjcc_def put_bytes_def p) (simp_all add: put32_def m)
qed

text \<open>The four forms of the branch.\<close>

lemma fixup_far_inverted:
  assumes "mc (lasm s) = ws @ 0x0f # c # le32 v @ b # t" "length t = 4" "realign s = None" "loopinv s = 1"
  shows "mc (lasm (asm_loop_fixup_x86 s)) = ws @ 0x0f # c # le32 (ucast (- of_nat (length ws + 6) :: 64 word)) @ 0xe9 # t"
    "mctop (lasm (asm_loop_fixup_x86 s)) = mctop (lasm s)"
proof -
  have l: "length (le32 v) = 4" by (simp add: le32_def)
  have d: "mcp_x86 (lasm s) - (mctop (lasm s) - 5) = - of_nat (length ws + 6)"
    using assms(2) by (simp add: mcp_x86_def assms(1) l)
  have b: "(ws @ 0x0f # c # le32 v @ b # t)[length ws + 6 := 0xe9] = (ws @ [0x0f, c]) @ le32 v @ 0xe9 # t"
    by (simp add: list_update_append l le32_def)
  have n: "length (ws @ 0x0f # c # le32 v @ b # t) - 5 = length ws + 6" "length (ws @ 0x0f # c # le32 v @ b # t) - 9 = length (ws @ [0x0f, c])"
    using assms(2) l by simp_all
  have "mc (lasm (asm_loop_fixup_x86 s)) =
      put32 (length (mc (lasm s)) - 9) (ucast (mcp_x86 (lasm s) - (mctop (lasm s) - 5))) ((mc (lasm s))[length (mc (lasm s)) - 5 := 0xe9])"
    using assms(3,4) by (simp add: asm_loop_fixup_x86_def Let_def)
  also have "\<dots> = put32 (length (ws @ [0x0f, c])) (ucast (- of_nat (length ws + 6) :: 64 word)) ((ws @ [0x0f, c]) @ le32 v @ 0xe9 # t)"
    unfolding d using b n by (simp only: assms(1))
  finally show "mc (lasm (asm_loop_fixup_x86 s)) = ws @ 0x0f # c # le32 (ucast (- of_nat (length ws + 6) :: 64 word)) @ 0xe9 # t"
    by (simp only: put32_at [OF refl l]) simp
  show "mctop (lasm (asm_loop_fixup_x86 s)) = mctop (lasm s)"
    using assms(3,4) by (simp add: asm_loop_fixup_x86_def Let_def)
qed


lemma fixup_far_inverted2:
  assumes "mc (lasm s) = ws @ 0x0f # c # le32 v @ 0x0f # c' # le32 v' @ b # t" "length t = 4" "realign s = None" "loopinv s = 2"
  shows "mc (lasm (asm_loop_fixup_x86 s)) = ws @ 0x0f # c # le32 (ucast (- of_nat (length ws + 6) :: 64 word)) @
      0x0f # c' # le32 (ucast (- of_nat (length ws + 12) :: 64 word)) @ 0xe9 # t"
    "mctop (lasm (asm_loop_fixup_x86 s)) = mctop (lasm s)"
proof -
  let ?us = "ws @ [0x0f, c]" and ?vs = "ws @ 0x0f # c # le32 v @ [0x0f, c']" and ?d = "ucast (- of_nat (length ws + 12) :: 64 word)"
  have l: "length (le32 v) = 4" "length (le32 v') = 4" by (simp_all add: le32_def)
  have d: "mcp_x86 (lasm s) - (mctop (lasm s) - 5) = - of_nat (length ws + 12)"
    using assms(2) by (simp add: mcp_x86_def assms(1) l)
  have d6: "(- of_nat (length ws + 12) + 6 :: 64 word) = - of_nat (length ws + 6)" by simp
  have b: "(ws @ 0x0f # c # le32 v @ 0x0f # c' # le32 v' @ b # t)[length ws + 12 := 0xe9] = ?vs @ le32 v' @ 0xe9 # t"
    by (simp add: list_update_append l le32_def)
  have n: "length (ws @ 0x0f # c # le32 v @ 0x0f # c' # le32 v' @ b # t) - 5 = length ws + 12"
    "length (ws @ 0x0f # c # le32 v @ 0x0f # c' # le32 v' @ b # t) - 9 = length ?vs"
    "length (ws @ 0x0f # c # le32 v @ 0x0f # c' # le32 v' @ b # t) - 15 = length ?us"
    using assms(2) l by simp_all
  have "mc (lasm (asm_loop_fixup_x86 s)) =
      put32 (length (mc (lasm s)) - 15) (ucast (mcp_x86 (lasm s) - (mctop (lasm s) - 5) + 6))
        (put32 (length (mc (lasm s)) - 9) (ucast (mcp_x86 (lasm s) - (mctop (lasm s) - 5))) ((mc (lasm s))[length (mc (lasm s)) - 5 := 0xe9]))"
    using assms(3,4) by (simp add: asm_loop_fixup_x86_def Let_def)
  also have "\<dots> = put32 (length ?us) (ucast (- of_nat (length ws + 6) :: 64 word)) (put32 (length ?vs) ?d (?vs @ le32 v' @ 0xe9 # t))"
    unfolding d d6 using b n by (simp only: assms(1))
  also have "put32 (length ?vs) ?d (?vs @ le32 v' @ 0xe9 # t) = ?us @ le32 v @ 0x0f # c' # le32 ?d @ 0xe9 # t"
    by (simp only: put32_at [OF refl l(2)]) simp
  finally show "mc (lasm (asm_loop_fixup_x86 s)) = ws @ 0x0f # c # le32 (ucast (- of_nat (length ws + 6) :: 64 word)) @
      0x0f # c' # le32 ?d @ 0xe9 # t"
    by (simp only: put32_at [OF refl l(1)]) simp
  show "mctop (lasm (asm_loop_fixup_x86 s)) = mctop (lasm s)"
    using assms(3,4) by (simp add: asm_loop_fixup_x86_def Let_def)
qed

lemma fixup_short_inverted:
  assumes "mc (lasm s) = ws @ c # z # b # t" "length t = 4" "realign s \<noteq> None" "loopinv s = 1"
  shows "mc (lasm (asm_loop_fixup_x86 s)) = ws @ c # ucast (- of_nat (length ws + 2) :: 64 word) # 0xe9 # t"
    "mctop (lasm (asm_loop_fixup_x86 s)) = mctop (lasm s)"
proof -
  have d: "mcp_x86 (lasm s) - (mctop (lasm s) - 5) = - of_nat (length ws + 2)" using assms(2) by (simp add: mcp_x86_def assms(1))
  have n: "length (ws @ c # z # b # t) - 5 = length ws + 2" "length (ws @ c # z # b # t) - 6 = length ws + 1" using assms(2) by simp_all
  have "mc (lasm (asm_loop_fixup_x86 s)) =
      (mc (lasm s))[length (mc (lasm s)) - 5 := 0xe9, length (mc (lasm s)) - 6 := ucast (mcp_x86 (lasm s) - (mctop (lasm s) - 5))]"
    using assms(3,4) by (simp add: asm_loop_fixup_x86_def Let_def)
  also have "\<dots> = (ws @ c # z # b # t)[length ws + 2 := 0xe9, length ws + 1 := ucast (- of_nat (length ws + 2) :: 64 word)]"
    unfolding d using n by (simp only: assms(1))
  finally show "mc (lasm (asm_loop_fixup_x86 s)) = ws @ c # ucast (- of_nat (length ws + 2) :: 64 word) # 0xe9 # t"
    by (simp add: list_update_append)
  show "mctop (lasm (asm_loop_fixup_x86 s)) = mctop (lasm s)"
    using assms(3,4) by (simp add: asm_loop_fixup_x86_def Let_def)
qed

lemma fixup_short_inverted2:
  assumes "mc (lasm s) = ws @ c # z # c' # z' # b # t" "length t = 4" "realign s \<noteq> None" "loopinv s = 2"
  shows "mc (lasm (asm_loop_fixup_x86 s)) =
      ws @ c # ucast (- of_nat (length ws + 2) :: 64 word) # c' # ucast (- of_nat (length ws + 4) :: 64 word) # 0xe9 # t"
    "mctop (lasm (asm_loop_fixup_x86 s)) = mctop (lasm s)"
proof -
  let ?d = "ucast (- of_nat (length ws + 4) :: 64 word)" and ?e = "ucast (- of_nat (length ws + 2) :: 64 word)"
  have d: "mcp_x86 (lasm s) - (mctop (lasm s) - 5) = - of_nat (length ws + 4)" using assms(2) by (simp add: mcp_x86_def assms(1))
  have d2: "(- of_nat (length ws + 4) + 2 :: 64 word) = - of_nat (length ws + 2)" by simp
  have n: "length (ws @ c # z # c' # z' # b # t) - 5 = length ws + 4" "length (ws @ c # z # c' # z' # b # t) - 6 = length ws + 3"
    "length (ws @ c # z # c' # z' # b # t) - 8 = length ws + 1" using assms(2) by simp_all
  have "mc (lasm (asm_loop_fixup_x86 s)) =
      (mc (lasm s))[length (mc (lasm s)) - 5 := 0xe9, length (mc (lasm s)) - 6 := ucast (mcp_x86 (lasm s) - (mctop (lasm s) - 5)),
        length (mc (lasm s)) - 8 := ucast (mcp_x86 (lasm s) - (mctop (lasm s) - 5) + 2)]"
    using assms(3,4) by (simp add: asm_loop_fixup_x86_def Let_def)
  also have "\<dots> = (ws @ c # z # c' # z' # b # t)[length ws + 4 := 0xe9, length ws + 3 := ?d, length ws + 1 := ?e]"
    unfolding d d2 using n by (simp only: assms(1))
  finally show "mc (lasm (asm_loop_fixup_x86 s)) = ws @ c # ?e # c' # ?d # 0xe9 # t"
    by (simp add: list_update_append)
  show "mctop (lasm (asm_loop_fixup_x86 s)) = mctop (lasm s)"
    using assms(3,4) by (simp add: asm_loop_fixup_x86_def Let_def)
qed

lemma fixup_far_plain:
  assumes "mc (lasm s) = ws @ b # t" "length t = 4" "realign s = None" "loopinv s = 0"
  shows "mc (lasm (asm_loop_fixup_x86 s)) = ws @ 0xe9 # le32 (ucast (- of_nat (length ws + 5) :: 64 word))"
    "mctop (lasm (asm_loop_fixup_x86 s)) = mctop (lasm s)"
proof -
  have d: "mcp_x86 (lasm s) - mctop (lasm s) = - of_nat (length ws + 5)" using assms(2) by (simp add: mcp_x86_def assms(1))
  have n: "length (ws @ b # t) - 5 = length ws" "length (ws @ b # t) - 4 = length (ws @ [0xe9 :: 8 word])" using assms(2) by simp_all
  have b: "(ws @ b # t)[length ws := 0xe9] = (ws @ [0xe9]) @ t @ []" by simp
  have "mc (lasm (asm_loop_fixup_x86 s)) =
      put32 (length (mc (lasm s)) - 4) (ucast (mcp_x86 (lasm s) - mctop (lasm s))) ((mc (lasm s))[length (mc (lasm s)) - 5 := 0xe9])"
    using assms(3,4) by (simp add: asm_loop_fixup_x86_def Let_def)
  also have "\<dots> = put32 (length (ws @ [0xe9 :: 8 word])) (ucast (- of_nat (length ws + 5) :: 64 word)) ((ws @ [0xe9]) @ t @ [])"
    unfolding d using n b by (simp only: assms(1))
  finally show "mc (lasm (asm_loop_fixup_x86 s)) = ws @ 0xe9 # le32 (ucast (- of_nat (length ws + 5) :: 64 word))"
    by (simp only: put32_at [OF refl assms(2)]) simp
  show "mctop (lasm (asm_loop_fixup_x86 s)) = mctop (lasm s)"
    using assms(3,4) by (simp add: asm_loop_fixup_x86_def Let_def)
qed

lemma fixup_short_plain:
  assumes "mc (lasm s) = ws @ [b, c]" "realign s \<noteq> None" "loopinv s = 0"
  shows "mc (lasm (asm_loop_fixup_x86 s)) = ws @ [0xeb, ucast (- of_nat (length ws + 2) :: 64 word)]"
    "mctop (lasm (asm_loop_fixup_x86 s)) = mctop (lasm s)"
proof -
  have d: "mcp_x86 (lasm s) - mctop (lasm s) = - of_nat (length ws + 2)" by (simp add: mcp_x86_def assms(1))
  have n: "length (ws @ [b, c]) - 1 = length ws + 1" "length (ws @ [b, c]) - 2 = length ws" by simp_all
  have "mc (lasm (asm_loop_fixup_x86 s)) =
      (mc (lasm s))[length (mc (lasm s)) - 1 := ucast (mcp_x86 (lasm s) - mctop (lasm s)), length (mc (lasm s)) - 2 := 0xeb]"
    using assms(2,3) by (simp add: asm_loop_fixup_x86_def Let_def)
  also have "\<dots> = (ws @ [b, c])[length ws + 1 := ucast (- of_nat (length ws + 2) :: 64 word), length ws := 0xeb]"
    unfolding d using n by (simp only: assms(1))
  finally show "mc (lasm (asm_loop_fixup_x86 s)) = ws @ [0xeb, ucast (- of_nat (length ws + 2) :: 64 word)]"
    by (simp add: list_update_append)
  show "mctop (lasm (asm_loop_fixup_x86 s)) = mctop (lasm s)"
    using assms(2,3) by (simp add: asm_loop_fixup_x86_def Let_def)
qed


text \<open>Where they lead.\<close>

lemma lands_jmp:
  assumes "checki32 (sint (exit - hi))"
  shows "lands (Suc n) f hi (0xe9 # le32 (jmprel hi exit)) = exit"
  using jump_near [of hi "jmprel hi exit" "[]"] jmprel_back [OF assms] by simp

lemma lands_back:
  assumes "m < 2 ^ 31"
  shows "lands (Suc n) f hi (0xe9 # le32 (ucast (- of_nat m :: 64 word)) @ q) = hi - of_nat (length q + m)"
    "lands (Suc n) f hi (0x0f # ucast (XI_JCCn + (cc AND 15)) # le32 (ucast (- of_nat m :: 64 word)) @ q) =
       (if f (ucast (cc AND 15)) then hi - of_nat (length q + m) else lands n f hi q)"
  by (simp_all only: lands.simps jump_near jump_cond) (simp_all add: neg_disp(1) [OF assms] algebra_simps)

lemma lands_sback:
  assumes "m \<le> 128"
  shows "lands (Suc n) f hi (0xeb # ucast (- of_nat m :: 64 word) # q) = hi - of_nat (length q + m)"
    "lands (Suc n) f hi (ucast (XI_JCCs + (cc AND 15)) # ucast (- of_nat m :: 64 word) # q) =
       (if f (ucast (cc AND 15)) then hi - of_nat (length q + m) else lands n f hi q)"
  by (simp_all only: lands.simps jump_short jump_scond) (simp_all add: neg_disp(2) [OF assms] algebra_simps)

definition loop_fits :: "loop_x86 \<Rightarrow> bool" where
  "loop_fits s \<longleftrightarrow>
     (let n = length (mc (lasm s)) - (if loopinv s \<noteq> 0 then 5 else 0) in if realign s = None then n < 2 ^ 31 else n \<le> 128)"

lemma loop_inverted:
  assumes "length (mc (lasm s)) = 5" "invmcp s = Some (mcp_x86 (lasm s))" "s3 = body ws (asm_guardcc_x86 gr sn cc s)"
    "loop_fits s3" "checki32 (sint (exitstub_addr gr sn - mctop (lasm s)))"
  shows "\<exists>tl. mc (lasm (asm_loop_fixup_x86 s3)) = ws @ tl \<and> mctop (lasm (asm_loop_fixup_x86 s3)) = mctop (lasm s) \<and>
    lands 2 (cc_holds F) (mctop (lasm s)) tl = (if cc_holds F (ucast (cc AND 15)) then exitstub_addr gr sn else mcp_x86 (lasm s3))"
proof -
  let ?j = "le32 (jmprel (mctop (lasm s)) (exitstub_addr gr sn))" and ?hi = "mctop (lasm s)"
  note g = guard_inverted [OF assms(1,2), of gr sn cc]
  have s3: "realign s3 = realign s" "loopinv s3 = 1" "mctop (lasm s3) = ?hi" using g(2-4) by (simp_all add: assms(3))
  have l: "length ?j = 4" by (simp add: le32_def)
  have jmp: "lands (Suc 0) (cc_holds F) ?hi (0xe9 # ?j) = exitstub_addr gr sn" using lands_jmp [OF assms(5), of 0] by simp
  show ?thesis
  proof (cases "realign s = None")
    case True
    then obtain b where m: "mc (lasm s3) = ws @ 0x0f # ucast (XI_JCCn + ((cc XOR 1) AND 15)) # le32 (jmprel (mcp_x86 (lasm s)) (mcp_x86 (lasm s))) @ b # ?j"
      using g(1) by (auto simp: assms(3))
    have n: "length (mc (lasm s3)) = length ws + 11" using m l by (simp add: le32_def)
    have fits: "length ws + 6 < 2 ^ 31" using assms(4) s3 n True by (simp add: loop_fits_def)
    have p: "mcp_x86 (lasm s3) = ?hi - of_nat (length (0xe9 # ?j) + (length ws + 6))"
      by (simp add: mcp_x86_def s3 n l algebra_simps)
    note f = fixup_far_inverted [OF m l, unfolded s3, OF True refl]
    show ?thesis using f lands_back(2) [OF fits, of "Suc 0" "cc_holds F" ?hi "cc XOR 1" "0xe9 # ?j"]
      unfolding p by (simp add: cc_inverted jmp s3(3) numeral_2_eq_2 del: of_nat_add lands.simps)
  next
    case False
    then obtain b where m: "mc (lasm s3) = ws @ ucast (XI_JCCs + ((cc XOR 1) AND 15)) # 0 # b # ?j"
      using g(1) by (auto simp: assms(3))
    have n: "length (mc (lasm s3)) = length ws + 7" using m l by simp
    have fits: "length ws + 2 \<le> 128" using assms(4) s3 n False by (simp add: loop_fits_def)
    have p: "mcp_x86 (lasm s3) = ?hi - of_nat (length (0xe9 # ?j) + (length ws + 2))"
      by (simp add: mcp_x86_def s3 n l algebra_simps)
    note f = fixup_short_inverted [OF m l, unfolded s3, OF False refl]
    show ?thesis using f lands_sback(2) [OF fits, of "Suc 0" "cc_holds F" ?hi "cc XOR 1" "0xe9 # ?j"]
      unfolding p by (simp add: cc_inverted jmp s3(3) numeral_2_eq_2 del: of_nat_add lands.simps)
  qed
qed


lemma loop_plain:
  assumes "length (mc (lasm s)) = (if realign s = None then 5 else 2)" "loopinv s = 0" "s3 = body ws s" "loop_fits s3"
  shows "\<exists>tl. mc (lasm (asm_loop_fixup_x86 s3)) = ws @ tl \<and> mctop (lasm (asm_loop_fixup_x86 s3)) = mctop (lasm s) \<and>
    lands 2 (cc_holds F) (mctop (lasm s)) tl = mcp_x86 (lasm s3)"
proof (cases "realign s = None")
  case True
  obtain b c d e f where "mc (lasm s) = [b, c, d, e, f]" using five_bytes assms(1) True by fastforce
  then have m: "mc (lasm s3) = ws @ b # [c, d, e, f]" by (simp add: assms(3))
  have r: "realign s3 = None" "loopinv s3 = 0" "mctop (lasm s3) = mctop (lasm s)" using True assms(2) by (simp_all add: assms(3))
  have fits: "length ws + 5 < 2 ^ 31" using assms(4) r m by (simp add: loop_fits_def)
  show ?thesis using fixup_far_plain [OF m _ r(1,2)] lands_back(1) [OF fits, of "Suc 0" "cc_holds F" "mctop (lasm s)" "[]"]
    by (simp add: mcp_x86_def m r numeral_2_eq_2 del: lands.simps)
next
  case False
  then obtain b c where "mc (lasm s) = [b, c]" using assms(1) by (auto simp: eval_nat_numeral length_Suc_conv)
  then have m: "mc (lasm s3) = ws @ [b, c]" by (simp add: assms(3))
  have r: "realign s3 \<noteq> None" "loopinv s3 = 0" "mctop (lasm s3) = mctop (lasm s)" using False assms(2) by (simp_all add: assms(3))
  have fits: "length ws + 2 \<le> 128" using assms(4) r m by (simp add: loop_fits_def)
  show ?thesis using fixup_short_plain [OF m r(1,2)] lands_sback(1) [OF fits, of "Suc 0" "cc_holds F" "mctop (lasm s)" "[]"]
    by (simp add: mcp_x86_def m r numeral_2_eq_2 del: lands.simps)
qed

text \<open>
  C36. The branch of a loop. The end of the code is prepared, the last guard of the trace, if there is one right at the
  end, is inverted, the body \<open>ws\<close> is emitted in front, and the branch is fixed up: as a near or, in the second try for
  a small loop, as a short branch. What stands behind the body leads to the exit if that guard fails, whatever the
  flags are, and to the start of the body otherwise. The distances are those the code asserts.
\<close>

theorem x86_loop_closes:
  assumes "loopref s \<noteq> 0" "if realign s = None then at_end \<or> loopinv s = 0 else (loopinv s \<noteq> 0) = at_end"
    "s1 = asm_tail_prep_x86 room s" "s3 = body ws (if at_end then asm_guardcc_x86 gr sn cc s1 else s1)" "loop_fits s3"
    "checki32 (sint (exitstub_addr gr sn - mctop (lasm s1)))"
  shows "\<exists>tl. mc (lasm (asm_loop_fixup_x86 s3)) = ws @ tl \<and> mctop (lasm (asm_loop_fixup_x86 s3)) = mctop (lasm s1) \<and>
    lands 2 (cc_holds F) (mctop (lasm s1)) tl =
      (if at_end \<and> cc_holds F (ucast (cc AND 15)) then exitstub_addr gr sn else mcp_x86 (lasm s3))"
proof -
  note p = prep_simps [OF assms(1), of room, folded assms(3)]
  show ?thesis
  proof (cases at_end)
    case True
    then have "length (mc (lasm s1)) = 5" using p(2) assms(2) by (auto split: if_splits)
    then show ?thesis using loop_inverted [of s1 s3 ws gr sn cc F] p(1) assms(4-6) True by simp
  next
    case False
    then have l: "length (mc (lasm s1)) = (if realign s1 = None then 5 else 2)" "loopinv s1 = 0"
      using p(2-4) assms(2) by (auto split: if_splits)
    show ?thesis using loop_plain [OF l, of s3 ws F] assms(4,5) False by simp
  qed
qed


section \<open>The tail of a trace\<close>

text \<open>
  An addition to the stack pointer, if there is one, then a jump: where it goes, and the stack pointer there.
\<close>

definition run_exit :: "64 word \<Rightarrow> 8 word list \<Rightarrow> 64 word \<Rightarrow> (64 word \<times> 64 word) option" where
  "run_exit hi bs sp =
     (let jump = (\<lambda>d p. case jump_of hi p of Some (Jump, t, []) \<Rightarrow> Some (t, sp + d) | _ \<Rightarrow> None) in
      case decode bs of
        Some ((pfx, ops), w, g, opnd, p) \<Rightarrow>
          if pfx = None \<and> ops \<in> {[0x81], [0x83]} \<and> w \<and> g = 0 \<and> opnd = Reg 4
          then Option.bind (take_disp (if ops = [0x83] then 1 else 2) p) (\<lambda>(d, q). jump d q) else jump 0 bs
      | None \<Rightarrow> jump 0 bs)"

lemma twelve_bytes: "length p = 12 \<Longrightarrow> \<exists>a b c d e f g h i j k l. p = [a, b, c, d, e, f, g, h, i, j, k, l]"
  by (auto simp: eval_nat_numeral length_Suc_conv)

lemma behind_body:
  "(ws @ ys)[length ws + k := v] = ws @ ys[k := v]" "put32 (length ws + k) d (ws @ ys) = ws @ put32 k d ys"
  "take (length ws + k) (ws @ ys) = ws @ take k ys"
  by (simp_all add: list_update_append put32_def)

definition exit_code :: "32 word \<Rightarrow> 32 word \<Rightarrow> 8 word list" where
  "exit_code spadj rel =
     (if spadj = 0 then [] else [0x48, if checki8 (sint spadj) then 0x83 else 0x81, 0xc4] @
        (if checki8 (sint spadj) then [ucast spadj] else le32 spadj)) @ 0xe9 # le32 rel"

lemma update_numeral: "(x # xs)[numeral k := v] = x # xs[pred_numeral k := v]"
  by (simp add: numeral_eq_Suc)

lemma modrm_esp: "MODRM XM_REG XOg_ADD RID_ESP = 0xc4"
  by (simp add: MODRM_def XM_REG_def XOg_ADD_def RID_ESP_def)

lemma tail_bytes:
  fixes spadj :: "32 word"
  assumes "mc (lasm s) = ws @ r" "length r = 12"
  defines "k \<equiv> if spadj = 0 then 7 else if checki8 (sint spadj) then 3 else 0"
  shows "mc (lasm (asm_tail_fixup_x86 spadj target s)) = ws @ exit_code spadj (jmprel (mctop (lasm s) - of_nat k) target)"
    "mctop (lasm (asm_tail_fixup_x86 spadj target s)) = mctop (lasm s) - of_nat k"
    "past (asm_tail_fixup_x86 spadj target s) = replicate k 0x90 @ past s"
proof -
  let ?m = "length ws"
  have n: "?m + 12 - 9 = ?m + 3" "?m + 3 - 3 = ?m + 0" "?m + 3 - 2 = ?m + 1" "?m + 3 - 1 = ?m + 2" "?m + 5 - 4 = ?m + 1"
    "?m + 5 - 5 = ?m + 0" "?m + 9 - 4 = ?m + 5" "?m + 9 - 5 = ?m + 4" "?m + 12 - 4 = ?m + 8" "?m + 12 - 5 = ?m + 7"
    "?m + 12 - 7 = ?m + 5" "?m + 12 - 3 = ?m + 9" "?m + 12 - 0 = ?m + 12" by simp_all
  have l: "length (mc (lasm s)) = ?m + 12" using assms(1,2) by simp
  obtain a b c d e f g h i j x y where r: "r = [a, b, c, d, e, f, g, h, i, j, x, y]" using twelve_bytes [OF assms(2)] by blast
  have e: "mc (lasm (asm_tail_fixup_x86 spadj target s)) =
      (let n = ?m + 12;
           bs = (if spadj = 0 then ws @ r
             else (if checki8 (sint spadj) then (ws @ r)[n - 9 := ucast spadj] else put32 (n - 9) spadj (ws @ r))
               [n - 9 - 3 := 0x48, n - 9 - 2 := if checki8 (sint spadj) then 0x83 else 0x81, n - 9 - 1 := 0xc4]) in
       take (n - k) ((put32 (n - k - 4) (jmprel (mctop (lasm s) - of_nat k) target) bs)[n - k - 5 := 0xe9]))"
    using assms(1) assms(2) unfolding asm_tail_fixup_x86_def k_def
    by (simp add: Let_def modrm_esp XI_ARITHi_def XI_ARITHi8_def)
  show "mc (lasm (asm_tail_fixup_x86 spadj target s)) = ws @ exit_code spadj (jmprel (mctop (lasm s) - of_nat k) target)"
  proof (cases "spadj = 0")
    case True
    then show ?thesis unfolding e k_def Let_def
      by (simp only: if_True n behind_body) (simp add: r exit_code_def put32_def le32_def update_numeral)
  next
    case False
    then show ?thesis unfolding e k_def Let_def
      by (cases "checki8 (sint spadj)"; simp only: if_True if_False n behind_body)
         (simp_all add: r exit_code_def put32_def le32_def update_numeral)
  qed
  show "mctop (lasm (asm_tail_fixup_x86 spadj target s)) = mctop (lasm s) - of_nat k"
    "past (asm_tail_fixup_x86 spadj target s) = replicate k 0x90 @ past s"
    by (simp_all add: asm_tail_fixup_x86_def Let_def k_def XI_NOP_def)
qed

lemma decode_add:
  "decode (0x48 # 0x83 # 0xc4 # p) = Some ((None, [0x83]), True, 0, Reg 4, p)"
  "decode (0x48 # 0x81 # 0xc4 # p) = Some ((None, [0x81]), True, 0, Reg 4, p)"
  "decode (0xe9 # q) = Some ((pfx, ops), rest) \<Longrightarrow> ops = [0xe9]"
  by (auto simp: decode_def take_head_def take_pfx_def take_rex_def take_op_def take_modrm_def ext_def Let_def split: option.splits)

lemma run_exit_code:
  assumes "checki32 (sint (target - hi))"
  shows "run_exit hi (exit_code spadj (jmprel hi target)) sp = Some (target, sp + scast spadj)"
proof -
  have j: "jump_of hi (0xe9 # le32 (jmprel hi target)) = Some (Jump, target, [])"
    using jump_near [of hi "jmprel hi target" "[]"] jmprel_back [OF assms] by simp
  show ?thesis
  proof (cases "spadj = 0")
    case True
    show ?thesis
    proof (cases "decode (0xe9 # le32 (jmprel hi target))")
      case None
      then show ?thesis using True j by (simp add: run_exit_def exit_code_def)
    next
      case (Some x)
      obtain pfx ops rest where "x = ((pfx, ops), rest)" by (metis surj_pair)
      then show ?thesis using True j Some decode_add(3) [of "le32 (jmprel hi target)" pfx ops rest]
        by (cases rest) (simp add: run_exit_def exit_code_def)
    qed
  next
    case False
    then show ?thesis
      by (cases "checki8 (sint spadj)")
         (simp_all add: run_exit_def exit_code_def decode_add disp32 take_disp_def [of 1] narrow_checks(1) j Let_def)
  qed
qed

text \<open>
  C37. The end of a trace without a loop. Behind the body of the trace, with the room \<open>asm_tail_prep\<close> left filled in by
  \<open>asm_tail_fixup\<close>, the processor adds the stack adjustment to the stack pointer and is at the linked trace, and the
  bytes between the new end of the code and the old one are no-ops.
\<close>

theorem x86_tail_links:
  assumes "loopref s = 0" "realign s = None" "s1 = asm_tail_prep_x86 room s" "s4 = asm_tail_fixup_x86 spadj target (body ws s1)"
    "checki32 (sint (target - mctop (lasm s4)))"
  shows "\<exists>tl. mc (lasm s4) = ws @ tl \<and> run_exit (mctop (lasm s4)) tl sp = Some (target, sp + scast spadj) \<and>
    past s4 = replicate (unat (mctop (lasm s1) - mctop (lasm s4))) 0x90 @ past s1"
proof -
  define k :: nat where k: "k = (if spadj = 0 then 7 else if checki8 (sint spadj) then 3 else 0)"
  have m: "mc (lasm (body ws s1)) = ws @ tail_room room 12" and top: "mctop (lasm s1) = mctop (lasm s)" "past s1 = past s"
    using assms(1,2) by (simp_all add: assms(3) asm_tail_prep_x86_def realign_pad_def)
  have l: "length (tail_room room 12) = 12" by (simp add: tail_room_def)
  note t = tail_bytes [OF m l, of spadj target, folded k, folded assms(4)]
  have "run_exit (mctop (lasm s4)) (exit_code spadj (jmprel (mctop (lasm s4)) target)) sp = Some (target, sp + scast spadj)"
    by (rule run_exit_code [OF assms(5)])
  moreover have "k < 8" by (simp add: k)
  then have "unat (of_nat k :: 64 word) = k" by (simp add: unat_of_nat take_bit_nat_eq_self)
  ultimately show ?thesis using t by (simp add: body_def put_bytes_def)
qed

theorem x86_tail_links_witness:
  "\<exists>tl. mc (lasm (asm_tail_fixup_x86 16 0x8000 (body [0x90] (asm_tail_prep_x86 (\<lambda>k. 0)
       \<lparr>lasm = empty_x86, invmcp = None, loopinv = 0, realign = None, loopref = 0, nins = 0x8010, orignins = 0x8010, past = []\<rparr>)))) = [0x90] @ tl \<and>
     run_exit 0xfffd tl 0x7000 = Some (0x8000, 0x7010)"
proof -
  let ?s = "\<lparr>lasm = empty_x86, invmcp = None, loopinv = 0, realign = None, loopref = 0, nins = 0x8010, orignins = 0x8010, past = []\<rparr>"
  let ?s4 = "asm_tail_fixup_x86 16 0x8000 (body [0x90] (asm_tail_prep_x86 (\<lambda>k. 0) ?s))"
  have "checki8 (sint (16 :: 32 word))" by (simp add: checki8_def)
  then have top: "mctop (lasm ?s4) = 0xfffd"
    by (simp add: asm_tail_fixup_x86_def asm_tail_prep_x86_def realign_pad_def empty_x86_def Let_def)
  have c: "checki32 (sint (0x8000 - mctop (lasm ?s4)))" using low_reaches [of "0x8000" "0xfffd"] by (simp add: top)
  obtain tl where "mc (lasm ?s4) = [0x90] @ tl" "run_exit (mctop (lasm ?s4)) tl 0x7000 = Some (0x8000, 0x7000 + scast (16 :: 32 word))"
    using x86_tail_links [OF _ _ refl refl c, of "0x7000"] by auto
  then show ?thesis unfolding top by auto
qed

definition loop0_x86 :: loop_x86 where
  "loop0_x86 = \<lparr>lasm = empty_x86, invmcp = None, loopinv = 0, realign = None, loopref = 0x8005, nins = 0x8010, orignins = 0x8010, past = []\<rparr>"

theorem x86_loop_closes_witness:
  "\<forall>F. \<exists>tl. mc (lasm (asm_loop_fixup_x86 (body [0x90] (asm_guardcc_x86 (replicate 16 0x8000) 3 5 (asm_tail_prep_x86 (\<lambda>k. 0) loop0_x86))))) = [0x90] @ tl \<and>
     lands 2 (cc_holds F) 0x10000 tl = (if cc_holds F 5 then 0x800c else 0xfff4)"
proof
  fix F
  let ?s1 = "asm_tail_prep_x86 (\<lambda>k. 0) loop0_x86"
  let ?s3 = "body [0x90] (if True then asm_guardcc_x86 (replicate 16 0x8000) 3 5 ?s1 else ?s1)"
  have a: "exitstub_addr (replicate 16 0x8000) 3 = 0x800c" by (simp add: exitstub_addr_def)
  have s1: "lasm ?s1 = empty_x86\<lparr>mc := [0, 0, 0, 0, 0]\<rparr>" "invmcp ?s1 = Some 0xfffb" "realign ?s1 = None"
    by (simp_all add: loop0_x86_def asm_tail_prep_x86_def realign_pad_def tail_room_def mcp_x86_def empty_x86_def Let_def upt_rec)
  have top: "mctop (lasm ?s1) = 0x10000" by (simp add: s1 empty_x86_def)
  have g: "length (mc (lasm ?s1)) = 5" "invmcp ?s1 = Some (mcp_x86 (lasm ?s1))" by (simp_all add: s1 mcp_x86_def empty_x86_def)
  note inv = guard_inverted [OF g, of "replicate 16 0x8000" 3 5]
  have len: "length (mc (lasm ?s3)) = 12" using inv(1) by (auto simp: s1 le32_def)
  have fits: "loop_fits ?s3" using inv(3,4) len by (simp add: loop_fits_def s1)
  have reach: "checki32 (sint (exitstub_addr (replicate 16 0x8000) 3 - mctop (lasm ?s1)))"
    using low_reaches [of "0x800c" "0x10000"] by (simp add: a top)
  have mcp: "mcp_x86 (lasm ?s3) = 0xfff4" using inv(2) len by (simp add: mcp_x86_def top)
  have r: "loopref loop0_x86 \<noteq> 0" and i: "if realign loop0_x86 = None then True \<or> loopinv loop0_x86 = 0 else (loopinv loop0_x86 \<noteq> 0) = True"
    and ucast_5: "(ucast ((5 :: 32 word) AND 15) :: 8 word) = 5"
    by (simp_all add: loop0_x86_def)
  obtain tl where "mc (lasm (asm_loop_fixup_x86 ?s3)) = [0x90] @ tl"
    "lands 2 (cc_holds F) 0x10000 tl = (if True \<and> cc_holds F 5 then 0x800c else 0xfff4)"
    using x86_loop_closes [OF r i refl refl fits reach, of F, unfolded top mcp a ucast_5] by blast
  then show "\<exists>tl. mc (lasm (asm_loop_fixup_x86 (body [0x90] (asm_guardcc_x86 (replicate 16 0x8000) 3 5 ?s1)))) = [0x90] @ tl \<and>
     lands 2 (cc_holds F) 0x10000 tl = (if cc_holds F 5 then 0x800c else 0xfff4)"
    by (simp only: if_True simp_thms) blast
qed

end
