(* ===== verification/LJ_Layout.thy ===== *)
theory LJ_Layout
  imports LJ_Bits
begin

text \<open>
  The C structures of \<open>LuaJit/include/lj_obj.h\<close> for a 64 bit target with 64 bit references
  (\<open>LJ_GC64\<close>): each structure is its list of fields with their sizes, laid out by the rules
  every supported C compiler follows, every field at the next multiple of its alignment. Memory is a
  map from addresses to bytes, and an access through a structure pointer is an access at the
  offset of the field.
\<close>

section \<open>Layout of C structures\<close>

text \<open>A field has a name, a size and an alignment.\<close>

type_synonym field = "string \<times> nat \<times> nat"

definition align_up :: "nat \<Rightarrow> nat \<Rightarrow> nat" where
  "align_up n a = (n + a - 1) div a * a"

fun offset_from :: "nat \<Rightarrow> field list \<Rightarrow> string \<Rightarrow> nat option" where
  "offset_from n [] f = None"
| "offset_from n ((g, s, a) # fs) f =
     (if f = g then Some (align_up n a) else offset_from (align_up n a + s) fs f)"

fun end_from :: "nat \<Rightarrow> field list \<Rightarrow> nat" where
  "end_from n [] = n"
| "end_from n ((g, s, a) # fs) = end_from (align_up n a + s) fs"

definition offsetof :: "field list \<Rightarrow> string \<Rightarrow> nat" where
  "offsetof S f = (case offset_from 0 S f of Some n \<Rightarrow> n | None \<Rightarrow> 0)"

definition struct_align :: "field list \<Rightarrow> nat" where
  "struct_align S = foldr (\<lambda>(f, s, a). max a) S 1"

definition sizeof :: "field list \<Rightarrow> nat" where
  "sizeof S = align_up (end_from 0 S) (struct_align S)"

definition u8 :: "string \<Rightarrow> field" where "u8 f = (f, 1, 1)"

definition u16 :: "string \<Rightarrow> field" where "u16 f = (f, 2, 2)"

definition u32 :: "string \<Rightarrow> field" where "u32 f = (f, 4, 4)"

definition ptr :: "string \<Rightarrow> field" where "ptr f = (f, 8, 8)"

definition nested :: "string \<Rightarrow> field list \<Rightarrow> field" where
  "nested f S = (f, sizeof S, struct_align S)"

definition arr8 :: "string \<Rightarrow> nat \<Rightarrow> field" where "arr8 f n = (f, 8 * n, 8)"

named_theorems layout \<open>the definitions a structure layout evaluates with\<close>

lemmas [layout] = offsetof_def sizeof_def struct_align_def u8_def u16_def u32_def ptr_def nested_def
  arr8_def align_up_def

text \<open>Every field starts at a multiple of its alignment, after the fields before it.\<close>

lemma align_up_ge: "0 < a \<Longrightarrow> n \<le> align_up n a"
  unfolding align_up_def using dividend_less_div_times [of a "n + a - 1"] by linarith

lemma offset_from_aligned:
  "offset_from n fs f = Some k \<Longrightarrow> (\<forall>(g, s, a) \<in> set fs. 0 < a) \<Longrightarrow>
   n \<le> k \<and> (\<exists>s a. (f, s, a) \<in> set fs \<and> a dvd k)"
proof (induction n fs f rule: offset_from.induct)
  case (2 n g s a fs f)
  have a: "0 < a" using "2.prems"(2) by simp
  show ?case
  proof (cases "f = g")
    case True
    then have k: "k = align_up n a" using "2.prems"(1) by simp
    then have "a dvd k" by (simp add: align_up_def)
    then show ?thesis using align_up_ge [OF a, of n] k True by auto
  next
    case False
    then have "align_up n a + s \<le> k \<and> (\<exists>s' a'. (f, s', a') \<in> set fs \<and> a' dvd k)"
      using 2 by auto
    then show ?thesis using align_up_ge [OF a, of n] by auto
  qed
qed simp

section \<open>Objects\<close>

definition GCHeader :: "field list" where
  "GCHeader = [ptr ''nextgc'', u8 ''marked'', u8 ''gct'']"

definition SBuf_s :: "field list" where
  "SBuf_s = [ptr ''w'', ptr ''e'', ptr ''b'', ptr ''L'']"

definition TValue_s :: "field list" where "TValue_s = [ptr ''u64'']"

definition GCstr_s :: "field list" where
  "GCstr_s = GCHeader @ [u8 ''reserved'', u8 ''hashalg'', u32 ''sid'', u32 ''hash'', u32 ''len'']"

definition GCudata_s :: "field list" where
  "GCudata_s = GCHeader @ [u8 ''udtype'', u8 ''unused2'', ptr ''env'', u32 ''len'', ptr ''metatable'',
     u32 ''align1'']"

definition GCcdata_s :: "field list" where
  "GCcdata_s = GCHeader @ [u16 ''ctypeid'']"

definition GCcdataVar_s :: "field list" where
  "GCcdataVar_s = [u16 ''offset'', u16 ''extra'', u32 ''len'']"

definition GCproto_s :: "field list" where
  "GCproto_s = GCHeader @ [u8 ''numparams'', u8 ''framesize'', u32 ''sizebc'', u32 ''unused_gc64'',
     ptr ''gclist'', ptr ''k'', ptr ''uv'', u32 ''sizekgc'', u32 ''sizekn'', u32 ''sizept'',
     u8 ''sizeuv'', u8 ''flags'', u16 ''trace'', ptr ''chunkname'', u32 ''firstline'',
     u32 ''numline'', ptr ''lineinfo'', ptr ''uvinfo'', ptr ''varinfo'']"

text \<open>The union of a closed value and the two list links is as large as the links.\<close>

definition GCupval_s :: "field list" where
  "GCupval_s = GCHeader @ [u8 ''closed'', u8 ''immutable'', ptr ''prev'', ptr ''next'', ptr ''v'',
     u32 ''dhash'']"

definition GCfuncHeader :: "field list" where
  "GCfuncHeader = GCHeader @ [u8 ''ffid'', u8 ''nupvalues'', ptr ''env'', ptr ''gclist'', ptr ''pc'']"

definition GCfuncC_s :: "field list" where
  "GCfuncC_s = GCfuncHeader @ [ptr ''f'', arr8 ''upvalue'' 1]"

definition GCfuncL_s :: "field list" where
  "GCfuncL_s = GCfuncHeader @ [arr8 ''uvptr'' 1]"

definition Node_s :: "field list" where
  "Node_s = [nested ''val'' TValue_s, nested ''key'' TValue_s, ptr ''next'']"

definition GCtab_s :: "field list" where
  "GCtab_s = GCHeader @ [u8 ''nomm'', u8 ''colo'', ptr ''array'', ptr ''gclist'', ptr ''metatable'',
     ptr ''node'', u32 ''asize'', u32 ''hmask'', ptr ''freetop'']"

definition GChead_s :: "field list" where
  "GChead_s = GCHeader @ [u8 ''unused1'', u8 ''unused2'', ptr ''env'', ptr ''gclist'',
     ptr ''metatable'']"

definition lua_State_s :: "field list" where
  "lua_State_s = GCHeader @ [u8 ''dummy_ffid'', u8 ''status'', ptr ''glref'', ptr ''gclist'',
     ptr ''base'', ptr ''top'', ptr ''maxstack'', ptr ''stack'', ptr ''openupval'', ptr ''env'',
     ptr ''cframe'', u32 ''stacksize'']"

section \<open>The global state\<close>

definition GCState_s :: "field list" where
  "GCState_s = [ptr ''total'', ptr ''threshold'', u8 ''currentwhite'', u8 ''state'', u8 ''unused0'',
     u8 ''lightudnum'', u32 ''sweepstr'', ptr ''root'', ptr ''sweep'', ptr ''gray'',
     ptr ''grayagain'', ptr ''weak'', ptr ''mmudata'', ptr ''debt'', ptr ''estimate'',
     u32 ''stepmul'', u32 ''pause'', ptr ''lightudseg'']"

definition StrInternState_s :: "field list" where
  "StrInternState_s = [ptr ''tab'', u32 ''mask'', u32 ''num'', u32 ''id'', u8 ''idreseed'',
     u8 ''second'', u8 ''unused1'', u8 ''unused2'', ptr ''seed'']"

text \<open>The roots: the metamethod names, the base metatables and three more.\<close>

definition MMDEF :: "string list" where
  "MMDEF = [''index'', ''newindex'', ''gc'', ''mode'', ''eq'', ''len'', ''lt'', ''le'', ''concat'',
     ''call'', ''add'', ''sub'', ''mul'', ''div'', ''mod'', ''pow'', ''unm'', ''metatable'',
     ''tostring'', ''new'', ''pairs'', ''ipairs'']"

definition GCROOT_MMNAME :: nat where "GCROOT_MMNAME = 0"

definition GCROOT_BASEMT :: nat where "GCROOT_BASEMT = GCROOT_MMNAME + length MMDEF"

definition GCROOT_BASEMT_NUM :: nat where "GCROOT_BASEMT_NUM = GCROOT_BASEMT + 13"

definition GCROOT_MAX :: nat where "GCROOT_MAX = GCROOT_BASEMT_NUM + 4"

definition PRNGState_s :: "field list" where "PRNGState_s = [arr8 ''u'' 4]"

definition global_State_s :: "field list" where
  "global_State_s = [ptr ''allocf'', ptr ''allocd'', nested ''gc'' GCState_s,
     nested ''strempty'' GCstr_s, u8 ''stremptyz'', u8 ''hookmask'', u8 ''dispatchmode'',
     u8 ''vmevmask'', nested ''str'' StrInternState_s, u32 ''vmstate'', ptr ''mainthref'',
     nested ''tmpbuf'' SBuf_s, ptr ''tmptv'', ptr ''tmptv2'', nested ''nilnode'' Node_s,
     ptr ''registrytv'', nested ''uvhead'' GCupval_s, u32 ''hookcount'', u32 ''hookcstart'',
     ptr ''hookf'', ptr ''wrapf'', ptr ''panic'', u32 ''bc_cfunc_int'', u32 ''bc_cfunc_ext'',
     ptr ''cur_L'', ptr ''jit_base'', ptr ''ctype_state'', nested ''prng'' PRNGState_s,
     arr8 ''gcroot'' GCROOT_MAX]"

lemmas [layout] = GCHeader_def SBuf_s_def TValue_s_def GCstr_s_def GCudata_s_def GCcdata_s_def
  GCcdataVar_s_def GCproto_s_def GCupval_s_def GCfuncHeader_def GCfuncC_s_def GCfuncL_s_def Node_s_def
  GCtab_s_def GChead_s_def lua_State_s_def

lemma struct_sizes [simp]:
  "sizeof TValue_s = 8" "sizeof GCstr_s = 24" "sizeof GCudata_s = 48" "sizeof GCcdata_s = 16"
  "sizeof GCcdataVar_s = 8" "sizeof GCproto_s = 104" "sizeof GCupval_s = 48" "sizeof GCfuncC_s = 56"
  "sizeof GCfuncL_s = 48" "sizeof Node_s = 24" "sizeof GCtab_s = 64"
  by (simp_all add: layout)

text \<open>
  The collector reaches the links of any object through the generic header: the
  environment, list link and metatable of every object that has one are where \<open>GChead\<close> has
  them, and the value of a hash node is its first field, as the static assertions demand.
\<close>

theorem gc_header_offsets:
  "offsetof Node_s ''val'' = 0 \<and>
   offsetof GChead_s ''env'' = offsetof GCfuncL_s ''env'' \<and>
   offsetof GChead_s ''env'' = offsetof GCudata_s ''env'' \<and>
   offsetof GChead_s ''metatable'' = offsetof GCtab_s ''metatable'' \<and>
   offsetof GChead_s ''metatable'' = offsetof GCudata_s ''metatable'' \<and>
   offsetof GChead_s ''gclist'' = offsetof lua_State_s ''gclist'' \<and>
   offsetof GChead_s ''gclist'' = offsetof GCproto_s ''gclist'' \<and>
   offsetof GChead_s ''gclist'' = offsetof GCfuncL_s ''gclist'' \<and>
   offsetof GChead_s ''gclist'' = offsetof GCtab_s ''gclist''"
  by (simp add: layout)

end
