(* ===== verification/LJ_Value.thy ===== *)
theory LJ_Value
  imports LJ_Bits
begin

text \<open>
  The tagged values of \<open>LuaJit/include/lj_obj.h\<close> with 64 bit references: a value is a word of 64
  bits, a double unless its upper 13 bits are ones and its tag is one of the internal ones. The
  type tests, the getters and the setters are functions on the word; a double is its bit
  pattern. \<open>LJ_DUALNUM\<close> is off, as on x64.
\<close>

section \<open>Tags\<close>

definition LJ_TNIL :: "32 word" where "LJ_TNIL = NOT 0"

definition LJ_TFALSE :: "32 word" where "LJ_TFALSE = NOT 1"

definition LJ_TTRUE :: "32 word" where "LJ_TTRUE = NOT 2"

definition LJ_TLIGHTUD :: "32 word" where "LJ_TLIGHTUD = NOT 3"

definition LJ_TSTR :: "32 word" where "LJ_TSTR = NOT 4"

definition LJ_TUPVAL :: "32 word" where "LJ_TUPVAL = NOT 5"

definition LJ_TTHREAD :: "32 word" where "LJ_TTHREAD = NOT 6"

definition LJ_TPROTO :: "32 word" where "LJ_TPROTO = NOT 7"

definition LJ_TFUNC :: "32 word" where "LJ_TFUNC = NOT 8"

definition LJ_TTRACE :: "32 word" where "LJ_TTRACE = NOT 9"

definition LJ_TCDATA :: "32 word" where "LJ_TCDATA = NOT 10"

definition LJ_TTAB :: "32 word" where "LJ_TTAB = NOT 11"

definition LJ_TUDATA :: "32 word" where "LJ_TUDATA = NOT 12"

definition LJ_TNUMX :: "32 word" where "LJ_TNUMX = NOT 13"

definition LJ_TISNUM :: "32 word" where "LJ_TISNUM = LJ_TNUMX"

definition LJ_TISTRUECOND :: "32 word" where "LJ_TISTRUECOND = LJ_TFALSE"

definition LJ_TISPRI :: "32 word" where "LJ_TISPRI = LJ_TTRUE"

definition LJ_TISGCV :: "32 word" where "LJ_TISGCV = LJ_TSTR + 1"

definition LJ_TISTABUD :: "32 word" where "LJ_TISTABUD = LJ_TTAB"

definition LJ_KEYINDEX :: "32 word" where "LJ_KEYINDEX = 0xfffe7fff"

definition LJ_GCVMASK :: "64 word" where "LJ_GCVMASK = push_bit 47 1 - 1"

definition LJ_LIGHTUD_BITS_SEG :: nat where "LJ_LIGHTUD_BITS_SEG = 8"

definition LJ_LIGHTUD_BITS_LO :: nat where "LJ_LIGHTUD_BITS_LO = 47 - LJ_LIGHTUD_BITS_SEG"

lemmas lj_tags = LJ_TNIL_def LJ_TFALSE_def LJ_TTRUE_def LJ_TLIGHTUD_def LJ_TSTR_def LJ_TUPVAL_def
  LJ_TTHREAD_def LJ_TPROTO_def LJ_TFUNC_def LJ_TTRACE_def LJ_TCDATA_def LJ_TTAB_def LJ_TUDATA_def
  LJ_TNUMX_def LJ_TISNUM_def LJ_TISTRUECOND_def LJ_TISPRI_def LJ_TISGCV_def LJ_TISTABUD_def

section \<open>Type tests\<close>

definition itype :: "64 word \<Rightarrow> 32 word" where
  "itype u = ucast (signed_drop_bit 47 u)"

definition tvisnil :: "64 word \<Rightarrow> bool" where "tvisnil u \<longleftrightarrow> u = - 1"

definition tvisfalse :: "64 word \<Rightarrow> bool" where "tvisfalse u \<longleftrightarrow> itype u = LJ_TFALSE"

definition tvistrue :: "64 word \<Rightarrow> bool" where "tvistrue u \<longleftrightarrow> itype u = LJ_TTRUE"

definition tvisbool :: "64 word \<Rightarrow> bool" where "tvisbool u \<longleftrightarrow> tvisfalse u \<or> tvistrue u"

definition tvislightud :: "64 word \<Rightarrow> bool" where "tvislightud u \<longleftrightarrow> itype u = LJ_TLIGHTUD"

definition tvisstr :: "64 word \<Rightarrow> bool" where "tvisstr u \<longleftrightarrow> itype u = LJ_TSTR"

definition tvisfunc :: "64 word \<Rightarrow> bool" where "tvisfunc u \<longleftrightarrow> itype u = LJ_TFUNC"

definition tvisthread :: "64 word \<Rightarrow> bool" where "tvisthread u \<longleftrightarrow> itype u = LJ_TTHREAD"

definition tvisproto :: "64 word \<Rightarrow> bool" where "tvisproto u \<longleftrightarrow> itype u = LJ_TPROTO"

definition tviscdata :: "64 word \<Rightarrow> bool" where "tviscdata u \<longleftrightarrow> itype u = LJ_TCDATA"

definition tvistab :: "64 word \<Rightarrow> bool" where "tvistab u \<longleftrightarrow> itype u = LJ_TTAB"

definition tvisudata :: "64 word \<Rightarrow> bool" where "tvisudata u \<longleftrightarrow> itype u = LJ_TUDATA"

definition tvisnumber :: "64 word \<Rightarrow> bool" where "tvisnumber u \<longleftrightarrow> itype u \<le> LJ_TISNUM"

definition tvisint :: "64 word \<Rightarrow> bool" where "tvisint u \<longleftrightarrow> False \<and> itype u = LJ_TISNUM"

definition tvisnum :: "64 word \<Rightarrow> bool" where "tvisnum u \<longleftrightarrow> itype u < LJ_TISNUM"

definition tvistruecond :: "64 word \<Rightarrow> bool" where "tvistruecond u \<longleftrightarrow> itype u < LJ_TISTRUECOND"

definition tvispri :: "64 word \<Rightarrow> bool" where "tvispri u \<longleftrightarrow> LJ_TISPRI \<le> itype u"

definition tvistabud :: "64 word \<Rightarrow> bool" where "tvistabud u \<longleftrightarrow> itype u \<le> LJ_TISTABUD"

definition tvisgcv :: "64 word \<Rightarrow> bool" where
  "tvisgcv u \<longleftrightarrow> itype u - LJ_TISGCV > LJ_TNUMX - LJ_TISGCV"

text \<open>A double is a NaN when its exponent is all ones and its fraction is not zero.\<close>

definition tvisnan :: "64 word \<Rightarrow> bool" where
  "tvisnan u \<longleftrightarrow> drop_bit 52 u AND 0x7ff = 0x7ff \<and> take_bit 52 u \<noteq> 0"

definition tviszero :: "64 word \<Rightarrow> bool" where "tviszero u \<longleftrightarrow> push_bit 1 u = 0"

definition tvispzero :: "64 word \<Rightarrow> bool" where "tvispzero u \<longleftrightarrow> u = 0"

definition tvismzero :: "64 word \<Rightarrow> bool" where "tvismzero u \<longleftrightarrow> u = 0x8000000000000000"

definition tvispone :: "64 word \<Rightarrow> bool" where "tvispone u \<longleftrightarrow> u = 0x3ff0000000000000"

definition rawnumequal :: "64 word \<Rightarrow> 64 word \<Rightarrow> bool" where "rawnumequal u v \<longleftrightarrow> u = v"

definition itypemap :: "64 word \<Rightarrow> 32 word" where
  "itypemap u = (if tvisnumber u then NOT LJ_TNUMX else NOT (itype u))"

lemmas tvis = tvisfalse_def tvistrue_def tvisbool_def tvislightud_def tvisstr_def tvisfunc_def
  tvisthread_def tvisproto_def tviscdata_def tvistab_def tvisudata_def tvisnumber_def tvisint_def
  tvisnum_def tvistruecond_def tvispri_def tvistabud_def tvisgcv_def

section \<open>Getters and setters\<close>

definition gcval :: "64 word \<Rightarrow> 64 word" where "gcval u = u AND LJ_GCVMASK"

definition boolV :: "64 word \<Rightarrow> 32 word" where "boolV u = LJ_TFALSE - itype u"

definition lightudseg :: "64 word \<Rightarrow> 64 word" where
  "lightudseg u = drop_bit LJ_LIGHTUD_BITS_LO u AND (push_bit LJ_LIGHTUD_BITS_SEG 1 - 1)"

definition lightudlo :: "64 word \<Rightarrow> 64 word" where
  "lightudlo u = u AND (push_bit LJ_LIGHTUD_BITS_LO 1 - 1)"

definition lightudup :: "64 word \<Rightarrow> 32 word" where
  "lightudup p = ucast (push_bit (LJ_LIGHTUD_BITS_LO - 32) (drop_bit LJ_LIGHTUD_BITS_LO p))"

text \<open>\<open>segmap\<close> is the array of upper halves that the global state keeps.\<close>

definition lightudV :: "(nat \<Rightarrow> 32 word) \<Rightarrow> 64 word \<Rightarrow> 64 word" where
  "lightudV segmap u =
     (let seg = lightudseg u in
      if seg = push_bit LJ_LIGHTUD_BITS_SEG 1 - 1 then 0
      else push_bit 32 (ucast (segmap (unat seg))) OR lightudlo u)"

definition setitype :: "64 word \<Rightarrow> 32 word \<Rightarrow> 64 word" where
  "setitype u i = (u AND 0xffffffff) OR push_bit 32 (ucast (push_bit 15 i))"

definition setnilV :: "64 word" where "setnilV = - 1"

definition setpriV :: "32 word \<Rightarrow> 64 word" where
  "setpriV x = NOT (push_bit 47 (ucast (NOT x)))"

definition setboolV :: "32 word \<Rightarrow> 64 word" where
  "setboolV x = NOT (push_bit 47 (ucast (x + 1)))"

definition setrawlightudV :: "64 word \<Rightarrow> 64 word" where
  "setrawlightudV p = p OR push_bit 47 (ucast LJ_TLIGHTUD)"

definition setgcreft :: "64 word \<Rightarrow> 32 word \<Rightarrow> 64 word" where
  "setgcreft gc it = gc OR push_bit 47 (ucast it)"

definition setgcVraw :: "64 word \<Rightarrow> 32 word \<Rightarrow> 64 word" where
  "setgcVraw v it = setgcreft v it"

definition setgcV :: "64 word \<Rightarrow> 32 word \<Rightarrow> 64 word" where
  "setgcV v it = setgcVraw v it"

definition setstrV :: "64 word \<Rightarrow> 64 word" where "setstrV v = setgcV v LJ_TSTR"

definition setthreadV :: "64 word \<Rightarrow> 64 word" where "setthreadV v = setgcV v LJ_TTHREAD"

definition setprotoV :: "64 word \<Rightarrow> 64 word" where "setprotoV v = setgcV v LJ_TPROTO"

definition setfuncV :: "64 word \<Rightarrow> 64 word" where "setfuncV v = setgcV v LJ_TFUNC"

definition setcdataV :: "64 word \<Rightarrow> 64 word" where "setcdataV v = setgcV v LJ_TCDATA"

definition settabV :: "64 word \<Rightarrow> 64 word" where "settabV v = setgcV v LJ_TTAB"

definition setudataV :: "64 word \<Rightarrow> 64 word" where "setudataV v = setgcV v LJ_TUDATA"

definition setnumV :: "64 word \<Rightarrow> 64 word" where "setnumV x = x"

definition setnanV :: "64 word" where "setnanV = 0xfff8000000000000"

definition setpinfV :: "64 word" where "setpinfV = 0x7ff0000000000000"

definition setminfV :: "64 word" where "setminfV = 0xfff0000000000000"

definition setcont :: "64 word \<Rightarrow> 64 word" where "setcont f = f"

lemmas setV = setstrV_def setthreadV_def setprotoV_def setfuncV_def setcdataV_def settabV_def
  setudataV_def setgcV_def setgcVraw_def setgcreft_def setrawlightudV_def

section \<open>What is stored is read back\<close>

lemma bit_itype: "bit (itype u) k \<longleftrightarrow> k < 32 \<and> bit u (if k < 17 then k + 47 else 63)"
proof -
  have l: "LENGTH(64) = (64 :: nat)" "LENGTH(32) = (32 :: nat)" "(64 :: nat) - 1 = 63" by simp_all
  have "bit (itype u) k \<longleftrightarrow> k < 32 \<and> bit u (if 64 - 47 \<le> k \<and> k < 64 then 63 else 47 + k)"
    unfolding itype_def bit_unsigned_iff bit_signed_drop_bit_iff l possible_bit_word l ..
  then show ?thesis by (auto simp: ac_simps)
qed

lemma gcv_mask: "LJ_GCVMASK = mask 47"
  by (simp add: LJ_GCVMASK_def mask_eq_exp_minus_1 push_bit_eq_mult)

lemma small64_bits: "unat (p :: 64 word) < 2 ^ k \<Longrightarrow> bit p n \<Longrightarrow> n < k"
proof -
  assume "unat p < 2 ^ k" "bit p n"
  then have "take_bit k (unat p) = unat p" "bit (unat p) n"
    by (auto simp: take_bit_nat_eq_self_iff bit_unsigned_iff dest: bit_lt)
  then show "n < k" by (metis bit_take_bit_iff)
qed

lemma itype_tagged:
  assumes "unat p < 2 ^ 47" "\<And>k. 16 \<le> k \<Longrightarrow> k < 32 \<Longrightarrow> bit it k = bit it 16"
  shows "itype (p OR push_bit 47 (ucast it)) = it" and "gcval (p OR push_bit 47 (ucast it)) = p"
proof -
  note p = small64_bits [OF assms(1)]
  have "\<not> bit p (k + 47)" "\<not> bit p 63" for k using p [of "k + 47"] p [of 63] by auto
  then have lo: "bit (p OR push_bit 47 (ucast it)) (j + 47) \<longleftrightarrow> bit it j" if "j < 17" for j
    using that by (simp add: bit_or_iff bit_push_bit_iff bit_unsigned_iff)
  show "itype (p OR push_bit 47 (ucast it)) = it"
  proof (intro bit_word_eqI)
    fix k assume "k < LENGTH(32)"
    then show "bit (itype (p OR push_bit 47 (ucast it))) k = bit it k"
      using lo [of k] lo [of 16] assms(2) [of k]
      by (cases "k < 17") (simp_all add: bit_itype)
  qed
  show "gcval (p OR push_bit 47 (ucast it)) = p"
    unfolding gcval_def gcv_mask using p by (intro bit_word_eqI) (auto simp: bit_simps)
qed

lemma tag_bits: "unat (t :: 32 word) < 16 \<Longrightarrow> 4 \<le> k \<Longrightarrow> k < 32 \<Longrightarrow> bit (NOT t) k"
  using small_word_bits [of t 4 k] by (auto simp: bit_not_iff)

lemma tags_eq:
  "LJ_TSTR = NOT 4" "LJ_TTHREAD = NOT 6" "LJ_TPROTO = NOT 7" "LJ_TFUNC = NOT 8" "LJ_TCDATA = NOT 10"
  "LJ_TTAB = NOT 11" "LJ_TUDATA = NOT 12" "LJ_TLIGHTUD = NOT 3"
  by (simp_all add: lj_tags)

lemma tagged_not:
  assumes "unat p < 2 ^ 47" "unat t < 16"
  shows "itype (p OR push_bit 47 (ucast (NOT t))) = NOT t" "gcval (p OR push_bit 47 (ucast (NOT t))) = p"
  by (rule itype_tagged [OF assms(1)], simp add: tag_bits [OF assms(2)])+


lemma setboolV_tag: "b \<in> {0, 1} \<Longrightarrow> itype (setboolV b) = NOT (b + 1) \<and> gcval (setboolV b) = LJ_GCVMASK"
proof -
  assume b: "b \<in> {0, 1}"
  have u: "setboolV b = LJ_GCVMASK OR push_bit 47 (ucast (NOT (b + 1)))"
    using b by (auto simp: setboolV_def LJ_GCVMASK_def push_bit_eq_mult)
  have *: "unat LJ_GCVMASK < 2 ^ 47" by (simp add: LJ_GCVMASK_def push_bit_eq_mult)
  show ?thesis using tagged_not [OF *, of "b + 1"] b unfolding u by auto
qed

lemma set_tagged:
  assumes "unat p < 2 ^ 47"
  shows "itype (setstrV p) = LJ_TSTR" "gcval (setstrV p) = p"
    "itype (setthreadV p) = LJ_TTHREAD" "gcval (setthreadV p) = p"
    "itype (setprotoV p) = LJ_TPROTO" "gcval (setprotoV p) = p"
    "itype (setfuncV p) = LJ_TFUNC" "gcval (setfuncV p) = p"
    "itype (setcdataV p) = LJ_TCDATA" "gcval (setcdataV p) = p"
    "itype (settabV p) = LJ_TTAB" "gcval (settabV p) = p"
    "itype (setudataV p) = LJ_TUDATA" "gcval (setudataV p) = p"
    "itype (setrawlightudV p) = LJ_TLIGHTUD" "gcval (setrawlightudV p) = p"
  unfolding setV tags_eq by ((rule tagged_not [OF assms], simp)+)

lemma tagged_values_roundtrip:
  assumes "unat p < 2 ^ 47"
  shows "tvisstr (setstrV p) \<and> tvisthread (setthreadV p) \<and> tvisproto (setprotoV p) \<and>
    tvisfunc (setfuncV p) \<and> tviscdata (setcdataV p) \<and> tvistab (settabV p) \<and> tvisudata (setudataV p)"
   and "\<forall>u \<in> {setstrV p, setthreadV p, setprotoV p, setfuncV p, setcdataV p, settabV p, setudataV p}.
    tvisgcv u \<and> \<not> tvisnumber u \<and> \<not> tvispri u \<and> gcval u = p"
  by (simp_all add: tvis set_tagged [OF assms]) (simp_all add: lj_tags)

lemma tvalue_classes:
  "tvisnumber u \<longleftrightarrow> \<not> tvispri u \<and> \<not> tvislightud u \<and> \<not> tvisgcv u"
  "\<not> (tvispri u \<and> tvislightud u)" "\<not> (tvispri u \<and> tvisgcv u)" "\<not> (tvislightud u \<and> tvisgcv u)"
proof -
  define t where "t = uint (itype u)"
  have t: "0 \<le> t" "t < 2 ^ 32" unfolding t_def by (simp_all add: uint_lt2p [of "itype u", simplified])
  have c: "tvisnumber u \<longleftrightarrow> t \<le> 2 ^ 32 - 14" "tvispri u \<longleftrightarrow> 2 ^ 32 - 3 \<le> t" "tvislightud u \<longleftrightarrow> t = 2 ^ 32 - 4"
     unfolding tvis lj_tags word_le_def word_uint_eq_iff t_def by simp_all
  have "tvisgcv u \<longleftrightarrow> 2 ^ 32 - 13 \<le> t \<and> t \<le> 2 ^ 32 - 5"
  proof -
    have "uint (itype u + 4) = (t + 4) mod 2 ^ 32" by (simp add: t_def uint_word_ariths)
    moreover have "tvisgcv u \<longleftrightarrow> 2 ^ 32 - 10 < uint (itype u + 4)"
      unfolding tvis lj_tags word_less_def by simp
    ultimately have "tvisgcv u \<longleftrightarrow> 2 ^ 32 - 10 < (t + 4) mod 2 ^ 32" by simp
    moreover have "(t + 4) mod 2 ^ 32 = (if t < 2 ^ 32 - 4 then t + 4 else t + 4 - 2 ^ 32)"
    proof (cases "t < 2 ^ 32 - 4")
      case False
      then have "(t + 4) mod 2 ^ 32 = (t + 4 - 2 ^ 32) mod 2 ^ 32"
        by (intro minus_mod_self2 [symmetric])
      also have "\<dots> = t + 4 - 2 ^ 32" using False t by (intro mod_pos_pos_trivial) auto
      finally show ?thesis using False by simp
    qed (use t in \<open>simp add: mod_pos_pos_trivial\<close>)
    ultimately show ?thesis using t by auto
  qed
  with c show "tvisnumber u \<longleftrightarrow> \<not> tvispri u \<and> \<not> tvislightud u \<and> \<not> tvisgcv u"
    "\<not> (tvispri u \<and> tvislightud u)" "\<not> (tvispri u \<and> tvisgcv u)" "\<not> (tvislightud u \<and> tvisgcv u)"
    by auto
qed

text \<open>Light userdata: the segment and the low part of a pointer whose upper half is registered.\<close>

lemma lightud_roundtrip:
  assumes "segmap s = lightudup p" "s < 255"
  shows "lightudV segmap (setrawlightudV (push_bit 39 (of_nat s) OR lightudlo p)) = p"
proof -
  define u where "u = setrawlightudV (push_bit 39 (of_nat s) OR lightudlo p)"
  have m: "(push_bit 39 1 - 1 :: 64 word) = mask 39" "(push_bit 8 1 - 1 :: 64 word) = mask 8"
    by (simp_all add: mask_eq_exp_minus_1 push_bit_eq_mult)
  have c: "LJ_LIGHTUD_BITS_LO = 39" "LJ_LIGHTUD_BITS_SEG = 8"
    by (simp_all add: LJ_LIGHTUD_BITS_LO_def LJ_LIGHTUD_BITS_SEG_def)
  define sw :: "64 word" where "sw = of_nat s"
  have sw: "unat sw = s" using assms(2) by (simp add: sw_def unat_of_nat)
  have sb: "bit sw k \<Longrightarrow> k < 8" for k using small64_bits [of sw 8 k] sw assms(2) by simp
  have bu: "bit u k \<longleftrightarrow> (39 \<le> k \<and> bit sw (k - 39)) \<or> (k < 39 \<and> bit p k)" if "k < 47" for k
    using that unfolding u_def setrawlightudV_def lightudlo_def c m sw_def [symmetric]
    by (auto simp: bit_or_iff bit_push_bit_iff bit_and_iff bit_mask_iff)
  have seg: "lightudseg u = sw"
  proof (rule bit_word_eqI)
    fix k assume "k < LENGTH(64)"
    have "bit (lightudseg u) k \<longleftrightarrow> k < 8 \<and> bit u (39 + k)"
      unfolding lightudseg_def c m by (auto simp: bit_and_iff bit_drop_bit_eq bit_mask_iff)
    then show "bit (lightudseg u) k = bit sw k" using bu [of "39 + k"] sb [of k] by auto
  qed
  have "sw \<noteq> mask 8" using sw assms(2) by (auto simp: mask_eq_exp_minus_1)
  then have "lightudV segmap u = push_bit 32 (ucast (lightudup p)) OR lightudlo u"
    unfolding lightudV_def Let_def c m seg using sw assms(1) by simp
  also have "\<dots> = p"
  proof (rule bit_word_eqI)
    fix k assume k: "k < LENGTH(64)"
    have "bit (lightudlo u) k \<longleftrightarrow> k < 39 \<and> bit p k"
      unfolding lightudlo_def c m using bu [of k] by (auto simp: bit_and_iff bit_mask_iff)
    moreover have "bit (push_bit 32 (ucast (lightudup p) :: 64 word)) k \<longleftrightarrow> 39 \<le> k \<and> bit p k"
      unfolding lightudup_def c using k
      by (auto simp: bit_push_bit_iff bit_unsigned_iff bit_drop_bit_eq)
    ultimately show "bit (push_bit 32 (ucast (lightudup p)) OR lightudlo u) k = bit p k"
      by (auto simp: bit_or_iff)
  qed
  finally show ?thesis by (simp add: u_def)
qed

text \<open>
  C24. Every word of 64 bits is exactly one of a number, a primitive, light userdata or a
  reference to a collectable object. A reference stored under any of the seven tags is seen
  as that type only, and the pointer comes back; a boolean comes back as stored.
\<close>

theorem tagged_values:
  assumes "unat p < 2 ^ 47" "b \<in> {0, 1}"
  shows "tvisnumber u = (\<not> tvispri u \<and> \<not> tvislightud u \<and> \<not> tvisgcv u) \<and>
    \<not> (tvispri u \<and> (tvislightud u \<or> tvisgcv u)) \<and> \<not> (tvislightud u \<and> tvisgcv u) \<and>
    tvisstr (setstrV p) \<and> tvisthread (setthreadV p) \<and> tvisproto (setprotoV p) \<and>
    tvisfunc (setfuncV p) \<and> tviscdata (setcdataV p) \<and> tvistab (settabV p) \<and> tvisudata (setudataV p) \<and>
    (\<forall>v \<in> {setstrV p, setthreadV p, setprotoV p, setfuncV p, setcdataV p, settabV p, setudataV p}.
       tvisgcv v \<and> gcval v = p) \<and>
    tvisbool (setboolV b) \<and> boolV (setboolV b) = b \<and> tvisnil setnilV"
proof -
  have "tvisbool (setboolV b) \<and> boolV (setboolV b) = b"
    using setboolV_tag [OF assms(2)] assms(2) by (auto simp: tvis boolV_def lj_tags)
  then show ?thesis
    using tvalue_classes [of u] tagged_values_roundtrip [OF assms(1)]
    by (simp add: setnilV_def tvisnil_def)
qed

theorem tagged_values_witness:
  "gcval (settabV 0x7f0012345678) = 0x7f0012345678 \<and> boolV (setboolV 1) = 1 \<and> tvisnum 0x3ff0000000000000"
  using tagged_values [of "0x7f0012345678" 1 "0x3ff0000000000000"]
  by (simp add: tvis lj_tags itype_def)

end
