(* ===== verification/LJ_Object.thy ===== *)
theory LJ_Object
  imports LJ_Layout LJ_Value
begin

text \<open>
  The accessor macros of \<open>LuaJit/include/lj_obj.h\<close> on the memory of \<open>LJ_Layout\<close>: references,
  payloads and sizes of objects, constants of prototypes, closures, tables, the roots and the hook
  state of the global state, and the current function of a thread.
\<close>

section \<open>Memory\<close>

type_synonym mem = "64 word \<Rightarrow> 8 word"

fun mload :: "nat \<Rightarrow> mem \<Rightarrow> 64 word \<Rightarrow> 64 word" where
  "mload 0 m a = 0"
| "mload (Suc n) m a = ucast (m a) OR push_bit 8 (mload n m (a + 1))"

fun mstore :: "nat \<Rightarrow> mem \<Rightarrow> 64 word \<Rightarrow> 64 word \<Rightarrow> mem" where
  "mstore 0 m a v = m"
| "mstore (Suc n) m a v = mstore n (m(a := ucast v)) (a + 1) (drop_bit 8 v)"

definition fld :: "field list \<Rightarrow> string \<Rightarrow> 64 word \<Rightarrow> 64 word" where
  "fld S f a = a + of_nat (offsetof S f)"

abbreviation szof :: "field list \<Rightarrow> 64 word" where "szof S \<equiv> of_nat (sizeof S)"

lemma bit_ld: "bit (mload n m a) k \<longleftrightarrow> k < 64 \<and> k < 8 * n \<and> bit (m (a + of_nat (k div 8))) (k mod 8)"
proof (induction n arbitrary: a k)
  case (Suc n)
  show ?case
  proof (cases "k < 8")
    case True
    then show ?thesis by (simp add: bit_or_iff bit_push_bit_iff bit_unsigned_iff)
  next
    case False
    then have d: "k div 8 = Suc ((k - 8) div 8)" "k mod 8 = (k - 8) mod 8"
      by (simp_all add: le_div_geq le_mod_geq not_less)
    have "\<not> bit (m a) k" using False bit_imp_le_length [of "m a" k] by auto
    then show ?thesis using False Suc [of "a + 1" "k - 8"] d
      by (auto simp: bit_or_iff bit_push_bit_iff bit_unsigned_iff algebra_simps)
  qed
qed simp

lemma st_other: "(\<And>i. i < n \<Longrightarrow> b \<noteq> a + of_nat i) \<Longrightarrow> mstore n m a v b = m b"
proof (induction n arbitrary: m a v)
  case (Suc n)
  have "b \<noteq> a" using Suc.prems [of 0] by simp
  moreover have "b \<noteq> a + 1 + of_nat i" if "i < n" for i
    using Suc.prems [of "Suc i"] that by (simp add: algebra_simps)
  ultimately show ?case using Suc.IH [of "a + 1"] by simp
qed simp

lemma st_byte:
  "i < n \<Longrightarrow> n \<le> 8 \<Longrightarrow> mstore n m a v (a + of_nat i) = ucast (drop_bit (8 * i) v)"
proof (induction n arbitrary: m a v i)
  case (Suc n)
  show ?case
  proof (cases i)
    case 0
    have "mstore n (m(a := ucast v)) (a + 1) (drop_bit 8 v) a = (m(a := ucast v)) a"
    proof (rule st_other)
      fix j assume "j < n"
      then have "unat (1 + of_nat j :: 64 word) = Suc j"
        using Suc.prems(2) by (simp add: unat_word_ariths unat_of_nat)
      then show "a \<noteq> a + 1 + of_nat j" by (auto simp: add.assoc)
    qed
    then show ?thesis using 0 by simp
  next
    case (Suc j)
    then show ?thesis using Suc.IH [of j "m(a := ucast v)" "a + 1" "drop_bit 8 v"] Suc.prems
      by (simp add: algebra_simps del: fun_upd_apply)
  qed
qed simp

text \<open>What is stored is loaded, and a load elsewhere does not see the store.\<close>

lemma ld_st_same: "n \<le> 8 \<Longrightarrow> mload n (mstore n m a v) a = take_bit (8 * n) v"
proof (rule bit_word_eqI)
  fix k assume n: "n \<le> 8" and k: "k < LENGTH(64)"
  have "8 * (k div 8) + k mod 8 = k" by simp
  then show "bit (mload n (mstore n m a v) a) k = bit (take_bit (8 * n) v) k"
    using n k by (auto simp: bit_ld st_byte bit_take_bit_iff bit_unsigned_iff bit_drop_bit_eq)
qed

lemma ld_st_other:
  "(\<And>i j. i < n \<Longrightarrow> j < k \<Longrightarrow> b + of_nat j \<noteq> a + of_nat i) \<Longrightarrow> mload k (mstore n m a v) b = mload k m b"
proof (rule bit_word_eqI)
  fix x assume d: "\<And>i j. i < n \<Longrightarrow> j < k \<Longrightarrow> b + of_nat j \<noteq> a + of_nat i" and "x < LENGTH(64)"
  have "mstore n m a v (b + of_nat (x div 8)) = m (b + of_nat (x div 8))" if "x < 8 * k"
    using that d [of _ "x div 8"] by (intro st_other) (auto simp: div_less_iff_less_mult)
  then show "bit (mload k (mstore n m a v) b) x = bit (mload k m b) x" by (auto simp: bit_ld)
qed

section \<open>References\<close>

definition mref :: "mem \<Rightarrow> 64 word \<Rightarrow> 64 word" where "mref m r = mload 8 m r"

definition setmref :: "mem \<Rightarrow> 64 word \<Rightarrow> 64 word \<Rightarrow> mem" where "setmref m r p = mstore 8 m r p"

definition setmrefu :: "mem \<Rightarrow> 64 word \<Rightarrow> 64 word \<Rightarrow> mem" where "setmrefu m r u = mstore 8 m r u"

definition setmrefr :: "mem \<Rightarrow> 64 word \<Rightarrow> 64 word \<Rightarrow> mem" where "setmrefr m r v = mstore 8 m r (mload 8 m v)"

definition gcref :: "mem \<Rightarrow> 64 word \<Rightarrow> 64 word" where "gcref m r = mload 8 m r"

definition gcrefeq :: "mem \<Rightarrow> 64 word \<Rightarrow> 64 word \<Rightarrow> bool" where
  "gcrefeq m r1 r2 \<longleftrightarrow> mload 8 m r1 = mload 8 m r2"

definition setgcref :: "mem \<Rightarrow> 64 word \<Rightarrow> 64 word \<Rightarrow> mem" where "setgcref m r gc = mstore 8 m r gc"

definition setgcrefp :: "mem \<Rightarrow> 64 word \<Rightarrow> 64 word \<Rightarrow> mem" where "setgcrefp m r p = mstore 8 m r p"

definition setgcrefnull :: "mem \<Rightarrow> 64 word \<Rightarrow> mem" where "setgcrefnull m r = mstore 8 m r 0"

definition setgcrefr :: "mem \<Rightarrow> 64 word \<Rightarrow> 64 word \<Rightarrow> mem" where
  "setgcrefr m r v = mstore 8 m r (mload 8 m v)"

definition gcnext :: "mem \<Rightarrow> 64 word \<Rightarrow> 64 word" where
  "gcnext m gc = gcref m (fld GChead_s ''nextgc'' gc)"

lemma setgcref_gcref: "gcref (setgcref m r gc) r = gc" "gcref (setgcrefr m r v) r = gcref m v"
  by (simp_all add: gcref_def setgcref_def setgcrefr_def ld_st_same take_bit_word_eq_self del: mload.simps mstore.simps)

section \<open>Strings, userdata and C data\<close>

definition strdata :: "64 word \<Rightarrow> 64 word" where "strdata s = s + szof GCstr_s"

definition strVdata :: "64 word \<Rightarrow> 64 word" where "strVdata u = strdata (gcval u)"

definition uddata :: "64 word \<Rightarrow> 64 word" where "uddata u = u + szof GCudata_s"

definition sizeudata :: "mem \<Rightarrow> 64 word \<Rightarrow> 64 word" where
  "sizeudata m u = szof GCudata_s + mload 4 m (fld GCudata_s ''len'' u)"

definition cdataptr :: "64 word \<Rightarrow> 64 word" where "cdataptr cd = cd + szof GCcdata_s"

definition cdataisv :: "mem \<Rightarrow> 64 word \<Rightarrow> bool" where
  "cdataisv m cd \<longleftrightarrow> mload 1 m (fld GCcdata_s ''marked'' cd) AND 0x80 \<noteq> 0"

definition cdatav :: "64 word \<Rightarrow> 64 word" where "cdatav cd = cd - szof GCcdataVar_s"

definition cdatavlen :: "mem \<Rightarrow> 64 word \<Rightarrow> 64 word" where
  "cdatavlen m cd = mload 4 m (fld GCcdataVar_s ''len'' (cdatav cd))"

definition sizecdatav :: "mem \<Rightarrow> 64 word \<Rightarrow> 64 word" where
  "sizecdatav m cd = cdatavlen m cd + mload 2 m (fld GCcdataVar_s ''extra'' (cdatav cd))"

definition memcdatav :: "mem \<Rightarrow> 64 word \<Rightarrow> 64 word" where
  "memcdatav m cd = cd - mload 2 m (fld GCcdataVar_s ''offset'' (cdatav cd))"

section \<open>Prototypes\<close>

definition SCALE_NUM_GCO :: nat where "SCALE_NUM_GCO = 8 div 8"

definition round_nkgc :: "nat \<Rightarrow> nat" where
  "round_nkgc n = (n + SCALE_NUM_GCO - 1) div SCALE_NUM_GCO * SCALE_NUM_GCO"

text \<open>
  The constants of a prototype surround the address \<open>k\<close>: collectable ones at negative indices,
  numbers at the others. An index out of the bounds of the checks is \<open>None\<close>.
\<close>

definition proto_kgc :: "mem \<Rightarrow> 64 word \<Rightarrow> int \<Rightarrow> 64 word option" where
  "proto_kgc m pt idx =
     (if word_of_int idx \<ge> NOT (mload 4 m (fld GCproto_s ''sizekgc'' pt)) + 1
      then Some (gcref m (mref m (fld GCproto_s ''k'' pt) + 8 * word_of_int idx)) else None)"

definition proto_knumtv :: "mem \<Rightarrow> 64 word \<Rightarrow> int \<Rightarrow> 64 word option" where
  "proto_knumtv m pt idx =
     (if word_of_int idx < mload 4 m (fld GCproto_s ''sizekn'' pt)
      then Some (mref m (fld GCproto_s ''k'' pt) + 8 * word_of_int idx) else None)"

definition proto_bc :: "64 word \<Rightarrow> 64 word" where "proto_bc pt = pt + szof GCproto_s"

definition proto_bcpos :: "64 word \<Rightarrow> 64 word \<Rightarrow> 32 word" where
  "proto_bcpos pt pc = ucast (signed_drop_bit 2 (pc - proto_bc pt))"

definition proto_uv :: "mem \<Rightarrow> 64 word \<Rightarrow> 64 word" where
  "proto_uv m pt = mref m (fld GCproto_s ''uv'' pt)"

definition proto_chunkname :: "mem \<Rightarrow> 64 word \<Rightarrow> 64 word" where
  "proto_chunkname m pt = gcref m (fld GCproto_s ''chunkname'' pt)"

definition proto_chunknamestr :: "mem \<Rightarrow> 64 word \<Rightarrow> 64 word" where
  "proto_chunknamestr m pt = strdata (proto_chunkname m pt)"

definition proto_lineinfo :: "mem \<Rightarrow> 64 word \<Rightarrow> 64 word" where
  "proto_lineinfo m pt = mref m (fld GCproto_s ''lineinfo'' pt)"

definition proto_uvinfo :: "mem \<Rightarrow> 64 word \<Rightarrow> 64 word" where
  "proto_uvinfo m pt = mref m (fld GCproto_s ''uvinfo'' pt)"

definition proto_varinfo :: "mem \<Rightarrow> 64 word \<Rightarrow> 64 word" where
  "proto_varinfo m pt = mref m (fld GCproto_s ''varinfo'' pt)"

section \<open>Upvalues, closures and tables\<close>

definition uvprev :: "mem \<Rightarrow> 64 word \<Rightarrow> 64 word" where
  "uvprev m uv = gcref m (fld GCupval_s ''prev'' uv)"

definition uvnext :: "mem \<Rightarrow> 64 word \<Rightarrow> 64 word" where
  "uvnext m uv = gcref m (fld GCupval_s ''next'' uv)"

definition uvval :: "mem \<Rightarrow> 64 word \<Rightarrow> 64 word" where
  "uvval m uv = mref m (fld GCupval_s ''v'' uv)"

definition FF_LUA :: "64 word" where "FF_LUA = 0"

definition FF_C :: "64 word" where "FF_C = 1"

definition isluafunc :: "mem \<Rightarrow> 64 word \<Rightarrow> bool" where
  "isluafunc m fn \<longleftrightarrow> mload 1 m (fld GCfuncC_s ''ffid'' fn) = FF_LUA"

definition iscfunc :: "mem \<Rightarrow> 64 word \<Rightarrow> bool" where
  "iscfunc m fn \<longleftrightarrow> mload 1 m (fld GCfuncC_s ''ffid'' fn) = FF_C"

definition isffunc :: "mem \<Rightarrow> 64 word \<Rightarrow> bool" where
  "isffunc m fn \<longleftrightarrow> mload 1 m (fld GCfuncC_s ''ffid'' fn) > FF_C"

definition funcproto :: "mem \<Rightarrow> 64 word \<Rightarrow> 64 word" where
  "funcproto m fn = mref m (fld GCfuncL_s ''pc'' fn) - szof GCproto_s"

definition sizeCfunc :: "nat \<Rightarrow> nat" where
  "sizeCfunc n = sizeof GCfuncC_s - sizeof TValue_s + sizeof TValue_s * n"

definition sizeLfunc :: "nat \<Rightarrow> nat" where
  "sizeLfunc n = sizeof GCfuncL_s - 8 + 8 * n"

definition sizetabcolo :: "nat \<Rightarrow> nat" where
  "sizetabcolo n = n * sizeof TValue_s + sizeof GCtab_s"

definition tabref :: "mem \<Rightarrow> 64 word \<Rightarrow> 64 word" where "tabref m r = gcref m r"

definition noderef :: "mem \<Rightarrow> 64 word \<Rightarrow> 64 word" where "noderef m r = mref m r"

definition nextnode :: "mem \<Rightarrow> 64 word \<Rightarrow> 64 word" where
  "nextnode m n = mref m (fld Node_s ''next'' n)"

definition getfreetop :: "mem \<Rightarrow> 64 word \<Rightarrow> 64 word" where
  "getfreetop m t = noderef m (fld GCtab_s ''freetop'' t)"

definition setfreetop :: "mem \<Rightarrow> 64 word \<Rightarrow> 64 word \<Rightarrow> mem" where
  "setfreetop m t v = setmref m (fld GCtab_s ''freetop'' t) v"

lemma closure_partition:
  "(isluafunc m fn \<or> iscfunc m fn \<or> isffunc m fn) \<and> \<not> (isluafunc m fn \<and> iscfunc m fn) \<and>
   \<not> (isffunc m fn \<and> (isluafunc m fn \<or> iscfunc m fn))"
  by (auto simp: isluafunc_def iscfunc_def isffunc_def FF_LUA_def FF_C_def word_less_nat_alt
      unat_eq_zero gr0_conv_Suc not_less less_Suc_eq_le simp del: mload.simps)
    (metis One_nat_def le_Suc_eq le_zero_eq unat_1 unat_eq_zero word_unat_eq_iff)

lemma getfreetop_set: "getfreetop (setfreetop m t v) t = v"
  by (simp add: getfreetop_def setfreetop_def noderef_def mref_def setmref_def ld_st_same
      take_bit_word_eq_self del: mload.simps mstore.simps)

text \<open>A function's prototype is found below its bytecode.\<close>

lemma funcproto_proto_bc:
  "mref m (fld GCfuncL_s ''pc'' fn) = proto_bc pt \<Longrightarrow> funcproto m fn = pt"
  by (simp add: funcproto_def proto_bc_def)

section \<open>Objects by their type tag\<close>

definition gct_of :: "mem \<Rightarrow> 64 word \<Rightarrow> 8 word" where
  "gct_of m obj = m (fld GChead_s ''gct'' obj)"

definition gco2 :: "32 word \<Rightarrow> mem \<Rightarrow> 64 word \<Rightarrow> 64 word option" where
  "gco2 tag m obj = (if gct_of m obj = ucast (NOT tag) then Some obj else None)"

definition gco2str :: "mem \<Rightarrow> 64 word \<Rightarrow> 64 word option" where "gco2str = gco2 LJ_TSTR"

definition gco2uv :: "mem \<Rightarrow> 64 word \<Rightarrow> 64 word option" where "gco2uv = gco2 LJ_TUPVAL"

definition gco2th :: "mem \<Rightarrow> 64 word \<Rightarrow> 64 word option" where "gco2th = gco2 LJ_TTHREAD"

definition gco2pt :: "mem \<Rightarrow> 64 word \<Rightarrow> 64 word option" where "gco2pt = gco2 LJ_TPROTO"

definition gco2func :: "mem \<Rightarrow> 64 word \<Rightarrow> 64 word option" where "gco2func = gco2 LJ_TFUNC"

definition gco2cd :: "mem \<Rightarrow> 64 word \<Rightarrow> 64 word option" where "gco2cd = gco2 LJ_TCDATA"

definition gco2tab :: "mem \<Rightarrow> 64 word \<Rightarrow> 64 word option" where "gco2tab = gco2 LJ_TTAB"

definition gco2ud :: "mem \<Rightarrow> 64 word \<Rightarrow> 64 word option" where "gco2ud = gco2 LJ_TUDATA"

section \<open>The global state and the running function\<close>

definition gcroot :: "64 word \<Rightarrow> 64 word \<Rightarrow> 64 word" where
  "gcroot g i = fld global_State_s ''gcroot'' g + 8 * i"

definition basemt_it :: "64 word \<Rightarrow> 32 word \<Rightarrow> 64 word" where
  "basemt_it g it = gcroot g (of_nat GCROOT_BASEMT + ucast (NOT it))"

definition basemt_obj :: "64 word \<Rightarrow> 64 word \<Rightarrow> 64 word" where
  "basemt_obj g u = gcroot g (of_nat GCROOT_BASEMT + ucast (itypemap u))"

definition mmname_str :: "mem \<Rightarrow> 64 word \<Rightarrow> nat \<Rightarrow> 64 word" where
  "mmname_str m g mm = gcref m (gcroot g (of_nat (GCROOT_MMNAME + mm)))"

definition mainthread :: "mem \<Rightarrow> 64 word \<Rightarrow> 64 word" where
  "mainthread m g = gcref m (fld global_State_s ''mainthref'' g)"

definition G :: "mem \<Rightarrow> 64 word \<Rightarrow> 64 word" where "G m L = mref m (fld lua_State_s ''glref'' L)"

definition registry :: "mem \<Rightarrow> 64 word \<Rightarrow> 64 word" where
  "registry m L = fld global_State_s ''registrytv'' (G m L)"

definition niltvg :: "64 word \<Rightarrow> 64 word" where
  "niltvg g = fld Node_s ''val'' (fld global_State_s ''nilnode'' g)"

definition niltv :: "mem \<Rightarrow> 64 word \<Rightarrow> 64 word" where "niltv m L = niltvg (G m L)"

definition L_base :: "mem \<Rightarrow> 64 word \<Rightarrow> 64 word" where
  "L_base m L = mload 8 m (fld lua_State_s ''base'' L)"

definition curr_func :: "mem \<Rightarrow> 64 word \<Rightarrow> 64 word" where
  "curr_func m L = gcval (mload 8 m (L_base m L - 2 * 8))"

definition curr_funcisL :: "mem \<Rightarrow> 64 word \<Rightarrow> bool" where
  "curr_funcisL m L = isluafunc m (curr_func m L)"

definition curr_proto :: "mem \<Rightarrow> 64 word \<Rightarrow> 64 word" where
  "curr_proto m L = funcproto m (curr_func m L)"

definition curr_topL :: "mem \<Rightarrow> 64 word \<Rightarrow> 64 word" where
  "curr_topL m L = L_base m L + 8 * mload 1 m (fld GCproto_s ''framesize'' (curr_proto m L))"

definition curr_top :: "mem \<Rightarrow> 64 word \<Rightarrow> 64 word" where
  "curr_top m L = (if curr_funcisL m L then curr_topL m L else mload 8 m (fld lua_State_s ''top'' L))"

section \<open>Hooks\<close>

text \<open>The operations on the hook mask of the global state, as functions on the mask.\<close>

definition HOOK_EVENTMASK :: "8 word" where "HOOK_EVENTMASK = 0x0f"

definition HOOK_ACTIVE :: "8 word" where "HOOK_ACTIVE = 0x10"

definition HOOK_VMEVENT :: "8 word" where "HOOK_VMEVENT = 0x20"

definition HOOK_GC :: "8 word" where "HOOK_GC = 0x40"

definition HOOK_PROFILE :: "8 word" where "HOOK_PROFILE = 0x80"

definition hook_active :: "8 word \<Rightarrow> bool" where "hook_active h \<longleftrightarrow> h AND HOOK_ACTIVE \<noteq> 0"

definition hook_enter :: "8 word \<Rightarrow> 8 word" where "hook_enter h = h OR HOOK_ACTIVE"

definition hook_entergc :: "8 word \<Rightarrow> 8 word" where
  "hook_entergc h = (h OR (HOOK_ACTIVE OR HOOK_GC)) AND NOT HOOK_PROFILE"

definition hook_vmevent :: "8 word \<Rightarrow> 8 word" where "hook_vmevent h = h OR (HOOK_ACTIVE OR HOOK_VMEVENT)"

definition hook_leave :: "8 word \<Rightarrow> 8 word" where "hook_leave h = h AND NOT HOOK_ACTIVE"

definition hook_save :: "8 word \<Rightarrow> 8 word" where "hook_save h = h AND NOT HOOK_EVENTMASK"

definition hook_restore :: "8 word \<Rightarrow> 8 word \<Rightarrow> 8 word" where
  "hook_restore h old = (h AND HOOK_EVENTMASK) OR old"

lemmas hooks = HOOK_EVENTMASK_def HOOK_ACTIVE_def HOOK_VMEVENT_def HOOK_GC_def HOOK_PROFILE_def
  hook_active_def hook_enter_def hook_entergc_def hook_vmevent_def hook_leave_def hook_save_def
  hook_restore_def

text \<open>
  Saving the flags and restoring them after any of the changes gives back the flags, with the
  event mask as it is then.
\<close>

lemma hook_save_restore:
  "hook_restore (hook_entergc h) (hook_save h) = h"
  "hook_restore (hook_leave (hook_enter h)) (hook_save h) = h"
  "hook_restore (hook_vmevent h) (hook_save h) = h"
  "hook_active (hook_enter h)" "\<not> hook_active (hook_leave h)"
proof -
  have e: "HOOK_EVENTMASK = mask 4" "HOOK_ACTIVE = push_bit 4 1" "HOOK_VMEVENT = push_bit 5 1"
    "HOOK_GC = push_bit 6 1" "HOOK_PROFILE = push_bit 7 1"
    by (simp_all add: hooks mask_eq_exp_minus_1)
  note b = bit_and_iff bit_or_iff bit_not_iff bit_mask_iff bit_push_bit_iff bit_1_iff
  show "hook_restore (hook_entergc h) (hook_save h) = h"
    "hook_restore (hook_leave (hook_enter h)) (hook_save h) = h"
    "hook_restore (hook_vmevent h) (hook_save h) = h"
    unfolding hook_restore_def hook_entergc_def hook_save_def hook_leave_def hook_enter_def hook_vmevent_def e
    by (rule bit_word_eqI, simp only: b, force)+
  have "bit (hook_enter h AND HOOK_ACTIVE) 4" unfolding hook_enter_def e by (simp only: b) simp
  then show "hook_active (hook_enter h)" unfolding hook_active_def by (metis bit_0_eq bot_apply bot_bool_def)
  show "\<not> hook_active (hook_leave h)"
    unfolding hook_active_def hook_leave_def by (simp add: and.assoc)
qed

end
