(* ===== verification/LJ_IR.thy ===== *)
theory LJ_IR
  imports LJ_Object
begin

text \<open>
  \<open>LuaJit/include/lj_ir.h\<close>: the intermediate code of traces. The instruction table and the type
  table are kept as lists in the order of the source, so the number of an opcode, a field
  or a type is its position; an instruction is the word of 64 bits its union overlays.
\<close>

section \<open>Instructions\<close>

datatype IRMode = IRMref | IRMlit | IRMcst | IRMnone

fun irmode_num :: "IRMode \<Rightarrow> 8 word" where
  "irmode_num IRMref = 0" | "irmode_num IRMlit = 1" | "irmode_num IRMcst = 2" | "irmode_num IRMnone = 3"

definition IRM_C :: "8 word" where "IRM_C = 0x10"

definition IRM_N :: "8 word" where "IRM_N = 0x00"

definition IRM_R :: "8 word" where "IRM_R = IRM_N"

definition IRM_A :: "8 word" where "IRM_A = 0x20"

definition IRM_L :: "8 word" where "IRM_L = 0x40"

definition IRM_S :: "8 word" where "IRM_S = 0x60"

definition IRM_W :: "8 word" where "IRM_W = 0x80"

definition IRM_NW :: "8 word" where "IRM_NW = IRM_N OR IRM_W"

definition IRM_CW :: "8 word" where "IRM_CW = IRM_C OR IRM_W"

definition IRM_AW :: "8 word" where "IRM_AW = IRM_A OR IRM_W"

definition IRM_LW :: "8 word" where "IRM_LW = IRM_L OR IRM_W"

lemmas irm = IRM_C_def IRM_N_def IRM_R_def IRM_A_def IRM_L_def IRM_S_def IRM_W_def IRM_NW_def
  IRM_CW_def IRM_AW_def IRM_LW_def

definition IRDEF :: "(string \<times> 8 word \<times> IRMode \<times> IRMode) list" where
  "IRDEF =
    [(''LT'', IRM_N, IRMref, IRMref), (''GE'', IRM_N, IRMref, IRMref),
     (''LE'', IRM_N, IRMref, IRMref), (''GT'', IRM_N, IRMref, IRMref),
     (''ULT'', IRM_N, IRMref, IRMref), (''UGE'', IRM_N, IRMref, IRMref),
     (''ULE'', IRM_N, IRMref, IRMref), (''UGT'', IRM_N, IRMref, IRMref),
     (''EQ'', IRM_C, IRMref, IRMref), (''NE'', IRM_C, IRMref, IRMref),
     (''ABC'', IRM_N, IRMref, IRMref), (''RETF'', IRM_S, IRMref, IRMref),
     (''NOP'', IRM_N, IRMnone, IRMnone), (''BASE'', IRM_N, IRMlit, IRMlit),
     (''PVAL'', IRM_N, IRMlit, IRMnone), (''GCSTEP'', IRM_S, IRMnone, IRMnone),
     (''HIOP'', IRM_S, IRMref, IRMref), (''LOOP'', IRM_S, IRMnone, IRMnone),
     (''USE'', IRM_S, IRMref, IRMnone), (''PHI'', IRM_S, IRMref, IRMref),
     (''RENAME'', IRM_S, IRMref, IRMlit), (''PROF'', IRM_S, IRMnone, IRMnone),
     (''KPRI'', IRM_N, IRMnone, IRMnone), (''KINT'', IRM_N, IRMcst, IRMnone),
     (''KGC'', IRM_N, IRMcst, IRMnone), (''KPTR'', IRM_N, IRMcst, IRMnone),
     (''KKPTR'', IRM_N, IRMcst, IRMnone), (''KNULL'', IRM_N, IRMcst, IRMnone),
     (''KNUM'', IRM_N, IRMcst, IRMnone), (''KINT64'', IRM_N, IRMcst, IRMnone),
     (''KSLOT'', IRM_N, IRMref, IRMlit), (''BNOT'', IRM_N, IRMref, IRMnone),
     (''BSWAP'', IRM_N, IRMref, IRMnone), (''BAND'', IRM_C, IRMref, IRMref),
     (''BOR'', IRM_C, IRMref, IRMref), (''BXOR'', IRM_C, IRMref, IRMref),
     (''BSHL'', IRM_N, IRMref, IRMref), (''BSHR'', IRM_N, IRMref, IRMref),
     (''BSAR'', IRM_N, IRMref, IRMref), (''BROL'', IRM_N, IRMref, IRMref),
     (''BROR'', IRM_N, IRMref, IRMref), (''ADD'', IRM_C, IRMref, IRMref),
     (''SUB'', IRM_N, IRMref, IRMref), (''MUL'', IRM_C, IRMref, IRMref),
     (''DIV'', IRM_N, IRMref, IRMref), (''MOD'', IRM_N, IRMref, IRMref),
     (''POW'', IRM_N, IRMref, IRMref), (''NEG'', IRM_N, IRMref, IRMref),
     (''ABS'', IRM_N, IRMref, IRMref), (''LDEXP'', IRM_N, IRMref, IRMref),
     (''MIN'', IRM_N, IRMref, IRMref), (''MAX'', IRM_N, IRMref, IRMref),
     (''FPMATH'', IRM_N, IRMref, IRMlit), (''ADDOV'', IRM_CW, IRMref, IRMref),
     (''SUBOV'', IRM_NW, IRMref, IRMref), (''MULOV'', IRM_CW, IRMref, IRMref),
     (''AREF'', IRM_R, IRMref, IRMref), (''HREFK'', IRM_R, IRMref, IRMref),
     (''HREF'', IRM_L, IRMref, IRMref), (''NEWREF'', IRM_S, IRMref, IRMref),
     (''UREFO'', IRM_LW, IRMref, IRMlit), (''UREFC'', IRM_LW, IRMref, IRMlit),
     (''FREF'', IRM_R, IRMref, IRMlit), (''TMPREF'', IRM_S, IRMref, IRMlit),
     (''STRREF'', IRM_N, IRMref, IRMref), (''LREF'', IRM_L, IRMnone, IRMnone),
     (''ALOAD'', IRM_L, IRMref, IRMnone), (''HLOAD'', IRM_L, IRMref, IRMnone),
     (''ULOAD'', IRM_L, IRMref, IRMnone), (''FLOAD'', IRM_L, IRMref, IRMlit),
     (''XLOAD'', IRM_L, IRMref, IRMlit), (''SLOAD'', IRM_L, IRMlit, IRMlit),
     (''VLOAD'', IRM_L, IRMref, IRMlit), (''ALEN'', IRM_L, IRMref, IRMref),
     (''ASTORE'', IRM_S, IRMref, IRMref), (''HSTORE'', IRM_S, IRMref, IRMref),
     (''USTORE'', IRM_S, IRMref, IRMref), (''FSTORE'', IRM_S, IRMref, IRMref),
     (''XSTORE'', IRM_S, IRMref, IRMref), (''SNEW'', IRM_N, IRMref, IRMref),
     (''XSNEW'', IRM_A, IRMref, IRMref), (''TNEW'', IRM_AW, IRMlit, IRMlit),
     (''TDUP'', IRM_AW, IRMref, IRMnone), (''CNEW'', IRM_AW, IRMref, IRMref),
     (''CNEWI'', IRM_NW, IRMref, IRMref), (''BUFHDR'', IRM_L, IRMref, IRMlit),
     (''BUFPUT'', IRM_LW, IRMref, IRMref), (''BUFSTR'', IRM_AW, IRMref, IRMref),
     (''TBAR'', IRM_S, IRMref, IRMnone), (''OBAR'', IRM_S, IRMref, IRMref),
     (''XBAR'', IRM_S, IRMnone, IRMnone), (''CONV'', IRM_N, IRMref, IRMlit),
     (''TOBIT'', IRM_N, IRMref, IRMref), (''TOSTR'', IRM_N, IRMref, IRMlit),
     (''STRTO'', IRM_N, IRMref, IRMnone), (''CALLN'', IRM_NW, IRMref, IRMlit),
     (''CALLA'', IRM_AW, IRMref, IRMlit), (''CALLL'', IRM_LW, IRMref, IRMlit),
     (''CALLS'', IRM_S, IRMref, IRMlit), (''CALLXS'', IRM_S, IRMref, IRMref),
     (''CARG'', IRM_N, IRMref, IRMref)]"


definition IR :: "string \<Rightarrow> nat" where
  "IR name = length (takeWhile (\<lambda>n. n \<noteq> name) (List.map fst IRDEF))"

definition IR__MAX :: nat where "IR__MAX = length IRDEF"

definition IRMODE :: "string \<times> 8 word \<times> IRMode \<times> IRMode \<Rightarrow> 8 word" where
  "IRMODE = (\<lambda>(name, m, m1, m2). (irmode_num m1 OR push_bit 2 (irmode_num m2) OR m) XOR IRM_W)"

definition lj_ir_mode :: "8 word list" where
  "lj_ir_mode = List.map IRMODE IRDEF"

definition irm_op1 :: "8 word \<Rightarrow> 8 word" where "irm_op1 m = m AND 3"

definition irm_op2 :: "8 word \<Rightarrow> 8 word" where "irm_op2 m = drop_bit 2 m AND 3"

definition irm_iscomm :: "8 word \<Rightarrow> bool" where "irm_iscomm m \<longleftrightarrow> m AND IRM_C \<noteq> 0"

definition irm_kind :: "8 word \<Rightarrow> 8 word" where "irm_kind m = m AND IRM_S"

definition IRDELTA_L2S :: int where "IRDELTA_L2S = int (IR ''ASTORE'') - int (IR ''ALOAD'')"

text \<open>Every opcode's packed mode gives back the operand modes of its row.\<close>

lemma irmode_row:
  assumes "m AND 15 = 0"
  shows "irm_op1 (IRMODE (name, m, m1, m2)) = irmode_num m1" "irm_op2 (IRMODE (name, m, m1, m2)) = irmode_num m2"
    "irm_kind (IRMODE (name, m, m1, m2)) = m AND IRM_S"
    "irm_iscomm (IRMODE (name, m, m1, m2)) = (m AND IRM_C \<noteq> 0)"
proof -
  let ?b = "irmode_num m1 OR push_bit 2 (irmode_num m2)"
  have c: "(15 :: 8 word) = mask 4" "(3 :: 8 word) = mask 2" "(0x60 :: 8 word) = push_bit 5 (mask 2)"
    "(0x80 :: 8 word) = push_bit 7 1" "(0x10 :: 8 word) = push_bit 4 1"
    by (simp_all add: mask_eq_exp_minus_1)
  have m: "\<not> bit m k" if "k < 4" for k
    using arg_cong [OF assms, of "\<lambda>w. bit w k"] that unfolding c by (auto simp: bit_and_iff bit_mask_iff)
  have "take_bit 4 ?b = ?b" by (cases m1; cases m2; simp)
  then have b: "\<not> bit ?b k" if "4 \<le> k" for k using that by (metis bit_take_bit_iff not_le)
  have bm: "bit (IRMODE (name, m, m1, m2)) k \<longleftrightarrow> k < 8 \<and> ((bit ?b k \<or> bit m k) \<noteq> (k = 7))" for k
    unfolding IRMODE_def IRM_W_def c prod.case bit_xor_iff bit_or_iff bit_push_bit_iff bit_1_iff
    by (auto dest: bit_imp_le_length)
  have n: "take_bit 2 (irmode_num x) = irmode_num x" for x by (cases x) simp_all
  then have nb: "\<not> bit (irmode_num x) k" if "2 \<le> k" for x k using that by (metis bit_take_bit_iff not_le)
  have nb2: "bit (irmode_num x) k \<Longrightarrow> k < 2" for x k using nb by (meson not_le)
  show "irm_op1 (IRMODE (name, m, m1, m2)) = irmode_num m1"
    unfolding irm_op1_def c
    by (rule bit_word_eqI)
      (use m in \<open>auto simp: bit_and_iff bit_mask_iff bm bit_or_iff bit_push_bit_iff dest: nb2\<close>)
  show "irm_op2 (IRMODE (name, m, m1, m2)) = irmode_num m2"
    unfolding irm_op2_def c
    by (rule bit_word_eqI)
      (use m nb in \<open>auto simp: bit_and_iff bit_mask_iff bit_drop_bit_eq bm bit_or_iff bit_push_bit_iff dest: nb2\<close>)
  show "irm_kind (IRMODE (name, m, m1, m2)) = m AND IRM_S"
    unfolding irm_kind_def IRM_S_def c
    by (rule bit_word_eqI) (use b in \<open>auto simp: bit_and_iff bit_push_bit_iff bit_mask_iff bm\<close>)
  have "IRMODE (name, m, m1, m2) AND IRM_C = m AND IRM_C"
    unfolding IRM_C_def c
    by (rule bit_word_eqI)
      (use b in \<open>auto simp only: bit_and_iff bit_push_bit_iff bit_1_iff bm possible_bit_word\<close>)
  then show "irm_iscomm (IRMODE (name, m, m1, m2)) = (m AND IRM_C \<noteq> 0)"
    by (simp add: irm_iscomm_def)
qed

lemma IRDEF_modes: "\<forall>r \<in> set IRDEF. fst (snd r) AND 15 = 0"
  by (simp add: IRDEF_def irm)

lemma IR_nums:
  "IR ''EQ'' = 8"
  "IR ''NE'' = 9"
  "IR ''LT'' = 0"
  "IR ''GE'' = 1"
  "IR ''LE'' = 2"
  "IR ''GT'' = 3"
  "IR ''ULT'' = 4"
  "IR ''ALOAD'' = 66"
  "IR ''HLOAD'' = 67"
  "IR ''ULOAD'' = 68"
  "IR ''FLOAD'' = 69"
  "IR ''XLOAD'' = 70"
  "IR ''ASTORE'' = 74"
  "IR ''HSTORE'' = 75"
  "IR ''USTORE'' = 76"
  "IR ''FSTORE'' = 77"
  "IR ''XSTORE'' = 78"
  "IR ''NOP'' = 12"
  "IR ''KGC'' = 24"
  "IR ''KNUM'' = 28"
  "IR ''KINT64'' = 29"
  "IR ''KPTR'' = 25"
  "IR ''KKPTR'' = 26"
  by (simp_all add: IR_def IRDEF_def)

text \<open>
  Opcodes can be flipped by their number, as the static assertions demand: a comparison and its
  negation differ in bit 0, the swapped one in the two low bits, the unordered one in bit 2,
  and every load is as far from its store as the array load from the array store.
\<close>

theorem ir_opcode_order:
  "IR ''EQ'' XOR 1 = IR ''NE'' \<and> IR ''LT'' XOR 1 = IR ''GE'' \<and> IR ''LE'' XOR 1 = IR ''GT'' \<and>
   IR ''LT'' XOR 3 = IR ''GT'' \<and> IR ''LT'' XOR 4 = IR ''ULT'' \<and>
   int (IR ''HLOAD'') + IRDELTA_L2S = int (IR ''HSTORE'') \<and>
   int (IR ''ULOAD'') + IRDELTA_L2S = int (IR ''USTORE'') \<and>
   int (IR ''FLOAD'') + IRDELTA_L2S = int (IR ''FSTORE'') \<and>
   int (IR ''XLOAD'') + IRDELTA_L2S = int (IR ''XSTORE'') \<and> IR__MAX \<le> 256"
  by (simp add: IR_nums IRDELTA_L2S_def) (simp add: IRDEF_def IR__MAX_def)

section \<open>Literals\<close>

definition IRFPMDEF :: "string list" where
  "IRFPMDEF = [''FLOOR'', ''CEIL'', ''TRUNC'', ''SQRT'', ''LOG'', ''LOG2'', ''OTHER'']"

definition SBufExt_s :: "field list" where
  "SBufExt_s = SBuf_s @ [ptr ''cowref'', ptr ''r'', ptr ''dict_str'', ptr ''dict_mt'', u32 ''depth'']"

definition IRFLDEF :: "(string \<times> nat) list" where
  "IRFLDEF =
    [(''STR_LEN'', offsetof GCstr_s ''len''),
     (''FUNC_ENV'', offsetof GCfuncL_s ''env''),
     (''FUNC_PC'', offsetof GCfuncL_s ''pc''),
     (''FUNC_FFID'', offsetof GCfuncL_s ''ffid''),
     (''THREAD_ENV'', offsetof lua_State_s ''env''),
     (''TAB_META'', offsetof GCtab_s ''metatable''),
     (''TAB_ARRAY'', offsetof GCtab_s ''array''),
     (''TAB_NODE'', offsetof GCtab_s ''node''),
     (''TAB_ASIZE'', offsetof GCtab_s ''asize''),
     (''TAB_HMASK'', offsetof GCtab_s ''hmask''),
     (''TAB_NOMM'', offsetof GCtab_s ''nomm''),
     (''UDATA_META'', offsetof GCudata_s ''metatable''),
     (''UDATA_UDTYPE'', offsetof GCudata_s ''udtype''),
     (''UDATA_FILE'', sizeof GCudata_s),
     (''SBUF_W'', sizeof GCudata_s + offsetof SBufExt_s ''w''),
     (''SBUF_E'', sizeof GCudata_s + offsetof SBufExt_s ''e''),
     (''SBUF_B'', sizeof GCudata_s + offsetof SBufExt_s ''b''),
     (''SBUF_L'', sizeof GCudata_s + offsetof SBufExt_s ''L''),
     (''SBUF_REF'', sizeof GCudata_s + offsetof SBufExt_s ''cowref''),
     (''SBUF_R'', sizeof GCudata_s + offsetof SBufExt_s ''r''),
     (''CDATA_CTYPEID'', offsetof GCcdata_s ''ctypeid''),
     (''CDATA_PTR'', sizeof GCcdata_s),
     (''CDATA_INT'', sizeof GCcdata_s),
     (''CDATA_INT64'', sizeof GCcdata_s),
     (''CDATA_INT64_4'', sizeof GCcdata_s + 4)]"


definition IRCONV_DSH :: nat where "IRCONV_DSH = 5"

definition IRCONV_CSH :: nat where "IRCONV_CSH = 12"

definition IRCONV_SRCMASK :: "32 word" where "IRCONV_SRCMASK = 0x001f"

definition IRCONV_DSTMASK :: "32 word" where "IRCONV_DSTMASK = 0x03e0"

definition IRCONV_SEXT :: "32 word" where "IRCONV_SEXT = 0x0800"

section \<open>Types\<close>

definition IRTDEF :: "(string \<times> nat) list" where
  "IRTDEF =
    [(''NIL'', 4), (''FALSE'', 4), (''TRUE'', 4), (''LIGHTUD'', 8), (''STR'', 8), (''P32'', 4), (''THREAD'', 8), (''PROTO'', 8), (''FUNC'', 8), (''P64'', 8), (''CDATA'', 8), (''TAB'', 8), (''UDATA'', 8), (''FLOAT'', 4), (''NUM'', 8), (''I8'', 1), (''U8'', 1), (''I16'', 2), (''U16'', 2), (''INT'', 4), (''U32'', 4), (''I64'', 8), (''U64'', 8), (''SOFTFP'', 4)]"


definition irt :: "string \<Rightarrow> 8 word" where
  "irt name = of_nat (length (takeWhile (\<lambda>r. fst r \<noteq> name) IRTDEF))"

lemma irt_nums [simp]:
  "irt ''NIL'' = 0"
  "irt ''FALSE'' = 1"
  "irt ''TRUE'' = 2"
  "irt ''LIGHTUD'' = 3"
  "irt ''STR'' = 4"
  "irt ''P32'' = 5"
  "irt ''THREAD'' = 6"
  "irt ''PROTO'' = 7"
  "irt ''FUNC'' = 8"
  "irt ''P64'' = 9"
  "irt ''CDATA'' = 10"
  "irt ''TAB'' = 11"
  "irt ''UDATA'' = 12"
  "irt ''FLOAT'' = 13"
  "irt ''NUM'' = 14"
  "irt ''I8'' = 15"
  "irt ''U8'' = 16"
  "irt ''I16'' = 17"
  "irt ''U16'' = 18"
  "irt ''INT'' = 19"
  "irt ''U32'' = 20"
  "irt ''I64'' = 21"
  "irt ''U64'' = 22"
  "irt ''SOFTFP'' = 23"
  by (simp_all add: irt_def IRTDEF_def)

definition IRT_PTR :: "8 word" where "IRT_PTR = irt ''P64''"

definition IRT_PGC :: "8 word" where "IRT_PGC = irt ''P64''"

definition IRT_IGC :: "8 word" where "IRT_IGC = irt ''I64''"

definition IRT_INTP :: "8 word" where "IRT_INTP = irt ''I64''"

definition IRT_UINTP :: "8 word" where "IRT_UINTP = irt ''U64''"

definition IRT_MARK :: "8 word" where "IRT_MARK = 0x20"

definition IRT_PHI :: "8 word" where "IRT_PHI = 0x40"

definition IRT_GUARD :: "8 word" where "IRT_GUARD = 0x80"

definition IRT_TYPE :: "8 word" where "IRT_TYPE = 0x1f"

definition IRCONV_NUM_INT :: "32 word" where
  "IRCONV_NUM_INT = push_bit IRCONV_DSH (ucast (irt ''NUM'')) OR ucast (irt ''INT'')"

definition IRCONV_INT_NUM :: "32 word" where
  "IRCONV_INT_NUM = push_bit IRCONV_DSH (ucast (irt ''INT'')) OR ucast (irt ''NUM'')"

definition irtype_ispri :: "8 word \<Rightarrow> bool" where "irtype_ispri t \<longleftrightarrow> t \<le> irt ''TRUE''"

definition IRT :: "nat \<Rightarrow> 8 word \<Rightarrow> 32 word" where "IRT op t = push_bit 8 (of_nat op) OR ucast t"

definition IRTI :: "nat \<Rightarrow> 32 word" where "IRTI op = IRT op (irt ''INT'')"

definition IRTN :: "nat \<Rightarrow> 32 word" where "IRTN op = IRT op (irt ''NUM'')"

definition IRTG :: "nat \<Rightarrow> 8 word \<Rightarrow> 32 word" where "IRTG op t = IRT op (IRT_GUARD OR t)"

definition IRTGI :: "nat \<Rightarrow> 32 word" where "IRTGI op = IRT op (IRT_GUARD OR irt ''INT'')"

definition irt_type :: "8 word \<Rightarrow> 8 word" where "irt_type t = t AND IRT_TYPE"

definition irt_sametype :: "8 word \<Rightarrow> 8 word \<Rightarrow> bool" where
  "irt_sametype t1 t2 \<longleftrightarrow> (t1 XOR t2) AND IRT_TYPE = 0"

definition irt_typerange :: "8 word \<Rightarrow> 8 word \<Rightarrow> 8 word \<Rightarrow> bool" where
  "irt_typerange t lo hi \<longleftrightarrow>
     ucast (t AND IRT_TYPE) - ucast lo \<le> (ucast (hi - lo) :: 32 word)"

definition irt_isnil :: "8 word \<Rightarrow> bool" where "irt_isnil t \<longleftrightarrow> irt_type t = irt ''NIL''"

definition irt_islightud :: "8 word \<Rightarrow> bool" where "irt_islightud t \<longleftrightarrow> irt_type t = irt ''LIGHTUD''"

definition irt_isstr :: "8 word \<Rightarrow> bool" where "irt_isstr t \<longleftrightarrow> irt_type t = irt ''STR''"

definition irt_istab :: "8 word \<Rightarrow> bool" where "irt_istab t \<longleftrightarrow> irt_type t = irt ''TAB''"

definition irt_iscdata :: "8 word \<Rightarrow> bool" where "irt_iscdata t \<longleftrightarrow> irt_type t = irt ''CDATA''"

definition irt_isfloat :: "8 word \<Rightarrow> bool" where "irt_isfloat t \<longleftrightarrow> irt_type t = irt ''FLOAT''"

definition irt_isnum :: "8 word \<Rightarrow> bool" where "irt_isnum t \<longleftrightarrow> irt_type t = irt ''NUM''"

definition irt_isint :: "8 word \<Rightarrow> bool" where "irt_isint t \<longleftrightarrow> irt_type t = irt ''INT''"

definition irt_isi8 :: "8 word \<Rightarrow> bool" where "irt_isi8 t \<longleftrightarrow> irt_type t = irt ''I8''"

definition irt_isu8 :: "8 word \<Rightarrow> bool" where "irt_isu8 t \<longleftrightarrow> irt_type t = irt ''U8''"

definition irt_isi16 :: "8 word \<Rightarrow> bool" where "irt_isi16 t \<longleftrightarrow> irt_type t = irt ''I16''"

definition irt_isu16 :: "8 word \<Rightarrow> bool" where "irt_isu16 t \<longleftrightarrow> irt_type t = irt ''U16''"

definition irt_isu32 :: "8 word \<Rightarrow> bool" where "irt_isu32 t \<longleftrightarrow> irt_type t = irt ''U32''"

definition irt_isi64 :: "8 word \<Rightarrow> bool" where "irt_isi64 t \<longleftrightarrow> irt_type t = irt ''I64''"

definition irt_isu64 :: "8 word \<Rightarrow> bool" where "irt_isu64 t \<longleftrightarrow> irt_type t = irt ''U64''"

definition irt_isp32 :: "8 word \<Rightarrow> bool" where "irt_isp32 t \<longleftrightarrow> irt_type t = irt ''P32''"


definition irt_ispri :: "8 word \<Rightarrow> bool" where "irt_ispri t \<longleftrightarrow> irt_type t \<le> irt ''TRUE''"

definition irt_isfp :: "8 word \<Rightarrow> bool" where "irt_isfp t \<longleftrightarrow> irt_isnum t \<or> irt_isfloat t"

definition irt_isinteger :: "8 word \<Rightarrow> bool" where
  "irt_isinteger t \<longleftrightarrow> irt_typerange t (irt ''I8'') (irt ''INT'')"

definition irt_isgcv :: "8 word \<Rightarrow> bool" where
  "irt_isgcv t \<longleftrightarrow> irt_typerange t (irt ''STR'') (irt ''UDATA'')"

definition irt_isaddr :: "8 word \<Rightarrow> bool" where
  "irt_isaddr t \<longleftrightarrow> irt_typerange t (irt ''LIGHTUD'') (irt ''UDATA'')"

definition irt_isint64 :: "8 word \<Rightarrow> bool" where
  "irt_isint64 t \<longleftrightarrow> irt_typerange t (irt ''I64'') (irt ''U64'')"

text \<open>The types of 64 bits as a set of type numbers in a word.\<close>

definition IRT_IS64 :: "32 word" where
  "IRT_IS64 = foldr (\<lambda>n w. push_bit (unat (irt n)) 1 OR w)
     [''NUM'', ''I64'', ''U64'', ''P64'', ''LIGHTUD'', ''STR'', ''THREAD'', ''PROTO'', ''FUNC'', ''CDATA'',
      ''TAB'', ''UDATA'', ''NIL''] 0"

definition irt_is64 :: "8 word \<Rightarrow> bool" where
  "irt_is64 t \<longleftrightarrow> drop_bit (unat (irt_type t)) IRT_IS64 AND 1 = 1"

definition irt_is64orfp :: "8 word \<Rightarrow> bool" where
  "irt_is64orfp t \<longleftrightarrow>
     drop_bit (unat (irt_type t)) (IRT_IS64 OR push_bit (unat (irt ''FLOAT'')) 1) AND 1 = 1"

definition irt_size :: "8 word \<Rightarrow> nat" where "irt_size t = snd (IRTDEF ! unat t)"

definition irt_isguard :: "8 word \<Rightarrow> bool" where "irt_isguard t \<longleftrightarrow> t AND IRT_GUARD \<noteq> 0"

definition irt_ismarked :: "8 word \<Rightarrow> bool" where "irt_ismarked t \<longleftrightarrow> t AND IRT_MARK \<noteq> 0"

definition irt_setmark :: "8 word \<Rightarrow> 8 word" where "irt_setmark t = t OR IRT_MARK"

definition irt_clearmark :: "8 word \<Rightarrow> 8 word" where "irt_clearmark t = t AND NOT IRT_MARK"

definition irt_isphi :: "8 word \<Rightarrow> bool" where "irt_isphi t \<longleftrightarrow> t AND IRT_PHI \<noteq> 0"

definition irt_setphi :: "8 word \<Rightarrow> 8 word" where "irt_setphi t = t OR IRT_PHI"

definition irt_clearphi :: "8 word \<Rightarrow> 8 word" where "irt_clearphi t = t AND NOT IRT_PHI"

definition itype2irt :: "64 word \<Rightarrow> 8 word" where
  "itype2irt tv =
     (if tvisint tv then irt ''INT'' else if tvisnum tv then irt ''NUM''
      else ucast (NOT (itype tv)))"

definition irt_toitype1 :: "8 word \<Rightarrow> 32 word" where
  "irt_toitype1 t = (if False \<and> t > irt ''NUM'' then LJ_TISNUM else NOT (ucast t))"

definition irt_toitype :: "8 word \<Rightarrow> 32 word" where
  "irt_toitype t = irt_toitype1 (irt_type t)"

section \<open>References\<close>

definition REF_BIAS :: "32 word" where "REF_BIAS = 0x8000"

definition REF_FALSE :: "32 word" where "REF_FALSE = REF_BIAS - 2"

definition REF_NIL :: "32 word" where "REF_NIL = REF_BIAS - 1"

definition REF_BASE :: "32 word" where "REF_BASE = REF_BIAS"

definition REF_FIRST :: "32 word" where "REF_FIRST = REF_BIAS + 1"

definition REF_DROP :: "32 word" where "REF_DROP = 0xffff"

definition IRREF2 :: "16 word \<Rightarrow> 16 word \<Rightarrow> 32 word" where
  "IRREF2 lo hi = ucast lo OR push_bit 16 (ucast hi)"

definition irref_isk :: "32 word \<Rightarrow> bool" where "irref_isk r \<longleftrightarrow> r < REF_BIAS"

definition TREF_REFMASK :: "32 word" where "TREF_REFMASK = 0x0000ffff"

definition TREF_FRAME :: "32 word" where "TREF_FRAME = 0x00010000"

definition TREF_CONT :: "32 word" where "TREF_CONT = 0x00020000"

definition TREF_KEYINDEX :: "32 word" where "TREF_KEYINDEX = 0x00100000"

definition TREF :: "32 word \<Rightarrow> 32 word \<Rightarrow> 32 word" where "TREF r t = r + push_bit 24 t"

definition tref_ref :: "32 word \<Rightarrow> 16 word" where "tref_ref tr = ucast tr"

definition tref_t :: "32 word \<Rightarrow> 32 word" where "tref_t tr = drop_bit 24 tr"

definition tref_type :: "32 word \<Rightarrow> 32 word" where "tref_type tr = drop_bit 24 tr AND ucast IRT_TYPE"

definition tref_typerange :: "32 word \<Rightarrow> 32 word \<Rightarrow> 32 word \<Rightarrow> bool" where
  "tref_typerange tr lo hi \<longleftrightarrow> (drop_bit 24 tr AND ucast IRT_TYPE) - lo \<le> hi - lo"

definition tref_istype :: "32 word \<Rightarrow> 32 word \<Rightarrow> bool" where
  "tref_istype tr t \<longleftrightarrow> tr AND push_bit 24 (ucast IRT_TYPE) = push_bit 24 t"

definition tref_isnil :: "32 word \<Rightarrow> bool" where "tref_isnil tr \<longleftrightarrow> tref_istype tr (ucast (irt ''NIL''))"

definition tref_isfalse :: "32 word \<Rightarrow> bool" where "tref_isfalse tr \<longleftrightarrow> tref_istype tr (ucast (irt ''FALSE''))"

definition tref_istrue :: "32 word \<Rightarrow> bool" where "tref_istrue tr \<longleftrightarrow> tref_istype tr (ucast (irt ''TRUE''))"

definition tref_islightud :: "32 word \<Rightarrow> bool" where "tref_islightud tr \<longleftrightarrow> tref_istype tr (ucast (irt ''LIGHTUD''))"

definition tref_isstr :: "32 word \<Rightarrow> bool" where "tref_isstr tr \<longleftrightarrow> tref_istype tr (ucast (irt ''STR''))"

definition tref_isfunc :: "32 word \<Rightarrow> bool" where "tref_isfunc tr \<longleftrightarrow> tref_istype tr (ucast (irt ''FUNC''))"

definition tref_iscdata :: "32 word \<Rightarrow> bool" where "tref_iscdata tr \<longleftrightarrow> tref_istype tr (ucast (irt ''CDATA''))"

definition tref_istab :: "32 word \<Rightarrow> bool" where "tref_istab tr \<longleftrightarrow> tref_istype tr (ucast (irt ''TAB''))"

definition tref_isudata :: "32 word \<Rightarrow> bool" where "tref_isudata tr \<longleftrightarrow> tref_istype tr (ucast (irt ''UDATA''))"

definition tref_isnum :: "32 word \<Rightarrow> bool" where "tref_isnum tr \<longleftrightarrow> tref_istype tr (ucast (irt ''NUM''))"

definition tref_isint :: "32 word \<Rightarrow> bool" where "tref_isint tr \<longleftrightarrow> tref_istype tr (ucast (irt ''INT''))"

definition tref_isbool :: "32 word \<Rightarrow> bool" where
  "tref_isbool tr \<longleftrightarrow> tref_typerange tr (ucast (irt ''FALSE'')) (ucast (irt ''TRUE''))"

definition tref_ispri :: "32 word \<Rightarrow> bool" where
  "tref_ispri tr \<longleftrightarrow> tref_typerange tr (ucast (irt ''NIL'')) (ucast (irt ''TRUE''))"

definition tref_istruecond :: "32 word \<Rightarrow> bool" where
  "tref_istruecond tr \<longleftrightarrow> \<not> tref_typerange tr (ucast (irt ''NIL'')) (ucast (irt ''FALSE''))"

definition tref_isinteger :: "32 word \<Rightarrow> bool" where
  "tref_isinteger tr \<longleftrightarrow> tref_typerange tr (ucast (irt ''I8'')) (ucast (irt ''INT''))"

definition tref_isnumber :: "32 word \<Rightarrow> bool" where
  "tref_isnumber tr \<longleftrightarrow> tref_typerange tr (ucast (irt ''NUM'')) (ucast (irt ''INT''))"

definition tref_isnumber_str :: "32 word \<Rightarrow> bool" where
  "tref_isnumber_str tr \<longleftrightarrow> tref_isnumber tr \<or> tref_isstr tr"

definition tref_isgcv :: "32 word \<Rightarrow> bool" where
  "tref_isgcv tr \<longleftrightarrow> tref_typerange tr (ucast (irt ''STR'')) (ucast (irt ''UDATA''))"

definition tref_isk :: "32 word \<Rightarrow> bool" where "tref_isk tr \<longleftrightarrow> irref_isk (ucast (tref_ref tr))"

definition tref_isk2 :: "32 word \<Rightarrow> 32 word \<Rightarrow> bool" where
  "tref_isk2 tr1 tr2 \<longleftrightarrow> irref_isk (ucast (tref_ref (tr1 OR tr2)))"

definition TREF_PRI :: "32 word \<Rightarrow> 32 word" where "TREF_PRI t = TREF (REF_NIL - t) t"

definition TREF_NIL :: "32 word" where "TREF_NIL = TREF_PRI (ucast (irt ''NIL''))"

definition TREF_FALSE :: "32 word" where "TREF_FALSE = TREF_PRI (ucast (irt ''FALSE''))"

definition TREF_TRUE :: "32 word" where "TREF_TRUE = TREF_PRI (ucast (irt ''TRUE''))"

section \<open>Instruction words\<close>

definition ir_op1 :: "64 word \<Rightarrow> 16 word" where "ir_op1 ir = ucast ir"

definition ir_op2 :: "64 word \<Rightarrow> 16 word" where "ir_op2 ir = ucast (drop_bit 16 ir)"

definition ir_i :: "64 word \<Rightarrow> 32 word" where "ir_i ir = ucast ir"

definition ir_t :: "64 word \<Rightarrow> 8 word" where "ir_t ir = ucast (drop_bit 32 ir)"

definition ir_o :: "64 word \<Rightarrow> 8 word" where "ir_o ir = ucast (drop_bit 40 ir)"

definition ir_r :: "64 word \<Rightarrow> 8 word" where "ir_r ir = ucast (drop_bit 48 ir)"

definition ir_s :: "64 word \<Rightarrow> 8 word" where "ir_s ir = ucast (drop_bit 56 ir)"

definition ir_prev :: "64 word \<Rightarrow> 16 word" where "ir_prev ir = ucast (drop_bit 48 ir)"

definition ir_is :: "64 word \<Rightarrow> string \<Rightarrow> bool" where "ir_is ir name \<longleftrightarrow> unat (ir_o ir) = IR name"

definition ir_isk64 :: "64 word \<Rightarrow> bool" where
  "ir_isk64 ir \<longleftrightarrow> ir_is ir ''KNUM'' \<or> ir_is ir ''KINT64'' \<or> ir_is ir ''KGC'' \<or> ir_is ir ''KPTR'' \<or>
     ir_is ir ''KKPTR''"

text \<open>
  A constant of 64 bits takes two slots: the instruction and its payload. \<open>ir\<close> is the array
  of instructions and \<open>i\<close> an index; where the check of the macro fails the result is \<open>None\<close>.
\<close>

definition ir_kgc :: "(nat \<Rightarrow> 64 word) \<Rightarrow> nat \<Rightarrow> 64 word option" where
  "ir_kgc ir i = (if ir_is (ir i) ''KGC'' then Some (ir (i + 1)) else None)"

definition ir_knum :: "(nat \<Rightarrow> 64 word) \<Rightarrow> nat \<Rightarrow> 64 word option" where
  "ir_knum ir i = (if ir_is (ir i) ''KNUM'' then Some (ir (i + 1)) else None)"

definition ir_kint64 :: "(nat \<Rightarrow> 64 word) \<Rightarrow> nat \<Rightarrow> 64 word option" where
  "ir_kint64 ir i = (if ir_is (ir i) ''KINT64'' then Some (ir (i + 1)) else None)"

definition ir_k64 :: "(nat \<Rightarrow> 64 word) \<Rightarrow> nat \<Rightarrow> 64 word option" where
  "ir_k64 ir i = (if ir_isk64 (ir i) then Some (ir (i + 1)) else None)"

definition ir_kptr :: "(nat \<Rightarrow> 64 word) \<Rightarrow> nat \<Rightarrow> 64 word option" where
  "ir_kptr ir i = (if ir_is (ir i) ''KPTR'' \<or> ir_is (ir i) ''KKPTR'' then Some (ir (i + 1)) else None)"

definition ir_sideeff :: "64 word \<Rightarrow> bool" where
  "ir_sideeff ir \<longleftrightarrow> (ir_t ir OR NOT IRT_GUARD) AND lj_ir_mode ! unat (ir_o ir) \<ge> IRM_S"

definition lj_ir_nop :: "64 word \<Rightarrow> 64 word" where
  "lj_ir_nop ir = push_bit 32 (ucast (IRT (IR ''NOP'') (irt ''NIL'')))"

section \<open>Consistency\<close>

text \<open>A tagged reference gives back the reference and the type it was made of.\<close>

lemma tref_roundtrip:
  assumes "r < 0x10000" "t < 0x100"
  shows "tref_ref (TREF r t) = ucast r" "tref_t (TREF r t) = t" "tref_type (TREF r t) = t AND 0x1f"
proof -
  have "unat r < 2 ^ 16" "unat t < 2 ^ 8" using assms by (simp_all add: word_less_nat_alt)
  then have b: "bit r n \<Longrightarrow> n < 16" "bit t n \<Longrightarrow> n < 8" for n
    using small_word_bits [of r 16 n] small_word_bits [of t 8 n] by blast+
  have "TREF r t = r OR push_bit 24 t"
    unfolding TREF_def by (rule disjunctive_add) (auto simp: bit_push_bit_iff dest: b)
  then have bt: "bit (TREF r t) n \<longleftrightarrow> bit r n \<or> 24 \<le> n \<and> bit t (n - 24)" for n
    using b(2) [of "n - 24"] by (auto simp: bit_or_iff bit_push_bit_iff)
  show "tref_ref (TREF r t) = ucast r"
    unfolding tref_ref_def by (rule bit_word_eqI) (auto simp: bit_unsigned_iff bt)
  show t: "tref_t (TREF r t) = t"
    unfolding tref_t_def by (rule bit_word_eqI) (auto simp: bit_drop_bit_eq bt dest: b)
  then show "tref_type (TREF r t) = t AND 0x1f"
    by (simp add: tref_type_def tref_t_def IRT_TYPE_def)
qed

text \<open>
  The type number of a value that is not a number is the inverse of its tag, and the tag comes
  back from the type.
\<close>

lemma itype_irt_roundtrip:
  assumes "\<not> tvisnumber tv"
  shows "irt_toitype (itype2irt tv) = itype tv"
proof -
  define k where "k = NOT (itype tv)"
  have "LJ_TISNUM < itype tv" using assms by (simp add: tvisnumber_def)
  then have "unat (itype tv) > 2 ^ 32 - 14" by (simp add: lj_tags word_less_nat_alt)
  moreover have "unat k = 2 ^ 32 - 1 - unat (itype tv)"
  proof -
    have "itype tv = - 1 - k" by (simp add: k_def not_eq_complement)
    then have "unat (itype tv) = unat (- 1 :: 32 word) - unat k" by (simp add: unat_sub)
    moreover have "unat k \<le> unat (- 1 :: 32 word)" using word_order.extremum [of k] by (simp only: word_le_nat_alt)
    ultimately show ?thesis by (simp add: unsigned_minus_1_eq_mask mask_eq_exp_minus_1)
  qed
  ultimately have k: "unat k < 2 ^ 4" by simp
  note kb = small_word_bits [OF k]
  have "\<not> tvisnum tv" "\<not> tvisint tv" using assms by (auto simp: tvis)
  then have e: "itype2irt tv = ucast k" by (simp add: itype2irt_def k_def)
  have m: "IRT_TYPE = mask 5" by (simp add: IRT_TYPE_def mask_eq_exp_minus_1)
  have "ucast (irt_type (ucast k)) = k"
    unfolding irt_type_def m
    by (rule bit_word_eqI) (auto simp: bit_unsigned_iff bit_and_iff bit_mask_iff dest: kb)
  then show ?thesis by (simp add: irt_toitype_def irt_toitype1_def e k_def)
qed

text \<open>
  Whether an instruction has a side effect: stores and the like always, any other only if it is
  a guard and its opcode is not marked as weak.
\<close>

lemma and_bit_7: "x AND (0x80 :: 8 word) \<noteq> 0 \<longleftrightarrow> bit x 7"
proof -
  have c: "(0x80 :: 8 word) = push_bit 7 1" by simp
  have "bit (x AND push_bit 7 1) k \<longleftrightarrow> k = 7 \<and> bit x 7" for k
    unfolding bit_and_iff bit_push_bit_iff bit_1_iff by auto
  then show ?thesis unfolding c by (metis bit_0_eq bot_apply bot_bool_def bit_word_eqI)
qed

lemma ir_sideeff_iff:
  assumes "unat (ir_o ir) < IR__MAX" "IRDEF ! unat (ir_o ir) = (name, m, m1, m2)"
  shows "ir_sideeff ir \<longleftrightarrow> m AND IRM_S = IRM_S \<or> irt_isguard (ir_t ir) \<and> m AND IRM_W = 0"
proof -
  have le: "x \<ge> 0x60 \<longleftrightarrow> x AND 0x80 \<noteq> 0 \<or> x AND 0x60 = 0x60" for x :: "8 word"
  proof -
    have "list_all (\<lambda>n. (word_of_nat n \<ge> (0x60 :: 8 word)) =
        (word_of_nat n AND (0x80 :: 8 word) \<noteq> 0 \<or> word_of_nat n AND (0x60 :: 8 word) = 0x60)) [0 ..< 256]"
      by code_simp
    moreover have "unat x < 256" using unsigned_less [of x] by simp
    ultimately have "(word_of_nat (unat x) \<ge> (0x60 :: 8 word)) =
        (word_of_nat (unat x) AND (0x80 :: 8 word) \<noteq> 0 \<or> word_of_nat (unat x) AND (0x60 :: 8 word) = 0x60)"
      unfolding list_all_iff by (metis atLeastLessThan_iff set_upt zero_le)
    then show ?thesis by simp
  qed
  let ?b = "irmode_num m1 OR push_bit 2 (irmode_num m2)"
  let ?t = "ir_t ir"
  have "lj_ir_mode ! unat (ir_o ir) = (?b OR m) XOR IRM_W"
    using assms by (simp add: lj_ir_mode_def IR__MAX_def IRMODE_def or.assoc)
  then have "ir_sideeff ir \<longleftrightarrow> (?t OR NOT 0x80) AND ((?b OR m) XOR 0x80) \<ge> 0x60"
    by (simp add: ir_sideeff_def IRT_GUARD_def irm)
  moreover have "((?t OR NOT 0x80) AND ((?b OR m) XOR 0x80)) AND 0x60 = m AND 0x60"
    "((?t OR NOT 0x80) AND ((?b OR m) XOR 0x80)) AND 0x80 = ?t AND NOT m AND 0x80"
  proof -
    have c: "(0x60 :: 8 word) = push_bit 5 (mask 2)" "(0x80 :: 8 word) = push_bit 7 1"
      by (simp_all add: mask_eq_exp_minus_1)
    have "take_bit 4 ?b = ?b" by (cases m1; cases m2; simp)
    then have b: "\<not> bit ?b k" if "4 \<le> k" for k using that by (metis bit_take_bit_iff not_le)
    have 7: "bit (push_bit 7 (1 :: 8 word)) k \<longleftrightarrow> k = 7" for k
      unfolding bit_push_bit_iff bit_1_iff by auto
    show "((?t OR NOT 0x80) AND ((?b OR m) XOR 0x80)) AND 0x60 = m AND 0x60"
      unfolding c
    proof (rule bit_word_eqI)
      fix k assume k: "k < LENGTH(8)"
      show "bit (((?t OR NOT (push_bit 7 1)) AND ((?b OR m) XOR push_bit 7 1)) AND push_bit 5 (mask 2)) k =
          bit (m AND push_bit 5 (mask 2)) k"
        using b [of k] k unfolding bit_and_iff bit_or_iff bit_xor_iff bit_not_iff 7
        by (auto simp: bit_push_bit_iff bit_mask_iff)
    qed
    show "((?t OR NOT 0x80) AND ((?b OR m) XOR 0x80)) AND 0x80 = ?t AND NOT m AND 0x80"
      unfolding c
    proof (rule bit_word_eqI)
      fix k assume k: "k < LENGTH(8)"
      show "bit (((?t OR NOT (push_bit 7 1)) AND ((?b OR m) XOR push_bit 7 1)) AND push_bit 7 1) k =
          bit (?t AND NOT m AND push_bit 7 1) k"
        using b [of k] k unfolding bit_and_iff bit_or_iff bit_xor_iff bit_not_iff 7 by auto
    qed
  qed
  moreover have "?t AND NOT m AND 0x80 \<noteq> 0 \<longleftrightarrow> ?t AND 0x80 \<noteq> 0 \<and> m AND (0x80 :: 8 word) = 0"
    using and_bit_7 [of ?t] and_bit_7 [of m] and_bit_7 [of "?t AND NOT m"]
    by (auto simp: bit_and_iff bit_not_iff ac_simps)
  ultimately show ?thesis unfolding le irt_isguard_def IRT_GUARD_def irm by auto
qed

end
