(* ===== verification/LJ_X86_Comp.thy ===== *)
theory LJ_X86_Comp
  imports LJ_X86_Loop LJ_IR
begin

text \<open>
  The guards of a comparison of numbers in \<open>LuaJit/include/lj_asm_x86.h\<close> (\<open>asm_comp\<close>, the branch for \<open>irt_isnum\<close>): which
  operand is compared with which, the condition, and the branches on the flags of two floating point numbers, which
  may be unordered. The code in front of the branches, \<open>ucomisd\<close> and what \<open>asm_fuseload\<close> emits to get
  at its operand, is not modelled: the flags the branches find are their input.
\<close>

section \<open>The code\<close>

definition VCC_U :: "32 word" where "VCC_U = 0x1000"

definition VCC_P :: "32 word" where "VCC_P = 0x2000"

definition VCC_S :: "32 word" where "VCC_S = 0x4000"

definition VCC_PS :: "32 word" where "VCC_PS = VCC_P OR VCC_S"

definition COMPFLAGS :: "32 word \<Rightarrow> 32 word \<Rightarrow> 32 word \<Rightarrow> 32 word \<Rightarrow> 16 word" where
  "COMPFLAGS ci cin cu cf = ucast (ci + push_bit 4 cu + push_bit 8 cin + cf)"

definition asm_compmap :: "16 word list" where
  "asm_compmap =
     [COMPFLAGS CC_GE CC_G CC_AE VCC_PS,
      COMPFLAGS CC_L CC_L CC_B 0,
      COMPFLAGS CC_G CC_G CC_A VCC_PS,
      COMPFLAGS CC_LE CC_L CC_BE 0,
      COMPFLAGS CC_AE CC_A CC_AE VCC_U,
      COMPFLAGS CC_B CC_B CC_B (VCC_U OR VCC_PS),
      COMPFLAGS CC_A CC_A CC_A VCC_U,
      COMPFLAGS CC_BE CC_B CC_BE (VCC_U OR VCC_PS),
      COMPFLAGS CC_NE CC_NE CC_NE VCC_P,
      COMPFLAGS CC_E CC_E CC_E (VCC_U OR VCC_P),
      COMPFLAGS CC_BE CC_B CC_BE (VCC_U OR VCC_PS)]"

text \<open>The operands and the condition, swapped where that saves a branch.\<close>

definition comp_swap :: "32 word \<Rightarrow> 16 word \<Rightarrow> 16 word \<Rightarrow> 16 word \<times> 16 word \<times> 32 word" where
  "comp_swap cc lref rref =
     (if cc AND VCC_S \<noteq> 0 then (rref, lref, cc XOR (VCC_PS OR push_bit 4 5)) else (lref, rref, cc))"

definition comp_extra :: "64 word list \<Rightarrow> 32 word \<Rightarrow> 32 word \<Rightarrow> 64 word \<Rightarrow> loop_x86 \<Rightarrow> loop_x86" where
  "comp_extra gr snapno cc l_around s =
     (if cc AND VCC_P \<noteq> 0 then
        if cc AND VCC_U = 0 then asm_guardcc_x86 gr snapno CC_P s
        else if invmcp s \<noteq> Some l_around then s\<lparr>lasm := emit_sjcc CC_P l_around (lasm s)\<rparr>
        else
          let s = s\<lparr>loopinv := 2\<rparr> in
          if realign s \<noteq> None then s\<lparr>lasm := emit_sjcc CC_P (mcp_x86 (lasm s)) (lasm s)\<rparr>
          else s\<lparr>lasm := emit_jcc CC_P (mcp_x86 (lasm s)) (lasm s)\<rparr>
      else s)"

definition comp_guards :: "64 word list \<Rightarrow> 32 word \<Rightarrow> 32 word \<Rightarrow> loop_x86 \<Rightarrow> loop_x86" where
  "comp_guards gr snapno cc s =
     (let l_around = emit_label_x86 (lasm s);
          s = asm_guardcc_x86 gr snapno (drop_bit 4 cc) s in
      comp_extra gr snapno cc l_around s)"

section \<open>What it means\<close>

text \<open>A number, or \<open>None\<close> for one that is not a number; the flags after \<open>ucomisd\<close>, and the meaning of the instruction.\<close>

definition ucomisd_flags :: "'a::linorder option \<Rightarrow> 'a option \<Rightarrow> x86_flags" where
  "ucomisd_flags a b =
     (case (a, b) of
        (Some x, Some y) \<Rightarrow> \<lparr>fl_C = x < y, fl_P = False, fl_Z = x = y, fl_S = False, fl_O = False\<rparr>
      | _ \<Rightarrow> \<lparr>fl_C = True, fl_P = True, fl_Z = True, fl_S = False, fl_O = False\<rparr>)"

definition comp_means :: "nat \<Rightarrow> 'a::linorder option \<Rightarrow> 'a option \<Rightarrow> bool" where
  "comp_means o' a b =
     (case (a, b) of
        (Some x, Some y) \<Rightarrow> [x < y, x \<ge> y, x \<le> y, x > y, x < y, x \<ge> y, x \<le> y, x > y, x = y, x \<noteq> y, x > y] ! o'
      | _ \<Rightarrow> o' \<in> {IR ''ULT'', IR ''UGE'', IR ''ULE'', IR ''UGT'', IR ''NE'', IR ''ABC''})"

lemmas comp_consts = VCC_U_def VCC_P_def VCC_S_def VCC_PS_def COMPFLAGS_def CC_GE_def CC_G_def CC_AE_def CC_L_def CC_B_def
  CC_A_def CC_LE_def CC_BE_def CC_NE_def CC_E_def CC_NL_def CC_NLE_def CC_NB_def CC_NBE_def CC_P_def

lemma IR_comp_nums [simp]:
  "IR ''ULT'' = 4" "IR ''UGE'' = 5" "IR ''ULE'' = 6" "IR ''UGT'' = 7" "IR ''NE'' = 9" "IR ''ABC'' = 10"
  by (simp_all add: IR_def IRDEF_def)

text \<open>The entry of each opcode, swapped, by its condition and flags.\<close>

definition comp_cc :: "nat \<Rightarrow> 32 word" where
  "comp_cc o' = snd (snd (comp_swap (ucast (asm_compmap ! o')) 0 0))"

definition comp_swapped :: "nat \<Rightarrow> bool" where
  "comp_swapped o' \<longleftrightarrow> ucast (asm_compmap ! o') AND VCC_S \<noteq> (0 :: 32 word)"

lemma below_11: "o' < 11 \<Longrightarrow> o' \<in> {0, 1, 2, 3, 4, 5, 6, 7, 8, 9, 10 :: nat}"
  by (cases o' rule: nat.exhaust) (simp_all, presburger)

lemma comp_table:
  "List.map (\<lambda>o'. (drop_bit 4 (comp_cc o') AND 15, comp_cc o' AND VCC_P \<noteq> 0, comp_cc o' AND VCC_U \<noteq> 0, comp_swapped o')) [0..<11]
   = [(6, False, False, True), (2, False, False, False), (2, False, False, True), (6, False, False, False),
      (3, False, True, False), (7, False, True, True), (7, False, True, False), (3, False, True, True),
      (5, True, False, False), (4, True, True, False), (3, False, True, True)]"
  by (simp add: comp_cc_def comp_swapped_def comp_swap_def asm_compmap_def comp_consts upt_rec)

lemma comp_logic:
  assumes "o' < 11" "F = (if comp_swapped o' then ucomisd_flags y x else ucomisd_flags x y)" "c = ucast (drop_bit 4 (comp_cc o') AND 15)"
  shows "comp_means o' x y \<longleftrightarrow>
    (if comp_cc o' AND VCC_P \<noteq> 0 then
       if comp_cc o' AND VCC_U \<noteq> 0 then cc_holds F 10 \<or> \<not> cc_holds F c else \<not> cc_holds F 10 \<and> \<not> cc_holds F c
     else \<not> cc_holds F c)"
proof -
  have t: "(drop_bit 4 (comp_cc o') AND 15, comp_cc o' AND VCC_P \<noteq> 0, comp_cc o' AND VCC_U \<noteq> 0, comp_swapped o') =
    [(6, False, False, True), (2, False, False, False), (2, False, False, True), (6, False, False, False),
      (3, False, True, False), (7, False, True, True), (7, False, True, False), (3, False, True, True),
      (5, True, False, False), (4, True, True, False), (3, False, True, True)] ! o'"
    unfolding comp_table [symmetric] using assms(1) by simp
  show ?thesis
    using below_11 [OF assms(1)] t assms(2,3)
    by (elim insertE emptyE)
       (simp_all add: comp_means_def ucomisd_flags_def cc_holds_def Let_def not_le not_less split: option.splits, auto)
qed


section \<open>A comparison in the middle of a trace\<close>

lemma guard_far:
  assumes "invmcp s \<noteq> Some (mcp_x86 (lasm s))"
  shows "mc (lasm (asm_guardcc_x86 gr sn cc s)) =
      0x0f # ucast (XI_JCCn + (cc AND 15)) # le32 (jmprel (mcp_x86 (lasm s)) (exitstub_addr gr sn)) @ mc (lasm s)"
    "mctop (lasm (asm_guardcc_x86 gr sn cc s)) = mctop (lasm s)" "invmcp (asm_guardcc_x86 gr sn cc s) = invmcp s"
    "loopinv (asm_guardcc_x86 gr sn cc s) = loopinv s" "realign (asm_guardcc_x86 gr sn cc s) = realign s"
    "mcp_x86 (lasm (asm_guardcc_x86 gr sn cc s)) = mcp_x86 (lasm s) - 6"
proof -
  have m: "mcp_x86 (fix_rip n (lasm s)) = mcp_x86 (lasm s)" for n by (simp add: mcp_x86_def)
  show "mc (lasm (asm_guardcc_x86 gr sn cc s)) =
      0x0f # ucast (XI_JCCn + (cc AND 15)) # le32 (jmprel (mcp_x86 (lasm s)) (exitstub_addr gr sn)) @ mc (lasm s)"
    "mctop (lasm (asm_guardcc_x86 gr sn cc s)) = mctop (lasm s)" "invmcp (asm_guardcc_x86 gr sn cc s) = invmcp s"
    "loopinv (asm_guardcc_x86 gr sn cc s) = loopinv s" "realign (asm_guardcc_x86 gr sn cc s) = realign s"
    using assms by (simp_all add: asm_guardcc_x86_def Let_def emit_jcc_def put_bytes_def m)
  then show "mcp_x86 (lasm (asm_guardcc_x86 gr sn cc s)) = mcp_x86 (lasm s) - 6"
    by (simp add: mcp_x86_def le32_def)
qed

lemma lands_guard:
  assumes "checki32 (sint (exit - p))" "p = hi - of_nat (length q)"
  shows "lands (Suc n) f hi (0x0f # ucast (XI_JCCn + (cc AND 15)) # le32 (jmprel p exit) @ q) =
    (if f (ucast (cc AND 15)) then exit else lands n f hi q)"
  using jmprel_back [OF assms(1)] by (simp only: lands.simps jump_cond) (simp add: assms(2))

lemma lands_around:
  assumes "p = hi - of_nat (length q)" "length us = 6"
  shows "lands (Suc n) f hi (ucast (XI_JCCs + (cc AND 15)) # 6 # us @ q) = (if f (ucast (cc AND 15)) then p else lands n f hi (us @ q))"
  by (simp only: lands.simps jump_scond) (simp add: assms)

definition comp_branches :: "nat \<Rightarrow> nat" where
  "comp_branches o' = (if comp_cc o' AND VCC_P \<noteq> 0 then 2 else 1)"

lemma comp_swap_eq:
  "comp_swap (ucast (asm_compmap ! o')) op1 op2 = (if comp_swapped o' then op2 else op1, if comp_swapped o' then op1 else op2, comp_cc o')"
  by (simp add: comp_swap_def comp_swapped_def comp_cc_def)

lemma comp_code:
  assumes "o' < 11" "p = mcp_x86 (lasm s)" "invmcp s \<notin> {Some p, Some (p - 6)}"
    "checki32 (sint (exitstub_addr gr sn - p))" "checki32 (sint (exitstub_addr gr sn - (p - 6)))"
    "s' = comp_extra gr sn (comp_cc o') p (asm_guardcc_x86 gr sn (drop_bit 4 (comp_cc o')) s)"
    "F = (if comp_swapped o' then ucomisd_flags y x else ucomisd_flags x y)"
  shows "\<exists>tl. mc (lasm s') = tl @ mc (lasm s) \<and>
    lands (comp_branches o') (cc_holds F) (mctop (lasm s)) (tl @ mc (lasm s)) = (if comp_means o' x y then p else exitstub_addr gr sn)"
proof -
  let ?c = "drop_bit 4 (comp_cc o')" and ?hi = "mctop (lasm s)" and ?q = "mc (lasm s)" and ?ex = "exitstub_addr gr sn"
  let ?s1 = "asm_guardcc_x86 gr sn ?c s"
  have p: "p = ?hi - of_nat (length ?q)" by (simp add: assms(2) mcp_x86_def)
  have ne: "invmcp s \<noteq> Some (mcp_x86 (lasm s))" using assms(2,3) by auto
  note g = guard_far [OF ne, of gr sn ?c, folded assms(2)]
  let ?j = "0x0f # ucast (XI_JCCn + (?c AND 15)) # le32 (jmprel p ?ex)"
  have j: "length ?j = 6" "mc (lasm ?s1) = ?j @ ?q" using g(1) by (simp_all add: le32_def)
  have l: "lands (Suc n) f ?hi (?j @ ?q) = (if f (ucast (?c AND 15)) then ?ex else lands n f ?hi ?q)" for n f
    using lands_guard [OF assms(4) p] by simp
  have ten: "(ucast (CC_P AND 15) :: 8 word) = 10" by (simp add: CC_P_def)
  note logic = comp_logic [OF assms(1,7) refl]
  consider (none) "comp_cc o' AND VCC_P = 0" | (exit) "comp_cc o' AND VCC_P \<noteq> 0" "comp_cc o' AND VCC_U = 0"
    | (around) "comp_cc o' AND VCC_P \<noteq> 0" "comp_cc o' AND VCC_U \<noteq> 0" by blast
  then show ?thesis
  proof cases
    case none
    then have "mc (lasm s') = ?j @ ?q" using j by (simp add: assms(6) comp_extra_def)
    then show ?thesis using l [of 0 "cc_holds F"] logic none p
      by (intro exI [of _ ?j]) (simp add: comp_branches_def addr_of_def)
  next
    case exit
    have ne': "invmcp ?s1 \<noteq> Some (mcp_x86 (lasm ?s1))" using g(3,6) assms(3) by auto
    have m: "mc (lasm s') = 0x0f # ucast (XI_JCCn + (CC_P AND 15)) # le32 (jmprel (p - 6) ?ex) @ ?j @ ?q"
      using guard_far(1) [OF ne', of gr sn CC_P] exit j(2) g(6) by (simp add: assms(6) comp_extra_def)
    have "p - 6 = ?hi - of_nat (length (?j @ ?q))" unfolding length_append j(1) by (simp add: p)
    from lands_guard [OF assms(5) this, of 1 "cc_holds F" CC_P] show ?thesis
      using l [of 0 "cc_holds F"] logic exit m p
      by (intro exI [of _ "0x0f # ucast (XI_JCCn + (CC_P AND 15)) # le32 (jmprel (p - 6) ?ex) @ ?j"])
         (simp add: comp_branches_def addr_of_def ten numeral_2_eq_2 del: lands.simps(2))
  next
    case around
    have m: "mc (lasm s') = ucast (XI_JCCs + (CC_P AND 15)) # 6 # ?j @ ?q"
      using around j(2) g(3,6) assms(3) by (auto simp: assms(6) comp_extra_def emit_sjcc_def put_bytes_def)
    from lands_around [OF p j(1), of 1 "cc_holds F" CC_P] show ?thesis
      using l [of 0 "cc_holds F"] logic around m p
      by (intro exI [of _ "ucast (XI_JCCs + (CC_P AND 15)) # 6 # ?j"])
         (simp add: comp_branches_def addr_of_def ten numeral_2_eq_2 del: lands.simps(2))
  qed
qed


text \<open>
  C38. The guards of a comparison of numbers, in the middle of a trace. If the branches find the flags that \<open>ucomisd\<close>
  sets for the operands in the order \<open>comp_swap\<close> puts them, they lead to the exit if the comparison does not
  hold and on to the code behind if it does, where nothing is less than, equal to or greater than something that is not a
  number, and the unordered comparisons hold for it.
\<close>

theorem x86_fp_compare:
  assumes "o' < 11" "comp_swap (ucast (asm_compmap ! o')) op1 op2 = (lref, rref, cc)" "s' = comp_guards gr sn cc s"
    "p = mcp_x86 (lasm s)" "invmcp s \<notin> {Some p, Some (p - 6)}"
    "checki32 (sint (exitstub_addr gr sn - p))" "checki32 (sint (exitstub_addr gr sn - (p - 6)))"
  shows "\<exists>tl. mc (lasm s') = tl @ mc (lasm s) \<and>
    lands (comp_branches o') (cc_holds (ucomisd_flags (val lref) (val rref))) (mctop (lasm s)) (tl @ mc (lasm s)) =
      (if comp_means o' (val op1) (val op2) then p else exitstub_addr gr sn)"
proof -
  have refs: "lref = (if comp_swapped o' then op2 else op1)" "rref = (if comp_swapped o' then op1 else op2)" "cc = comp_cc o'"
    using assms(2) by (simp_all add: comp_swap_eq)
  have s': "s' = comp_extra gr sn (comp_cc o') p (asm_guardcc_x86 gr sn (drop_bit 4 (comp_cc o')) s)"
    by (simp add: assms(3,4) comp_guards_def emit_label_x86_def refs(3) Let_def)
  have fl: "ucomisd_flags (val lref) (val rref) =
      (if comp_swapped o' then ucomisd_flags (val op2) (val op1) else ucomisd_flags (val op1) (val op2))" by (simp add: refs)
  show ?thesis by (rule comp_code [OF assms(1,4-7) s' fl])
qed


section \<open>A comparison at the end of a loop\<close>

lemma lands_far_tail:
  assumes "m < 2 ^ 31" "checki32 (sint (exit - hi))"
  shows "lands (Suc (Suc n)) (cc_holds F) hi (0x0f # ucast (XI_JCCn + ((cc XOR 1) AND 15)) # le32 (ucast (- of_nat m :: 64 word)) @
      0xe9 # le32 (jmprel hi exit)) = (if cc_holds F (ucast (cc AND 15)) then exit else hi - of_nat (5 + m))"
  using lands_back(2) [OF assms(1), of "Suc n" "cc_holds F" hi "cc XOR 1" "0xe9 # le32 (jmprel hi exit)"]
    lands_jmp [OF assms(2), of n "cc_holds F"] by (simp add: cc_inverted le32_def del: lands.simps)

lemma lands_short_tail:
  assumes "m \<le> 128" "checki32 (sint (exit - hi))"
  shows "lands (Suc (Suc n)) (cc_holds F) hi (ucast (XI_JCCs + ((cc XOR 1) AND 15)) # ucast (- of_nat m :: 64 word) #
      0xe9 # le32 (jmprel hi exit)) = (if cc_holds F (ucast (cc AND 15)) then exit else hi - of_nat (5 + m))"
  using lands_sback(2) [OF assms(1), of "Suc n" "cc_holds F" hi "cc XOR 1" "0xe9 # le32 (jmprel hi exit)"]
    lands_jmp [OF assms(2), of n "cc_holds F"] by (simp add: cc_inverted le32_def del: lands.simps)

text \<open>After the comparison, with \<open>W\<close> emitted in front, the branch of the loop is fixed up.\<close>

definition comp_end :: "64 word list \<Rightarrow> 32 word \<Rightarrow> nat \<Rightarrow> loop_x86 \<Rightarrow> loop_x86" where
  "comp_end gr sn o' s =
     comp_extra gr sn (comp_cc o') (mcp_x86 (lasm s)) (asm_guardcc_x86 gr sn (drop_bit 4 (comp_cc o')) s)"

lemma comp_end_guards: "comp_guards gr sn (comp_cc o') s = comp_end gr sn o' s"
  by (simp add: comp_guards_def comp_end_def emit_label_x86_def Let_def)

definition in_front :: "8 word list \<Rightarrow> loop_x86 \<Rightarrow> loop_x86 \<Rightarrow> bool" where
  "in_front W s s' \<longleftrightarrow>
     mc (lasm s') = W @ mc (lasm s) \<and> mctop (lasm s') = mctop (lasm s) \<and> loopinv s' = loopinv s \<and> realign s' = realign s"

lemma comp_end_far:
  assumes "o' < 11" "length (mc (lasm s)) = 5" "invmcp s = Some (mcp_x86 (lasm s))" "realign s = None"
    "in_front W (comp_end gr sn o' s) s3" "loop_fits s3" "checki32 (sint (ex - mctop (lasm s)))"
    "checki32 (sint (ex - (mctop (lasm s) - 11)))" "ex = exitstub_addr gr sn"
    "F = (if comp_swapped o' then ucomisd_flags y x else ucomisd_flags x y)"
  shows "\<exists>tl. mc (lasm (asm_loop_fixup_x86 s3)) = W @ tl \<and> length tl = length (mc (lasm (comp_end gr sn o' s))) \<and>
    lands (Suc (comp_branches o')) (cc_holds F) (mctop (lasm s)) tl = (if comp_means o' x y then mcp_x86 (lasm s3) else ex)"
proof -
  let ?c = "drop_bit 4 (comp_cc o')" and ?hi = "mctop (lasm s)" and ?p = "mcp_x86 (lasm s)"
  let ?s1 = "asm_guardcc_x86 gr sn ?c s" and ?j = "le32 (jmprel (mctop (lasm s)) ex)"
  note g = guard_inverted [OF assms(2,3), of gr sn ?c, folded assms(9)]
  obtain b where b: "mc (lasm ?s1) = 0x0f # ucast (XI_JCCn + ((?c XOR 1) AND 15)) # le32 (jmprel ?p ?p) @ b # ?j"
    using g(1) assms(4) by auto
  have l: "length ?j = 4" "length (mc (lasm ?s1)) = 11" using b by (simp_all add: le32_def)
  have p1: "mcp_x86 (lasm ?s1) = ?hi - 11" by (simp add: mcp_x86_def g(2) l(2))
  have hp: "?p = ?hi - 5" by (simp add: mcp_x86_def assms(2))
  have inv: "invmcp ?s1 = invmcp s"
    using assms(3,4) by (simp add: asm_guardcc_x86_def Let_def)
  have s3: "mc (lasm s3) = W @ mc (lasm (comp_end gr sn o' s))" "mctop (lasm s3) = mctop (lasm (comp_end gr sn o' s))"
    "loopinv s3 = loopinv (comp_end gr sn o' s)" "realign s3 = realign (comp_end gr sn o' s)"
    using assms(5) by (simp_all add: in_front_def)
  have ten: "(ucast (CC_P AND 15) :: 8 word) = 10" by (simp add: CC_P_def)
  note logic = comp_logic [OF assms(1,10) refl]
  consider (none) "comp_cc o' AND VCC_P = 0" | (exit) "comp_cc o' AND VCC_P \<noteq> 0" "comp_cc o' AND VCC_U = 0"
    | (around) "comp_cc o' AND VCC_P \<noteq> 0" "comp_cc o' AND VCC_U \<noteq> 0" by blast
  then show ?thesis
  proof cases
    case none
    then have e: "comp_end gr sn o' s = ?s1" by (simp add: comp_end_def comp_extra_def)
    have m: "mc (lasm s3) = W @ 0x0f # ucast (XI_JCCn + ((?c XOR 1) AND 15)) # le32 (jmprel ?p ?p) @ b # ?j" using s3(1) b by (simp add: e)
    have r: "realign s3 = None" "loopinv s3 = 1" "mctop (lasm s3) = ?hi" using s3 g assms(4) by (simp_all add: e)
    have fits: "length W + 6 < 2 ^ 31" using assms(6) r m l by (simp add: loop_fits_def le32_def)
    have mcp: "mcp_x86 (lasm s3) = ?hi - of_nat (5 + (length W + 6))" using m l(1) by (simp add: mcp_x86_def r le32_def)
    show ?thesis
      using fixup_far_inverted(1) [OF m l(1) r(1,2)] lands_far_tail [OF fits assms(7), of 0 F ?c] logic none b
      by (simp only: mcp e) (simp add: comp_branches_def numeral_2_eq_2 le32_def del: lands.simps of_nat_add)
  next
    case exit
    have ne: "invmcp ?s1 \<noteq> Some (mcp_x86 (lasm ?s1))" using inv assms(3) p1 hp by simp
    note x = guard_far [OF ne, of gr sn CC_P, folded assms(9), unfolded p1]
    have e: "comp_end gr sn o' s = asm_guardcc_x86 gr sn CC_P ?s1" using exit by (simp add: comp_end_def comp_extra_def)
    let ?x = "0x0f # ucast (XI_JCCn + (CC_P AND 15)) # le32 (jmprel (?hi - 11) ex)"
    have lx: "length ?x = 6" by (simp add: le32_def)
    have m: "mc (lasm s3) = (W @ ?x) @ 0x0f # ucast (XI_JCCn + ((?c XOR 1) AND 15)) # le32 (jmprel ?p ?p) @ b # ?j"
      using s3(1) b x(1) by (simp add: e)
    have r: "realign s3 = None" "loopinv s3 = 1" "mctop (lasm s3) = ?hi" using s3 g x assms(4) by (simp_all add: e)
    have fits: "length (W @ ?x) + 6 < 2 ^ 31" using assms(6) r m l by (simp add: loop_fits_def le32_def)
    have mcp: "mcp_x86 (lasm s3) = ?hi - of_nat (5 + (length (W @ ?x) + 6))" using m l(1) by (simp add: mcp_x86_def r le32_def)
    let ?t = "0x0f # ucast (XI_JCCn + ((?c XOR 1) AND 15)) # le32 (ucast (- of_nat (length (W @ ?x) + 6) :: 64 word)) @ 0xe9 # ?j"
    have hi: "?hi - 11 = ?hi - of_nat (length ?t)" by (simp add: le32_def)
    have "lands (Suc (Suc (Suc 0))) (cc_holds F) ?hi (?x @ ?t) = (if comp_means o' x y then mcp_x86 (lasm s3) else ex)"
      using lands_guard [OF assms(8) hi, of "Suc (Suc 0)" "cc_holds F" CC_P] lands_far_tail [OF fits assms(7), of 0 F ?c] logic exit
      by (simp only: mcp append_Cons append_assoc ten) simp
    then show ?thesis
      using fixup_far_inverted(1) [OF m l(1) r(1,2)] exit x(1) b
      by (intro exI [of _ "?x @ ?t"]) (simp add: e comp_branches_def numeral_2_eq_2 le32_def del: lands.simps of_nat_add)
  next
    case around
    let ?v = "le32 (jmprel (mcp_x86 (lasm ?s1)) (mcp_x86 (lasm ?s1)))"
    have e: "mc (lasm (comp_end gr sn o' s)) = 0x0f # ucast (XI_JCCn + (CC_P AND 15)) # ?v @ mc (lasm ?s1)"
      "realign (comp_end gr sn o' s) = None" "loopinv (comp_end gr sn o' s) = 2" "mctop (lasm (comp_end gr sn o' s)) = ?hi"
      using around inv assms(3,4) g by (simp_all add: comp_end_def comp_extra_def Let_def emit_jcc_def put_bytes_def)
    have m: "mc (lasm s3) = W @ 0x0f # ucast (XI_JCCn + (CC_P AND 15)) # ?v @
        0x0f # ucast (XI_JCCn + ((?c XOR 1) AND 15)) # le32 (jmprel ?p ?p) @ b # ?j"
      using s3(1) b by (simp add: e)
    have r: "realign s3 = None" "loopinv s3 = 2" "mctop (lasm s3) = ?hi" using s3 by (simp_all add: e)
    have fits: "length W + 12 < 2 ^ 31" using assms(6) r m l by (simp add: loop_fits_def le32_def)
    have fits6: "length W + 6 < 2 ^ 31" using fits by simp
    have mcp: "mcp_x86 (lasm s3) = ?hi - of_nat (5 + (length W + 12))" using m l(1) by (simp add: mcp_x86_def r le32_def)
    let ?t = "0x0f # ucast (XI_JCCn + ((?c XOR 1) AND 15)) # le32 (ucast (- of_nat (length W + 12) :: 64 word)) @ 0xe9 # ?j"
    let ?x = "0x0f # ucast (XI_JCCn + (CC_P AND 15)) # le32 (ucast (- of_nat (length W + 6) :: 64 word))"
    have lt: "length ?t + (length W + 6) = 5 + (length W + 12)" by (simp add: le32_def)
    have "lands (Suc (Suc (Suc 0))) (cc_holds F) ?hi (?x @ ?t) = (if comp_means o' x y then mcp_x86 (lasm s3) else ex)"
      using lands_back(2) [OF fits6, of "Suc (Suc 0)" "cc_holds F" ?hi CC_P ?t] lands_far_tail [OF fits assms(7), of 0 F ?c] logic around
      by (simp only: mcp append_Cons append_assoc ten lt) simp
    then show ?thesis
      using fixup_far_inverted2(1) [OF m l(1) r(1,2)] around b
      by (intro exI [of _ "?x @ ?t"]) (simp add: e comp_branches_def numeral_2_eq_2 le32_def del: lands.simps of_nat_add)
  qed
qed


lemma comp_end_short:
  assumes "o' < 11" "length (mc (lasm s)) = 5" "invmcp s = Some (mcp_x86 (lasm s))" "realign s \<noteq> None"
    "in_front W (comp_end gr sn o' s) s3" "loop_fits s3" "checki32 (sint (ex - mctop (lasm s)))"
    "checki32 (sint (ex - (mctop (lasm s) - 7)))" "ex = exitstub_addr gr sn"
    "F = (if comp_swapped o' then ucomisd_flags y x else ucomisd_flags x y)"
  shows "\<exists>tl. mc (lasm (asm_loop_fixup_x86 s3)) = W @ tl \<and> length tl = length (mc (lasm (comp_end gr sn o' s))) \<and>
    lands (Suc (comp_branches o')) (cc_holds F) (mctop (lasm s)) tl = (if comp_means o' x y then mcp_x86 (lasm s3) else ex)"
proof -
  let ?c = "drop_bit 4 (comp_cc o')" and ?hi = "mctop (lasm s)" and ?p = "mcp_x86 (lasm s)"
  let ?s1 = "asm_guardcc_x86 gr sn ?c s" and ?j = "le32 (jmprel (mctop (lasm s)) ex)"
  note g = guard_inverted [OF assms(2,3), of gr sn ?c, folded assms(9)]
  obtain b where b: "mc (lasm ?s1) = ucast (XI_JCCs + ((?c XOR 1) AND 15)) # 0 # b # ?j"
    using g(1) assms(4) by auto
  have l: "length ?j = 4" "length (mc (lasm ?s1)) = 7" using b by (simp_all add: le32_def)
  have p1: "mcp_x86 (lasm ?s1) = ?hi - 7" by (simp add: mcp_x86_def g(2) l(2))
  have hp: "?p = ?hi - 5" by (simp add: mcp_x86_def assms(2))
  have inv: "invmcp ?s1 = invmcp s"
    using assms(3,4) by (simp add: asm_guardcc_x86_def Let_def)
  have s3: "mc (lasm s3) = W @ mc (lasm (comp_end gr sn o' s))" "mctop (lasm s3) = mctop (lasm (comp_end gr sn o' s))"
    "loopinv s3 = loopinv (comp_end gr sn o' s)" "realign s3 = realign (comp_end gr sn o' s)"
    using assms(5) by (simp_all add: in_front_def)
  have ten: "(ucast (CC_P AND 15) :: 8 word) = 10" by (simp add: CC_P_def)
  note logic = comp_logic [OF assms(1,10) refl]
  consider (none) "comp_cc o' AND VCC_P = 0" | (exit) "comp_cc o' AND VCC_P \<noteq> 0" "comp_cc o' AND VCC_U = 0"
    | (around) "comp_cc o' AND VCC_P \<noteq> 0" "comp_cc o' AND VCC_U \<noteq> 0" by blast
  then show ?thesis
  proof cases
    case none
    then have e: "comp_end gr sn o' s = ?s1" by (simp add: comp_end_def comp_extra_def)
    have m: "mc (lasm s3) = W @ ucast (XI_JCCs + ((?c XOR 1) AND 15)) # 0 # b # ?j" using s3(1) b by (simp add: e)
    have r: "realign s3 \<noteq> None" "loopinv s3 = 1" "mctop (lasm s3) = ?hi" using s3 g assms(4) by (simp_all add: e)
    have fits: "length W + 2 \<le> 128" using assms(6) r m l by (simp add: loop_fits_def le32_def)
    have mcp: "mcp_x86 (lasm s3) = ?hi - of_nat (5 + (length W + 2))" using m l(1) by (simp add: mcp_x86_def r le32_def)
    show ?thesis
      using fixup_short_inverted(1) [OF m l(1) r(1,2)] lands_short_tail [OF fits assms(7), of 0 F ?c] logic none b
      by (simp only: mcp e) (simp add: comp_branches_def numeral_2_eq_2 le32_def del: lands.simps of_nat_add)
  next
    case exit
    have ne: "invmcp ?s1 \<noteq> Some (mcp_x86 (lasm ?s1))" using inv assms(3) p1 hp by simp
    note x = guard_far [OF ne, of gr sn CC_P, folded assms(9), unfolded p1]
    have e: "comp_end gr sn o' s = asm_guardcc_x86 gr sn CC_P ?s1" using exit by (simp add: comp_end_def comp_extra_def)
    let ?x = "0x0f # ucast (XI_JCCn + (CC_P AND 15)) # le32 (jmprel (?hi - 7) ex)"
    have lx: "length ?x = 6" by (simp add: le32_def)
    have m: "mc (lasm s3) = (W @ ?x) @ ucast (XI_JCCs + ((?c XOR 1) AND 15)) # 0 # b # ?j"
      using s3(1) b x(1) by (simp add: e)
    have r: "realign s3 \<noteq> None" "loopinv s3 = 1" "mctop (lasm s3) = ?hi" using s3 g x assms(4) by (simp_all add: e)
    have fits: "length (W @ ?x) + 2 \<le> 128" using assms(6) r m l by (simp add: loop_fits_def le32_def)
    have mcp: "mcp_x86 (lasm s3) = ?hi - of_nat (5 + (length (W @ ?x) + 2))" using m l(1) by (simp add: mcp_x86_def r le32_def)
    let ?t = "ucast (XI_JCCs + ((?c XOR 1) AND 15)) # ucast (- of_nat (length (W @ ?x) + 2) :: 64 word) # 0xe9 # ?j"
    have hi: "?hi - 7 = ?hi - of_nat (length ?t)" by (simp add: le32_def)
    have "lands (Suc (Suc (Suc 0))) (cc_holds F) ?hi (?x @ ?t) = (if comp_means o' x y then mcp_x86 (lasm s3) else ex)"
      using lands_guard [OF assms(8) hi, of "Suc (Suc 0)" "cc_holds F" CC_P] lands_short_tail [OF fits assms(7), of 0 F ?c] logic exit
      by (simp only: mcp append_Cons append_assoc ten) simp
    then show ?thesis
      using fixup_short_inverted(1) [OF m l(1) r(1,2)] exit x(1) b
      by (intro exI [of _ "?x @ ?t"]) (simp add: e comp_branches_def numeral_2_eq_2 le32_def del: lands.simps of_nat_add)
  next
    case around
    let ?v = "ucast (mcp_x86 (lasm ?s1) - mcp_x86 (lasm ?s1))"
    have e: "mc (lasm (comp_end gr sn o' s)) = ucast (XI_JCCs + (CC_P AND 15)) # ?v # mc (lasm ?s1)"
      "realign (comp_end gr sn o' s) \<noteq> None" "loopinv (comp_end gr sn o' s) = 2" "mctop (lasm (comp_end gr sn o' s)) = ?hi"
      using around inv assms(3,4) g by (simp_all add: comp_end_def comp_extra_def Let_def emit_sjcc_def put_bytes_def)
    have m: "mc (lasm s3) = W @ ucast (XI_JCCs + (CC_P AND 15)) # ?v # ucast (XI_JCCs + ((?c XOR 1) AND 15)) # 0 # b # ?j"
      using s3(1) b by (simp add: e)
    have r: "realign s3 \<noteq> None" "loopinv s3 = 2" "mctop (lasm s3) = ?hi" using s3 by (simp_all add: e)
    have fits: "length W + 4 \<le> 128" using assms(6) r m l by (simp add: loop_fits_def le32_def)
    have fits6: "length W + 2 \<le> 128" using fits by simp
    have mcp: "mcp_x86 (lasm s3) = ?hi - of_nat (5 + (length W + 4))" using m l(1) by (simp add: mcp_x86_def r le32_def)
    let ?t = "ucast (XI_JCCs + ((?c XOR 1) AND 15)) # ucast (- of_nat (length W + 4) :: 64 word) # 0xe9 # ?j"
    let ?x = "[ucast (XI_JCCs + (CC_P AND 15)), ucast (- of_nat (length W + 2) :: 64 word)]"
    have lt: "length ?t + (length W + 2) = 5 + (length W + 4)" by (simp add: le32_def)
    have "lands (Suc (Suc (Suc 0))) (cc_holds F) ?hi (?x @ ?t) = (if comp_means o' x y then mcp_x86 (lasm s3) else ex)"
      using lands_sback(2) [OF fits6, of "Suc (Suc 0)" "cc_holds F" ?hi CC_P ?t] lands_short_tail [OF fits assms(7), of 0 F ?c] logic around
      by (simp only: mcp append_Cons append_Nil ten lt) simp
    then show ?thesis
      using fixup_short_inverted2(1) [OF m l(1) r(1,2)] around b
      by (intro exI [of _ "?x @ ?t"]) (simp add: e comp_branches_def numeral_2_eq_2 le32_def del: lands.simps of_nat_add)
  qed
qed


text \<open>
  C39. The guards of a comparison of numbers at the end of a loop, right in front of the room left for its branch. With
  everything else of the loop, \<open>W\<close>, emitted in front, and the branch fixed up, near or short: if the branches find the
  flags that \<open>ucomisd\<close> sets for the operands, they lead to the start of the loop if the comparison holds, and to the
  exit if not. Besides the inverted guard this may take a second branch for operands that are unordered, which goes
  to the exit or, for the unordered comparisons, also to the start.
\<close>

theorem x86_fp_loop:
  assumes "o' < 11" "comp_swap (ucast (asm_compmap ! o')) op1 op2 = (lref, rref, cc)"
    "length (mc (lasm s)) = 5" "invmcp s = Some (mcp_x86 (lasm s))"
    "s2 = comp_guards gr sn cc s" "s3 = body W s2" "loop_fits s3"
    "\<forall>k \<le> 11. checki32 (sint (exitstub_addr gr sn - (mctop (lasm s) - of_nat k)))"
  shows "\<exists>tl. mc (lasm (asm_loop_fixup_x86 s3)) = W @ tl \<and> length tl = length (mc (lasm s2)) \<and>
    lands (Suc (comp_branches o')) (cc_holds (ucomisd_flags (val lref) (val rref))) (mctop (lasm s)) tl =
      (if comp_means o' (val op1) (val op2) then mcp_x86 (lasm s3) else exitstub_addr gr sn)"
proof -
  have refs: "lref = (if comp_swapped o' then op2 else op1)" "rref = (if comp_swapped o' then op1 else op2)" "cc = comp_cc o'"
    using assms(2) by (simp_all add: comp_swap_eq)
  have s2: "s2 = comp_end gr sn o' s" by (simp add: assms(5) refs(3) comp_end_guards)
  have fr: "in_front W (comp_end gr sn o' s) s3" by (simp add: in_front_def assms(6) s2)
  have fl: "ucomisd_flags (val lref) (val rref) =
      (if comp_swapped o' then ucomisd_flags (val op2) (val op1) else ucomisd_flags (val op1) (val op2))" by (simp add: refs)
  note reach = assms(8) [rule_format, of 0, simplified] assms(8) [rule_format, of 7, simplified] assms(8) [rule_format, of 11, simplified]
  show ?thesis
  proof (cases "realign s = None")
    case True
    show ?thesis unfolding s2 by (rule comp_end_far [OF assms(1,3,4) True fr assms(7) reach(1,3) refl fl])
  next
    case False
    show ?thesis unfolding s2 by (rule comp_end_short [OF assms(1,3,4) False fr assms(7) reach(1,2) refl fl])
  qed
qed


text \<open>Comparing 3 with something that is not a number: equal leaves for the exit, not equal goes on, or round the loop.\<close>

definition any_val :: "16 word \<Rightarrow> int option" where "any_val ref = (if ref = 1 then Some 3 else None)"

lemma exit_3: "exitstub_addr (replicate 16 0x8000) 3 = 0x800c" by (simp add: exitstub_addr_def)

lemma swapped_8_9: "\<not> comp_swapped 8" "\<not> comp_swapped 9" "comp_branches 8 = 2" "comp_branches 9 = 2"
  by (simp_all add: comp_swapped_def comp_branches_def comp_cc_def comp_swap_def asm_compmap_def comp_consts)

lemma guard_len: "length (mc (lasm (asm_guardcc_x86 gr sn cc s))) \<le> length (mc (lasm s)) + 10"
  by (simp add: asm_guardcc_x86_def Let_def emit_jcc_def emit_sjcc_def put_bytes_def put32_def le32_def) arith

lemma comp_extra_len: "length (mc (lasm (comp_extra gr sn cc p s))) \<le> length (mc (lasm s)) + 10"
proof -
  have j: "length (mc (emit_sjcc c t a)) \<le> length (mc a) + 10" "length (mc (emit_jcc c t a)) \<le> length (mc a) + 10" for c t a
    by (simp_all add: emit_jcc_def emit_sjcc_def put_bytes_def le32_def)
  show ?thesis using guard_len [of gr sn CC_P s] j by (simp add: comp_extra_def Let_def)
qed

lemma comp_guards_len: "length (mc (lasm (comp_guards gr sn cc s))) \<le> length (mc (lasm s)) + 20"
proof -
  let ?g = "asm_guardcc_x86 gr sn (drop_bit 4 cc) s"
  have "length (mc (lasm (comp_guards gr sn cc s))) \<le> length (mc (lasm ?g)) + 10"
    unfolding comp_guards_def Let_def by (rule comp_extra_len)
  moreover have "length (mc (lasm ?g)) \<le> length (mc (lasm s)) + 10" by (rule guard_len)
  ultimately show ?thesis by linarith
qed

lemma comp_guards_realign: "realign (comp_guards gr sn cc s) = realign s"
  by (simp add: comp_guards_def comp_extra_def asm_guardcc_x86_def Let_def)

theorem x86_fp_compare_witness:
  "\<exists>tl. mc (lasm (comp_guards (replicate 16 0x8000) 3 (comp_cc 8) loop0_x86)) = tl @ [] \<and>
     lands 2 (cc_holds (ucomisd_flags (Some (3 :: int)) None)) 0x10000 (tl @ []) = 0x800c"
proof -
  have l: "comp_swap (ucast (asm_compmap ! 8)) 1 2 = (1, 2, comp_cc 8)" by (simp add: comp_swap_eq swapped_8_9)
  have p: "mcp_x86 (lasm loop0_x86) = 0x10000" "mc (lasm loop0_x86) = []" "mctop (lasm loop0_x86) = 0x10000"
    by (simp_all add: loop0_x86_def mcp_x86_def empty_x86_def)
  have i: "invmcp loop0_x86 \<notin> {Some 0x10000, Some (0x10000 - 6)}" by (simp add: loop0_x86_def)
  have c: "checki32 (sint (exitstub_addr (replicate 16 0x8000) 3 - 0x10000))" "checki32 (sint (exitstub_addr (replicate 16 0x8000) 3 - (0x10000 - 6)))"
    using low_reaches [of "0x800c" "0x10000"] low_reaches [of "0x800c" "0xfffa"] by (simp_all add: exit_3)
  have v: "comp_means 8 (Some (3 :: int)) None = False" "any_val 1 = Some 3" "any_val 2 = None" by (simp_all add: comp_means_def any_val_def)
  have eight: "8 < (11 :: nat)" by simp
  show ?thesis
    using x86_fp_compare [OF eight l refl p(1) [symmetric] i c, of any_val] unfolding v swapped_8_9 exit_3 p(2,3) by simp
qed

theorem x86_fp_loop_witness:
  "\<exists>tl. mc (lasm (asm_loop_fixup_x86 (body [0x90] (comp_guards (replicate 16 0x8000) 3 (comp_cc 9) (asm_tail_prep_x86 (\<lambda>k. 0) loop0_x86))))) = [0x90] @ tl \<and>
     lands 3 (cc_holds (ucomisd_flags (Some (3 :: int)) None)) 0x10000 tl =
       mcp_x86 (lasm (body [0x90] (comp_guards (replicate 16 0x8000) 3 (comp_cc 9) (asm_tail_prep_x86 (\<lambda>k. 0) loop0_x86))))"
proof -
  let ?s1 = "asm_tail_prep_x86 (\<lambda>k. 0) loop0_x86"
  let ?s2 = "comp_guards (replicate 16 0x8000) 3 (comp_cc 9) ?s1"
  have nine: "9 < (11 :: nat)" by simp
  have l: "comp_swap (ucast (asm_compmap ! 9)) 1 2 = (1, 2, comp_cc 9)" by (simp add: comp_swap_eq swapped_8_9)
  have lr: "loopref loop0_x86 \<noteq> 0" by (simp add: loop0_x86_def)
  have top: "mctop (lasm ?s1) = 0x10000" by (simp add: loop0_x86_def asm_tail_prep_x86_def realign_pad_def empty_x86_def Let_def)
  have n: "realign ?s1 = None" "length (mc (lasm ?s1)) = 5" using prep_simps(2,3) [OF lr, of "\<lambda>k. 0"] by (simp_all add: loop0_x86_def)
  have "length (mc (lasm ?s2)) < 100" using comp_guards_len [of "replicate 16 0x8000" 3 "comp_cc 9" ?s1] n(2) by simp
  then have fits: "loop_fits (body [0x90] ?s2)"
    using n(1) by (simp add: loop_fits_def comp_guards_realign Let_def)
  have c: "\<forall>k \<le> 11. checki32 (sint (exitstub_addr (replicate 16 0x8000) 3 - (mctop (lasm ?s1) - of_nat k)))"
  proof (intro allI impI)
    fix k :: nat assume "k \<le> 11"
    then show "checki32 (sint (exitstub_addr (replicate 16 0x8000) 3 - (mctop (lasm ?s1) - of_nat k)))"
      using low_reaches [of "0x800c" "0x10000 - k"] by (simp add: exit_3 top of_nat_diff)
  qed
  have v: "comp_means 9 (Some (3 :: int)) None = True" "Suc 2 = 3" "any_val 1 = Some 3" "any_val 2 = None" by (simp_all add: comp_means_def any_val_def)
  show ?thesis
    using x86_fp_loop [OF nine l n(2) prep_simps(1) [OF lr] refl refl fits c, of any_val] unfolding v swapped_8_9 top if_True
    by blast
qed

end
