(* ===== verification/LJ_Collector.thy ===== *)
theory LJ_Collector
  imports LJ_Object
begin

text \<open>
  \<open>LuaJit/include/lj_gc.h\<close>: the colours of collectable objects, the write barriers of the
  incremental collector and the accounting of memory. The collector's state is the mark byte
  and list link of every object with the fields of \<open>GCState\<close> the header uses; the collector
  proper (\<open>lj_gc_step\<close>, \<open>lj_gc_barrierf\<close>) and the allocator are parameters.
\<close>

section \<open>Colours\<close>

datatype GCphase = GCSpause | GCSpropagate | GCSatomic | GCSsweepstring | GCSsweep | GCSfinalize

record gcheap =
  marked :: "64 word \<Rightarrow> 8 word"
  gclist :: "64 word \<Rightarrow> 64 word"
  currentwhite :: "8 word"
  grayagain :: "64 word"
  total :: "64 word"
  threshold :: "64 word"

definition LJ_GC_WHITE0 :: "8 word" where "LJ_GC_WHITE0 = 0x01"

definition LJ_GC_WHITE1 :: "8 word" where "LJ_GC_WHITE1 = 0x02"

definition LJ_GC_BLACK :: "8 word" where "LJ_GC_BLACK = 0x04"

definition LJ_GC_FINALIZED :: "8 word" where "LJ_GC_FINALIZED = 0x08"

definition LJ_GC_WEAKKEY :: "8 word" where "LJ_GC_WEAKKEY = 0x08"

definition LJ_GC_WEAKVAL :: "8 word" where "LJ_GC_WEAKVAL = 0x10"

definition LJ_GC_CDATA_FIN :: "8 word" where "LJ_GC_CDATA_FIN = 0x10"

definition LJ_GC_FIXED :: "8 word" where "LJ_GC_FIXED = 0x20"

definition LJ_GC_SFIXED :: "8 word" where "LJ_GC_SFIXED = 0x40"

definition LJ_GC_WHITES :: "8 word" where "LJ_GC_WHITES = LJ_GC_WHITE0 OR LJ_GC_WHITE1"

definition LJ_GC_COLORS :: "8 word" where "LJ_GC_COLORS = LJ_GC_WHITES OR LJ_GC_BLACK"

definition LJ_GC_WEAK :: "8 word" where "LJ_GC_WEAK = LJ_GC_WEAKKEY OR LJ_GC_WEAKVAL"

definition iswhite :: "gcheap \<Rightarrow> 64 word \<Rightarrow> bool" where
  "iswhite g x \<longleftrightarrow> marked g x AND LJ_GC_WHITES \<noteq> 0"

definition isblack :: "gcheap \<Rightarrow> 64 word \<Rightarrow> bool" where
  "isblack g x \<longleftrightarrow> marked g x AND LJ_GC_BLACK \<noteq> 0"

definition isgray :: "gcheap \<Rightarrow> 64 word \<Rightarrow> bool" where
  "isgray g x \<longleftrightarrow> marked g x AND (LJ_GC_BLACK OR LJ_GC_WHITES) = 0"

definition tviswhite :: "gcheap \<Rightarrow> 64 word \<Rightarrow> bool" where
  "tviswhite g u \<longleftrightarrow> tvisgcv u \<and> iswhite g (gcval u)"

definition otherwhite :: "gcheap \<Rightarrow> 8 word" where "otherwhite g = currentwhite g XOR LJ_GC_WHITES"

definition isdead :: "gcheap \<Rightarrow> 64 word \<Rightarrow> bool" where
  "isdead g v \<longleftrightarrow> marked g v AND otherwhite g AND LJ_GC_WHITES \<noteq> 0"

definition curwhite :: "gcheap \<Rightarrow> 8 word" where "curwhite g = currentwhite g AND LJ_GC_WHITES"

definition set_marked :: "64 word \<Rightarrow> 8 word \<Rightarrow> gcheap \<Rightarrow> gcheap" where
  "set_marked x b g = g\<lparr>marked := (marked g)(x := b)\<rparr>"

definition newwhite :: "gcheap \<Rightarrow> 64 word \<Rightarrow> gcheap" where
  "newwhite g x = set_marked x (curwhite g) g"

definition makewhite :: "gcheap \<Rightarrow> 64 word \<Rightarrow> gcheap" where
  "makewhite g x = set_marked x ((marked g x AND NOT LJ_GC_COLORS) OR curwhite g) g"

definition flipwhite :: "gcheap \<Rightarrow> 64 word \<Rightarrow> gcheap" where
  "flipwhite g x = set_marked x (marked g x XOR LJ_GC_WHITES) g"

definition black2gray :: "gcheap \<Rightarrow> 64 word \<Rightarrow> gcheap" where
  "black2gray g x = set_marked x (marked g x AND NOT LJ_GC_BLACK) g"

definition fixstring :: "gcheap \<Rightarrow> 64 word \<Rightarrow> gcheap" where
  "fixstring g s = set_marked s (marked g s OR LJ_GC_FIXED) g"

definition markfinalized :: "gcheap \<Rightarrow> 64 word \<Rightarrow> gcheap" where
  "markfinalized g x = set_marked x (marked g x OR LJ_GC_FINALIZED) g"

lemmas gc_masks = LJ_GC_WHITE0_def LJ_GC_WHITE1_def LJ_GC_BLACK_def LJ_GC_WHITES_def LJ_GC_COLORS_def

lemma gc_bits:
  "LJ_GC_WHITES = mask 2" "LJ_GC_BLACK = push_bit 2 1" "LJ_GC_COLORS = mask 3"
  "LJ_GC_FIXED = push_bit 5 1" "LJ_GC_FINALIZED = push_bit 3 1"
  by (simp_all add: gc_masks LJ_GC_FIXED_def LJ_GC_FINALIZED_def mask_eq_exp_minus_1)

lemma and_nonzero_bit: "(w :: 8 word) AND m \<noteq> 0 \<longleftrightarrow> (\<exists>k<8. bit w k \<and> bit m k)"
proof
  assume "w AND m \<noteq> 0"
  then obtain k where "bit (w AND m) k" using bit_word_eqI [of "w AND m" 0] by auto
  then have "bit w k \<and> bit m k" "k < 8" by (auto simp: bit_and_iff dest: bit_imp_le_length)
  then show "\<exists>k<8. bit w k \<and> bit m k" by blast
next
  assume "\<exists>k<8. bit w k \<and> bit m k"
  then obtain k where "bit (w AND m) k" by (auto simp: bit_and_iff)
  then show "w AND m \<noteq> 0" by auto
qed

lemma colour_bits:
  "iswhite g x \<longleftrightarrow> bit (marked g x) 0 \<or> bit (marked g x) 1"
  "isblack g x \<longleftrightarrow> bit (marked g x) 2"
proof -
  have "(\<exists>k<8. bit w k \<and> bit (mask 2 :: 8 word) k) \<longleftrightarrow> bit w 0 \<or> bit w 1" for w :: "8 word"
    by (auto simp: bit_mask_iff less_2_cases_iff intro: exI [of _ 0] exI [of _ "Suc 0"])
  then show "iswhite g x \<longleftrightarrow> bit (marked g x) 0 \<or> bit (marked g x) 1"
    unfolding iswhite_def and_nonzero_bit gc_bits .
  have "bit (push_bit 2 1 :: 8 word) k \<longleftrightarrow> k = 2" if "k < 8" for k
    using that by (simp only: bit_push_bit_iff bit_1_iff possible_bit_word) auto
  then have "(\<exists>k<8. bit w k \<and> bit (push_bit 2 1 :: 8 word) k) \<longleftrightarrow> bit w 2" for w :: "8 word"
    by (auto simp del: push_bit_of_1 intro!: exI [of _ 2])
  then show "isblack g x \<longleftrightarrow> bit (marked g x) 2"
    unfolding isblack_def and_nonzero_bit gc_bits .
qed

lemma isgray_iff: "isgray g x \<longleftrightarrow> \<not> iswhite g x \<and> \<not> isblack g x"
proof -
  have "w AND (LJ_GC_BLACK OR LJ_GC_WHITES) = 0 \<longleftrightarrow> w AND LJ_GC_BLACK = 0 \<and> w AND LJ_GC_WHITES = 0"
    for w :: "8 word"
    using and_nonzero_bit [of w "LJ_GC_BLACK OR LJ_GC_WHITES"] and_nonzero_bit [of w LJ_GC_BLACK]
      and_nonzero_bit [of w LJ_GC_WHITES] unfolding bit_or_iff by blast
  then show ?thesis by (auto simp: isgray_def iswhite_def isblack_def)
qed

lemma bit_black2gray:
  "bit (marked (black2gray g x) y) k \<longleftrightarrow> bit (marked g y) k \<and> (y = x \<longrightarrow> k \<noteq> 2)"
proof -
  have "bit (w AND NOT (push_bit 2 1)) k \<longleftrightarrow> bit w k \<and> k \<noteq> 2" for w :: "8 word" and k
    by (auto simp only: bit_and_iff bit_not_iff bit_push_bit_iff bit_1_iff possible_bit_word
        dest: bit_imp_le_length)
  then show ?thesis by (simp add: black2gray_def set_marked_def gc_bits(2) del: push_bit_of_1)
qed

lemma black2gray_colours [simp]:
  "isblack (black2gray g x) y \<longleftrightarrow> isblack g y \<and> y \<noteq> x"
  "iswhite (black2gray g x) y \<longleftrightarrow> iswhite g y"
  by (auto simp: colour_bits bit_black2gray)

section \<open>Write barriers\<close>

definition lj_gc_barrierback :: "gcheap \<Rightarrow> 64 word \<Rightarrow> gcheap" where
  "lj_gc_barrierback g t =
     (let g = black2gray g t; g = g\<lparr>gclist := (gclist g)(t := grayagain g)\<rparr> in
      g\<lparr>grayagain := t\<rparr>)"

definition lj_gc_anybarriert :: "gcheap \<Rightarrow> 64 word \<Rightarrow> gcheap" where
  "lj_gc_anybarriert g t = (if isblack g t then lj_gc_barrierback g t else g)"

definition lj_gc_barriert :: "gcheap \<Rightarrow> 64 word \<Rightarrow> 64 word \<Rightarrow> gcheap" where
  "lj_gc_barriert g t tv = (if tviswhite g tv \<and> isblack g t then lj_gc_barrierback g t else g)"

definition lj_gc_objbarriert :: "gcheap \<Rightarrow> 64 word \<Rightarrow> 64 word \<Rightarrow> gcheap" where
  "lj_gc_objbarriert g t obj = (if iswhite g obj \<and> isblack g t then lj_gc_barrierback g t else g)"

definition lj_gc_barrier :: "(gcheap \<Rightarrow> 64 word \<Rightarrow> 64 word \<Rightarrow> gcheap) \<Rightarrow> gcheap \<Rightarrow> 64 word \<Rightarrow> 64 word \<Rightarrow> gcheap" where
  "lj_gc_barrier barrierf g p tv =
     (if tviswhite g tv \<and> isblack g p then barrierf g p (gcval tv) else g)"

definition lj_gc_objbarrier :: "(gcheap \<Rightarrow> 64 word \<Rightarrow> 64 word \<Rightarrow> gcheap) \<Rightarrow> gcheap \<Rightarrow> 64 word \<Rightarrow> 64 word \<Rightarrow> gcheap" where
  "lj_gc_objbarrier barrierf g p obj = (if iswhite g obj \<and> isblack g p then barrierf g p obj else g)"

text \<open>
  The invariant of the collector: no black object refers to a white one. \<open>refs\<close> is the
  relation of references held in objects.
\<close>

definition no_black_to_white :: "(64 word \<times> 64 word) set \<Rightarrow> gcheap \<Rightarrow> bool" where
  "no_black_to_white refs g \<longleftrightarrow> (\<forall>(a, b) \<in> refs. \<not> (isblack g a \<and> iswhite g b))"

lemma barrierback_colours [simp]:
  "isblack (lj_gc_barrierback g t) y \<longleftrightarrow> isblack g y \<and> y \<noteq> t"
  "iswhite (lj_gc_barrierback g t) y \<longleftrightarrow> iswhite g y"
  by (auto simp: lj_gc_barrierback_def Let_def colour_bits bit_black2gray)

text \<open>The list of objects to traverse again in the atomic phase, from \<open>grayagain\<close> on.\<close>

inductive gray_chain :: "gcheap \<Rightarrow> 64 word \<Rightarrow> 64 word list \<Rightarrow> bool" for g where
  "gray_chain g 0 []"
| "x \<noteq> 0 \<Longrightarrow> gray_chain g (gclist g x) xs \<Longrightarrow> gray_chain g x (x # xs)"

inductive_simps gray_chain_Nil [simp]: "gray_chain g x []"
inductive_simps gray_chain_Cons [simp]: "gray_chain g x (y # ys)"

lemma gray_chain_cong:
  "gray_chain g x xs \<Longrightarrow> (\<And>y. y \<in> set xs \<Longrightarrow> gclist g' y = gclist g y) \<Longrightarrow> gray_chain g' x xs"
  by (induction rule: gray_chain.induct) auto

lemma barrierback_chain:
  assumes "gray_chain g (grayagain g) xs" "t \<notin> set xs" "t \<noteq> 0"
  shows "gray_chain (lj_gc_barrierback g t) (grayagain (lj_gc_barrierback g t)) (t # xs)"
proof -
  let ?g = "lj_gc_barrierback g t"
  have "gclist ?g = (gclist g)(t := grayagain g)" "grayagain ?g = t"
    by (simp_all add: lj_gc_barrierback_def black2gray_def set_marked_def)
  then show ?thesis using gray_chain_cong [OF assms(1), of ?g] assms(2,3) by simp metis
qed

text \<open>
  The forward barrier for other objects: \<open>lj_gc_barrierf\<close> either makes the object not black or
  the target not white, and changes no other colour for the worse.
\<close>

lemma forward_barrier_invariant:
  assumes "no_black_to_white refs g" "no_black_to_white refs (barrierf g p v)"
    and "\<not> (isblack (barrierf g p v) p \<and> iswhite (barrierf g p v) v)"
  shows "no_black_to_white (insert (p, v) refs) (lj_gc_objbarrier barrierf g p v)"
    "tvisgcv tv \<Longrightarrow> gcval tv = v \<Longrightarrow> no_black_to_white (insert (p, v) refs) (lj_gc_barrier barrierf g p tv)"
  using assms by (auto simp: no_black_to_white_def lj_gc_objbarrier_def lj_gc_barrier_def tviswhite_def)

text \<open>
  C25. Stores behind a write barrier keep the invariant of the incremental collector: if no
  black object refers to a white one, then none does after a reference, a tagged value or
  anything at all has been stored into a table with the barrier made for it; a table that was
  black is then gray, and queued in front of the objects to traverse again.
\<close>

theorem barriers_keep_invariant:
  assumes inv: "no_black_to_white refs g"
    and chain: "gray_chain g (grayagain g) xs" "t \<notin> set xs" "t \<noteq> 0" and tv: "tvisgcv tv"
  shows "no_black_to_white (insert (t, v) refs) (lj_gc_objbarriert g t v) \<and>
    no_black_to_white (insert (t, gcval tv) refs) (lj_gc_barriert g t tv) \<and>
    no_black_to_white (refs \<union> {t} \<times> V) (lj_gc_anybarriert g t) \<and>
    (isblack g t \<longrightarrow> isgray (lj_gc_anybarriert g t) t \<or> iswhite g t) \<and>
    (isblack g t \<longrightarrow>
      gray_chain (lj_gc_anybarriert g t) (grayagain (lj_gc_anybarriert g t)) (t # xs))"
  using inv barrierback_chain [OF chain] tv
  by (auto simp: no_black_to_white_def lj_gc_objbarriert_def lj_gc_barriert_def lj_gc_anybarriert_def
      tviswhite_def isgray_iff)

text \<open>A black table 16 that refers to the black 32 gets a reference to the white 48.\<close>

theorem barriers_keep_invariant_witness:
  "\<exists>g. isblack g 16 \<and> iswhite g 48 \<and> no_black_to_white {(16, 32), (16, 48)} (lj_gc_objbarriert g 16 48)"
proof -
  define g where "g = \<lparr>marked = \<lambda>x. if x = 48 then 1 else 4, gclist = \<lambda>x. 0, currentwhite = 1,
     grayagain = 0, total = 0, threshold = 0\<rparr>"
  have "isblack g 16" "iswhite g 48" "\<not> iswhite g 32"
    by (simp_all add: g_def isblack_def iswhite_def gc_masks)
  moreover from this have "no_black_to_white {(16, 32)} g" by (simp add: no_black_to_white_def)
  moreover have "gray_chain g (grayagain g) []" "tvisgcv (settabV 48)"
    using tagged_values [of 48 0] by (simp_all add: g_def gray_chain.intros)
  ultimately have "no_black_to_white {(16, 32), (16, 48)} (lj_gc_objbarriert g 16 48)"
    using barriers_keep_invariant [of "{(16, 32)}" g "[]" 16 "settabV 48" 48] by (simp add: insert_commute)
  then show ?thesis using \<open>isblack g 16\<close> \<open>iswhite g 48\<close> by blast
qed

section \<open>The two whites\<close>

text \<open>
  A new or recoloured object is never dead, and becomes so exactly when the current white
  flips while it has not been reached.
\<close>

lemma whites_alternate:
  assumes "currentwhite g \<in> {LJ_GC_WHITE0, LJ_GC_WHITE1}"
  shows "\<not> isdead (newwhite g x) x" "iswhite (newwhite g x) x" "\<not> isblack (newwhite g x) x"
    "\<not> isdead (makewhite g x) x"
    "isdead ((newwhite g x)\<lparr>currentwhite := currentwhite g XOR LJ_GC_WHITES\<rparr>) x"
proof -
  have c: "currentwhite g = 1 \<or> currentwhite g = 2" using assms by (auto simp: gc_masks)
  then show "\<not> isdead (newwhite g x) x" "iswhite (newwhite g x) x" "\<not> isblack (newwhite g x) x"
    "isdead ((newwhite g x)\<lparr>currentwhite := currentwhite g XOR LJ_GC_WHITES\<rparr>) x"
    by (auto simp: isdead_def iswhite_def isblack_def newwhite_def set_marked_def curwhite_def
        otherwhite_def gc_masks)
  show "\<not> isdead (makewhite g x) x"
    using c by (auto simp: isdead_def makewhite_def set_marked_def curwhite_def otherwhite_def gc_masks
        word_ao_dist and.assoc)
qed

section \<open>Steps and memory accounting\<close>

definition lj_gc_check :: "(gcheap \<Rightarrow> gcheap) \<Rightarrow> gcheap \<Rightarrow> gcheap" where
  "lj_gc_check step g = (if total g \<ge> threshold g then step g else g)"

definition lj_gc_check_fixtop :: "(gcheap \<Rightarrow> gcheap) \<Rightarrow> gcheap \<Rightarrow> gcheap" where
  "lj_gc_check_fixtop step g = (if total g \<ge> threshold g then step g else g)"

text \<open>
  The allocator \<open>allocf\<close> gets its data, a block, the old and the new size, and gives a block;
  \<open>realloc\<close> stands for \<open>lj_mem_realloc\<close>.
\<close>

type_synonym 'a allocf = "'a \<Rightarrow> 64 word \<Rightarrow> 64 word \<Rightarrow> 64 word \<Rightarrow> 64 word \<times> 'a"

type_synonym 'a realloc = "64 word \<Rightarrow> 64 word \<Rightarrow> 64 word \<Rightarrow> gcheap \<times> 'a \<Rightarrow> 64 word \<times> gcheap \<times> 'a"

definition lj_mem_new :: "'a realloc \<Rightarrow> 64 word \<Rightarrow> gcheap \<times> 'a \<Rightarrow> 64 word \<times> gcheap \<times> 'a" where
  "lj_mem_new realloc s = realloc 0 0 s"

definition lj_mem_free :: "'a allocf \<Rightarrow> 64 word \<Rightarrow> 64 word \<Rightarrow> gcheap \<times> 'a \<Rightarrow> gcheap \<times> 'a" where
  "lj_mem_free allocf p osize = (\<lambda>(g, d).
     (g\<lparr>total := total g - osize\<rparr>, snd (allocf d p osize 0)))"

definition lj_mem_newvec :: "'a realloc \<Rightarrow> 64 word \<Rightarrow> 64 word \<Rightarrow> gcheap \<times> 'a \<Rightarrow> 64 word \<times> gcheap \<times> 'a" where
  "lj_mem_newvec realloc n sz = lj_mem_new realloc (n * sz)"

definition lj_mem_reallocvec :: "'a realloc \<Rightarrow> 64 word \<Rightarrow> 64 word \<Rightarrow> 64 word \<Rightarrow> 64 word \<Rightarrow> gcheap \<times> 'a
    \<Rightarrow> 64 word \<times> gcheap \<times> 'a" where
  "lj_mem_reallocvec realloc p on n sz = realloc p (on * sz) (n * sz)"

definition lj_mem_freevec :: "'a allocf \<Rightarrow> 64 word \<Rightarrow> 64 word \<Rightarrow> 64 word \<Rightarrow> gcheap \<times> 'a \<Rightarrow> gcheap \<times> 'a" where
  "lj_mem_freevec allocf p n sz = lj_mem_free allocf p (n * sz)"

definition lj_mem_freet :: "'a allocf \<Rightarrow> 64 word \<Rightarrow> field list \<Rightarrow> gcheap \<times> 'a \<Rightarrow> gcheap \<times> 'a" where
  "lj_mem_freet allocf p S = lj_mem_free allocf p (of_nat (sizeof S))"

text \<open>An allocator that accounts for what it hands out: a vector freed leaves the total as before.\<close>

lemma vec_accounting:
  assumes "\<And>p os ns g d. total (fst (snd (realloc p os ns (g, d)))) = total g - os + ns"
  shows "total (fst (lj_mem_freevec allocf q n sz (snd (lj_mem_newvec realloc n sz (g, d))))) = total g"
  using assms [of 0 0 "n * sz" g d]
  by (simp add: lj_mem_freevec_def lj_mem_free_def lj_mem_newvec_def lj_mem_new_def case_prod_beta)

end
