(* ===== verification/LJ_Buffer.thy ===== *)
theory LJ_Buffer
  imports LJ_Collector
begin

text \<open>
  \<open>LuaJit/include/lj_buf.h\<close>: resizable string buffers. A buffer keeps a base, a write and an end pointer into
  the memory; an extended buffer has a read pointer besides and may be borrowed or copied on write. The functions of
  \<open>lj_buf.c\<close> that grow a buffer (\<open>lj_buf_need2\<close>, \<open>lj_buf_more2\<close>), the interning of strings and the allocator
  are parameters.
\<close>

section \<open>Buffers and their flags\<close>

text \<open>\<open>sb_ref\<close> is the union of \<open>cowref\<close> and \<open>bsb\<close>.\<close>

record SBuf =
  sb_w :: "64 word"
  sb_e :: "64 word"
  sb_b :: "64 word"
  sb_L :: "64 word"

record SBufExt = SBuf +
  sb_ref :: "64 word"
  sb_r :: "64 word"
  sb_dict_str :: "64 word"
  sb_dict_mt :: "64 word"
  sb_depth :: "32 word"

definition sbufsz :: "'a SBuf_scheme \<Rightarrow> 32 word" where "sbufsz sb = ucast (sb_e sb - sb_b sb)"

definition sbuflen :: "'a SBuf_scheme \<Rightarrow> 32 word" where "sbuflen sb = ucast (sb_w sb - sb_b sb)"

definition sbufleft :: "'a SBuf_scheme \<Rightarrow> 32 word" where "sbufleft sb = ucast (sb_e sb - sb_w sb)"

definition sbufxlen :: "'a SBufExt_scheme \<Rightarrow> 32 word" where "sbufxlen sb = ucast (sb_w sb - sb_r sb)"

definition sbufxslack :: "'a SBufExt_scheme \<Rightarrow> 32 word" where "sbufxslack sb = ucast (sb_r sb - sb_b sb)"

definition SBUF_MASK_FLAG :: "64 word" where "SBUF_MASK_FLAG = 7"

definition SBUF_MASK_L :: "64 word" where "SBUF_MASK_L = NOT SBUF_MASK_FLAG"

definition SBUF_FLAG_EXT :: "64 word" where "SBUF_FLAG_EXT = 1"

definition SBUF_FLAG_COW :: "64 word" where "SBUF_FLAG_COW = 2"

definition SBUF_FLAG_BORROW :: "64 word" where "SBUF_FLAG_BORROW = 4"

lemmas sbuf_flags = SBUF_MASK_FLAG_def SBUF_MASK_L_def SBUF_FLAG_EXT_def SBUF_FLAG_COW_def SBUF_FLAG_BORROW_def

definition sbufL :: "'a SBuf_scheme \<Rightarrow> 64 word" where "sbufL sb = sb_L sb AND SBUF_MASK_L"

definition setsbufL :: "64 word \<Rightarrow> 'a SBuf_scheme \<Rightarrow> 'a SBuf_scheme" where "setsbufL l sb = sb\<lparr>sb_L := l\<rparr>"

definition setsbufXL :: "64 word \<Rightarrow> 64 word \<Rightarrow> 'a SBuf_scheme \<Rightarrow> 'a SBuf_scheme" where
  "setsbufXL l flag sb = sb\<lparr>sb_L := l + flag\<rparr>"

definition setsbufXL_keep :: "64 word \<Rightarrow> 'a SBuf_scheme \<Rightarrow> 'a SBuf_scheme" where
  "setsbufXL_keep l sb = sb\<lparr>sb_L := l OR (sb_L sb AND SBUF_MASK_FLAG)\<rparr>"

definition sbufflag :: "'a SBuf_scheme \<Rightarrow> 64 word" where "sbufflag sb = sb_L sb"

definition sbufisext :: "'a SBuf_scheme \<Rightarrow> bool" where "sbufisext sb \<longleftrightarrow> sbufflag sb AND SBUF_FLAG_EXT \<noteq> 0"

definition sbufiscow :: "'a SBuf_scheme \<Rightarrow> bool" where "sbufiscow sb \<longleftrightarrow> sbufflag sb AND SBUF_FLAG_COW \<noteq> 0"

definition sbufisborrow :: "'a SBuf_scheme \<Rightarrow> bool" where
  "sbufisborrow sb \<longleftrightarrow> sbufflag sb AND SBUF_FLAG_BORROW \<noteq> 0"

definition sbufiscoworborrow :: "'a SBuf_scheme \<Rightarrow> bool" where
  "sbufiscoworborrow sb \<longleftrightarrow> sbufflag sb AND (SBUF_FLAG_COW OR SBUF_FLAG_BORROW) \<noteq> 0"

definition setsbufflag :: "64 word \<Rightarrow> 'a SBuf_scheme \<Rightarrow> 'a SBuf_scheme" where "setsbufflag flag sb = sb\<lparr>sb_L := flag\<rparr>"

definition UDTYPE_BUFFER :: "64 word" where "UDTYPE_BUFFER = 3"

definition tvisbuf :: "bool \<Rightarrow> mem \<Rightarrow> 64 word \<Rightarrow> bool" where
  "tvisbuf hasbuffer m u \<longleftrightarrow>
     hasbuffer \<and> tvisudata u \<and> mload 1 m (fld GCudata_s ''udtype'' (gcval u)) = UDTYPE_BUFFER"

definition bufV :: "64 word \<Rightarrow> 64 word" where "bufV u = uddata (gcval u)"

section \<open>Operations\<close>

definition lj_buf_init :: "64 word \<Rightarrow> 'a SBuf_scheme \<Rightarrow> 'a SBuf_scheme" where
  "lj_buf_init L sb = (setsbufL L sb)\<lparr>sb_b := 0, sb_e := 0, sb_w := 0\<rparr>"

definition lj_buf_reset :: "'a SBuf_scheme \<Rightarrow> 'a SBuf_scheme" where "lj_buf_reset sb = sb\<lparr>sb_w := sb_b sb\<rparr>"

text \<open>The argument is the buffer of the global state, \<open>tmpbuf\<close>.\<close>

definition lj_buf_tmpbuf :: "64 word \<Rightarrow> SBuf \<Rightarrow> SBuf" where "lj_buf_tmpbuf L tmpbuf = lj_buf_reset (setsbufL L tmpbuf)"

definition lj_buf_free :: "'d allocf \<Rightarrow> SBuf \<Rightarrow> gcheap \<times> 'd \<Rightarrow> gcheap \<times> 'd" where
  "lj_buf_free allocf sb = lj_mem_free allocf (sb_b sb) (ucast (sbufsz sb))"

type_synonym grow = "SBuf \<Rightarrow> 32 word \<Rightarrow> mem \<Rightarrow> 64 word \<times> SBuf \<times> mem"

definition lj_buf_need :: "grow \<Rightarrow> grow" where
  "lj_buf_need need2 sb sz m = (if sz > sbufsz sb then need2 sb sz m else (sb_b sb, sb, m))"

definition lj_buf_more :: "grow \<Rightarrow> grow" where
  "lj_buf_more more2 sb sz m = (if sz > sbufleft sb then more2 sb sz m else (sb_w sb, sb, m))"

definition lj_bufx_init :: "64 word \<Rightarrow> SBufExt" where
  "lj_bufx_init L = setsbufXL L SBUF_FLAG_EXT \<lparr>sb_w = 0, sb_e = 0, sb_b = 0, sb_L = 0, sb_ref = 0, sb_r = 0,
     sb_dict_str = 0, sb_dict_mt = 0, sb_depth = 0\<rparr>"

text \<open>\<open>p\<close> is the address of the borrowed buffer \<open>sb\<close>.\<close>

definition lj_bufx_set_borrow :: "64 word \<Rightarrow> 64 word \<Rightarrow> SBuf \<Rightarrow> SBufExt \<Rightarrow> SBufExt" where
  "lj_bufx_set_borrow L p sb sbx = (setsbufXL L (SBUF_FLAG_EXT OR SBUF_FLAG_BORROW) sbx)
     \<lparr>sb_ref := p, sb_b := sb_b sb, sb_w := sb_b sb, sb_r := sb_b sb, sb_e := sb_e sb\<rparr>"

definition lj_bufx_set_cow :: "64 word \<Rightarrow> 64 word \<Rightarrow> 32 word \<Rightarrow> SBufExt \<Rightarrow> SBufExt" where
  "lj_bufx_set_cow L p len sbx = (setsbufXL L (SBUF_FLAG_EXT OR SBUF_FLAG_COW) sbx)
     \<lparr>sb_b := p, sb_r := p, sb_e := p + ucast len, sb_w := p + ucast len\<rparr>"

definition lj_bufx_reset :: "SBufExt \<Rightarrow> SBufExt" where
  "lj_bufx_reset sbx =
     (let sbx = (if sbufiscow sbx
                 then sbx\<lparr>sb_L := sb_L sbx AND NOT SBUF_FLAG_COW, sb_ref := 0, sb_e := 0, sb_b := 0\<rparr>
                 else sbx)
      in sbx\<lparr>sb_w := sb_b sbx, sb_r := sb_b sbx\<rparr>)"

definition lj_bufx_free :: "'d allocf \<Rightarrow> 64 word \<Rightarrow> SBufExt \<Rightarrow> gcheap \<times> 'd \<Rightarrow> SBufExt \<times> gcheap \<times> 'd" where
  "lj_bufx_free allocf L sbx h =
     (let h = (if \<not> sbufiscoworborrow sbx then lj_mem_free allocf (sb_b sbx) (ucast (sbufsz sbx)) h else h)
      in ((setsbufXL L SBUF_FLAG_EXT sbx)\<lparr>sb_ref := 0, sb_e := 0, sb_b := 0, sb_w := 0, sb_r := 0\<rparr>, h))"

definition mem_copy :: "mem \<Rightarrow> 64 word \<Rightarrow> 64 word \<Rightarrow> 64 word \<Rightarrow> mem" where
  "mem_copy m p q len = (\<lambda>a. if a - p < len then m (q + (a - p)) else m a)"

definition lj_buf_wmem :: "64 word \<Rightarrow> 64 word \<Rightarrow> 32 word \<Rightarrow> mem \<Rightarrow> 64 word \<times> mem" where
  "lj_buf_wmem p q len m = (p + ucast len, mem_copy m p q (ucast len))"

definition lj_buf_putb :: "grow \<Rightarrow> SBuf \<Rightarrow> 32 word \<Rightarrow> mem \<Rightarrow> SBuf \<times> mem" where
  "lj_buf_putb more2 sb c m =
     (let (w, sb, m) = lj_buf_more more2 sb 1 m
      in (sb\<lparr>sb_w := w + 1\<rparr>, m(w := ucast c)))"

text \<open>\<open>str_new\<close> stands for \<open>lj_str_new\<close>, which gets the start and the length of the text.\<close>

definition lj_buf_str :: "(64 word \<Rightarrow> 32 word \<Rightarrow> 's) \<Rightarrow> 'a SBuf_scheme \<Rightarrow> 's" where
  "lj_buf_str str_new sb = str_new (sb_b sb) (sbuflen sb)"

section \<open>Flags and the Lua state share a word\<close>

lemma aligned_flags:
  assumes "l AND 7 = (0 :: 64 word)" "f \<le> 7"
  shows "l + f = l OR f" "(l OR f) AND NOT 7 = l" "(l OR f) AND 7 = f"
proof -
  have m: "(7 :: 64 word) = mask 3" by (simp add: mask_eq_exp_minus_1)
  have l: "3 \<le> n" if "bit l n" for n
    using arg_cong [OF assms(1) [unfolded m], of "\<lambda>w. bit w n"] that by (simp add: bit_simps not_less) linarith
  have "unat f < 2 ^ 3" using assms(2) by (simp add: word_le_nat_alt)
  then have f: "n < 3" if "bit f n" for n using that small64_bits [of f 3 n] by (meson not_le)
  show "l + f = l OR f" by (rule disjunctive_add) (use l f in \<open>fastforce dest: leD\<close>)
  show "(l OR f) AND NOT 7 = l" "(l OR f) AND 7 = f"
    unfolding m by (rule bit_word_eqI; auto simp: bit_simps dest: l f)+
qed

theorem sbufXL_roundtrip:
  assumes "l AND 7 = 0" "f \<le> 7"
  shows "sbufL (setsbufXL l f sb) = l" "sbufisext (setsbufXL l f sb) \<longleftrightarrow> f AND 1 \<noteq> 0"
    "sbufiscow (setsbufXL l f sb) \<longleftrightarrow> f AND 2 \<noteq> 0" "sbufisborrow (setsbufXL l f sb) \<longleftrightarrow> f AND 4 \<noteq> 0"
    "sbufiscoworborrow (setsbufXL l f sb) \<longleftrightarrow> f AND 6 \<noteq> 0"
    "setsbufXL_keep l' (setsbufXL l f sb) = setsbufXL l' f sb \<or> l' AND 7 \<noteq> 0"
proof -
  note a = aligned_flags [OF assms]
  have b: "(l OR f) AND k = f AND k" if "7 AND k = k" for k
    using arg_cong [OF a(3), of "\<lambda>x. x AND k"] that by (simp add: and.assoc)
  show "sbufL (setsbufXL l f sb) = l" using a by (simp add: sbufL_def setsbufXL_def sbuf_flags)
  show "sbufisext (setsbufXL l f sb) \<longleftrightarrow> f AND 1 \<noteq> 0" "sbufiscow (setsbufXL l f sb) \<longleftrightarrow> f AND 2 \<noteq> 0"
    "sbufisborrow (setsbufXL l f sb) \<longleftrightarrow> f AND 4 \<noteq> 0" "sbufiscoworborrow (setsbufXL l f sb) \<longleftrightarrow> f AND 6 \<noteq> 0"
    by (simp_all add: sbufisext_def sbufiscow_def sbufisborrow_def sbufiscoworborrow_def sbufflag_def setsbufXL_def
        sbuf_flags a(1) b)
  show "setsbufXL_keep l' (setsbufXL l f sb) = setsbufXL l' f sb \<or> l' AND 7 \<noteq> 0"
    using aligned_flags(1) [of l' f] assms a by (auto simp: setsbufXL_keep_def setsbufXL_def sbuf_flags)
qed

section \<open>A buffer is a list of bytes\<close>

text \<open>
  A buffer is well formed if its pointers are in order and its size fits the 32 bit type of sizes. What it holds are
  the bytes from the base to the write pointer.
\<close>

definition buf_ok :: "'a SBuf_scheme \<Rightarrow> bool" where
  "buf_ok sb \<longleftrightarrow> sb_b sb \<le> sb_w sb \<and> sb_w sb \<le> sb_e sb \<and> sb_e sb - sb_b sb < 2 ^ 32"

definition buf_bytes :: "mem \<Rightarrow> 'a SBuf_scheme \<Rightarrow> 8 word list" where
  "buf_bytes m sb = List.map (\<lambda>i. m (sb_b sb + of_nat i)) [0..<unat (sbuflen sb)]"

definition LJ_MAX_BUF :: "32 word" where "LJ_MAX_BUF = 0x7fffff00"

text \<open>
  What the header relies on when it calls \<open>lj_buf_more2\<close>: below the maximal length the result is a well formed
  buffer of the same bytes with the space asked for, and the write pointer is returned.
\<close>

definition grows :: "grow \<Rightarrow> bool" where
  "grows more2 \<longleftrightarrow> (\<forall>sb sz m. buf_ok sb \<longrightarrow> unat (sbuflen sb) + unat sz \<le> unat LJ_MAX_BUF \<longrightarrow>
     (case more2 sb sz m of (w, sb', m') \<Rightarrow>
        w = sb_w sb' \<and> buf_ok sb' \<and> sz \<le> sbufleft sb' \<and> buf_bytes m' sb' = buf_bytes m sb))"

lemma unat_down: "x < 2 ^ 32 \<Longrightarrow> unat (ucast (x :: 64 word) :: 32 word) = unat x"
  by (simp add: unsigned_ucast_eq unsigned_take_bit_eq take_bit_nat_eq_self word_less_nat_alt)

lemma unat_up: "unat (ucast (x :: 32 word) :: 64 word) = unat x"
proof -
  have "unat x < 2 ^ LENGTH(32)" by (rule unsigned_less)
  then show ?thesis by (simp add: unsigned_ucast_eq take_bit_nat_eq_self)
qed

lemma ucast_down_up: "ucast (ucast (x :: 32 word) :: 64 word) = x"
  by (rule bit_word_eqI) (simp add: bit_simps)

lemma buf_lengths:
  assumes "buf_ok sb"
  shows "unat (sbufsz sb) = unat (sb_e sb) - unat (sb_b sb)" "unat (sbuflen sb) = unat (sb_w sb) - unat (sb_b sb)"
    "unat (sbufleft sb) = unat (sb_e sb) - unat (sb_w sb)" "unat (sbufsz sb) = unat (sbuflen sb) + unat (sbufleft sb)"
proof -
  have le: "unat (sb_b sb) \<le> unat (sb_w sb)" "unat (sb_w sb) \<le> unat (sb_e sb)" "unat (sb_e sb) - unat (sb_b sb) < 2 ^ 32"
    using assms by (auto simp: buf_ok_def word_le_nat_alt word_less_nat_alt unat_sub)
  have d: "unat (sb_e sb - sb_b sb) = unat (sb_e sb) - unat (sb_b sb)" "unat (sb_w sb - sb_b sb) = unat (sb_w sb) - unat (sb_b sb)"
    "unat (sb_e sb - sb_w sb) = unat (sb_e sb) - unat (sb_w sb)"
    using le by (simp_all add: unat_sub word_le_nat_alt)
  show "unat (sbufsz sb) = unat (sb_e sb) - unat (sb_b sb)" "unat (sbuflen sb) = unat (sb_w sb) - unat (sb_b sb)"
    "unat (sbufleft sb) = unat (sb_e sb) - unat (sb_w sb)"
    using le d by (simp_all add: sbufsz_def sbuflen_def sbufleft_def unat_down word_less_nat_alt)
  then show "unat (sbufsz sb) = unat (sbuflen sb) + unat (sbufleft sb)" using le by simp
qed

lemma more_room:
  assumes "grows more2" "buf_ok sb" "unat (sbuflen sb) + unat sz \<le> unat LJ_MAX_BUF" "lj_buf_more more2 sb sz m = (w, sb', m')"
  shows "w = sb_w sb'" "buf_ok sb'" "sz \<le> sbufleft sb'" "buf_bytes m' sb' = buf_bytes m sb"
  using assms(1) [unfolded grows_def, rule_format, OF assms(2,3), of m] assms(2,4)
  by (auto simp: lj_buf_more_def split: if_splits)

text \<open>Writing behind the bytes of a buffer with room.\<close>

lemma put_room:
  assumes ok: "buf_ok sb" and room: "1 \<le> sbufleft sb"
  shows "buf_ok (sb\<lparr>sb_w := sb_w sb + 1\<rparr>)" "buf_bytes (m(sb_w sb := c)) (sb\<lparr>sb_w := sb_w sb + 1\<rparr>) = buf_bytes m sb @ [c]"
proof -
  let ?s = "sb\<lparr>sb_w := sb_w sb + 1\<rparr>"
  note l = buf_lengths [OF ok]
  have "1 \<le> unat (sbufleft sb)" using room by (simp add: word_le_nat_alt)
  then have lt: "unat (sb_w sb) < unat (sb_e sb)" using l by simp
  moreover have "unat (sb_e sb) < 2 ^ LENGTH(64)" by (rule unsigned_less)
  ultimately have w: "unat (sb_w sb + 1) = Suc (unat (sb_w sb))"
    by (simp add: unat_word_ariths)
  show ok': "buf_ok ?s" using ok lt w by (auto simp: buf_ok_def word_le_nat_alt)
  have n: "unat (sbuflen ?s) = Suc (unat (sbuflen sb))"
    using buf_lengths(2) [OF ok'] l(2) w ok by (simp add: buf_ok_def word_le_nat_alt Suc_diff_le)
  have e: "sb_b sb + of_nat (unat (sbuflen sb)) = sb_w sb"
    using ok l(2) by (simp add: buf_ok_def word_le_nat_alt of_nat_diff)
  have "sb_b sb + of_nat i \<noteq> sb_w sb" if "i < unat (sbuflen sb)" for i
  proof
    assume "sb_b sb + of_nat i = sb_w sb"
    then have "(of_nat i :: 64 word) = of_nat (unat (sbuflen sb))" using e by (metis add_left_cancel)
    then have "unat (of_nat i :: 64 word) = unat (of_nat (unat (sbuflen sb)) :: 64 word)" by (rule arg_cong)
    moreover have "unat (sbuflen sb) < 2 ^ LENGTH(32)" by (rule unsigned_less)
    ultimately show False using that by (simp add: unat_of_nat take_bit_nat_eq_self del: of_nat_unat)
  qed
  then show "buf_bytes (m(sb_w sb := c)) ?s = buf_bytes m sb @ [c]"
    unfolding buf_bytes_def n using e by (auto simp del: of_nat_unat)
qed

text \<open>
  C32. Appending bytes one by one refines appending to a list: a well formed buffer that holds the bytes \<open>xs\<close> holds
  \<open>xs @ bs\<close> after \<open>lj_buf_putb\<close> for each of \<open>bs\<close>, is well formed, and grows when it has to, as long as the
  maximal length is not exceeded.
\<close>

theorem puts_refine_append:
  "grows more2 \<Longrightarrow> buf_ok sb \<Longrightarrow> length (buf_bytes m sb) + length cs \<le> unat LJ_MAX_BUF \<Longrightarrow>
   (case foldl (\<lambda>(sb, m) c. lj_buf_putb more2 sb c m) (sb, m) cs of (sb', m') \<Rightarrow>
      buf_ok sb' \<and> buf_bytes m' sb' = buf_bytes m sb @ List.map ucast cs)"
proof (induction cs arbitrary: sb m)
  case (Cons c cs)
  obtain w s1 m1 where 1: "lj_buf_more more2 sb 1 m = (w, s1, m1)" by (cases "lj_buf_more more2 sb 1 m")
  have len: "length (buf_bytes m sb) = unat (sbuflen sb)" by (simp add: buf_bytes_def)
  have "unat (sbuflen sb) + unat (1 :: 32 word) \<le> unat LJ_MAX_BUF" using Cons.prems(3) by (simp add: len)
  note r = more_room [OF Cons.prems(1,2) this 1]
  note p = put_room [OF r(2,3)]
  have q: "lj_buf_putb more2 sb c m = (s1\<lparr>sb_w := sb_w s1 + 1\<rparr>, m1(sb_w s1 := ucast c))"
    by (simp add: lj_buf_putb_def 1 r(1))
  have b: "buf_bytes (m1(sb_w s1 := ucast c)) (s1\<lparr>sb_w := sb_w s1 + 1\<rparr>) = buf_bytes m sb @ [ucast c]"
    using p(2) r(4) by simp
  show ?case
    using Cons.IH [OF Cons.prems(1) p(1), of "m1(sb_w s1 := ucast c)", unfolded b] Cons.prems(3)
    by (simp add: q del: fun_upd_apply)
qed simp

text \<open>A function that grows buffers: it moves the bytes to a block at a fixed address, one byte behind the null pointer.\<close>

definition grow_to :: grow where
  "grow_to sb sz m =
     (let n = ucast (sbuflen sb); w = 1 + n
      in (w, sb\<lparr>sb_b := 1, sb_w := w, sb_e := w + ucast sz\<rparr>, mem_copy m 1 (sb_b sb) n))"

lemma grow_to_grows: "grows grow_to"
  unfolding grows_def
proof (intro allI impI)
  fix sb :: SBuf and sz :: "32 word" and m
  assume ok: "buf_ok sb" and le: "unat (sbuflen sb) + unat sz \<le> unat LJ_MAX_BUF"
  let ?s = "sb\<lparr>sb_b := 1, sb_w := 1 + ucast (sbuflen sb), sb_e := 1 + ucast (sbuflen sb) + ucast sz\<rparr>"
  have le: "unat (sbuflen sb) + unat sz \<le> 0x7fffff00" using le by (simp add: LJ_MAX_BUF_def)
  have w: "unat (1 + ucast (sbuflen sb) :: 64 word) = 1 + unat (sbuflen sb)"
    using le by (simp add: unat_word_ariths unat_up)
  have e: "unat (1 + ucast (sbuflen sb) + ucast sz :: 64 word) = 1 + unat (sbuflen sb) + unat sz"
    using le by (simp add: unat_word_ariths unat_up)
  have "unat (ucast (sbuflen sb) + ucast sz :: 64 word) = unat (sbuflen sb) + unat sz"
    using le by (simp add: unat_word_ariths unat_up)
  then have ok': "buf_ok ?s" using le w e by (simp add: buf_ok_def word_le_nat_alt word_less_nat_alt)
  note l = buf_lengths [OF ok']
  have n: "sbuflen ?s = sbuflen sb" and "sz \<le> sbufleft ?s"
    using l w e by (simp_all add: word_le_nat_alt word_unat_eq_iff)
  moreover have "mem_copy m 1 (sb_b sb) (ucast (sbuflen sb)) (1 + of_nat i) = m (sb_b sb + of_nat i)"
    if "i < unat (sbuflen sb)" for i
    using that le by (simp add: mem_copy_def word_less_nat_alt unat_of_nat take_bit_nat_eq_self unat_up)
  ultimately show "case grow_to sb sz m of (w, sb', m') \<Rightarrow>
      w = sb_w sb' \<and> buf_ok sb' \<and> sz \<le> sbufleft sb' \<and> buf_bytes m' sb' = buf_bytes m sb"
    using ok' by (simp add: grow_to_def Let_def buf_bytes_def n)
qed

definition empty_buffer :: SBuf where "empty_buffer = lj_buf_init 0x1000 \<lparr>sb_w = 9, sb_e = 9, sb_b = 9, sb_L = 9\<rparr>"

theorem puts_refine_append_witness:
  "case foldl (\<lambda>(sb, m) c. lj_buf_putb grow_to sb c m) (empty_buffer, \<lambda>_. 0) [76, 117, 97] of (sb', m') \<Rightarrow>
     buf_ok sb' \<and> buf_bytes m' sb' = [76, 117, 97]"
proof -
  have "buf_ok empty_buffer" "buf_bytes (\<lambda>_. 0) empty_buffer = []"
    by (simp_all add: empty_buffer_def lj_buf_init_def setsbufL_def buf_ok_def buf_bytes_def sbuflen_def)
  then show ?thesis
    using puts_refine_append [OF grow_to_grows, of empty_buffer "\<lambda>_. 0" "[76, 117, 97]"]
    by (simp add: LJ_MAX_BUF_def split: prod.splits)
qed

section \<open>Extended buffers\<close>

text \<open>The bytes not read yet are those from the read pointer to the write pointer.\<close>

definition bufx_bytes :: "mem \<Rightarrow> SBufExt \<Rightarrow> 8 word list" where
  "bufx_bytes m sbx = List.map (\<lambda>i. m (sb_r sbx + of_nat i)) [0..<unat (sbufxlen sbx)]"

text \<open>
  A copy-on-write buffer reads as the text it refers to; a reset empties a buffer and gives up the text;
  and a buffer frees what it owns once.
\<close>

theorem bufx_life:
  assumes "L AND 7 = 0"
  shows "bufx_bytes m (lj_bufx_set_cow L p n sbx) = List.map (\<lambda>i. m (p + of_nat i)) [0..<unat n]"
    "sbufiscow (lj_bufx_set_cow L p n sbx)" "sbufisborrow (lj_bufx_set_borrow L q sb sbx)"
    "bufx_bytes m (lj_bufx_reset sbx) = []" "\<not> sbufiscow (lj_bufx_reset sbx)"
    "lj_bufx_free allocf L (lj_bufx_set_cow L p n sbx) h = (fst (lj_bufx_free allocf L sbx h), h)"
    "lj_bufx_free allocf L (lj_bufx_set_borrow L q sb sbx) h = (fst (lj_bufx_free allocf L sbx h), h)"
    "fst (snd (lj_bufx_free allocf L (fst (lj_bufx_free allocf L sbx h)) h')) = fst h'"
proof -
  have f: "(3 :: 64 word) \<le> 7" "(5 :: 64 word) \<le> 7" "(1 :: 64 word) \<le> 7" by simp_all
  note fl = sbufXL_roundtrip [OF assms f(1)] sbufXL_roundtrip [OF assms f(2)] sbufXL_roundtrip [OF assms f(3)]
  have c: "sbufiscow (lj_bufx_set_cow L p n sbx)" "sbufiscoworborrow (lj_bufx_set_cow L p n sbx)"
    "sbufiscoworborrow (lj_bufx_set_borrow L q sb sbx)" "sbufisborrow (lj_bufx_set_borrow L q sb sbx)" for sbx
    using fl by (simp_all add: lj_bufx_set_cow_def lj_bufx_set_borrow_def sbufiscow_def sbufiscoworborrow_def
        sbufisborrow_def sbufflag_def sbuf_flags setsbufXL_def)
  show "sbufiscow (lj_bufx_set_cow L p n sbx)" "sbufisborrow (lj_bufx_set_borrow L q sb sbx)" by (rule c)+
  show "bufx_bytes m (lj_bufx_set_cow L p n sbx) = List.map (\<lambda>i. m (p + of_nat i)) [0..<unat n]"
    by (simp add: bufx_bytes_def lj_bufx_set_cow_def sbufxlen_def setsbufXL_def ucast_down_up)
  show "bufx_bytes m (lj_bufx_reset sbx) = []"
    by (simp add: bufx_bytes_def lj_bufx_reset_def sbufxlen_def Let_def)
  have "(x AND NOT SBUF_FLAG_COW) AND SBUF_FLAG_COW = 0" for x by (simp add: and.assoc)
  then show "\<not> sbufiscow (lj_bufx_reset sbx)"
    by (auto simp: lj_bufx_reset_def sbufiscow_def sbufflag_def Let_def)
  show "lj_bufx_free allocf L (lj_bufx_set_cow L p n sbx) h = (fst (lj_bufx_free allocf L sbx h), h)"
    "lj_bufx_free allocf L (lj_bufx_set_borrow L q sb sbx) h = (fst (lj_bufx_free allocf L sbx h), h)"
    by (simp_all add: lj_bufx_free_def Let_def c) (simp_all add: lj_bufx_set_cow_def lj_bufx_set_borrow_def setsbufXL_def)
  show "fst (snd (lj_bufx_free allocf L (fst (lj_bufx_free allocf L sbx h)) h')) = fst h'"
    by (cases h') (simp add: lj_bufx_free_def Let_def lj_mem_free_def sbufsz_def setsbufXL_def)
qed

end
