(* ===== verification/LJ_Frame.thy ===== *)
theory LJ_Frame
  imports LJ_Object LJ_Bytecode
begin

text \<open>
  \<open>LuaJit/include/lj_frame.h\<close>: frames of the Lua stack, with two slots of information each
  (\<open>LJ_FR2\<close>, which 64 bit references require), and frames of the C stack on x64. A frame is the
  address of the slot that holds its marker: the return address of a call from Lua, or the size of the
  frame with its kind in the low three bits.
\<close>

section \<open>Lua frames\<close>

definition FRAME_LUA :: "64 word" where "FRAME_LUA = 0"

definition FRAME_C :: "64 word" where "FRAME_C = 1"

definition FRAME_CONT :: "64 word" where "FRAME_CONT = 2"

definition FRAME_VARG :: "64 word" where "FRAME_VARG = 3"

definition FRAME_LUAP :: "64 word" where "FRAME_LUAP = 4"

definition FRAME_CP :: "64 word" where "FRAME_CP = 5"

definition FRAME_PCALL :: "64 word" where "FRAME_PCALL = 6"

definition FRAME_PCALLH :: "64 word" where "FRAME_PCALLH = 7"

definition FRAME_TYPE :: "64 word" where "FRAME_TYPE = 3"

definition FRAME_P :: "64 word" where "FRAME_P = 4"

definition FRAME_TYPEP :: "64 word" where "FRAME_TYPEP = FRAME_TYPE OR FRAME_P"

lemmas frame_kinds = FRAME_LUA_def FRAME_C_def FRAME_CONT_def FRAME_VARG_def FRAME_LUAP_def FRAME_CP_def
  FRAME_PCALL_def FRAME_PCALLH_def FRAME_TYPE_def FRAME_P_def FRAME_TYPEP_def

definition frame_gc :: "mem \<Rightarrow> 64 word \<Rightarrow> 64 word" where "frame_gc m f = gcval (mload 8 m (f - 8))"

definition frame_ftsz :: "mem \<Rightarrow> 64 word \<Rightarrow> 64 word" where "frame_ftsz m f = mload 8 m f"

definition frame_pc :: "mem \<Rightarrow> 64 word \<Rightarrow> 64 word" where "frame_pc m f = frame_ftsz m f"

definition setframe_gc :: "mem \<Rightarrow> 64 word \<Rightarrow> 64 word \<Rightarrow> 32 word \<Rightarrow> mem" where
  "setframe_gc m f p tp = mstore 8 m f (setgcVraw p tp)"

definition setframe_ftsz :: "mem \<Rightarrow> 64 word \<Rightarrow> 64 word \<Rightarrow> mem" where "setframe_ftsz m f sz = mstore 8 m f sz"

definition setframe_pc :: "mem \<Rightarrow> 64 word \<Rightarrow> 64 word \<Rightarrow> mem" where "setframe_pc m f pc = mstore 8 m f pc"

definition frame_type :: "mem \<Rightarrow> 64 word \<Rightarrow> 64 word" where "frame_type m f = frame_ftsz m f AND FRAME_TYPE"

definition frame_typep :: "mem \<Rightarrow> 64 word \<Rightarrow> 64 word" where "frame_typep m f = frame_ftsz m f AND FRAME_TYPEP"

definition frame_islua :: "mem \<Rightarrow> 64 word \<Rightarrow> bool" where "frame_islua m f \<longleftrightarrow> frame_type m f = FRAME_LUA"

definition frame_isc :: "mem \<Rightarrow> 64 word \<Rightarrow> bool" where "frame_isc m f \<longleftrightarrow> frame_type m f = FRAME_C"

definition frame_iscont :: "mem \<Rightarrow> 64 word \<Rightarrow> bool" where "frame_iscont m f \<longleftrightarrow> frame_typep m f = FRAME_CONT"

definition frame_isvarg :: "mem \<Rightarrow> 64 word \<Rightarrow> bool" where "frame_isvarg m f \<longleftrightarrow> frame_typep m f = FRAME_VARG"

definition frame_ispcall :: "mem \<Rightarrow> 64 word \<Rightarrow> bool" where
  "frame_ispcall m f \<longleftrightarrow> frame_ftsz m f AND 6 = FRAME_PCALL"

definition frame_func :: "mem \<Rightarrow> 64 word \<Rightarrow> 64 word" where "frame_func m f = frame_gc m f"

definition frame_delta :: "mem \<Rightarrow> 64 word \<Rightarrow> 64 word" where "frame_delta m f = signed_drop_bit 3 (frame_ftsz m f)"

definition frame_sized :: "mem \<Rightarrow> 64 word \<Rightarrow> 64 word" where "frame_sized m f = frame_ftsz m f AND NOT FRAME_TYPEP"

definition LJ_CONT_TAILCALL :: "64 word" where "LJ_CONT_TAILCALL = 0"

definition LJ_CONT_FFI_CALLBACK :: "64 word" where "LJ_CONT_FFI_CALLBACK = 1"

definition frame_contpc :: "mem \<Rightarrow> 64 word \<Rightarrow> 64 word" where "frame_contpc m f = frame_pc m (f - 2 * 8)"

definition frame_contv :: "mem \<Rightarrow> 64 word \<Rightarrow> 64 word" where "frame_contv m f = mload 8 m (f - 3 * 8)"

definition frame_contf :: "mem \<Rightarrow> 64 word \<Rightarrow> 64 word" where "frame_contf m f = mload 8 m (f - 3 * 8)"

definition frame_iscont_fficb :: "bool \<Rightarrow> mem \<Rightarrow> 64 word \<Rightarrow> bool" where
  "frame_iscont_fficb hasffi m f \<longleftrightarrow> hasffi \<and> frame_contv m f = LJ_CONT_FFI_CALLBACK"

text \<open>The slot of the called function is the A operand of the call instruction before the return address.\<close>

definition frame_prevl :: "mem \<Rightarrow> 64 word \<Rightarrow> 64 word" where
  "frame_prevl m f = f - 8 * (1 + 1 + ucast (bc_a (ucast (mload 4 m (frame_pc m f - 4)))))"

definition frame_prevd :: "mem \<Rightarrow> 64 word \<Rightarrow> 64 word" where "frame_prevd m f = f - frame_sized m f"

definition frame_prev :: "mem \<Rightarrow> 64 word \<Rightarrow> 64 word" where
  "frame_prev m f = (if frame_islua m f then frame_prevl m f else frame_prevd m f)"

section \<open>C frames\<close>

text \<open>
  The slots of a C frame are those of the assembler code of each target. \<open>OFS_SEH\<close> exists on x86
  with Windows only; \<open>SIZE_JIT\<close> is \<open>SIZE\<close> where the target does not define it. The parameters stand
  for \<open>LJ_ABI_WIN\<close>, \<open>LJ_GC64\<close>, \<open>LJ_NO_UNWIND\<close> and \<open>LJ_ARCH_HASFPU\<close>.
\<close>

record cframe_layout =
  CFRAME_OFS_ERRF :: nat
  CFRAME_OFS_NRES :: nat
  CFRAME_OFS_PREV :: nat
  CFRAME_OFS_L :: nat
  CFRAME_OFS_SEH :: "nat option"
  CFRAME_OFS_PC :: nat
  CFRAME_OFS_MULTRES :: nat
  CFRAME_SIZE :: nat
  CFRAME_SIZE_JIT :: "nat option"
  CFRAME_SHIFT_MULTRES :: nat

definition cframe_x86 :: "bool \<Rightarrow> cframe_layout" where
  "cframe_x86 win =
     (if win
      then \<lparr>CFRAME_OFS_ERRF = 19 * 4, CFRAME_OFS_NRES = 18 * 4, CFRAME_OFS_PREV = 17 * 4, CFRAME_OFS_L = 16 * 4,
            CFRAME_OFS_SEH = Some (9 * 4), CFRAME_OFS_PC = 6 * 4, CFRAME_OFS_MULTRES = 5 * 4,
            CFRAME_SIZE = 16 * 4, CFRAME_SIZE_JIT = None, CFRAME_SHIFT_MULTRES = 0\<rparr>
      else \<lparr>CFRAME_OFS_ERRF = 15 * 4, CFRAME_OFS_NRES = 14 * 4, CFRAME_OFS_PREV = 13 * 4, CFRAME_OFS_L = 12 * 4,
            CFRAME_OFS_SEH = None, CFRAME_OFS_PC = 6 * 4, CFRAME_OFS_MULTRES = 5 * 4,
            CFRAME_SIZE = 12 * 4, CFRAME_SIZE_JIT = None, CFRAME_SHIFT_MULTRES = 0\<rparr>)"

definition cframe_x64_win :: "bool \<Rightarrow> cframe_layout" where
  "cframe_x64_win gc64 =
     \<lparr>CFRAME_OFS_ERRF = if gc64 then 21 * 4 else 23 * 4, CFRAME_OFS_NRES = if gc64 then 20 * 4 else 22 * 4,
      CFRAME_OFS_PREV = 13 * 8, CFRAME_OFS_L = if gc64 then 11 * 8 else 24 * 4, CFRAME_OFS_SEH = None,
      CFRAME_OFS_PC = if gc64 then 12 * 8 else 25 * 4, CFRAME_OFS_MULTRES = if gc64 then 8 * 4 else 21 * 4,
      CFRAME_SIZE = 10 * 8, CFRAME_SIZE_JIT = Some (10 * 8 + 9 * 16 + 4 * 8), CFRAME_SHIFT_MULTRES = 0\<rparr>"

definition cframe_x64_posix :: "bool \<Rightarrow> bool \<Rightarrow> cframe_layout" where
  "cframe_x64_posix gc64 no_unwind =
     (let sz = if no_unwind then 12 * 8 else 10 * 8
      in \<lparr>CFRAME_OFS_ERRF = if gc64 then 3 * 4 else 5 * 4, CFRAME_OFS_NRES = if gc64 then 2 * 4 else 4 * 4,
          CFRAME_OFS_PREV = 4 * 8, CFRAME_OFS_L = if gc64 then 2 * 8 else 6 * 4, CFRAME_OFS_SEH = None,
          CFRAME_OFS_PC = if gc64 then 3 * 8 else 7 * 4, CFRAME_OFS_MULTRES = if gc64 then 0 * 4 else 1 * 4,
          CFRAME_SIZE = sz, CFRAME_SIZE_JIT = Some (sz + 16), CFRAME_SHIFT_MULTRES = 0\<rparr>)"

definition cframe_arm :: "bool \<Rightarrow> cframe_layout" where
  "cframe_arm fpu =
     \<lparr>CFRAME_OFS_ERRF = 24, CFRAME_OFS_NRES = 20, CFRAME_OFS_PREV = 16, CFRAME_OFS_L = 12, CFRAME_OFS_SEH = None,
      CFRAME_OFS_PC = 8, CFRAME_OFS_MULTRES = 4, CFRAME_SIZE = if fpu then 128 else 64, CFRAME_SIZE_JIT = None,
      CFRAME_SHIFT_MULTRES = 3\<rparr>"

definition cframe_arm64 :: cframe_layout where
  "cframe_arm64 =
     \<lparr>CFRAME_OFS_ERRF = 36, CFRAME_OFS_NRES = 40, CFRAME_OFS_PREV = 0, CFRAME_OFS_L = 16, CFRAME_OFS_SEH = None,
      CFRAME_OFS_PC = 8, CFRAME_OFS_MULTRES = 32, CFRAME_SIZE = 208, CFRAME_SIZE_JIT = None, CFRAME_SHIFT_MULTRES = 3\<rparr>"

definition cframe_ppc_xbox360 :: cframe_layout where
  "cframe_ppc_xbox360 =
     \<lparr>CFRAME_OFS_ERRF = 424, CFRAME_OFS_NRES = 420, CFRAME_OFS_PREV = 400, CFRAME_OFS_L = 416, CFRAME_OFS_SEH = None,
      CFRAME_OFS_PC = 412, CFRAME_OFS_MULTRES = 408, CFRAME_SIZE = 384, CFRAME_SIZE_JIT = None, CFRAME_SHIFT_MULTRES = 3\<rparr>"

definition cframe_ppc32on64 :: cframe_layout where
  "cframe_ppc32on64 =
     \<lparr>CFRAME_OFS_ERRF = 472, CFRAME_OFS_NRES = 468, CFRAME_OFS_PREV = 448, CFRAME_OFS_L = 464, CFRAME_OFS_SEH = None,
      CFRAME_OFS_PC = 460, CFRAME_OFS_MULTRES = 456, CFRAME_SIZE = 400, CFRAME_SIZE_JIT = None, CFRAME_SHIFT_MULTRES = 3\<rparr>"

definition cframe_ppc :: "bool \<Rightarrow> cframe_layout" where
  "cframe_ppc fpu =
     \<lparr>CFRAME_OFS_ERRF = 48, CFRAME_OFS_NRES = 44, CFRAME_OFS_PREV = 40, CFRAME_OFS_L = 36, CFRAME_OFS_SEH = None,
      CFRAME_OFS_PC = 32, CFRAME_OFS_MULTRES = 28, CFRAME_SIZE = if fpu then 272 else 128, CFRAME_SIZE_JIT = None,
      CFRAME_SHIFT_MULTRES = 3\<rparr>"

definition cframe_mips32 :: "bool \<Rightarrow> cframe_layout" where
  "cframe_mips32 fpu =
     \<lparr>CFRAME_OFS_ERRF = if fpu then 124 else 76, CFRAME_OFS_NRES = if fpu then 120 else 72,
      CFRAME_OFS_PREV = if fpu then 116 else 68, CFRAME_OFS_L = if fpu then 112 else 64, CFRAME_OFS_SEH = None,
      CFRAME_OFS_PC = 20, CFRAME_OFS_MULTRES = 16, CFRAME_SIZE = if fpu then 112 else 64, CFRAME_SIZE_JIT = None,
      CFRAME_SHIFT_MULTRES = 3\<rparr>"

definition cframe_mips64 :: "bool \<Rightarrow> cframe_layout" where
  "cframe_mips64 fpu =
     \<lparr>CFRAME_OFS_ERRF = if fpu then 188 else 124, CFRAME_OFS_NRES = if fpu then 184 else 120,
      CFRAME_OFS_PREV = if fpu then 176 else 112, CFRAME_OFS_L = if fpu then 168 else 104, CFRAME_OFS_SEH = None,
      CFRAME_OFS_PC = if fpu then 160 else 96, CFRAME_OFS_MULTRES = 0, CFRAME_SIZE = if fpu then 192 else 128,
      CFRAME_SIZE_JIT = None, CFRAME_SHIFT_MULTRES = 3\<rparr>"

definition cframe_size_jit :: "cframe_layout \<Rightarrow> nat" where
  "cframe_size_jit T = (case CFRAME_SIZE_JIT T of None \<Rightarrow> CFRAME_SIZE T | Some n \<Rightarrow> n)"

text \<open>The low bits of a C frame are flags. The accessors are those of targets with 64 bit references.\<close>

definition CFRAME_RESUME :: "64 word" where "CFRAME_RESUME = 1"

definition CFRAME_UNWIND_FF :: "64 word" where "CFRAME_UNWIND_FF = 2"

definition CFRAME_RAWMASK :: "64 word" where "CFRAME_RAWMASK = NOT (CFRAME_RESUME OR CFRAME_UNWIND_FF)"

definition cframe_errfunc :: "cframe_layout \<Rightarrow> mem \<Rightarrow> 64 word \<Rightarrow> 32 word" where
  "cframe_errfunc T m cf = ucast (mload 4 m (cf + of_nat (CFRAME_OFS_ERRF T)))"

definition cframe_nres :: "cframe_layout \<Rightarrow> mem \<Rightarrow> 64 word \<Rightarrow> 32 word" where
  "cframe_nres T m cf = ucast (mload 4 m (cf + of_nat (CFRAME_OFS_NRES T)))"

definition cframe_prev :: "cframe_layout \<Rightarrow> mem \<Rightarrow> 64 word \<Rightarrow> 64 word" where
  "cframe_prev T m cf = mload 8 m (cf + of_nat (CFRAME_OFS_PREV T))"

definition cframe_multres :: "cframe_layout \<Rightarrow> mem \<Rightarrow> 64 word \<Rightarrow> 32 word" where
  "cframe_multres T m cf = ucast (mload 4 m (cf + of_nat (CFRAME_OFS_MULTRES T)))"

definition cframe_multres_n :: "cframe_layout \<Rightarrow> mem \<Rightarrow> 64 word \<Rightarrow> 32 word" where
  "cframe_multres_n T m cf = drop_bit (CFRAME_SHIFT_MULTRES T) (cframe_multres T m cf)"

definition cframe_L :: "cframe_layout \<Rightarrow> mem \<Rightarrow> 64 word \<Rightarrow> 64 word" where
  "cframe_L T m cf = gcref m (cf + of_nat (CFRAME_OFS_L T))"

definition cframe_pc :: "cframe_layout \<Rightarrow> mem \<Rightarrow> 64 word \<Rightarrow> 64 word" where
  "cframe_pc T m cf = mref m (cf + of_nat (CFRAME_OFS_PC T))"

definition setcframe_L :: "cframe_layout \<Rightarrow> mem \<Rightarrow> 64 word \<Rightarrow> 64 word \<Rightarrow> mem" where
  "setcframe_L T m cf L = setmref m (cf + of_nat (CFRAME_OFS_L T)) L"

definition setcframe_pc :: "cframe_layout \<Rightarrow> mem \<Rightarrow> 64 word \<Rightarrow> 64 word \<Rightarrow> mem" where
  "setcframe_pc T m cf pc = setmref m (cf + of_nat (CFRAME_OFS_PC T)) pc"

definition cframe_canyield :: "64 word \<Rightarrow> 64 word" where "cframe_canyield cf = cf AND CFRAME_RESUME"

definition cframe_unwind_ff :: "64 word \<Rightarrow> 64 word" where "cframe_unwind_ff cf = cf AND CFRAME_UNWIND_FF"

definition cframe_raw :: "64 word \<Rightarrow> 64 word" where "cframe_raw cf = cf AND CFRAME_RAWMASK"

text \<open>\<open>cframe\<close> is the field of the Lua state.\<close>

definition cframe_Lpc :: "cframe_layout \<Rightarrow> mem \<Rightarrow> 64 word \<Rightarrow> 64 word" where
  "cframe_Lpc T m cframe = cframe_pc T m (cframe_raw cframe)"

section \<open>Walking frames\<close>

text \<open>
  The marker of a frame of \<open>d\<close> slots is that of a call from Lua, aligned to four bytes behind a call instruction
  with the A operand \<open>d - 2\<close>, or that of another kind.
\<close>

definition marks :: "mem \<Rightarrow> 64 word \<Rightarrow> 64 word \<Rightarrow> nat \<Rightarrow> bool" where
  "marks m f k d \<longleftrightarrow>
     (if k = FRAME_LUA
      then frame_pc m f AND 3 = 0 \<and> bc_a (ucast (mload 4 m (frame_pc m f - 4))) = of_nat (d - 2) \<and> 2 \<le> d \<and> d < 258
      else k \<in> {FRAME_C, FRAME_CONT, FRAME_VARG, FRAME_CP, FRAME_PCALL, FRAME_PCALLH} \<and> d < 2 ^ 60 \<and>
        frame_ftsz m f = 8 * of_nat d + k)"

lemma ftsz_bits:
  assumes "d < 2 ^ 60" "k \<le> (7 :: 64 word)"
  shows "(8 * of_nat d + k) AND 7 = k" "(8 * of_nat d + k) AND NOT 7 = 8 * of_nat d"
    "signed_drop_bit 3 (8 * of_nat d + k) = of_nat d"
proof -
  have m: "(7 :: 64 word) = mask 3" by (simp add: mask_eq_exp_minus_1)
  have e: "8 * of_nat d = push_bit 3 (of_nat d :: 64 word)" by (simp add: push_bit_eq_mult)
  have "unat k < 2 ^ 3" using assms(2) by (simp add: word_le_nat_alt)
  then have k: "n < 3" if "bit k n" for n using that small64_bits [of k 3 n] by (meson not_le)
  have "unat (of_nat d :: 64 word) < 2 ^ 60" using assms(1) by (simp add: unat_of_nat)
  then have d: "\<not> bit (of_nat d :: 64 word) n" if "60 \<le> n" for n using that small64_bits [of "of_nat d" 60 n] by auto
  have p: "8 * of_nat d + k = push_bit 3 (of_nat d) OR k"
    unfolding e by (rule disjunctive_add) (use k in \<open>fastforce simp: bit_simps\<close>)
  show "(8 * of_nat d + k) AND 7 = k" unfolding p m
    by (rule bit_word_eqI) (auto simp: bit_simps dest: k)
  show "(8 * of_nat d + k) AND NOT 7 = 8 * of_nat d" unfolding p m unfolding e
    by (rule bit_word_eqI) (auto simp: bit_simps dest: k)
  show "signed_drop_bit 3 (8 * of_nat d + k) = of_nat d" unfolding p
    by (rule bit_word_eqI) (use d in \<open>auto simp: bit_simps dest: k\<close>)
qed

lemma frame_lua:
  assumes "marks m f FRAME_LUA d"
  shows "frame_islua m f" "frame_prev m f = f - 8 * of_nat d"
    "\<not> frame_isc m f" "\<not> frame_iscont m f" "\<not> frame_isvarg m f" "\<not> frame_ispcall m f"
proof -
  let ?w = "frame_ftsz m f"
  have a: "?w AND 3 = 0" "2 \<le> d" "d < 258" and c: "bc_a (ucast (mload 4 m (frame_pc m f - 4))) = of_nat (d - 2)"
    using assms by (simp_all add: marks_def frame_pc_def)
  have w: "?w AND 7 = ?w AND 4" "?w AND 6 = ?w AND 4" "?w AND 4 = 0 \<or> ?w AND 4 = 4"
  proof -
    have "(7 :: 64 word) = 3 OR 4" "(6 :: 64 word) = 2 OR 4" by simp_all
    then have "?w AND 7 = (?w AND 3) OR (?w AND 4)" "?w AND 6 = (?w AND 2) OR (?w AND 4)"
      by (simp_all only: bit.conj_disj_distrib)
    moreover have "?w AND 2 = (?w AND 3) AND 2" by (simp add: and.assoc)
    ultimately show "?w AND 7 = ?w AND 4" "?w AND 6 = ?w AND 4" using a by simp_all
    have "w AND push_bit k 1 = (if bit w k then push_bit k 1 else 0)" for w :: "64 word" and k
      by (rule bit_word_eqI) (auto simp: bit_simps simp del: push_bit_of_1)
    from this [of ?w 2] show "?w AND 4 = 0 \<or> ?w AND 4 = 4" by (simp split: if_splits)
  qed
  show l: "frame_islua m f" using a by (simp add: frame_islua_def frame_type_def frame_kinds)
  have "(ucast (of_nat (d - 2) :: 32 word) :: 64 word) = of_nat (d - 2)"
    using a(3) by (simp add: unsigned_of_nat take_bit_nat_eq_self del: of_nat_diff)
  then have "1 + 1 + ucast (of_nat (d - 2) :: 32 word) = (of_nat d :: 64 word)"
    using a by (simp add: of_nat_diff)
  then show "frame_prev m f = f - 8 * of_nat d" using l by (simp add: frame_prev_def frame_prevl_def c)
  show "\<not> frame_isc m f" "\<not> frame_iscont m f" "\<not> frame_isvarg m f" "\<not> frame_ispcall m f"
    using a w by (auto simp: frame_isc_def frame_iscont_def frame_isvarg_def frame_ispcall_def frame_type_def frame_typep_def frame_kinds)
qed

lemma frame_other:
  assumes "marks m f k d" "k \<noteq> FRAME_LUA"
  shows "frame_prev m f = f - 8 * of_nat d" "frame_delta m f = of_nat d" "\<not> frame_islua m f"
    "frame_isc m f \<longleftrightarrow> k \<in> {FRAME_C, FRAME_CP}" "frame_iscont m f \<longleftrightarrow> k = FRAME_CONT" "frame_isvarg m f \<longleftrightarrow> k = FRAME_VARG"
    "frame_ispcall m f \<longleftrightarrow> k \<in> {FRAME_PCALL, FRAME_PCALLH}"
proof -
  have k: "k \<in> {1, 2, 3, 5, 6, 7}" and d: "d < 2 ^ 60" and w: "frame_ftsz m f = 8 * of_nat d + k"
    using assms by (auto simp: marks_def frame_kinds split: if_splits)
  have "k \<le> 7" using k by auto
  note b = ftsz_bits [OF d this, folded w]
  have t: "frame_ftsz m f AND 3 = k AND 3" "frame_ftsz m f AND 6 = k AND 6"
    by (simp_all add: and.assoc flip: b(1))
  show l: "\<not> frame_islua m f" using k by (auto simp: frame_islua_def frame_type_def frame_kinds t)
  show "frame_prev m f = f - 8 * of_nat d" using l b(2) by (simp add: frame_prev_def frame_prevd_def frame_sized_def frame_kinds)
  show "frame_delta m f = of_nat d" by (simp add: frame_delta_def b(3))
  show "frame_isc m f \<longleftrightarrow> k \<in> {FRAME_C, FRAME_CP}" "frame_iscont m f \<longleftrightarrow> k = FRAME_CONT" "frame_isvarg m f \<longleftrightarrow> k = FRAME_VARG"
    "frame_ispcall m f \<longleftrightarrow> k \<in> {FRAME_PCALL, FRAME_PCALLH}"
    using k b(1) by (auto simp: frame_isc_def frame_iscont_def frame_isvarg_def frame_ispcall_def frame_type_def frame_typep_def
        frame_kinds t)
qed

text \<open>Following \<open>frame_prev\<close> visits the frames of a stack from the top down.\<close>

fun stack_marks :: "mem \<Rightarrow> 64 word \<Rightarrow> (64 word \<times> nat) list \<Rightarrow> bool" where
  "stack_marks m f [] \<longleftrightarrow> True"
| "stack_marks m f ((k, d) # fs) \<longleftrightarrow> marks m f k d \<and> stack_marks m (f - 8 * of_nat d) fs"

theorem frame_walk:
  "stack_marks m f fs \<Longrightarrow> i \<le> length fs \<Longrightarrow> (frame_prev m ^^ i) f = f - 8 * of_nat (sum_list (map snd (take i fs)))"
proof (induction fs arbitrary: f i)
  case (Cons kd fs)
  obtain k d where kd: "kd = (k, d)" by fastforce
  have p: "frame_prev m f = f - 8 * of_nat d"
    using Cons.prems(1) frame_lua(2) frame_other(1) by (cases "k = FRAME_LUA") (auto simp: kd)
  show ?case
  proof (cases i)
    case (Suc j)
    have "(frame_prev m ^^ i) f = (frame_prev m ^^ j) (f - 8 * of_nat d)" by (simp add: Suc p funpow_swap1)
    then show ?thesis using Cons.IH [of "f - 8 * of_nat d" j] Cons.prems by (simp add: kd Suc algebra_simps)
  qed simp
qed simp

text \<open>The flags in the low bits of a C frame do not reach the frame.\<close>

lemma cframe_raw_flags:
  assumes "cf AND 3 = 0" "fl \<le> 3"
  shows "cframe_raw (cf OR fl) = cf" "cframe_canyield (cf OR fl) = fl AND CFRAME_RESUME"
    "cframe_unwind_ff (cf OR fl) = fl AND CFRAME_UNWIND_FF"
proof -
  have m: "3 = (mask 2 :: 64 word)" by (simp add: mask_eq_exp_minus_1)
  have c: "\<not> bit cf n" if "n < 2" for n
    using arg_cong [OF assms(1) [unfolded m], of "\<lambda>w. bit w n"] that by (simp add: bit_simps)
  have "unat fl < 2 ^ 2" using assms(2) by (simp add: word_le_nat_alt)
  then have f: "n < 2" if "bit fl n" for n using that small64_bits [of fl 2 n] by (meson not_le)
  have r: "CFRAME_RAWMASK = NOT (mask 2)" by (simp add: CFRAME_RAWMASK_def CFRAME_RESUME_def CFRAME_UNWIND_FF_def mask_eq_exp_minus_1)
  show "cframe_raw (cf OR fl) = cf" unfolding cframe_raw_def r
    by (rule bit_word_eqI) (use c in \<open>auto simp: bit_simps dest: f\<close>)
  have z: "cf AND CFRAME_RESUME = 0" "cf AND CFRAME_UNWIND_FF = 0"
  proof -
    have "cf AND CFRAME_RESUME = cf AND 3 AND CFRAME_RESUME" "cf AND CFRAME_UNWIND_FF = cf AND 3 AND CFRAME_UNWIND_FF"
      by (simp_all add: CFRAME_RESUME_def CFRAME_UNWIND_FF_def)
    then show "cf AND CFRAME_RESUME = 0" "cf AND CFRAME_UNWIND_FF = 0" using assms(1) by (simp_all add: and.assoc [symmetric])
  qed
  show "cframe_canyield (cf OR fl) = fl AND CFRAME_RESUME" "cframe_unwind_ff (cf OR fl) = fl AND CFRAME_UNWIND_FF"
    by (simp_all add: cframe_canyield_def cframe_unwind_ff_def bit.conj_disj_distrib2 z)
qed

text \<open>What is stored in a C frame is read back.\<close>

lemma cframe_fields:
  "cframe_L T (setcframe_L T m cf L) cf = L" "cframe_pc T (setcframe_pc T m cf pc) cf = pc"
  by (simp_all add: cframe_L_def setcframe_L_def cframe_pc_def setcframe_pc_def gcref_def mref_def setmref_def ld_st_same
      take_bit_word_eq_self)

text \<open>
  The slots of a C frame, as the bytes they take up: references of \<open>r\<close> bytes, the link to the previous frame
  with \<open>p\<close> bytes and four bytes for each of the numbers.
\<close>

definition cframe_slots :: "nat \<Rightarrow> nat \<Rightarrow> cframe_layout \<Rightarrow> nat list" where
  "cframe_slots r p T = concat (List.map (\<lambda>(n, w). [n..<n + w])
     [(CFRAME_OFS_ERRF T, 4), (CFRAME_OFS_NRES T, 4), (CFRAME_OFS_MULTRES T, 4), (CFRAME_OFS_PREV T, p),
      (CFRAME_OFS_L T, r), (CFRAME_OFS_PC T, r)])"

lemmas cframe_layouts = cframe_x86_def cframe_x64_win_def cframe_x64_posix_def cframe_arm_def cframe_arm64_def
  cframe_ppc_xbox360_def cframe_ppc32on64_def cframe_ppc_def cframe_mips32_def cframe_mips64_def

theorem cframe_slots_distinct:
  "distinct (cframe_slots 4 4 (cframe_x86 win))"
  "distinct (cframe_slots (if gc64 then 8 else 4) 8 (cframe_x64_win gc64))"
  "distinct (cframe_slots (if gc64 then 8 else 4) 8 (cframe_x64_posix gc64 no_unwind))"
  "distinct (cframe_slots 4 4 (cframe_arm fpu))"
  "distinct (cframe_slots 8 8 cframe_arm64)"
  "distinct (cframe_slots 4 8 cframe_ppc_xbox360)"
  "distinct (cframe_slots 4 8 cframe_ppc32on64)"
  "distinct (cframe_slots 4 4 (cframe_ppc fpu))"
  "distinct (cframe_slots 4 4 (cframe_mips32 fpu))"
  "distinct (cframe_slots 8 8 (cframe_mips64 fpu))"
  by (cases win; cases gc64; cases fpu; simp add: cframe_slots_def cframe_layouts Let_def upt_rec)+

end
