(* ===== verification/LJ_Ctype.thy ===== *)
theory LJ_Ctype
  imports LJ_Bits
begin

text \<open>
  \<open>LuaJit/include/lj_ctype.h\<close>: C types of the foreign function interface. A type is an element of a
  table with a word of information (the kind of type in the top four bits, flags and fields below), and
  refers to other elements by their index, which also stands for pointers to elements here.
\<close>

section \<open>Type information\<close>

definition CT_NUM :: "32 word" where "CT_NUM = 0"

definition CT_STRUCT :: "32 word" where "CT_STRUCT = 1"

definition CT_PTR :: "32 word" where "CT_PTR = 2"

definition CT_ARRAY :: "32 word" where "CT_ARRAY = 3"

definition CT_MAYCONVERT :: "32 word" where "CT_MAYCONVERT = CT_ARRAY"

definition CT_VOID :: "32 word" where "CT_VOID = 4"

definition CT_ENUM :: "32 word" where "CT_ENUM = 5"

definition CT_HASSIZE :: "32 word" where "CT_HASSIZE = CT_ENUM"

definition CT_FUNC :: "32 word" where "CT_FUNC = 6"

definition CT_TYPEDEF :: "32 word" where "CT_TYPEDEF = 7"

definition CT_ATTRIB :: "32 word" where "CT_ATTRIB = 8"

definition CT_FIELD :: "32 word" where "CT_FIELD = 9"

definition CT_BITFIELD :: "32 word" where "CT_BITFIELD = 10"

definition CT_CONSTVAL :: "32 word" where "CT_CONSTVAL = 11"

definition CT_EXTERN :: "32 word" where "CT_EXTERN = 12"

definition CT_KW :: "32 word" where "CT_KW = 13"

lemmas ct_nums = CT_NUM_def CT_STRUCT_def CT_PTR_def CT_ARRAY_def CT_MAYCONVERT_def CT_VOID_def
  CT_ENUM_def CT_HASSIZE_def CT_FUNC_def CT_TYPEDEF_def CT_ATTRIB_def CT_FIELD_def
  CT_BITFIELD_def CT_CONSTVAL_def CT_EXTERN_def CT_KW_def

text \<open>Flags and bit fields of the type information word.\<close>

definition CTF_BOOL :: "32 word" where "CTF_BOOL = 0x08000000"

definition CTF_FP :: "32 word" where "CTF_FP = 0x04000000"

definition CTF_CONST :: "32 word" where "CTF_CONST = 0x02000000"

definition CTF_VOLATILE :: "32 word" where "CTF_VOLATILE = 0x01000000"

definition CTF_UNSIGNED :: "32 word" where "CTF_UNSIGNED = 0x00800000"

definition CTF_LONG :: "32 word" where "CTF_LONG = 0x00400000"

definition CTF_VLA :: "32 word" where "CTF_VLA = 0x00100000"

definition CTF_REF :: "32 word" where "CTF_REF = 0x00800000"

definition CTF_VECTOR :: "32 word" where "CTF_VECTOR = 0x08000000"

definition CTF_COMPLEX :: "32 word" where "CTF_COMPLEX = 0x04000000"

definition CTF_UNION :: "32 word" where "CTF_UNION = 0x00800000"

definition CTF_VARARG :: "32 word" where "CTF_VARARG = 0x00800000"

definition CTF_SSEREGPARM :: "32 word" where "CTF_SSEREGPARM = 0x00400000"

definition CTFP_ALIGNED :: "32 word" where "CTFP_ALIGNED = 0x00000001"

definition CTFP_PACKED :: "32 word" where "CTFP_PACKED = 0x00000002"

definition CTFP_CCONV :: "32 word" where "CTFP_CCONV = 0x00000001"

definition CTMASK_CID :: "32 word" where "CTMASK_CID = 0x0000ffff"

definition CTMASK_NUM :: "32 word" where "CTMASK_NUM = 0xf0000000"

definition CTSHIFT_NUM :: "nat" where "CTSHIFT_NUM = 28"

definition CTMASK_ALIGN :: "32 word" where "CTMASK_ALIGN = 15"

definition CTSHIFT_ALIGN :: "nat" where "CTSHIFT_ALIGN = 16"

definition CTMASK_ATTRIB :: "32 word" where "CTMASK_ATTRIB = 255"

definition CTSHIFT_ATTRIB :: "nat" where "CTSHIFT_ATTRIB = 16"

definition CTMASK_CCONV :: "32 word" where "CTMASK_CCONV = 3"

definition CTSHIFT_CCONV :: "nat" where "CTSHIFT_CCONV = 16"

definition CTMASK_REGPARM :: "32 word" where "CTMASK_REGPARM = 3"

definition CTSHIFT_REGPARM :: "nat" where "CTSHIFT_REGPARM = 18"

definition CTMASK_VSIZEP :: "32 word" where "CTMASK_VSIZEP = 15"

definition CTSHIFT_VSIZEP :: "nat" where "CTSHIFT_VSIZEP = 4"

definition CTMASK_MSIZEP :: "32 word" where "CTMASK_MSIZEP = 255"

definition CTSHIFT_MSIZEP :: "nat" where "CTSHIFT_MSIZEP = 8"

definition CTBSZ_MAX :: "32 word" where "CTBSZ_MAX = 32"

definition CTBSZ_FIELD :: "32 word" where "CTBSZ_FIELD = 127"

definition CTMASK_BITPOS :: "32 word" where "CTMASK_BITPOS = 127"

definition CTMASK_BITBSZ :: "32 word" where "CTMASK_BITBSZ = 127"

definition CTMASK_BITCSZ :: "32 word" where "CTMASK_BITCSZ = 127"

definition CTSHIFT_BITPOS :: "nat" where "CTSHIFT_BITPOS = 0"

definition CTSHIFT_BITBSZ :: "nat" where "CTSHIFT_BITBSZ = 8"

definition CTSHIFT_BITCSZ :: "nat" where "CTSHIFT_BITCSZ = 16"

lemmas ct_flags = CTF_BOOL_def CTF_FP_def CTF_CONST_def CTF_VOLATILE_def CTF_UNSIGNED_def
  CTF_LONG_def CTF_VLA_def CTF_REF_def CTF_VECTOR_def CTF_COMPLEX_def CTF_UNION_def
  CTF_VARARG_def CTF_SSEREGPARM_def CTFP_ALIGNED_def CTFP_PACKED_def CTFP_CCONV_def
  CTMASK_CID_def CTMASK_NUM_def CTSHIFT_NUM_def CTMASK_ALIGN_def CTSHIFT_ALIGN_def
  CTMASK_ATTRIB_def CTSHIFT_ATTRIB_def CTMASK_CCONV_def CTSHIFT_CCONV_def CTMASK_REGPARM_def
  CTSHIFT_REGPARM_def CTMASK_VSIZEP_def CTSHIFT_VSIZEP_def CTMASK_MSIZEP_def CTSHIFT_MSIZEP_def
  CTBSZ_MAX_def CTBSZ_FIELD_def CTMASK_BITPOS_def CTMASK_BITBSZ_def CTMASK_BITCSZ_def
  CTSHIFT_BITPOS_def CTSHIFT_BITBSZ_def CTSHIFT_BITCSZ_def

definition CTF_QUAL :: "32 word" where "CTF_QUAL = CTF_CONST OR CTF_VOLATILE"

definition CTF_ALIGN :: "32 word" where "CTF_ALIGN = push_bit CTSHIFT_ALIGN CTMASK_ALIGN"

text \<open>\<open>uchar\<close> says whether a plain \<open>char\<close> is unsigned on the host.\<close>

definition CTF_UCHAR :: "bool \<Rightarrow> 32 word" where
  "CTF_UCHAR uchar = (if uchar then CTF_UNSIGNED else 0)"

text \<open>Writing a field, given by its mask and shift.\<close>

definition CTF_INSERT :: "32 word \<Rightarrow> nat \<Rightarrow> 32 word \<Rightarrow> 32 word \<Rightarrow> 32 word" where
  "CTF_INSERT msk sh info val = (info AND NOT (push_bit sh msk)) OR push_bit sh (val AND msk)"

definition CTCC_CDECL :: "32 word" where "CTCC_CDECL = 0"

definition CTCC_THISCALL :: "32 word" where "CTCC_THISCALL = 1"

definition CTCC_FASTCALL :: "32 word" where "CTCC_FASTCALL = 2"

definition CTCC_STDCALL :: "32 word" where "CTCC_STDCALL = 3"

definition CTA_NONE :: "32 word" where "CTA_NONE = 0"

definition CTA_QUAL :: "32 word" where "CTA_QUAL = 1"

definition CTA_ALIGN :: "32 word" where "CTA_ALIGN = 2"

definition CTA_SUBTYPE :: "32 word" where "CTA_SUBTYPE = 3"

definition CTA_REDIR :: "32 word" where "CTA_REDIR = 4"

definition CTA_BAD :: "32 word" where "CTA_BAD = 5"

definition CTA__MAX :: "32 word" where "CTA__MAX = 6"

lemmas cta_nums = CTA_NONE_def CTA_QUAL_def CTA_ALIGN_def CTA_SUBTYPE_def CTA_REDIR_def
  CTA_BAD_def CTA__MAX_def

definition CTSIZE_INVALID :: "32 word" where "CTSIZE_INVALID = 0xffffffff"

definition CTHASH_SIZE :: "nat" where "CTHASH_SIZE = 128"

definition CTHASH_MASK :: "nat" where "CTHASH_MASK = CTHASH_SIZE - 1"

definition CTINFO :: "32 word \<Rightarrow> 32 word \<Rightarrow> 32 word" where
  "CTINFO ct flags = push_bit CTSHIFT_NUM ct + flags"

definition CTALIGN :: "32 word \<Rightarrow> 32 word" where "CTALIGN al = push_bit CTSHIFT_ALIGN al"

definition CTATTRIB :: "32 word \<Rightarrow> 32 word" where
  "CTATTRIB a = push_bit CTSHIFT_ATTRIB a"

definition ctype_type :: "32 word \<Rightarrow> 32 word" where
  "ctype_type info = drop_bit CTSHIFT_NUM info"

definition ctype_cid :: "32 word \<Rightarrow> 32 word" where "ctype_cid info = info AND CTMASK_CID"

definition ctype_align :: "32 word \<Rightarrow> 32 word" where
  "ctype_align info = drop_bit CTSHIFT_ALIGN info AND CTMASK_ALIGN"

definition ctype_attrib :: "32 word \<Rightarrow> 32 word" where
  "ctype_attrib info = drop_bit CTSHIFT_ATTRIB info AND CTMASK_ATTRIB"

definition ctype_bitpos :: "32 word \<Rightarrow> 32 word" where
  "ctype_bitpos info = drop_bit CTSHIFT_BITPOS info AND CTMASK_BITPOS"

definition ctype_bitbsz :: "32 word \<Rightarrow> 32 word" where
  "ctype_bitbsz info = drop_bit CTSHIFT_BITBSZ info AND CTMASK_BITBSZ"

definition ctype_bitcsz :: "32 word \<Rightarrow> 32 word" where
  "ctype_bitcsz info = drop_bit CTSHIFT_BITCSZ info AND CTMASK_BITCSZ"

definition ctype_vsizeP :: "32 word \<Rightarrow> 32 word" where
  "ctype_vsizeP info = drop_bit CTSHIFT_VSIZEP info AND CTMASK_VSIZEP"

definition ctype_msizeP :: "32 word \<Rightarrow> 32 word" where
  "ctype_msizeP info = drop_bit CTSHIFT_MSIZEP info AND CTMASK_MSIZEP"

definition ctype_cconv :: "32 word \<Rightarrow> 32 word" where
  "ctype_cconv info = drop_bit CTSHIFT_CCONV info AND CTMASK_CCONV"

lemmas ctype_fields = ctype_type_def ctype_cid_def ctype_align_def ctype_attrib_def
  ctype_bitpos_def ctype_bitbsz_def ctype_bitcsz_def ctype_vsizeP_def ctype_msizeP_def
  ctype_cconv_def

definition ctype_isnum :: "32 word \<Rightarrow> bool" where
  "ctype_isnum info \<longleftrightarrow> ctype_type info = CT_NUM"

definition ctype_isvoid :: "32 word \<Rightarrow> bool" where
  "ctype_isvoid info \<longleftrightarrow> ctype_type info = CT_VOID"

definition ctype_isptr :: "32 word \<Rightarrow> bool" where
  "ctype_isptr info \<longleftrightarrow> ctype_type info = CT_PTR"

definition ctype_isarray :: "32 word \<Rightarrow> bool" where
  "ctype_isarray info \<longleftrightarrow> ctype_type info = CT_ARRAY"

definition ctype_isstruct :: "32 word \<Rightarrow> bool" where
  "ctype_isstruct info \<longleftrightarrow> ctype_type info = CT_STRUCT"

definition ctype_isfunc :: "32 word \<Rightarrow> bool" where
  "ctype_isfunc info \<longleftrightarrow> ctype_type info = CT_FUNC"

definition ctype_isenum :: "32 word \<Rightarrow> bool" where
  "ctype_isenum info \<longleftrightarrow> ctype_type info = CT_ENUM"

definition ctype_istypedef :: "32 word \<Rightarrow> bool" where
  "ctype_istypedef info \<longleftrightarrow> ctype_type info = CT_TYPEDEF"

definition ctype_isattrib :: "32 word \<Rightarrow> bool" where
  "ctype_isattrib info \<longleftrightarrow> ctype_type info = CT_ATTRIB"

definition ctype_isfield :: "32 word \<Rightarrow> bool" where
  "ctype_isfield info \<longleftrightarrow> ctype_type info = CT_FIELD"

definition ctype_isbitfield :: "32 word \<Rightarrow> bool" where
  "ctype_isbitfield info \<longleftrightarrow> ctype_type info = CT_BITFIELD"

definition ctype_isconstval :: "32 word \<Rightarrow> bool" where
  "ctype_isconstval info \<longleftrightarrow> ctype_type info = CT_CONSTVAL"

definition ctype_isextern :: "32 word \<Rightarrow> bool" where
  "ctype_isextern info \<longleftrightarrow> ctype_type info = CT_EXTERN"

definition ctype_hassize :: "32 word \<Rightarrow> bool" where
  "ctype_hassize info \<longleftrightarrow> ctype_type info \<le> CT_HASSIZE"

lemmas ctype_simple = ctype_isnum_def ctype_isvoid_def ctype_isptr_def ctype_isarray_def
  ctype_isstruct_def ctype_isfunc_def ctype_isenum_def ctype_istypedef_def ctype_isattrib_def
  ctype_isfield_def ctype_isbitfield_def ctype_isconstval_def ctype_isextern_def
  ctype_hassize_def

text \<open>Checks of the type and flags at once.\<close>

definition ctype_isinteger :: "32 word \<Rightarrow> bool" where
  "ctype_isinteger info \<longleftrightarrow> info AND (CTMASK_NUM OR CTF_BOOL OR CTF_FP) = CTINFO CT_NUM 0"

definition ctype_isinteger_or_bool :: "32 word \<Rightarrow> bool" where
  "ctype_isinteger_or_bool info \<longleftrightarrow> info AND (CTMASK_NUM OR CTF_FP) = CTINFO CT_NUM 0"

definition ctype_isbool :: "32 word \<Rightarrow> bool" where
  "ctype_isbool info \<longleftrightarrow> info AND (CTMASK_NUM OR CTF_BOOL) = CTINFO CT_NUM CTF_BOOL"

definition ctype_isfp :: "32 word \<Rightarrow> bool" where
  "ctype_isfp info \<longleftrightarrow> info AND (CTMASK_NUM OR CTF_FP) = CTINFO CT_NUM CTF_FP"

definition ctype_ispointer :: "32 word \<Rightarrow> bool" where
  "ctype_ispointer info \<longleftrightarrow> drop_bit 1 (ctype_type info) = drop_bit 1 CT_PTR"

definition ctype_isref :: "32 word \<Rightarrow> bool" where
  "ctype_isref info \<longleftrightarrow> info AND (CTMASK_NUM OR CTF_REF) = CTINFO CT_PTR CTF_REF"

definition ctype_isrefarray :: "32 word \<Rightarrow> bool" where
  "ctype_isrefarray info \<longleftrightarrow> info AND (CTMASK_NUM OR CTF_VECTOR OR CTF_COMPLEX) = CTINFO CT_ARRAY 0"

definition ctype_isvector :: "32 word \<Rightarrow> bool" where
  "ctype_isvector info \<longleftrightarrow> info AND (CTMASK_NUM OR CTF_VECTOR) = CTINFO CT_ARRAY CTF_VECTOR"

definition ctype_iscomplex :: "32 word \<Rightarrow> bool" where
  "ctype_iscomplex info \<longleftrightarrow> info AND (CTMASK_NUM OR CTF_COMPLEX) = CTINFO CT_ARRAY CTF_COMPLEX"

definition ctype_isvltype :: "32 word \<Rightarrow> bool" where
  "ctype_isvltype info \<longleftrightarrow> info AND ((CTMASK_NUM OR CTF_VLA) - push_bit CTSHIFT_NUM 2) = CTINFO CT_STRUCT CTF_VLA"

definition ctype_isvlarray :: "32 word \<Rightarrow> bool" where
  "ctype_isvlarray info \<longleftrightarrow> info AND (CTMASK_NUM OR CTF_VLA) = CTINFO CT_ARRAY CTF_VLA"

definition ctype_isxattrib :: "32 word \<Rightarrow> 32 word \<Rightarrow> bool" where
  "ctype_isxattrib info a \<longleftrightarrow> info AND (CTMASK_NUM OR CTATTRIB CTMASK_ATTRIB) = CTINFO CT_ATTRIB (CTATTRIB a)"

lemmas ctype_combined = ctype_isinteger_def ctype_isinteger_or_bool_def ctype_isbool_def
  ctype_isfp_def ctype_ispointer_def ctype_isref_def ctype_isrefarray_def ctype_isvector_def
  ctype_iscomplex_def ctype_isvltype_def ctype_isvlarray_def ctype_isxattrib_def

definition CTSIZE_PTR :: "32 word" where "CTSIZE_PTR = 8"

definition CTALIGN_PTR :: "32 word" where "CTALIGN_PTR = CTALIGN 3"

definition CTINFO_REF :: "32 word \<Rightarrow> 32 word" where
  "CTINFO_REF r = CTINFO CT_PTR ((CTF_CONST OR CTF_REF OR CTALIGN_PTR) + r)"

definition CT_MEMALIGN :: "32 word" where "CT_MEMALIGN = 3"

section \<open>Predefined types\<close>

text \<open>\<open>long8\<close> says whether \<open>long\<close> has eight bytes.\<close>

definition CTF_LONG_IF8 :: "bool \<Rightarrow> 32 word" where
  "CTF_LONG_IF8 long8 = (if long8 then CTF_LONG else 0)"

text \<open>The type ids are the positions in the list.\<close>

definition CTTY_names :: "string list" where
  "CTTY_names =
    [''NONE'', ''VOID'', ''CVOID'', ''BOOL'', ''CCHAR'', ''INT8'', ''UINT8'', ''INT16'',
     ''UINT16'', ''INT32'', ''UINT32'', ''INT64'', ''UINT64'', ''INT128'', ''UINT128'',
     ''FLOAT'', ''DOUBLE'', ''COMPLEX_FLOAT'', ''COMPLEX_DOUBLE'', ''P_VOID'', ''P_CVOID'',
     ''P_CCHAR'', ''P_UINT8'', ''A_CCHAR'', ''CTYPEID'']"

definition CTID :: "string \<Rightarrow> 32 word" where
  "CTID name = of_nat (length (takeWhile (\<lambda>t. t \<noteq> name) CTTY_names))"

definition CTTYDEF :: "bool \<Rightarrow> bool \<Rightarrow> (string \<times> 32 word \<times> 32 word \<times> 32 word) list" where
  "CTTYDEF uchar long8 =
    [(''NONE'', 0, CT_ATTRIB, CTATTRIB CTA_BAD),
     (''VOID'', CTSIZE_INVALID, CT_VOID, CTALIGN 0),
     (''CVOID'', CTSIZE_INVALID, CT_VOID, CTF_CONST OR CTALIGN 0),
     (''BOOL'', 1, CT_NUM, CTF_BOOL OR CTF_UNSIGNED OR CTALIGN 0),
     (''CCHAR'', 1, CT_NUM, CTF_CONST OR CTF_UCHAR uchar OR CTALIGN 0),
     (''INT8'', 1, CT_NUM, CTALIGN 0),
     (''UINT8'', 1, CT_NUM, CTF_UNSIGNED OR CTALIGN 0),
     (''INT16'', 2, CT_NUM, CTALIGN 1),
     (''UINT16'', 2, CT_NUM, CTF_UNSIGNED OR CTALIGN 1),
     (''INT32'', 4, CT_NUM, CTALIGN 2),
     (''UINT32'', 4, CT_NUM, CTF_UNSIGNED OR CTALIGN 2),
     (''INT64'', 8, CT_NUM, CTF_LONG_IF8 long8 OR CTALIGN 3),
     (''UINT64'', 8, CT_NUM, CTF_UNSIGNED OR CTF_LONG_IF8 long8 OR CTALIGN 3),
     (''INT128'', 16, CT_NUM, CTALIGN 4),
     (''UINT128'', 16, CT_NUM, CTF_UNSIGNED OR CTALIGN 4),
     (''FLOAT'', 4, CT_NUM, CTF_FP OR CTALIGN 2),
     (''DOUBLE'', 8, CT_NUM, CTF_FP OR CTALIGN 3),
     (''COMPLEX_FLOAT'', 8, CT_ARRAY, CTF_COMPLEX OR CTALIGN 2 OR CTID ''FLOAT''),
     (''COMPLEX_DOUBLE'', 16, CT_ARRAY, CTF_COMPLEX OR CTALIGN 3 OR CTID ''DOUBLE''),
     (''P_VOID'', CTSIZE_PTR, CT_PTR, CTALIGN_PTR OR CTID ''VOID''),
     (''P_CVOID'', CTSIZE_PTR, CT_PTR, CTALIGN_PTR OR CTID ''CVOID''),
     (''P_CCHAR'', CTSIZE_PTR, CT_PTR, CTALIGN_PTR OR CTID ''CCHAR''),
     (''P_UINT8'', CTSIZE_PTR, CT_PTR, CTALIGN_PTR OR CTID ''UINT8''),
     (''A_CCHAR'', CTSIZE_INVALID, CT_ARRAY, CTF_CONST OR CTALIGN 0 OR CTID ''CCHAR''),
     (''CTYPEID'', 4, CT_ENUM, CTALIGN 2 OR CTID ''INT32'')]"

definition CTID_INT_PSZ :: "32 word" where "CTID_INT_PSZ = CTID ''INT64''"

definition CTID_UINT_PSZ :: "32 word" where "CTID_UINT_PSZ = CTID ''UINT64''"

definition CTID_WCHAR :: "bool \<Rightarrow> 32 word" where
  "CTID_WCHAR win = (if win then CTID ''UINT16'' else CTID ''INT32'')"

section \<open>Tokens of the C parser\<close>

definition CTOKDEF :: "(string \<times> string) list" where
  "CTOKDEF =
    [(''IDENT'', ''<identifier>''), (''STRING'', ''<string>''), (''INTEGER'', ''<integer>''), (''EOF'', ''<eof>''),
     (''OROR'', ''||''), (''ANDAND'', ''&&''), (''EQ'', ''==''), (''NE'', ''!=''),
     (''LE'', ''<=''), (''GE'', ''>=''), (''SHL'', ''<<''), (''SHR'', ''>>''),
     (''DEREF'', ''->'')]"

definition CDSDEF :: "string list" where
  "CDSDEF =
    [''VOID'', ''BOOL'', ''CHAR'', ''INT'', ''FP'', ''LONG'', ''LONGLONG'', ''SHORT'',
     ''COMPLEX'', ''SIGNED'', ''UNSIGNED'', ''CONST'', ''VOLATILE'', ''RESTRICT'', ''INLINE'',
     ''TYPEDEF'', ''EXTERN'', ''STATIC'', ''AUTO'', ''REGISTER'']"

definition CKWDEF :: "string list" where
  "CKWDEF = CDSDEF @
    [''EXTENSION'', ''ASM'', ''ATTRIBUTE'', ''DECLSPEC'', ''CCDECL'', ''PTRSZ'', ''STRUCT'',
     ''UNION'', ''ENUM'', ''SIZEOF'', ''ALIGNOF'']"

definition CTOK_OFS :: "nat" where "CTOK_OFS = 255"

text \<open>The tokens are numbered behind the characters, in the order of the lists.\<close>

definition CTOK :: "string \<Rightarrow> nat" where
  "CTOK name = CTOK_OFS + 1 + length (takeWhile (\<lambda>t. t \<noteq> name) (map fst CTOKDEF @ CKWDEF))"

definition CTOK_FIRSTDECL :: "nat" where "CTOK_FIRSTDECL = CTOK ''VOID''"

definition CTOK_FIRSTSCL :: "nat" where "CTOK_FIRSTSCL = CTOK ''TYPEDEF''"

definition CTOK_LASTDECLFLAG :: "nat" where "CTOK_LASTDECLFLAG = CTOK ''REGISTER''"

definition CTOK_LASTDECL :: "nat" where "CTOK_LASTDECL = CTOK ''ENUM''"

definition CDF :: "string \<Rightarrow> 32 word" where
  "CDF name = push_bit (CTOK name - CTOK_FIRSTDECL) 1"

definition CDF_SCL :: "32 word" where
  "CDF_SCL = CDF ''TYPEDEF'' OR CDF ''EXTERN'' OR CDF ''STATIC'' OR CDF ''AUTO'' OR CDF ''REGISTER''"

section \<open>The table\<close>

record CType =
  ct_info :: "32 word"
  ct_size :: "32 word"
  ct_sib :: "16 word"
  ct_next :: "16 word"
  ct_name :: "64 word"

record CTState =
  ct_tab :: "32 word \<Rightarrow> CType"
  ct_top :: "32 word"
  ct_hash :: "nat \<Rightarrow> 16 word"

definition LJ_CTYPE_RESTORE :: "CTState \<Rightarrow> CTState \<Rightarrow> CTState" where
  "LJ_CTYPE_RESTORE savects cts =
     cts\<lparr>ct_top := ct_top savects, ct_hash := (\<lambda>i. if i < CTHASH_SIZE then ct_hash savects i else ct_hash cts i)\<rparr>"

definition ctype_get :: "CTState \<Rightarrow> 32 word \<Rightarrow> CType" where "ctype_get cts i = ct_tab cts i"

text \<open>What \<open>ctype_check\<close> asserts of an id.\<close>

definition ctype_check :: "CTState \<Rightarrow> 32 word \<Rightarrow> bool" where
  "ctype_check cts i \<longleftrightarrow> 0 < i \<and> i < ct_top cts"

definition ctype_child :: "CTState \<Rightarrow> 32 word \<Rightarrow> 32 word" where
  "ctype_child cts i = ctype_cid (ct_info (ctype_get cts i))"

text \<open>The loops over attributes end when a type that is no attribute is reached.\<close>

partial_function (option) ctype_raw :: "CTState \<Rightarrow> 32 word \<Rightarrow> 32 word option" where
  "ctype_raw cts i =
     (if ctype_isattrib (ct_info (ctype_get cts i)) then ctype_raw cts (ctype_child cts i) else Some i)"

partial_function (option) ctype_rawchild :: "CTState \<Rightarrow> 32 word \<Rightarrow> 32 word option" where
  "ctype_rawchild cts i =
     (let j = ctype_child cts i in
      if ctype_isattrib (ct_info (ctype_get cts j)) then ctype_rawchild cts j else Some j)"

section \<open>What the checks mean\<close>

lemma and_pow: "(x :: 32 word) AND push_bit k 1 = (if bit x k then push_bit k 1 else 0)"
  by (intro bit_word_eqI) (auto simp: bit_simps)

lemma flag_bits:
  "x AND CTF_BOOL = (if bit x 27 then 0x08000000 else 0)" "x AND CTF_FP = (if bit x 26 then 0x04000000 else 0)"
  "x AND CTF_REF = (if bit x 23 then 0x00800000 else 0)" "x AND CTF_VLA = (if bit x 20 then 0x00100000 else 0)"
  "x AND CTF_VECTOR = (if bit x 27 then 0x08000000 else 0)" "x AND CTF_COMPLEX = (if bit x 26 then 0x04000000 else 0)"
  using and_pow [of x 27] and_pow [of x 26] and_pow [of x 23] and_pow [of x 20]
  by (simp_all add: ct_flags)

lemma num_bits:
  "x AND CTMASK_NUM = (if bit x 31 then 0x80000000 else 0) OR (if bit x 30 then 0x40000000 else 0) OR
     (if bit x 29 then 0x20000000 else 0) OR (if bit x 28 then 0x10000000 else 0)"
proof -
  have m: "CTMASK_NUM = push_bit 31 1 OR push_bit 30 1 OR push_bit 29 1 OR push_bit 28 1" by (simp add: CTMASK_NUM_def)
  show ?thesis unfolding m bit.conj_disj_distrib and_pow by simp
qed

lemma type_bits:
  "ctype_type x = (if bit x 31 then 8 else 0) OR (if bit x 30 then 4 else 0) OR
     (if bit x 29 then 2 else 0) OR (if bit x 28 then 1 else 0)"
proof -
  have m: "CTMASK_NUM = push_bit 28 (mask 4)" by (simp add: CTMASK_NUM_def mask_eq_exp_minus_1)
  have "drop_bit 28 x = drop_bit 28 (x AND CTMASK_NUM)"
    unfolding m by (intro bit_word_eqI) (auto simp: bit_simps dest: bit_imp_le_length)
  then show ?thesis unfolding num_bits ctype_type_def CTSHIFT_NUM_def by simp
qed

lemma vltype_mask: "(CTMASK_NUM OR CTF_VLA) - push_bit CTSHIFT_NUM 2 = 0xd0000000 OR CTF_VLA"
  "x AND (0xd0000000 OR CTF_VLA) = (if bit x 31 then 0x80000000 else 0) OR (if bit x 30 then 0x40000000 else 0) OR
     (if bit x 28 then 0x10000000 else 0) OR (x AND CTF_VLA)"
proof -
  show "(CTMASK_NUM OR CTF_VLA) - push_bit CTSHIFT_NUM 2 = 0xd0000000 OR CTF_VLA" by (simp add: ct_flags)
  have m: "(0xd0000000 :: 32 word) = push_bit 31 1 OR push_bit 30 1 OR push_bit 28 1" by simp
  show "x AND (0xd0000000 OR CTF_VLA) = (if bit x 31 then 0x80000000 else 0) OR (if bit x 30 then 0x40000000 else 0) OR
     (if bit x 28 then 0x10000000 else 0) OR (x AND CTF_VLA)"
    unfolding m bit.conj_disj_distrib and_pow by (simp add: ac_simps)
qed

text \<open>
  The combined checks, one comparison of masked bits each, are the checks of the type and of the flags: also
  the two that cover two types at once by leaving out a bit of the type (\<open>ctype_ispointer\<close> and
  \<open>ctype_isvltype\<close>).
\<close>

theorem ctype_checks_mean:
  "ctype_isinteger x = (ctype_isnum x \<and> x AND CTF_BOOL = 0 \<and> x AND CTF_FP = 0) \<and>
   ctype_isinteger_or_bool x = (ctype_isnum x \<and> x AND CTF_FP = 0) \<and>
   ctype_isbool x = (ctype_isnum x \<and> x AND CTF_BOOL \<noteq> 0) \<and>
   ctype_isfp x = (ctype_isnum x \<and> x AND CTF_FP \<noteq> 0) \<and>
   ctype_ispointer x = (ctype_isptr x \<or> ctype_isarray x) \<and>
   ctype_isref x = (ctype_isptr x \<and> x AND CTF_REF \<noteq> 0) \<and>
   ctype_isrefarray x = (ctype_isarray x \<and> x AND CTF_VECTOR = 0 \<and> x AND CTF_COMPLEX = 0) \<and>
   ctype_isvector x = (ctype_isarray x \<and> x AND CTF_VECTOR \<noteq> 0) \<and>
   ctype_iscomplex x = (ctype_isarray x \<and> x AND CTF_COMPLEX \<noteq> 0) \<and>
   ctype_isvltype x = ((ctype_isarray x \<or> ctype_isstruct x) \<and> x AND CTF_VLA \<noteq> 0) \<and>
   ctype_isvlarray x = (ctype_isarray x \<and> x AND CTF_VLA \<noteq> 0)"
  unfolding ctype_combined ctype_simple vltype_mask
  unfolding bit.conj_disj_distrib num_bits type_bits flag_bits CTINFO_def
  by (intro conjI; cases "bit x 31"; cases "bit x 30"; cases "bit x 29"; cases "bit x 28"; simp add: ct_nums ct_flags)

lemma ctype_isxattrib_iff:
  assumes "a \<le> 255"
  shows "ctype_isxattrib x a \<longleftrightarrow> ctype_isattrib x \<and> ctype_attrib x = a"
proof -
  have m: "CTMASK_NUM = push_bit 28 (mask 4)" "CTATTRIB CTMASK_ATTRIB = push_bit 16 (mask 8)" "(255 :: 32 word) = mask 8"
    by (simp_all add: ct_flags CTATTRIB_def mask_eq_exp_minus_1)
  have "x AND push_bit 28 (mask 4) = push_bit 28 (drop_bit 28 x)" "x AND push_bit 16 (mask 8) = push_bit 16 (drop_bit 16 x AND mask 8)"
    by (intro bit_word_eqI; auto simp: bit_simps)+
  then have x: "x AND (CTMASK_NUM OR CTATTRIB CTMASK_ATTRIB) = push_bit 28 (ctype_type x) OR push_bit 16 (ctype_attrib x)"
    unfolding m(1,2) bit.conj_disj_distrib by (simp add: ctype_fields ct_flags m(3))
  have low: "\<not> bit y k" if "8 \<le> k" "y \<le> 255" for y :: "32 word" and k
  proof -
    have "unat y < 2 ^ 8" using that(2) by (simp add: word_le_nat_alt)
    then show ?thesis using that(1) small_word_bits [of y 8 k] by auto
  qed
  have g: "ctype_attrib x \<le> 255" by (simp add: ctype_fields ct_flags word_and_le1 word_and_le2)
  have c: "CTINFO CT_ATTRIB (CTATTRIB a) = push_bit 28 8 OR push_bit 16 a"
  proof -
    have "push_bit 28 t + push_bit 16 a = push_bit 28 t OR push_bit 16 a" for t
    proof (rule disjunctive_add)
      show "\<not> bit (push_bit 28 t) n \<or> \<not> bit (push_bit 16 a) n" for n
        using low [of "n - 16" a] assms by (cases "28 \<le> n") (auto simp: bit_simps)
    qed
    from this [of 8] show ?thesis by (simp add: CTINFO_def CTATTRIB_def CT_ATTRIB_def ct_flags)
  qed
  have d: "drop_bit 28 (push_bit 28 t OR push_bit 16 y) = t AND mask 4" "drop_bit 16 (push_bit 28 t OR push_bit 16 y) AND mask 8 = y"
    if "y \<le> 255" for t y :: "32 word"
  proof -
    have l: "\<not> bit y (k - 16)" if "28 \<le> k" for k using low [of "k - 16" y] that \<open>y \<le> 255\<close> by simp
    have l': "\<not> bit y k" if "8 \<le> k" for k using low [OF that \<open>y \<le> 255\<close>] .
    show "drop_bit 28 (push_bit 28 t OR push_bit 16 y) = t AND mask 4"
      by (rule bit_word_eqI) (auto simp: bit_simps l' dest: bit_imp_le_length)
    show "drop_bit 16 (push_bit 28 t OR push_bit 16 y) AND mask 8 = y"
      by (rule bit_word_eqI) (use l' in \<open>auto simp: bit_simps not_le [symmetric]\<close>)
  qed
  have t: "ctype_type x AND mask 4 = ctype_type x"
    unfolding ctype_type_def CTSHIFT_NUM_def by (intro bit_word_eqI) (auto simp: bit_simps dest: bit_imp_le_length)
  have "ctype_isxattrib x a \<longleftrightarrow> push_bit 28 (ctype_type x) OR push_bit 16 (ctype_attrib x) = push_bit 28 8 OR push_bit 16 a"
    by (simp only: ctype_isxattrib_def x c)
  also have "\<dots> \<longleftrightarrow> ctype_type x = 8 \<and> ctype_attrib x = a"
  proof -
    have "(8 :: 32 word) AND mask 4 = 8" by (simp add: mask_eq_exp_minus_1)
    then show ?thesis using d [OF g, of "ctype_type x"] d [OF assms, of 8] t by metis
  qed
  finally show ?thesis by (simp add: ctype_isattrib_def CT_ATTRIB_def)
qed

section \<open>Walking the table\<close>

text \<open>
  A rank that decreases along the children of attributes makes the loops end at a type that is no attribute.
\<close>

definition attribs_descend :: "(32 word \<Rightarrow> nat) \<Rightarrow> CTState \<Rightarrow> bool" where
  "attribs_descend rank cts \<longleftrightarrow>
     (\<forall>i. ctype_isattrib (ct_info (ctype_get cts i)) \<longrightarrow> rank (ctype_child cts i) < rank i)"

lemma ctype_raw_returns:
  assumes "attribs_descend rank cts"
  shows "\<exists>j n. ctype_raw cts i = Some j \<and> j = (ctype_child cts ^^ n) i \<and>
    \<not> ctype_isattrib (ct_info (ctype_get cts j)) \<and> (\<forall>k < n. ctype_isattrib (ct_info (ctype_get cts ((ctype_child cts ^^ k) i))))"
proof (induction "rank i" arbitrary: i rule: less_induct)
  case less
  show ?case
  proof (cases "ctype_isattrib (ct_info (ctype_get cts i))")
    case False
    then show ?thesis by (subst ctype_raw.simps) (auto intro!: exI [of _ 0])
  next
    case True
    then have "rank (ctype_child cts i) < rank i" using assms by (simp add: attribs_descend_def)
    from less.hyps [OF this] obtain j n where j: "ctype_raw cts (ctype_child cts i) = Some j"
      "j = (ctype_child cts ^^ n) (ctype_child cts i)" "\<not> ctype_isattrib (ct_info (ctype_get cts j))"
      "\<forall>k < n. ctype_isattrib (ct_info (ctype_get cts ((ctype_child cts ^^ k) (ctype_child cts i))))" by blast
    have "\<forall>k < Suc n. ctype_isattrib (ct_info (ctype_get cts ((ctype_child cts ^^ k) i)))"
      using True j(4) by (auto simp: less_Suc_eq_0_disj funpow_swap1)
    then show ?thesis using True j by (subst ctype_raw.simps) (auto simp: funpow_swap1 intro!: exI [of _ "Suc n"])
  qed
qed

lemma ctype_rawchild_raw: "attribs_descend rank cts \<Longrightarrow> ctype_rawchild cts i = ctype_raw cts (ctype_child cts i)"
proof (induction "rank (ctype_child cts i)" arbitrary: i rule: less_induct)
  case less
  show ?case
  proof (cases "ctype_isattrib (ct_info (ctype_get cts (ctype_child cts i)))")
    case True
    then have "rank (ctype_child cts (ctype_child cts i)) < rank (ctype_child cts i)"
      using less.prems by (simp add: attribs_descend_def)
    from less.hyps [OF this less.prems] show ?thesis using True
      by (subst ctype_rawchild.simps, subst ctype_raw.simps) (simp add: Let_def)
  next
    case False
    then show ?thesis by (subst ctype_rawchild.simps, subst ctype_raw.simps) (simp add: Let_def)
  qed
qed

text \<open>The element 0 is an attribute of itself: a walk that reaches it never ends.\<close>

lemma ctype_raw_loops:
  "ctype_isattrib (ct_info (ctype_get cts i)) \<Longrightarrow> ctype_child cts i = i \<Longrightarrow> ctype_raw cts i = None"
proof -
  assume a: "ctype_isattrib (ct_info (ctype_get cts i))" "ctype_child cts i = i"
  have r: "c = cts \<longrightarrow> k \<noteq> i" if "ctype_raw c k = Some j" for c k j
  proof (rule ctype_raw.raw_induct [where P = "\<lambda>c k j. c = cts \<longrightarrow> k \<noteq> i"])
    fix f c k j
    assume "\<And>c k j. f c k = Some j \<Longrightarrow> c = cts \<longrightarrow> k \<noteq> i"
      "(if ctype_isattrib (ct_info (ctype_get c k)) then f c (ctype_child c k) else Some k) = Some j"
    then show "c = cts \<longrightarrow> k \<noteq> i" using a by (auto split: if_splits)
  qed (rule that)
  then show ?thesis by (cases "ctype_raw cts i") auto
qed

text \<open>
  \<open>ctype_raw\<close> and \<open>ctype_rawchild\<close> return, in a table whose attributes lead down some rank: the
  result is the first type along the children that is no attribute, and the raw child of a type is the raw
  type of its child.
\<close>

theorem ctype_raw_terminates:
  assumes "attribs_descend rank cts"
  shows "(\<exists>j n. ctype_raw cts i = Some j \<and> j = (ctype_child cts ^^ n) i \<and>
      \<not> ctype_isattrib (ct_info (ctype_get cts j)) \<and>
      (\<forall>k < n. ctype_isattrib (ct_info (ctype_get cts ((ctype_child cts ^^ k) i))))) \<and>
    ctype_rawchild cts i = ctype_raw cts (ctype_child cts i)"
  using ctype_raw_returns [OF assms] ctype_rawchild_raw [OF assms] by blast

definition demo_cts :: CTState where
  "demo_cts = \<lparr>ct_tab = (\<lambda>i. \<lparr>ct_info = if i = 25 then CTINFO CT_ATTRIB (CTATTRIB CTA_QUAL OR 9) else CTINFO CT_NUM 0,
     ct_size = 4, ct_sib = 0, ct_next = 0, ct_name = 0\<rparr>), ct_top = 26, ct_hash = (\<lambda>k. 0)\<rparr>"

text \<open>A qualified \<open>int32_t\<close> (element 25) is an \<open>int32_t\<close> (element 9).\<close>

theorem ctype_raw_terminates_witness: "ctype_raw demo_cts 25 = Some 9 \<and> ctype_rawchild demo_cts 25 = Some 9"
proof -
  have i: "ctype_isattrib (ct_info (ctype_get demo_cts k)) \<longleftrightarrow> k = 25" "ctype_child demo_cts 25 = 9" for k
    by (simp_all add: ctype_get_def demo_cts_def ctype_simple ctype_fields CTINFO_def CTATTRIB_def ct_nums ct_flags cta_nums
        ctype_child_def)
  have d: "attribs_descend (\<lambda>k. if k = 25 then 1 else 0) demo_cts" by (simp add: attribs_descend_def i)
  have "ctype_raw demo_cts 9 = Some 9" "ctype_raw demo_cts 25 = ctype_raw demo_cts 9"
    by (subst ctype_raw.simps, simp add: i)+
  then show ?thesis using ctype_raw_terminates [OF d, of 25] by (simp add: i(2))
qed

lemma decl_tokens:
  "CTOK_FIRSTDECL = 269" "CTOK_LASTDECLFLAG = 288" "CTOK_FIRSTSCL = 284" "CTOK_LASTDECL = 297" "CDF_SCL = 0xf8000"
  by (simp_all add: CTOK_FIRSTDECL_def CTOK_LASTDECLFLAG_def CTOK_FIRSTSCL_def CTOK_LASTDECL_def CDF_SCL_def CDF_def
      CTOK_def CTOKDEF_def CKWDEF_def CDSDEF_def CTOK_OFS_def)

end
