(* ===== verification/LJ_Table.thy ===== *)
theory LJ_Table
  imports LJ_Object
begin

text \<open>
  \<open>LuaJit/include/lj_tab.h\<close>: scrambling of hash keys in its two variants, the choice of the
  hash node, sizes of the hash part, and access to the array part, on the memory of
  \<open>LJ_Object\<close>. The out-of-line lookups (\<open>lj_tab_getinth\<close>, \<open>lj_tab_setinth\<close>) are parameters.
\<close>

section \<open>Hashing\<close>

definition HASH_BIAS :: "32 word" where "HASH_BIAS = - 0x04c11db7"

definition HASH_ROT1 :: nat where "HASH_ROT1 = 14"

definition HASH_ROT2 :: nat where "HASH_ROT2 = 5"

definition HASH_ROT3 :: nat where "HASH_ROT3 = 13"

lemmas hash_rots = HASH_ROT1_def HASH_ROT2_def HASH_ROT3_def

text \<open>The variant for x86 and x64, and the one for the other targets.\<close>

definition hashrot_x86 :: "32 word \<Rightarrow> 32 word \<Rightarrow> 32 word" where
  "hashrot_x86 lo hi =
     (let lo = lo XOR hi; hi = lj_rol hi HASH_ROT1;
          lo = lo - hi; hi = lj_rol hi HASH_ROT2;
          hi = hi XOR lo; hi = hi - lj_rol lo HASH_ROT3 in hi)"

definition hashrot :: "32 word \<Rightarrow> 32 word \<Rightarrow> 32 word" where
  "hashrot lo hi =
     (let lo = lo XOR hi;
          lo = lo - lj_rol hi HASH_ROT1;
          hi = lo XOR lj_rol hi (HASH_ROT1 + HASH_ROT2);
          hi = hi - lj_rol lo HASH_ROT3 in hi)"

lemma bit_lj_rol:
  assumes "0 < n" "n < 32"
  shows "bit (lj_rol x n) k \<longleftrightarrow> k < 32 \<and> bit x ((k + (32 - n)) mod 32)"
proof -
  have m: "(32 - n) mod 32 = 32 - n" using assms by simp
  show ?thesis
  proof (cases "n \<le> k")
    case True
    have "\<not> bit x (k + (32 - n))" using True assms by (auto dest!: bit_lt)
    moreover have "(k + (32 - n)) mod 32 = k - n" if "k < 32"
      using True that assms by (subst le_mod_geq) auto
    ultimately show ?thesis using True unfolding lj_rol_def m
      by (auto simp: bit_or_iff bit_push_bit_iff bit_drop_bit_eq ac_simps)
  next
    case False
    then have "k + (32 - n) < 32" using assms by linarith
    then have "(k + (32 - n)) mod 32 = k + (32 - n)" by (rule mod_less)
    then show ?thesis using False unfolding lj_rol_def m
      by (auto simp: bit_or_iff bit_push_bit_iff bit_drop_bit_eq ac_simps)
  qed
qed

lemma rol_rol:
  assumes "0 < a" "0 < b" "a + b < 32" shows "lj_rol (lj_rol x a) b = lj_rol x (a + b)"
proof (rule bit_word_eqI)
  fix k assume k: "k < LENGTH(32)"
  have "((k + (32 - b)) mod 32 + (32 - a)) mod 32 = ((k + (32 - (a + b))) + 32) mod 32"
  proof -
    have "(32 - b) + (32 - a) = (32 - (a + b)) + 32" using assms by linarith
    then show ?thesis by (metis add.assoc mod_add_left_eq)
  qed
  then have "((k + (32 - b)) mod 32 + (32 - a)) mod 32 = (k + (32 - (a + b))) mod 32" by simp
  then show "bit (lj_rol (lj_rol x a) b) k = bit (lj_rol x (a + b)) k"
    using assms k by (simp add: bit_lj_rol)
qed

text \<open>
  The variant of the key scrambling written for two-operand processors computes the same
  hash as the generic one, so a table built by one target's code is read by another's.
\<close>

theorem hashrot_variants: "hashrot_x86 lo hi = hashrot lo hi"
  by (simp add: hashrot_x86_def hashrot_def Let_def hash_rots rol_rol xor.commute)

section \<open>Nodes\<close>

definition hmask :: "mem \<Rightarrow> 64 word \<Rightarrow> 32 word" where
  "hmask m t = ucast (mload 4 m (fld GCtab_s ''hmask'' t))"

definition hashmask :: "mem \<Rightarrow> 64 word \<Rightarrow> 32 word \<Rightarrow> 64 word" where
  "hashmask m t hash = noderef m (fld GCtab_s ''node'' t) + szof Node_s * ucast (hash AND hmask m t)"

definition hashstr :: "mem \<Rightarrow> 64 word \<Rightarrow> 64 word \<Rightarrow> 64 word" where
  "hashstr m t s = hashmask m t (ucast (mload 4 m (fld GCstr_s ''sid'' s)))"

definition hashlohi :: "mem \<Rightarrow> 64 word \<Rightarrow> 32 word \<Rightarrow> 32 word \<Rightarrow> 64 word" where
  "hashlohi m t lo hi = hashmask m t (hashrot lo hi)"

definition hashnum :: "mem \<Rightarrow> 64 word \<Rightarrow> 64 word \<Rightarrow> 64 word" where
  "hashnum m t u = hashlohi m t (ucast u) (push_bit 1 (ucast (drop_bit 32 u)))"

definition hashgcref :: "mem \<Rightarrow> 64 word \<Rightarrow> 64 word \<Rightarrow> 64 word" where
  "hashgcref m t r = hashlohi m t (ucast r) (ucast (drop_bit 32 r))"

text \<open>Every hash selects one of the nodes 0 to \<open>hmask\<close>, and the two zeros the same one.\<close>

lemma hashmask_in_part:
  "\<exists>i \<le> unat (hmask m t). hashmask m t h = noderef m (fld GCtab_s ''node'' t) + 24 * of_nat i"
proof -
  have "h AND hmask m t \<le> hmask m t" by (rule word_and_le1)
  then have "unat (h AND hmask m t) \<le> unat (hmask m t)" by (simp add: word_le_nat_alt)
  moreover have "hashmask m t h = noderef m (fld GCtab_s ''node'' t) + 24 * of_nat (unat (h AND hmask m t))"
    by (simp add: hashmask_def)
  ultimately show ?thesis by blast
qed

lemma hashnum_zeros: "hashnum m t 0x8000000000000000 = hashnum m t 0"
proof -
  have "ucast (0x8000000000000000 :: 64 word) = (0 :: 32 word)"
    "push_bit 1 (ucast (drop_bit 32 (0x8000000000000000 :: 64 word))) = (0 :: 32 word)"
    by (rule word_unat_eq_iff [THEN iffD2], simp)+
  then show ?thesis unfolding hashnum_def by (simp only: drop_bit_of_0 unsigned_0 push_bit_of_0)
qed

definition hsize2hbits :: "32 word \<Rightarrow> nat" where
  "hsize2hbits s = (if s \<noteq> 0 then (if s = 1 then 1 else 1 + lj_fls (s - 1)) else 0)"

text \<open>
  The number of bits is that of the smallest power of two, from two on, that is at least the size.
\<close>

lemma bit_unat_bound: "bit (x :: 32 word) k \<Longrightarrow> (\<And>j. j > k \<Longrightarrow> \<not> bit x j) \<Longrightarrow> 2 ^ k \<le> unat x \<and> unat x < 2 ^ (k + 1)"
proof
  assume b: "bit x k" and hi: "\<And>j. j > k \<Longrightarrow> \<not> bit x j"
  have "take_bit (k + 1) x = x"
    using hi by (intro bit_word_eqI) (auto simp: bit_take_bit_iff, meson linorder_not_less not_less_eq)
  then show "unat x < 2 ^ (k + 1)" by (metis unsigned_take_bit_eq take_bit_nat_less_exp)
  have "bit (unat x) k" using b by (auto simp: bit_unsigned_iff dest: bit_lt)
  then have "unat x div 2 ^ k \<noteq> 0" by (metis bit_iff_odd dvd_0_right)
  then show "2 ^ k \<le> unat x" by (metis div_less linorder_not_less)
qed

lemma hsize2hbits_smallest:
  "2 \<le> unat s \<Longrightarrow> 2 ^ (hsize2hbits s - 1) < unat s \<and> unat s \<le> 2 ^ hsize2hbits s"
proof -
  assume s: "2 \<le> unat s"
  have u: "unat (s - 1) = unat s - 1" using s by (metis One_nat_def Suc_1 Suc_leD unat_minus_one unat_1 not_one_le_zero unat_0)
  then have "s - 1 \<noteq> 0" "s \<noteq> 0" "s \<noteq> 1" using s by auto
  moreover from this have "2 ^ lj_fls (s - 1) \<le> unat (s - 1) \<and> unat (s - 1) < 2 ^ (lj_fls (s - 1) + 1)"
    using lj_fls_last [of "s - 1"] by (intro bit_unat_bound) auto
  ultimately show ?thesis using u s by (simp add: hsize2hbits_def) linarith
qed

section \<open>The array part\<close>

definition inarray :: "mem \<Rightarrow> 64 word \<Rightarrow> 32 word \<Rightarrow> bool" where
  "inarray m t key \<longleftrightarrow> key < ucast (mload 4 m (fld GCtab_s ''asize'' t))"

definition arrayslot :: "mem \<Rightarrow> 64 word \<Rightarrow> 32 word \<Rightarrow> 64 word" where
  "arrayslot m t i = mref m (fld GCtab_s ''array'' t) + 8 * scast i"

definition lj_tab_getint :: "(mem \<Rightarrow> 64 word \<Rightarrow> 32 word \<Rightarrow> 64 word) \<Rightarrow> mem \<Rightarrow> 64 word \<Rightarrow> 32 word \<Rightarrow> 64 word" where
  "lj_tab_getint getinth m t key = (if inarray m t key then arrayslot m t key else getinth m t key)"

definition lj_tab_setint :: "(mem \<Rightarrow> 64 word \<Rightarrow> 32 word \<Rightarrow> 64 word \<times> mem) \<Rightarrow> mem \<Rightarrow> 64 word \<Rightarrow> 32 word
    \<Rightarrow> 64 word \<times> mem" where
  "lj_tab_setint setinth m t key = (if inarray m t key then (arrayslot m t key, m) else setinth m t key)"

text \<open>A negative key is never in an array of fewer than \<open>2 ^ 31\<close> slots: the comparison is unsigned.\<close>

lemma negative_key_not_inarray:
  "key <s 0 \<Longrightarrow> unat (mload 4 m (fld GCtab_s ''asize'' t)) < 2 ^ 31 \<Longrightarrow> \<not> inarray m t key"
proof
  assume n: "key <s 0" and a: "unat (mload 4 m (fld GCtab_s ''asize'' t)) < 2 ^ 31" and i: "inarray m t key"
  define a32 :: "32 word" where "a32 = ucast (mload 4 m (fld GCtab_s ''asize'' t))"
  have "unat a32 < 2 ^ 31"
    using a le_less_trans [OF take_bit_nat_less_eq_self]
    by (simp add: a32_def unsigned_ucast_eq unsigned_take_bit_eq)
  then have "unat key < 2 ^ 31" using i by (simp add: inarray_def word_less_nat_alt flip: a32_def)
  then have "\<not> bit key 31" using small_word_bits [of key 31 31] by auto
  then show False using n by (simp add: word_sless_alt sint_0 bit_last_iff [of key, symmetric])
qed

end
