(* ===== verification/Spec2Isabelle.thy ===== *)
theory Spec2Isabelle
  imports Session_Read Session_Write Frame_Codec Logic_System Upload Upload_Errors Startup
    LJ_Bytecode LJ_Arm64_Guard LJ_Arm_Sem LJ_Ppc_Sem LJ_Mips_Sem LJ_X86_Comp LJ_Buffer LJ_Frame LJ_Ctype LJ_Table LJ_IR
begin

text \<open>
  LLFC_ResourceServer is a small file server over TCP. A client sends frames (a 16 bit message
  id, a 32 bit length, both in network order, and the payload); the server echoes test messages
  and stores files that are uploaded in packets. The program is linked against LuaJIT, whose
  interface and internal headers are part of the repository and make up most of its code.

  The server (\<open>ResourceServer/\<close>), in the order a request passes through it:

    \<^item> \<open>Global_Defs\<close> (\<open>include/global.hpp\<close>): limits, message ids and status codes, \<open>Assert\<close> (whose body exists
      in debug builds only, the parameter \<open>dbg\<close>), \<open>Defer\<close>, \<open>base64_decode\<close> over OpenSSL's filter.
    \<^item> \<open>Msg_Node\<close> (\<open>msgnode.h\<close>, \<open>msgnode.cpp\<close>): receive and send nodes as records over byte arrays; every
      access is checked and an access outside is the value \<open>Inl\<close> of a fault.
    \<^item> \<open>CSession\<close>, \<open>Session_Read\<close>, \<open>Session_Write\<close> (\<open>csession.h\<close>, \<open>csession.cpp\<close>): the session record, the
      read loop header/body/post, and the send queue with its write handler, as functions and as the step relation \<open>wstep\<close> of
      the threads, whose steps are the single statements that touch the queue. \<open>write_handler\<close> does not take the lock
      of \<open>send\<close>; \<open>collides\<close> is the window this opens, \<open>orderly\<close> a run that stays out of it, and what is shown for
      orderly runs only says so. A run of the read loop
      is driven by the bytes the peer sends; the fuel is the number of completions, and \<open>Session_Read\<close> shows
      that a number linear in the input is always enough.
    \<^item> \<open>Frame_Codec\<close>: the wire format as a prefix code, the decoder of a correct peer.
    \<^item> \<open>Logic_System\<close> (\<open>logicsystem.h\<close>, \<open>logicsystem.cpp\<close>): the message queue, the worker thread, its condition
      variable and the destructor as the step relation \<open>lstep\<close>.
    \<^item> \<open>File_System\<close>, \<open>Upload\<close>, \<open>Upload_Errors\<close> (\<open>logicsystem.cpp\<close>): the callbacks. The JSON library is a record
      of functions (a parameter), the file system is a map from paths to contents with the documented
      behaviour of the standard library's streams.
    \<^item> \<open>Io_Pool\<close>, \<open>Server\<close>, \<open>Startup\<close> (\<open>ioservicepool.*\<close>, \<open>cserver.*\<close>, \<open>ResourceServer.cpp\<close>): the pool of contexts,
      the accept loop with its session table as a step relation (\<open>srv_step\<close>, with the reads, posted messages and writes
      of all sessions, their failures included), and the start of the program.
    \<^item> This theory composes them: \<open>echo_request\<close> follows one request through reading, queue, worker and
      the send queue.

  The interfaces between these parts are the locales of \<open>RS_Interfaces\<close> (transition systems with an
  invariant, prefix codes, queues, keyed stores); each is interpreted on the code's own definitions in the
  theory of the component that provides it.

  LuaJIT (\<open>LuaJit/include/\<close>); C integers are words of their width, C pointers are words, memory is a
  function from addresses to bytes:

    \<^item> \<open>LJ_Bits\<close> (\<open>lj_def.h\<close>, \<open>lj_char.h\<close>): rotations, bit scans, range checks, Bloom filter, character classes.
    \<^item> \<open>LJ_Bytecode\<close> (\<open>lj_bc.h\<close>): instruction fields, the instruction table and its packed modes.
    \<^item> \<open>LJ_Target\<close> (\<open>lj_target.h\<close>): register sets as words, refined to finite sets, and the search loop over a
      set (\<open>try_regs\<close>), whose fuel of one round per register is enough (\<open>try_regs_none\<close>).
    \<^item> \<open>LJ_Arm64\<close>, \<open>LJ_Emit_Arm64\<close>, \<open>LJ_Arm64_Sem\<close>; \<open>LJ_Arm\<close>, \<open>LJ_Arm_Sem\<close>; \<open>LJ_Ppc\<close>, \<open>LJ_Ppc_Sem\<close>;
      \<open>LJ_Mips\<close>, \<open>LJ_Mips_Sem\<close>; \<open>LJ_Imm\<close>
      (\<open>lj_target_*.h\<close>, \<open>lj_emit_*.h\<close>): registers, opcode words and instruction emitters of four
      back ends. The state is the list of words emitted (newest first, as the code area grows down). The \<open>Sem\<close>
      theories define what the emitted words do to the registers of a processor, and show that loading a
      constant loads that constant whichever encoding the emitter picks, that encoded operands are exact, and
      where an address is computed wrongly. The register allocator (\<open>lj_asm.c\<close>, which is not in the repository)
      is a parameter; what it keeps about registers that hold constants is the hypothesis \<open>holds_consts\<close> and its
      variants.
    \<^item> \<open>LJ_X86\<close>, \<open>LJ_Emit_X86\<close>, \<open>LJ_X86_Decode\<close>, \<open>LJ_X86_Sem\<close> (\<open>lj_target_x86.h\<close>, \<open>lj_emit_x86.h\<close>): the x64 back end,
      whose instructions have variable length; the state is the list of bytes. A decoder for prefixes, opcodes,
      ModRM and SIB bytes reads back what the emitter was asked for, and the instructions that load
      constants, jump and call are executed.
    \<^item> \<open>LJ_X86_Inslen\<close>, \<open>LJ_X86_Patch\<close>, \<open>LJ_X86_Exit\<close>, \<open>LJ_X86_Loop\<close>, \<open>LJ_X86_Comp\<close> (\<open>lj_asm_x86.h\<close>): how compiled
      traces are left and linked on x64. The length decoder agrees with the emitter and steps through a trace whose
      exits are linked to another one, and shows what is linked and what is not; the loops over the bytes are least solutions (\<open>partial_function\<close>), shown to
      return. Exit stubs are run on the memory of the code area. The branch at the end of a loop or trace and the
      guards of comparisons are run with the flags as input (\<open>lands\<close>). Of a comparison of numbers the guards are
      modelled (\<open>comp_guards\<close>); the code in front of them, from \<open>asm_fuseload\<close> and the register allocator, is not, and the
      flags the guards find are a premise.
    \<^item> \<open>LJ_Arm64_Exit\<close>, \<open>LJ_Arm64_Loop\<close>, \<open>LJ_Arm64_Guard\<close> (\<open>lj_asm_arm64.h\<close>): the same for ARM64: linking of exits
      (\<open>arm64_patchexit_links\<close>), exit stubs, the three kinds of guards, the branch of a loop and the tail of a trace,
      for a little-endian host.
    \<^item> \<open>LJ_Layout\<close>, \<open>LJ_Value\<close>, \<open>LJ_Object\<close> (\<open>lj_obj.h\<close>): structure layouts for a 64 bit target with 64 bit
      references, tagged values, and the accessor macros on memory.
    \<^item> \<open>LJ_Collector\<close> (\<open>lj_gc.h\<close>): colours and write barriers, and the invariant that no black object refers to a
      white one. \<open>LJ_Table\<close> (\<open>lj_tab.h\<close>): hashing and array access.
    \<^item> \<open>LJ_Buffer\<close> (\<open>lj_buf.h\<close>): string buffers, shown to be lists of bytes that grow. \<open>LJ_Frame\<close>
      (\<open>lj_frame.h\<close>): the frames of the Lua stack, the walk over them, and the C frames of every target.
    \<^item> \<open>LJ_Ctype\<close> (\<open>lj_ctype.h\<close>): type information of the foreign function interface; the walk through
      attributes may loop, so it is a \<open>partial_function\<close>, shown to end on tables whose attributes descend.
    \<^item> \<open>LJ_IR\<close> (\<open>lj_ir.h\<close>): the intermediate code, its instruction table, types and tagged references.

  Not modelled. The older stream parser behind the unconditional return of \<open>CSession::start\<close> (\<open>csession.cpp\<close>,
  lines 51 to 140) can never run, and its calls of \<open>start\<close> would lead to \<open>read_head\<close>, not back to it. Sockets, threads and timers are asio's: the models take the order of completions as
  input or as nondeterminism. Logging has no effect on the state. The signal handling of \<open>run\<close> only stops the main
  context. The test drivers under \<open>Test/\<close> print and sleep (their framing is in \<open>Startup\<close>). The machine code
  generators \<open>lj_asm_*.h\<close> are included by \<open>lj_asm.c\<close> and work on its state and helpers; that file, like all C files of
  LuaJIT, is not in the repository. What they do by themselves is modelled, the selection of instructions for each
  intermediate instruction, which is mostly calls of the register allocator of that file, is not. The API headers (\<open>lua.h\<close>, \<open>lauxlib.h\<close>, \<open>lj_lib.h\<close> and the like)
  declare functions whose bodies are in the library.
\<close>

section \<open>A request through the whole server\<close>

text \<open>What the worker does for a call: \<open>m_callback_handler[msg_id]\<close> on the session and the files.\<close>

definition run_callback :: "'j json_api \<Rightarrow> os_env \<Rightarrow> (bytes \<Rightarrow> nat \<Rightarrow> int \<times> bytes) \<Rightarrow> bytes option
    \<Rightarrow> bool \<Rightarrow> endian \<Rightarrow> (nat \<Rightarrow> byte) \<Rightarrow> call \<Rightarrow> csession \<times> fsys
    \<Rightarrow> fault + (csession \<times> fsys) \<times> bytes option" where
  "run_callback api env bio_read cfg_root dbg e junk c st =
     (case call_cb c of
        Test_send \<Rightarrow>
          bind_f (test_send e junk (call_id c) (call_data c) (fst st)) (\<lambda>(s, w).
          Inr ((s, snd st), w))
      | Do_upload_file_req \<Rightarrow>
          do_upload_file_req api env bio_read cfg_root dbg e junk (call_data c) st)"

lemma registered_test: "register_callback E_ID_TEST_MSG_REQ = Some Test_send"
  by (simp add: register_callback_def req_ids)

lemma test_send_replies:
  assumes "m_send_queue s = []" "length d + 8 \<le> 2 ^ 32"
  shows "\<exists>s'. test_send e junk i d s = Inr (s', Some (frame E_ID_TEST_MSG_RSP d))"
proof -
  have n: "narrowed d = length d" using assms(2) by (simp add: narrowed_def)
  then obtain nd where nd: "send_node_of e junk E_ID_TEST_MSG_RSP d = Inr nd"
    using send_node_of_iff assms(2) by fastforce
  then show ?thesis
    using send_node_of_wire(1) [OF nd] assms(1) n
    by (auto simp: test_send_def send_def Let_def q_push_def q_front_def)
qed

text \<open>
  C1. A test request is echoed. A client connected to a fresh session sends the frame of id
  1001 with a payload that has no zero byte (and, in a debug build, is not empty). However
  the bytes that follow look, the session reads exactly that frame, posts one node and is
  ready for the rest; the idle worker takes the node and makes one call, of \<open>test_send\<close> with
  the payload; and that call starts the write of one frame, id 1002 with the same payload.
\<close>

theorem echo_request:
  assumes "CSession_new junk0 uuid = Inr s0" "start s0 = Inr s"
    and "length d < 2 ^ 31" "0 \<notin> set d" "dbg \<longrightarrow> d \<noteq> []"
  shows "\<exists>s1 nd l c s2.
    session_run dbg e junk (frame_fuel d + fuel) s (frame E_ID_TEST_MSG_REQ d @ rest) =
      (Post_message nd # fst (session_run dbg e junk fuel s1 rest),
       snd (session_run dbg e junk fuel s1 rest)) \<and>
    (lstep Worker)\<^sup>*\<^sup>* (post_message nd LogicSystem_new) l \<and> m_logic_que l = [] \<and>
    l_calls l = [c] \<and> call_session c = uuid \<and>
    run_callback api env bio_read cfg_root dbg e junk2 c (s1, fs) =
      Inr ((s2, fs), Some (frame E_ID_TEST_MSG_RSP d))"
proof -
  let ?nd = "\<lparr>ln_session = uuid, ln_recv_node = full_node E_ID_TEST_MSG_REQ d\<rparr>"
  let ?c = "\<lparr>call_cb = Test_send, call_session = uuid, call_id = E_ID_TEST_MSG_REQ, call_data = d\<rparr>"
  let ?s1 = "idle s0 (Some (full_node E_ID_TEST_MSG_REQ d))"
  have s: "s = idle s0 (m_recv_node s0)" and sid: "m_session_id s0 = uuid"
    using assms(1,2) start_ok [OF sess_wf_new [OF assms(1)]] CSession_new_fields [OF assms(1)]
    by auto
  have q: "m_send_queue ?s1 = []"
    using CSession_new_fields [OF assms(1)] by (simp add: idle_def)
  have "session_run dbg e junk (frame_fuel d + fuel) s (frame E_ID_TEST_MSG_REQ d @ rest) =
      (Post_message ?nd # fst (session_run dbg e junk fuel ?s1 rest),
       snd (session_run dbg e junk fuel ?s1 rest))"
    using session_run_frame [OF assms(3,5)] by (simp add: s sid split_beta)
  moreover obtain l where "(lstep Worker)\<^sup>*\<^sup>* (post_message ?nd LogicSystem_new) l"
    "m_logic_que l = []" "l_posted l = [?nd]"
    using worker_drains [of "post_message ?nd LogicSystem_new"]
    by (auto simp: post_message_def LogicSystem_new_def awake_def notify_def)
  moreover from this have "l_calls l = calls_of [?nd]"
    using linv_worker_steps [OF lq.inv_reachable [OF posted_reachable]] by (fastforce simp: linv_def)
  then have "l_calls l = [?c]"
    using assms(4)
    by (simp add: dispatch_def get_msgID_def full_node_def part_node_def registered_test)
  moreover have "call_session ?c = uuid" by simp
  moreover obtain s2 where "run_callback api env bio_read cfg_root dbg e junk2 ?c (?s1, fs) =
      Inr ((s2, fs), Some (frame E_ID_TEST_MSG_RSP d))"
    using test_send_replies [OF q, of d e junk2 E_ID_TEST_MSG_REQ] assms(3)
    by (auto simp: run_callback_def)
  ultimately show ?thesis by blast
qed

theorem echo_request_witness:
  "\<exists>s0 s s1 nd l c s2. CSession_new (\<lambda>_. 3) ''u1'' = Inr s0 \<and> start s0 = Inr s \<and>
    session_run True Little (\<lambda>_ _. 9) (frame_fuel [104, 105] + 5) s
      (frame E_ID_TEST_MSG_REQ [104, 105] @ [1, 2]) =
      (Post_message nd # fst (session_run True Little (\<lambda>_ _. 9) 5 s1 [1, 2]),
       snd (session_run True Little (\<lambda>_ _. 9) 5 s1 [1, 2])) \<and>
    (lstep Worker)\<^sup>*\<^sup>* (post_message nd LogicSystem_new) l \<and> l_calls l = [c] \<and>
    run_callback no_fields_api all_env plain_bio None True Little (\<lambda>_. 9) c
      (s1, \<lparr>fs_files = Map.empty, fs_dirs = []\<rparr>) =
      Inr ((s2, \<lparr>fs_files = Map.empty, fs_dirs = []\<rparr>), Some (frame E_ID_TEST_MSG_RSP [104, 105]))"
proof -
  obtain s0 where s0: "CSession_new (\<lambda>_. 3) ''u1'' = Inr s0" using CSession_new_ok by blast
  then obtain s where s: "start s0 = Inr s" using start_ok [OF sess_wf_new] by blast
  from echo_request [OF s0 s, of "[104, 105]" True Little "\<lambda>_ _. 9" 5 "[1, 2]" no_fields_api all_env
      plain_bio None "\<lambda>_. 9" "\<lparr>fs_files = Map.empty, fs_dirs = []\<rparr>"] s0 s
  show ?thesis by simp metis
qed

end
